(* ===== verification/Prelude.thy ===== *)
theory Prelude
  imports Main "HOL-Library.Word" "HOL-Library.Signed_Division" "HOL-Library.Monad_Syntax"
begin

text \<open>
  Shared vocabulary of the development: machine integer types, little-endian words, bounds-checked
  buffer reads, the arithmetic right shift the C code spells out as a floor division, and the
  row-major pixel loop that most image routines are written with.
\<close>

unbundle bit_operations_syntax

declare add_2_eq_Suc [simp del] add_2_eq_Suc' [simp del]

type_synonym u8 = "8 word"
type_synonym u16 = "16 word"
type_synonym u32 = "32 word"
type_synonym u64 = "64 word"
type_synonym status = int

named_theorems byte_simps \<open>reading back what a little-endian writer emitted\<close>
named_theorems rd_simps \<open>bounds-checked reads inside the buffer succeed\<close>

definition SIZE_MAX :: nat where
  "SIZE_MAX = 18446744073709551615"

definition INT32_MAX :: nat where
  "INT32_MAX = 2147483647"

subsection \<open>Integers\<close>

definition shift_floor :: "int \<Rightarrow> nat \<Rightarrow> int" where
  "shift_floor value bits =
     (let divisor = 2 ^ bits
      in if 0 \<le> value then value div divisor else - ((- value + divisor - 1) div divisor))"

definition signed_u32 :: "u32 \<Rightarrow> int" where
  "signed_u32 value =
     (if uint value \<le> 2147483647 then uint value else uint value - 4294967296)"

definition signed_u16 :: "u16 \<Rightarrow> int" where
  "signed_u16 value = (if uint value \<le> 32767 then uint value else uint value - 65536)"

lemma shift_floor_div [simp]: "shift_floor v b = v div 2 ^ b"
proof (cases "0 \<le> v")
  case True
  then show ?thesis by (simp add: shift_floor_def)
next
  case False
  define d :: int where "d = 2 ^ b"
  have d: "0 < d" by (simp add: d_def)
  have "- v + d - 1 = d * - (v div d) + (d - 1 - v mod d)"
    using mult_div_mod_eq [of d v] by (simp add: algebra_simps)
  moreover have "0 \<le> d - 1 - v mod d" "d - 1 - v mod d < d"
    using d pos_mod_bound [OF d, of v] pos_mod_sign [OF d, of v] by linarith+
  ultimately have "(- v + d - 1) div d = - (v div d)"
    by (metis int_div_pos_eq)
  with False show ?thesis by (simp add: shift_floor_def d_def)
qed

lemma div_top_half:
  fixes u h :: int
  assumes "0 \<le> u" "u < 2 * h"
  shows "u div h = (if u < h then 0 else 1)"
proof (cases "u < h")
  case True
  with assms show ?thesis by simp
next
  case False
  with assms have "u div h = 1"
    by (intro int_div_pos_eq [where r = "u - h"]) auto
  with False show ?thesis by simp
qed

lemma signed_u32_sint [simp]: "signed_u32 w = sint w"
proof -
  have "uint w < 4294967296" using uint_lt2p [of w] by simp
  then have "odd (uint w div 2147483648) \<longleftrightarrow> \<not> uint w \<le> 2147483647"
    by (simp add: div_top_half)
  moreover have "uint w mod 4294967296 = uint w"
    using \<open>uint w < 4294967296\<close> by simp
  ultimately show ?thesis
    by (simp add: signed_u32_def sint_uint signed_take_bit_eq_take_bit_minus
        take_bit_eq_mod bit_iff_odd)
qed

lemma signed_u16_sint [simp]: "signed_u16 w = sint w"
proof -
  have "uint w < 65536" using uint_lt2p [of w] by simp
  then have "odd (uint w div 32768) \<longleftrightarrow> \<not> uint w \<le> 32767"
    by (simp add: div_top_half)
  moreover have "uint w mod 65536 = uint w"
    using \<open>uint w < 65536\<close> by simp
  ultimately show ?thesis
    by (simp add: signed_u16_def sint_uint signed_take_bit_eq_take_bit_minus
        take_bit_eq_mod bit_iff_odd)
qed

lemma sint_u16_range: "- 32768 \<le> sint (w :: u16)" "sint (w :: u16) \<le> 32767"
  using sint_greater_eq [of w] sint_less [of w] by auto

lemma sint_u32_range: "- 2147483648 \<le> sint (w :: u32)" "sint (w :: u32) \<le> 2147483647"
  using sint_greater_eq [of w] sint_less [of w] by auto

lemma unat_bounds: "unat (a :: u8) < 256" "unat (b :: u16) < 65536" "unat (c :: u32) < 4294967296"
  by (rule order_less_le_trans [OF unsigned_less], simp)+

subsection \<open>Buffers: bounds-checked reads\<close>

text \<open>
  A buffer is the list of the elements of the C object. \<open>None\<close> is the undefined behaviour of an
  access outside the object, so a parser that returns \<open>Some\<close> on every input is memory safe.
\<close>

definition rd :: "'a list \<Rightarrow> nat \<Rightarrow> 'a option" where
  "rd data i = (if i < length data then Some (data ! i) else None)"

definition rd_bytes :: "'a list \<Rightarrow> nat \<Rightarrow> nat \<Rightarrow> 'a list option" where
  "rd_bytes data off n = (if off + n \<le> length data then Some (take n (drop off data)) else None)"

definition rd16 :: "u8 list \<Rightarrow> nat \<Rightarrow> u16 option" where
  "rd16 data i = do { a \<leftarrow> rd data i; b \<leftarrow> rd data (i + 1);
                     Some (ucast a OR push_bit 8 (ucast b)) }"

definition le32 :: "u8 list \<Rightarrow> nat \<Rightarrow> u32 option" where
  "le32 data i = do { a \<leftarrow> rd data i; b \<leftarrow> rd data (i + 1);
                      c \<leftarrow> rd data (i + 2); d \<leftarrow> rd data (i + 3);
                      Some (ucast a OR push_bit 8 (ucast b) OR push_bit 16 (ucast c)
                            OR push_bit 24 (ucast d)) }"

definition st16 :: "u16 \<Rightarrow> u8 list" where
  "st16 w = [ucast w, ucast (drop_bit 8 w)]"

definition store_le32 :: "u32 \<Rightarrow> u8 list" where
  "store_le32 value = map (\<lambda>i. ucast (drop_bit (8 * i) value)) [0..<4]"

fun rd_seq :: "('b list \<Rightarrow> nat \<Rightarrow> 'a option) \<Rightarrow> nat \<Rightarrow> 'b list \<Rightarrow> nat \<Rightarrow> nat \<Rightarrow> 'a list option" where
  "rd_seq r width data off 0 = Some []"
| "rd_seq r width data off (Suc n) =
     do { x \<leftarrow> r data off; xs \<leftarrow> rd_seq r width data (off + width) n; Some (x # xs) }"

text \<open>
  The interface of a fixed-width wire element: what its reader and its writer promise each other.
  \<open>ok\<close> is what the writer can represent and \<open>nf\<close> is what survives of it on the wire.
\<close>

locale lossy_wire =
  fixes r :: "'b list \<Rightarrow> nat \<Rightarrow> 'a option" and s :: "'a \<Rightarrow> 'b list" and width :: nat
    and ok :: "'a \<Rightarrow> bool" and nf :: "'a \<Rightarrow> 'a"
  assumes length_s: "ok x \<Longrightarrow> length (s x) = width"
    and r_total: "off + width \<le> length data \<Longrightarrow> r data off \<noteq> None"
    and r_s: "ok x \<Longrightarrow> r (pre @ s x @ post) (length pre) = Some (nf x)"
    and r_ok: "r data off = Some x \<Longrightarrow> ok x"
    and s_r: "r data off = Some x \<Longrightarrow> s x = take width (drop off data)"
begin

lemma r_append: "off = length pre \<Longrightarrow> ok x \<Longrightarrow> r (pre @ s x @ post) off = Some (nf x)"
  by (simp add: r_s)

lemma length_concat: "list_all ok xs \<Longrightarrow> length (concat (map s xs)) = width * length xs"
  by (induction xs) (simp_all add: length_s)

lemma seq_append:
  "off = length pre \<Longrightarrow> n = length xs \<Longrightarrow> list_all ok xs \<Longrightarrow>
     rd_seq r width (pre @ concat (map s xs) @ post) off n = Some (map nf xs)"
proof (induction xs arbitrary: pre off n)
  case Nil
  then show ?case by simp
next
  case (Cons x xs)
  then have x: "ok x" by simp
  have "rd_seq r width ((pre @ s x) @ concat (map s xs) @ post) (off + width) (length xs)
          = Some (map nf xs)"
    by (rule Cons.IH) (use Cons.prems x in \<open>simp_all add: length_s\<close>)
  then show ?case
    using r_s [OF x, of pre "concat (map s xs) @ post"] Cons.prems by simp
qed

lemma seq_total: "off + width * n \<le> length data \<Longrightarrow> rd_seq r width data off n \<noteq> None"
proof (induction n arbitrary: off)
  case 0
  then show ?case by simp
next
  case (Suc n)
  then have "r data off \<noteq> None" by (intro r_total) simp
  moreover have "rd_seq r width data (off + width) n \<noteq> None"
    using Suc.prems by (intro Suc.IH) (simp add: add.assoc)
  ultimately show ?case by auto
qed

lemma seq_length: "rd_seq r width data off n = Some xs \<Longrightarrow> length xs = n"
  by (induction n arbitrary: off xs) (auto split: Option.bind_splits)

lemma seq_ok: "rd_seq r width data off n = Some xs \<Longrightarrow> list_all ok xs"
  by (induction n arbitrary: off xs) (auto split: Option.bind_splits dest: r_ok)

lemma seq_inverse:
  "rd_seq r width data off n = Some xs \<Longrightarrow>
     concat (map s xs) = take (width * n) (drop off data)"
proof (induction n arbitrary: off xs)
  case 0
  then show ?case by simp
next
  case (Suc n)
  from Suc.prems obtain y ys where y: "r data off = Some y"
    and ys: "rd_seq r width data (off + width) n = Some ys" and xs: "xs = y # ys"
    by (auto split: Option.bind_splits)
  show ?case
    using s_r [OF y] Suc.IH [OF ys]
    by (simp add: xs take_add [of width "width * n"] add.commute [of off])
qed

end

text \<open>A lossless element is one whose normal form is itself; a run of them is an element again.\<close>

locale wire = lossy_wire r s width ok "\<lambda>x. x"
  for r :: "'b list \<Rightarrow> nat \<Rightarrow> 'a option" and s and width and ok
begin

lemma seq_read:
  "off = length pre \<Longrightarrow> n = length xs \<Longrightarrow> list_all ok xs \<Longrightarrow>
     rd_seq r width (pre @ concat (map s xs) @ post) off n = Some xs"
  by (simp add: seq_append)

lemma seq_wire:
  "wire (\<lambda>data off. rd_seq r width data off n) (\<lambda>xs. concat (map s xs)) (width * n)
     (\<lambda>xs. length xs = n \<and> list_all ok xs)"
  by unfold_locales
    (auto simp: length_concat seq_total seq_read seq_length seq_ok seq_inverse)

end

lemma rd_in [rd_simps]: "i < length data \<Longrightarrow> rd data i = Some (data ! i)"
  by (simp add: rd_def)

lemma rd_bytes_in [rd_simps]:
  "off + n \<le> length data \<Longrightarrow> rd_bytes data off n = Some (take n (drop off data))"
  by (simp add: rd_bytes_def)

lemma rd_bytes_append [byte_simps]:
  "off = length pre \<Longrightarrow> n = length xs \<Longrightarrow> rd_bytes (pre @ xs @ post) off n = Some xs"
  by (simp add: rd_bytes_def)

lemma rd_append [byte_simps]: "i = length pre \<Longrightarrow> rd (pre @ x # post) i = Some x"
  by (simp add: rd_def)

lemma rd_length: "rd data i = Some x \<Longrightarrow> i < length data \<and> data ! i = x"
  by (simp add: rd_def split: if_splits)

lemma u16_split: "ucast (ucast w :: u8) OR push_bit 8 (ucast (ucast (drop_bit 8 w) :: u8)) = (w :: u16)"
  by (rule bit_word_eqI) (auto simp: bit_simps)

lemma u16_join:
  fixes a b :: u8
  shows "ucast (ucast a OR push_bit 8 (ucast b) :: u16) = a"
    and "ucast (drop_bit 8 (ucast a OR push_bit 8 (ucast b) :: u16)) = b"
  by (rule bit_word_eqI; auto simp: bit_simps dest: bit_imp_le_length)+

lemma u32_split:
  fixes w :: u32
  shows "ucast (ucast w :: u8) OR push_bit 8 (ucast (ucast (drop_bit 8 w) :: u8))
     OR push_bit 16 (ucast (ucast (drop_bit 16 w) :: u8))
     OR push_bit 24 (ucast (ucast (drop_bit 24 w) :: u8)) = w"
proof (rule bit_word_eqI)
  fix n assume "n < LENGTH(32)"
  then consider "n < 8" | "8 \<le> n \<and> n < 16" | "16 \<le> n \<and> n < 24" | "24 \<le> n \<and> n < 32"
    by force
  then show "bit (ucast (ucast w :: u8) OR push_bit 8 (ucast (ucast (drop_bit 8 w) :: u8))
     OR push_bit 16 (ucast (ucast (drop_bit 16 w) :: u8))
     OR push_bit 24 (ucast (ucast (drop_bit 24 w) :: u8)) :: u32) n = bit w n"
    by cases (auto simp: bit_simps)
qed

lemma u32_join:
  fixes a b c d :: u8
  defines "w \<equiv> ucast a OR push_bit 8 (ucast b) OR push_bit 16 (ucast c) OR push_bit 24 (ucast d) :: u32"
  shows "ucast w = a" "ucast (drop_bit 8 w) = b" "ucast (drop_bit 16 w) = c" "ucast (drop_bit 24 w) = d"
  unfolding w_def by (rule bit_word_eqI; auto simp: bit_simps dest: bit_imp_le_length)+

lemma length_st16 [simp]: "length (st16 w) = 2"
  by (simp add: st16_def)

lemma length_store_le32 [simp]: "length (store_le32 w) = 4"
  by (simp add: store_le32_def)

lemma store_le32_eq:
  "store_le32 w = [ucast w, ucast (drop_bit 8 w), ucast (drop_bit 16 w), ucast (drop_bit 24 w)]"
  by (simp add: store_le32_def upt_rec)

lemma st16_join: "st16 (ucast a OR push_bit 8 (ucast b)) = [a, b]"
  by (simp only: st16_def u16_join)

lemma store_le32_join:
  "store_le32 (ucast a OR push_bit 8 (ucast b) OR push_bit 16 (ucast c) OR push_bit 24 (ucast d))
     = [a, b, c, d]"
  by (simp only: store_le32_eq u32_join)

lemma take_two: "i + 2 \<le> length xs \<Longrightarrow> take 2 (drop i xs) = [xs ! i, xs ! (i + 1)]"
  by (simp add: numeral_2_eq_2 take_Suc_conv_app_nth)

lemma take_four:
  "i + 4 \<le> length xs \<Longrightarrow> take 4 (drop i xs) = [xs ! i, xs ! (i + 1), xs ! (i + 2), xs ! (i + 3)]"
  by (simp add: eval_nat_numeral take_Suc_conv_app_nth)

interpretation byte: wire rd "\<lambda>x. [x]" 1 "\<lambda>_. True"
proof
  show "rd data off = Some x \<Longrightarrow> [x] = take 1 (drop off data)" for data :: "'a list" and off x
    by (auto simp: rd_def take_Suc_conv_app_nth split: if_splits)
qed (auto simp: rd_def)

interpretation half: wire rd16 st16 2 "\<lambda>_. True"
proof
  fix data pre post :: "u8 list" and off :: nat and x :: u16
  show "off + 2 \<le> length data \<Longrightarrow> rd16 data off \<noteq> None"
    by (simp add: rd16_def rd_def)
  show "rd16 (pre @ st16 x @ post) (length pre) = Some x"
    by (simp add: rd16_def rd_def st16_def nth_append u16_split)
  assume r: "rd16 data off = Some x"
  then have "off + 2 \<le> length data"
    by (auto simp: rd16_def rd_def split: if_splits)
  with r show "st16 x = take 2 (drop off data)"
    by (auto simp: rd16_def rd_def take_two st16_join)
qed simp_all

interpretation word: wire le32 store_le32 4 "\<lambda>_. True"
proof
  fix data pre post :: "u8 list" and off :: nat and x :: u32
  show "off + 4 \<le> length data \<Longrightarrow> le32 data off \<noteq> None"
    by (simp add: le32_def rd_def)
  show "le32 (pre @ store_le32 x @ post) (length pre) = Some x"
    using u32_split [of x] by (simp add: le32_def rd_def store_le32_eq nth_append)
  assume r: "le32 data off = Some x"
  then have "off + 4 \<le> length data"
    by (auto simp: le32_def rd_def split: if_splits)
  with r show "store_le32 x = take 4 (drop off data)"
    by (auto simp: le32_def rd_def take_four store_le32_join)
qed simp_all

lemmas read_back [byte_simps] =
  half.r_append [OF _ TrueI] word.r_append [OF _ TrueI] half.seq_read word.seq_read

lemma list_all_True [simp]: "list_all (\<lambda>_. True) xs"
  by (simp add: list_all_iff)

lemma le32_total: "off + 4 \<le> length data \<Longrightarrow> \<exists>w. le32 data off = Some w"
  using word.r_total by blast

lemma rd16_total: "off + 2 \<le> length data \<Longrightarrow> \<exists>w. rd16 data off = Some w"
  using half.r_total by blast

lemma le32_at: "i = length pre \<Longrightarrow> le32 (pre @ store_le32 w @ post) i = Some w"
  by (rule word.r_append [OF _ TrueI])

lemma st16_at: "i = length pre \<Longrightarrow> rd16 (pre @ st16 w @ post) i = Some w"
  by (rule half.r_append [OF _ TrueI])

lemma rd_at: "i = length pre \<Longrightarrow> rd (pre @ [x] @ post) i = Some x"
  by (simp add: rd_append)

lemma split_blocks:
  "length xs = k * n \<Longrightarrow> concat (map (\<lambda>i. map (\<lambda>j. xs ! (k * i + j)) [0..<k]) [0..<n]) = xs"
proof (induction n arbitrary: xs)
  case 0
  then show ?case by simp
next
  case (Suc n)
  let ?ys = "take (k * n) xs" and ?zs = "drop (k * n) xs"
  have len: "length ?ys = k * n" "length ?zs = k" using Suc.prems by simp_all
  have "map (\<lambda>i. map (\<lambda>j. xs ! (k * i + j)) [0..<k]) [0..<n]
      = map (\<lambda>i. map (\<lambda>j. ?ys ! (k * i + j)) [0..<k]) [0..<n]"
  proof (rule map_cong [OF refl], rule map_cong [OF refl])
    fix i j assume "i \<in> set [0..<n]" "j \<in> set [0..<k]"
    then have "k * i + j < k * Suc i" "Suc i \<le> n" by simp_all
    then have "k * i + j < k * n" by (meson mult_le_mono2 order_less_le_trans)
    then show "xs ! (k * i + j) = ?ys ! (k * i + j)" by simp
  qed
  then have "concat (map (\<lambda>i. map (\<lambda>j. xs ! (k * i + j)) [0..<k]) [0..<n]) = ?ys"
    using Suc.IH [OF len(1)] by (simp only:)
  moreover have "map (\<lambda>j. xs ! (k * n + j)) [0..<k] = ?zs"
    using len(2) Suc.prems by (intro nth_equalityI) auto
  ultimately show ?case by simp
qed

text \<open>The array behind a possibly NULL pointer; reading \<open>k\<close> elements of it, none of them when
  \<open>k = 0\<close>.\<close>

definition rd_prefix :: "'a list option \<Rightarrow> nat \<Rightarrow> 'a list option" where
  "rd_prefix p k = (if k = 0 then Some [] else Option.bind p (\<lambda>xs. rd_bytes xs 0 k))"

definition arr :: "'a list option \<Rightarrow> 'a list" where
  "arr p = (case p of None \<Rightarrow> [] | Some xs \<Rightarrow> xs)"

lemma rd_prefix_arr: "length (arr p) = k \<Longrightarrow> rd_prefix p k = Some (arr p)"
  by (cases p) (auto simp: rd_prefix_def arr_def rd_bytes_def)

lemma arr_simps [simp]: "arr None = []" "arr (Some xs) = xs"
  by (simp_all add: arr_def)

text \<open>
  The end of every serializer: with no output buffer only the size is reported, a buffer that is too
  small is refused, otherwise the bytes are written at its start and the rest of it is kept.
\<close>

definition write_out :: "nat \<Rightarrow> u8 list \<Rightarrow> u8 list option \<Rightarrow> status + nat \<times> u8 list option" where
  "write_out sz bytes output =
     (case output of
        None \<Rightarrow> Inr (sz, None)
      | Some buf \<Rightarrow> if length buf < sz then Inl (- 1)
                    else Inr (sz, Some (bytes @ drop (length bytes) buf)))"

lemma write_out_query [simp]: "write_out sz bytes None = Inr (sz, None)"
  by (simp add: write_out_def)

lemma write_out_exact [simp]:
  "length buf = sz \<Longrightarrow> length bytes = sz \<Longrightarrow> write_out sz bytes (Some buf) = Inr (sz, Some bytes)"
  by (simp add: write_out_def)

subsection \<open>The row-major pixel loop\<close>

text \<open>
  \<open>for y < h, for x < w: out[y*stride + x] = f y x\<close>. The lemma gives the whole contract of every
  routine written with it: pixels of the rectangle are computed, padding is left alone.
\<close>

definition fill_row :: "(nat \<Rightarrow> 'a) \<Rightarrow> nat \<Rightarrow> nat \<Rightarrow> 'a list \<Rightarrow> 'a list" where
  "fill_row f w base out = fold (\<lambda>x out. out[base + x := f x]) [0..<w] out"

definition fill_rows :: "(nat \<Rightarrow> nat \<Rightarrow> 'a) \<Rightarrow> nat \<Rightarrow> nat \<Rightarrow> nat \<Rightarrow> 'a list \<Rightarrow> 'a list" where
  "fill_rows f w h stride out = fold (\<lambda>y out. fill_row (f y) w (y * stride) out) [0..<h] out"

lemma length_fill_row [simp]: "length (fill_row f w base out) = length out"
  unfolding fill_row_def by (induction w arbitrary: out) auto

lemma length_fill_rows [simp]: "length (fill_rows f w h stride out) = length out"
  unfolding fill_rows_def by (induction h arbitrary: out) auto

lemma nth_fill_row:
  "i < length out \<Longrightarrow> fill_row f w base out ! i =
     (if base \<le> i \<and> i < base + w then f (i - base) else out ! i)"
proof (induction w arbitrary: out)
  case 0
  then show ?case by (auto simp: fill_row_def)
next
  case (Suc w)
  have "fill_row f (Suc w) base out = (fill_row f w base out)[base + w := f w]"
    by (simp add: fill_row_def)
  with Suc show ?case
    by (cases "i = base + w") (auto simp: nth_list_update)
qed

lemma in_row_iff:
  fixes i h stride w :: nat
  assumes "w \<le> stride" "0 < stride"
  shows "h * stride \<le> i \<and> i < h * stride + w \<longleftrightarrow> i div stride = h \<and> i mod stride < w"
proof
  assume "h * stride \<le> i \<and> i < h * stride + w"
  then obtain r where "i = h * stride + r" "r < w"
    by (metis add_less_cancel_left le_iff_add)
  with assms show "i div stride = h \<and> i mod stride < w" by simp
next
  assume "i div stride = h \<and> i mod stride < w"
  then show "h * stride \<le> i \<and> i < h * stride + w"
    using div_mult_mod_eq [of i stride] by auto
qed

lemma row_of_cell:
  fixes x y w stride :: nat
  assumes "x < stride"
  shows "(y * stride + x) div stride = y" "(y * stride + x) mod stride = x"
  using assms by auto

lemma nth_fill_rows:
  assumes "w \<le> stride" "i < length out" "0 < stride"
  shows "fill_rows f w h stride out ! i =
    (if i div stride < h \<and> i mod stride < w then f (i div stride) (i mod stride) else out ! i)"
proof -
  have "fold (\<lambda>y out. fill_row (f y) w (y * stride) out) [0..<h] out ! i =
    (if i div stride < h \<and> i mod stride < w then f (i div stride) (i mod stride) else out ! i)"
    (is "?L h = _")
  proof (induction h)
    case 0
    then show ?case by simp
  next
    case (Suc h)
    have len: "length (fold (\<lambda>y out. fill_row (f y) w (y * stride) out) [0..<h] out) = length out"
      using length_fill_rows [of f w h stride out] by (simp add: fill_rows_def)
    have "i - i div stride * stride = i mod stride"
      by (simp add: minus_div_mult_eq_mod)
    moreover note in_row_iff [OF assms(1,3), of h i]
    ultimately show ?case
      using Suc.IH len assms(2) by (auto simp: nth_fill_row less_Suc_eq)
  qed
  then show ?thesis by (simp add: fill_rows_def)
qed

lemma fill_rows_cell:
  assumes "x < w" "y < h" "w \<le> stride" "h * stride \<le> length out"
  shows "fill_rows f w h stride out ! (y * stride + x) = f y x"
proof -
  have "y * stride + x < h * stride"
  proof -
    have "y * stride + x < Suc y * stride" using assms by simp
    also have "\<dots> \<le> h * stride" using assms(2) by (intro mult_le_mono1) simp
    finally show ?thesis .
  qed
  then show ?thesis
    using assms by (subst nth_fill_rows) (simp_all add: row_of_cell)
qed

text \<open>The pixels of a rectangle in the order of two nested loops, as (row, column).\<close>

definition raster :: "nat \<Rightarrow> nat \<Rightarrow> nat \<Rightarrow> nat \<Rightarrow> (nat \<times> nat) list" where
  "raster y0 y1 x0 x1 = List.product [y0..<y1] [x0..<x1]"

lemma set_raster: "set (raster y0 y1 x0 x1) = {y0..<y1} \<times> {x0..<x1}"
  by (simp add: raster_def)

lemma distinct_raster: "distinct (raster y0 y1 x0 x1)"
  by (simp add: raster_def distinct_product)

lemma length_raster: "length (raster y0 y1 x0 x1) = (y1 - y0) * (x1 - x0)"
  by (simp add: raster_def)

lemma bit_top:
  assumes "unat (w :: u32) < 2 ^ Suc b"
  shows "bit w b \<longleftrightarrow> 2 ^ b \<le> unat w"
proof -
  have "bit w b \<longleftrightarrow> bit (unat w) b"
    by (simp add: bit_unsigned_iff)
  also have "\<dots> \<longleftrightarrow> odd (unat w div 2 ^ b)" by (rule bit_iff_odd)
  finally have "bit w b \<longleftrightarrow> odd (unat w div 2 ^ b)" .
  moreover have "unat w div 2 ^ b = (if 2 ^ b \<le> unat w then 1 else 0)"
    using assms by (auto intro: div_nat_eqI)
  ultimately show ?thesis by simp
qed

lemma sint_u32_cases: "sint (w :: u32) = (if unat w < 2147483648 then int (unat w) else int (unat w) - 4294967296)"
proof -
  have "sint w = (if uint w \<le> 2147483647 then uint w else uint w - 4294967296)"
    by (rule signed_u32_sint [symmetric, unfolded signed_u32_def])
  moreover have "uint w = int (unat w)" by simp
  ultimately show ?thesis by (simp only: split: if_split) linarith
qed

lemma unat_push_bit_small:
  assumes "unat (w :: u32) * 2 ^ k < 4294967296"
  shows "unat (push_bit k w) = unat w * 2 ^ k"
proof -
  have "unat (push_bit k w) = take_bit 32 (push_bit k (unat w))"
    by (simp add: unsigned_push_bit_eq)
  with assms show ?thesis by (simp add: push_bit_eq_mult take_bit_eq_mod)
qed
lemma sdiv_bounds:
  fixes a d :: int
  assumes "- 2147483648 \<le> a" "a \<le> 2147483647" "1 < d"
  shows "- 2147483648 \<le> a sdiv d" "a sdiv d \<le> 2147483647"
proof -
  have "\<bar>a\<bar> div d \<le> \<bar>a\<bar> div 2" using assms by (intro zdiv_mono2) auto
  also have "\<dots> \<le> 2147483647" using assms by linarith
  finally have "\<bar>a\<bar> div d \<le> 2147483647" .
  moreover have "0 \<le> \<bar>a\<bar> div d" using assms by (simp add: pos_imp_zdiv_nonneg_iff)
  ultimately show "- 2147483648 \<le> a sdiv d" "a sdiv d \<le> 2147483647"
    using assms by (auto simp: signed_divide_int_def sgn_if)
qed

end
