(* ===== verification/Framing.thy ===== *)
theory Framing
  imports Prelude
begin

text \<open>
  The block framing of the template format (\<^verbatim>\<open>fpc_recovered.c\<close>: \<^verbatim>\<open>store_le32\<close>,
  \<^verbatim>\<open>le32\<close>, \<^verbatim>\<open>fpc_crc32\<close>, \<^verbatim>\<open>fpc_template_validate\<close>, \<^verbatim>\<open>checked_block\<close>): a block is a
  tag, its total length, a payload and the CRC-32 of everything before. Buffers are byte lists whose
  length is the \<open>size\<close> argument of the C function; a result \<open>None\<close> would be a read outside them.
\<close>

unbundle bit_operations_syntax

subsection \<open>CRC-32\<close>

definition crc_bit :: "u32 \<Rightarrow> u32" where
  "crc_bit crc = drop_bit 1 crc XOR (0xEDB88320 AND (0 - (crc AND 1)))"

definition crc_byte :: "u32 \<Rightarrow> u8 \<Rightarrow> u32" where
  "crc_byte crc b = (crc_bit ^^ 8) (crc XOR ucast b)"

definition fpc_crc32 :: "u8 list \<Rightarrow> u32" where
  "fpc_crc32 data = NOT (fold (\<lambda>b crc. crc_byte crc b) data 0xFFFFFFFF)"

subsection \<open>The validator of a whole template\<close>

function validate_blocks :: "u8 list \<Rightarrow> nat \<Rightarrow> nat \<Rightarrow> (status + nat) option" where
  "validate_blocks data offset count =
     (if offset < length data then
        (let remaining = length data - offset
         in if remaining < 12 then Some (Inl (- 1)) else
            do { len \<leftarrow> le32 data (offset + 4);
                 if unat len < 12 \<or> remaining < unat len then Some (Inl (- 1)) else
                 do { body \<leftarrow> rd_bytes data offset (unat len - 4);
                      crc \<leftarrow> le32 data (offset + unat len - 4);
                      if fpc_crc32 body \<noteq> crc then Some (Inl (- 1))
                      else validate_blocks data (offset + unat len) (count + 1) } })
      else Some (Inr count))"
  by pat_completeness auto
termination
  by (relation "measure (\<lambda>(data, offset, count). length data - offset)") auto

declare validate_blocks.simps [simp del]

definition template_version :: "u8 \<Rightarrow> u8 \<Rightarrow> u8 \<Rightarrow> u8 \<Rightarrow> u32" where
  "template_version b0 b1 b2 b3 =
     push_bit 16 (ucast b0 OR push_bit 8 (ucast b1)) OR ucast b2 OR push_bit 8 (ucast b3)"

definition fpc_template_validate :: "u8 list \<Rightarrow> (status + u32 \<times> nat) option" where
  "fpc_template_validate data =
     (if length data < 8 \<or> INT32_MAX < length data then Some (Inl (- 1)) else
      do { total \<leftarrow> le32 data 4;
           if unat total \<noteq> length data then Some (Inl (- 1)) else
           do { r \<leftarrow> validate_blocks data 8 0;
                case r of
                  Inl e \<Rightarrow> Some (Inl e)
                | Inr blocks \<Rightarrow>
                    do { b0 \<leftarrow> rd data 0; b1 \<leftarrow> rd data 1; b2 \<leftarrow> rd data 2; b3 \<leftarrow> rd data 3;
                         Some (Inr (template_version b0 b1 b2 b3, blocks)) } } })"

definition checked_block :: "u8 list \<Rightarrow> u32 \<Rightarrow> (status + nat) option" where
  "checked_block data tag =
     (if length data < 12 then Some (Inl 140) else
      do { t \<leftarrow> le32 data 0;
           if t \<noteq> tag then Some (Inl 140) else
           do { bytes \<leftarrow> le32 data 4;
                if unat bytes < 12 \<or> length data < unat bytes then Some (Inl 140) else
                do { body \<leftarrow> rd_bytes data 0 (unat bytes - 4);
                     crc \<leftarrow> le32 data (unat bytes - 4);
                     if fpc_crc32 body \<noteq> crc then Some (Inl 140)
                     else Some (Inr (unat bytes)) } } })"

subsection \<open>The abstract format\<close>

definition frame :: "u32 \<Rightarrow> u8 list \<Rightarrow> u8 list" where
  "frame tag payload =
     (let body = store_le32 tag @ store_le32 (of_nat (length payload + 12)) @ payload
      in body @ store_le32 (fpc_crc32 body))"

lemma length_frame [simp]: "length (frame tag payload) = length payload + 12"
  by (simp add: frame_def Let_def)

subsection \<open>Reads stay inside the buffer\<close>

lemma validate_blocks_safe: "validate_blocks data offset count \<noteq> None"
proof (induction data offset count rule: validate_blocks.induct)
  case (1 data offset count)
  show ?case
  proof (cases "offset < length data \<and> 12 \<le> length data - offset")
    case False
    then show ?thesis by (subst validate_blocks.simps) (auto simp: Let_def)
  next
    case True
    then have "offset + 4 + 4 \<le> length data" by linarith
    then obtain len where len: "le32 data (offset + 4) = Some len" using le32_total by blast
    show ?thesis
    proof (cases "unat len < 12 \<or> length data - offset < unat len")
      case True
      with len show ?thesis by (subst validate_blocks.simps) (auto simp: Let_def)
    next
      case ok: False
      with True have b: "offset + (unat len - 4) \<le> length data"
        and c: "offset + unat len - 4 + 4 \<le> length data" by linarith+
      obtain crc where crc: "le32 data (offset + unat len - 4) = Some crc"
        using le32_total [OF c] by blast
      note body = rd_bytes_in [OF b]
      show ?thesis
        using True ok len crc body 1 [OF conjunct1 [OF True] refl _ len _ body crc]
        by (subst validate_blocks.simps) (auto simp: Let_def)
    qed
  qed
qed

lemma checked_block_safe: "checked_block data tag \<noteq> None"
proof (cases "length data < 12")
  case True
  then show ?thesis by (simp add: checked_block_def)
next
  case False
  obtain t where t: "le32 data 0 = Some t" using False le32_total [of 0 data] by auto
  obtain n where n: "le32 data 4 = Some n" using False le32_total [of 4 data] by auto
  show ?thesis
  proof (cases "unat n < 12 \<or> length data < unat n")
    case True
    with t n show ?thesis by (auto simp: checked_block_def)
  next
    case ok: False
    obtain c where "le32 data (unat n - 4) = Some c"
      using ok le32_total [of "unat n - 4" data] by auto
    with ok t n show ?thesis by (auto simp: checked_block_def rd_simps)
  qed
qed

lemma fpc_template_validate_safe: "fpc_template_validate data \<noteq> None"
proof (cases "length data < 8 \<or> INT32_MAX < length data")
  case True
  then show ?thesis by (auto simp: fpc_template_validate_def)
next
  case False
  obtain n where n: "le32 data 4 = Some n" using False le32_total [of 4 data] by auto
  obtain r where r: "validate_blocks data 8 0 = Some r" using validate_blocks_safe by blast
  have "0 < length data" "1 < length data" "2 < length data" "3 < length data"
    using False by auto
  with n r False show ?thesis
    by (auto simp: fpc_template_validate_def rd_simps split: sum.splits)
qed

subsection \<open>The parsers accept exactly the abstract format\<close>

lemma frame_take:
  assumes L: "12 \<le> L" "L \<le> length data"
    and t: "le32 data 0 = Some t" and n: "le32 data 4 = Some n" "unat n = L"
    and c: "le32 data (L - 4) = Some (fpc_crc32 (take (L - 4) data))"
  shows "take L data = frame t (take (L - 12) (drop 8 data))"
proof -
  define payload where "payload = take (L - 12) (drop 8 data)"
  have len: "length payload + 12 = L" using L by (simp add: payload_def)
  have n': "n = of_nat (length payload + 12)"
    unfolding len n(2) [symmetric] by simp
  have "take (L - 4) data = take 4 data @ take 4 (drop 4 data) @ payload"
  proof -
    have "L - 4 = 4 + (4 + (L - 12))" using L by linarith
    then show ?thesis by (simp only: take_add drop_drop payload_def) simp
  qed
  also have "take 4 data = store_le32 t" using word.s_r [OF t] by simp
  also have "take 4 (drop 4 data) = store_le32 n" using word.s_r [OF n(1)] by simp
  finally have body: "take (L - 4) data = store_le32 t @ store_le32 n @ payload" .
  have "take L data = take (L - 4) data @ take 4 (drop (L - 4) data)"
  proof -
    have "L = (L - 4) + 4" using L by linarith
    then show ?thesis by (metis take_add)
  qed
  also have "take 4 (drop (L - 4) data) = store_le32 (fpc_crc32 (take (L - 4) data))"
    using word.s_r [OF c] by simp
  finally show ?thesis
    unfolding body n' payload_def [symmetric] by (simp add: frame_def Let_def)
qed

lemma frame_reads:
  fixes payload rest :: "u8 list" and tag :: u32
  defines "L \<equiv> length payload + 12"
  defines "data \<equiv> frame tag payload @ rest"
  shows "le32 data 0 = Some tag" "le32 data 4 = Some (of_nat L)"
    "rd_bytes data 0 (L - 4) = Some (take (L - 4) data)"
    "le32 data (L - 4) = Some (fpc_crc32 (take (L - 4) data))"
    "take (length payload) (drop 8 data) = payload"
proof -
  define body where "body = store_le32 tag @ store_le32 (of_nat L) @ payload"
  have data: "data = body @ store_le32 (fpc_crc32 body) @ rest"
    by (simp add: data_def frame_def Let_def body_def L_def)
  have len: "length body = L - 4" by (simp add: body_def L_def)
  have tk: "take (L - 4) data = body" by (simp add: data len [symmetric])
  show "le32 data 0 = Some tag"
    using le32_at [of 0 "[]" tag "store_le32 (of_nat L) @ payload @ store_le32 (fpc_crc32 body) @ rest"]
    by (simp add: data body_def)
  show "le32 data 4 = Some (of_nat L)"
    using le32_at [of 4 "store_le32 tag" "of_nat L" "payload @ store_le32 (fpc_crc32 body) @ rest"]
    by (simp add: data body_def)
  show "rd_bytes data 0 (L - 4) = Some (take (L - 4) data)"
    by (simp add: rd_bytes_def data len)
  show "le32 data (L - 4) = Some (fpc_crc32 (take (L - 4) data))"
    unfolding tk using le32_at [of "L - 4" body "fpc_crc32 body" rest] by (simp add: data len)
  show "take (length payload) (drop 8 data) = payload"
    by (simp add: data body_def)
qed

lemma checked_block_iff:
  "checked_block data tag = Some (Inr n) \<longleftrightarrow>
     (\<exists>payload rest. data = frame tag payload @ rest \<and> n = length payload + 12 \<and> n < 2 ^ 32)"
proof
  assume ok: "checked_block data tag = Some (Inr n)"
  then obtain bytes where len: "12 \<le> n" "n \<le> length data"
    and t: "le32 data 0 = Some tag" and b: "le32 data 4 = Some bytes" "unat bytes = n"
    and c: "le32 data (n - 4) = Some (fpc_crc32 (take (n - 4) data))"
    by (auto simp: checked_block_def rd_bytes_def split: if_splits Option.bind_splits)
  have "data = frame tag (take (n - 12) (drop 8 data)) @ drop n data"
    using frame_take [OF len t b c] by (metis append_take_drop_id)
  moreover have "n = length (take (n - 12) (drop 8 data)) + 12" using len by simp
  moreover have "n < 2 ^ 32" using b(2) unsigned_less [of bytes] by auto
  ultimately show "\<exists>payload rest. data = frame tag payload @ rest \<and> n = length payload + 12 \<and> n < 2 ^ 32"
    by blast
next
  assume "\<exists>payload rest. data = frame tag payload @ rest \<and> n = length payload + 12 \<and> n < 2 ^ 32"
  then obtain payload rest where d: "data = frame tag payload @ rest"
    and n: "n = length payload + 12" "n < 2 ^ 32" by blast
  have u: "unat (of_nat n :: u32) = n" using n(2) by (simp add: unat_of_nat)
  show "checked_block data tag = Some (Inr n)"
    using frame_reads [where tag = tag and payload = payload and rest = rest] n(1) u
    by (simp add: checked_block_def d)
qed

definition frames :: "(u32 \<times> u8 list) list \<Rightarrow> u8 list" where
  "frames bs = concat (map (\<lambda>(t, p). frame t p) bs)"

lemma validate_blocks_step:
  assumes "12 \<le> length data - offset" "offset < length data"
  shows "validate_blocks data offset count =
    (case le32 (drop offset data) 0 of None \<Rightarrow> None | Some tag \<Rightarrow>
       (case checked_block (drop offset data) tag of
          None \<Rightarrow> None
        | Some (Inl e) \<Rightarrow> Some (Inl (- 1))
        | Some (Inr n) \<Rightarrow> validate_blocks data (offset + n) (count + 1)))"
proof -
  have shift: "le32 (drop offset data) i = le32 data (offset + i)" for i
    using assms by (auto simp: le32_def rd_def add.assoc)
  have bytes: "rd_bytes (drop offset data) 0 m = rd_bytes data offset m" for m
    using assms by (auto simp: rd_bytes_def)
  obtain tag where tag: "le32 data offset = Some tag"
    using le32_total [of offset data] assms by fastforce
  obtain len where len: "le32 data (offset + 4) = Some len"
    using le32_total [of "offset + 4" data] assms by fastforce
  show ?thesis
  proof (cases "unat len < 12 \<or> length data - offset < unat len")
    case True
    with assms tag len show ?thesis
      by (subst validate_blocks.simps) (auto simp: checked_block_def shift Let_def)
  next
    case ok: False
    then obtain crc where crc: "le32 data (offset + unat len - 4) = Some crc"
      using le32_total [of "offset + unat len - 4" data] assms by fastforce
    have "offset + (unat len - 4) = offset + unat len - 4" using ok by simp
    with assms ok tag len crc show ?thesis
      by (subst validate_blocks.simps)
        (auto simp: checked_block_def shift bytes Let_def rd_bytes_in)
  qed
qed

lemma frame_not_Nil [simp]: "frame t p \<noteq> []"
  using length_frame [of t p] by (metis add_is_0 list.size(3) zero_neq_numeral)

lemma frames_Nil [simp]: "frames bs = [] \<longleftrightarrow> bs = []"
  by (cases bs) (auto simp: frames_def)

lemma validate_blocks_iff:
  assumes "length data < 2 ^ 32" "offset \<le> length data"
  shows "validate_blocks data offset count = Some (Inr n) \<longleftrightarrow>
    (\<exists>bs. drop offset data = frames bs \<and> n = count + length bs)"
  using assms
proof (induction "length data - offset" arbitrary: offset count rule: less_induct)
  case less
  show ?case
  proof (cases "offset < length data")
    case False
    then have "drop offset data = frames bs \<longleftrightarrow> bs = []" for bs
      using False by (metis drop_all frames_Nil leI)
    with False show ?thesis
      by (subst validate_blocks.simps) auto
  next
    case True
    have short: "\<exists>t p bs'. bs = (t, p) # bs' \<and> drop offset data = frame t p @ frames bs'"
      if "drop offset data = frames bs" for bs
      using that True by (cases bs) (auto simp: frames_def)
    show ?thesis
    proof (cases "12 \<le> length data - offset")
      case False
      have "\<not> (\<exists>bs. drop offset data = frames bs)"
      proof
        assume "\<exists>bs. drop offset data = frames bs"
        then obtain t p bs' where "drop offset data = frame t p @ frames bs'"
          using short by blast
        then have "length (drop offset data) = length p + 12 + length (frames bs')" by simp
        with False show False by simp
      qed
      with True False show ?thesis
        by (subst validate_blocks.simps) (auto simp: Let_def)
    next
      case long: True
      obtain tag where tag: "le32 (drop offset data) 0 = Some tag"
        using le32_total [of 0 "drop offset data"] long by auto
      obtain r where r: "checked_block (drop offset data) tag = Some r"
        using checked_block_safe by blast
      have head: "t = tag" if "drop offset data = frame t p @ rest" for t p rest
        using frame_reads(1) [of t p rest] tag that by simp
      show ?thesis
      proof (cases r)
        case (Inl e)
        have "\<not> (\<exists>bs. drop offset data = frames bs)"
        proof
          assume "\<exists>bs. drop offset data = frames bs"
          then obtain t p bs' where d: "drop offset data = frame t p @ frames bs'"
            using short by blast
          then have "length p + 12 \<le> length (drop offset data)" by simp
          then have "length p + 12 < 2 ^ 32" using less.prems by simp
          then have "checked_block (drop offset data) tag = Some (Inr (length p + 12))"
            using d head [OF d] unfolding checked_block_iff by blast
          with r Inl show False by simp
        qed
        with True long tag r Inl show ?thesis by (simp add: validate_blocks_step)
      next
        case (Inr m)
        then have "checked_block (drop offset data) tag = Some (Inr m)" using r by simp
        then obtain p rest where d: "drop offset data = frame tag p @ rest"
          and m: "m = length p + 12" unfolding checked_block_iff by blast
        have m0: "0 < m" by (simp add: m)
        have rest: "drop (offset + m) data = rest"
          using d m by (metis add.commute drop_drop append_eq_conv_conj length_frame)
        have off: "offset + m \<le> length data"
        proof -
          have "length (drop offset data) = m + length rest" by (simp add: d m)
          with True show ?thesis by simp
        qed
        have "validate_blocks data offset count = validate_blocks data (offset + m) (count + 1)"
          using True long tag r Inr by (simp add: validate_blocks_step)
        also have "\<dots> = Some (Inr n) \<longleftrightarrow> (\<exists>bs. rest = frames bs \<and> n = count + 1 + length bs)"
          using less.hyps [of "offset + m" "count + 1", unfolded rest] off less.prems True m0 by simp
        also have "\<dots> \<longleftrightarrow> (\<exists>bs. drop offset data = frames bs \<and> n = count + length bs)"
        proof
          assume "\<exists>bs. rest = frames bs \<and> n = count + 1 + length bs"
          then obtain bs where "rest = frames bs" "n = count + 1 + length bs" by blast
          then have "drop offset data = frames ((tag, p) # bs) \<and> n = count + length ((tag, p) # bs)"
            by (simp add: d frames_def)
          then show "\<exists>bs. drop offset data = frames bs \<and> n = count + length bs" by blast
        next
          assume "\<exists>bs. drop offset data = frames bs \<and> n = count + length bs"
          then obtain bs where bs: "drop offset data = frames bs" "n = count + length bs" by blast
          then obtain t q bs' where b: "bs = (t, q) # bs'" "drop offset data = frame t q @ frames bs'"
            using short by blast
          have "length q + 12 \<le> length (drop offset data)" using b(2) by simp
          then have "length q + 12 < 2 ^ 32" using less.prems by simp
          then have "checked_block (drop offset data) tag = Some (Inr (length q + 12))"
            using b(2) head [OF b(2)] unfolding checked_block_iff by blast
          then have "length q = length p" using r Inr m by simp
          then have "rest = frames bs'" using b(2) d by (simp add: append_eq_append_conv)
          with bs b show "\<exists>bs. rest = frames bs \<and> n = count + 1 + length bs" by auto
        qed
        finally show ?thesis .
      qed
    qed
  qed
qed

subsection \<open>What the checksum detects\<close>

lemma bit_crc_bit:
  "n < 32 \<Longrightarrow> bit (crc_bit c) n \<longleftrightarrow> bit c (Suc n) \<noteq> (bit c 0 \<and> bit (0xEDB88320 :: u32) n)"
proof -
  assume n: "n < 32"
  have "0 - (c AND 1) = (if bit c 0 then - 1 else 0)"
    by (simp add: and_one_eq bit_0 mod_2_eq_odd)
  then show ?thesis
    using n by (simp add: crc_bit_def bit_simps)
qed

lemma crc_bit_inj: "crc_bit a = crc_bit b \<Longrightarrow> a = b"
proof -
  assume eq: "crc_bit a = crc_bit b"
  have past: "\<not> bit c 32" for c :: u32 using bit_imp_le_length [of c 32] by auto
  have top: "bit (0xEDB88320 :: u32) 31" by simp
  have low: "bit a 0 = bit b 0"
    using bit_crc_bit [of 31 a] bit_crc_bit [of 31 b] eq top past [of a] past [of b]
    by (simp add: eval_nat_numeral)
  have "bit a (Suc n) = bit b (Suc n)" if "n < 32" for n
    using bit_crc_bit [OF that, of a] bit_crc_bit [OF that, of b] eq low by auto
  then have "bit a n = bit b n" if "n < 32" for n
    using low that by (cases n) auto
  then show ?thesis by (intro bit_word_eqI) simp
qed

lemma crc_bits_inj: "(crc_bit ^^ n) a = (crc_bit ^^ n) b \<Longrightarrow> a = b"
  by (induction n) (auto dest: crc_bit_inj)

lemma crc_bit_xor: "crc_bit (a XOR b) = crc_bit a XOR crc_bit b"
  by (rule bit_word_eqI) (auto simp: bit_crc_bit bit_xor_iff)

lemma crc_bits_xor: "(crc_bit ^^ n) (a XOR b) = (crc_bit ^^ n) a XOR (crc_bit ^^ n) b"
  by (induction n) (simp_all add: crc_bit_xor)

lemma crc_bit_even: "\<not> bit c 0 \<Longrightarrow> crc_bit c = drop_bit 1 c"
  by (rule bit_word_eqI) (auto simp: bit_crc_bit bit_simps)

lemma crc_bits_shift: "(\<And>i. i < n \<Longrightarrow> \<not> bit c i) \<Longrightarrow> (crc_bit ^^ n) c = drop_bit n c"
proof (induction n)
  case 0
  then show ?case by simp
next
  case (Suc n)
  then have "(crc_bit ^^ n) c = drop_bit n c" by simp
  moreover have "\<not> bit (drop_bit n c) 0" using Suc.prems by (simp add: bit_simps)
  ultimately show ?case by (simp add: crc_bit_even add.commute)
qed

lemma crc_bits_unshift:
  assumes "(crc_bit ^^ 8) d = e" "\<And>i. 24 \<le> i \<Longrightarrow> \<not> bit e i"
  shows "d = push_bit 8 e"
proof -
  have "(crc_bit ^^ 8) (push_bit 8 e) = drop_bit 8 (push_bit 8 e)"
    by (rule crc_bits_shift) (simp add: bit_simps)
  also have "\<dots> = e"
    by (rule bit_word_eqI) (use assms(2) not_le in \<open>auto simp: bit_simps\<close>)
  finally show ?thesis using assms(1) crc_bits_inj by metis
qed

text \<open>Two runs that end in the same state were, one byte earlier, apart by a shifted difference.\<close>

lemma crc_byte_back:
  assumes "crc_byte s b XOR crc_byte t c = e" "\<And>i. 24 \<le> i \<Longrightarrow> \<not> bit e i"
  shows "s XOR t = push_bit 8 e XOR ucast (b XOR c)"
proof -
  have "(crc_bit ^^ 8) ((s XOR ucast b) XOR (t XOR ucast c)) = e"
    using assms(1) by (simp add: crc_byte_def crc_bits_xor)
  from crc_bits_unshift [OF this assms(2)]
  have "(s XOR ucast b) XOR (t XOR ucast c) = push_bit 8 e" .
  moreover have "s XOR t = ((s XOR ucast b) XOR (t XOR ucast c)) XOR ucast (b XOR c)"
    by (rule bit_word_eqI) (auto simp: bit_simps)
  ultimately show ?thesis by simp
qed

abbreviation crc_run :: "u8 list \<Rightarrow> u32 \<Rightarrow> u32" where
  "crc_run \<equiv> fold (\<lambda>b crc. crc_byte crc b)"

lemma xor_cancel: "a XOR c = b XOR c \<Longrightarrow> a = (b :: 'a::len word)"
  by (metis xor.right_neutral xor.assoc xor_self_eq)

lemma xor_zero: "a XOR b = 0 \<Longrightarrow> a = (b :: 'a::len word)"
  using xor_cancel [of a b b] by simp

lemma crc_run_inj: "crc_run ys s = crc_run ys t \<Longrightarrow> s = t"
proof (induction ys arbitrary: s t)
  case (Cons y ys)
  then have "crc_byte s y = crc_byte t y" by simp
  then have "s XOR ucast y = t XOR ucast y"
    by (auto simp: crc_byte_def dest: crc_bits_inj)
  then have "s = t" by (rule xor_cancel)
  then show ?case .
qed simp

lemma push_byte_zero:
  fixes e :: u32 and x :: u8
  assumes "push_bit 8 e XOR ucast x = 0" "\<And>i. 24 \<le> i \<Longrightarrow> \<not> bit e i"
  shows "x = 0" "e = 0"
proof -
  have z: "bit (push_bit 8 e XOR ucast x) i = False" for i
    using assms(1) by simp
  show x: "x = 0"
  proof (rule bit_word_eqI)
    fix i assume "i < LENGTH(8)"
    with z [of i] show "bit x i = bit 0 i" by (simp add: bit_simps)
  qed
  show "e = 0"
  proof (rule bit_word_eqI)
    fix i assume "i < LENGTH(32)"
    with z [of "i + 8"] assms(2) [of i] show "bit e i = bit 0 i"
      by (cases "24 \<le> i") (simp_all add: bit_simps x)
  qed
qed

lemma crc_four_inj:
  assumes "crc_run [a0, a1, a2, a3] s = crc_run [b0, b1, b2, b3] s"
  shows "[a0, a1, a2, a3] = [b0, b1, b2, b3]"
proof -
  define d0 where "d0 = (ucast (a0 XOR b0) :: u32)"
  define d1 where "d1 = (ucast (a1 XOR b1) :: u32)"
  define d2 where "d2 = (ucast (a2 XOR b2) :: u32)"
  define d3 where "d3 = (ucast (a3 XOR b3) :: u32)"
  note ds = d0_def d1_def d2_def d3_def
  have hi: "\<not> bit (ucast (x :: u8) :: u32) i" if "8 \<le> i" for x i
    using that bit_imp_le_length [of x i] by (auto simp: bit_simps)
  define s1 t1 where "s1 = crc_byte s a0" and "t1 = crc_byte s b0"
  define s2 t2 where "s2 = crc_byte s1 a1" and "t2 = crc_byte t1 b1"
  define s3 t3 where "s3 = crc_byte s2 a2" and "t3 = crc_byte t2 b2"
  have "crc_byte s3 a3 XOR crc_byte t3 b3 = 0"
    using assms by (simp add: s1_def t1_def s2_def t2_def s3_def t3_def)
  then have 3: "s3 XOR t3 = d3"
    using crc_byte_back [of s3 a3 t3 b3 0] by (simp add: d3_def)
  have 2: "s2 XOR t2 = push_bit 8 d3 XOR d2"
    using crc_byte_back [OF 3 [unfolded s3_def t3_def]] hi by (simp add: ds)
  have hi2: "\<not> bit (push_bit 8 d3 XOR d2) i" if "24 \<le> i" for i
    using that hi [of "i - 8"] hi [of i] by (auto simp: ds bit_simps)
  have hi1: "\<not> bit (push_bit 8 (push_bit 8 d3 XOR d2) XOR d1) i" if "24 \<le> i" for i
    using that hi [of "i - 16"] hi [of "i - 8"] hi [of i] by (auto simp: ds bit_simps)
  have 1: "s1 XOR t1 = push_bit 8 (push_bit 8 d3 XOR d2) XOR d1"
    using crc_byte_back [OF 2 [unfolded s2_def t2_def] hi2] by (simp add: d1_def)
  have 0: "s XOR s = push_bit 8 (push_bit 8 (push_bit 8 d3 XOR d2) XOR d1) XOR d0"
    using crc_byte_back [OF 1 [unfolded s1_def t1_def] hi1] by (simp add: d0_def)
  then have "a0 XOR b0 = 0" "push_bit 8 (push_bit 8 d3 XOR d2) XOR d1 = 0"
    using push_byte_zero [OF _ hi1] by (auto simp: d0_def)
  moreover from this(2) have "a1 XOR b1 = 0" "push_bit 8 d3 XOR d2 = 0"
    using push_byte_zero [OF _ hi2] by (auto simp: d1_def)
  moreover from this(2) have "a2 XOR b2 = 0" "d3 = 0"
    using push_byte_zero [of d3 "a2 XOR b2"] hi by (auto simp: ds)
  moreover from this(2) have "a3 XOR b3 = 0"
    using push_byte_zero [of 0 "a3 XOR b3"] by (auto simp: d3_def)
  ultimately show ?thesis by (simp add: xor_zero)
qed

lemma crc_window_inj:
  assumes "length w = length w'" "length w \<le> 4" "crc_run w s = crc_run w' s"
  shows "w = w'"
proof -
  define z :: "u8 list" where "z = replicate (4 - length w) 0"
  have run: "crc_run (w @ z) s = crc_run (w' @ z) s" using assms(3) by simp
  have four: "\<exists>a b c d. xs = [a, b, c, d]" if "length xs = 4" for xs :: "u8 list"
    using that by (auto simp: eval_nat_numeral length_Suc_conv)
  obtain a0 a1 a2 a3 where a: "w @ z = [a0, a1, a2, a3]"
    using four [of "w @ z"] assms(2) by (auto simp: z_def)
  obtain b0 b1 b2 b3 where b: "w' @ z = [b0, b1, b2, b3]"
    using four [of "w' @ z"] assms(1,2) by (auto simp: z_def)
  have "w @ z = w' @ z"
    unfolding a b by (rule crc_four_inj [of _ _ _ _ s]) (use run in \<open>simp only: a b\<close>)
  then show ?thesis by simp
qed

lemma crc32_window_inj:
  assumes "length w = length w'" "length w \<le> 4"
    and eq: "fpc_crc32 (xs @ w @ ys) = fpc_crc32 (xs @ w' @ ys)"
  shows "w = w'"
proof -
  let ?s = "crc_run xs 0xFFFFFFFF"
  have "crc_run ys (crc_run w ?s) = crc_run ys (crc_run w' ?s)"
    using eq by (simp add: fpc_crc32_def)
  then show ?thesis using crc_window_inj [OF assms(1,2)] crc_run_inj by blast
qed

subsection \<open>Properties\<close>

lemma template_validate_iff:
  "fpc_template_validate data = Some (Inr (version, n)) \<longleftrightarrow>
     (\<exists>b0 b1 b2 b3 bs. data = [b0, b1, b2, b3] @ store_le32 (of_nat (length data)) @ frames bs
        \<and> length data \<le> INT32_MAX \<and> version = template_version b0 b1 b2 b3 \<and> n = length bs)"
proof
  assume ok: "fpc_template_validate data = Some (Inr (version, n))"
  then obtain w where len: "8 \<le> length data" "length data \<le> INT32_MAX"
    and w: "le32 data 4 = Some w" "unat w = length data"
    and blocks: "validate_blocks data 8 0 = Some (Inr n)"
    and v: "version = template_version (data ! 0) (data ! 1) (data ! 2) (data ! 3)"
    by (auto simp: fpc_template_validate_def rd_def split: if_splits Option.bind_splits sum.splits)
  have total: "le32 data 4 = Some (of_nat (length data))"
    unfolding w(2) [symmetric] using w(1) by simp
  have "length data < 2 ^ 32" using len by (simp add: INT32_MAX_def)
  then obtain bs where bs: "drop 8 data = frames bs" "n = length bs"
    using blocks len(1) validate_blocks_iff [of data 8 0 n] by auto
  have "take 4 data = [data ! 0, data ! 1, data ! 2, data ! 3]"
    using take_four [of 0 data] len(1) by (simp add: numeral_2_eq_2 numeral_3_eq_3)
  moreover have "take 4 (drop 4 data) = store_le32 (of_nat (length data))"
    using word.s_r [OF total] by simp
  moreover have "data = take 4 data @ take 4 (drop 4 data) @ drop 8 data"
    by (metis add_numeral_left append_take_drop_id drop_drop numeral_Bit0 numeral_plus_one)
  ultimately show "\<exists>b0 b1 b2 b3 bs. data = [b0, b1, b2, b3] @ store_le32 (of_nat (length data)) @ frames bs
        \<and> length data \<le> INT32_MAX \<and> version = template_version b0 b1 b2 b3 \<and> n = length bs"
    using bs len v by metis
next
  assume "\<exists>b0 b1 b2 b3 bs. data = [b0, b1, b2, b3] @ store_le32 (of_nat (length data)) @ frames bs
        \<and> length data \<le> INT32_MAX \<and> version = template_version b0 b1 b2 b3 \<and> n = length bs"
  then obtain b0 b1 b2 b3 bs where
    d: "data = [b0, b1, b2, b3] @ store_le32 (of_nat (length data)) @ frames bs"
    and len: "length data \<le> INT32_MAX" and v: "version = template_version b0 b1 b2 b3"
    and n: "n = length bs" by blast
  define L :: u32 where "L = of_nat (length data)"
  have d': "data = [b0, b1, b2, b3] @ store_le32 L @ frames bs" using d by (simp add: L_def)
  have L: "unat L = length data" using len by (simp add: L_def unat_of_nat INT32_MAX_def)
  have tot: "le32 data 4 = Some L" unfolding d' by (rule le32_at) simp
  have big: "8 \<le> length data" unfolding d' by simp
  have "drop 8 data = frames bs" unfolding d' by simp
  then have blocks: "validate_blocks data 8 0 = Some (Inr n)"
    using validate_blocks_iff [of data 8 0 n] big len n by (auto simp: INT32_MAX_def)
  have "rd data 0 = Some b0" "rd data 1 = Some b1" "rd data 2 = Some b2" "rd data 3 = Some b3"
    unfolding d' by (simp_all add: rd_def eval_nat_numeral)
  then show "fpc_template_validate data = Some (Inr (version, n))"
    using big len tot L blocks v by (simp add: fpc_template_validate_def)
qed

text \<open>(C24) The template validator accepts exactly the byte strings of the documented shape: a
  four-byte version, the total length, and a sequence of blocks each of which carries its own
  length and the CRC-32 of its bytes; it reports that version and the number of blocks.\<close>

theorem fpc_template_validate_spec:
  "fpc_template_validate data = Some (Inr (version, n)) \<longleftrightarrow>
     (\<exists>b0 b1 b2 b3 bs. data = [b0, b1, b2, b3] @ store_le32 (of_nat (length data)) @ frames bs
        \<and> length data \<le> INT32_MAX \<and> version = template_version b0 b1 b2 b3 \<and> n = length bs)"
  by (rule template_validate_iff)

text \<open>Memory safety of the framing layer on untrusted input: for every byte string, of any
  length and content, neither the template validator nor the block check reads outside the buffer
  (both return a result).\<close>

theorem framing_reads_in_bounds:
  "(\<exists>r. fpc_template_validate data = Some r) \<and> (\<exists>r'. checked_block data tag = Some r')"
  using fpc_template_validate_safe [of data] checked_block_safe [of data tag] by blast

text \<open>(C27) The block check detects every corruption confined to four consecutive payload bytes: a
  block whose payload window \<open>w\<close> was replaced by a different \<open>w'\<close> of the same length, with the
  stored checksum left as it was, is rejected with status 140.\<close>

theorem checked_block_rejects_corruption:
  assumes "length w' = length w" "length w \<le> 4" "w' \<noteq> w"
    and "length xs + length w + length ys + 12 < 2 ^ 32"
  shows "checked_block
    (take (8 + length xs) (frame tag (xs @ w @ ys)) @ w'
       @ drop (8 + length xs + length w) (frame tag (xs @ w @ ys)) @ rest) tag = Some (Inl 140)"
proof -
  define n where "n = length (xs @ w @ ys) + 12"
  define hdr where "hdr = store_le32 tag @ store_le32 (of_nat n)"
  define crc where "crc = fpc_crc32 (hdr @ xs @ w @ ys)"
  have f: "frame tag (xs @ w @ ys) = hdr @ xs @ w @ ys @ store_le32 crc"
    by (simp add: frame_def Let_def hdr_def n_def crc_def)
  have lh: "length hdr = 8" by (simp add: hdr_def)
  define body where "body = hdr @ xs @ w' @ ys"
  define data where "data = body @ store_le32 crc @ rest"
  have data: "take (8 + length xs) (frame tag (xs @ w @ ys)) @ w'
       @ drop (8 + length xs + length w) (frame tag (xs @ w @ ys)) @ rest = data"
    by (simp add: f data_def body_def lh)
  have lb: "length body = n - 4" using assms(1) lh by (simp add: body_def n_def)
  have "n < 2 ^ 32" using assms(4) by (simp add: n_def)
  then have n: "unat (of_nat n :: u32) = n" by (simp add: unat_of_nat)
  have n': "12 \<le> n" "n \<le> length data"
    by (auto simp: n_def data_def body_def lh assms(1))
  have r0: "le32 data 0 = Some tag"
    using le32_at [of 0 "[]" tag] by (simp add: data_def body_def hdr_def)
  have r4: "le32 data 4 = Some (of_nat n)"
    using le32_at [of 4 "store_le32 tag" "of_nat n"] by (simp add: data_def body_def hdr_def)
  have rb: "rd_bytes data 0 (n - 4) = Some body"
    using lb by (simp add: rd_bytes_def data_def)
  have rc: "le32 data (n - 4) = Some crc"
    unfolding data_def by (rule le32_at) (simp add: lb)
  have "fpc_crc32 body \<noteq> crc"
  proof
    assume "fpc_crc32 body = crc"
    then have "fpc_crc32 ((hdr @ xs) @ w' @ ys) = fpc_crc32 ((hdr @ xs) @ w @ ys)"
      by (simp add: body_def crc_def)
    then have "w' = w" using crc32_window_inj assms(1,2) by (metis (no_types))
    with assms(3) show False by contradiction
  qed
  then show ?thesis
    unfolding data using n n' r0 r4 rb rc by (simp add: checked_block_def)
qed

theorem checked_block_rejects_corruption_witness:
  "checked_block (take 8 (frame 7 [1, 2, 3]) @ [9] @ drop 9 (frame 7 [1, 2, 3]) @ []) 7 = Some (Inl 140)"
  using checked_block_rejects_corruption [of "[9]" "[1]" "[]" "[2, 3]" 7 "[]"] by simp

end
