(* ===== verification/PairPayload.thy ===== *)
theory PairPayload
  imports Prelude
begin

text \<open>
  Candidate pairs and their wire payload (\<^verbatim>\<open>fpc_recovered.c\<close>: \<^verbatim>\<open>fpc_pair_payload\<close>,
  \<^verbatim>\<open>fpc_pair_load_payload\<close>, \<^verbatim>\<open>fpc_compact_candidates\<close>). The parameter \<open>al\<close> is the
  allocator: whether a request of that many bytes succeeds. Signed 16-bit fields are kept as the
  16-bit patterns the code copies.
\<close>

unbundle bit_operations_syntax

subsection \<open>Data\<close>

record fpc_candidate =
  cd_first :: u16
  cd_second :: u16
  cd_distance :: u16
  cd_flag :: u8
  cd_reserved :: u8

record fpc_loaded_pair =
  lp_pairs :: "fpc_candidate list"
  lp_inliers :: u32
  lp_success :: u8
  lp_transform :: "u16 list"

definition sizeof_candidate :: nat where
  "sizeof_candidate = 8"

definition has_flag :: "u16 \<Rightarrow> u16 \<Rightarrow> bool" where
  "has_flag flags m \<longleftrightarrow> flags AND m \<noteq> 0"

definition pair_stride :: "u16 \<Rightarrow> nat" where
  "pair_stride flags =
     4 + (if has_flag flags 0x4000 then 2 else 0) + (if has_flag flags 0x8000 then 1 else 0)"

subsection \<open>Loading\<close>

definition rd_candidate :: "u16 \<Rightarrow> u8 list \<Rightarrow> nat \<Rightarrow> fpc_candidate option" where
  "rd_candidate flags data off =
     do { a \<leftarrow> rd16 data off;
          b \<leftarrow> rd16 data (off + 2);
          d \<leftarrow> (if has_flag flags 0x4000 then rd16 data (off + 4) else Some 0);
          f \<leftarrow> (if has_flag flags 0x8000
                then rd data (off + (if has_flag flags 0x4000 then 6 else 4))
                else Some (if has_flag flags 0x2000 then 1 else 0));
          Some \<lparr>cd_first = a, cd_second = b, cd_distance = d, cd_flag = f, cd_reserved = 0\<rparr> }"

definition fpc_pair_load_payload ::
    "(nat \<Rightarrow> bool) \<Rightarrow> u8 list \<Rightarrow> u16 \<Rightarrow> (status + fpc_loaded_pair) option" where
  "fpc_pair_load_payload al data flags =
     (if length data < 17 \<or> \<not> has_flag flags 0x1000 then Some (Inl 140) else
      do { count \<leftarrow> le32 data 0;
           inliers \<leftarrow> le32 data 4;
           let n = unat count; stride = pair_stride flags in
           if 32767 < n \<or> 2048 < unat inliers \<or> (SIZE_MAX - 17) div stride < n
              \<or> length data \<noteq> 17 + n * stride then Some (Inl 140) else
           do { success \<leftarrow> rd data 8;
                transform \<leftarrow> rd_seq rd16 2 data 9 4;
                if n \<noteq> 0 \<and> \<not> al (n * sizeof_candidate) then Some (Inl 2) else
                do { pairs \<leftarrow> rd_seq (rd_candidate flags) stride data 17 n;
                     Some (Inr \<lparr>lp_pairs = pairs, lp_inliers = inliers, lp_success = success,
                                 lp_transform = transform\<rparr>) } } })"

subsection \<open>Writing\<close>

definition st_candidate :: "u16 \<Rightarrow> fpc_candidate \<Rightarrow> u8 list" where
  "st_candidate flags p =
     st16 (cd_first p) @ st16 (cd_second p)
       @ (if has_flag flags 0x4000 then st16 (cd_distance p) else [])
       @ (if has_flag flags 0x8000 then [cd_flag p] else [])"

definition kept_pairs :: "u16 \<Rightarrow> fpc_candidate list \<Rightarrow> fpc_candidate list" where
  "kept_pairs flags pairs = filter (\<lambda>p. \<not> has_flag flags 0x2000 \<or> cd_flag p \<noteq> 0) pairs"

definition fpc_pair_payload ::
    "fpc_candidate list \<Rightarrow> u32 \<Rightarrow> u8 \<Rightarrow> u16 list \<Rightarrow> u16 \<Rightarrow> u8 list option
       \<Rightarrow> status + nat \<times> u8 list option" where
  "fpc_pair_payload pairs inliers success transform flags output =
     (if \<not> has_flag flags 0x1000 \<or> 4294967295 < length pairs then Inl (- 1) else
      let selected = (if has_flag flags 0x2000
                      then length (filter (\<lambda>p. cd_flag p \<noteq> 0) pairs) else length pairs);
          stride = pair_stride flags
      in if has_flag flags 0x2000 \<and> selected \<noteq> unat inliers then Inl (- 1)
         else if (SIZE_MAX - 17) div stride < selected then Inl (- 1)
         else write_out (17 + selected * stride)
                (store_le32 (of_nat selected) @ store_le32 inliers @ [success]
                   @ concat (map st16 transform)
                   @ concat (map (st_candidate flags) (kept_pairs flags pairs)))
                output)"

subsection \<open>Compaction after verification\<close>

text \<open>The owned array is replaced by the flagged entries (or by a copy of all of them).\<close>

definition fpc_compact_candidates ::
    "(nat \<Rightarrow> bool) \<Rightarrow> fpc_candidate list \<Rightarrow> nat \<Rightarrow> bool \<Rightarrow> status + fpc_candidate list" where
  "fpc_compact_candidates al owned final_inliers filter_on =
     (if SIZE_MAX div sizeof_candidate < length owned then Inl (- 1) else
      let retained = (if filter_on then length (filter (\<lambda>p. cd_flag p \<noteq> 0) owned)
                      else length owned)
      in if filter_on \<and> retained \<noteq> final_inliers then Inl (- 1)
         else if retained \<noteq> 0 \<and> \<not> al (retained * sizeof_candidate) then Inl 2
         else Inr (if retained = 0 then []
                   else filter (\<lambda>p. \<not> filter_on \<or> cd_flag p \<noteq> 0) owned))"

subsection \<open>The candidate entry as a wire element\<close>

definition candidate_nf :: "u16 \<Rightarrow> fpc_candidate \<Rightarrow> fpc_candidate" where
  "candidate_nf flags p =
     \<lparr>cd_first = cd_first p, cd_second = cd_second p,
      cd_distance = (if has_flag flags 0x4000 then cd_distance p else 0),
      cd_flag = (if has_flag flags 0x8000 then cd_flag p
                 else if has_flag flags 0x2000 then 1 else 0),
      cd_reserved = 0\<rparr>"

lemma rd_candidate_st:
  "rd_candidate flags (pre @ st_candidate flags p @ post) (length pre) = Some (candidate_nf flags p)"
proof -
  define data where "data = pre @ st_candidate flags p @ post"
  have a: "rd16 data (length pre) = Some (cd_first p)"
    by (simp add: data_def st_candidate_def st16_at)
  have b: "rd16 data (length pre + 2) = Some (cd_second p)"
    using st16_at [of "length pre + 2" "pre @ st16 (cd_first p)"]
    by (simp add: data_def st_candidate_def)
  have d: "rd16 data (length pre + 4) = Some (cd_distance p)" if "has_flag flags 0x4000"
    using st16_at [of "length pre + 4" "pre @ st16 (cd_first p) @ st16 (cd_second p)"] that
    by (simp add: data_def st_candidate_def)
  have f: "rd data (length pre + (if has_flag flags 0x4000 then 6 else 4)) = Some (cd_flag p)"
    if "has_flag flags 0x8000"
  proof (cases "has_flag flags 0x4000")
    case True
    with that show ?thesis
      using rd_at [of "length pre + 6" "pre @ st16 (cd_first p) @ st16 (cd_second p)
           @ st16 (cd_distance p)" "cd_flag p" post]
      by (simp add: data_def st_candidate_def)
  next
    case False
    with that show ?thesis
      using rd_at [of "length pre + 4" "pre @ st16 (cd_first p) @ st16 (cd_second p)" "cd_flag p" post]
      by (simp add: data_def st_candidate_def)
  qed
  show ?thesis
    unfolding data_def [symmetric] using a b d f
    by (cases "has_flag flags 0x4000"; cases "has_flag flags 0x8000")
      (simp_all add: rd_candidate_def candidate_nf_def)
qed

interpretation entry: lossy_wire "rd_candidate flags" "st_candidate flags" "pair_stride flags"
    "\<lambda>_. True" "candidate_nf flags" for flags
proof
  fix data pre post :: "u8 list" and off :: nat and p :: fpc_candidate
  show "length (st_candidate flags p) = pair_stride flags"
    by (simp add: st_candidate_def pair_stride_def)
  show "rd_candidate flags (pre @ st_candidate flags p @ post) (length pre) = Some (candidate_nf flags p)"
    by (rule rd_candidate_st)
  show "rd_candidate flags data off \<noteq> None" if "off + pair_stride flags \<le> length data"
  proof -
    have "off + 2 \<le> length data" "off + 2 + 2 \<le> length data"
      using that by (simp_all add: pair_stride_def)
    then obtain a b where "rd16 data off = Some a" "rd16 data (off + 2) = Some b"
      using rd16_total by meson
    moreover have "\<exists>d. rd16 data (off + 4) = Some d" if "has_flag flags 0x4000"
    proof (rule rd16_total)
      show "off + 4 + 2 \<le> length data"
        using that \<open>off + pair_stride flags \<le> length data\<close> by (simp add: pair_stride_def)
    qed
    moreover have "\<exists>f. rd data (off + (if has_flag flags 0x4000 then 6 else 4)) = Some f"
      if "has_flag flags 0x8000"
      using that \<open>off + pair_stride flags \<le> length data\<close>
      by (cases "has_flag flags 0x4000") (simp_all add: pair_stride_def rd_def)
    ultimately show ?thesis
      by (auto simp: rd_candidate_def)
  qed
  assume r: "rd_candidate flags data off = Some p"
  show True ..
  obtain a b where ab: "rd16 data off = Some a" "rd16 data (off + 2) = Some b"
    and p: "cd_first p = a" "cd_second p = b"
    using r by (auto simp: rd_candidate_def split: Option.bind_splits)
  have "st16 a = take 2 (drop off data)" "st16 b = take 2 (drop (off + 2) data)"
    using half.s_r ab by auto
  moreover have "st16 (cd_distance p) = take 2 (drop (off + 4) data)" if "has_flag flags 0x4000"
    using r that half.s_r by (auto simp: rd_candidate_def split: Option.bind_splits)
  moreover have "[cd_flag p] = take 1 (drop (off + (if has_flag flags 0x4000 then 6 else 4)) data)"
    if "has_flag flags 0x8000"
    using r that by (intro byte.s_r) (auto simp: rd_candidate_def split: Option.bind_splits)
  ultimately have "st_candidate flags p =
      take 2 (drop off data) @ take 2 (drop (off + 2) data)
        @ take (if has_flag flags 0x4000 then 2 else 0) (drop (off + 4) data)
        @ take (if has_flag flags 0x8000 then 1 else 0)
            (drop (off + (if has_flag flags 0x4000 then 6 else 4)) data)"
    by (simp add: st_candidate_def p)
  also have "\<dots> = take (pair_stride flags) (drop off data)"
    by (auto simp: pair_stride_def take_add [of 2 2, simplified] take_add [of 4 2, simplified]
        take_add [of 4 1, simplified] take_add [of 6 1, simplified] add.commute [of off])
  finally show "st_candidate flags p = take (pair_stride flags) (drop off data)" .
qed

subsection \<open>Round trips\<close>

lemma kept_pairs_length:
  "length (kept_pairs flags pairs) =
     (if has_flag flags 0x2000 then length (filter (\<lambda>p. cd_flag p \<noteq> 0) pairs) else length pairs)"
  by (simp add: kept_pairs_def)

lemma pair_stride_bounds: "4 \<le> pair_stride flags" "pair_stride flags \<le> 7"
  by (simp_all add: pair_stride_def)

lemma stride_no_overflow: "n \<le> 32767 \<Longrightarrow> n \<le> (SIZE_MAX - 17) div pair_stride flags"
proof -
  assume "n \<le> 32767"
  also have "32767 \<le> (SIZE_MAX - 17) div 7" by (simp add: SIZE_MAX_def)
  also have "\<dots> \<le> (SIZE_MAX - 17) div pair_stride flags"
    by (rule div_le_mono2) (use pair_stride_bounds [of flags] in auto)
  finally show ?thesis .
qed

lemma fpc_pair_load_payload_safe: "fpc_pair_load_payload al data flags \<noteq> None"
proof (cases "length data < 17 \<or> \<not> has_flag flags 0x1000")
  case True
  then show ?thesis by (auto simp: fpc_pair_load_payload_def)
next
  case False
  then have l: "0 + 4 \<le> length data" "4 + 4 \<le> length data" "8 < length data"
    "9 + 2 * 4 \<le> length data" by auto
  obtain c where c: "le32 data 0 = Some c" using le32_total [OF l(1)] by auto
  obtain i where i: "le32 data 4 = Some i" using le32_total [OF l(2)] by auto
  obtain t where t: "rd_seq rd16 2 data 9 4 = Some t" using half.seq_total [OF l(4)] by auto
  have "rd_seq (rd_candidate flags) (pair_stride flags) data 17 (unat c) \<noteq> None"
    if "length data = 17 + unat c * pair_stride flags"
    by (rule entry.seq_total) (simp add: that mult.commute)
  with c i t l(3) False show ?thesis
    by (auto simp: fpc_pair_load_payload_def rd_simps Let_def)
qed

text \<open>Candidate pairs survive a save and a load: what the loader reads back from the bytes the
  serializer wrote is, entry by entry and in order, the kept pairs in their wire normal form (the
  distance and the flag survive when their flag bits ask for them), with the inlier count, the
  success byte and the transform unchanged.\<close>

theorem pair_payload_roundtrip:
  assumes "has_flag flags 0x1000" and "length transform = 4"
    and "length pairs \<le> 32767" and "unat inliers \<le> 2048"
    and "has_flag flags 0x2000 \<Longrightarrow> length (filter (\<lambda>p. cd_flag p \<noteq> 0) pairs) = unat inliers"
    and "\<And>n. al n"
    and "length buf = 17 + length (kept_pairs flags pairs) * pair_stride flags"
  shows "\<exists>bytes.
    fpc_pair_payload pairs inliers success transform flags None = Inr (length buf, None) \<and>
    fpc_pair_payload pairs inliers success transform flags (Some buf) = Inr (length buf, Some bytes) \<and>
    length bytes = length buf \<and>
    fpc_pair_load_payload al bytes flags =
      Some (Inr \<lparr>lp_pairs = map (candidate_nf flags) (kept_pairs flags pairs),
                 lp_inliers = inliers, lp_success = success, lp_transform = transform\<rparr>)"
proof -
  define kept where "kept = kept_pairs flags pairs"
  define n where "n = length kept"
  define body where "body = concat (map (st_candidate flags) kept)"
  define mid where "mid = concat (map st16 transform)"
  define hdr where "hdr = store_le32 (of_nat n) @ store_le32 inliers"
  define bytes where "bytes = store_le32 (of_nat n) @ store_le32 inliers @ [success] @ mid @ body"
  have n: "n \<le> 32767"
    using assms(3) unfolding n_def kept_def kept_pairs_def by (rule order_trans [OF length_filter_le])
  have lb: "length body = pair_stride flags * n"
    using entry.length_concat [of kept flags] by (simp add: body_def n_def)
  have lm: "length mid = 8" using half.length_concat [of transform] assms(2) by (simp add: mid_def)
  have len: "length bytes = length buf"
    using assms(7) lb lm by (simp add: bytes_def n_def kept_def mult.commute)
  have selected: "(if has_flag flags 0x2000 then length (filter (\<lambda>p. cd_flag p \<noteq> 0) pairs)
      else length pairs) = n"
    by (simp add: n_def kept_def kept_pairs_length)
  have sel: "n = unat inliers" if "has_flag flags 0x2000"
    using assms(5) that selected by simp
  have big: "17 + n * pair_stride flags = length buf" using assms(7) by (simp add: n_def kept_def)
  have wr: "fpc_pair_payload pairs inliers success transform flags out
      = write_out (length buf) bytes out" for out
    unfolding fpc_pair_payload_def Let_def selected big
    using assms(1,3) sel stride_no_overflow [OF n, of flags]
    by (auto simp: not_less bytes_def mid_def body_def kept_def)
  have u: "unat (of_nat n :: u32) = n" using n by (simp add: unat_of_nat)
  have r0: "le32 bytes 0 = Some (of_nat n)"
    using le32_at [of 0 "[]" "of_nat n"] by (simp add: bytes_def)
  have r4: "le32 bytes 4 = Some inliers"
    using le32_at [of 4 "store_le32 (of_nat n)" inliers] by (simp add: bytes_def)
  have r8: "rd bytes 8 = Some success"
    using rd_at [of 8 "store_le32 (of_nat n) @ store_le32 inliers" success] by (simp add: bytes_def)
  have b9: "bytes = (hdr @ [success]) @ concat (map st16 transform) @ body"
    by (simp add: bytes_def hdr_def mid_def)
  have r9: "rd_seq rd16 2 bytes 9 4 = Some transform"
    unfolding b9 by (rule half.seq_read) (simp_all add: hdr_def assms(2))
  have b17: "bytes = (hdr @ [success] @ mid) @ concat (map (st_candidate flags) kept) @ []"
    by (simp add: bytes_def hdr_def body_def)
  have r17: "rd_seq (rd_candidate flags) (pair_stride flags) bytes 17 n
      = Some (map (candidate_nf flags) kept)"
    unfolding b17 by (rule entry.seq_append) (simp_all add: hdr_def lm n_def)
  have "fpc_pair_load_payload al bytes flags =
      Some (Inr \<lparr>lp_pairs = map (candidate_nf flags) kept,
                 lp_inliers = inliers, lp_success = success, lp_transform = transform\<rparr>)"
    using assms(1,4,6) n stride_no_overflow [OF n, of flags] len assms(7) u r0 r4 r8 r9 r17
    by (simp add: fpc_pair_load_payload_def Let_def not_less n_def kept_def)
  with wr len show ?thesis by (simp add: kept_def)
qed

theorem pair_payload_roundtrip_witness:
  "\<exists>bytes. fpc_pair_payload
      [\<lparr>cd_first = 1, cd_second = 2, cd_distance = 9, cd_flag = 0, cd_reserved = 0\<rparr>,
       \<lparr>cd_first = 3, cd_second = 4, cd_distance = 7, cd_flag = 1, cd_reserved = 0\<rparr>]
      1 1 [5, 6, 7, 8] 0x7000 (Some (replicate 23 0)) = Inr (23, Some bytes)"
  using pair_payload_roundtrip [of "0x7000" "[5, 6, 7, 8]"
      "[\<lparr>cd_first = 1, cd_second = 2, cd_distance = 9, cd_flag = 0, cd_reserved = 0\<rparr>,
       \<lparr>cd_first = 3, cd_second = 4, cd_distance = 7, cd_flag = 1, cd_reserved = 0\<rparr>]" 1
      "\<lambda>_. True" "replicate 23 0" 1]
  by (simp add: has_flag_def kept_pairs_def pair_stride_def) blast

end
