(* ===== verification/CapturePayload.thy ===== *)
theory CapturePayload
  imports PairPayload
begin

text \<open>
  The capture payload (\<^verbatim>\<open>fpc_recovered.c\<close>: \<^verbatim>\<open>fpc_capture_payload\<close>,
  \<^verbatim>\<open>fpc_capture_load_payload\<close>). A view is a record of array pointers, each of which may be
  NULL (\<open>None\<close>). A serializer that reads past one of the arrays of its view is undefined
  (\<open>None\<close>); a loaded view owns one allocation that all of its arrays point into.
\<close>

unbundle bit_operations_syntax

record fpc_capture_payload_view =
  vw_count :: u32
  vw_mode :: u8
  vw_descriptor_bytes :: u8
  vw_levels :: u8
  vw_table_width :: u8
  vw_level_fields :: "u16 list option"
  vw_level_extra :: "u16 list option"
  vw_compact_coordinates :: "u8 list option"
  vw_descriptors :: "u8 list option"
  vw_membership :: "u8 list option"
  vw_coordinates :: "u32 list option"
  vw_scores :: "u32 list option"
  vw_angles :: "u32 list option"

definition empty_view :: "u32 \<Rightarrow> fpc_capture_payload_view" where
  "empty_view n =
     \<lparr>vw_count = n, vw_mode = 0, vw_descriptor_bytes = 0, vw_levels = 0, vw_table_width = 0,
      vw_level_fields = None, vw_level_extra = None, vw_compact_coordinates = None,
      vw_descriptors = None, vw_membership = None, vw_coordinates = None, vw_scores = None,
      vw_angles = None\<rparr>"

definition extra_words :: "u8 \<Rightarrow> nat" where
  "extra_words table_width = (if table_width = 0 then 0 else unat table_width - 1)"

text \<open>How many elements each array of a view with \<open>n\<close> features has, under the given flags.\<close>

definition n_compact :: "u16 \<Rightarrow> nat \<Rightarrow> nat" where
  "n_compact flags n = (if has_flag flags 0x20 then 2 * n else 0)"

definition n_coordinates :: "u16 \<Rightarrow> nat \<Rightarrow> nat" where
  "n_coordinates flags n = (if has_flag flags 0x20 then 0 else 2 * n)"

definition n_scores :: "u16 \<Rightarrow> nat \<Rightarrow> nat" where
  "n_scores flags n = (if has_flag flags 4 then n else 0)"

definition n_angles :: "u16 \<Rightarrow> nat \<Rightarrow> nat" where
  "n_angles flags n = (if has_flag flags 2 then n else 0)"

definition n_descriptors :: "u16 \<Rightarrow> nat \<Rightarrow> u8 \<Rightarrow> nat" where
  "n_descriptors flags n d = (if has_flag flags 0x800 then n * unat d else 0)"

definition n_membership :: "u16 \<Rightarrow> nat \<Rightarrow> nat" where
  "n_membership flags n = (if has_flag flags 0x80 then (n + 7) div 8 else 0)"

lemmas n_array_defs = n_compact_def n_coordinates_def n_scores_def n_angles_def n_descriptors_def
  n_membership_def

subsection \<open>Layout of the loaded allocation\<close>

record capture_layout =
  ly_needed :: nat
  ly_numeric_bytes :: nat
  ly_allocation :: nat

definition round4 :: "nat \<Rightarrow> nat" where
  "round4 n = (n + 3) div 4 * 4"

definition capture_layout_of :: "u16 \<Rightarrow> nat \<Rightarrow> u8 \<Rightarrow> nat \<Rightarrow> nat \<Rightarrow> capture_layout" where
  "capture_layout_of flags n descriptor_size levels extra =
     (let words = levels * (5 + extra);
          coordinates = n * (if has_flag flags 0x20 then 2 else 8);
          scores = 4 * n_scores flags n;
          angles = 4 * n_angles flags n;
          descriptors = n_descriptors flags n descriptor_size;
          membership = n_membership flags n;
          numeric = round4 (2 * words) + (if has_flag flags 0x20 then 0 else coordinates)
                      + scores + angles
      in \<lparr>ly_needed = 8 + 2 * words + coordinates + scores + angles + descriptors + membership,
          ly_numeric_bytes = numeric,
          ly_allocation = numeric + (if has_flag flags 0x20 then coordinates else 0)
                            + descriptors + membership\<rparr>)"

text \<open>The byte regions (offset, length) the loader writes inside its allocation, in the order the
  pointers are set: level fields, level extras, the three word arrays, compact coordinates,
  descriptors, membership.\<close>

definition capture_regions :: "u16 \<Rightarrow> nat \<Rightarrow> u8 \<Rightarrow> nat \<Rightarrow> nat \<Rightarrow> (nat \<times> nat) list" where
  "capture_regions flags n descriptor_size levels extra =
     (let ly = capture_layout_of flags n descriptor_size levels extra;
          pos = round4 (2 * (levels * (5 + extra)));
          pos1 = pos + 4 * n_coordinates flags n;
          pos2 = pos1 + 4 * n_scores flags n;
          tail = ly_numeric_bytes ly + n_compact flags n
      in [(0, 2 * (5 * levels)), (2 * (5 * levels), 2 * (extra * levels)),
          (pos, 4 * n_coordinates flags n), (pos1, 4 * n_scores flags n),
          (pos2, 4 * n_angles flags n),
          (ly_numeric_bytes ly, n_compact flags n),
          (tail, n_descriptors flags n descriptor_size),
          (tail + n_descriptors flags n descriptor_size, n_membership flags n)])"

subsection \<open>Loading\<close>

text \<open>The per-level counts are summed before anything is allocated.\<close>

fun sum_levels :: "u8 list \<Rightarrow> nat \<Rightarrow> nat \<Rightarrow> nat \<Rightarrow> u32 \<Rightarrow> (status + u32) option" where
  "sum_levels data offset extra 0 acc = Some (Inr acc)"
| "sum_levels data offset extra (Suc l) acc =
     do { count \<leftarrow> rd16 data offset;
          if 32767 < unat count then Some (Inl 140)
          else sum_levels data (offset + 2 * (5 + extra)) extra l (acc + ucast count) }"

definition non_null :: "'a list \<Rightarrow> 'a list option" where
  "non_null xs = (if xs = [] then None else Some xs)"

definition rd_level :: "nat \<Rightarrow> u8 list \<Rightarrow> nat \<Rightarrow> u16 list option" where
  "rd_level extra data off = rd_seq rd16 2 data off (5 + extra)"

text \<open>The arrays, copied in the order of the payload.\<close>

definition capture_arrays ::
    "u8 list \<Rightarrow> u16 \<Rightarrow> u32 \<Rightarrow> u8 \<Rightarrow> u8 \<Rightarrow> u8 \<Rightarrow> u8 \<Rightarrow> fpc_capture_payload_view option" where
  "capture_arrays data flags n32 mode descriptor_size levels table_width =
     (let n = unat n32; extra = extra_words table_width;
          o1 = 8 + 2 * (5 + extra) * unat levels;
          o2 = o1 + n_compact flags n;
          o3 = o2 + 4 * n_coordinates flags n;
          o4 = o3 + 4 * n_scores flags n;
          o5 = o4 + 4 * n_angles flags n;
          o6 = o5 + n_descriptors flags n descriptor_size
      in do { rows \<leftarrow> rd_seq (rd_level extra) (2 * (5 + extra)) data 8 (unat levels);
              compact \<leftarrow> rd_bytes data o1 (n_compact flags n);
              coordinates \<leftarrow> rd_seq le32 4 data o2 (n_coordinates flags n);
              scores \<leftarrow> rd_seq le32 4 data o3 (n_scores flags n);
              angles \<leftarrow> rd_seq le32 4 data o4 (n_angles flags n);
              descriptors \<leftarrow> rd_bytes data o5 (n_descriptors flags n descriptor_size);
              membership \<leftarrow> rd_bytes data o6 (n_membership flags n);
              Some \<lparr>vw_count = n32, vw_mode = mode, vw_descriptor_bytes = descriptor_size,
                    vw_levels = levels, vw_table_width = table_width,
                    vw_level_fields = Some (concat (map (take 5) rows)),
                    vw_level_extra = Some (concat (map (drop 5) rows)),
                    vw_compact_coordinates = non_null compact,
                    vw_descriptors = non_null descriptors,
                    vw_membership = non_null membership,
                    vw_coordinates = non_null coordinates,
                    vw_scores = non_null scores,
                    vw_angles = non_null angles\<rparr> })"

definition fpc_capture_load_payload ::
    "(nat \<Rightarrow> bool) \<Rightarrow> u8 list \<Rightarrow> u16 \<Rightarrow> (status + fpc_capture_payload_view) option" where
  "fpc_capture_load_payload al data flags =
     (if length data < 4 then Some (Inl 140) else
      do { n32 \<leftarrow> le32 data 0;
           let n = unat n32 in
           if 32767 < n then Some (Inl 140)
           else if \<not> has_flag flags 0x400 then
             (if length data \<noteq> 4 then Some (Inl 140) else Some (Inr (empty_view n32)))
           else if length data < 8 then Some (Inl 140) else
           do { mode \<leftarrow> rd data 4; descriptor_size \<leftarrow> rd data 5;
                levels \<leftarrow> rd data 6; table_width \<leftarrow> rd data 7;
                let extra = extra_words table_width;
                    ly = capture_layout_of flags n descriptor_size (unat levels) extra in
                if length data \<noteq> ly_needed ly then Some (Inl 140) else
                do { s \<leftarrow> sum_levels data 8 extra (unat levels) 0;
                     case s of
                       Inl e \<Rightarrow> Some (Inl e)
                     | Inr acc \<Rightarrow>
                         if acc \<noteq> n32 then Some (Inl 140)
                         else if \<not> al (if ly_allocation ly = 0 then 1 else ly_allocation ly)
                         then Some (Inl 2)
                         else map_option Inr
                                (capture_arrays data flags n32 mode descriptor_size levels table_width) } } })"

subsection \<open>Writing\<close>

text \<open>A view that lacks an array the flags ask for is refused.\<close>

definition view_missing :: "fpc_capture_payload_view \<Rightarrow> u16 \<Rightarrow> bool" where
  "view_missing view flags \<longleftrightarrow>
     (let n = unat (vw_count view); extra = extra_words (vw_table_width view)
      in vw_levels view \<noteq> 0 \<and> vw_level_fields view = None
       \<or> vw_levels view \<noteq> 0 \<and> extra \<noteq> 0 \<and> vw_level_extra view = None
       \<or> n \<noteq> 0 \<and> (if has_flag flags 0x20 then vw_compact_coordinates view = None
                   else vw_coordinates view = None)
       \<or> n \<noteq> 0 \<and> has_flag flags 4 \<and> vw_scores view = None
       \<or> n \<noteq> 0 \<and> has_flag flags 2 \<and> vw_angles view = None
       \<or> n \<noteq> 0 \<and> vw_descriptor_bytes view \<noteq> 0 \<and> has_flag flags 0x800 \<and> vw_descriptors view = None
       \<or> n \<noteq> 0 \<and> has_flag flags 0x80 \<and> vw_membership view = None)"

definition capture_payload_size :: "fpc_capture_payload_view \<Rightarrow> u16 \<Rightarrow> nat" where
  "capture_payload_size view flags =
     (let n = unat (vw_count view); extra = extra_words (vw_table_width view)
      in if \<not> has_flag flags 0x400 then 4
         else 8 + unat (vw_levels view) * (10 + 2 * extra) + n * (if has_flag flags 0x20 then 2 else 8)
              + 4 * n_scores flags n + 4 * n_angles flags n
              + n_descriptors flags n (vw_descriptor_bytes view) + n_membership flags n)"

definition level_rows :: "u16 list \<Rightarrow> u16 list \<Rightarrow> nat \<Rightarrow> nat \<Rightarrow> u16 list list" where
  "level_rows lf le levels extra =
     map (\<lambda>l. map (\<lambda>j. if j < 5 then lf ! (5 * l + j) else le ! (extra * l + j - 5))
                [0..<5 + extra]) [0..<levels]"

definition capture_payload_bytes :: "fpc_capture_payload_view \<Rightarrow> u16 \<Rightarrow> u8 list option" where
  "capture_payload_bytes view flags =
     (let n = unat (vw_count view); extra = extra_words (vw_table_width view);
          levels = unat (vw_levels view)
      in if \<not> has_flag flags 0x400 then Some (store_le32 (vw_count view)) else
         do { lf \<leftarrow> rd_prefix (vw_level_fields view) (5 * levels);
              le \<leftarrow> rd_prefix (vw_level_extra view) (extra * levels);
              compact \<leftarrow> rd_prefix (vw_compact_coordinates view) (n_compact flags n);
              coordinates \<leftarrow> rd_prefix (vw_coordinates view) (n_coordinates flags n);
              scores \<leftarrow> rd_prefix (vw_scores view) (n_scores flags n);
              angles \<leftarrow> rd_prefix (vw_angles view) (n_angles flags n);
              descriptors \<leftarrow> rd_prefix (vw_descriptors view)
                 (n_descriptors flags n (vw_descriptor_bytes view));
              membership \<leftarrow> rd_prefix (vw_membership view) (n_membership flags n);
              Some (store_le32 (vw_count view)
                @ [vw_mode view, vw_descriptor_bytes view, vw_levels view, vw_table_width view]
                @ concat (map (\<lambda>row. concat (map st16 row)) (level_rows lf le levels extra))
                @ compact @ concat (map store_le32 coordinates) @ concat (map store_le32 scores)
                @ concat (map store_le32 angles) @ descriptors @ membership) })"

definition fpc_capture_payload ::
    "fpc_capture_payload_view \<Rightarrow> u16 \<Rightarrow> u8 list option \<Rightarrow> (status + nat \<times> u8 list option) option" where
  "fpc_capture_payload view flags output =
     (if 32767 < unat (vw_count view) then Some (Inl (- 1))
      else if has_flag flags 0x400 \<and> view_missing view flags then Some (Inl (- 1))
      else let sz = capture_payload_size view flags
           in case output of
                None \<Rightarrow> Some (Inr (sz, None))
              | Some buf \<Rightarrow>
                  if length buf < sz then Some (Inl (- 1))
                  else do { bytes \<leftarrow> capture_payload_bytes view flags;
                            Some (write_out sz bytes output) })"

subsection \<open>Levels\<close>

interpretation level: wire "rd_level extra" "\<lambda>row. concat (map st16 row)" "2 * (5 + extra)"
    "\<lambda>row. length row = 5 + extra" for extra
  unfolding rd_level_def using half.seq_wire [of "5 + extra"] by simp

definition level_sum :: "u16 list list \<Rightarrow> u32" where
  "level_sum rows = sum_list (map (\<lambda>row. ucast (row ! 0)) rows)"

lemma sum_levels_append:
  "off = length pre \<Longrightarrow> list_all (\<lambda>row. length row = 5 + extra \<and> unat (row ! 0) \<le> 32767) rows \<Longrightarrow>
   sum_levels (pre @ concat (map (\<lambda>row. concat (map st16 row)) rows) @ post) off extra (length rows) acc
     = Some (Inr (acc + level_sum rows))"
proof (induction rows arbitrary: pre off acc)
  case Nil
  then show ?case by (simp add: level_sum_def)
next
  case (Cons row rows)
  let ?tail = "concat (map (\<lambda>row. concat (map st16 row)) rows) @ post"
  have row: "length row = 5 + extra" "unat (row ! 0) \<le> 32767" using Cons.prems by simp_all
  then obtain w ws where ws: "row = w # ws" by (cases row) auto
  have head: "rd16 (pre @ concat (map st16 row) @ ?tail) off = Some (row ! 0)"
    using st16_at [OF Cons.prems(1), of w "concat (map st16 ws) @ ?tail"] by (simp add: ws)
  have "sum_levels ((pre @ concat (map st16 row)) @ ?tail) (off + 2 * (5 + extra)) extra
      (length rows) (acc + ucast (row ! 0)) = Some (Inr (acc + ucast (row ! 0) + level_sum rows))"
    using Cons.IH [of "off + 2 * (5 + extra)" "pre @ concat (map st16 row)"] Cons.prems
      half.length_concat [of row] row(1) by simp
  then show ?case using head row(2) by (simp add: level_sum_def add.assoc)
qed

lemma sum_levels_total:
  "off + 2 * (5 + extra) * levels \<le> length data \<Longrightarrow> sum_levels data off extra levels acc \<noteq> None"
proof (induction levels arbitrary: off acc)
  case 0
  then show ?case by simp
next
  case (Suc levels)
  then have "off + 2 \<le> length data" by simp
  then obtain w where "rd16 data off = Some w" using rd16_total by blast
  moreover have "sum_levels data (off + 2 * (5 + extra)) extra levels (acc + ucast w) \<noteq> None"
    by (rule Suc.IH) (use Suc.prems in simp)
  ultimately show ?case by simp
qed

subsection \<open>Reads stay inside the payload\<close>

lemma needed_split:
  "ly_needed (capture_layout_of flags n d levels extra) =
     8 + 2 * (5 + extra) * levels + n_compact flags n + 4 * n_coordinates flags n
       + 4 * n_scores flags n + 4 * n_angles flags n + n_descriptors flags n d
       + n_membership flags n"
  by (simp add: capture_layout_of_def Let_def n_compact_def n_coordinates_def algebra_simps)

lemma capture_arrays_total:
  assumes "length data = ly_needed (capture_layout_of flags (unat n32) d (unat levels) (extra_words w))"
  shows "capture_arrays data flags n32 mode d levels w \<noteq> None"
proof -
  note len = assms [unfolded needed_split]
  define extra where "extra = extra_words w"
  define o1 where "o1 = 8 + 2 * (5 + extra) * unat levels"
  define o2 where "o2 = o1 + n_compact flags (unat n32)"
  define o3 where "o3 = o2 + 4 * n_coordinates flags (unat n32)"
  define o4 where "o4 = o3 + 4 * n_scores flags (unat n32)"
  define o5 where "o5 = o4 + 4 * n_angles flags (unat n32)"
  define o6 where "o6 = o5 + n_descriptors flags (unat n32) d"
  have total: "length data = o6 + n_membership flags (unat n32)"
    using len by (simp add: o6_def o5_def o4_def o3_def o2_def o1_def extra_def)
  have rows: "rd_seq (rd_level extra) (2 * (5 + extra)) data 8 (unat levels) \<noteq> None"
    by (rule level.seq_total) (simp add: total o6_def o5_def o4_def o3_def o2_def o1_def)
  have words: "rd_seq le32 4 data o2 (n_coordinates flags (unat n32)) \<noteq> None"
    "rd_seq le32 4 data o3 (n_scores flags (unat n32)) \<noteq> None"
    "rd_seq le32 4 data o4 (n_angles flags (unat n32)) \<noteq> None"
    by (rule word.seq_total; simp add: total o6_def o5_def o4_def o3_def)+
  have bytes: "rd_bytes data o1 (n_compact flags (unat n32)) \<noteq> None"
    "rd_bytes data o5 (n_descriptors flags (unat n32) d) \<noteq> None"
    "rd_bytes data o6 (n_membership flags (unat n32)) \<noteq> None"
    by (simp_all add: rd_bytes_def total o6_def o5_def o4_def o3_def o2_def)
  show ?thesis
    using rows words bytes
    unfolding capture_arrays_def Let_def extra_def [symmetric] o1_def [symmetric] o2_def [symmetric]
      o3_def [symmetric] o4_def [symmetric] o5_def [symmetric] o6_def [symmetric]
    by auto
qed

lemma fpc_capture_load_payload_safe: "fpc_capture_load_payload al data flags \<noteq> None"
proof (cases "length data < 8")
  case True
  have "le32 data 0 \<noteq> None" if "\<not> length data < 4" using that word.r_total [of 0 data] by simp
  with True show ?thesis by (auto simp: fpc_capture_load_payload_def Let_def)
next
  case False
  obtain n where n: "le32 data 0 = Some n" using False le32_total [of 0 data] by auto
  have l: "4 < length data" "5 < length data" "6 < length data" "7 < length data" using False by auto
  define extra where "extra = extra_words (data ! 7)"
  define ly where "ly = capture_layout_of flags (unat n) (data ! 5) (unat (data ! 6)) extra"
  have sums: "sum_levels data 8 extra (unat (data ! 6)) 0 \<noteq> None" if "length data = ly_needed ly"
    by (rule sum_levels_total) (simp add: that ly_def needed_split)
  have arrays: "capture_arrays data flags n (data ! 4) (data ! 5) (data ! 6) (data ! 7) \<noteq> None"
    if "length data = ly_needed ly"
    using that by (intro capture_arrays_total) (simp add: ly_def extra_def)
  show ?thesis
  proof (cases "length data = ly_needed ly")
    case True
    with sums arrays obtain s v where "sum_levels data 8 extra (unat (data ! 6)) 0 = Some s"
      "capture_arrays data flags n (data ! 4) (data ! 5) (data ! 6) (data ! 7) = Some v"
      by auto
    with n l False show ?thesis
      by (auto simp: fpc_capture_load_payload_def rd_simps Let_def extra_def ly_def split: sum.splits)
  next
    case wrong: False
    with n l False show ?thesis
      by (auto simp: fpc_capture_load_payload_def rd_simps Let_def extra_def ly_def)
  qed
qed

subsection \<open>Round trip\<close>

definition view_rows :: "fpc_capture_payload_view \<Rightarrow> u16 list list" where
  "view_rows v = level_rows (arr (vw_level_fields v)) (arr (vw_level_extra v))
     (unat (vw_levels v)) (extra_words (vw_table_width v))"

definition view_ok :: "fpc_capture_payload_view \<Rightarrow> u16 \<Rightarrow> bool" where
  "view_ok v flags \<longleftrightarrow>
     (let n = unat (vw_count v); extra = extra_words (vw_table_width v); levels = unat (vw_levels v)
      in n \<le> 32767 \<and> length (arr (vw_level_fields v)) = 5 * levels
       \<and> length (arr (vw_level_extra v)) = extra * levels
       \<and> length (arr (vw_compact_coordinates v)) = n_compact flags n
       \<and> length (arr (vw_coordinates v)) = n_coordinates flags n
       \<and> length (arr (vw_scores v)) = n_scores flags n
       \<and> length (arr (vw_angles v)) = n_angles flags n
       \<and> length (arr (vw_descriptors v)) = n_descriptors flags n (vw_descriptor_bytes v)
       \<and> length (arr (vw_membership v)) = n_membership flags n
       \<and> list_all (\<lambda>row. unat (row ! 0) \<le> 32767) (view_rows v)
       \<and> level_sum (view_rows v) = vw_count v)"

text \<open>The form a loaded view has: level tables always present, every other array NULL when empty.\<close>

definition loaded_view :: "fpc_capture_payload_view \<Rightarrow> fpc_capture_payload_view" where
  "loaded_view v =
     v\<lparr>vw_level_fields := Some (arr (vw_level_fields v)),
       vw_level_extra := Some (arr (vw_level_extra v)),
       vw_compact_coordinates := non_null (arr (vw_compact_coordinates v)),
       vw_descriptors := non_null (arr (vw_descriptors v)),
       vw_membership := non_null (arr (vw_membership v)),
       vw_coordinates := non_null (arr (vw_coordinates v)),
       vw_scores := non_null (arr (vw_scores v)),
       vw_angles := non_null (arr (vw_angles v))\<rparr>"

lemma view_ok_present:
  assumes "view_ok v flags"
  shows "\<not> view_missing v flags"
proof
  assume "view_missing v flags"
  then consider "vw_levels v \<noteq> 0 \<and> vw_level_fields v = None"
    | "vw_levels v \<noteq> 0 \<and> extra_words (vw_table_width v) \<noteq> 0 \<and> vw_level_extra v = None"
    | "vw_count v \<noteq> 0 \<and> has_flag flags 0x20 \<and> vw_compact_coordinates v = None"
    | "vw_count v \<noteq> 0 \<and> \<not> has_flag flags 0x20 \<and> vw_coordinates v = None"
    | "vw_count v \<noteq> 0 \<and> has_flag flags 4 \<and> vw_scores v = None"
    | "vw_count v \<noteq> 0 \<and> has_flag flags 2 \<and> vw_angles v = None"
    | "vw_count v \<noteq> 0 \<and> vw_descriptor_bytes v \<noteq> 0 \<and> has_flag flags 0x800 \<and> vw_descriptors v = None"
    | "vw_count v \<noteq> 0 \<and> has_flag flags 0x80 \<and> vw_membership v = None"
    unfolding view_missing_def Let_def by (auto simp: unat_eq_zero split: if_splits)
  then show False
    by cases (use assms in \<open>auto simp: view_ok_def n_array_defs Let_def unat_eq_zero div_eq_0_iff\<close>)
qed

lemma split_rows:
  assumes "length lf = 5 * levels" "length le = extra * levels"
  shows "concat (map (take 5) (level_rows lf le levels extra)) = lf"
    and "concat (map (drop 5) (level_rows lf le levels extra)) = le"
    and "list_all (\<lambda>row. length row = 5 + extra) (level_rows lf le levels extra)"
    and "length (level_rows lf le levels extra) = levels"
proof -
  have t: "take 5 (map f [0..<5 + extra]) = map f [0..<5]" for f :: "nat \<Rightarrow> u16"
    by (simp add: take_map)
  have d: "drop 5 (map f [0..<5 + extra]) = map (\<lambda>j. f (j + 5)) [0..<extra]" for f :: "nat \<Rightarrow> u16"
    by (rule nth_equalityI) (simp_all add: add.commute)
  have "concat (map (\<lambda>l. map (\<lambda>j. lf ! (5 * l + j)) [0..<5]) [0..<levels]) = lf"
    by (rule split_blocks) (simp add: assms)
  moreover have "map (\<lambda>j. if j < 5 then lf ! (5 * l + j) else le ! (extra * l + j - 5)) [0..<5]
      = map (\<lambda>j. lf ! (5 * l + j)) [0..<5]" for l
    by (rule map_cong) simp_all
  ultimately show "concat (map (take 5) (level_rows lf le levels extra)) = lf"
    by (simp only: level_rows_def map_map comp_def t)
  have "concat (map (\<lambda>l. map (\<lambda>j. le ! (extra * l + j)) [0..<extra]) [0..<levels]) = le"
    by (rule split_blocks) (simp add: assms)
  then show "concat (map (drop 5) (level_rows lf le levels extra)) = le"
    by (simp add: level_rows_def comp_def d)
  show "list_all (\<lambda>row. length row = 5 + extra) (level_rows lf le levels extra)"
    "length (level_rows lf le levels extra) = levels"
    by (simp_all add: level_rows_def list_all_iff)
qed

lemma view_rows_ok:
  assumes "view_ok v flags"
  shows "list_all (\<lambda>row. length row = 5 + extra_words (vw_table_width v) \<and> unat (row ! 0) \<le> 32767) (view_rows v)"
    and "length (view_rows v) = unat (vw_levels v)"
    and "concat (map (take 5) (view_rows v)) = arr (vw_level_fields v)"
    and "concat (map (drop 5) (view_rows v)) = arr (vw_level_extra v)"
proof -
  note r = split_rows [of "arr (vw_level_fields v)" "unat (vw_levels v)" "arr (vw_level_extra v)"
      "extra_words (vw_table_width v)", folded view_rows_def]
  have len: "length (arr (vw_level_fields v)) = 5 * unat (vw_levels v)"
    "length (arr (vw_level_extra v)) = extra_words (vw_table_width v) * unat (vw_levels v)"
    and small: "list_all (\<lambda>row. unat (row ! 0) \<le> 32767) (view_rows v)"
    using assms by (simp_all add: view_ok_def Let_def)
  show "list_all (\<lambda>row. length row = 5 + extra_words (vw_table_width v) \<and> unat (row ! 0) \<le> 32767) (view_rows v)"
    using r(3) [OF len] small by (simp add: list_all_iff)
  show "length (view_rows v) = unat (vw_levels v)"
    "concat (map (take 5) (view_rows v)) = arr (vw_level_fields v)"
    "concat (map (drop 5) (view_rows v)) = arr (vw_level_extra v)"
    using r [OF len] by simp_all
qed

definition view_bytes :: "fpc_capture_payload_view \<Rightarrow> u8 list" where
  "view_bytes v = store_le32 (vw_count v)
     @ [vw_mode v, vw_descriptor_bytes v, vw_levels v, vw_table_width v]
     @ concat (map (\<lambda>row. concat (map st16 row)) (view_rows v))
     @ arr (vw_compact_coordinates v) @ concat (map store_le32 (arr (vw_coordinates v)))
     @ concat (map store_le32 (arr (vw_scores v))) @ concat (map store_le32 (arr (vw_angles v)))
     @ arr (vw_descriptors v) @ arr (vw_membership v)"

lemma capture_payload_bytes_ok:
  assumes "view_ok v flags" "has_flag flags 0x400"
  shows "capture_payload_bytes v flags = Some (view_bytes v)"
  using assms
  by (simp add: capture_payload_bytes_def view_ok_def Let_def rd_prefix_arr
      view_bytes_def view_rows_def)

lemma length_view_bytes:
  assumes "view_ok v flags" "has_flag flags 0x400"
  shows "length (view_bytes v) = capture_payload_size v flags"
proof -
  have "list_all (\<lambda>row. length row = 5 + extra_words (vw_table_width v)) (view_rows v)"
    using view_rows_ok(1) [OF assms(1)] by (simp add: list_all_iff)
  then have "length (concat (map (\<lambda>row. concat (map st16 row)) (view_rows v)))
      = 2 * (5 + extra_words (vw_table_width v)) * unat (vw_levels v)"
    using level.length_concat view_rows_ok(2) [OF assms(1)] by simp
  then show ?thesis
    using assms
    by (simp add: view_bytes_def capture_payload_size_def view_ok_def n_array_defs Let_def
        word.length_concat algebra_simps)
qed

lemma view_bytes_reads:
  assumes ok: "view_ok v flags" and full: "has_flag flags 0x400"
  shows "capture_arrays (view_bytes v) flags (vw_count v) (vw_mode v) (vw_descriptor_bytes v)
           (vw_levels v) (vw_table_width v) = Some (loaded_view v)"
    and "sum_levels (view_bytes v) 8 (extra_words (vw_table_width v)) (unat (vw_levels v)) 0
           = Some (Inr (vw_count v))"
    and "length (view_bytes v) = ly_needed (capture_layout_of flags (unat (vw_count v))
           (vw_descriptor_bytes v) (unat (vw_levels v)) (extra_words (vw_table_width v)))"
proof -
  define n where "n = unat (vw_count v)"
  define extra where "extra = extra_words (vw_table_width v)"
  define levels where "levels = unat (vw_levels v)"
  define hdr where "hdr = store_le32 (vw_count v)
     @ [vw_mode v, vw_descriptor_bytes v, vw_levels v, vw_table_width v]"
  define tab where "tab = concat (map (\<lambda>row. concat (map st16 row)) (view_rows v))"
  define co where "co = concat (map store_le32 (arr (vw_coordinates v)))"
  define sc where "sc = concat (map store_le32 (arr (vw_scores v)))"
  define an where "an = concat (map store_le32 (arr (vw_angles v)))"
  note rows = view_rows_ok [OF ok]
  have rows5: "list_all (\<lambda>row. length row = 5 + extra) (view_rows v)"
    using rows(1) by (simp add: list_all_iff extra_def)
  have counts: "length (arr (vw_compact_coordinates v)) = n_compact flags n"
    "length (arr (vw_coordinates v)) = n_coordinates flags n"
    "length (arr (vw_scores v)) = n_scores flags n" "length (arr (vw_angles v)) = n_angles flags n"
    "length (arr (vw_descriptors v)) = n_descriptors flags n (vw_descriptor_bytes v)"
    "length (arr (vw_membership v)) = n_membership flags n"
    "level_sum (view_rows v) = vw_count v"
    using ok by (simp_all add: view_ok_def Let_def n_def)
  have lens: "length hdr = 8" "length tab = 2 * (5 + extra) * levels"
    "length co = 4 * n_coordinates flags n" "length sc = 4 * n_scores flags n"
    "length an = 4 * n_angles flags n"
    using level.length_concat [OF rows5] rows(2) counts
    by (simp_all add: hdr_def tab_def co_def sc_def an_def word.length_concat levels_def)
  have b: "view_bytes v = hdr @ tab @ arr (vw_compact_coordinates v) @ co @ sc @ an
      @ arr (vw_descriptors v) @ arr (vw_membership v)"
    by (simp add: view_bytes_def hdr_def tab_def co_def sc_def an_def)
  show "length (view_bytes v) = ly_needed (capture_layout_of flags (unat (vw_count v))
      (vw_descriptor_bytes v) (unat (vw_levels v)) (extra_words (vw_table_width v)))"
    by (simp add: needed_split b lens counts flip: n_def extra_def levels_def)
  have tab_read: "rd_seq (rd_level extra) (2 * (5 + extra)) (view_bytes v) 8 levels = Some (view_rows v)"
    unfolding b tab_def by (rule level.seq_read) (simp_all add: lens rows(2) rows5 levels_def)
  show "sum_levels (view_bytes v) 8 (extra_words (vw_table_width v)) (unat (vw_levels v)) 0
      = Some (Inr (vw_count v))"
    using sum_levels_append [of 8 hdr extra "view_rows v" "arr (vw_compact_coordinates v) @ co @ sc @ an
      @ arr (vw_descriptors v) @ arr (vw_membership v)" 0] rows(1,2) lens(1) counts(7)
    by (simp add: b tab_def extra_def)
  define p1 where "p1 = hdr @ tab"
  define p2 where "p2 = p1 @ arr (vw_compact_coordinates v)"
  define p3 where "p3 = p2 @ co"
  define p4 where "p4 = p3 @ sc"
  define p5 where "p5 = p4 @ an"
  define p6 where "p6 = p5 @ arr (vw_descriptors v)"
  note ps = p6_def p5_def p4_def p3_def p2_def p1_def
  have compact: "rd_bytes (view_bytes v) (length p1) (n_compact flags n) = Some (arr (vw_compact_coordinates v))"
    using rd_bytes_append [OF refl counts(1) [symmetric], of p1] by (simp add: b ps)
  have co_read: "rd_seq le32 4 (view_bytes v) (length p2) (n_coordinates flags n) = Some (arr (vw_coordinates v))"
    using word.seq_read [of "length p2" p2 "n_coordinates flags n" "arr (vw_coordinates v)"] counts
    by (simp add: b ps co_def)
  have sc_read: "rd_seq le32 4 (view_bytes v) (length p3) (n_scores flags n) = Some (arr (vw_scores v))"
    using word.seq_read [of "length p3" p3 "n_scores flags n" "arr (vw_scores v)"] counts
    by (simp add: b ps sc_def)
  have an_read: "rd_seq le32 4 (view_bytes v) (length p4) (n_angles flags n) = Some (arr (vw_angles v))"
    using word.seq_read [of "length p4" p4 "n_angles flags n" "arr (vw_angles v)"] counts
    by (simp add: b ps an_def)
  have desc: "rd_bytes (view_bytes v) (length p5) (n_descriptors flags n (vw_descriptor_bytes v))
      = Some (arr (vw_descriptors v))"
    using rd_bytes_append [OF refl counts(5) [symmetric], of p5]
    by (simp add: b ps)
  have memb: "rd_bytes (view_bytes v) (length p6) (n_membership flags n) = Some (arr (vw_membership v))"
    using rd_bytes_append [OF refl counts(6) [symmetric], of p6 "[]"] by (simp add: b ps)
  have offs: "8 + 2 * (5 + extra) * levels = length p1"
    "length p1 + n_compact flags n = length p2"
    "length p2 + 4 * n_coordinates flags n = length p3" "length p3 + 4 * n_scores flags n = length p4"
    "length p4 + 4 * n_angles flags n = length p5"
    "length p5 + n_descriptors flags n (vw_descriptor_bytes v) = length p6"
    by (simp_all add: ps lens counts)
  show "capture_arrays (view_bytes v) flags (vw_count v) (vw_mode v) (vw_descriptor_bytes v)
      (vw_levels v) (vw_table_width v) = Some (loaded_view v)"
    unfolding capture_arrays_def Let_def n_def [symmetric] extra_def [symmetric] levels_def [symmetric] offs
    by (simp add: tab_read [simplified] compact co_read sc_read an_read desc memb rows(3,4) loaded_view_def)
qed

lemma capture_payload_writes:
  assumes "view_ok v flags" "has_flag flags 0x400"
  shows "fpc_capture_payload v flags None = Some (Inr (length (view_bytes v), None))"
    and "length buf = length (view_bytes v) \<Longrightarrow>
      fpc_capture_payload v flags (Some buf) = Some (Inr (length (view_bytes v), Some (view_bytes v)))"
proof -
  have n: "unat (vw_count v) \<le> 32767" using assms(1) by (simp add: view_ok_def Let_def)
  show "fpc_capture_payload v flags None = Some (Inr (length (view_bytes v), None))"
    and "length buf = length (view_bytes v) \<Longrightarrow>
      fpc_capture_payload v flags (Some buf) = Some (Inr (length (view_bytes v), Some (view_bytes v)))"
    using n assms view_ok_present [OF assms(1)] capture_payload_bytes_ok [OF assms]
    by (simp_all add: fpc_capture_payload_def Let_def not_less length_view_bytes [OF assms])
qed

lemma view_bytes_load:
  assumes "view_ok v flags" "has_flag flags 0x400" "\<And>n. al n"
  shows "fpc_capture_load_payload al (view_bytes v) flags = Some (Inr (loaded_view v))"
proof -
  define bytes where "bytes = view_bytes v"
  note reads = view_bytes_reads [OF assms(1,2), folded bytes_def]
  have n: "unat (vw_count v) \<le> 32767" using assms(1) by (simp add: view_ok_def Let_def)
  have hdr: "bytes = store_le32 (vw_count v) @ [vw_mode v, vw_descriptor_bytes v, vw_levels v,
      vw_table_width v] @ drop 8 bytes"
    by (simp add: bytes_def view_bytes_def)
  have r: "le32 bytes 0 = Some (vw_count v)" "rd bytes 4 = Some (vw_mode v)"
    "rd bytes 5 = Some (vw_descriptor_bytes v)" "rd bytes 6 = Some (vw_levels v)"
    "rd bytes 7 = Some (vw_table_width v)"
    using le32_at [of 0 "[]" "vw_count v"]
    by (subst hdr; simp add: rd_def nth_append)+
  have big: "8 \<le> length bytes" by (subst hdr) simp
  show ?thesis
    using n assms(2,3) r reads big
    by (simp add: fpc_capture_load_payload_def Let_def not_less bytes_def [symmetric])
qed

text \<open>(C36) A well-formed capture view survives a save and a load: the serializer announces exactly the
  number of bytes it writes, and the loader, run on those bytes with the same flags, accepts them
  and returns the same view (its empty arrays as NULL, its level tables present).\<close>

theorem capture_payload_roundtrip:
  assumes "view_ok v flags" "has_flag flags 0x400" "\<And>n. al n"
    and "length buf = capture_payload_size v flags"
  shows "\<exists>bytes. fpc_capture_payload v flags None = Some (Inr (length buf, None)) \<and>
    fpc_capture_payload v flags (Some buf) = Some (Inr (length buf, Some bytes)) \<and>
    length bytes = length buf \<and>
    fpc_capture_load_payload al bytes flags = Some (Inr (loaded_view v))"
  using assms(4) capture_payload_writes [OF assms(1,2)] view_bytes_load [of v flags al, OF assms(1-3)]
    length_view_bytes [OF assms(1,2)] by auto

definition sample_view :: fpc_capture_payload_view where
  "sample_view = (empty_view 2)\<lparr>vw_mode := 1, vw_descriptor_bytes := 1, vw_levels := 1,
     vw_level_fields := Some [2, 16384, 16384, 8, 8],
     vw_compact_coordinates := Some [10, 20, 30, 40],
     vw_descriptors := Some [1, 2], vw_membership := Some [3]\<rparr>"

lemma sample_view_ok: "view_ok sample_view 0x0CE1"
  by (simp add: view_ok_def sample_view_def empty_view_def Let_def extra_words_def n_array_defs has_flag_def
      view_rows_def level_rows_def level_sum_def upt_rec)

theorem capture_payload_roundtrip_witness:
  "\<exists>bytes. fpc_capture_payload sample_view 0x0CE1 (Some (replicate 25 0)) = Some (Inr (25, Some bytes))
     \<and> fpc_capture_load_payload (\<lambda>_. True) bytes 0x0CE1 = Some (Inr (loaded_view sample_view))"
  using capture_payload_roundtrip [OF sample_view_ok, of "\<lambda>_. True" "replicate 25 0"]
  by (simp add: has_flag_def capture_payload_size_def sample_view_def empty_view_def Let_def
      extra_words_def n_array_defs) blast

lemma round4_ge: "n \<le> round4 n" "4 dvd round4 n"
  by (auto simp: round4_def)

text \<open>The arrays of a loaded capture do not overlap: for every header, the regions the loader
  carves out of its one allocation are laid out one after the other, the last one ends exactly at
  the end of the allocation, and the three word arrays start at multiples of four.\<close>

theorem capture_regions_disjoint:
  "sorted_wrt (\<lambda>(o1, l1) (o2, l2). o1 + l1 \<le> o2) (capture_regions flags n d levels extra)
   \<and> fst (last (capture_regions flags n d levels extra)) + snd (last (capture_regions flags n d levels extra))
       = ly_allocation (capture_layout_of flags n d levels extra)
   \<and> list_all (\<lambda>i. 4 dvd fst (capture_regions flags n d levels extra ! i)) [2, 3, 4]"
proof -
  have r: "2 * (5 * levels) + 2 * (extra * levels) \<le> round4 (2 * (levels * (5 + extra)))"
    using round4_ge(1) [of "2 * (levels * (5 + extra))"] by (simp add: algebra_simps)
  have numeric: "ly_numeric_bytes (capture_layout_of flags n d levels extra)
      = round4 (2 * (levels * (5 + extra))) + 4 * n_coordinates flags n + 4 * n_scores flags n
          + 4 * n_angles flags n"
    by (simp add: capture_layout_of_def Let_def n_coordinates_def)
  have alloc: "ly_allocation (capture_layout_of flags n d levels extra)
      = ly_numeric_bytes (capture_layout_of flags n d levels extra) + n_compact flags n
          + n_descriptors flags n d + n_membership flags n"
    by (simp add: capture_layout_of_def Let_def n_compact_def)
  define t where "t = round4 (2 * (levels * (5 + extra)))"
  have "4 dvd t" unfolding t_def by (rule round4_ge(2))
  then have dvds: "4 dvd t" "4 dvd t + 4 * a" "4 dvd t + 4 * a + 4 * b" for a b :: nat
    by simp_all
  show ?thesis
    using r dvds
    by (simp add: capture_regions_def Let_def numeric alloc t_def [symmetric] nth_Cons_numeral)
qed

end
