(* ===== verification/PairScores.thy ===== *)
theory PairScores
  imports Prelude "HOL-Library.Multiset"
begin

text \<open>
  The triangular table of pairwise capture scores (\<^verbatim>\<open>fpc_recovered.c\<close>:
  \<^verbatim>\<open>fpc_enrollment_pair_index\<close>, \<^verbatim>\<open>fpc_enrollment_swap_capture_scores\<close>,
  \<^verbatim>\<open>fpc_enrollment_select_capture\<close>, \<^verbatim>\<open>fpc_enrollment_write_capture_scores\<close>,
  \<^verbatim>\<open>fpc_enrollment_initial_order\<close>). A table for \<open>capacity\<close> captures has one 16-bit score per
  unordered pair; costs are sums of squared scores in 32-bit arithmetic, which wraps around.
  An array argument is the list of its elements; where the code receives the number of elements
  beside the pointer it is the length of the list. \<open>al n\<close> says that a request for \<open>n\<close> bytes succeeds.
\<close>

definition fpc_enrollment_pair_index :: "nat \<Rightarrow> nat \<Rightarrow> nat \<Rightarrow> status + nat" where
  "fpc_enrollment_pair_index capacity first second =
     (if capacity < 2 \<or> 65535 < capacity \<or> capacity \<le> first \<or> capacity \<le> second \<or> first = second
      then Inl (- 1)
      else let low = (if first < second then first else second);
               high = (if first < second then second else first)
           in Inr (low * (capacity - 2) - low * (low - 1) div 2 + high - 1))"

definition table_size :: "nat \<Rightarrow> nat" where
  "table_size capacity = capacity * (capacity - 1) div 2"

text \<open>\<open>size_t index = 0;\<close> followed by a call whose status is ignored.\<close>

definition edge :: "nat \<Rightarrow> nat \<Rightarrow> nat \<Rightarrow> nat" where
  "edge capacity i j = (case fpc_enrollment_pair_index capacity i j of Inl _ \<Rightarrow> 0 | Inr k \<Rightarrow> k)"

subsection \<open>Swapping two captures\<close>

fun swap_scores_from :: "nat \<Rightarrow> nat \<Rightarrow> nat \<Rightarrow> nat list \<Rightarrow> u16 list \<Rightarrow> status \<times> u16 list" where
  "swap_scores_from capacity first second [] scores = (0, scores)"
| "swap_scores_from capacity first second (i # is) scores =
     (if i = first \<or> i = second then swap_scores_from capacity first second is scores
      else case fpc_enrollment_pair_index capacity first i of
             Inl _ \<Rightarrow> (- 1, scores)
           | Inr a \<Rightarrow>
               (case fpc_enrollment_pair_index capacity second i of
                  Inl _ \<Rightarrow> (- 1, scores)
                | Inr b \<Rightarrow> swap_scores_from capacity first second is
                            (scores[a := scores ! b, b := scores ! a])))"

definition fpc_enrollment_swap_capture_scores ::
    "u16 list \<Rightarrow> nat \<Rightarrow> nat \<Rightarrow> nat \<Rightarrow> status \<times> u16 list" where
  "fpc_enrollment_swap_capture_scores scores capacity first second =
     (if capacity < 2 \<or> 65535 < capacity \<or> capacity \<le> first \<or> capacity \<le> second
          \<or> length scores < table_size capacity then (- 1, scores)
      else if first = second then (0, scores)
      else swap_scores_from capacity first second [0..<capacity] scores)"

subsection \<open>Costs\<close>

definition square_cost :: "u16 \<Rightarrow> u32" where
  "square_cost score = (let value = ucast score in value * value)"

definition pairs_upto :: "nat \<Rightarrow> (nat \<times> nat) list" where
  "pairs_upto n = concat (map (\<lambda>i. map (\<lambda>j. (i, j)) [Suc i..<n]) [0..<n])"

definition add_edge :: "nat \<Rightarrow> u16 list \<Rightarrow> nat \<times> nat \<Rightarrow> u32 list \<Rightarrow> u32 list" where
  "add_edge index graph ij cost =
     (case ij of (i, j) \<Rightarrow>
       let square = square_cost (graph ! index);
           cost1 = cost[i := cost ! i + square]
       in cost1[j := cost1 ! j + square])"

fun add_edges :: "nat \<Rightarrow> u16 list \<Rightarrow> (nat \<times> nat) list \<Rightarrow> u32 list \<Rightarrow> status + u32 list" where
  "add_edges capacity graph [] cost = Inr cost"
| "add_edges capacity graph (ij # ps) cost =
     (case fpc_enrollment_pair_index capacity (fst ij) (snd ij) of
        Inl _ \<Rightarrow> Inl (- 1)
      | Inr index \<Rightarrow> add_edges capacity graph ps (add_edge index graph ij cost))"

subsection \<open>Choosing the capture to replace\<close>

text \<open>The first loop stops behind the first aged capture; the second one continues there.\<close>

fun select_scan ::
    "u32 list \<Rightarrow> u16 list \<Rightarrow> u16 \<Rightarrow> nat list \<Rightarrow> u32 \<Rightarrow> bool \<Rightarrow> int \<Rightarrow> nat list \<times> u32 \<times> int" where
  "select_scan cost ages threshold [] best aged selected = ([], best, selected)"
| "select_scan cost ages threshold (capture # rest) best aged selected =
     (if aged then (capture # rest, best, selected)
      else if best < cost ! capture \<or> threshold \<le> ages ! capture
      then select_scan cost ages threshold rest (cost ! capture) (threshold \<le> ages ! capture)
             (int capture)
      else select_scan cost ages threshold rest best aged selected)"

fun select_aged :: "u32 list \<Rightarrow> u16 list \<Rightarrow> u16 \<Rightarrow> nat list \<Rightarrow> u32 \<Rightarrow> int \<Rightarrow> int" where
  "select_aged cost ages threshold [] best selected = selected"
| "select_aged cost ages threshold (capture # rest) best selected =
     (if best < cost ! capture \<and> threshold \<le> ages ! capture
      then select_aged cost ages threshold rest (cost ! capture) (int capture)
      else select_aged cost ages threshold rest best selected)"

definition new_costs :: "nat \<Rightarrow> u16 list \<Rightarrow> u32 list" where
  "new_costs captures new_spatial_scores =
     map (\<lambda>i. square_cost (new_spatial_scores ! i)) [0..<captures]
       @ [sum_list (map (\<lambda>i. square_cost (new_spatial_scores ! i)) [0..<captures])]"

text \<open>\<open>selected0\<close> is what \<open>*selected\<close> held before the call; the arrays that only a full table
  needs may be NULL.\<close>

definition fpc_enrollment_select_capture ::
    "(nat \<Rightarrow> bool) \<Rightarrow> u16 list option \<Rightarrow> nat \<Rightarrow> nat \<Rightarrow> nat \<Rightarrow> u16 list option \<Rightarrow> u16 list option
       \<Rightarrow> u16 list option \<Rightarrow> nat \<Rightarrow> u16 \<Rightarrow> int \<Rightarrow> status \<times> int" where
  "fpc_enrollment_select_capture al graph graph_size captures capacity new_spatial_scores order ages
     protected_count age_threshold selected0 =
     (if capacity < 2 \<or> 65535 < capacity \<or> capacity < captures then (- 1, selected0)
      else if captures < capacity then (0, int captures)
      else case (graph, new_spatial_scores, order, ages) of
             (Some g, Some new, Some ord, Some age) \<Rightarrow>
               if graph_size < table_size capacity
                 \<or> list_ex (\<lambda>i. captures \<le> unat (ord ! i)) [0..<capacity]
               then (- 1, - 1)
               else if \<not> al (4 * (captures + 1)) then (- 1, - 1)
               else (case add_edges capacity g (pairs_upto captures) (new_costs captures new) of
                       Inl e \<Rightarrow> (e, - 1)
                     | Inr cost \<Rightarrow>
                         (let candidates = map (\<lambda>i. unat (ord ! i)) [protected_count..<capacity];
                              (rest, best, selected) =
                                 select_scan cost age age_threshold candidates (cost ! captures) False (- 1)
                          in (0, select_aged cost age age_threshold rest best selected)))
           | _ \<Rightarrow> (- 1, - 1))"

subsection \<open>Storing a capture's scores\<close>

fun write_scores_from ::
    "nat \<Rightarrow> nat \<Rightarrow> u16 list \<Rightarrow> nat list \<Rightarrow> u16 list \<Rightarrow> status \<times> u16 list" where
  "write_scores_from capacity capture new [] graph = (0, graph)"
| "write_scores_from capacity capture new (i # is) graph =
     (if i = capture then write_scores_from capacity capture new is graph
      else case fpc_enrollment_pair_index capacity i capture of
             Inl _ \<Rightarrow> (- 1, graph)
           | Inr index \<Rightarrow> write_scores_from capacity capture new is (graph[index := new ! i]))"

definition fpc_enrollment_write_capture_scores ::
    "u16 list \<Rightarrow> nat \<Rightarrow> nat \<Rightarrow> nat \<Rightarrow> nat \<Rightarrow> u16 list \<Rightarrow> nat \<Rightarrow> status \<times> u16 list \<times> nat" where
  "fpc_enrollment_write_capture_scores graph graph_size captures capacity capture new_spatial_scores
     score_count =
     (if capacity < 2 \<or> 65535 < capacity \<or> capacity < captures \<or> graph_size < table_size capacity
          \<or> captures < capture \<or> capacity \<le> capture \<or> score_count < captures
      then (- 1, graph, captures)
      else case write_scores_from capacity capture new_spatial_scores [0..<captures] graph of
             (status, graph') \<Rightarrow>
               if status \<noteq> 0 then (- 1, graph', captures)
               else (0, graph', if capture = captures then captures + 1 else captures))"

subsection \<open>The initial order\<close>

text \<open>One pass of the bubble sort over positions \<open>1 .. end - 1\<close>; it returns the position of the
  last exchange.\<close>

definition swap_before :: "nat \<Rightarrow> 'a list \<Rightarrow> 'a list" where
  "swap_before i xs = xs[i := xs ! (i - 1), i - 1 := xs ! i]"

fun bubble_pass :: "nat list \<Rightarrow> u32 list \<Rightarrow> u16 list \<Rightarrow> nat \<Rightarrow> u32 list \<times> u16 list \<times> nat" where
  "bubble_pass [] cost order latest = (cost, order, latest)"
| "bubble_pass (i # is) cost order latest =
     (if cost ! i < cost ! (i - 1)
      then bubble_pass is (swap_before i cost) (swap_before i order) i
      else bubble_pass is cost order latest)"

lemma bubble_pass_last:
  "bubble_pass is cost order latest = (cost', order', latest') \<Longrightarrow> latest' = latest \<or> latest' \<in> set is"
  by (induction "is" cost order latest rule: bubble_pass.induct) (auto split: if_splits)

function bubble_sort :: "nat \<Rightarrow> u32 list \<Rightarrow> u16 list \<Rightarrow> u32 list \<times> u16 list" where
  "bubble_sort end cost order =
     (if end \<le> 1 then (cost, order)
      else case bubble_pass [1..<end] cost order 0 of
             (cost', order', latest) \<Rightarrow> bubble_sort latest cost' order')"
  by auto
termination
  by (relation "measure fst") (force dest: bubble_pass_last [OF sym])+

declare bubble_sort.simps [simp del]

definition fpc_enrollment_initial_order ::
    "(nat \<Rightarrow> bool) \<Rightarrow> u16 list \<Rightarrow> nat \<Rightarrow> nat \<Rightarrow> u16 list \<Rightarrow> status \<times> u16 list" where
  "fpc_enrollment_initial_order al scores used capacity order =
     (if capacity < 2 \<or> 65535 < capacity \<or> capacity < used \<or> length order < capacity
          \<or> length scores < table_size capacity then (- 1, order)
      else if \<not> al (4 * capacity) then (2, order)
      else let order1 = map of_nat [0..<capacity] @ drop capacity order;
               cost = fold (\<lambda>(i, j). add_edge (edge capacity i j) scores (i, j)) (pairs_upto used)
                        (replicate capacity 0)
           in (0, snd (bubble_sort used cost order1)))"

subsection \<open>The table of pairs\<close>

definition row_start :: "nat \<Rightarrow> nat \<Rightarrow> nat" where
  "row_start capacity i = i * (capacity - 2) - i * (i - 1) div 2 + i"

lemma even_product: "2 * (i * (i - 1) div 2) = i * (i - 1 :: nat)"
proof -
  have "even (i * (i - 1))" by (cases i) auto
  then show ?thesis by simp
qed

lemma row_start_double:
  assumes "i < capacity"
  shows "2 * row_start capacity i = i * (2 * capacity - 1 - i)"
proof (cases "i = 0")
  case False
  define k where "k = capacity - 1 - i"
  define m where "m = i - 1"
  have cap: "capacity = k + m + 2" and i: "i = Suc m" using assms False by (simp_all add: k_def m_def)
  have le: "i * (i - 1) div 2 \<le> i * (capacity - 2)"
  proof -
    have "i * (i - 1) div 2 \<le> i * (i - 1)" by simp
    also have "\<dots> \<le> i * (capacity - 2)" using assms by (intro mult_le_mono2) (simp add: cap i)
    finally show ?thesis .
  qed
  have "2 * row_start capacity i + i * (i - 1) = 2 * (i * (capacity - 2)) + 2 * i"
  proof -
    have arith: "2 * (a - b + i) + c = 2 * a + 2 * i" if "b \<le> a" "2 * b = c" for a b c :: nat
      using that by arith
    show ?thesis unfolding row_start_def by (rule arith [OF le even_product])
  qed
  moreover have "i * (2 * capacity - 1 - i) + i * (i - 1) = 2 * (i * (capacity - 2)) + 2 * i"
    by (simp add: cap i algebra_simps)
  ultimately show ?thesis by linarith
qed (simp add: row_start_def)

lemma row_start_Suc:
  assumes "Suc i < capacity"
  shows "row_start capacity (Suc i) = row_start capacity i + (capacity - 1 - i)"
proof -
  obtain k where cap: "capacity = Suc i + Suc k"
    using assms by (metis add_Suc_right less_iff_Suc_add)
  have "2 * row_start capacity (Suc i) = 2 * (row_start capacity i + (capacity - 1 - i))"
    using row_start_double [of "Suc i" capacity] row_start_double [of i capacity] assms
    by (simp add: cap algebra_simps)
  then show ?thesis by simp
qed

lemma row_start_last: "2 \<le> capacity \<Longrightarrow> row_start capacity (capacity - 1) = table_size capacity"
  using row_start_double [of "capacity - 1" capacity] even_product [of capacity]
  by (simp add: table_size_def mult.commute)

lemma row_start_mono: "i \<le> k \<Longrightarrow> k < capacity \<Longrightarrow> row_start capacity i \<le> row_start capacity k"
  by (induction k rule: dec_induct) (auto simp: row_start_Suc)

definition exchange :: "nat \<Rightarrow> nat \<Rightarrow> nat \<Rightarrow> nat" where
  "exchange x y k = (if k = x then y else if k = y then x else k)"

lemma exchange_same: "exchange x x k = k"
  by (simp add: exchange_def)

text \<open>What a client of a symmetric table of pairs relies on.\<close>

locale pair_store =
  fixes valid :: "nat \<Rightarrow> bool" and slot :: "nat \<Rightarrow> nat \<Rightarrow> nat \<Rightarrow> nat" and cells :: "nat \<Rightarrow> nat"
  assumes slot_sym: "valid c \<Longrightarrow> slot c i j = slot c j i"
    and slot_bound: "valid c \<Longrightarrow> i < c \<Longrightarrow> j < c \<Longrightarrow> i \<noteq> j \<Longrightarrow> slot c i j < cells c"
    and slot_inj: "valid c \<Longrightarrow> i < j \<Longrightarrow> j < c \<Longrightarrow> k < l \<Longrightarrow> l < c \<Longrightarrow>
      slot c i j = slot c k l \<Longrightarrow> i = k \<and> j = l"
begin

lemma slot_eq_iff:
  assumes "valid c" "i < c" "j < c" "i \<noteq> j" "k < c" "l < c" "k \<noteq> l"
  shows "slot c i j = slot c k l \<longleftrightarrow> (i = k \<and> j = l) \<or> (i = l \<and> j = k)"
  using assms slot_inj [of c "min i j" "max i j" "min k l" "max k l"] slot_sym [of c]
  by (cases "i < j"; cases "k < l") (auto simp: min_def max_def)

lemma slot_update:
  assumes "valid c" "i < c" "j < c" "i \<noteq> j" "k < c" "l < c" "k \<noteq> l" "cells c \<le> length g"
  shows "g[slot c i j := v] ! slot c k l =
    (if (i = k \<and> j = l) \<or> (i = l \<and> j = k) then v else g ! slot c k l)"
  using assms slot_eq_iff [of c i j k l] slot_bound [of c i j] by auto

definition write_row :: "nat \<Rightarrow> nat \<Rightarrow> 'a list \<Rightarrow> nat list \<Rightarrow> 'a list \<Rightarrow> 'a list" where
  "write_row c x new is g = fold (\<lambda>i g. if i = x then g else g[slot c i x := new ! i]) is g"

definition swap_rows :: "nat \<Rightarrow> nat \<Rightarrow> nat \<Rightarrow> nat list \<Rightarrow> 'a list \<Rightarrow> 'a list" where
  "swap_rows c x y is g =
     fold (\<lambda>i g. if i = x \<or> i = y then g
                  else g[slot c x i := g ! slot c y i, slot c y i := g ! slot c x i]) is g"

lemma length_write_row [simp]: "length (write_row c x new is g) = length g"
  unfolding write_row_def by (induction "is" arbitrary: g) auto

lemma length_swap_rows [simp]: "length (swap_rows c x y is g) = length g"
  unfolding swap_rows_def by (induction "is" arbitrary: g) auto

lemma write_row_lookup:
  assumes "valid c" "x < c" "n \<le> c" "k < c" "l < c" "k \<noteq> l" "cells c \<le> length g"
  shows "write_row c x new [0..<n] g ! slot c k l =
    (if k = x \<and> l < n then new ! l else if l = x \<and> k < n then new ! k else g ! slot c k l)"
  using assms(3)
proof (induction n)
  case 0
  then show ?case by (simp add: write_row_def)
next
  case (Suc n)
  have "write_row c x new [0..<Suc n] g =
      (if n = x then write_row c x new [0..<n] g
       else (write_row c x new [0..<n] g)[slot c n x := new ! n])"
    by (simp add: write_row_def)
  with Suc assms show ?case by (auto simp: slot_update)
qed

lemma swap_rows_Suc:
  "swap_rows c x y [0..<Suc n] g =
    (let g' = swap_rows c x y [0..<n] g
     in if n = x \<or> n = y then g'
        else g'[slot c x n := g' ! slot c y n, slot c y n := g' ! slot c x n])"
  by (simp add: swap_rows_def Let_def)

lemma swap_rows_other:
  assumes "valid c" "x < c" "y < c" "k < c" "l < c" "k \<noteq> l" "cells c \<le> length g" "n \<le> c"
    and "k \<in> {x, y} \<longleftrightarrow> l \<in> {x, y}"
  shows "swap_rows c x y [0..<n] g ! slot c k l = g ! slot c k l"
  using assms(8)
proof (induction n)
  case 0
  then show ?case by (simp add: swap_rows_def)
next
  case (Suc n)
  then have IH: "swap_rows c x y [0..<n] g ! slot c k l = g ! slot c k l" and n: "n < c" by simp_all
  show ?case
  proof (cases "n = x \<or> n = y")
    case True
    with IH show ?thesis by (auto simp: swap_rows_Suc Let_def simp del: upt_Suc)
  next
    case False
    then have ne: "x \<noteq> n" "y \<noteq> n" by auto
    have "slot c k l \<noteq> slot c x n" "slot c k l \<noteq> slot c y n"
      using False n assms(9) slot_eq_iff [OF assms(1) assms(4-6) assms(2) n ne(1)]
        slot_eq_iff [OF assms(1) assms(4-6) assms(3) n ne(2)] by auto
    with False IH show ?thesis by (simp add: swap_rows_Suc Let_def del: upt_Suc)
  qed
qed

lemma swap_rows_pair:
  assumes "valid c" "x < c" "y < c" "x \<noteq> y" "m < c" "m \<noteq> x" "m \<noteq> y" "cells c \<le> length g" "n \<le> c"
  shows "swap_rows c x y [0..<n] g ! slot c x m = (if m < n then g ! slot c y m else g ! slot c x m)
    \<and> swap_rows c x y [0..<n] g ! slot c y m = (if m < n then g ! slot c x m else g ! slot c y m)"
  using assms(9)
proof (induction n)
  case 0
  then show ?case by (simp add: swap_rows_def)
next
  case (Suc n)
  let ?g = "swap_rows c x y [0..<n] g"
  from Suc have IH: "?g ! slot c x m = (if m < n then g ! slot c y m else g ! slot c x m)"
    "?g ! slot c y m = (if m < n then g ! slot c x m else g ! slot c y m)" and n: "n < c" by simp_all
  have xy: "slot c x m \<noteq> slot c y m"
    using assms slot_eq_iff [of c x m y m] by auto
  show ?case
  proof (cases "n = m")
    case True
    have "slot c x m < length ?g" "slot c y m < length ?g"
      using assms slot_bound [of c x m] slot_bound [of c y m] by simp_all
    with True xy IH assms show ?thesis by (simp add: swap_rows_Suc Let_def del: upt_Suc)
  next
    case False
    show ?thesis
    proof (cases "n = x \<or> n = y")
      case True
      with IH False show ?thesis by (auto simp: swap_rows_Suc Let_def less_Suc_eq simp del: upt_Suc)
    next
      case out: False
      then have ne: "x \<noteq> n" "y \<noteq> n" by auto
      have "slot c x m \<noteq> slot c x n" "slot c x m \<noteq> slot c y n" "slot c y m \<noteq> slot c x n"
        "slot c y m \<noteq> slot c y n"
        using False out n assms slot_eq_iff [of c x m x n] slot_eq_iff [of c x m y n]
          slot_eq_iff [of c y m x n] slot_eq_iff [of c y m y n] by auto
      with out IH False show ?thesis by (auto simp: swap_rows_Suc Let_def less_Suc_eq simp del: upt_Suc)
    qed
  qed
qed

lemma swap_rows_lookup:
  assumes "valid c" "x < c" "y < c" "k < c" "l < c" "k \<noteq> l" "x \<noteq> y" "cells c \<le> length g"
  shows "swap_rows c x y [0..<c] g ! slot c k l
    = g ! slot c (exchange x y k) (exchange x y l)"
proof (cases "k \<in> {x, y} \<longleftrightarrow> l \<in> {x, y}")
  case True
  then show ?thesis
    using assms swap_rows_other [of c x y k l g c] slot_sym [OF assms(1), of x y]
    by (auto simp: exchange_def)
next
  case False
  then consider "k \<in> {x, y}" "l \<notin> {x, y}" | "l \<in> {x, y}" "k \<notin> {x, y}" by auto
  then show ?thesis
  proof cases
    case 1
    then show ?thesis using assms swap_rows_pair [of c x y l g c] by (auto simp: exchange_def)
  next
    case 2
    then show ?thesis
      using assms swap_rows_pair [of c x y k g c] slot_sym [OF assms(1), of k]
      by (auto simp: exchange_def)
  qed
qed

end

lemma half_product_le:
  fixes i :: nat
  assumes "i \<le> n + 1"
  shows "i * (i - 1) div 2 \<le> i * n"
proof -
  have "i * (i - 1) div 2 \<le> i * (i - 1)" by simp
  also have "\<dots> \<le> i * n" using assms by (intro mult_le_mono2) simp
  finally show ?thesis .
qed

lemma edge_less:
  assumes "2 \<le> capacity" "capacity \<le> 65535" "i < j" "j < capacity"
  shows "edge capacity i j = row_start capacity i + (j - i - 1)"
proof -
  have "i * (i - 1) div 2 \<le> i * (capacity - 2)"
    using assms by (intro half_product_le) simp
  then have "i * (capacity - 2) - i * (i - 1) div 2 + j - 1
      = i * (capacity - 2) - i * (i - 1) div 2 + i + (j - i - 1)"
    using assms by linarith
  then show ?thesis
    using assms by (simp only: edge_def fpc_enrollment_pair_index_def Let_def row_start_def) simp
qed

lemma edge_sym: "edge capacity i j = edge capacity j i"
  by (auto simp: edge_def fpc_enrollment_pair_index_def)

lemma edge_row:
  assumes "2 \<le> capacity" "capacity \<le> 65535" "i < j" "j < capacity"
  shows "row_start capacity i \<le> edge capacity i j" "edge capacity i j < row_start capacity (Suc i)"
  using assms by (simp_all add: edge_less row_start_Suc)

interpretation pairs: pair_store "\<lambda>c. 2 \<le> c \<and> c \<le> 65535" edge table_size
proof
  fix c i j k l :: nat
  assume c: "2 \<le> c \<and> c \<le> 65535"
  show "edge c i j = edge c j i" by (rule edge_sym)
  show "edge c i j < table_size c" if "i < c" "j < c" "i \<noteq> j"
  proof -
    have less: "edge c i j < table_size c" if "i < j" "j < c" for i j
    proof -
      have "row_start c (Suc i) \<le> row_start c (c - 1)" using that c by (intro row_start_mono) auto
      with edge_row(2) [of c i j] row_start_last [of c] that c show ?thesis by linarith
    qed
    show ?thesis using that less [of i j] less [of j i] edge_sym [of c i j] by (cases "i < j") auto
  qed
  assume ij: "i < j" "j < c" and kl: "k < l" "l < c" and eq: "edge c i j = edge c k l"
  have apart: "edge c i j < edge c k l" if "i < k" "i < j" "j < c" "k < l" "l < c" for i j k l
    using edge_row [of c i j] edge_row [of c k l] row_start_mono [of "Suc i" k c] that c by simp
  then have "i = k" using ij kl eq by (metis less_irrefl linorder_neqE_nat)
  moreover from this have "j = l" using ij kl eq c by (simp add: edge_less)
  ultimately show "i = k \<and> j = l" ..
qed

lemma pair_index_edge:
  "2 \<le> capacity \<Longrightarrow> capacity \<le> 65535 \<Longrightarrow> i < capacity \<Longrightarrow> j < capacity \<Longrightarrow> i \<noteq> j \<Longrightarrow>
     fpc_enrollment_pair_index capacity i j = Inr (edge capacity i j)"
  by (simp add: edge_def fpc_enrollment_pair_index_def Let_def)

text \<open>The pair index is a perfect addressing of the triangular table: it succeeds exactly on two
  different captures below a legal capacity, does not depend on their order, sends different
  unordered pairs to different cells and uses every one of the \<open>capacity * (capacity - 1) / 2\<close>
  cells.\<close>

theorem pair_index_bijective:
  "(fpc_enrollment_pair_index capacity i j = Inl (- 1) \<longleftrightarrow>
      \<not> (2 \<le> capacity \<and> capacity \<le> 65535 \<and> i < capacity \<and> j < capacity \<and> i \<noteq> j))
   \<and> fpc_enrollment_pair_index capacity i j = fpc_enrollment_pair_index capacity j i
   \<and> (2 \<le> capacity \<and> capacity \<le> 65535 \<longrightarrow>
        bij_betw (\<lambda>(i, j). edge capacity i j) {(i, j). i < j \<and> j < capacity}
          {..<table_size capacity})"
proof -
  have "bij_betw (\<lambda>(i, j). edge capacity i j) {(i, j). i < j \<and> j < capacity} {..<table_size capacity}"
    if c: "2 \<le> capacity \<and> capacity \<le> 65535"
  proof -
    let ?f = "\<lambda>(i, j). edge capacity i j" and ?P = "{(i, j). i < j \<and> j < capacity}"
    have inj: "inj_on ?f ?P"
      using pairs.slot_inj [OF c] by (auto simp: inj_on_def)
    have sub: "?f ` ?P \<subseteq> {..<table_size capacity}"
      using pairs.slot_bound [OF c] by auto
    have P: "?P = (\<Union>j\<in>{..<capacity}. (\<lambda>i. (i, j)) ` {..<j})" by auto
    have "card ?P = (\<Sum>j<capacity. card ((\<lambda>i. (i, j)) ` {..<j}))"
      unfolding P by (rule card_UN_disjoint) auto
    also have "\<dots> = (\<Sum>j<capacity. j)"
      by (intro sum.cong) (auto simp: card_image inj_on_def)
    also have "\<dots> = table_size capacity"
      by (simp add: table_size_def Sum_Ico_nat flip: atLeast0LessThan)
    finally have "card (?f ` ?P) = card {..<table_size capacity}"
      by (simp add: card_image [OF inj])
    then have "?f ` ?P = {..<table_size capacity}"
      using sub by (intro card_subset_eq) auto
    with inj show ?thesis by (simp add: bij_betw_def)
  qed
  then show ?thesis
    by (auto simp: fpc_enrollment_pair_index_def Let_def)
qed

theorem pair_index_bijective_witness:
  "bij_betw (\<lambda>(i, j). edge 4 i j) {(i, j). i < j \<and> j < 4} {..<table_size 4}"
  using pair_index_bijective [of 4 0 0] by simp

lemma swap_scores_from_rows:
  assumes "2 \<le> c \<and> c \<le> 65535" "x < c" "y < c" "list_all (\<lambda>i. i < c) is"
  shows "swap_scores_from c x y is g = (0, pairs.swap_rows c x y is g)"
  using assms(4)
  by (induction "is" arbitrary: g)
    (use assms in \<open>simp_all add: pairs.swap_rows_def pair_index_edge list_all_iff\<close>)

text \<open>Swapping two captures renames them: afterwards the table holds, for every pair of captures,
  the score it held for the pair with the two captures exchanged.\<close>

theorem swap_capture_scores_renames:
  assumes "2 \<le> c" "c \<le> 65535" "x < c" "y < c" "table_size c \<le> length g"
    and "k < c" "l < c" "k \<noteq> l"
  shows "fst (fpc_enrollment_swap_capture_scores g c x y) = 0 \<and>
    snd (fpc_enrollment_swap_capture_scores g c x y) ! edge c k l
      = g ! edge c (exchange x y k) (exchange x y l)"
  using assms pairs.swap_rows_lookup [of c x y k l g]
  by (cases "x = y") (auto simp: exchange_same fpc_enrollment_swap_capture_scores_def swap_scores_from_rows list_all_iff not_less)

theorem swap_capture_scores_renames_witness:
  "snd (fpc_enrollment_swap_capture_scores [12, 13, 14, 23, 24, 34] 4 0 2) ! edge 4 2 3 = 14"
  using swap_capture_scores_renames [of 4 0 2 "[12, 13, 14, 23, 24, 34]" 2 3]
  by (simp add: table_size_def edge_def fpc_enrollment_pair_index_def exchange_def)

lemma write_scores_from_row:
  assumes "2 \<le> c \<and> c \<le> 65535" "x < c" "list_all (\<lambda>i. i < c) is"
  shows "write_scores_from c x new is g = (0, pairs.write_row c x new is g)"
  using assms(3)
  by (induction "is" arbitrary: g)
    (use assms in \<open>simp_all add: pairs.write_row_def pair_index_edge\<close>)

text \<open>Storing a capture's scores changes exactly its row: the pairs it forms with the captures in
  use get the new scores, every other pair keeps its score, and the number of captures grows by one
  when the capture is a new one.\<close>

theorem write_capture_scores_row:
  assumes "2 \<le> c" "c \<le> 65535" "captures \<le> c" "x < c" "x \<le> captures" "table_size c \<le> length g"
    and "captures \<le> score_count" "k < c" "l < c" "k \<noteq> l"
  shows "case fpc_enrollment_write_capture_scores g (length g) captures c x new score_count of
    (status, g', captures') \<Rightarrow> status = 0 \<and> captures' = max captures (x + 1) \<and> length g' = length g \<and>
      g' ! edge c k l = (if k = x \<and> l < captures then new ! l
                         else if l = x \<and> k < captures then new ! k else g ! edge c k l)"
  using assms pairs.write_row_lookup [of c x captures k l g new]
  by (auto simp: fpc_enrollment_write_capture_scores_def write_scores_from_row list_all_iff not_less)

theorem write_capture_scores_row_witness:
  "case fpc_enrollment_write_capture_scores [12, 13, 14, 23, 24, 34] (length [12, 13, 14, 23, 24, 34 :: u16])
       3 4 3 [7, 8, 9] 3 of
     (status, g', captures') \<Rightarrow> captures' = 4 \<and> g' ! edge 4 1 3 = 8 \<and> g' ! edge 4 0 1 = 12"
proof -
  have t: "table_size 4 \<le> length [12, 13, 14, 23, 24, 34 :: u16]" by (simp add: table_size_def)
  have "edge 4 0 1 = 0" by (simp add: edge_def fpc_enrollment_pair_index_def)
  then show ?thesis
    using write_capture_scores_row [of 4 3 3 "[12, 13, 14, 23, 24, 34]" 3 1 3 "[7, 8, 9]"]
      write_capture_scores_row [of 4 3 3 "[12, 13, 14, 23, 24, 34]" 3 0 1 "[7, 8, 9]"] t
    by (auto simp del: list.size split: prod.splits)
qed

subsection \<open>Costs\<close>

definition capture_cost :: "nat \<Rightarrow> u16 list \<Rightarrow> nat \<Rightarrow> nat \<Rightarrow> u32" where
  "capture_cost c g n k = (\<Sum>l\<in>{..<n} - {k}. square_cost (g ! edge c k l))"

lemma set_pairs_upto: "set (pairs_upto n) = {(i, j). i < j \<and> j < n}"
  unfolding pairs_upto_def by fastforce

lemma distinct_pairs_upto: "distinct (pairs_upto n)"
  unfolding pairs_upto_def
proof (rule distinct_concat)
  show "distinct (map (\<lambda>i. map (Pair i) [Suc i..<n]) [0..<n])"
  proof (cases n)
    case (Suc m)
    have "inj_on (\<lambda>i. map (Pair i) [Suc i..<n]) {0..<m}"
      by (rule inj_onI) (auto simp: Suc dest!: arg_cong [where f = "\<lambda>xs. fst (xs ! 0)"])
    moreover have "map (Pair i) [Suc i..<n] \<noteq> []" if "i < m" for i using that by (simp add: Suc)
    ultimately show ?thesis
      by (auto simp: Suc distinct_map)
  qed simp
qed (auto simp: distinct_map inj_on_def)

lemma length_add_edge [simp]: "length (add_edge k g ij cost) = length cost"
  by (simp add: add_edge_def Let_def split: prod.split)

lemma add_edge_nth:
  "i \<noteq> j \<Longrightarrow> i < length cost \<Longrightarrow> j < length cost \<Longrightarrow>
     add_edge index g (i, j) cost ! k =
       cost ! k + (if k = i \<or> k = j then square_cost (g ! index) else 0)"
  by (auto simp: add_edge_def Let_def nth_list_update)

lemma fold_add_edge:
  "list_all (\<lambda>(i, j). i < j \<and> j < length cost) ps \<Longrightarrow>
     length (fold (\<lambda>(i, j). add_edge (edge c i j) g (i, j)) ps cost) = length cost \<and>
     fold (\<lambda>(i, j). add_edge (edge c i j) g (i, j)) ps cost ! k =
       cost ! k + sum_list (map (\<lambda>(i, j). if k = i \<or> k = j then square_cost (g ! edge c i j) else 0) ps)"
  by (induction ps arbitrary: cost) (auto simp: add_edge_nth add.assoc)

lemma add_edges_fold:
  assumes "2 \<le> c" "c \<le> 65535"
  shows "list_all (\<lambda>(i, j). i < j \<and> j < c) ps \<Longrightarrow>
    add_edges c g ps cost = Inr (fold (\<lambda>(i, j). add_edge (edge c i j) g (i, j)) ps cost)"
  by (induction ps arbitrary: cost) (use assms in \<open>auto simp: pair_index_edge\<close>)

lemma pair_sum:
  assumes "k < n"
  shows "sum_list (map (\<lambda>(i, j). if k = i \<or> k = j then square_cost (g ! edge c i j) else 0) (pairs_upto n))
    = capture_cost c g n k"
proof -
  let ?f = "\<lambda>(i, j). square_cost (g ! edge c i j)"
  let ?S = "{(i, j). i < j \<and> j < n \<and> (k = i \<or> k = j)}"
  have fin: "finite {(i, j). i < j \<and> j < n}"
    by (rule finite_subset [of _ "{..<n} \<times> {..<n}"]) auto
  have "sum_list (map (\<lambda>(i, j). if k = i \<or> k = j then square_cost (g ! edge c i j) else 0) (pairs_upto n))
      = (\<Sum>(i, j)\<in>{(i, j). i < j \<and> j < n}. if k = i \<or> k = j then square_cost (g ! edge c i j) else 0)"
    using distinct_pairs_upto [of n] by (simp add: sum_list_distinct_conv_sum_set set_pairs_upto)
  also have "\<dots> = sum ?f ?S"
    by (intro sum.mono_neutral_cong_right fin) (auto split: if_splits)
  also have "\<dots> = (\<Sum>l\<in>{..<n} - {k}. square_cost (g ! edge c k l))"
  proof (rule sum.reindex_bij_witness [of _ "\<lambda>l. (min k l, max k l)" "\<lambda>(i, j). if i = k then j else i"])
    fix p assume "p \<in> ?S"
    then obtain i j where p: "p = (i, j)" "i < j" "j < n" "k = i \<or> k = j" by auto
    then show "(min k (case p of (i, j) \<Rightarrow> if i = k then j else i),
        max k (case p of (i, j) \<Rightarrow> if i = k then j else i)) = p"
      and "(case p of (i, j) \<Rightarrow> if i = k then j else i) \<in> {..<n} - {k}"
      and "square_cost (g ! edge c k (case p of (i, j) \<Rightarrow> if i = k then j else i)) = ?f p"
      by (auto simp: edge_sym)
  next
    fix l assume "l \<in> {..<n} - {k}"
    then show "(case (min k l, max k l) of (i, j) \<Rightarrow> if i = k then j else i) = l"
      and "(min k l, max k l) \<in> ?S"
      using assms by (auto simp: min_def max_def)
  qed
  finally show ?thesis by (simp add: capture_cost_def)
qed

lemma fold_pairs_cost:
  assumes "n \<le> length cost"
  shows "length (fold (\<lambda>(i, j). add_edge (edge c i j) g (i, j)) (pairs_upto n) cost) = length cost"
    and "k < n \<Longrightarrow> fold (\<lambda>(i, j). add_edge (edge c i j) g (i, j)) (pairs_upto n) cost ! k
      = cost ! k + capture_cost c g n k"
    and "n \<le> k \<Longrightarrow> fold (\<lambda>(i, j). add_edge (edge c i j) g (i, j)) (pairs_upto n) cost ! k = cost ! k"
proof -
  have "list_all (\<lambda>(i, j). i < j \<and> j < length cost) (pairs_upto n)"
    using assms by (auto simp: list_all_iff set_pairs_upto)
  note f = fold_add_edge [OF this, of c g]
  show "length (fold (\<lambda>(i, j). add_edge (edge c i j) g (i, j)) (pairs_upto n) cost) = length cost"
    using f by blast
  show "k < n \<Longrightarrow> fold (\<lambda>(i, j). add_edge (edge c i j) g (i, j)) (pairs_upto n) cost ! k
      = cost ! k + capture_cost c g n k"
    using f [of k] pair_sum [of k n g c] by simp
  assume "n \<le> k"
  then have "map (\<lambda>(i, j). if k = i \<or> k = j then square_cost (g ! edge c i j) else 0) (pairs_upto n)
      = map (\<lambda>_. 0) (pairs_upto n)"
    by (auto simp: set_pairs_upto)
  with f [of k] show "fold (\<lambda>(i, j). add_edge (edge c i j) g (i, j)) (pairs_upto n) cost ! k = cost ! k"
    by simp
qed

subsection \<open>The replacement policy\<close>

lemma select_scan_fresh:
  "list_all (\<lambda>k. ages ! k < threshold) cs \<Longrightarrow>
   \<exists>best' sel'. select_scan cost ages threshold cs best False sel = ([], best', sel')
     \<and> best \<le> best' \<and> list_all (\<lambda>k. cost ! k \<le> best') cs
     \<and> ((sel' = sel \<and> best' = best) \<or> (\<exists>k\<in>set cs. sel' = int k \<and> cost ! k = best' \<and> best < best'))"
proof (induction cs arbitrary: best sel)
  case Nil
  then show ?case by simp
next
  case (Cons a cs)
  then have a: "\<not> threshold \<le> ages ! a" and cs: "list_all (\<lambda>k. ages ! k < threshold) cs"
    by (simp_all add: not_le)
  show ?case
  proof (cases "best < cost ! a")
    case True
    with Cons.IH [OF cs, of "cost ! a" "int a"] a show ?thesis by fastforce
  next
    case False
    with Cons.IH [OF cs, of best sel] a show ?thesis by fastforce
  qed
qed

lemma select_scan_aged:
  "list_all (\<lambda>k. ages ! k < threshold) xs \<Longrightarrow> threshold \<le> ages ! a \<Longrightarrow>
   select_scan cost ages threshold (xs @ a # ys) best False sel = (ys, cost ! a, int a)"
proof (induction xs arbitrary: best sel)
  case Nil
  then show ?case by (cases ys) simp_all
next
  case (Cons x xs)
  then have "\<not> threshold \<le> ages ! x" by (simp add: not_le)
  with Cons show ?case by simp
qed

lemma select_aged_max:
  "\<exists>best'. best \<le> best' \<and> list_all (\<lambda>k. threshold \<le> ages ! k \<longrightarrow> cost ! k \<le> best') cs
     \<and> ((select_aged cost ages threshold cs best sel = sel \<and> best' = best)
        \<or> (\<exists>k\<in>set cs. threshold \<le> ages ! k \<and> cost ! k = best'
             \<and> select_aged cost ages threshold cs best sel = int k))"
proof (induction cs arbitrary: best sel)
  case Nil
  then show ?case by simp
next
  case (Cons a cs)
  show ?case
  proof (cases "best < cost ! a \<and> threshold \<le> ages ! a")
    case True
    obtain b' where b: "cost ! a \<le> b'" "list_all (\<lambda>k. threshold \<le> ages ! k \<longrightarrow> cost ! k \<le> b') cs"
      "(select_aged cost ages threshold cs (cost ! a) (int a) = int a \<and> b' = cost ! a)
        \<or> (\<exists>k\<in>set cs. threshold \<le> ages ! k \<and> cost ! k = b'
             \<and> select_aged cost ages threshold cs (cost ! a) (int a) = int k)"
      using Cons.IH [of "cost ! a" "int a"] by blast
    with True show ?thesis by (intro exI [of _ b']) auto
  next
    case False
    then have step: "select_aged cost ages threshold (a # cs) best sel
        = select_aged cost ages threshold cs best sel" by auto
    obtain b' where b: "best \<le> b'" "list_all (\<lambda>k. threshold \<le> ages ! k \<longrightarrow> cost ! k \<le> b') cs"
      "(select_aged cost ages threshold cs best sel = sel \<and> b' = best)
        \<or> (\<exists>k\<in>set cs. threshold \<le> ages ! k \<and> cost ! k = b'
             \<and> select_aged cost ages threshold cs best sel = int k)"
      using Cons.IH [of best sel] by blast
    with False show ?thesis unfolding step by (intro exI [of _ b']) (auto simp: not_less)
  qed
qed

definition full_cost :: "nat \<Rightarrow> u16 list \<Rightarrow> u16 list \<Rightarrow> nat \<Rightarrow> u32" where
  "full_cost c g new k = square_cost (new ! k) + capture_cost c g c k"

definition new_capture_cost :: "nat \<Rightarrow> u16 list \<Rightarrow> u32" where
  "new_capture_cost c new = (\<Sum>k<c. square_cost (new ! k))"

lemma select_full_table:
  assumes c: "2 \<le> c" "c \<le> 65535" and sz: "table_size c \<le> graph_size"
    and ord: "list_all (\<lambda>i. unat (ord ! i) < c) [0..<c]" and al: "al (4 * (c + 1))"
  obtains cost where "\<And>k. k < c \<Longrightarrow> cost ! k = full_cost c g new k"
    "cost ! c = new_capture_cost c new"
    "fpc_enrollment_select_capture al (Some g) graph_size c c (Some new) (Some ord) (Some ages)
       protected_count threshold s0
     = (case select_scan cost ages threshold (map (\<lambda>i. unat (ord ! i)) [protected_count..<c])
               (cost ! c) False (- 1) of
          (rest, best, selected) \<Rightarrow> (0, select_aged cost ages threshold rest best selected))"
proof
  let ?cost = "fold (\<lambda>(i, j). add_edge (edge c i j) g (i, j)) (pairs_upto c) (new_costs c new)"
  have len: "c \<le> length (new_costs c new)" by (simp add: new_costs_def)
  show "?cost ! k = full_cost c g new k" if "k < c" for k
    using that fold_pairs_cost(2) [OF len that, of c g]
    by (simp add: new_costs_def nth_append full_cost_def)
  show "?cost ! c = new_capture_cost c new"
    using fold_pairs_cost(3) [OF len, of c c g]
    by (simp add: new_costs_def nth_append new_capture_cost_def sum_list_sum_nth atLeast0LessThan)
  have "list_all (\<lambda>(i, j). i < j \<and> j < c) (pairs_upto c)"
    by (auto simp: list_all_iff set_pairs_upto)
  from add_edges_fold [OF c this]
  show "fpc_enrollment_select_capture al (Some g) graph_size c c (Some new) (Some ord) (Some ages)
       protected_count threshold s0
     = (case select_scan ?cost ages threshold (map (\<lambda>i. unat (ord ! i)) [protected_count..<c])
               (?cost ! c) False (- 1) of
          (rest, best, selected) \<Rightarrow> (0, select_aged ?cost ages threshold rest best selected))"
    using assms
    by (auto simp: fpc_enrollment_select_capture_def not_less not_le list_ex_iff list_all_iff Let_def
        split: prod.split)
qed

text \<open>(C40) The replacement policy of a full table. Among the captures behind the protected prefix of
  the order, if any has reached the age threshold, the most redundant of the aged ones is chosen (the
  cost of a capture is the sum of its squared scores with all others and with the new capture);
  otherwise the most redundant one, but only when it is strictly more redundant than the new capture;
  otherwise none.\<close>

theorem select_capture_policy:
  assumes "2 \<le> c" "c \<le> 65535" "table_size c \<le> graph_size"
    and "list_all (\<lambda>i. unat (ord ! i) < c) [0..<c]" "al (4 * (c + 1))"
    and cands: "cands = map (\<lambda>i. unat (ord ! i)) [protected_count..<c]"
    and aged: "aged = filter (\<lambda>k. threshold \<le> ages ! k) cands"
    and sel: "fpc_enrollment_select_capture al (Some g) graph_size c c (Some new) (Some ord) (Some ages)
       protected_count threshold s0 = (status, selected)"
  shows "status = 0 \<and>
    (if aged \<noteq> [] then \<exists>k\<in>set aged. selected = int k \<and>
        list_all (\<lambda>l. full_cost c g new l \<le> full_cost c g new k) aged
     else if list_ex (\<lambda>k. new_capture_cost c new < full_cost c g new k) cands
     then \<exists>k\<in>set cands. selected = int k \<and> new_capture_cost c new < full_cost c g new k \<and>
        list_all (\<lambda>l. full_cost c g new l \<le> full_cost c g new k) cands
     else selected = - 1)"
proof -
  obtain cost where cost: "\<And>k. k < c \<Longrightarrow> cost ! k = full_cost c g new k"
    "cost ! c = new_capture_cost c new"
    and run: "(status, selected)
     = (case select_scan cost ages threshold cands (cost ! c) False (- 1) of
          (rest, best, selected) \<Rightarrow> (0, select_aged cost ages threshold rest best selected))"
    unfolding cands sel [symmetric]
    by (rule select_full_table [of c graph_size ord al g new ages protected_count threshold s0,
          OF assms(1-5)]) blast
  have in_c: "k < c" if "k \<in> set cands" for k
    using that assms(4) by (auto simp: cands list_all_iff)
  show ?thesis
  proof (cases "aged = []")
    case True
    then have fresh: "list_all (\<lambda>k. ages ! k < threshold) cands"
      by (simp add: aged filter_empty_conv list_all_iff not_le)
    obtain best' sel' where s: "select_scan cost ages threshold cands (cost ! c) False (- 1) = ([], best', sel')"
      "cost ! c \<le> best'" "list_all (\<lambda>k. cost ! k \<le> best') cands"
      "(sel' = - 1 \<and> best' = cost ! c) \<or> (\<exists>k\<in>set cands. sel' = int k \<and> cost ! k = best' \<and> cost ! c < best')"
      using select_scan_fresh [OF fresh, of cost "cost ! c" "- 1"] by blast
    then have r: "status = 0" "selected = sel'" using run by simp_all
    from s(4) show ?thesis
    proof
      assume "sel' = - 1 \<and> best' = cost ! c"
      with s(3) have "\<not> list_ex (\<lambda>k. new_capture_cost c new < full_cost c g new k) cands"
        using in_c cost by (auto simp: list_ex_iff list_all_iff not_less)
      with \<open>sel' = - 1 \<and> best' = cost ! c\<close> r True show ?thesis by simp
    next
      assume "\<exists>k\<in>set cands. sel' = int k \<and> cost ! k = best' \<and> cost ! c < best'"
      then obtain k where k: "k \<in> set cands" "sel' = int k" "cost ! k = best'" "cost ! c < best'" by blast
      then have "list_ex (\<lambda>k. new_capture_cost c new < full_cost c g new k) cands"
        using in_c cost by (auto simp: list_ex_iff)
      moreover have "list_all (\<lambda>l. full_cost c g new l \<le> full_cost c g new k) cands"
        using s(3) k in_c cost by (simp add: list_all_iff)
      ultimately show ?thesis using True r k in_c cost by auto
    qed
  next
    case False
    then obtain a where a: "a \<in> set cands" "threshold \<le> ages ! a"
      by (auto simp: aged filter_empty_conv)
    then obtain xs b ys where split: "cands = xs @ b # ys" "threshold \<le> ages ! b"
      "\<forall>x\<in>set xs. \<not> threshold \<le> ages ! x"
      using split_list_first_prop [of cands "\<lambda>k. threshold \<le> ages ! k"] by blast
    then have scan: "select_scan cost ages threshold cands (cost ! c) False (- 1) = (ys, cost ! b, int b)"
      by (simp add: select_scan_aged list_all_iff not_le)
    obtain best' where m: "cost ! b \<le> best'"
      "list_all (\<lambda>k. threshold \<le> ages ! k \<longrightarrow> cost ! k \<le> best') ys"
      "(select_aged cost ages threshold ys (cost ! b) (int b) = int b \<and> best' = cost ! b)
        \<or> (\<exists>k\<in>set ys. threshold \<le> ages ! k \<and> cost ! k = best'
             \<and> select_aged cost ages threshold ys (cost ! b) (int b) = int k)"
      using select_aged_max [of "cost ! b" threshold ages cost ys "int b"] by blast
    have ag: "aged = b # filter (\<lambda>k. threshold \<le> ages ! k) ys"
      using split by (simp add: aged)
    have r: "status = 0" "selected = select_aged cost ages threshold ys (cost ! b) (int b)"
      using run scan by simp_all
    from m(3) obtain k where k: "k \<in> set aged" "cost ! k = best'" "selected = int k"
      unfolding r(2) [symmetric] ag by auto
    have "list_all (\<lambda>l. cost ! l \<le> best') aged"
      using m(1,2) ag by (auto simp: list_all_iff)
    then have "list_all (\<lambda>l. full_cost c g new l \<le> full_cost c g new k) aged"
      using k in_c cost by (auto simp: list_all_iff aged)
    with k False r(1) show ?thesis by auto
  qed
qed


theorem select_capture_policy_witness:
  "snd (fpc_enrollment_select_capture (\<lambda>_. True) (Some [3, 1, 2]) 3 3 3 (Some [1, 1, 1])
     (Some [2, 0, 1]) (Some [5, 0, 5]) 1 9 0) = 1"
proof -
  let ?r = "fpc_enrollment_select_capture (\<lambda>_. True) (Some [3, 1, 2]) 3 3 3 (Some [1, 1, 1])
     (Some [2, 0, 1]) (Some [5, 0, 5]) 1 9 0"
  have e: "edge 3 0 (Suc 0) = 0" "edge 3 0 2 = 1" "edge 3 (Suc 0) 0 = 0" "edge 3 (Suc 0) 2 = 2"
    "{0, Suc 0, 2} - {0} = {Suc 0, 2}" "{0, Suc 0, 2} - {Suc 0} = {0, 2}" "{..<3} = {0, Suc 0, 2}"
    by (auto simp: edge_def fpc_enrollment_pair_index_def)
  have v: "full_cost 3 [3, 1, 2] [1, 1, 1] 0 = 11" "full_cost 3 [3, 1, 2] [1, 1, 1] 1 = 14"
    "new_capture_cost 3 [1, 1, 1] = 3"
    by (simp_all add: full_cost_def capture_cost_def new_capture_cost_def square_cost_def e Let_def)
  show ?thesis
    using select_capture_policy [of 3 3 "[2, 0, 1]" "\<lambda>_. True" "[0, 1]" 1 "[]" 9 "[5, 0, 5]" "[3, 1, 2]"
        "[1, 1, 1]" 0 "fst ?r" "snd ?r"] v
    by (auto simp: table_size_def upt_rec)
qed

subsection \<open>The initial order\<close>

definition sorted_from :: "nat \<Rightarrow> nat \<Rightarrow> nat \<Rightarrow> nat \<Rightarrow> u32 list \<Rightarrow> bool" where
  "sorted_from latest i end used cost \<longleftrightarrow>
     (\<forall>p q. p < q \<and> q < used \<and> (latest \<le> q \<and> q < i \<or> end \<le> q) \<longrightarrow> cost ! p \<le> cost ! q)"

lemma length_swap_before [simp]: "length (swap_before i xs) = length xs"
  by (simp add: swap_before_def)

lemma nth_swap_before:
  "0 < i \<Longrightarrow> i < length xs \<Longrightarrow>
     swap_before i xs ! k = (if k = i then xs ! (i - 1) else if k = i - 1 then xs ! i else xs ! k)"
  by (auto simp: swap_before_def nth_list_update)

lemma swap_before_split:
  assumes "0 < i" "i < length xs"
  obtains A a b B where "xs = A @ a # b # B" "length A = i - 1" "swap_before i xs = A @ b # a # B"
    "xs ! (i - 1) = a" "xs ! i = b"
proof -
  obtain j where j: "i = Suc j" using assms(1) by (cases i) auto
  let ?A = "take j xs" and ?B = "drop (Suc i) xs"
  have A: "length ?A = i - 1" using assms by (simp add: j)
  have "drop j xs = xs ! j # xs ! i # ?B"
    using assms(2) by (simp add: j Cons_nth_drop_Suc)
  then have xs: "xs = ?A @ xs ! j # xs ! i # ?B" by (metis append_take_drop_id)
  have j': "xs ! (i - 1) = xs ! j" by (simp add: j)
  have "swap_before i xs = ?A @ xs ! i # xs ! j # ?B"
  proof (rule nth_equalityI)
    show "length (swap_before i xs) = length (?A @ xs ! i # xs ! j # ?B)" using assms by (simp add: j)
    fix k assume "k < length (swap_before i xs)"
    then have "k < length xs" by simp
    then consider "k < j" | "k = j" | "k = i" | m where "k = Suc (Suc j) + m"
      using assms by (metis j less_iff_Suc_add linorder_neqE_nat add_Suc not_less_eq)
    then show "swap_before i xs ! k = (?A @ xs ! i # xs ! j # ?B) ! k"
      using assms \<open>k < length xs\<close> by cases (auto simp: nth_swap_before nth_append j)
  qed
  from that [OF xs A this j' refl] show thesis .
qed

lemma sorted_from_step:
  assumes "sorted_from latest i end used cost" "0 < i" "i < end" "end \<le> used" "used \<le> length cost"
    "latest < i"
  shows "cost ! i < cost ! (i - 1) \<Longrightarrow> sorted_from i (Suc i) end used (swap_before i cost)"
    and "\<not> cost ! i < cost ! (i - 1) \<Longrightarrow> sorted_from latest (Suc i) end used cost"
proof -
  have old: "cost ! p \<le> cost ! q" if "p < q" "q < used" "latest \<le> q \<and> q < i \<or> end \<le> q" for p q
    using assms(1) that by (simp add: sorted_from_def)
  have below: "cost ! p \<le> cost ! (i - 1)" if "p < i" for p
  proof (cases "p = i - 1")
    case False
    then have "p < i - 1" "i - 1 < used" "latest \<le> i - 1" "i - 1 < i" using that assms by linarith+
    then show ?thesis using old by blast
  qed simp
  show "sorted_from i (Suc i) end used (swap_before i cost)" if lt: "cost ! i < cost ! (i - 1)"
    unfolding sorted_from_def
  proof (intro allI impI)
    fix p q assume pq: "p < q \<and> q < used \<and> (i \<le> q \<and> q < Suc i \<or> end \<le> q)"
    then consider "q = i" | "end \<le> q" by linarith
    then show "swap_before i cost ! p \<le> swap_before i cost ! q"
    proof cases
      case 1
      then show ?thesis
        using pq assms below [of p] less_imp_le [OF lt] by (simp add: nth_swap_before)
    next
      case 2
      then have "cost ! r \<le> cost ! q" if "r < q" for r using old that pq by blast
      moreover have "q \<noteq> i" "q \<noteq> i - 1" using 2 assms by linarith+
      ultimately show ?thesis using pq 2 assms by (auto simp: nth_swap_before)
    qed
  qed
  show "sorted_from latest (Suc i) end used cost" if ge: "\<not> cost ! i < cost ! (i - 1)"
    unfolding sorted_from_def
  proof (intro allI impI)
    fix p q assume pq: "p < q \<and> q < used \<and> (latest \<le> q \<and> q < Suc i \<or> end \<le> q)"
    show "cost ! p \<le> cost ! q"
    proof (cases "q = i")
      case True
      with below [of p] ge pq show ?thesis by simp
    next
      case False
      with pq old show ?thesis by auto
    qed
  qed
qed

text \<open>The order always lists the captures a permutation of its start, equal costs in their original
  order, next to their costs.\<close>

definition order_inv :: "(u16 \<Rightarrow> u32) \<Rightarrow> nat \<Rightarrow> u16 list \<Rightarrow> u32 list \<Rightarrow> u16 list \<Rightarrow> bool" where
  "order_inv C used start cost order \<longleftrightarrow>
     used \<le> length cost \<and> used \<le> length order \<and> take used cost = map C (take used order)
     \<and> drop used order = drop used start \<and> mset (take used order) = mset (take used start)
     \<and> (\<forall>c. filter (\<lambda>x. C x = c) (take used order) = filter (\<lambda>x. C x = c) (take used start))"

lemma take_swap_before:
  "0 < i \<Longrightarrow> i < used \<Longrightarrow> take used (swap_before i xs) = swap_before i (take used xs)"
  by (simp add: swap_before_def take_update_swap)

lemma drop_swap_before:
  "0 < i \<Longrightarrow> i < used \<Longrightarrow> drop used (swap_before i xs) = drop used xs"
  by (simp add: swap_before_def drop_update_cancel)

lemma map_swap_before:
  "0 < i \<Longrightarrow> i < length xs \<Longrightarrow> swap_before i (map f xs) = map f (swap_before i xs)"
  by (simp add: swap_before_def map_update)

lemma order_inv_step:
  assumes "order_inv C used start cost order" "0 < i" "i < used" "cost ! i < cost ! (i - 1)"
  shows "order_inv C used start (swap_before i cost) (swap_before i order)"
proof -
  let ?o = "take used order"
  have o: "take used cost = map C ?o" "used \<le> length cost" "used \<le> length order"
    using assms(1) by (simp_all add: order_inv_def)
  then have len: "i < length ?o" using assms(3) by simp
  obtain A a b B where s: "?o = A @ a # b # B" "swap_before i ?o = A @ b # a # B"
    "?o ! (i - 1) = a" "?o ! i = b"
    using swap_before_split [OF assms(2) len] by metis
  have "cost ! k = C (?o ! k)" if "k < used" for k
    using that o by (metis length_take min.absorb2 nth_map nth_take)
  then have "C b < C a" using assms s by (metis less_imp_diff_less)
  then have "filter (\<lambda>x. C x = c) (swap_before i ?o) = filter (\<lambda>x. C x = c) ?o" for c
    unfolding s(2) by (auto simp: s(1))
  moreover have "mset (swap_before i ?o) = mset ?o" unfolding s(2) by (simp add: s(1))
  ultimately show ?thesis
    using assms o len
    by (simp add: order_inv_def take_swap_before drop_swap_before flip: map_swap_before)
qed

lemma bubble_pass_inv:
  assumes "order_inv C used start cost order" "sorted_from latest i end used cost"
    "latest < i" "end \<le> used" "bubble_pass [i..<end] cost order latest = (cost', order', latest')"
    "i \<le> end"
  shows "order_inv C used start cost' order' \<and> sorted_from latest' end end used cost'"
  using assms
proof (induction "end - i" arbitrary: i cost order latest)
  case 0
  then show ?case by simp
next
  case (Suc n)
  then have i: "i < end" "0 < i" "n = end - Suc i" by simp_all
  have used: "used \<le> length cost" using Suc.prems(1) by (simp add: order_inv_def)
  note step = sorted_from_step [OF Suc.prems(2) i(2,1) Suc.prems(4) used Suc.prems(3)]
  show ?case
  proof (cases "cost ! i < cost ! (i - 1)")
    case True
    have "order_inv C used start (swap_before i cost) (swap_before i order)"
      using order_inv_step [OF Suc.prems(1) i(2) _ True] i(1) Suc.prems(4) by simp
    then show ?thesis
      using Suc.hyps(1) [OF i(3) _ step(1) [OF True]] Suc.prems True i by (simp add: upt_conv_Cons)
  next
    case False
    then show ?thesis
      using Suc.hyps(1) [OF i(3) Suc.prems(1) step(2) [OF False]] Suc.prems i
      by (simp add: upt_conv_Cons)
  qed
qed

lemma bubble_sort_inv:
  assumes "order_inv C used start cost order" "sorted_from end end end used cost" "end \<le> used"
    "bubble_sort end cost order = (cost', order')"
  shows "order_inv C used start cost' order' \<and> sorted_from 0 0 1 used cost'"
  using assms
proof (induction "end" cost order rule: bubble_sort.induct)
  case (1 "end" cost order)
  show ?case
  proof (cases "end \<le> 1")
    case True
    then have "sorted_from 0 0 1 used cost"
      using "1.prems"(2) by (auto simp: sorted_from_def)
    with True "1.prems" show ?thesis by (simp add: bubble_sort.simps)
  next
    case False
    obtain c o' l where p: "bubble_pass [1..<end] cost order 0 = (c, o', l)"
      by (cases "bubble_pass [1..<end] cost order 0") auto
    have "sorted_from 0 1 end used cost"
      using "1.prems"(2) by (auto simp: sorted_from_def)
    then have inv: "order_inv C used start c o'" "sorted_from l end end used c"
      using bubble_pass_inv [OF "1.prems"(1) _ _ "1.prems"(3) p] False by auto
    have "sorted_from l l l used c"
      using inv(2) unfolding sorted_from_def by (metis not_le)
    moreover have "l < end" using bubble_pass_last [OF p] False by auto
    moreover have "bubble_sort l c o' = (cost', order')"
      using "1.prems"(4) False p by (simp add: bubble_sort.simps [of "end"])
    ultimately show ?thesis
      using "1.IH" [OF False p [symmetric] refl] inv "1.prems"(3) by simp
  qed
qed

lemma sorted_from_sorted:
  assumes "sorted_from 0 0 1 used cost" "used \<le> length cost"
  shows "sorted (take used cost)"
  using assms by (auto simp: sorted_iff_nth_mono_less sorted_from_def)

lemma initial_order_sorted:
  assumes "2 \<le> c" "c \<le> 65535" "used \<le> c" "c \<le> length order" "table_size c \<le> length scores"
    and "al (4 * c)"
  shows "fpc_enrollment_initial_order al scores used c order =
    (0, map of_nat (sort_key (capture_cost c scores used) [0..<used] @ [used..<c]) @ drop c order)"
proof -
  define start :: "u16 list" where "start = map of_nat [0..<c] @ drop c order"
  define C where "C = (\<lambda>x :: u16. capture_cost c scores used (unat x))"
  define cost where "cost = fold (\<lambda>(i, j). add_edge (edge c i j) scores (i, j)) (pairs_upto used)
    (replicate c (0 :: u32))"
  obtain cost' order' where run: "bubble_sort used cost start = (cost', order')"
    by (cases "bubble_sort used cost start") auto
  have inj: "unat (of_nat k :: u16) = k" if "k < c" for k
    using that assms(2) by (simp add: unat_of_nat)
  have used: "used \<le> length (replicate c (0 :: u32))" using assms by simp
  have take_start: "take used start = map of_nat [0..<used]"
    using assms by (simp add: start_def take_map)
  have "take used cost = map C (take used start)"
  proof (rule nth_equalityI)
    show "length (take used cost) = length (map C (take used start))"
      using fold_pairs_cost(1) [OF used, of c scores] assms by (simp add: cost_def start_def)
    fix k assume "k < length (take used cost)"
    then have "k < used" by simp
    then show "take used cost ! k = map C (take used start) ! k"
      using fold_pairs_cost(2) [OF used, of k c scores] assms inj [of k]
      by (simp add: cost_def take_start C_def)
  qed
  then have inv0: "order_inv C used start cost start"
    using fold_pairs_cost(1) [OF used, of c scores] assms by (simp add: order_inv_def cost_def start_def)
  have "sorted_from used used used used cost" by (auto simp: sorted_from_def)
  from bubble_sort_inv [OF inv0 this order_refl run]
  have inv: "order_inv C used start cost' order'" and s: "sorted_from 0 0 1 used cost'" by auto
  have "sort_key C (map of_nat [0..<used]) = take used order'"
  proof (rule properties_for_sort_key)
    show "mset (take used order') = mset (map of_nat [0..<used])"
      using inv by (simp add: order_inv_def take_start)
    show "filter (\<lambda>x. C k = C x) (take used order') = filter (\<lambda>x. C k = C x) (map of_nat [0..<used])" for k
      using inv by (simp add: order_inv_def take_start eq_commute [of "C k"])
    show "sorted (map C (take used order'))"
      using sorted_from_sorted [OF s] inv by (simp add: order_inv_def)
  qed
  moreover have "sort_key C (map of_nat [0..<used])
      = map of_nat (sort_key (capture_cost c scores used) [0..<used])"
  proof (rule properties_for_sort_key)
    have C: "C (of_nat k) = capture_cost c scores used k" if "k < used" for k
      using that inj [of k] assms by (simp add: C_def)
    show "mset (map of_nat (sort_key (capture_cost c scores used) [0..<used]))
        = mset (map (of_nat :: nat \<Rightarrow> u16) [0..<used])"
      by simp
    have keys: "map C (map of_nat (sort_key (capture_cost c scores used) [0..<used]))
        = map (capture_cost c scores used) (sort_key (capture_cost c scores used) [0..<used])"
      using C by simp
    show "sorted (map C (map of_nat (sort_key (capture_cost c scores used) [0..<used])))"
      unfolding keys by simp
    fix k :: u16
    have *: "filter (\<lambda>x. C k = C x) (map of_nat xs)
        = map of_nat (filter (\<lambda>x. capture_cost c scores used x = C k) xs)" if "set xs \<subseteq> {..<used}" for xs
      using that C by (induction xs) auto
    show "filter (\<lambda>x. C k = C x) (map of_nat (sort_key (capture_cost c scores used) [0..<used]))
        = filter (\<lambda>x. C k = C x) (map of_nat [0..<used])"
      by (subst (1 2) *) (auto simp: sort_key_stable)
  qed
  ultimately have "take used order' = map of_nat (sort_key (capture_cost c scores used) [0..<used])" by simp
  moreover have "drop used order' = map of_nat [used..<c] @ drop c order"
    using inv assms by (simp add: order_inv_def start_def drop_map)
  ultimately have "order' = map of_nat (sort_key (capture_cost c scores used) [0..<used] @ [used..<c]) @ drop c order"
    by (metis append_take_drop_id append_assoc map_append)
  then show ?thesis
    using assms run by (simp add: fpc_enrollment_initial_order_def start_def cost_def)
qed

text \<open>The initial order is a stable sort: the captures in use appear by ascending cost, captures
  of equal cost in the order they were enrolled, and the unused slots keep their identity order.\<close>

theorem initial_order_stable_sort:
  assumes "2 \<le> c" "c \<le> 65535" "used \<le> c" "c \<le> length order" "table_size c \<le> length scores"
    and "al (4 * c)"
  shows "fpc_enrollment_initial_order al scores used c order =
    (0, map of_nat (sort_key (capture_cost c scores used) [0..<used] @ [used..<c]) @ drop c order)"
  using assms by (rule initial_order_sorted)

theorem initial_order_stable_sort_witness:
  "fpc_enrollment_initial_order (\<lambda>_. True) [5, 1, 5, 1, 5, 1] 3 4 [9, 9, 9, 9, 8]
     = (0, map of_nat (sort_key (capture_cost 4 [5, 1, 5, 1, 5, 1] 3) [0..<3] @ [3]) @ [8])"
  using initial_order_stable_sort [of 4 3 "[9, 9, 9, 9, 8]" "[5, 1, 5, 1, 5, 1]" "\<lambda>_. True"]
  by (simp add: table_size_def upt_rec)
end
