(* ===== verification/RetainedGraph.thy ===== *)
theory RetainedGraph
  imports PairScores
begin

text \<open>
  The retained-capture graph of a template (\<^verbatim>\<open>fpc_recovered.c\<close>:
  \<^verbatim>\<open>fpc_retained_graph_create\<close>, \<^verbatim>\<open>_payload\<close>, \<^verbatim>\<open>_load_payload\<close>,
  \<^verbatim>\<open>_load_ages\<close>, \<^verbatim>\<open>_increment_ages\<close>, \<^verbatim>\<open>_reset_age\<close>): a score table, an order and an age
  per slot. \<open>None\<close> is a NULL array; \<open>graph_wf\<close> says that the arrays have the sizes the counters claim.
\<close>

record fpc_retained_graph =
  rg_scores :: "u16 list option"
  rg_order :: "u16 list option"
  rg_ages :: "u16 list option"
  rg_score_count :: nat
  rg_age_count :: nat
  rg_used :: u16
  rg_capacity :: u16
  rg_protected_count :: u16
  rg_protected_limit :: u16
  rg_age_threshold :: u16

definition graph_wf :: "fpc_retained_graph \<Rightarrow> bool" where
  "graph_wf g \<longleftrightarrow>
     2 \<le> unat (rg_capacity g) \<and> rg_used g \<le> rg_capacity g
     \<and> (\<exists>s. rg_scores g = Some s \<and> length s = rg_score_count g)
     \<and> table_size (unat (rg_capacity g)) \<le> rg_score_count g
     \<and> (\<exists>ord. rg_order g = Some ord \<and> length ord = unat (rg_capacity g))
     \<and> (case rg_ages g of None \<Rightarrow> rg_age_count g = 0 | Some a \<Rightarrow> length a = rg_age_count g)"

subsection \<open>Ages\<close>

definition fpc_retained_graph_increment_ages :: "fpc_retained_graph \<Rightarrow> status \<times> fpc_retained_graph" where
  "fpc_retained_graph_increment_ages graph =
     (let used = unat (rg_used graph) in
      if rg_age_count graph < used \<or> (used \<noteq> 0 \<and> rg_ages graph = None) then (1, graph)
      else (0, graph\<lparr>rg_ages := map_option
                 (\<lambda>ages. map (\<lambda>a. if a \<noteq> 65535 then a + 1 else a) (take used ages) @ drop used ages)
                 (rg_ages graph)\<rparr>))"

definition fpc_retained_graph_reset_age :: "fpc_retained_graph \<Rightarrow> int \<Rightarrow> status \<times> fpc_retained_graph" where
  "fpc_retained_graph_reset_age graph index =
     (if index < 0 \<or> uint (rg_used graph) < index \<or> rg_age_count graph \<le> nat index
          \<or> rg_ages graph = None then (1, graph)
      else (0, graph\<lparr>rg_ages := map_option (\<lambda>ages. ages[nat index := 0]) (rg_ages graph)\<rparr>))"

subsection \<open>Creation\<close>

definition earlier_pairs :: "nat \<Rightarrow> (nat \<times> nat) list" where
  "earlier_pairs used = concat (map (\<lambda>later. map (\<lambda>earlier. (earlier, later)) [0..<later]) [1..<used])"

definition place_scores :: "nat \<Rightarrow> u16 list \<Rightarrow> (nat \<times> nat) list \<Rightarrow> u16 list \<Rightarrow> u16 list" where
  "place_scores capacity pair_scores ps scores =
     fold (\<lambda>(earlier, later) scores. scores[edge capacity earlier later
             := pair_scores ! (later * (later - 1) div 2 + earlier)]) ps scores"

definition fpc_retained_graph_create ::
    "(nat \<Rightarrow> bool) \<Rightarrow> u16 list option \<Rightarrow> nat \<Rightarrow> u8 \<Rightarrow> u16 \<Rightarrow> status + fpc_retained_graph" where
  "fpc_retained_graph_create al pair_scores used retention_capacity protection =
     (let capacity = (if unat retention_capacity < used then used else unat retention_capacity);
          score_count = capacity * (capacity - 1) div 2
      in if 80 < used \<or> (1 < used \<and> (case pair_scores of None \<Rightarrow> True
                              | Some ps \<Rightarrow> length ps < used * (used - 1) div 2)) then Inl (- 1)
         else if capacity < 2 then Inl (- 1)
         else if \<not> al (2 * score_count) \<or> \<not> al (2 * capacity) then Inl 2
         else Inr \<lparr>rg_scores = Some (place_scores capacity (arr pair_scores) (earlier_pairs used)
                                      (replicate score_count 0)),
                   rg_order = Some (map of_nat [0..<capacity]),
                   rg_ages = Some (replicate capacity (of_nat (2 * unat retention_capacity))),
                   rg_score_count = score_count, rg_age_count = capacity,
                   rg_used = of_nat used, rg_capacity = of_nat capacity,
                   rg_protected_count = protection, rg_protected_limit = protection,
                   rg_age_threshold = of_nat (3 * capacity)\<rparr>)"

subsection \<open>The payload\<close>

definition graph_header :: "fpc_retained_graph \<Rightarrow> u16 \<Rightarrow> u16 list" where
  "graph_header graph pending_count =
     [rg_used graph, rg_capacity graph, rg_protected_count graph, rg_protected_limit graph,
      rg_age_threshold graph, pending_count]"

definition fpc_retained_graph_payload ::
    "fpc_retained_graph \<Rightarrow> u16 \<Rightarrow> u8 list option \<Rightarrow> (status + nat \<times> u8 list option) option" where
  "fpc_retained_graph_payload graph pending_count output =
     (let capacity = unat (rg_capacity graph);
          words = 6 + capacity + table_size capacity
      in if capacity < 2 \<or> rg_capacity graph < rg_used graph \<or> rg_order graph = None
            \<or> rg_scores graph = None \<or> rg_score_count graph < table_size capacity
         then Some (Inl (- 1))
         else case output of
                None \<Rightarrow> Some (Inr (words * 2, None))
              | Some buf \<Rightarrow>
                  if length buf < words * 2 then Some (Inl (- 1))
                  else do { order \<leftarrow> rd_prefix (rg_order graph) capacity;
                            scores \<leftarrow> rd_prefix (rg_scores graph) (table_size capacity);
                            Some (write_out (words * 2)
                              (concat (map st16 (graph_header graph pending_count @ order @ scores)))
                              output) })"

definition fpc_retained_graph_load_payload ::
    "(nat \<Rightarrow> bool) \<Rightarrow> u8 list \<Rightarrow> (status + fpc_retained_graph \<times> u16) option" where
  "fpc_retained_graph_load_payload al data =
     (if length data < 12 then Some (Inl (- 1)) else
      do { h \<leftarrow> rd_seq rd16 2 data 0 6;
           if h ! 0 = 0 then Some (Inl 1)
           else if unat (h ! 1) < 2 \<or> h ! 1 < h ! 0 \<or> 80 < unat (h ! 0) \<or> 10 < unat (h ! 5)
           then Some (Inl (- 1))
           else let capacity = unat (h ! 1); edges = table_size capacity in
             if length data \<noteq> 12 + 2 * (capacity + edges) then Some (Inl (- 1))
             else if \<not> al (2 * capacity) \<or> \<not> al (2 * edges) then Some (Inl 2)
             else do { values \<leftarrow> rd_seq rd16 2 data 12 (capacity + edges);
                       Some (Inr (\<lparr>rg_scores = Some (drop capacity values),
                                   rg_order = Some (take capacity values),
                                   rg_ages = None, rg_score_count = edges, rg_age_count = 0,
                                   rg_used = h ! 0, rg_capacity = h ! 1,
                                   rg_protected_count = h ! 2, rg_protected_limit = h ! 3,
                                   rg_age_threshold = h ! 4\<rparr>, h ! 5)) } })"

definition fpc_retained_graph_load_ages ::
    "(nat \<Rightarrow> bool) \<Rightarrow> fpc_retained_graph \<Rightarrow> u8 list \<Rightarrow> u8 \<Rightarrow> (status + fpc_retained_graph) option" where
  "fpc_retained_graph_load_ages al graph data retention_capacity =
     (let r = unat retention_capacity in
      if r = 0 \<or> length data \<noteq> 2 * r then Some (Inl (- 1))
      else if \<not> al (length data) then Some (Inl 2)
      else do { ages \<leftarrow> rd_seq rd16 2 data 0 r;
                Some (Inr (graph\<lparr>rg_ages := Some ages, rg_age_count := r\<rparr>)) })"

subsection \<open>Lemmas\<close>

lemma table_size_pos: "2 \<le> c \<Longrightarrow> 0 < table_size c"
  using row_start_last [of c] by (cases c) (auto simp: row_start_def)

lemma load_payload_safe: "fpc_retained_graph_load_payload al data \<noteq> None"
proof (cases "length data < 12")
  case False
  then obtain h where "rd_seq rd16 2 data 0 6 = Some h"
    using half.seq_total [of 0 6 data] by auto
  moreover define n where "n = unat (h ! 1) + table_size (unat (h ! 1))"
  moreover have "length data = 12 + 2 * n \<Longrightarrow> rd_seq rd16 2 data 12 n \<noteq> None"
    by (rule half.seq_total) simp
  ultimately show ?thesis
    using False by (auto simp: fpc_retained_graph_load_payload_def Let_def split: Option.bind_splits)
qed (simp add: fpc_retained_graph_load_payload_def)

lemma load_ages_safe: "fpc_retained_graph_load_ages al graph data r \<noteq> None"
  using half.seq_total [of 0 "unat r" data]
  by (auto simp: fpc_retained_graph_load_ages_def Let_def)

lemma load_payload_wf:
  "fpc_retained_graph_load_payload al data = Some (Inr (g, pending)) \<Longrightarrow>
     graph_wf g \<and> rg_used g \<noteq> 0 \<and> unat (rg_used g) \<le> 80 \<and> rg_ages g = None"
  by (auto simp: fpc_retained_graph_load_payload_def Let_def graph_wf_def not_less
      split: if_splits Option.bind_splits dest!: half.seq_length)

lemma load_ages_wf:
  "graph_wf g \<Longrightarrow> fpc_retained_graph_load_ages al g data r = Some (Inr g') \<Longrightarrow>
     graph_wf g' \<and> rg_age_count g' = unat r"
  by (auto simp: fpc_retained_graph_load_ages_def Let_def graph_wf_def
      split: if_splits Option.bind_splits dest: half.seq_length)

lemma increment_ages_wf: "graph_wf g \<Longrightarrow> graph_wf (snd (fpc_retained_graph_increment_ages g))"
  by (auto simp: fpc_retained_graph_increment_ages_def Let_def graph_wf_def split: option.splits)

lemma reset_age_wf: "graph_wf g \<Longrightarrow> graph_wf (snd (fpc_retained_graph_reset_age g i))"
  by (auto simp: fpc_retained_graph_reset_age_def graph_wf_def split: option.splits)

definition graph_bytes :: "fpc_retained_graph \<Rightarrow> u16 \<Rightarrow> u8 list" where
  "graph_bytes g pending = concat (map st16 (graph_header g pending
     @ arr (rg_order g) @ take (table_size (unat (rg_capacity g))) (arr (rg_scores g))))"

definition without_ages :: "fpc_retained_graph \<Rightarrow> fpc_retained_graph" where
  "without_ages g = g\<lparr>rg_ages := None, rg_age_count := 0\<rparr>"

lemma length_graph_bytes:
  "graph_wf g \<Longrightarrow> length (graph_bytes g pending)
     = 2 * (6 + unat (rg_capacity g) + table_size (unat (rg_capacity g)))"
  using half.length_concat by (auto simp: graph_bytes_def graph_wf_def graph_header_def)

lemma graph_payload_writes:
  assumes "graph_wf g"
  shows "fpc_retained_graph_payload g pending None = Some (Inr (length (graph_bytes g pending), None))"
    and "length buf = length (graph_bytes g pending) \<Longrightarrow>
      fpc_retained_graph_payload g pending (Some buf)
        = Some (Inr (length (graph_bytes g pending), Some (graph_bytes g pending)))"
  using assms length_graph_bytes [OF assms, of pending]
  by (auto simp: fpc_retained_graph_payload_def Let_def graph_wf_def not_less rd_prefix_def rd_bytes_def
      graph_bytes_def)

lemma graph_bytes_load:
  assumes "graph_wf g" "rg_score_count g = table_size (unat (rg_capacity g))"
    and "rg_used g \<noteq> 0" "unat (rg_used g) \<le> 80" "unat pending \<le> 10" "\<And>n. al n"
  shows "fpc_retained_graph_load_payload al (graph_bytes g pending) = Some (Inr (without_ages g, pending))"
proof -
  define c where "c = unat (rg_capacity g)"
  from assms(1,2) obtain s ord where g: "rg_scores g = Some s" "length s = table_size c"
    "rg_order g = Some ord" "length ord = c" "2 \<le> c" "rg_used g \<le> rg_capacity g"
    by (auto simp: graph_wf_def c_def)
  define bytes where "bytes = graph_bytes g pending"
  have b: "bytes = [] @ concat (map st16 (graph_header g pending)) @ concat (map st16 (ord @ s))"
    "bytes = concat (map st16 (graph_header g pending)) @ concat (map st16 (ord @ s)) @ []"
    using g by (simp_all add: bytes_def graph_bytes_def c_def)
  have lb: "length bytes = 12 + 2 * (c + table_size c)"
    using length_graph_bytes [OF assms(1), of pending] by (simp add: bytes_def c_def)
  have "rd_seq rd16 2 bytes 0 6 = Some (graph_header g pending)"
    by (subst b(1), rule half.seq_read) (simp_all add: graph_header_def)
  moreover have "rd_seq rd16 2 bytes 12 (c + table_size c) = Some (ord @ s)"
    by (subst b(2), rule half.seq_read) (simp_all add: graph_header_def g)
  ultimately have "fpc_retained_graph_load_payload al bytes = Some (Inr (without_ages g, pending))"
    using assms lb g
    by (simp add: fpc_retained_graph_load_payload_def Let_def graph_header_def not_less without_ages_def
        c_def [symmetric])
  then show ?thesis by (simp add: bytes_def)
qed

lemma ages_load:
  assumes "length ages = unat r" "r \<noteq> 0" "\<And>n. al n"
  shows "fpc_retained_graph_load_ages al g (concat (map st16 ages)) r
    = Some (Inr (g\<lparr>rg_ages := Some ages, rg_age_count := unat r\<rparr>))"
proof -
  have "rd_seq rd16 2 ([] @ concat (map st16 ages) @ []) 0 (unat r) = Some ages"
    by (rule half.seq_read) (simp_all add: assms(1))
  then show ?thesis
    using half.length_concat [of ages] assms
    by (simp add: fpc_retained_graph_load_ages_def Let_def unat_eq_zero)
qed

text \<open>A well-formed graph survives a save and a load, its ages travelling in a payload of their
  own: the serializer announces the bytes it writes, the loader returns the graph without ages and
  the pending count, and loading the ages restores the graph.\<close>

theorem retained_graph_roundtrip:
  assumes "graph_wf g" "rg_score_count g = table_size (unat (rg_capacity g))"
    and "rg_used g \<noteq> 0" "unat (rg_used g) \<le> 80" "unat pending \<le> 10" "\<And>n. al n"
    and "length buf = 2 * (6 + unat (rg_capacity g) + table_size (unat (rg_capacity g)))"
    and "rg_ages g = Some ages" "rg_age_count g = unat r" "r \<noteq> 0"
  shows "\<exists>bytes g0. fpc_retained_graph_payload g pending None = Some (Inr (length buf, None))
    \<and> fpc_retained_graph_payload g pending (Some buf) = Some (Inr (length buf, Some bytes))
    \<and> fpc_retained_graph_load_payload al bytes = Some (Inr (g0, pending))
    \<and> fpc_retained_graph_load_ages al g0 (concat (map st16 ages)) r = Some (Inr g)"
proof -
  have "length ages = unat r" using assms(1,8,9) by (simp add: graph_wf_def)
  note ages = ages_load [of ages r al "without_ages g", OF this assms(10,6)]
  have "(without_ages g)\<lparr>rg_ages := Some ages, rg_age_count := unat r\<rparr> = g"
    using assms(8,9) by (simp add: without_ages_def)
  then show ?thesis
    using ages graph_payload_writes(1) [OF assms(1), of pending]
      graph_payload_writes(2) [OF assms(1), of buf pending] graph_bytes_load [of g pending al, OF assms(1-6)]
      length_graph_bytes [OF assms(1), of pending] assms(7) by auto
qed

definition sample_graph :: fpc_retained_graph where
  "sample_graph = \<lparr>rg_scores = Some [40], rg_order = Some [1, 0], rg_ages = Some [3, 65535],
     rg_score_count = 1, rg_age_count = 2, rg_used = 2, rg_capacity = 2, rg_protected_count = 0,
     rg_protected_limit = 0, rg_age_threshold = 6\<rparr>"

lemma sample_graph_wf: "graph_wf sample_graph"
  by (simp add: graph_wf_def sample_graph_def table_size_def)

theorem retained_graph_roundtrip_witness:
  "\<exists>bytes g0. fpc_retained_graph_payload sample_graph 1 (Some (replicate 18 0)) = Some (Inr (18, Some bytes))
    \<and> fpc_retained_graph_load_payload (\<lambda>_. True) bytes = Some (Inr (g0, 1))
    \<and> fpc_retained_graph_load_ages (\<lambda>_. True) g0 (concat (map st16 [3, 65535])) 2
        = Some (Inr sample_graph)"
  using retained_graph_roundtrip [of sample_graph 1 "\<lambda>_. True" "replicate 18 0" "[3, 65535]" 2] sample_graph_wf
  by (auto simp: sample_graph_def table_size_def)

subsection \<open>Creation from the enrollment scores\<close>

lemma place_scores_lookup:
  assumes "2 \<le> c" "c \<le> 65535" "table_size c \<le> length scores" "k < l" "l < c"
    and "list_all (\<lambda>(i, j). i < j \<and> j < c) ps"
  shows "length (place_scores c new ps scores) = length scores \<and>
    place_scores c new ps scores ! edge c k l =
      (if (k, l) \<in> set ps then new ! (l * (l - 1) div 2 + k) else scores ! edge c k l)"
  using assms(3,6)
proof (induction ps arbitrary: scores)
  case Nil
  then show ?case by (simp add: place_scores_def)
next
  case (Cons p ps)
  obtain i j where p: "p = (i, j)" "i < j" "j < c" using Cons.prems(2) by (cases p) auto
  have "place_scores c new (p # ps) scores
      = place_scores c new ps (scores[edge c i j := new ! (j * (j - 1) div 2 + i)])"
    by (simp add: place_scores_def p)
  moreover have "scores[edge c i j := v] ! edge c k l
      = (if (k, l) = (i, j) then v else scores ! edge c k l)" for v
    using pairs.slot_update [of c i j k l scores v] assms p Cons.prems(1) by auto
  ultimately show ?case using Cons p by auto
qed

lemma set_earlier_pairs: "set (earlier_pairs used) = {(i, j). i < j \<and> j < used}"
  by (fastforce simp: earlier_pairs_def)

definition created_graph :: "u16 list \<Rightarrow> nat \<Rightarrow> nat \<Rightarrow> nat \<Rightarrow> u16 \<Rightarrow> fpc_retained_graph" where
  "created_graph scores used c retention protection =
     \<lparr>rg_scores = Some scores, rg_order = Some (map of_nat [0..<c]),
      rg_ages = Some (replicate c (of_nat (2 * retention))), rg_score_count = table_size c,
      rg_age_count = c, rg_used = of_nat used, rg_capacity = of_nat c, rg_protected_count = protection,
      rg_protected_limit = protection, rg_age_threshold = of_nat (3 * c)\<rparr>"

lemma retained_graph_created:
  assumes "used \<le> 80" "table_size used \<le> length ps" "c = max used (unat retention)" "2 \<le> c"
    and "\<And>n. al n"
  shows "\<exists>scores. fpc_retained_graph_create al (Some ps) used retention protection
      = Inr (created_graph scores used c (unat retention) protection)
    \<and> graph_wf (created_graph scores used c (unat retention) protection) \<and> length scores = table_size c
    \<and> (\<forall>k l. k < l \<and> l < c \<longrightarrow> scores ! edge c k l = (if l < used then ps ! (l * (l - 1) div 2 + k) else 0))"
proof -
  have "unat retention < 256" using unsigned_less [of retention] by simp
  then have c: "c \<le> 255" using assms by simp
  have cap: "(if unat retention < used then used else unat retention) = c" using assms(3) by simp
  define scores where "scores = place_scores c ps (earlier_pairs used) (replicate (table_size c) 0)"
  have "list_all (\<lambda>(i, j). i < j \<and> j < c) (earlier_pairs used)"
    using assms(3) by (auto simp: list_all_iff set_earlier_pairs)
  note lookup = place_scores_lookup [OF _ _ _ _ _ this, of "replicate (table_size c) 0"]
  have len: "length scores = table_size c"
    using lookup [of 0 1 ps] assms(4) c by (simp add: scores_def)
  have s: "scores ! edge c k l = (if l < used then ps ! (l * (l - 1) div 2 + k) else 0)" if "k < l" "l < c" for k l
    using lookup [of k l ps] that assms c pairs.slot_bound [of c k l] by (auto simp: scores_def set_earlier_pairs)
  have u: "unat (of_nat used :: u16) = used" "unat (of_nat c :: u16) = c"
    using assms c by (simp_all add: unat_of_nat)
  then have le: "(of_nat used :: u16) \<le> of_nat c" using assms(3) by (simp add: word_le_nat_alt)
  have "fpc_retained_graph_create al (Some ps) used retention protection
      = Inr (created_graph scores used c (unat retention) protection)"
    unfolding fpc_retained_graph_create_def cap Let_def
    using assms(1,2,4,5) by (simp add: created_graph_def scores_def table_size_def)
  moreover have "graph_wf (created_graph scores used c (unat retention) protection)"
    using len u le assms(4) by (simp add: graph_wf_def created_graph_def)
  ultimately show ?thesis using len s by blast
qed

text \<open>A graph created from enrollment scores is well formed, starts in identity order with every
  age at twice the retention capacity, and its table holds for every two captures in use the score
  they were enrolled with, and zero for every other pair.\<close>

theorem retained_graph_create_spec:
  assumes "used \<le> 80" "table_size used \<le> length ps" "c = max used (unat retention)" "2 \<le> c"
    and "\<And>n. al n" "k < l" "l < c"
  shows "\<exists>g scores. fpc_retained_graph_create al (Some ps) used retention protection = Inr g \<and> graph_wf g
    \<and> rg_scores g = Some scores \<and> unat (rg_used g) = used \<and> unat (rg_capacity g) = c
    \<and> scores ! edge c k l = (if l < used then ps ! (l * (l - 1) div 2 + k) else 0)
    \<and> rg_order g = Some (map of_nat [0..<c])
    \<and> rg_ages g = Some (replicate c (of_nat (2 * unat retention)))"
proof -
  have "unat retention < 256" using unsigned_less [of retention] by simp
  then have u: "unat (of_nat used :: u16) = used" "unat (of_nat c :: u16) = c"
    using assms(1,3) by (simp_all add: unat_of_nat)
  from retained_graph_created [where protection = protection, OF assms(1-5)] obtain scores where
    g: "fpc_retained_graph_create al (Some ps) used retention protection
        = Inr (created_graph scores used c (unat retention) protection)
      \<and> graph_wf (created_graph scores used c (unat retention) protection) \<and> length scores = table_size c
      \<and> (\<forall>k l. k < l \<and> l < c \<longrightarrow> scores ! edge c k l = (if l < used then ps ! (l * (l - 1) div 2 + k) else 0))"
    by (rule exE)
  then have "scores ! edge c k l = (if l < used then ps ! (l * (l - 1) div 2 + k) else 0)"
    using assms(6,7) by simp
  with g u show ?thesis by (simp add: created_graph_def)
qed

theorem retained_graph_create_spec_witness:
  "\<exists>g scores. fpc_retained_graph_create (\<lambda>_. True) (Some [7, 8, 9]) 3 5 2 = Inr g \<and> graph_wf g
     \<and> rg_scores g = Some scores \<and> scores ! edge 5 1 2 = 9"
  using retained_graph_create_spec [of 3 "[7, 8, 9]" 5 5 "\<lambda>_. True" 1 2 2]
  by (auto simp: table_size_def)

end
