(* ===== verification/TemplateCodec.thy ===== *)
theory TemplateCodec
  imports Framing CapturePayload RetainedGraph
begin

text \<open>
  The template file (\<^verbatim>\<open>fpc_recovered.c\<close>: \<^verbatim>\<open>fpc_collection_serialize_default\<close>,
  \<^verbatim>\<open>fpc_collection_load_default\<close>, \<^verbatim>\<open>fpc_template_serialize_default\<close>,
  \<^verbatim>\<open>fpc_template_load_default\<close>): the version, the total size, a metadata block, the graph
  block, the collection header, one block per capture and the age block. A collection is the list of
  its captures, so its count is the length of the list.
\<close>

unbundle bit_operations_syntax

record fpc_loaded_collection =
  lc_captures :: "fpc_capture_payload_view list"
  lc_capacity :: u32

record fpc_loaded_template =
  lt_graph :: fpc_retained_graph
  lt_collection :: fpc_loaded_collection
  lt_metadata :: u16

text \<open>\<open>data + offset\<close> with \<open>size - offset\<close> bytes behind it; past the end it would wrap around.\<close>

definition suffix_at :: "u8 list \<Rightarrow> nat \<Rightarrow> u8 list option" where
  "suffix_at data offset = (if offset \<le> length data then Some (drop offset data) else None)"

definition sizeof_loaded_capture :: nat where
  "sizeof_loaded_capture = 80"

subsection \<open>Captures\<close>

fun load_captures ::
    "(nat \<Rightarrow> bool) \<Rightarrow> u8 list \<Rightarrow> nat \<Rightarrow> nat \<Rightarrow> nat
       \<Rightarrow> (status + fpc_capture_payload_view list \<times> nat) option" where
  "load_captures al data offset i 0 = Some (Inr ([], offset))"
| "load_captures al data offset i (Suc n) =
     do { rest \<leftarrow> suffix_at data offset;
          b \<leftarrow> checked_block rest (1540162048 + of_nat i);
          case b of
            Inl e \<Rightarrow> Some (Inl e)
          | Inr len \<Rightarrow>
              do { payload \<leftarrow> rd_bytes data (offset + 8) (len - 12);
                   c \<leftarrow> fpc_capture_load_payload al payload 0x0CE1;
                   case c of
                     Inl e \<Rightarrow> Some (Inl e)
                   | Inr v \<Rightarrow>
                       do { r \<leftarrow> load_captures al data (offset + len) (i + 1) n;
                            Some (case r of Inl e \<Rightarrow> Inl e | Inr (vs, end) \<Rightarrow> Inr (v # vs, end)) } } }"

definition fpc_collection_load_default ::
    "(nat \<Rightarrow> bool) \<Rightarrow> u8 list \<Rightarrow> (status + fpc_loaded_collection \<times> nat) option" where
  "fpc_collection_load_default al data =
     do { b \<leftarrow> checked_block data 1540161792;
          case b of
            Inl _ \<Rightarrow> Some (Inl 140)
          | Inr len \<Rightarrow>
              if len \<noteq> 24 then Some (Inl 140) else
              do { flags \<leftarrow> le32 data 8;
                   if flags \<noteq> 0x0CE1 then Some (Inl 140) else
                   do { n \<leftarrow> le32 data 12;
                        capacity \<leftarrow> le32 data 16;
                        if n = 0 \<or> 80 < unat n \<or> capacity < n \<or> 65535 < unat capacity
                        then Some (Inl 140)
                        else if \<not> al (unat n * sizeof_loaded_capture) then Some (Inl 2)
                        else do { r \<leftarrow> load_captures al data 24 0 (unat n);
                                  Some (case r of
                                          Inl e \<Rightarrow> Inl e
                                        | Inr (vs, end) \<Rightarrow>
                                            Inr (\<lparr>lc_captures = vs, lc_capacity = capacity\<rparr>, end)) } } } }"

fun serialize_sizes ::
    "fpc_capture_payload_view list \<Rightarrow> nat \<Rightarrow> (status + nat list \<times> nat) option" where
  "serialize_sizes [] total_size = Some (Inr ([], total_size))"
| "serialize_sizes (v # vs) total_size =
     do { r \<leftarrow> fpc_capture_payload v 0x0CE1 None;
          case r of
            Inl _ \<Rightarrow> Some (Inl (- 1))
          | Inr (sz, _) \<Rightarrow>
              if 4294967295 - 12 < sz \<or> SIZE_MAX - sz - 12 < total_size then Some (Inl (- 1)) else
              do { s \<leftarrow> serialize_sizes vs (total_size + (sz + 12));
                   Some (case s of Inl e \<Rightarrow> Inl e | Inr (szs, t) \<Rightarrow> Inr (sz # szs, t)) } }"

text \<open>The second pass writes each payload into its place in the output and frames it.\<close>

fun write_captures ::
    "fpc_capture_payload_view list \<Rightarrow> nat list \<Rightarrow> nat \<Rightarrow> nat \<Rightarrow> u8 list \<Rightarrow> (status + u8 list) option" where
  "write_captures [] szs i offset buf = Some (Inr [])"
| "write_captures (v # vs) szs i offset buf =
     do { r \<leftarrow> fpc_capture_payload v 0x0CE1 (Some (take (hd szs) (drop (offset + 8) buf)));
          case r of
            Inr (sz, Some payload) \<Rightarrow>
              do { s \<leftarrow> write_captures vs (tl szs) (i + 1) (offset + sz + 12) buf;
                   Some (case s of
                           Inl e \<Rightarrow> Inl e
                         | Inr rest \<Rightarrow> Inr (frame (1540162048 + of_nat i) payload @ rest)) }
          | _ \<Rightarrow> Some (Inl (- 1)) }"

definition collection_header :: "nat \<Rightarrow> u32 \<Rightarrow> u8 list" where
  "collection_header n capacity =
     frame 1540161792 (store_le32 0x0CE1 @ store_le32 (of_nat n) @ store_le32 capacity)"

definition fpc_collection_serialize_default ::
    "fpc_capture_payload_view list \<Rightarrow> u32 \<Rightarrow> u8 list option
       \<Rightarrow> (status + nat \<times> u8 list option) option" where
  "fpc_collection_serialize_default captures capture_capacity output =
     (if 80 < length captures \<or> unat capture_capacity < length captures then Some (Inl (- 1)) else
      do { s \<leftarrow> serialize_sizes captures 24;
           case s of
             Inl e \<Rightarrow> Some (Inl e)
           | Inr (szs, total_size) \<Rightarrow>
               (case output of
                  None \<Rightarrow> Some (Inr (total_size, None))
                | Some buf \<Rightarrow>
                    if length buf < total_size then Some (Inl (- 1)) else
                    do { r \<leftarrow> write_captures captures szs 0 24 buf;
                         Some (case r of
                                 Inl e \<Rightarrow> Inl e
                               | Inr bytes \<Rightarrow>
                                   write_out total_size
                                     (collection_header (length captures) capture_capacity @ bytes)
                                     output) }) })"

subsection \<open>The template\<close>

definition fpc_template_load_default ::
    "(nat \<Rightarrow> bool) \<Rightarrow> u8 list \<Rightarrow> u8 \<Rightarrow> (status + fpc_loaded_template) option" where
  "fpc_template_load_default al data retention_capacity =
     (if retention_capacity = 0 then Some (Inl 140) else
      do { v \<leftarrow> fpc_template_validate data;
           case v of Inl _ \<Rightarrow> Some (Inl 140) | Inr (version, _) \<Rightarrow>
           if version \<noteq> 0x001A0000 then Some (Inl 140) else
      do { rest \<leftarrow> suffix_at data 8;
           b \<leftarrow> checked_block rest 305398016;
           case b of Inl _ \<Rightarrow> Some (Inl 140) | Inr len \<Rightarrow>
           if len \<noteq> 16 then Some (Inl 140) else
      do { metadata \<leftarrow> rd16 data 16;
           n \<leftarrow> rd16 data 18;
           if n = 0 then Some (Inl 140) else
      do { rest \<leftarrow> suffix_at data 24;
           b \<leftarrow> checked_block rest 305398528;
           case b of Inl _ \<Rightarrow> Some (Inl 140) | Inr len \<Rightarrow>
      do { payload \<leftarrow> rd_bytes data 32 (len - 12);
           g \<leftarrow> fpc_retained_graph_load_payload al payload;
           case g of Inl e \<Rightarrow> Some (Inl (if e = 2 then 2 else 140)) | Inr (graph, pending) \<Rightarrow>
           if pending \<noteq> 0 \<or> rg_used graph \<noteq> n then Some (Inl 140) else
      do { rest \<leftarrow> suffix_at data (24 + len);
           c \<leftarrow> fpc_collection_load_default al rest;
           case c of Inl e \<Rightarrow> Some (Inl e) | Inr (collection, consumed) \<Rightarrow>
           let offset = 24 + len + consumed in
           if length (lc_captures collection) \<noteq> unat n then Some (Inl 140) else
      do { rest \<leftarrow> suffix_at data offset;
           b \<leftarrow> checked_block rest 305398784;
           case b of Inl _ \<Rightarrow> Some (Inl 140) | Inr len' \<Rightarrow>
           if offset + len' \<noteq> length data then Some (Inl 140) else
      do { payload \<leftarrow> rd_bytes data (offset + 8) (len' - 12);
           a \<leftarrow> fpc_retained_graph_load_ages al graph payload retention_capacity;
           case a of
             Inl e \<Rightarrow> Some (Inl (if e = 2 then 2 else 140))
           | Inr graph' \<Rightarrow>
               Some (Inr \<lparr>lt_graph = graph', lt_collection = collection, lt_metadata = metadata\<rparr>)
      } } } } } } } })"

definition fpc_template_serialize_default ::
    "fpc_retained_graph \<Rightarrow> fpc_capture_payload_view list \<Rightarrow> u32 \<Rightarrow> u16 \<Rightarrow> u8 \<Rightarrow> u8 list option
       \<Rightarrow> (status + nat \<times> u8 list option) option" where
  "fpc_template_serialize_default graph captures capture_capacity metadata retention_capacity output =
     (let n = length captures; r = unat retention_capacity in
      if n = 0 \<or> unat (rg_used graph) \<noteq> n \<or> r = 0 \<or> rg_ages graph = None \<or> rg_age_count graph < r
      then Some (Inl (- 1)) else
      do { gs \<leftarrow> fpc_retained_graph_payload graph 0 None;
           cs \<leftarrow> fpc_collection_serialize_default captures capture_capacity None;
           case (gs, cs) of
             (Inr (graph_size, _), Inr (collection_size, _)) \<Rightarrow>
               (let total_size = 24 + 12 + graph_size + collection_size + 12 + 2 * r in
                if INT32_MAX < total_size then Some (Inl (- 1)) else
                case output of
                  None \<Rightarrow> Some (Inr (total_size, None))
                | Some buf \<Rightarrow>
                    if length buf < total_size then Some (Inl (- 1)) else
                    do { g \<leftarrow> fpc_retained_graph_payload graph 0 (Some (take graph_size (drop 32 buf)));
                         c \<leftarrow> fpc_collection_serialize_default captures capture_capacity
                                (Some (take collection_size (drop (36 + graph_size) buf)));
                         ages \<leftarrow> rd_prefix (rg_ages graph) r;
                         case (g, c) of
                           (Inr (_, Some graph_payload), Inr (_, Some collection)) \<Rightarrow>
                             Some (write_out total_size
                               ([26, 0, 0, 0] @ store_le32 (of_nat total_size)
                                 @ frame 305398016 (st16 metadata @ st16 (of_nat n))
                                 @ frame 305398528 graph_payload @ collection
                                 @ frame 305398784 (concat (map st16 ages))) output)
                         | _ \<Rightarrow> Some (Inl (- 1)) })
           | _ \<Rightarrow> Some (Inl (- 1)) })"

subsection \<open>Loading stays inside the buffer\<close>

lemma checked_block_length:
  "checked_block data tag = Some (Inr n) \<Longrightarrow> 12 \<le> n \<and> n \<le> length data"
  by (auto simp: checked_block_iff)

lemma load_captures_safe:
  "offset \<le> length data \<Longrightarrow>
    (\<exists>e. load_captures al data offset i n = Some (Inl e))
    \<or> (\<exists>vs end. load_captures al data offset i n = Some (Inr (vs, end))
         \<and> length vs = n \<and> end \<le> length data)"
proof (induction n arbitrary: offset i)
  case 0
  then show ?case by simp
next
  case (Suc n)
  define rest where "rest = drop offset data"
  obtain b where b: "checked_block rest (1540162048 + of_nat i) = Some b"
    using checked_block_safe by blast
  show ?case
  proof (cases b)
    case (Inl e)
    with b Suc.prems show ?thesis by (simp add: suffix_at_def rest_def)
  next
    case (Inr len)
    then have "12 \<le> len \<and> len \<le> length rest"
      using b by (intro checked_block_length) simp
    then have len: "12 \<le> len" "offset + len \<le> length data"
      using Suc.prems by (auto simp: rest_def)
    obtain c where c: "fpc_capture_load_payload al (take (len - 12) (drop (offset + 8) data)) 0x0CE1 = Some c"
      using fpc_capture_load_payload_safe by blast
    show ?thesis
      using Suc.IH [OF len(2), of "i + 1"] b c len Inr Suc.prems
      by (cases c) (auto simp: suffix_at_def rest_def rd_bytes_def)
  qed
qed

lemma fpc_collection_load_default_safe:
  "(\<exists>e. fpc_collection_load_default al data = Some (Inl e))
   \<or> (\<exists>c n. fpc_collection_load_default al data = Some (Inr (c, n)) \<and> n \<le> length data)"
proof -
  obtain b where b: "checked_block data 1540161792 = Some b" using checked_block_safe by blast
  show ?thesis
  proof (cases "(\<exists>e. b = Inl e) \<or> (\<exists>n. b = Inr n \<and> n \<noteq> 24)")
    case True
    with b show ?thesis by (auto simp: fpc_collection_load_default_def)
  next
    case False
    then have 24: "b = Inr 24" by (cases b) auto
    then have len: "24 \<le> length data" using checked_block_length b by blast
    obtain w1 w2 w3 where w: "le32 data 8 = Some w1" "le32 data 12 = Some w2" "le32 data 16 = Some w3"
      using le32_total [of 8 data] le32_total [of 12 data] le32_total [of 16 data] len by auto
    show ?thesis
      using load_captures_safe [OF len, of al 0 "unat w2"] b 24 w
      by (auto simp: fpc_collection_load_default_def)
  qed
qed

definition loaded_template_ok :: "fpc_loaded_template \<Rightarrow> u8 \<Rightarrow> bool" where
  "loaded_template_ok t retention_capacity \<longleftrightarrow>
     graph_wf (lt_graph t) \<and> rg_used (lt_graph t) \<noteq> 0 \<and> unat (rg_used (lt_graph t)) \<le> 80
     \<and> length (lc_captures (lt_collection t)) = unat (rg_used (lt_graph t))
     \<and> (\<exists>ages. rg_ages (lt_graph t) = Some ages \<and> length ages = unat retention_capacity)"

lemma block_at_safe:
  assumes "offset \<le> length data"
  shows "\<exists>b. checked_block (drop offset data) tag = Some b \<and>
    (\<forall>n. b = Inr n \<longrightarrow> 12 \<le> n \<and> offset + n \<le> length data)"
proof -
  obtain b where "checked_block (drop offset data) tag = Some b" using checked_block_safe by blast
  with checked_block_length [of "drop offset data" tag] assms show ?thesis by fastforce
qed

lemma template_tail_safe:
  assumes "offset \<le> length data" "graph_wf graph"
  shows "\<exists>r. do { rest \<leftarrow> suffix_at data offset;
           b \<leftarrow> checked_block rest 305398784;
           case b of Inl _ \<Rightarrow> Some (Inl 140) | Inr len' \<Rightarrow>
           if offset + len' \<noteq> length data then Some (Inl 140) else
      do { payload \<leftarrow> rd_bytes data (offset + 8) (len' - 12);
           a \<leftarrow> fpc_retained_graph_load_ages al graph payload retention_capacity;
           case a of
             Inl e \<Rightarrow> Some (Inl (if e = 2 then 2 else 140))
           | Inr graph' \<Rightarrow>
               Some (Inr \<lparr>lt_graph = graph', lt_collection = collection, lt_metadata = metadata\<rparr>) } }
     = Some r"
proof -
  obtain b where b: "checked_block (drop offset data) 305398784 = Some b"
    and n: "\<And>n. b = Inr n \<Longrightarrow> 12 \<le> n \<and> offset + n \<le> length data"
    using block_at_safe [OF assms(1)] by blast
  show ?thesis
  proof (cases b)
    case (Inl e)
    with b assms show ?thesis by (simp add: suffix_at_def)
  next
    case (Inr len)
    with n have "rd_bytes data (offset + 8) (len - 12) = Some (take (len - 12) (drop (offset + 8) data))"
      by (fastforce intro: rd_bytes_in)
    moreover obtain a where
      "fpc_retained_graph_load_ages al graph (take (len - 12) (drop (offset + 8) data)) retention_capacity = Some a"
      using load_ages_safe by blast
    ultimately show ?thesis using b Inr assms by (cases a) (simp_all add: suffix_at_def)
  qed
qed

lemma template_load_safe: "fpc_template_load_default al data retention_capacity \<noteq> None"
proof -
  obtain v where v: "fpc_template_validate data = Some v" using fpc_template_validate_safe by blast
  consider "\<exists>e. v = Inl e" | version n where "v = Inr (version, n)"
    by (cases v) auto
  then show ?thesis
  proof cases
    case 1
    with v show ?thesis by (auto simp: fpc_template_load_default_def)
  next
    case 2
    then have len: "8 \<le> length data" using v by (auto simp: fpc_template_validate_def not_less split: if_splits)
    obtain b where b: "checked_block (drop 8 data) 305398016 = Some b"
      and bn: "\<And>n. b = Inr n \<Longrightarrow> 12 \<le> n \<and> 8 + n \<le> length data"
      using block_at_safe [OF len] by blast
    show ?thesis
    proof (cases "b = Inr 16")
      case False
      with b v 2 len show ?thesis
        by (cases b) (auto simp: fpc_template_load_default_def suffix_at_def)
    next
      case True
      then have len24: "24 \<le> length data" using bn by simp
      obtain w1 w2 where w: "rd16 data 16 = Some w1" "rd16 data 18 = Some w2"
        using rd16_total [of 16 data] rd16_total [of 18 data] len24 by auto
      obtain b2 where b2: "checked_block (drop 24 data) 305398528 = Some b2"
        and b2n: "\<And>n. b2 = Inr n \<Longrightarrow> 12 \<le> n \<and> 24 + n \<le> length data"
        using block_at_safe [OF len24] by blast
      show ?thesis
      proof (cases b2)
        case (Inl e)
        with b v 2 len True w b2 len24 show ?thesis
          by (auto simp: fpc_template_load_default_def suffix_at_def)
      next
        case (Inr m)
        with b2n have m: "12 \<le> m" "24 + m \<le> length data" by auto
        define payload where "payload = take (m - 12) (drop 32 data)"
        have pl: "rd_bytes data 32 (m - 12) = Some payload"
          using m unfolding payload_def by (intro rd_bytes_in) linarith
        obtain g where g: "fpc_retained_graph_load_payload al payload = Some g"
          using load_payload_safe by blast
        obtain c where c: "fpc_collection_load_default al (drop (24 + m) data) = Some c"
          and cn: "\<And>col n. c = Inr (col, n) \<Longrightarrow> 24 + m + n \<le> length data"
          using fpc_collection_load_default_safe [of al "drop (24 + m) data"] m(2) by fastforce
        show ?thesis
        proof (cases "\<exists>graph pending col used. g = Inr (graph, pending) \<and> c = Inr (col, used)")
          case False
          with b v 2 len True w b2 len24 Inr pl g c m show ?thesis
            by (cases g; cases c) (auto simp: fpc_template_load_default_def suffix_at_def)
        next
          case ok: True
          then obtain graph pending col used where gc: "g = Inr (graph, pending)" "c = Inr (col, used)"
            by blast
          then have "24 + m + used \<le> length data" "graph_wf graph"
            using cn load_payload_wf g by auto
          from template_tail_safe [OF this, of al retention_capacity col w1]
          show ?thesis
            using b v 2 len True w b2 len24 Inr pl g c m gc
            by (auto simp: fpc_template_load_default_def suffix_at_def [of data 8] suffix_at_def [of data 24]
                suffix_at_def [of data "24 + m"] Let_def)
        qed
      qed
    qed
  qed
qed

lemma template_load_ok:
  assumes "fpc_template_load_default al data retention_capacity = Some (Inr t)"
  shows "loaded_template_ok t retention_capacity"
proof -
  from assms obtain payload graph n rest m c used p2 graph' where
    g: "fpc_retained_graph_load_payload al payload = Some (Inr (graph, 0))" "rg_used graph = n"
    and c: "length (lc_captures c) = unat n"
    and a: "fpc_retained_graph_load_ages al graph p2 retention_capacity = Some (Inr graph')"
    and t: "t = \<lparr>lt_graph = graph', lt_collection = c, lt_metadata = m\<rparr>"
    unfolding fpc_template_load_default_def
    by (auto simp: Let_def split: if_splits Option.bind_splits sum.splits prod.splits)
  have "rg_used graph' = n" and "\<exists>ages. rg_ages graph' = Some ages \<and> length ages = unat retention_capacity"
    using a g(2) by (auto simp: fpc_retained_graph_load_ages_def Let_def
        split: if_splits Option.bind_splits dest: half.seq_length)
  with load_payload_wf [OF g(1)] load_ages_wf [OF _ a] c g(2) show ?thesis
    by (auto simp: loaded_template_ok_def t)
qed

text \<open>(C1) Loading a template is safe on every byte string: no read leaves the buffer, and a template
  that is accepted has a well-formed graph whose number of captures in use is between one and eighty
  and equals the number of captures loaded, with one age per retention slot.\<close>

theorem template_load_memory_safe:
  "case fpc_template_load_default al data retention_capacity of
     None \<Rightarrow> False
   | Some (Inl e) \<Rightarrow> True
   | Some (Inr t) \<Rightarrow> loaded_template_ok t retention_capacity"
  using template_load_safe [of al data retention_capacity] template_load_ok [of al data retention_capacity]
  by (auto split: option.splits sum.splits)

subsection \<open>Round trip\<close>

fun capture_blocks :: "nat \<Rightarrow> fpc_capture_payload_view list \<Rightarrow> (u32 \<times> u8 list) list" where
  "capture_blocks i [] = []"
| "capture_blocks i (v # vs) = (1540162048 + of_nat i, view_bytes v) # capture_blocks (i + 1) vs"

definition storable :: "fpc_capture_payload_view \<Rightarrow> bool" where
  "storable v \<longleftrightarrow> view_ok v 0x0CE1 \<and> length (view_bytes v) + 12 < 2 ^ 32"

lemma default_flags: "has_flag 0x0CE1 0x400"
  by (simp add: has_flag_def)

lemma frames_Cons: "frames ((t, p) # bs) = frame t p @ frames bs"
  by (simp add: frames_def)

lemma frames_append: "frames (xs @ ys) = frames xs @ frames ys"
  by (simp add: frames_def)

lemma frames_empty [simp]: "frames [] = []"
  by simp

lemma frame_checked:
  "length p + 12 < 2 ^ 32 \<Longrightarrow> checked_block (frame t p @ rest) t = Some (Inr (length p + 12))"
  by (auto simp: checked_block_iff)

lemma frame_payload:
  "off = length pre + 8 \<Longrightarrow> n = length p \<Longrightarrow> rd_bytes (pre @ frame t p @ rest) off n = Some p"
  using rd_bytes_append [of off "pre @ store_le32 t @ store_le32 (of_nat (length p + 12))" n p]
  by (simp add: frame_def Let_def)

lemma suffix_append: "off = length pre \<Longrightarrow> suffix_at (pre @ rest) off = Some rest"
  by (simp add: suffix_at_def)

lemma load_captures_blocks:
  "list_all storable vs \<Longrightarrow> (\<And>n. al n) \<Longrightarrow> off = length pre \<Longrightarrow> n = length vs \<Longrightarrow>
   load_captures al (pre @ frames (capture_blocks i vs) @ post) off i n
     = Some (Inr (map loaded_view vs, off + length (frames (capture_blocks i vs))))"
proof (induction vs arbitrary: pre off i n)
  case Nil
  then show ?case by (simp add: frames_def)
next
  case (Cons v vs)
  let ?f = "frame (1540162048 + of_nat i) (view_bytes v)"
  have v: "view_ok v 0x0CE1" "length (view_bytes v) + 12 < 2 ^ 32" using Cons.prems by (simp_all add: storable_def)
  have "load_captures al ((pre @ ?f) @ frames (capture_blocks (i + 1) vs) @ post)
      (off + (length (view_bytes v) + 12)) (i + 1) (length vs)
    = Some (Inr (map loaded_view vs, off + (length (view_bytes v) + 12) + length (frames (capture_blocks (i + 1) vs))))"
    using Cons.prems by (intro Cons.IH) simp_all
  moreover have "fpc_capture_load_payload al (view_bytes v) 0x0CE1 = Some (Inr (loaded_view v))"
    using v(1) default_flags Cons.prems(2) by (rule view_bytes_load)
  moreover note frame_checked [OF v(2), of "1540162048 + of_nat i" "frames (capture_blocks (i + 1) vs) @ post"]
  moreover note frame_payload [of "off + 8" pre "length (view_bytes v)" "view_bytes v"
      "1540162048 + of_nat i" "frames (capture_blocks (i + 1) vs) @ post"]
  ultimately show ?case
    using Cons.prems(3,4) by (simp add: frames_Cons suffix_append)
qed

lemma serialize_sizes_ok:
  "list_all storable vs \<Longrightarrow> acc + length (frames (capture_blocks i vs)) \<le> SIZE_MAX \<Longrightarrow>
   serialize_sizes vs acc
     = Some (Inr (map (length \<circ> view_bytes) vs, acc + length (frames (capture_blocks i vs))))"
proof (induction vs arbitrary: acc i)
  case Nil
  then show ?case by (simp add: frames_def)
next
  case (Cons v vs)
  then have v: "view_ok v 0x0CE1" "length (view_bytes v) + 12 < 2 ^ 32" by (simp_all add: storable_def)
  have "serialize_sizes vs (acc + (length (view_bytes v) + 12)) = Some (Inr (map (length \<circ> view_bytes) vs,
      acc + (length (view_bytes v) + 12) + length (frames (capture_blocks (i + 1) vs))))"
    using Cons.prems by (intro Cons.IH) (simp_all add: frames_Cons)
  then show ?case
    using capture_payload_writes(1) [OF v(1) default_flags] v(2) Cons.prems
    by (simp add: frames_Cons)
qed

lemma write_captures_ok:
  "list_all storable vs \<Longrightarrow> off + length (frames (capture_blocks i vs)) \<le> length buf \<Longrightarrow>
   write_captures vs (map (length \<circ> view_bytes) vs) i off buf
     = Some (Inr (frames (capture_blocks i vs)))"
proof (induction vs arbitrary: off i)
  case Nil
  then show ?case by (simp add: frames_def)
next
  case (Cons v vs)
  then have v: "view_ok v 0x0CE1" by (simp add: storable_def)
  have "write_captures vs (map (length \<circ> view_bytes) vs) (i + 1) (off + length (view_bytes v) + 12) buf
      = Some (Inr (frames (capture_blocks (i + 1) vs)))"
    using Cons.prems by (intro Cons.IH) (simp_all add: frames_Cons)
  then show ?case
    using capture_payload_writes(2) [OF v default_flags, of "take (length (view_bytes v)) (drop (off + 8) buf)"]
      Cons.prems by (simp add: frames_Cons comp_def)
qed

definition collection_bytes :: "fpc_capture_payload_view list \<Rightarrow> u32 \<Rightarrow> u8 list" where
  "collection_bytes vs capacity = collection_header (length vs) capacity @ frames (capture_blocks 0 vs)"

definition collection_storable :: "fpc_capture_payload_view list \<Rightarrow> u32 \<Rightarrow> bool" where
  "collection_storable vs capacity \<longleftrightarrow>
     vs \<noteq> [] \<and> length vs \<le> 80 \<and> length vs \<le> unat capacity \<and> unat capacity \<le> 65535
     \<and> list_all storable vs \<and> length (collection_bytes vs capacity) \<le> SIZE_MAX"

lemma length_collection_bytes:
  "length (collection_bytes vs capacity) = 24 + length (frames (capture_blocks 0 vs))"
  by (simp add: collection_bytes_def collection_header_def)

lemma collection_writes:
  assumes "collection_storable vs capacity"
  shows "fpc_collection_serialize_default vs capacity None
      = Some (Inr (length (collection_bytes vs capacity), None))"
    and "length buf = length (collection_bytes vs capacity) \<Longrightarrow>
      fpc_collection_serialize_default vs capacity (Some buf)
        = Some (Inr (length (collection_bytes vs capacity), Some (collection_bytes vs capacity)))"
proof -
  have s: "serialize_sizes vs 24 = Some (Inr (map (length \<circ> view_bytes) vs, length (collection_bytes vs capacity)))"
    using assms serialize_sizes_ok [of vs 24 0]
    by (simp add: collection_storable_def length_collection_bytes)
  show "fpc_collection_serialize_default vs capacity None
      = Some (Inr (length (collection_bytes vs capacity), None))"
    using assms s by (simp add: fpc_collection_serialize_default_def collection_storable_def)
  assume buf: "length buf = length (collection_bytes vs capacity)"
  then have "write_captures vs (map (length \<circ> view_bytes) vs) 0 24 buf
      = Some (Inr (frames (capture_blocks 0 vs)))"
    using assms by (intro write_captures_ok) (simp_all add: collection_storable_def length_collection_bytes)
  then show "fpc_collection_serialize_default vs capacity (Some buf)
      = Some (Inr (length (collection_bytes vs capacity), Some (collection_bytes vs capacity)))"
    using assms s buf
    by (simp add: fpc_collection_serialize_default_def collection_storable_def flip: collection_bytes_def)
qed

lemma collection_load:
  assumes "collection_storable vs capacity" "\<And>n. al n"
  shows "fpc_collection_load_default al (collection_bytes vs capacity @ post)
    = Some (Inr (\<lparr>lc_captures = map loaded_view vs, lc_capacity = capacity\<rparr>,
                 length (collection_bytes vs capacity)))"
proof -
  let ?n = "of_nat (length vs) :: u32"
  let ?p = "store_le32 0x0CE1 @ store_le32 ?n @ store_le32 capacity"
  define data where "data = collection_bytes vs capacity @ post"
  define tail where "tail = frames (capture_blocks 0 vs) @ post"
  have data: "data = frame 1540161792 ?p @ tail"
    by (simp add: data_def tail_def collection_bytes_def collection_header_def)
  have block: "checked_block data 1540161792 = Some (Inr 24)"
    using frame_checked [of ?p 1540161792 tail] by (simp add: data)
  define pre where "pre = store_le32 1540161792 @ store_le32 (of_nat (length ?p + 12))"
  define post' where "post' = store_le32 (fpc_crc32 (pre @ ?p)) @ tail"
  have d: "data = pre @ ?p @ post'" "length pre = 8"
    by (simp_all add: data frame_def Let_def pre_def post'_def)
  have words: "le32 data 8 = Some 0x0CE1" "le32 data 12 = Some ?n" "le32 data 16 = Some capacity"
    unfolding d(1)
    using le32_at [of 8 pre "0x0CE1" "store_le32 ?n @ store_le32 capacity @ post'"]
      le32_at [of 12 "pre @ store_le32 0x0CE1" ?n "store_le32 capacity @ post'"]
      le32_at [of 16 "pre @ store_le32 0x0CE1 @ store_le32 ?n" capacity post'] d(2)
    by simp_all
  have vs: "0 < length vs" "length vs \<le> 80" "length vs \<le> unat capacity" "unat capacity \<le> 65535"
    "list_all storable vs"
    using assms(1) by (simp_all add: collection_storable_def)
  have n: "unat ?n = length vs" using vs(2) by (simp add: unat_of_nat)
  have "?n \<noteq> 0" using vs(1) n by (metis unat_0 less_irrefl)
  moreover have "\<not> capacity < ?n" using vs(3) n by (simp add: word_less_nat_alt)
  ultimately have accept: "\<not> (?n = 0 \<or> 80 < unat ?n \<or> capacity < ?n \<or> 65535 < unat capacity)"
    using vs n by simp
  have "load_captures al (frame 1540161792 ?p @ frames (capture_blocks 0 vs) @ post) 24 0 (length vs)
      = Some (Inr (map loaded_view vs, 24 + length (frames (capture_blocks 0 vs))))"
    using vs(5) assms(2) by (rule load_captures_blocks) simp_all
  then have caps: "load_captures al data 24 0 (unat ?n)
      = Some (Inr (map loaded_view vs, length (collection_bytes vs capacity)))"
    by (simp add: data tail_def n length_collection_bytes)
  show ?thesis
    unfolding data_def [symmetric] fpc_collection_load_default_def
    using block words accept caps assms(2) by simp
qed

definition template_bytes ::
    "fpc_retained_graph \<Rightarrow> fpc_capture_payload_view list \<Rightarrow> u32 \<Rightarrow> u16 \<Rightarrow> u8 list" where
  "template_bytes g vs capacity metadata =
     (let blocks1 = [(305398016, st16 metadata @ st16 (rg_used g)), (305398528, graph_bytes g 0)];
          blocks2 = [(305398784, concat (map st16 (arr (rg_ages g))))];
          body = frames blocks1 @ collection_bytes vs capacity @ frames blocks2
      in [26, 0, 0, 0] @ store_le32 (of_nat (8 + length body)) @ body)"

definition template_storable ::
    "fpc_retained_graph \<Rightarrow> fpc_capture_payload_view list \<Rightarrow> u32 \<Rightarrow> u8 \<Rightarrow> bool" where
  "template_storable g vs capacity retention \<longleftrightarrow>
     graph_wf g \<and> rg_score_count g = table_size (unat (rg_capacity g))
     \<and> unat (rg_used g) = length vs \<and> collection_storable vs capacity
     \<and> rg_age_count g = unat retention \<and> retention \<noteq> 0 \<and> rg_ages g \<noteq> None
     \<and> length (template_bytes g vs capacity 0) \<le> INT32_MAX"

lemma collection_bytes_frames:
  "\<exists>bs. collection_bytes vs capacity = frames bs"
  by (intro exI [of _ "(1540161792, store_le32 0x0CE1 @ store_le32 (of_nat (length vs)) @ store_le32 capacity)
      # capture_blocks 0 vs"]) (simp add: collection_bytes_def collection_header_def frames_Cons)

lemma template_storableE:
  assumes "template_storable g vs capacity retention"
  obtains ages where "graph_wf g" "rg_score_count g = table_size (unat (rg_capacity g))"
    "unat (rg_used g) = length vs" "rg_used g = of_nat (length vs)" "rg_used g \<noteq> 0"
    "unat (rg_used g) \<le> 80" "0 < length vs"
    "collection_storable vs capacity" "rg_ages g = Some ages" "length ages = unat retention"
    "rg_age_count g = unat retention" "retention \<noteq> 0" "0 < unat retention"
proof -
  from assms obtain ages where "rg_ages g = Some ages" "length ages = unat retention"
    by (auto simp: template_storable_def graph_wf_def)
  moreover have "rg_used g = of_nat (length vs)"
  proof -
    have u: "length vs = unat (rg_used g)" using assms by (simp add: template_storable_def)
    show ?thesis unfolding u by simp
  qed
  moreover have "0 < length vs" "length vs \<le> 80"
    using assms by (auto simp: template_storable_def collection_storable_def)
  ultimately show thesis
    using assms by (intro that) (auto simp: template_storable_def unat_gt_0)
qed

lemma length_template_bytes:
  assumes "template_storable g vs capacity retention"
  shows "length (template_bytes g vs capacity metadata)
    = 24 + 12 + length (graph_bytes g 0) + length (collection_bytes vs capacity) + 12 + 2 * unat retention"
proof -
  obtain ages where "rg_ages g = Some ages" "length ages = unat retention"
    using assms by (rule template_storableE)
  then show ?thesis
    using half.length_concat [of ages] by (simp add: template_bytes_def Let_def frames_def)
qed

lemma template_bytes_valid:
  assumes "template_storable g vs capacity retention"
  shows "\<exists>n. fpc_template_validate (template_bytes g vs capacity metadata) = Some (Inr (0x001A0000, n))"
proof -
  obtain bs where bs: "collection_bytes vs capacity = frames bs" using collection_bytes_frames by blast
  define blocks where "blocks = [(305398016, st16 metadata @ st16 (rg_used g)), (305398528, graph_bytes g 0)]
    @ bs @ [(305398784, concat (map st16 (arr (rg_ages g))))]"
  define data where "data = template_bytes g vs capacity metadata"
  have body: "data = [26, 0, 0, 0] @ store_le32 (of_nat (8 + length (frames blocks))) @ frames blocks"
    by (simp add: data_def template_bytes_def Let_def blocks_def bs frames_append frames_Cons)
  then have "length data = 8 + length (frames blocks)" by simp
  moreover have "length data \<le> INT32_MAX"
    using assms length_template_bytes [OF assms, of metadata] length_template_bytes [OF assms, of 0]
    by (simp add: template_storable_def data_def)
  moreover have "template_version 26 0 0 0 = 0x001A0000" by (simp add: template_version_def)
  ultimately show ?thesis
    using body template_validate_iff [of data "0x001A0000" "length blocks"]
    unfolding data_def [symmetric] by metis
qed

lemma template_writes:
  assumes "template_storable g vs capacity retention"
  shows "fpc_template_serialize_default g vs capacity metadata retention None
      = Some (Inr (length (template_bytes g vs capacity metadata), None))"
    and "length buf = length (template_bytes g vs capacity metadata) \<Longrightarrow>
      fpc_template_serialize_default g vs capacity metadata retention (Some buf)
      = Some (Inr (length buf, Some (template_bytes g vs capacity metadata)))"
proof -
  obtain ages where g: "graph_wf g" "unat (rg_used g) = length vs" "rg_used g = of_nat (length vs)"
    "0 < length vs" "collection_storable vs capacity" "rg_ages g = Some ages"
    "length ages = unat retention" "rg_age_count g = unat retention" "0 < unat retention"
    using assms by (rule template_storableE)
  note len = length_template_bytes [OF assms, of metadata]
  have max: "\<not> INT32_MAX < length (template_bytes g vs capacity metadata)"
    using assms len length_template_bytes [OF assms, of 0] by (simp add: template_storable_def)
  note q = graph_payload_writes(1) [OF g(1), of 0] collection_writes(1) [OF g(5)]
  show "fpc_template_serialize_default g vs capacity metadata retention None
      = Some (Inr (length (template_bytes g vs capacity metadata), None))"
    using g q max len by (simp add: fpc_template_serialize_default_def)
  assume buf: "length buf = length (template_bytes g vs capacity metadata)"
  have "fpc_retained_graph_payload g 0 (Some (take (length (graph_bytes g 0)) (drop 32 buf)))
      = Some (Inr (length (graph_bytes g 0), Some (graph_bytes g 0)))"
    using buf len by (intro graph_payload_writes(2) [OF g(1)]) simp
  moreover have "fpc_collection_serialize_default vs capacity
      (Some (take (length (collection_bytes vs capacity)) (drop (36 + length (graph_bytes g 0)) buf)))
      = Some (Inr (length (collection_bytes vs capacity), Some (collection_bytes vs capacity)))"
    using buf len by (intro collection_writes(2) [OF g(5)]) simp
  moreover have "rd_prefix (rg_ages g) (unat retention) = Some ages"
    using rd_prefix_arr [of "rg_ages g" "unat retention"] g by simp
  moreover have "[26, 0, 0, 0] @ store_le32 (of_nat (length (template_bytes g vs capacity metadata)))
        @ frame 305398016 (st16 metadata @ st16 (of_nat (length vs)))
        @ frame 305398528 (graph_bytes g 0) @ collection_bytes vs capacity
        @ frame 305398784 (concat (map st16 ages)) = template_bytes g vs capacity metadata"
    using g by (simp add: template_bytes_def Let_def frames_Cons)
  ultimately show "fpc_template_serialize_default g vs capacity metadata retention (Some buf)
      = Some (Inr (length buf, Some (template_bytes g vs capacity metadata)))"
    using g q max len buf by (simp add: fpc_template_serialize_default_def)
qed

lemma template_bytes_load:
  assumes t: "template_storable g vs capacity retention" and al: "\<And>n. al n"
  shows "fpc_template_load_default al (template_bytes g vs capacity metadata) retention
    = Some (Inr \<lparr>lt_graph = g, lt_collection = \<lparr>lc_captures = map loaded_view vs, lc_capacity = capacity\<rparr>,
                  lt_metadata = metadata\<rparr>)"
proof -
  obtain ages where g: "graph_wf g" "rg_score_count g = table_size (unat (rg_capacity g))"
    "unat (rg_used g) = length vs" "rg_used g \<noteq> 0" "unat (rg_used g) \<le> 80"
    "collection_storable vs capacity" "rg_ages g = Some ages"
    "length ages = unat retention" "rg_age_count g = unat retention" "retention \<noteq> 0" "0 < unat retention"
    using t by (rule template_storableE)
  define gb where "gb = graph_bytes g 0"
  define cb where "cb = collection_bytes vs capacity"
  define ab where "ab = concat (map st16 ages)"
  define f1 where "f1 = frame 305398016 (st16 metadata @ st16 (rg_used g))"
  define f2 where "f2 = frame 305398528 gb"
  define f3 where "f3 = frame 305398784 ab"
  define head where "head = [26, 0, 0, 0] @ store_le32 (of_nat (8 + length (f1 @ f2 @ cb @ f3)))"
  define data where "data = template_bytes g vs capacity metadata"
  have data: "data = head @ f1 @ f2 @ cb @ f3"
    using g(7) by (simp add: data_def template_bytes_def Let_def frames_Cons head_def f1_def f2_def f3_def
        gb_def cb_def ab_def)
  have ab: "length ab = 2 * unat retention" using half.length_concat [of ages] g(8) by (simp add: ab_def)
  have lens: "length head = 8" "length f1 = 16" "length f2 = length gb + 12" "length f3 = length ab + 12"
    by (simp_all add: head_def f1_def f2_def f3_def)
  have small: "length gb + 12 < 2 ^ 32" "length ab + 12 < 2 ^ 32"
    using t length_template_bytes [OF t, of 0] ab
    by (simp_all add: template_storable_def gb_def INT32_MAX_def)
  have b1: "checked_block (f1 @ f2 @ cb @ f3) 305398016 = Some (Inr 16)"
    using frame_checked [of "st16 metadata @ st16 (rg_used g)"] by (simp add: f1_def)
  have b2: "checked_block (f2 @ cb @ f3) 305398528 = Some (Inr (length gb + 12))"
    using frame_checked [OF small(1)] by (simp add: f2_def)
  have b3: "checked_block f3 305398784 = Some (Inr (length ab + 12))"
    using frame_checked [OF small(2), of _ "[]"] by (simp add: f3_def)
  have s: "suffix_at data 8 = Some (f1 @ f2 @ cb @ f3)" "suffix_at data 24 = Some (f2 @ cb @ f3)"
    "suffix_at data (24 + (length gb + 12)) = Some (cb @ f3)"
    "suffix_at data (24 + (length gb + 12) + length cb) = Some f3"
    by (simp_all add: suffix_at_def data lens)
  define pre where "pre = store_le32 (305398016 :: u32) @ store_le32 (16 :: u32)"
  obtain crc where f1: "f1 = pre @ st16 metadata @ st16 (rg_used g) @ crc"
    by (simp add: f1_def frame_def Let_def pre_def)
  have m: "rd16 data 16 = Some metadata" "rd16 data 18 = Some (rg_used g)"
    unfolding data f1
    using st16_at [of 16 "head @ pre" metadata "st16 (rg_used g) @ crc @ f2 @ cb @ f3"]
      st16_at [of 18 "head @ pre @ st16 metadata" "rg_used g" "crc @ f2 @ cb @ f3"] lens
    by (simp_all add: pre_def)
  have p2: "rd_bytes data 32 (length gb) = Some gb"
    using frame_payload [of 32 "head @ f1" "length gb" gb 305398528 "cb @ f3"] lens
    by (simp add: data f2_def)
  have p3: "rd_bytes data (24 + (length gb + 12) + length cb + 8) (length ab) = Some ab"
    using frame_payload [of "24 + (length gb + 12) + length cb + 8" "head @ f1 @ f2 @ cb" "length ab" ab
        305398784 "[]"] lens
    by (simp add: data f3_def)
  have load_g: "fpc_retained_graph_load_payload al gb = Some (Inr (without_ages g, 0))"
    unfolding gb_def using g(1,2,4,5) _ al by (rule graph_bytes_load) simp
  have load_c: "fpc_collection_load_default al (cb @ f3)
      = Some (Inr (\<lparr>lc_captures = map loaded_view vs, lc_capacity = capacity\<rparr>, length cb))"
    unfolding cb_def using g(6) al by (rule collection_load)
  have "(without_ages g)\<lparr>rg_ages := Some ages, rg_age_count := unat retention\<rparr> = g"
    using g by (simp add: without_ages_def)
  then have load_a: "fpc_retained_graph_load_ages al (without_ages g) ab retention = Some (Inr g)"
    unfolding ab_def using ages_load [of ages retention al "without_ages g", OF g(8,10) al] by simp
  have used: "rg_used (without_ages g) = rg_used g" by (simp add: without_ages_def)
  obtain n where v: "fpc_template_validate data = Some (Inr (0x001A0000, n))"
    using template_bytes_valid [OF t] data_def by blast
  have ld: "length data = 24 + (length gb + 12) + length cb + (length ab + 12)"
    by (simp add: data lens)
  show ?thesis
    unfolding data_def [symmetric] fpc_template_load_default_def
    using v s b1 b2 b3 m p2 p3 load_g load_c load_a used g(3,4,10) ld by simp
qed

text \<open>(C35) A template survives a save and a load: the serializer announces the number of bytes it
  writes, the bytes pass the validator, and loading them with the same retention capacity returns the
  same graph with its ages, every capture in its loaded form, the capacity and the metadata.\<close>

theorem template_roundtrip:
  assumes "template_storable g vs capacity retention" "\<And>n. al n"
    and "length buf = length (template_bytes g vs capacity metadata)"
  shows "\<exists>bytes. fpc_template_serialize_default g vs capacity metadata retention None
        = Some (Inr (length buf, None))
    \<and> fpc_template_serialize_default g vs capacity metadata retention (Some buf)
        = Some (Inr (length buf, Some bytes))
    \<and> fpc_template_load_default al bytes retention
        = Some (Inr \<lparr>lt_graph = g,
              lt_collection = \<lparr>lc_captures = map loaded_view vs, lc_capacity = capacity\<rparr>,
              lt_metadata = metadata\<rparr>)"
  using assms(3) template_writes(1) [OF assms(1), of metadata] template_writes(2) [OF assms(1,3)]
    template_bytes_load [of g vs capacity retention al metadata, OF assms(1,2)] by auto

lemma sample_collection: "collection_storable [sample_view, sample_view] 3"
  using sample_view_ok length_view_bytes [OF sample_view_ok default_flags]
  by (simp add: collection_storable_def storable_def length_collection_bytes frames_Cons SIZE_MAX_def
      capture_payload_size_def sample_view_def empty_view_def extra_words_def n_array_defs has_flag_def)

lemma sample_template: "template_storable sample_graph [sample_view, sample_view] 3 2"
  using sample_graph_wf sample_collection length_view_bytes [OF sample_view_ok default_flags]
  by (simp add: template_storable_def sample_graph_def table_size_def template_bytes_def Let_def
      INT32_MAX_def frames_Cons length_collection_bytes length_graph_bytes
      capture_payload_size_def sample_view_def empty_view_def extra_words_def n_array_defs has_flag_def)

theorem template_roundtrip_witness:
  "\<exists>n bytes. fpc_template_serialize_default sample_graph [sample_view, sample_view] 3 7 2 None
        = Some (Inr (n, None))
    \<and> fpc_template_load_default (\<lambda>_. True) bytes 2
        = Some (Inr \<lparr>lt_graph = sample_graph,
            lt_collection = \<lparr>lc_captures = [loaded_view sample_view, loaded_view sample_view], lc_capacity = 3\<rparr>,
            lt_metadata = 7\<rparr>)"
  using template_roundtrip [OF sample_template, of "\<lambda>_. True"
      "replicate (length (template_bytes sample_graph [sample_view, sample_view] 3 7)) 0" 7]
  by auto

end
