(* ===== verification/TemplateUpdate.thy ===== *)
theory TemplateUpdate
  imports TemplateCodec
begin

text \<open>
  Updating a template after a match (\<^verbatim>\<open>fpc_recovered.c\<close>:
  \<^verbatim>\<open>fpc_loaded_collection_take_capture\<close>, \<^verbatim>\<open>fpc_loaded_template_retain_capture\<close>,
  \<^verbatim>\<open>fpc_update_template_after_match\<close>). The functions mutate the template and the incoming capture
  in place; here they return both, on error paths too. \<open>aliased i\<close> says that the incoming object is
  slot \<open>i\<close> of the collection or shares its storage; \<open>al n\<close> that a request for \<open>n\<close> bytes succeeds.
\<close>

definition zero_capture :: fpc_capture_payload_view where
  "zero_capture = empty_view 0"

definition fpc_loaded_collection_take_capture ::
    "(nat \<Rightarrow> bool) \<Rightarrow> (nat \<Rightarrow> bool) \<Rightarrow> fpc_loaded_collection \<Rightarrow> fpc_capture_payload_view \<Rightarrow> nat
       \<Rightarrow> status \<times> fpc_loaded_collection \<times> fpc_capture_payload_view" where
  "fpc_loaded_collection_take_capture al aliased collection incoming index =
     (let captures = lc_captures collection; n = length captures in
      if unat (lc_capacity collection) < n \<or> unat (lc_capacity collection) \<le> index \<or> n < index
         \<or> list_ex aliased [0..<n] then (1, collection, incoming)
      else if index = n then
        (if SIZE_MAX div sizeof_loaded_capture \<le> n then (1, collection, incoming)
         else if \<not> al ((n + 1) * sizeof_loaded_capture) then (2, collection, incoming)
         else (0, collection\<lparr>lc_captures := captures @ [incoming]\<rparr>, zero_capture))
      else (0, collection\<lparr>lc_captures := captures[index := incoming]\<rparr>, zero_capture))"

definition retain_refused :: "fpc_loaded_template \<Rightarrow> u16 list option \<Rightarrow> bool" where
  "retain_refused t spatial_scores \<longleftrightarrow>
     (let graph = lt_graph t; used = unat (rg_used graph); capacity = unat (rg_capacity graph);
          collection = lt_collection t
      in 80 < used \<or> capacity < 2 \<or> capacity < used \<or> length (lc_captures collection) \<noteq> used
         \<or> unat (lc_capacity collection) < capacity \<or> rg_scores graph = None
         \<or> rg_score_count graph < table_size capacity \<or> length (arr spatial_scores) < used
         \<or> (used \<noteq> 0 \<and> spatial_scores = None)
         \<or> (used = capacity \<and> (rg_ages graph = None \<or> rg_age_count graph < used \<or> rg_order graph = None)))"

definition fpc_loaded_template_retain_capture ::
    "(nat \<Rightarrow> bool) \<Rightarrow> (nat \<Rightarrow> bool) \<Rightarrow> fpc_loaded_template \<Rightarrow> u16 list option \<Rightarrow> u16
       \<Rightarrow> fpc_capture_payload_view
       \<Rightarrow> status \<times> fpc_loaded_template \<times> fpc_capture_payload_view \<times> int" where
  "fpc_loaded_template_retain_capture al aliased t spatial_scores protection incoming =
     (if retain_refused t spatial_scores then (1, t, incoming, - 1) else
      let used = unat (rg_used (lt_graph t));
          scores = take used (arr spatial_scores) @ replicate (80 - used) 0;
          graph = (lt_graph t)\<lparr>rg_protected_count := protection, rg_protected_limit := protection\<rparr>;
          t1 = t\<lparr>lt_graph := graph\<rparr>
      in case fpc_enrollment_select_capture al (rg_scores graph) (rg_score_count graph) used
                (unat (rg_capacity graph)) (Some scores) (rg_order graph) (rg_ages graph)
                (unat protection) (rg_age_threshold graph) (- 1) of
           (status, selected) \<Rightarrow>
             if status \<noteq> 0 then (1, t1, incoming, selected)
             else if selected < 0 then (0, t1, incoming, selected)
             else case fpc_loaded_collection_take_capture al aliased (lt_collection t1) incoming
                         (nat selected) of
                    (status, collection, incoming') \<Rightarrow>
                      if status \<noteq> 0 then (status, t1, incoming', selected)
                      else case fpc_enrollment_write_capture_scores (arr (rg_scores graph))
                                  (rg_score_count graph) used (unat (rg_capacity graph)) (nat selected)
                                  scores used of
                             (status, table, n) \<Rightarrow>
                               let t2 = t1\<lparr>lt_collection := collection,
                                          lt_graph := graph\<lparr>rg_scores := Some table\<rparr>\<rparr>
                               in if status \<noteq> 0 then (1, t2, incoming', selected)
                                  else (0, t2\<lparr>lt_graph := graph\<lparr>rg_scores := Some table,
                                                rg_used := of_nat n\<rparr>\<rparr>, incoming', selected))"

record fpc_template_update_policy =
  up_minimum_score :: u16
  up_protection :: u16
  up_minimum_quality28 :: int
  up_minimum_quality32 :: int
  up_minimum_quality16 :: int

record fpc_template_update_state =
  us_code :: int
  us_matched :: int
  us_update_allowed :: int
  us_age_update_allowed :: int
  us_reported_score :: u16
  us_selected_capture :: int
  us_changed :: u8
  us_retained_slot :: int

definition update_enabled :: "fpc_template_update_state \<Rightarrow> bool" where
  "update_enabled state \<longleftrightarrow>
     us_matched state = 1 \<and> us_update_allowed state = 1 \<and> us_age_update_allowed state = 1"

definition good_capture :: "fpc_template_update_policy \<Rightarrow> fpc_template_update_state \<Rightarrow> int \<Rightarrow> int \<Rightarrow> int \<Rightarrow> bool" where
  "good_capture policy state quality28 quality32 quality16 \<longleftrightarrow>
     up_minimum_score policy \<le> us_reported_score state \<and> up_minimum_quality28 policy \<le> quality28
     \<and> up_minimum_quality32 policy \<le> quality32 \<and> up_minimum_quality16 policy \<le> quality16"

record update_result =
  ur_status :: status
  ur_template :: "fpc_loaded_template option"
  ur_incoming :: fpc_capture_payload_view
  ur_state :: fpc_template_update_state
  ur_reported_changed :: u8

definition fpc_update_template_after_match ::
    "(nat \<Rightarrow> bool) \<Rightarrow> (nat \<Rightarrow> bool) \<Rightarrow> fpc_loaded_template option \<Rightarrow> fpc_capture_payload_view
       \<Rightarrow> int \<Rightarrow> int \<Rightarrow> int \<Rightarrow> u16 list option \<Rightarrow> fpc_template_update_policy
       \<Rightarrow> fpc_template_update_state \<Rightarrow> update_result" where
  "fpc_update_template_after_match al aliased template_data incoming quality28 quality32 quality16
     spatial_scores policy state =
     (if us_code state \<noteq> 102 then
        \<lparr>ur_status = 1041, ur_template = template_data, ur_incoming = incoming, ur_state = state,
         ur_reported_changed = 0\<rparr>
      else
        let state1 = state\<lparr>us_code := 103\<rparr> in
        case template_data of
          None \<Rightarrow> \<lparr>ur_status = 0, ur_template = None, ur_incoming = incoming, ur_state = state1,
                   ur_reported_changed = us_changed state1\<rparr>
        | Some t \<Rightarrow>
            if \<not> update_enabled state then
              \<lparr>ur_status = 0, ur_template = Some t, ur_incoming = incoming, ur_state = state1,
               ur_reported_changed = us_changed state1\<rparr>
            else case fpc_retained_graph_increment_ages (lt_graph t) of (failed, graph1) \<Rightarrow>
              if failed \<noteq> 0 then
                \<lparr>ur_status = 1, ur_template = Some (t\<lparr>lt_graph := graph1\<rparr>), ur_incoming = incoming,
                 ur_state = state1, ur_reported_changed = 0\<rparr>
              else
                let graph2 = snd (fpc_retained_graph_reset_age graph1 (us_selected_capture state));
                    t2 = t\<lparr>lt_graph := graph2\<rparr>
                in if \<not> good_capture policy state quality28 quality32 quality16 then
                     (let state2 = state1\<lparr>us_changed := 1\<rparr>
                      in \<lparr>ur_status = 0, ur_template = Some t2, ur_incoming = incoming,
                          ur_state = state2, ur_reported_changed = us_changed state2\<rparr>)
                   else case fpc_loaded_template_retain_capture al aliased t2 spatial_scores
                               (up_protection policy) incoming of
                          (status, t3, incoming', selected) \<Rightarrow>
                            let t4 = (if status = 0 \<and> 0 \<le> selected
                                      then t3\<lparr>lt_graph := snd (fpc_retained_graph_reset_age (lt_graph t3) selected)\<rparr>
                                      else t3);
                                state2 = state1\<lparr>us_retained_slot := selected, us_changed := 1\<rparr>
                            in \<lparr>ur_status = status, ur_template = Some t4, ur_incoming = incoming',
                                ur_state = state2, ur_reported_changed = us_changed state2\<rparr>)"

subsection \<open>The selected slot\<close>

lemma select_scan_range:
  "select_scan cost ages threshold cs best aged sel = (rest, best', sel') \<Longrightarrow>
     (sel' = sel \<or> sel' \<in> int ` set cs) \<and> set rest \<subseteq> set cs"
  by (induction cost ages threshold cs best aged sel rule: select_scan.induct) (auto split: if_splits)

lemma select_aged_range:
  "select_aged cost ages threshold cs best sel = sel \<or>
     select_aged cost ages threshold cs best sel \<in> int ` set cs"
  by (induction cost ages threshold cs best sel rule: select_aged.induct) auto

lemma select_range:
  assumes "fpc_enrollment_select_capture al graph gsize n capacity new order ages protected threshold (- 1)
    = (status, selected)"
  shows "selected = - 1 \<or> 0 \<le> selected \<and> nat selected \<le> n \<and> nat selected < capacity"
proof (cases "capacity < 2 \<or> 65535 < capacity \<or> capacity < n \<or> n < capacity")
  case True
  with assms show ?thesis by (auto simp: fpc_enrollment_select_capture_def split: if_splits)
next
  case False
  then have n: "n = capacity" by simp
  show ?thesis
  proof (cases "selected = - 1")
    case neg: False
    from assms False neg obtain g new' ord age where
      some: "graph = Some g" "new = Some new'" "order = Some ord" "ages = Some age"
      by (auto simp: fpc_enrollment_select_capture_def n split: option.splits if_splits)
    from assms False neg obtain cost where
      ord: "list_all (\<lambda>i. unat (ord ! i) < n) [0..<capacity]"
      and run: "(let candidates = map (\<lambda>i. unat (ord ! i)) [protected..<capacity];
              (rest, best, selected) = select_scan cost age threshold candidates (cost ! n) False (- 1)
          in (0, select_aged cost age threshold rest best selected)) = (status, selected)"
      unfolding some
      by (cases "add_edges capacity g (pairs_upto n) (new_costs n new')")
        (auto simp: fpc_enrollment_select_capture_def not_le list_all_iff list_ex_iff n split: if_splits)
    define cands where "cands = map (\<lambda>i. unat (ord ! i)) [protected..<capacity]"
    obtain rest best sel where scan: "select_scan cost age threshold cands (cost ! n) False (- 1) = (rest, best, sel)"
      by (cases "select_scan cost age threshold cands (cost ! n) False (- 1)") auto
    have "selected = select_aged cost age threshold rest best sel"
      using run by (simp add: cands_def [symmetric] scan)
    then have "selected \<in> int ` set cands"
      using select_scan_range [OF scan] select_aged_range [of cost age threshold rest best sel] neg by auto
    moreover have "k < capacity" if "k \<in> set cands" for k
      using that ord n by (auto simp: cands_def list_all_iff)
    ultimately show ?thesis using n by fastforce
  qed simp
qed

subsection \<open>Retaining a capture\<close>

definition template_inv :: "fpc_loaded_template \<Rightarrow> bool" where
  "template_inv t \<longleftrightarrow>
     graph_wf (lt_graph t) \<and> length (lc_captures (lt_collection t)) = unat (rg_used (lt_graph t))"

lemma take_capture_effect:
  assumes "fpc_loaded_collection_take_capture al aliased c incoming index = (status, c', incoming')"
  shows "if status = 0
    then index \<le> length (lc_captures c) \<and> incoming' = zero_capture \<and>
      c' = c\<lparr>lc_captures := (if index = length (lc_captures c) then lc_captures c @ [incoming]
                            else (lc_captures c)[index := incoming])\<rparr>
    else c' = c \<and> incoming' = incoming"
  using assms by (auto simp: fpc_loaded_collection_take_capture_def Let_def split: if_splits)

lemma write_scores_ok:
  assumes "2 \<le> c" "c \<le> 65535" "n \<le> c" "x < c" "x \<le> n" "table_size c \<le> gsize"
  shows "fpc_enrollment_write_capture_scores g gsize n c x new n
    = (0, pairs.write_row c x new [0..<n] g, if x = n then n + 1 else n)"
  using assms
  by (simp add: fpc_enrollment_write_capture_scores_def write_scores_from_row list_all_iff not_less)

text \<open>The whole effect of a call that selects a slot and can take the capture.\<close>

definition retained :: "fpc_loaded_template \<Rightarrow> u16 list \<Rightarrow> u16 \<Rightarrow> fpc_capture_payload_view \<Rightarrow> nat \<Rightarrow> fpc_loaded_template" where
  "retained t scores protection incoming x =
     (let used = unat (rg_used (lt_graph t)); captures = lc_captures (lt_collection t) in
      t\<lparr>lt_collection := (lt_collection t)\<lparr>lc_captures :=
            (if x = used then captures @ [incoming] else captures[x := incoming])\<rparr>,
        lt_graph := (lt_graph t)\<lparr>rg_protected_count := protection, rg_protected_limit := protection,
          rg_scores := Some (pairs.write_row (unat (rg_capacity (lt_graph t))) x scores [0..<used]
                              (arr (rg_scores (lt_graph t)))),
          rg_used := of_nat (if x = used then used + 1 else used)\<rparr>\<rparr>)"

definition reprotected :: "fpc_loaded_template \<Rightarrow> u16 \<Rightarrow> fpc_loaded_template" where
  "reprotected t protection =
     t\<lparr>lt_graph := (lt_graph t)\<lparr>rg_protected_count := protection, rg_protected_limit := protection\<rparr>\<rparr>"

lemma retain_capture_cases:
  assumes "template_inv t"
    and "fpc_loaded_template_retain_capture al aliased t spatial protection incoming
      = (status, t', incoming', selected)"
  shows "(status = 1 \<and> t' = t \<and> incoming' = incoming \<and> selected = - 1)
    \<or> (t' = reprotected t protection \<and> incoming' = incoming \<and> (status \<noteq> 0 \<or> selected = - 1))
    \<or> (status = 0 \<and> 0 \<le> selected \<and> nat selected \<le> unat (rg_used (lt_graph t))
       \<and> nat selected < unat (rg_capacity (lt_graph t)) \<and> incoming' = zero_capture
       \<and> t' = retained t (take (unat (rg_used (lt_graph t))) (arr spatial)
                 @ replicate (80 - unat (rg_used (lt_graph t))) 0) protection incoming (nat selected))"
proof (cases "retain_refused t spatial")
  case True
  with assms(2) show ?thesis by (simp add: fpc_loaded_template_retain_capture_def)
next
  case False
  define used where "used = unat (rg_used (lt_graph t))"
  define c where "c = unat (rg_capacity (lt_graph t))"
  define scores where "scores = take used (arr spatial) @ replicate (80 - used) 0"
  define graph where "graph = (lt_graph t)\<lparr>rg_protected_count := protection, rg_protected_limit := protection\<rparr>"
  have rep: "reprotected t protection = t\<lparr>lt_graph := graph\<rparr>"
    by (simp add: reprotected_def graph_def)
  have g: "2 \<le> c" "c \<le> 65535" "used \<le> c" "table_size c \<le> rg_score_count (lt_graph t)"
    "length (lc_captures (lt_collection t)) = used"
    using assms(1) unat_bounds(2) [of "rg_capacity (lt_graph t)"]
    by (auto simp: template_inv_def graph_wf_def used_def c_def word_le_nat_alt)
  obtain st sel where sel: "fpc_enrollment_select_capture al (rg_scores graph) (rg_score_count graph) used c
      (Some scores) (rg_order graph) (rg_ages graph) (unat protection) (rg_age_threshold graph) (- 1) = (st, sel)"
    by (cases "fpc_enrollment_select_capture al (rg_scores graph) (rg_score_count graph) used c
      (Some scores) (rg_order graph) (rg_ages graph) (unat protection) (rg_age_threshold graph) (- 1)") auto
  note run = assms(2) [unfolded fpc_loaded_template_retain_capture_def Let_def, folded used_def, folded c_def]
  show ?thesis
  proof (cases "st \<noteq> 0 \<or> sel < 0")
    case True
    with run False sel select_range [OF sel] show ?thesis
      by (auto simp: rep graph_def c_def scores_def split: if_splits)
  next
    case ok: False
    then have range: "nat sel \<le> used" "nat sel < c" using select_range [OF sel] by auto
    obtain ts col inc where take: "fpc_loaded_collection_take_capture al aliased (lt_collection t) incoming
        (nat sel) = (ts, col, inc)"
      by (cases "fpc_loaded_collection_take_capture al aliased (lt_collection t) incoming (nat sel)") auto
    note eff = take_capture_effect [OF take]
    have w: "fpc_enrollment_write_capture_scores (arr (rg_scores graph)) (rg_score_count graph) used c
        (nat sel) scores used = (0, pairs.write_row c (nat sel) scores [0..<used] (arr (rg_scores graph)),
          if nat sel = used then used + 1 else used)"
      using g range by (intro write_scores_ok) (simp_all add: graph_def)
    show ?thesis
    proof (cases "ts = 0")
      case True
      have "t' = retained t scores protection incoming (nat sel) \<and> status = 0 \<and> incoming' = zero_capture
          \<and> selected = sel"
        using run False ok sel take eff w True g
        by (auto simp: graph_def c_def [symmetric] scores_def retained_def Let_def used_def [symmetric])
      then show ?thesis using ok range by (simp add: scores_def used_def c_def)
    next
      case False
      with run \<open>\<not> retain_refused t spatial\<close> ok sel take eff show ?thesis
        by (simp add: rep graph_def c_def [symmetric] scores_def used_def [symmetric])
    qed
  qed
qed

lemma write_row_length_inv:
  assumes "template_inv t" "x \<le> unat (rg_used (lt_graph t))" "x < unat (rg_capacity (lt_graph t))"
  shows "template_inv (retained t scores protection incoming x)"
proof -
  let ?u = "unat (rg_used (lt_graph t))"
  have "?u < 65536" "unat (rg_capacity (lt_graph t)) < 65536" by (rule unat_bounds)+
  then have n: "unat (of_nat (if x = ?u then ?u + 1 else ?u) :: u16) = (if x = ?u then ?u + 1 else ?u)"
    using assms by (auto simp: unat_of_nat)
  then have "of_nat (if x = ?u then ?u + 1 else ?u) \<le> rg_capacity (lt_graph t)"
    using assms by (auto simp: word_le_nat_alt template_inv_def graph_wf_def)
  then show ?thesis
    using assms n by (auto simp: template_inv_def graph_wf_def retained_def Let_def split: option.splits)
qed

lemma reprotected_inv: "template_inv t \<Longrightarrow> template_inv (reprotected t protection)"
  by (auto simp: template_inv_def graph_wf_def reprotected_def split: option.splits)

lemma ages_inv:
  "template_inv t \<Longrightarrow> fpc_retained_graph_increment_ages (lt_graph t) = (e, g) \<Longrightarrow>
     template_inv (t\<lparr>lt_graph := g\<rparr>)"
  "template_inv t \<Longrightarrow> template_inv (t\<lparr>lt_graph := snd (fpc_retained_graph_reset_age (lt_graph t) i)\<rparr>)"
proof -
  assume t: "template_inv t"
  show "template_inv (t\<lparr>lt_graph := g\<rparr>)"
    if "fpc_retained_graph_increment_ages (lt_graph t) = (e, g)"
    using t that increment_ages_wf [of "lt_graph t"]
    by (auto simp: template_inv_def fpc_retained_graph_increment_ages_def Let_def split: if_splits)
  show "template_inv (t\<lparr>lt_graph := snd (fpc_retained_graph_reset_age (lt_graph t) i)\<rparr>)"
    using t reset_age_wf [of "lt_graph t" i]
    by (auto simp: template_inv_def fpc_retained_graph_reset_age_def)
qed

lemma retain_capture_inv:
  assumes "template_inv t"
    and "fpc_loaded_template_retain_capture al aliased t spatial protection incoming = (status, t', inc, sel)"
  shows "template_inv t'"
  using retain_capture_cases [OF assms] assms(1) reprotected_inv write_row_length_inv by auto

text \<open>(C37) Updating a template keeps it consistent, whatever happens: for every incoming capture,
  policy, match result, allocation outcome and aliasing, and on every error path, a template whose
  graph is well formed and has as many captures in use as the collection holds is such a template
  again afterwards; the update runs only from state 102 and always moves it to state 103.\<close>

theorem update_template_consistent:
  assumes "template_inv t"
    and "r = fpc_update_template_after_match al aliased (Some t) incoming q28 q32 q16 spatial policy state"
  shows "(\<exists>t'. ur_template r = Some t' \<and> template_inv t')
    \<and> (if us_code state = 102 then us_code (ur_state r) = 103
       else ur_status r = 1041 \<and> ur_template r = Some t \<and> ur_incoming r = incoming
            \<and> ur_state r = state \<and> ur_reported_changed r = 0)"
proof -
  obtain e g where inc: "fpc_retained_graph_increment_ages (lt_graph t) = (e, g)"
    by (cases "fpc_retained_graph_increment_ages (lt_graph t)") auto
  define t1 where "t1 = t\<lparr>lt_graph := snd (fpc_retained_graph_reset_age g (us_selected_capture state))\<rparr>"
  have g: "template_inv (t\<lparr>lt_graph := g\<rparr>)" using assms(1) inc by (rule ages_inv(1))
  then have t1: "template_inv t1"
    using ages_inv(2) [of "t\<lparr>lt_graph := g\<rparr>" "us_selected_capture state"] by (simp add: t1_def)
  obtain st t2 inc' sel where ret: "fpc_loaded_template_retain_capture al aliased t1 spatial
      (up_protection policy) incoming = (st, t2, inc', sel)"
    by (cases "fpc_loaded_template_retain_capture al aliased t1 spatial (up_protection policy) incoming") auto
  have t2: "template_inv t2" by (rule retain_capture_inv [OF t1 ret])
  note t3 = ages_inv(2) [OF t2]
  have "us_code state \<noteq> 102 \<or> \<not> update_enabled state \<or> e \<noteq> 0
      \<or> (\<not> good_capture policy state q28 q32 q16) \<or> good_capture policy state q28 q32 q16" by blast
  then show ?thesis
    using assms(1) g t1 t2 t3 ret
    by (auto simp: assms(2) fpc_update_template_after_match_def inc Let_def t1_def [symmetric])
qed

definition sample_template_value :: fpc_loaded_template where
  "sample_template_value = \<lparr>lt_graph = sample_graph,
     lt_collection = \<lparr>lc_captures = [zero_capture, zero_capture], lc_capacity = 2\<rparr>, lt_metadata = 0\<rparr>"

lemma sample_template_inv: "template_inv sample_template_value"
  using sample_graph_wf
  by (simp add: template_inv_def sample_template_value_def) (simp add: sample_graph_def)

definition sample_state :: fpc_template_update_state where
  "sample_state = \<lparr>us_code = 102, us_matched = 1, us_update_allowed = 1, us_age_update_allowed = 1,
     us_reported_score = 9, us_selected_capture = 1, us_changed = 0, us_retained_slot = - 1\<rparr>"

definition sample_policy :: fpc_template_update_policy where
  "sample_policy = \<lparr>up_minimum_score = 5, up_protection = 0, up_minimum_quality28 = 1,
     up_minimum_quality32 = 1, up_minimum_quality16 = 1\<rparr>"

theorem update_template_consistent_witness:
  "\<exists>t'. ur_template (fpc_update_template_after_match (\<lambda>_. True) (\<lambda>_. False) (Some sample_template_value)
      zero_capture 5 5 5 (Some [3, 4]) sample_policy sample_state) = Some t' \<and> template_inv t'"
  using update_template_consistent [OF sample_template_inv refl] by blast

text \<open>(C38) A capture that is retained replaces exactly one slot: the selected slot (an occupied one or
  the next free one) holds the incoming capture, every other capture stays, the score table holds the
  incoming capture's scores against every capture that was in use and its old scores elsewhere, and
  the caller's object is emptied; a call that retains nothing leaves captures and scores as they were
  and the incoming capture with the caller.\<close>

theorem retain_capture_effect:
  assumes "template_inv t" "used = unat (rg_used (lt_graph t))" "c = unat (rg_capacity (lt_graph t))"
    and "length new = 80" "take used (arr spatial) @ replicate (80 - used) 0 = new"
    and "k < c" "l < c" "k \<noteq> l" "i < used"
    and "fpc_loaded_template_retain_capture al aliased t spatial protection incoming = (status, t', incoming', selected)"
  shows "if status = 0 \<and> 0 \<le> selected
    then nat selected \<le> used \<and> incoming' = zero_capture
      \<and> unat (rg_used (lt_graph t')) = max used (nat selected + 1)
      \<and> lc_captures (lt_collection t') ! nat selected = incoming
      \<and> (i \<noteq> nat selected \<longrightarrow> lc_captures (lt_collection t') ! i = lc_captures (lt_collection t) ! i)
      \<and> arr (rg_scores (lt_graph t')) ! edge c k l =
          (if k = nat selected \<and> l < used then new ! l
           else if l = nat selected \<and> k < used then new ! k
           else arr (rg_scores (lt_graph t)) ! edge c k l)
    else incoming' = incoming \<and> lt_collection t' = lt_collection t
      \<and> rg_scores (lt_graph t') = rg_scores (lt_graph t) \<and> rg_used (lt_graph t') = rg_used (lt_graph t)"
proof -
  have c: "c < 65536" "used < 65536" using unat_bounds(2) by (simp_all add: assms(2,3))
  have wf: "2 \<le> c" "used \<le> c" "table_size c \<le> length (arr (rg_scores (lt_graph t)))"
    "length (lc_captures (lt_collection t)) = used"
    using assms(1) by (auto simp: template_inv_def graph_wf_def assms(2,3) word_le_nat_alt)
  from retain_capture_cases [OF assms(1,10)] consider
      "t' = t \<and> incoming' = incoming \<and> selected = - 1"
    | "t' = reprotected t protection \<and> incoming' = incoming \<and> (status \<noteq> 0 \<or> selected = - 1)"
    | "status = 0 \<and> 0 \<le> selected \<and> nat selected \<le> used \<and> nat selected < c \<and> incoming' = zero_capture
       \<and> t' = retained t new protection incoming (nat selected)"
    unfolding assms(2,3,5) [symmetric] by blast
  then show ?thesis
  proof cases
    case 1
    then show ?thesis by simp
  next
    case 2
    then show ?thesis by (auto simp: reprotected_def)
  next
    case 3
    let ?x = "nat selected"
    have u: "unat (of_nat (if ?x = used then used + 1 else used) :: u16) = max used (?x + 1)"
      using 3 c wf by (auto simp: unat_of_nat)
    have row: "pairs.write_row c ?x new [0..<used] (arr (rg_scores (lt_graph t))) ! edge c k l =
          (if k = ?x \<and> l < used then new ! l else if l = ?x \<and> k < used then new ! k
           else arr (rg_scores (lt_graph t)) ! edge c k l)"
      using 3 c wf assms(6-8) by (intro pairs.write_row_lookup) auto
    have t': "lc_captures (lt_collection t') = (if ?x = used then lc_captures (lt_collection t) @ [incoming]
        else (lc_captures (lt_collection t))[?x := incoming])"
      "rg_used (lt_graph t') = of_nat (if ?x = used then used + 1 else used)"
      "arr (rg_scores (lt_graph t')) = pairs.write_row c ?x new [0..<used] (arr (rg_scores (lt_graph t)))"
      using 3 by (simp_all add: retained_def Let_def assms(2,3) [symmetric])
    show ?thesis
      unfolding t' u row using 3 wf assms(9) by (auto simp: nth_append)
  qed
qed

definition sample_incoming :: fpc_capture_payload_view where
  "sample_incoming = empty_view 5"

definition growing_template :: fpc_loaded_template where
  "growing_template = \<lparr>lt_graph = sample_graph\<lparr>rg_capacity := 3, rg_scores := Some [40, 0, 0],
       rg_order := Some [1, 0, 2], rg_score_count := 3\<rparr>,
     lt_collection = \<lparr>lc_captures = [zero_capture, zero_capture], lc_capacity = 3\<rparr>, lt_metadata = 0\<rparr>"

lemma growing_template_inv: "template_inv growing_template"
  by (simp add: template_inv_def growing_template_def graph_wf_def sample_graph_def table_size_def)

lemma sample_retain:
  "\<exists>t'. fpc_loaded_template_retain_capture (\<lambda>_. True) (\<lambda>_. False) growing_template (Some [3, 4]) 0
     sample_incoming = (0, t', zero_capture, 2)"
  by (simp add: fpc_loaded_template_retain_capture_def retain_refused_def growing_template_def
      sample_graph_def table_size_def fpc_loaded_collection_take_capture_def SIZE_MAX_def
      fpc_enrollment_select_capture_def sizeof_loaded_capture_def write_scores_ok list_ex_iff)

theorem retain_capture_effect_witness:
  "\<exists>t'. fpc_loaded_template_retain_capture (\<lambda>_. True) (\<lambda>_. False) growing_template (Some [3, 4]) 0
       sample_incoming = (0, t', zero_capture, 2)
     \<and> lc_captures (lt_collection t') ! 2 = sample_incoming
     \<and> arr (rg_scores (lt_graph t')) ! edge 3 1 2 = 4"
proof -
  obtain t' where run: "fpc_loaded_template_retain_capture (\<lambda>_. True) (\<lambda>_. False) growing_template
      (Some [3, 4]) 0 sample_incoming = (0, t', zero_capture, 2)"
    using sample_retain by blast
  have g: "2 = unat (rg_used (lt_graph growing_template))" "3 = unat (rg_capacity (lt_graph growing_template))"
    by (simp_all add: growing_template_def sample_graph_def)
  show ?thesis
    using retain_capture_effect [OF growing_template_inv g, of "[3, 4] @ replicate 78 0" "Some [3, 4]" 1 2 0,
        OF _ _ _ _ _ _ run] run
    by auto
qed

end
