(* ===== verification/GroupPayload.thy ===== *)
theory GroupPayload
  imports Prelude
begin

text \<open>
  The group state payload (\<^verbatim>\<open>fpc_recovered.c\<close>: \<^verbatim>\<open>fpc_group_payload\<close>,
  \<^verbatim>\<open>fpc_group_load_payload\<close>): per capture a group number, a root and a 3x3 matrix kept as
  raw float bits. The single allocation behind the three arrays is the parameter \<open>al\<close>.
\<close>

unbundle bit_operations_syntax

record fpc_loaded_groups =
  gr_count :: nat
  gr_group_count :: u16
  gr_groups :: "u16 list"
  gr_roots :: "u16 list"
  gr_matrix_bits :: "u32 list"

text \<open>One entry on the wire: group, root and nine matrix words, 40 bytes.\<close>

type_synonym group_entry = "u16 \<times> u16 \<times> u32 list"

definition rd_group :: "u8 list \<Rightarrow> nat \<Rightarrow> group_entry option" where
  "rd_group data off =
     do { g \<leftarrow> rd16 data off;
          r \<leftarrow> rd16 data (off + 2);
          matrix \<leftarrow> rd_seq le32 4 data (off + 4) 9;
          Some (g, r, matrix) }"

definition st_group :: "group_entry \<Rightarrow> u8 list" where
  "st_group e = (case e of (g, r, matrix) \<Rightarrow>
     st16 g @ st16 r @ concat (map store_le32 matrix))"

definition fpc_group_load_payload ::
    "(nat \<Rightarrow> bool) \<Rightarrow> u8 list \<Rightarrow> (status + fpc_loaded_groups) option" where
  "fpc_group_load_payload al data =
     (if length data < 4 then Some (Inl 140) else
      do { count \<leftarrow> rd16 data 0;
           gc \<leftarrow> rd16 data 2;
           let n = unat count in
           if 32767 < n \<or> length data \<noteq> 4 + 40 * n then Some (Inl 140)
           else if n \<noteq> 0 \<and> \<not> al (40 * n) then Some (Inl 2) else
           do { entries \<leftarrow> rd_seq rd_group 40 data 4 n;
                Some (Inr \<lparr>gr_count = n, gr_group_count = gc,
                            gr_groups = map fst entries,
                            gr_roots = map (fst \<circ> snd) entries,
                            gr_matrix_bits = concat (map (snd \<circ> snd) entries)\<rparr>) } })"

definition group_entries :: "nat \<Rightarrow> u16 list \<Rightarrow> u16 list \<Rightarrow> u32 list \<Rightarrow> group_entry list" where
  "group_entries count groups roots matrix_bits =
     map (\<lambda>i. (groups ! i, roots ! i, map (\<lambda>j. matrix_bits ! (9 * i + j)) [0..<9])) [0..<count]"

definition fpc_group_payload ::
    "nat \<Rightarrow> u16 \<Rightarrow> u16 list \<Rightarrow> u16 list \<Rightarrow> u32 list \<Rightarrow> u8 list option
       \<Rightarrow> status + nat \<times> u8 list option" where
  "fpc_group_payload count group_count groups roots matrix_bits output =
     (if 32767 < count then Inl (- 1)
      else write_out (4 + 40 * count)
             (st16 (of_nat count) @ st16 group_count
                @ concat (map st_group (group_entries count groups roots matrix_bits)))
             output)"

interpretation grp: wire rd_group st_group 40 "\<lambda>e. length (snd (snd e)) = 9"
proof
  fix data pre post :: "u8 list" and off :: nat and e :: group_entry
  obtain g r m where e: "e = (g, r, m)" by (cases e)
  show "length (st_group e) = 40" if "length (snd (snd e)) = 9"
    using that word.length_concat [of m] by (simp add: e st_group_def)
  show "rd_group data off \<noteq> None" if "off + 40 \<le> length data"
  proof -
    have "off + 2 \<le> length data" "off + 2 + 2 \<le> length data" using that by simp_all
    then obtain a b where "rd16 data off = Some a" "rd16 data (off + 2) = Some b"
      using rd16_total by meson
    moreover have "rd_seq le32 4 data (off + 4) 9 \<noteq> None"
      by (rule word.seq_total) (use that in simp)
    ultimately show ?thesis by (auto simp: rd_group_def)
  qed
  show "rd_group (pre @ st_group e @ post) (length pre) = Some e" if "length (snd (snd e)) = 9"
  proof -
    define d' where "d' = pre @ st_group e @ post"
    have d: "d' = pre @ st16 g @ st16 r @ concat (map store_le32 m) @ post"
      by (simp add: d'_def e st_group_def)
    have "rd16 d' (length pre) = Some g" unfolding d by (rule st16_at) simp
    moreover have "rd16 d' (length pre + 2) = Some r"
      using st16_at [of "length pre + 2" "pre @ st16 g" r] by (simp add: d)
    moreover have "rd_seq le32 4 ((pre @ st16 g @ st16 r) @ concat (map store_le32 m) @ post)
        (length pre + 4) 9 = Some m"
      by (rule word.seq_read) (use that e in simp_all)
    ultimately show ?thesis unfolding d'_def [symmetric] by (simp add: rd_group_def e d)
  qed
  assume rd: "rd_group data off = Some e"
  then have r: "rd16 data off = Some g" "rd16 data (off + 2) = Some r"
    and m: "rd_seq le32 4 data (off + 4) 9 = Some m"
    by (auto simp: rd_group_def e split: Option.bind_splits)
  show "length (snd (snd e)) = 9" using word.seq_length [OF m] by (simp add: e)
  have "st_group e = take 2 (drop off data) @ take 2 (drop (off + 2) data)
      @ take (4 * 9) (drop (off + 4) data)"
    using half.s_r [OF r(1)] half.s_r [OF r(2)] word.seq_inverse [OF m]
    by (simp add: e st_group_def)
  also have "\<dots> = take (2 + (2 + 4 * 9)) (drop off data)"
    by (simp only: take_add drop_drop) (simp add: add.commute add.left_commute)
  finally show "st_group e = take 40 (drop off data)" by simp
qed

lemma fpc_group_load_payload_safe: "fpc_group_load_payload al data \<noteq> None"
proof (cases "length data < 4")
  case True
  then show ?thesis by (simp add: fpc_group_load_payload_def)
next
  case False
  then have "0 + 2 \<le> length data" "2 + 2 \<le> length data" by simp_all
  then obtain c g where cg: "rd16 data 0 = Some c" "rd16 data 2 = Some g"
    using rd16_total by meson
  have "rd_seq rd_group 40 data 4 (unat c) \<noteq> None" if "length data = 4 + 40 * unat c"
    by (rule grp.seq_total) (simp add: that)
  with cg False show ?thesis by (auto simp: fpc_group_load_payload_def Let_def)
qed

lemma group_entries_fields:
  assumes "length groups = n" "length roots = n" "length bits = 9 * n"
  shows "map fst (group_entries n groups roots bits) = groups"
    "map (fst \<circ> snd) (group_entries n groups roots bits) = roots"
    "concat (map (snd \<circ> snd) (group_entries n groups roots bits)) = bits"
    "list_all (\<lambda>e. length (snd (snd e)) = 9) (group_entries n groups roots bits)"
    "length (group_entries n groups roots bits) = n"
  using assms split_blocks [of bits 9 n]
  by (auto simp: group_entries_def comp_def list_all_iff intro!: nth_equalityI)

lemma group_entries_inverse:
  assumes "list_all (\<lambda>e. length (snd (snd e)) = 9) es"
  shows "group_entries (length es) (map fst es) (map (fst \<circ> snd) es) (concat (map (snd \<circ> snd) es)) = es"
proof (rule nth_equalityI)
  show "length (group_entries (length es) (map fst es) (map (fst \<circ> snd) es)
      (concat (map (snd \<circ> snd) es))) = length es" by (simp add: group_entries_def)
  fix i assume "i < length (group_entries (length es) (map fst es) (map (fst \<circ> snd) es)
      (concat (map (snd \<circ> snd) es)))"
  then have i: "i < length es" by (simp add: group_entries_def)
  have cell: "concat (map (snd \<circ> snd) es) ! (9 * i + j) = snd (snd (es ! i)) ! j" if "j < 9" for j
    using assms i that
  proof (induction es arbitrary: i)
    case (Cons e es)
    then show ?case by (cases i) (auto simp: nth_append)
  qed simp
  have "map (\<lambda>j. concat (map (snd \<circ> snd) es) ! (9 * i + j)) [0..<9] = snd (snd (es ! i))"
    using assms i cell by (intro nth_equalityI) (auto simp: list_all_length)
  with i show "group_entries (length es) (map fst es) (map (fst \<circ> snd) es)
      (concat (map (snd \<circ> snd) es)) ! i = es ! i"
    by (simp add: group_entries_def prod_eq_iff)
qed

text \<open>The group payload is a bijection between well-formed group states and the byte strings
  the loader accepts: loading what was saved gives the state back, and saving what was loaded gives
  the same bytes back.\<close>

theorem group_payload_bijective:
  assumes "\<And>n. al n"
  shows "fpc_group_load_payload al bytes = Some (Inr g) \<longleftrightarrow>
    (length (gr_groups g) = gr_count g \<and> length (gr_roots g) = gr_count g
     \<and> length (gr_matrix_bits g) = 9 * gr_count g
     \<and> (\<forall>buf. length buf = 4 + 40 * gr_count g \<longrightarrow>
          fpc_group_payload (gr_count g) (gr_group_count g) (gr_groups g) (gr_roots g)
            (gr_matrix_bits g) (Some buf) = Inr (length buf, Some bytes)))"
    (is "_ \<longleftrightarrow> ?wf \<and> ?roots \<and> ?bits \<and> ?saved")
proof
  assume load: "fpc_group_load_payload al bytes = Some (Inr g)"
  then obtain c entries where c: "rd16 bytes 0 = Some c" "rd16 bytes 2 = Some (gr_group_count g)"
    and n: "unat c \<le> 32767" "length bytes = 4 + 40 * unat c"
    and entries: "rd_seq rd_group 40 bytes 4 (unat c) = Some entries"
    and g: "g = \<lparr>gr_count = unat c, gr_group_count = gr_group_count g,
        gr_groups = map fst entries, gr_roots = map (fst \<circ> snd) entries,
        gr_matrix_bits = concat (map (snd \<circ> snd) entries)\<rparr>"
    by (auto simp: fpc_group_load_payload_def Let_def not_less split: if_splits Option.bind_splits)
  have len: "length entries = unat c" and ok: "list_all (\<lambda>e. length (snd (snd e)) = 9) entries"
    using grp.seq_length [OF entries] grp.seq_ok [OF entries] by auto
  have bits: "length (concat (map (snd \<circ> snd) entries)) = 9 * unat c"
    using ok unfolding len [symmetric] by (induction entries) auto
  have body: "concat (map st_group entries) = drop 4 bytes"
    using grp.seq_inverse [OF entries] n(2) by simp
  have head: "take 2 bytes = st16 c" "take 2 (drop 2 bytes) = st16 (gr_group_count g)"
    using half.s_r c by auto
  have "take 2 bytes @ take 2 (drop 2 bytes) @ drop 4 bytes = bytes"
    by (metis add_2_eq_Suc append_assoc append_take_drop_id drop_drop numeral_Bit0 take_add
        add_numeral_left)
  then have bytes: "bytes = st16 c @ st16 (gr_group_count g) @ concat (map st_group entries)"
    by (simp only: head body)
  have wf: "gr_count g = unat c" "gr_groups g = map fst entries"
    "gr_roots g = map (fst \<circ> snd) entries" "gr_matrix_bits g = concat (map (snd \<circ> snd) entries)"
    by (subst g, simp)+
  have "group_entries (unat c) (map fst entries) (map (fst \<circ> snd) entries)
      (concat (map (snd \<circ> snd) entries)) = entries"
    using group_entries_inverse [OF ok] len by simp
  then have ?saved
    using n len bytes by (auto simp: fpc_group_payload_def wf)
  with wf len bits show "?wf \<and> ?roots \<and> ?bits \<and> ?saved" by simp
next
  assume a: "?wf \<and> ?roots \<and> ?bits \<and> ?saved"
  define n where "n = gr_count g"
  define es where "es = group_entries n (gr_groups g) (gr_roots g) (gr_matrix_bits g)"
  note f = group_entries_fields [of "gr_groups g" n "gr_roots g" "gr_matrix_bits g", folded es_def]
  have f': "map fst es = gr_groups g" "map (fst \<circ> snd) es = gr_roots g"
    "concat (map (snd \<circ> snd) es) = gr_matrix_bits g"
    "list_all (\<lambda>e. length (snd (snd e)) = 9) es" "length es = n"
    using f a by (auto simp: n_def)
  define body where "body = concat (map st_group es)"
  have lb: "length body = 40 * n" using grp.length_concat [OF f'(4)] f'(5) by (simp add: body_def)
  have w: "fpc_group_payload n (gr_group_count g) (gr_groups g) (gr_roots g) (gr_matrix_bits g)
      (Some (replicate (4 + 40 * n) 0)) = Inr (4 + 40 * n, Some bytes)"
    using a by (simp add: n_def)
  then have n: "n \<le> 32767" by (simp add: fpc_group_payload_def split: if_splits)
  with w lb have bytes: "bytes = st16 (of_nat n) @ st16 (gr_group_count g) @ body"
    by (simp add: fpc_group_payload_def write_out_def body_def es_def)
  have u: "unat (of_nat n :: u16) = n" using n by (simp add: unat_of_nat)
  have "rd16 bytes 0 = Some (of_nat n)"
    using st16_at [of 0 "[]" "of_nat n"] by (simp add: bytes)
  moreover have "rd16 bytes 2 = Some (gr_group_count g)"
    using st16_at [of 2 "st16 (of_nat n)" "gr_group_count g"] by (simp add: bytes)
  moreover have "rd_seq rd_group 40 ((st16 (of_nat n) @ st16 (gr_group_count g)) @ body @ []) 4 n = Some es"
    unfolding body_def by (rule grp.seq_read) (simp_all add: f')
  ultimately show "fpc_group_load_payload al bytes = Some (Inr g)"
    using n u lb f' assms by (simp add: fpc_group_load_payload_def Let_def bytes n_def)
qed

definition sample_groups :: fpc_loaded_groups where
  "sample_groups = \<lparr>gr_count = 1, gr_group_count = 2, gr_groups = [65535], gr_roots = [7],
     gr_matrix_bits = [0x3F800000, 0, 0x42480000, 0, 0x3F800000, 0, 0, 0, 0x3F800000]\<rparr>"

theorem group_payload_bijective_witness:
  "fpc_group_load_payload (\<lambda>_. True)
     ([1, 0, 2, 0, 255, 255, 7, 0, 0, 0, 128, 63, 0, 0, 0, 0, 0, 0, 72, 66, 0, 0, 0, 0, 0, 0, 128, 63,
       0, 0, 0, 0, 0, 0, 0, 0, 0, 0, 0, 0, 0, 0, 128, 63]) = Some (Inr sample_groups)"
  by (rule iffD2 [OF group_payload_bijective [of "\<lambda>_. True"]])
    (simp_all add: sample_groups_def fpc_group_payload_def group_entries_def st_group_def
      st16_def store_le32_eq write_out_def upt_rec)

end
