(* ===== verification/Float32.thy ===== *)
theory Float32
  imports Prelude
begin

text \<open>
  IEEE-754 binary32 arithmetic, as the C code uses it: \<open>float\<close> on a target that evaluates in
  single precision with round-to-nearest-even and without contraction (the build passes
  \<^verbatim>\<open>-ffp-contract=off -fno-fast-math\<close>). A \<open>float\<close> is its 32-bit pattern, so the code's
  \<^verbatim>\<open>memcpy\<close> between \<open>float\<close> and \<open>uint32_t\<close> is the constructor and the selector. Every
  operation computes the exact result as an integer times a power of two and rounds it once. NaN
  payloads are not tracked: every NaN result is the one quiet pattern.
\<close>

datatype f32 = F32 (f_bits: u32)

definition f_sign :: "f32 \<Rightarrow> bool" where
  "f_sign x = bit (f_bits x) 31"

definition f_code :: "f32 \<Rightarrow> int" where
  "f_code x = uint (f_bits x AND 0x7FFFFFFF)"

definition f_exp :: "f32 \<Rightarrow> int" where
  "f_exp x = f_code x div 2 ^ 23"

definition f_frac :: "f32 \<Rightarrow> int" where
  "f_frac x = f_code x mod 2 ^ 23"

definition f_nan :: f32 where
  "f_nan = F32 0x7FC00000"

definition f_is_nan :: "f32 \<Rightarrow> bool" where
  "f_is_nan x \<longleftrightarrow> 0x7F800000 < f_code x"

definition f_is_inf :: "f32 \<Rightarrow> bool" where
  "f_is_inf x \<longleftrightarrow> f_code x = 0x7F800000"

text \<open>A finite float is \<open>(-1)^sign * f_mant * 2 ^ (f_scale - 150)\<close>.\<close>

definition f_mant :: "f32 \<Rightarrow> int" where
  "f_mant x = (if f_exp x = 0 then f_frac x else f_frac x + 2 ^ 23)"

definition f_scale :: "f32 \<Rightarrow> int" where
  "f_scale x = (if f_exp x = 0 then 1 else f_exp x)"

definition f_make :: "bool \<Rightarrow> int \<Rightarrow> f32" where
  "f_make neg code = F32 (word_of_int ((if neg then 0x80000000 else 0) + code))"

function bitlen :: "int \<Rightarrow> int" where
  "bitlen n = (if n \<le> 0 then 0 else 1 + bitlen (n div 2))"
  by pat_completeness auto
termination
  by (relation "measure nat") auto

declare bitlen.simps [simp del]

text \<open>Drop \<open>k\<close> low bits, rounding to nearest with ties to even.\<close>

definition round_shift :: "int \<Rightarrow> nat \<Rightarrow> int" where
  "round_shift m k =
     (let q = m div 2 ^ k; r = m mod 2 ^ k
      in if 2 ^ k < 2 * r \<or> (2 ^ k = 2 * r \<and> odd q) then q + 1 else q)"

text \<open>The pattern (without sign) of the float nearest to \<open>m * 2 ^ (s - 150)\<close>.\<close>

definition round_code :: "int \<Rightarrow> int \<Rightarrow> int" where
  "round_code m s =
     (let k = max (bitlen m - 24) (1 - s);
          q = (if k \<le> 0 then m * 2 ^ nat (- k) else round_shift m (nat k));
          code = (s + k - 1) * 2 ^ 23 + q
      in if m = 0 then 0 else if 0x7F800000 \<le> code then 0x7F800000 else code)"

definition f_round :: "bool \<Rightarrow> int \<Rightarrow> int \<Rightarrow> f32" where
  "f_round neg m s = f_make neg (round_code m s)"

definition f_signed_mant :: "f32 \<Rightarrow> int" where
  "f_signed_mant x = (if f_sign x then - f_mant x else f_mant x)"

definition f_neg :: "f32 \<Rightarrow> f32" where
  "f_neg x = F32 (f_bits x XOR 0x80000000)"

definition f_add :: "f32 \<Rightarrow> f32 \<Rightarrow> f32" where
  "f_add x y =
     (if f_is_nan x \<or> f_is_nan y then f_nan
      else if f_is_inf x then (if f_is_inf y \<and> f_sign x \<noteq> f_sign y then f_nan else x)
      else if f_is_inf y then y
      else let s = min (f_scale x) (f_scale y);
               v = f_signed_mant x * 2 ^ nat (f_scale x - s)
                     + f_signed_mant y * 2 ^ nat (f_scale y - s)
           in if v = 0 then f_make (f_sign x \<and> f_sign y) 0
              else f_round (v < 0) \<bar>v\<bar> s)"

definition f_mul :: "f32 \<Rightarrow> f32 \<Rightarrow> f32" where
  "f_mul x y =
     (let neg = (f_sign x \<noteq> f_sign y)
      in if f_is_nan x \<or> f_is_nan y then f_nan
         else if f_is_inf x \<or> f_is_inf y then
           (if f_code x = 0 \<or> f_code y = 0 then f_nan else f_make neg 0x7F800000)
         else f_round neg (f_mant x * f_mant y) (f_scale x + f_scale y - 150))"

definition f_div :: "f32 \<Rightarrow> f32 \<Rightarrow> f32" where
  "f_div x y =
     (let neg = (f_sign x \<noteq> f_sign y)
      in if f_is_nan x \<or> f_is_nan y then f_nan
         else if f_is_inf x then (if f_is_inf y then f_nan else f_make neg 0x7F800000)
         else if f_is_inf y then f_make neg 0
         else if f_code y = 0 then (if f_code x = 0 then f_nan else f_make neg 0x7F800000)
         else let n = f_mant x * 2 ^ 60; q = n div f_mant y; r = n mod f_mant y
              in f_round neg (2 * q + (if r = 0 then 0 else 1)) (f_scale x - f_scale y + 89))"

text \<open>Comparisons: sign and magnitude as one integer, with both zeros equal and NaN unordered.\<close>

definition f_key :: "f32 \<Rightarrow> int" where
  "f_key x = (if f_sign x then - f_code x else f_code x)"

definition f_eq :: "f32 \<Rightarrow> f32 \<Rightarrow> bool" where
  "f_eq x y \<longleftrightarrow> \<not> f_is_nan x \<and> \<not> f_is_nan y \<and> f_key x = f_key y"

text \<open>
  Conversions. The cast to \<open>int32_t\<close> truncates; outside the target range C leaves it undefined and
  the model takes the value the x86 conversion instruction gives.
\<close>

definition f_of_int :: "int \<Rightarrow> f32" where
  "f_of_int n = f_round (n < 0) \<bar>n\<bar> 150"

definition f_trunc :: "f32 \<Rightarrow> int" where
  "f_trunc x =
     (let m = (if 150 \<le> f_scale x then f_mant x * 2 ^ nat (f_scale x - 150)
               else f_mant x div 2 ^ nat (150 - f_scale x))
      in if f_sign x then - m else m)"

definition f_to_i32 :: "f32 \<Rightarrow> int" where
  "f_to_i32 x =
     (if f_is_nan x \<or> f_is_inf x \<or> f_trunc x < - 2147483648 \<or> 2147483647 < f_trunc x
      then - 2147483648 else f_trunc x)"

instantiation f32 :: "{zero, one, plus, uminus, minus, times, inverse, ord}"
begin

definition zero_f32 :: f32 where
  "zero_f32 = F32 0"

definition one_f32 :: f32 where
  "one_f32 = F32 0x3F800000"

definition plus_f32 :: "f32 \<Rightarrow> f32 \<Rightarrow> f32" where
  "plus_f32 = f_add"

definition uminus_f32 :: "f32 \<Rightarrow> f32" where
  "uminus_f32 = f_neg"

definition minus_f32 :: "f32 \<Rightarrow> f32 \<Rightarrow> f32" where
  "minus_f32 x y = f_add x (f_neg y)"

definition times_f32 :: "f32 \<Rightarrow> f32 \<Rightarrow> f32" where
  "times_f32 = f_mul"

definition divide_f32 :: "f32 \<Rightarrow> f32 \<Rightarrow> f32" where
  "divide_f32 = f_div"

definition inverse_f32 :: "f32 \<Rightarrow> f32" where
  "inverse_f32 = f_div (F32 0x3F800000)"

definition less_eq_f32 :: "f32 \<Rightarrow> f32 \<Rightarrow> bool" where
  "less_eq_f32 x y \<longleftrightarrow> \<not> f_is_nan x \<and> \<not> f_is_nan y \<and> f_key x \<le> f_key y"

definition less_f32 :: "f32 \<Rightarrow> f32 \<Rightarrow> bool" where
  "less_f32 x y \<longleftrightarrow> \<not> f_is_nan x \<and> \<not> f_is_nan y \<and> f_key x < f_key y"

instance ..

end

text \<open>The equations that evaluate closed float expressions.\<close>

lemmas f_arith = zero_f32_def one_f32_def plus_f32_def uminus_f32_def minus_f32_def times_f32_def
  divide_f32_def less_eq_f32_def less_f32_def

end
