(* ===== verification/TransformTables.thy ===== *)
theory TransformTables
  imports Float32
begin

text \<open>
  Literal tables of the cosine transform (\<^verbatim>\<open>profile300_tables.h\<close>: \<^verbatim>\<open>fpc_fft_permutation\<close>,
  \<^verbatim>\<open>fpc_fft_twiddles\<close>, \<^verbatim>\<open>fpc_dct_scales\<close>). The permutation of length \<open>n\<close> starts at
  entry \<open>n - 1\<close>. Floats are given by their bit patterns.
\<close>

definition fpc_fft_permutation :: "nat list" where
  "fpc_fft_permutation =
     [
      0, 0, 1, 0, 2, 1, 3, 0, 4, 2, 6, 1, 5, 3, 7, 0, 8, 4, 12, 2, 10, 6, 14, 1, 9, 5, 13, 3,
      11, 7, 15, 0, 16, 8, 24, 4, 20, 12, 28, 2, 18, 10, 26, 6, 22, 14, 30, 1, 17, 9, 25, 5,
      21, 13, 29, 3, 19, 11, 27, 7, 23, 15, 31, 0, 32, 16, 48, 8, 40, 24, 56, 4, 36, 20, 52,
      12, 44, 28, 60, 2, 34, 18, 50, 10, 42, 26, 58, 6, 38, 22, 54, 14, 46, 30, 62, 1, 33, 17,
      49, 9, 41, 25, 57, 5, 37, 21, 53, 13, 45, 29, 61, 3, 35, 19, 51, 11, 43, 27, 59, 7, 39,
      23, 55, 15, 47, 31, 63, 0, 64, 32, 96, 16, 80, 48, 112, 8, 72, 40, 104, 24, 88, 56, 120,
      4, 68, 36, 100, 20, 84, 52, 116, 12, 76, 44, 108, 28, 92, 60, 124, 2, 66, 34, 98, 18, 82,
      50, 114, 10, 74, 42, 106, 26, 90, 58, 122, 6, 70, 38, 102, 22, 86, 54, 118, 14, 78, 46,
      110, 30, 94, 62, 126, 1, 65, 33, 97, 17, 81, 49, 113, 9, 73, 41, 105, 25, 89, 57, 121, 5,
      69, 37, 101, 21, 85, 53, 117, 13, 77, 45, 109, 29, 93, 61, 125, 3, 67, 35, 99, 19, 83,
      51, 115, 11, 75, 43, 107, 27, 91, 59, 123, 7, 71, 39, 103, 23, 87, 55, 119, 15, 79, 47,
      111, 31, 95, 63, 127, 0, 128, 64, 192, 32, 160, 96, 224, 16, 144, 80, 208, 48, 176, 112,
      240, 8, 136, 72, 200, 40, 168, 104, 232, 24, 152, 88, 216, 56, 184, 120, 248, 4, 132, 68,
      196, 36, 164, 100, 228, 20, 148, 84, 212, 52, 180, 116, 244, 12, 140, 76, 204, 44, 172,
      108, 236, 28, 156, 92, 220, 60, 188, 124, 252, 2, 130, 66, 194, 34, 162, 98, 226, 18,
      146, 82, 210, 50, 178, 114, 242, 10, 138, 74, 202, 42, 170, 106, 234, 26, 154, 90, 218,
      58, 186, 122, 250, 6, 134, 70, 198, 38, 166, 102, 230, 22, 150, 86, 214, 54, 182, 118,
      246, 14, 142, 78, 206, 46, 174, 110, 238, 30, 158, 94, 222, 62, 190, 126, 254, 1, 129,
      65, 193, 33, 161, 97, 225, 17, 145, 81, 209, 49, 177, 113, 241, 9, 137, 73, 201, 41, 169,
      105, 233, 25, 153, 89, 217, 57, 185, 121, 249, 5, 133, 69, 197, 37, 165, 101, 229, 21,
      149, 85, 213, 53, 181, 117, 245, 13, 141, 77, 205, 45, 173, 109, 237, 29, 157, 93, 221,
      61, 189, 125, 253, 3, 131, 67, 195, 35, 163, 99, 227, 19, 147, 83, 211, 51, 179, 115,
      243, 11, 139, 75, 203, 43, 171, 107, 235, 27, 155, 91, 219, 59, 187, 123, 251, 7, 135,
      71, 199, 39, 167, 103, 231, 23, 151, 87, 215, 55, 183, 119, 247, 15, 143, 79, 207, 47,
      175, 111, 239, 31, 159, 95, 223, 63, 191, 127, 255, 0]"

definition fpc_fft_twiddles :: "f32 list" where
  "fpc_fft_twiddles =
     map F32 [
      0x3F800000, 0x00000000, 0x3F7FFFB1, 0x3B491080, 0x3F7FFEC5, 0x3BC90FA9, 0x3F7FFD39,
      0x3C16CB89, 0x3F7FFB11, 0x3C490E67, 0x3F7FF849, 0x3C7B5145, 0x3F7FF4E6, 0x3C96C9A6,
      0x3F7FF0E3, 0x3CAFEA74, 0x3F7FEC43, 0x3CC90AA0, 0x3F7FE705, 0x3CE22A62, 0x3F7FE129,
      0x3CFB49B8, 0x3F7FDAAF, 0x3D0A3436, 0x3F7FD398, 0x3D16C326, 0x3F7FCBE3, 0x3D2351C4,
      0x3F7FC38E, 0x3D2FE012, 0x3F7FBA9E, 0x3D3C6DDA, 0x3F7FB110, 0x3D48FB36, 0x3F7FA6E2,
      0x3D55880D, 0x3F7F9C19, 0x3D62145D, 0x3F7F90B0, 0x3D6EA041, 0x3F7F84AB, 0x3D7B2B6A,
      0x3F7F7808, 0x3D83DB06, 0x3F7F6AC8, 0x3D8A2007, 0x3F7F5CEA, 0x3D9064B7, 0x3F7F4E6E,
      0x3D96A909, 0x3F7F3F55, 0x3D9CECFE, 0x3F7F2F9D, 0x3DA33087, 0x3F7F1F49, 0x3DA973BF,
      0x3F7F0E58, 0x3DAFB67F, 0x3F7EFCC9, 0x3DB5F8E0, 0x3F7EEA9D, 0x3DBC3AC9, 0x3F7ED7D4,
      0x3DC27C39, 0x3F7EC46D, 0x3DC8BD30, 0x3F7EB069, 0x3DCEFDBC, 0x3F7E9BC9, 0x3DD53DB5,
      0x3F7E868A, 0x3DDB7D34, 0x3F7E70B0, 0x3DE1BC2D, 0x3F7E5A38, 0x3DE7FAA0, 0x3F7E4323,
      0x3DEE3872, 0x3F7E2B72, 0x3DF475BE, 0x3F7E1323, 0x3DFAB276, 0x3F7DFA38, 0x3E007747,
      0x3F7DE0B2, 0x3E039502, 0x3F7DC68D, 0x3E06B26C, 0x3F7DABCB, 0x3E09CF86, 0x3F7D906E,
      0x3E0CEC49, 0x3F7D7474, 0x3E1008B4, 0x3F7D57DE, 0x3E1324C8, 0x3F7D3AAC, 0x3E164085,
      0x3F7D1CDE, 0x3E195BDD, 0x3F7CFE73, 0x3E1C76DF, 0x3F7CDF6B, 0x3E1F917B, 0x3F7CBFC9,
      0x3E22ABB3, 0x3F7C9F8A, 0x3E25C58C, 0x3F7C7EB0, 0x3E28DEFB, 0x3F7C5D3A, 0x3E2BF805,
      0x3F7C3B27, 0x3E2F10A3, 0x3F7C187A, 0x3E3228D6, 0x3F7BF531, 0x3E354097, 0x3F7BD14D,
      0x3E3857EC, 0x3F7BACCD, 0x3E3B6ED0, 0x3F7B87B2, 0x3E3E8541, 0x3F7B61FC, 0x3E419B3A,
      0x3F7B3BAB, 0x3E44B0B9, 0x3F7B14BF, 0x3E47C5C0, 0x3F7AED37, 0x3E4ADA4F, 0x3F7AC516,
      0x3E4DEE5D, 0x3F7A9C59, 0x3E5101F3, 0x3F7A7302, 0x3E541503, 0x3F7A4911, 0x3E57278C,
      0x3F7A1E83, 0x3E5A3996, 0x3F79F35D, 0x3E5D4B1A, 0x3F79C79D, 0x3E605C11, 0x3F799B42,
      0x3E636C81, 0x3F796E4F, 0x3E667C65, 0x3F7940BF, 0x3E698BBC, 0x3F791299, 0x3E6C9A7F,
      0x3F78E3D6, 0x3E6FA8B5, 0x3F78B47B, 0x3E72B651, 0x3F788485, 0x3E75C359, 0x3F7853F9,
      0x3E78CFCD, 0x3F7822D0, 0x3E7BDBA7, 0x3F77F110, 0x3E7EE6E0, 0x3F77BEB7, 0x3E80F8C0,
      0x3F778BC6, 0x3E827DC2, 0x3F77583A, 0x3E840270, 0x3F772416, 0x3E8586CE, 0x3F76EF5B,
      0x3E870ADB, 0x3F76BA08, 0x3E888E95, 0x3F76841C, 0x3E8A11F7, 0x3F764D97, 0x3E8B9508,
      0x3F76167B, 0x3E8D17BF, 0x3F75DEC6, 0x3E8E9A22, 0x3F75A67A, 0x3E901C2B, 0x3F756D98,
      0x3E919DDC, 0x3F75341C, 0x3E931F36, 0x3F74FA0A, 0x3E94A032, 0x3F74BF63, 0x3E9620D4,
      0x3F748422, 0x3E97A117, 0x3F74484B, 0x3E9920FD, 0x3F740BDD, 0x3E9AA084, 0x3F73CED9,
      0x3E9C1FAE, 0x3F73913F, 0x3E9D9E76, 0x3F73530F, 0x3E9F1CE1, 0x3F731448, 0x3EA09AE3,
      0x3F72D4EA, 0x3EA21888, 0x3F7294F8, 0x3EA395C4, 0x3F725470, 0x3EA5129F, 0x3F721352,
      0x3EA68F12, 0x3F71D19F, 0x3EA80B1D, 0x3F718F58, 0x3EA986C4, 0x3F714C7A, 0x3EAB0202,
      0x3F710909, 0x3EAC7CD5, 0x3F70C502, 0x3EADF73D, 0x3F708066, 0x3EAF7139, 0x3F703B36,
      0x3EB0EACA, 0x3F6FF573, 0x3EB263F0, 0x3F6FAF1C, 0x3EB3DCA6, 0x3F6F6830, 0x3EB554EB,
      0x3F6F20B1, 0x3EB6CCC4, 0x3F6ED89E, 0x3EB84428, 0x3F6E8FF8, 0x3EB9BB1D, 0x3F6E46BF,
      0x3EBB31A1, 0x3F6DFCF2, 0x3EBCA7AE, 0x3F6DB293, 0x3EBE1D4A, 0x3F6D67A1, 0x3EBF9270,
      0x3F6D1C1D, 0x3EC1071D, 0x3F6CD006, 0x3EC27B55, 0x3F6C835E, 0x3EC3EF14, 0x3F6C3624,
      0x3EC5625E, 0x3F6BE857, 0x3EC6D528, 0x3F6B99FB, 0x3EC8477D, 0x3F6B4B0C, 0x3EC9B952,
      0x3F6AFB8C, 0x3ECB2AAE, 0x3F6AAB7B, 0x3ECC9B8B, 0x3F6A5AD9, 0x3ECE0BEC, 0x3F6A09A7,
      0x3ECF7BCA, 0x3F69B7E4, 0x3ED0EB2B, 0x3F696590, 0x3ED25A0A, 0x3F6912AE, 0x3ED3C866,
      0x3F68BF3C, 0x3ED53643, 0x3F686B39, 0x3ED6A399, 0x3F6816A8, 0x3ED8106C, 0x3F67C188,
      0x3ED97CBA, 0x3F676BD8, 0x3EDAE881, 0x3F671599, 0x3EDC53C1, 0x3F66BECC, 0x3EDDBE78,
      0x3F666771, 0x3EDF28A9, 0x3F660F88, 0x3EE0924D, 0x3F65B711, 0x3EE1FB6B, 0x3F655E0A,
      0x3EE363F9, 0x3F650479, 0x3EE4CBFD, 0x3F64AA59, 0x3EE63374, 0x3F644FAC, 0x3EE79A5E,
      0x3F63F472, 0x3EE900B8, 0x3F6398AD, 0x3EEA6681, 0x3F633C59, 0x3EEBCBBA, 0x3F62DF7A,
      0x3EED3063, 0x3F628210, 0x3EEE9479, 0x3F622419, 0x3EEFF7FA, 0x3F61C598, 0x3EF15AE9,
      0x3F61668A, 0x3EF2BD43, 0x3F6106F2, 0x3EF41F06, 0x3F60A6CF, 0x3EF58036, 0x3F604621,
      0x3EF6E0CC, 0x3F5FE4EA, 0x3EF840C7, 0x3F5F8327, 0x3EF9A02E, 0x3F5F20DB, 0x3EFAFEF8,
      0x3F5EBE06, 0x3EFC5D27, 0x3F5E5AA6, 0x3EFDBABC, 0x3F5DF6BD, 0x3EFF17B3, 0x3F5D924D,
      0x3F003A07, 0x3F5D2D54, 0x3F00E7E5, 0x3F5CC7D2, 0x3F019572, 0x3F5C61C6, 0x3F0242B0,
      0x3F5BFB34, 0x3F02EFA0, 0x3F5B941A, 0x3F039C3C, 0x3F5B2C78, 0x3F044889, 0x3F5AC450,
      0x3F04F484, 0x3F5A5BA0, 0x3F05A02C, 0x3F59F26A, 0x3F064B83, 0x3F5988AE, 0x3F06F685,
      0x3F591E69, 0x3F07A135, 0x3F58B3A1, 0x3F084B92, 0x3F584853, 0x3F08F59A, 0x3F57DC7E,
      0x3F099F4F, 0x3F577026, 0x3F0A48AE, 0x3F570348, 0x3F0AF1B7, 0x3F5695E5, 0x3F0B9A6B,
      0x3F5627FD, 0x3F0C42CA, 0x3F55B993, 0x3F0CEAD1, 0x3F554AA4, 0x3F0D9281, 0x3F54DB31,
      0x3F0E39D9, 0x3F546B3B, 0x3F0EE0DB, 0x3F53FAC2, 0x3F0F8785, 0x3F5389C8, 0x3F102DD4,
      0x3F531849, 0x3F10D3CD, 0x3F52A649, 0x3F11796C, 0x3F5233C6, 0x3F121EAF, 0x3F51C0C2,
      0x3F12C39B, 0x3F514D3D, 0x3F13682B, 0x3F50D936, 0x3F140C60, 0x3F5064AF, 0x3F14B03A,
      0x3F4FEFA8, 0x3F1553B8, 0x3F4F7A20, 0x3F15F6DA, 0x3F4F0418, 0x3F16999E, 0x3F4E8D90,
      0x3F173C07, 0x3F4E1688, 0x3F17DE12, 0x3F4D9F02, 0x3F187FC0, 0x3F4D26FE, 0x3F19210F,
      0x3F4CAE7A, 0x3F19C201, 0x3F4C3577, 0x3F1A6293, 0x3F4BBBF8, 0x3F1B02C5, 0x3F4B41FA,
      0x3F1BA299, 0x3F4AC780, 0x3F1C420C, 0x3F4A4C87, 0x3F1CE11F, 0x3F49D112, 0x3F1D7FD1,
      0x3F495521, 0x3F1E1E22, 0x3F48D8B4, 0x3F1EBC12, 0x3F485BCA, 0x3F1F59A0, 0x3F47DE65,
      0x3F1FF6CB, 0x3F476085, 0x3F209393, 0x3F46E22A, 0x3F212FF8, 0x3F466354, 0x3F21CBFA,
      0x3F45E404, 0x3F226799, 0x3F456439, 0x3F2302D4, 0x3F44E3F4, 0x3F239DA8, 0x3F446337,
      0x3F243819, 0x3F43E201, 0x3F24D224, 0x3F436051, 0x3F256BCA, 0x3F42DE29, 0x3F26050A,
      0x3F425B89, 0x3F269DE4, 0x3F41D870, 0x3F273655, 0x3F4154E1, 0x3F27CE62, 0x3F40D0DA,
      0x3F286605, 0x3F404C5B, 0x3F28FD40, 0x3F3FC767, 0x3F299415, 0x3F3F41FC, 0x3F2A2A80,
      0x3F3EBC1C, 0x3F2AC081, 0x3F3E35C6, 0x3F2B561B, 0x3F3DAEF9, 0x3F2BEB4A, 0x3F3D27B8,
      0x3F2C800F, 0x3F3CA003, 0x3F2D1469, 0x3F3C17D9, 0x3F2DA858, 0x3F3B8F3B, 0x3F2E3BDE,
      0x3F3B062A, 0x3F2ECEF6, 0x3F3A7CA5, 0x3F2F61A5, 0x3F39F2AD, 0x3F2FF3E5, 0x3F396842,
      0x3F3085BA, 0x3F38DD65, 0x3F311723, 0x3F385215, 0x3F31A81E, 0x3F37C654, 0x3F3238AA,
      0x3F373A22, 0x3F32C8C8, 0x3F36AD80, 0x3F33587A, 0x3F36206C, 0x3F33E7BB, 0x3F3592E7,
      0x3F347690, 0x3F3504F4, 0x3F3504F4, 0x3F347690, 0x3F3592E7, 0x3F33E7BB, 0x3F36206C,
      0x3F33587A, 0x3F36AD80, 0x3F32C8C8, 0x3F373A22, 0x3F3238AA, 0x3F37C654, 0x3F31A81E,
      0x3F385215, 0x3F311723, 0x3F38DD65, 0x3F3085BA, 0x3F396842, 0x3F2FF3E5, 0x3F39F2AD,
      0x3F2F61A5, 0x3F3A7CA5, 0x3F2ECEF6, 0x3F3B062A, 0x3F2E3BDE, 0x3F3B8F3B, 0x3F2DA858,
      0x3F3C17D9, 0x3F2D1469, 0x3F3CA003, 0x3F2C800F, 0x3F3D27B8, 0x3F2BEB4A, 0x3F3DAEF9,
      0x3F2B561B, 0x3F3E35C6, 0x3F2AC081, 0x3F3EBC1C, 0x3F2A2A80, 0x3F3F41FC, 0x3F299415,
      0x3F3FC767, 0x3F28FD40, 0x3F404C5B, 0x3F286605, 0x3F40D0DA, 0x3F27CE62, 0x3F4154E1,
      0x3F273655, 0x3F41D870, 0x3F269DE4, 0x3F425B89, 0x3F26050A, 0x3F42DE29, 0x3F256BCA,
      0x3F436051, 0x3F24D224, 0x3F43E201, 0x3F243819, 0x3F446337, 0x3F239DA8, 0x3F44E3F4,
      0x3F2302D4, 0x3F456439, 0x3F226799, 0x3F45E404, 0x3F21CBFA, 0x3F466354, 0x3F212FF8,
      0x3F46E22A, 0x3F209393, 0x3F476085, 0x3F1FF6CB, 0x3F47DE65, 0x3F1F59A0, 0x3F485BCA,
      0x3F1EBC12, 0x3F48D8B4, 0x3F1E1E22, 0x3F495521, 0x3F1D7FD1, 0x3F49D112, 0x3F1CE11F,
      0x3F4A4C87, 0x3F1C420C, 0x3F4AC780, 0x3F1BA299, 0x3F4B41FA, 0x3F1B02C5, 0x3F4BBBF8,
      0x3F1A6293, 0x3F4C3577, 0x3F19C201, 0x3F4CAE7A, 0x3F19210F, 0x3F4D26FE, 0x3F187FC0,
      0x3F4D9F02, 0x3F17DE12, 0x3F4E1688, 0x3F173C07, 0x3F4E8D90, 0x3F16999E, 0x3F4F0418,
      0x3F15F6DA, 0x3F4F7A20, 0x3F1553B8, 0x3F4FEFA8, 0x3F14B03A, 0x3F5064AF, 0x3F140C60,
      0x3F50D936, 0x3F13682B, 0x3F514D3D, 0x3F12C39B, 0x3F51C0C2, 0x3F121EAF, 0x3F5233C6,
      0x3F11796C, 0x3F52A649, 0x3F10D3CD, 0x3F531849, 0x3F102DD4, 0x3F5389C8, 0x3F0F8785,
      0x3F53FAC2, 0x3F0EE0DB, 0x3F546B3B, 0x3F0E39D9, 0x3F54DB31, 0x3F0D9281, 0x3F554AA4,
      0x3F0CEAD1, 0x3F55B993, 0x3F0C42CA, 0x3F5627FD, 0x3F0B9A6B, 0x3F5695E5, 0x3F0AF1B7,
      0x3F570348, 0x3F0A48AE, 0x3F577026, 0x3F099F4F, 0x3F57DC7E, 0x3F08F59A, 0x3F584853,
      0x3F084B92, 0x3F58B3A1, 0x3F07A135, 0x3F591E69, 0x3F06F685, 0x3F5988AE, 0x3F064B83,
      0x3F59F26A, 0x3F05A02C, 0x3F5A5BA0, 0x3F04F484, 0x3F5AC450, 0x3F044889, 0x3F5B2C78,
      0x3F039C3C, 0x3F5B941A, 0x3F02EFA0, 0x3F5BFB34, 0x3F0242B0, 0x3F5C61C6, 0x3F019572,
      0x3F5CC7D2, 0x3F00E7E5, 0x3F5D2D54, 0x3F003A07, 0x3F5D924D, 0x3EFF17B3, 0x3F5DF6BD,
      0x3EFDBABC, 0x3F5E5AA6, 0x3EFC5D27, 0x3F5EBE06, 0x3EFAFEF8, 0x3F5F20DB, 0x3EF9A02E,
      0x3F5F8327, 0x3EF840C7, 0x3F5FE4EA, 0x3EF6E0CC, 0x3F604621, 0x3EF58036, 0x3F60A6CF,
      0x3EF41F06, 0x3F6106F2, 0x3EF2BD43, 0x3F61668A, 0x3EF15AE9, 0x3F61C598, 0x3EEFF7FA,
      0x3F622419, 0x3EEE9479, 0x3F628210, 0x3EED3063, 0x3F62DF7A, 0x3EEBCBBA, 0x3F633C59,
      0x3EEA6681, 0x3F6398AD, 0x3EE900B8, 0x3F63F472, 0x3EE79A5E, 0x3F644FAC, 0x3EE63374,
      0x3F64AA59, 0x3EE4CBFD, 0x3F650479, 0x3EE363F9, 0x3F655E0A, 0x3EE1FB6B, 0x3F65B711,
      0x3EE0924D, 0x3F660F88, 0x3EDF28A9, 0x3F666771, 0x3EDDBE78, 0x3F66BECC, 0x3EDC53C1,
      0x3F671599, 0x3EDAE881, 0x3F676BD8, 0x3ED97CBA, 0x3F67C188, 0x3ED8106C, 0x3F6816A8,
      0x3ED6A399, 0x3F686B39, 0x3ED53643, 0x3F68BF3C, 0x3ED3C866, 0x3F6912AE, 0x3ED25A0A,
      0x3F696590, 0x3ED0EB2B, 0x3F69B7E4, 0x3ECF7BCA, 0x3F6A09A7, 0x3ECE0BEC, 0x3F6A5AD9,
      0x3ECC9B8B, 0x3F6AAB7B, 0x3ECB2AAE, 0x3F6AFB8C, 0x3EC9B952, 0x3F6B4B0C, 0x3EC8477D,
      0x3F6B99FB, 0x3EC6D528, 0x3F6BE857, 0x3EC5625E, 0x3F6C3624, 0x3EC3EF14, 0x3F6C835E,
      0x3EC27B55, 0x3F6CD006, 0x3EC1071D, 0x3F6D1C1D, 0x3EBF9270, 0x3F6D67A1, 0x3EBE1D4A,
      0x3F6DB293, 0x3EBCA7AE, 0x3F6DFCF2, 0x3EBB31A1, 0x3F6E46BF, 0x3EB9BB1D, 0x3F6E8FF8,
      0x3EB84428, 0x3F6ED89E, 0x3EB6CCC4, 0x3F6F20B1, 0x3EB554EB, 0x3F6F6830, 0x3EB3DCA6,
      0x3F6FAF1C, 0x3EB263F0, 0x3F6FF573, 0x3EB0EACA, 0x3F703B36, 0x3EAF7139, 0x3F708066,
      0x3EADF73D, 0x3F70C502, 0x3EAC7CD5, 0x3F710909, 0x3EAB0202, 0x3F714C7A, 0x3EA986C4,
      0x3F718F58, 0x3EA80B1D, 0x3F71D19F, 0x3EA68F12, 0x3F721352, 0x3EA5129F, 0x3F725470,
      0x3EA395C4, 0x3F7294F8, 0x3EA21888, 0x3F72D4EA, 0x3EA09AE3, 0x3F731448, 0x3E9F1CE1,
      0x3F73530F, 0x3E9D9E76, 0x3F73913F, 0x3E9C1FAE, 0x3F73CED9, 0x3E9AA084, 0x3F740BDD,
      0x3E9920FD, 0x3F74484B, 0x3E97A117, 0x3F748422, 0x3E9620D4, 0x3F74BF63, 0x3E94A032,
      0x3F74FA0A, 0x3E931F36, 0x3F75341C, 0x3E919DDC, 0x3F756D98, 0x3E901C2B, 0x3F75A67A,
      0x3E8E9A22, 0x3F75DEC6, 0x3E8D17BF, 0x3F76167B, 0x3E8B9508, 0x3F764D97, 0x3E8A11F7,
      0x3F76841C, 0x3E888E95, 0x3F76BA08, 0x3E870ADB, 0x3F76EF5B, 0x3E8586CE, 0x3F772416,
      0x3E840270, 0x3F77583A, 0x3E827DC2, 0x3F778BC6, 0x3E80F8C0, 0x3F77BEB7, 0x3E7EE6E0,
      0x3F77F110, 0x3E7BDBA7, 0x3F7822D0, 0x3E78CFCD, 0x3F7853F9, 0x3E75C359, 0x3F788485,
      0x3E72B651, 0x3F78B47B, 0x3E6FA8B5, 0x3F78E3D6, 0x3E6C9A7F, 0x3F791299, 0x3E698BBC,
      0x3F7940BF, 0x3E667C65, 0x3F796E4F, 0x3E636C81, 0x3F799B42, 0x3E605C11, 0x3F79C79D,
      0x3E5D4B1A, 0x3F79F35D, 0x3E5A3996, 0x3F7A1E83, 0x3E57278C, 0x3F7A4911, 0x3E541503,
      0x3F7A7302, 0x3E5101F3, 0x3F7A9C59, 0x3E4DEE5D, 0x3F7AC516, 0x3E4ADA4F, 0x3F7AED37,
      0x3E47C5C0, 0x3F7B14BF, 0x3E44B0B9, 0x3F7B3BAB, 0x3E419B3A, 0x3F7B61FC, 0x3E3E8541,
      0x3F7B87B2, 0x3E3B6ED0, 0x3F7BACCD, 0x3E3857EC, 0x3F7BD14D, 0x3E354097, 0x3F7BF531,
      0x3E3228D6, 0x3F7C187A, 0x3E2F10A3, 0x3F7C3B27, 0x3E2BF805, 0x3F7C5D3A, 0x3E28DEFB,
      0x3F7C7EB0, 0x3E25C58C, 0x3F7C9F8A, 0x3E22ABB3, 0x3F7CBFC9, 0x3E1F917B, 0x3F7CDF6B,
      0x3E1C76DF, 0x3F7CFE73, 0x3E195BDD, 0x3F7D1CDE, 0x3E164085, 0x3F7D3AAC, 0x3E1324C8,
      0x3F7D57DE, 0x3E1008B4, 0x3F7D7474, 0x3E0CEC49, 0x3F7D906E, 0x3E09CF86, 0x3F7DABCB,
      0x3E06B26C, 0x3F7DC68D, 0x3E039502, 0x3F7DE0B2, 0x3E007747, 0x3F7DFA38, 0x3DFAB276,
      0x3F7E1323, 0x3DF475BE, 0x3F7E2B72, 0x3DEE3872, 0x3F7E4323, 0x3DE7FAA0, 0x3F7E5A38,
      0x3DE1BC2D, 0x3F7E70B0, 0x3DDB7D34, 0x3F7E868A, 0x3DD53DB5, 0x3F7E9BC9, 0x3DCEFDBC,
      0x3F7EB069, 0x3DC8BD30, 0x3F7EC46D, 0x3DC27C39, 0x3F7ED7D4, 0x3DBC3AC9, 0x3F7EEA9D,
      0x3DB5F8E0, 0x3F7EFCC9, 0x3DAFB67F, 0x3F7F0E58, 0x3DA973BF, 0x3F7F1F49, 0x3DA33087,
      0x3F7F2F9D, 0x3D9CECFE, 0x3F7F3F55, 0x3D96A909, 0x3F7F4E6E, 0x3D9064B7, 0x3F7F5CEA,
      0x3D8A2007, 0x3F7F6AC8, 0x3D83DB06, 0x3F7F7808, 0x3D7B2B6A, 0x3F7F84AB, 0x3D6EA041,
      0x3F7F90B0, 0x3D62145D, 0x3F7F9C19, 0x3D55880D, 0x3F7FA6E2, 0x3D48FB36, 0x3F7FB110,
      0x3D3C6DDA, 0x3F7FBA9E, 0x3D2FE012, 0x3F7FC38E, 0x3D2351C4, 0x3F7FCBE3, 0x3D16C326,
      0x3F7FD398, 0x3D0A3436, 0x3F7FDAAF, 0x3CFB49B8, 0x3F7FE129, 0x3CE22A62, 0x3F7FE705,
      0x3CC90AA0, 0x3F7FEC43, 0x3CAFEA74, 0x3F7FF0E3, 0x3C96C9A6, 0x3F7FF4E6, 0x3C7B5145,
      0x3F7FF849, 0x3C490E67, 0x3F7FFB11, 0x3C16CB89, 0x3F7FFD39, 0x3BC90FA9, 0x3F7FFEC5,
      0x3B491080, 0x3F7FFFB1, 0x00000000, 0x3F800000, 0xBB491080, 0x3F7FFFB1, 0xBBC90FA9,
      0x3F7FFEC5, 0xBC16CB89, 0x3F7FFD39, 0xBC490E67, 0x3F7FFB11, 0xBC7B5145, 0x3F7FF849,
      0xBC96C9A6, 0x3F7FF4E6, 0xBCAFEA74, 0x3F7FF0E3, 0xBCC90AA0, 0x3F7FEC43, 0xBCE22A62,
      0x3F7FE705, 0xBCFB49B8, 0x3F7FE129, 0xBD0A3436, 0x3F7FDAAF, 0xBD16C326, 0x3F7FD398,
      0xBD2351C4, 0x3F7FCBE3, 0xBD2FE012, 0x3F7FC38E, 0xBD3C6DDA, 0x3F7FBA9E, 0xBD48FB36,
      0x3F7FB110, 0xBD55880D, 0x3F7FA6E2, 0xBD62145D, 0x3F7F9C19, 0xBD6EA041, 0x3F7F90B0,
      0xBD7B2B6A, 0x3F7F84AB, 0xBD83DB06, 0x3F7F7808, 0xBD8A2007, 0x3F7F6AC8, 0xBD9064B7,
      0x3F7F5CEA, 0xBD96A909, 0x3F7F4E6E, 0xBD9CECFE, 0x3F7F3F55, 0xBDA33087, 0x3F7F2F9D,
      0xBDA973BF, 0x3F7F1F49, 0xBDAFB67F, 0x3F7F0E58, 0xBDB5F8E0, 0x3F7EFCC9, 0xBDBC3AC9,
      0x3F7EEA9D, 0xBDC27C39, 0x3F7ED7D4, 0xBDC8BD30, 0x3F7EC46D, 0xBDCEFDBC, 0x3F7EB069,
      0xBDD53DB5, 0x3F7E9BC9, 0xBDDB7D34, 0x3F7E868A, 0xBDE1BC2D, 0x3F7E70B0, 0xBDE7FAA0,
      0x3F7E5A38, 0xBDEE3872, 0x3F7E4323, 0xBDF475BE, 0x3F7E2B72, 0xBDFAB276, 0x3F7E1323,
      0xBE007747, 0x3F7DFA38, 0xBE039502, 0x3F7DE0B2, 0xBE06B26C, 0x3F7DC68D, 0xBE09CF86,
      0x3F7DABCB, 0xBE0CEC49, 0x3F7D906E, 0xBE1008B4, 0x3F7D7474, 0xBE1324C8, 0x3F7D57DE,
      0xBE164085, 0x3F7D3AAC, 0xBE195BDD, 0x3F7D1CDE, 0xBE1C76DF, 0x3F7CFE73, 0xBE1F917B,
      0x3F7CDF6B, 0xBE22ABB3, 0x3F7CBFC9, 0xBE25C58C, 0x3F7C9F8A, 0xBE28DEFB, 0x3F7C7EB0,
      0xBE2BF805, 0x3F7C5D3A, 0xBE2F10A3, 0x3F7C3B27, 0xBE3228D6, 0x3F7C187A, 0xBE354097,
      0x3F7BF531, 0xBE3857EC, 0x3F7BD14D, 0xBE3B6ED0, 0x3F7BACCD, 0xBE3E8541, 0x3F7B87B2,
      0xBE419B3A, 0x3F7B61FC, 0xBE44B0B9, 0x3F7B3BAB, 0xBE47C5C0, 0x3F7B14BF, 0xBE4ADA4F,
      0x3F7AED37, 0xBE4DEE5D, 0x3F7AC516, 0xBE5101F3, 0x3F7A9C59, 0xBE541503, 0x3F7A7302,
      0xBE57278C, 0x3F7A4911, 0xBE5A3996, 0x3F7A1E83, 0xBE5D4B1A, 0x3F79F35D, 0xBE605C11,
      0x3F79C79D, 0xBE636C81, 0x3F799B42, 0xBE667C65, 0x3F796E4F, 0xBE698BBC, 0x3F7940BF,
      0xBE6C9A7F, 0x3F791299, 0xBE6FA8B5, 0x3F78E3D6, 0xBE72B651, 0x3F78B47B, 0xBE75C359,
      0x3F788485, 0xBE78CFCD, 0x3F7853F9, 0xBE7BDBA7, 0x3F7822D0, 0xBE7EE6E0, 0x3F77F110,
      0xBE80F8C0, 0x3F77BEB7, 0xBE827DC2, 0x3F778BC6, 0xBE840270, 0x3F77583A, 0xBE8586CE,
      0x3F772416, 0xBE870ADB, 0x3F76EF5B, 0xBE888E95, 0x3F76BA08, 0xBE8A11F7, 0x3F76841C,
      0xBE8B9508, 0x3F764D97, 0xBE8D17BF, 0x3F76167B, 0xBE8E9A22, 0x3F75DEC6, 0xBE901C2B,
      0x3F75A67A, 0xBE919DDC, 0x3F756D98, 0xBE931F36, 0x3F75341C, 0xBE94A032, 0x3F74FA0A,
      0xBE9620D4, 0x3F74BF63, 0xBE97A117, 0x3F748422, 0xBE9920FD, 0x3F74484B, 0xBE9AA084,
      0x3F740BDD, 0xBE9C1FAE, 0x3F73CED9, 0xBE9D9E76, 0x3F73913F, 0xBE9F1CE1, 0x3F73530F,
      0xBEA09AE3, 0x3F731448, 0xBEA21888, 0x3F72D4EA, 0xBEA395C4, 0x3F7294F8, 0xBEA5129F,
      0x3F725470, 0xBEA68F12, 0x3F721352, 0xBEA80B1D, 0x3F71D19F, 0xBEA986C4, 0x3F718F58,
      0xBEAB0202, 0x3F714C7A, 0xBEAC7CD5, 0x3F710909, 0xBEADF73D, 0x3F70C502, 0xBEAF7139,
      0x3F708066, 0xBEB0EACA, 0x3F703B36, 0xBEB263F0, 0x3F6FF573, 0xBEB3DCA6, 0x3F6FAF1C,
      0xBEB554EB, 0x3F6F6830, 0xBEB6CCC4, 0x3F6F20B1, 0xBEB84428, 0x3F6ED89E, 0xBEB9BB1D,
      0x3F6E8FF8, 0xBEBB31A1, 0x3F6E46BF, 0xBEBCA7AE, 0x3F6DFCF2, 0xBEBE1D4A, 0x3F6DB293,
      0xBEBF9270, 0x3F6D67A1, 0xBEC1071D, 0x3F6D1C1D, 0xBEC27B55, 0x3F6CD006, 0xBEC3EF14,
      0x3F6C835E, 0xBEC5625E, 0x3F6C3624, 0xBEC6D528, 0x3F6BE857, 0xBEC8477D, 0x3F6B99FB,
      0xBEC9B952, 0x3F6B4B0C, 0xBECB2AAE, 0x3F6AFB8C, 0xBECC9B8B, 0x3F6AAB7B, 0xBECE0BEC,
      0x3F6A5AD9, 0xBECF7BCA, 0x3F6A09A7, 0xBED0EB2B, 0x3F69B7E4, 0xBED25A0A, 0x3F696590,
      0xBED3C866, 0x3F6912AE, 0xBED53643, 0x3F68BF3C, 0xBED6A399, 0x3F686B39, 0xBED8106C,
      0x3F6816A8, 0xBED97CBA, 0x3F67C188, 0xBEDAE881, 0x3F676BD8, 0xBEDC53C1, 0x3F671599,
      0xBEDDBE78, 0x3F66BECC, 0xBEDF28A9, 0x3F666771, 0xBEE0924D, 0x3F660F88, 0xBEE1FB6B,
      0x3F65B711, 0xBEE363F9, 0x3F655E0A, 0xBEE4CBFD, 0x3F650479, 0xBEE63374, 0x3F64AA59,
      0xBEE79A5E, 0x3F644FAC, 0xBEE900B8, 0x3F63F472, 0xBEEA6681, 0x3F6398AD, 0xBEEBCBBA,
      0x3F633C59, 0xBEED3063, 0x3F62DF7A, 0xBEEE9479, 0x3F628210, 0xBEEFF7FA, 0x3F622419,
      0xBEF15AE9, 0x3F61C598, 0xBEF2BD43, 0x3F61668A, 0xBEF41F06, 0x3F6106F2, 0xBEF58036,
      0x3F60A6CF, 0xBEF6E0CC, 0x3F604621, 0xBEF840C7, 0x3F5FE4EA, 0xBEF9A02E, 0x3F5F8327,
      0xBEFAFEF8, 0x3F5F20DB, 0xBEFC5D27, 0x3F5EBE06, 0xBEFDBABC, 0x3F5E5AA6, 0xBEFF17B3,
      0x3F5DF6BD, 0xBF003A07, 0x3F5D924D, 0xBF00E7E5, 0x3F5D2D54, 0xBF019572, 0x3F5CC7D2,
      0xBF0242B0, 0x3F5C61C6, 0xBF02EFA0, 0x3F5BFB34, 0xBF039C3C, 0x3F5B941A, 0xBF044889,
      0x3F5B2C78, 0xBF04F484, 0x3F5AC450, 0xBF05A02C, 0x3F5A5BA0, 0xBF064B83, 0x3F59F26A,
      0xBF06F685, 0x3F5988AE, 0xBF07A135, 0x3F591E69, 0xBF084B92, 0x3F58B3A1, 0xBF08F59A,
      0x3F584853, 0xBF099F4F, 0x3F57DC7E, 0xBF0A48AE, 0x3F577026, 0xBF0AF1B7, 0x3F570348,
      0xBF0B9A6B, 0x3F5695E5, 0xBF0C42CA, 0x3F5627FD, 0xBF0CEAD1, 0x3F55B993, 0xBF0D9281,
      0x3F554AA4, 0xBF0E39D9, 0x3F54DB31, 0xBF0EE0DB, 0x3F546B3B, 0xBF0F8785, 0x3F53FAC2,
      0xBF102DD4, 0x3F5389C8, 0xBF10D3CD, 0x3F531849, 0xBF11796C, 0x3F52A649, 0xBF121EAF,
      0x3F5233C6, 0xBF12C39B, 0x3F51C0C2, 0xBF13682B, 0x3F514D3D, 0xBF140C60, 0x3F50D936,
      0xBF14B03A, 0x3F5064AF, 0xBF1553B8, 0x3F4FEFA8, 0xBF15F6DA, 0x3F4F7A20, 0xBF16999E,
      0x3F4F0418, 0xBF173C07, 0x3F4E8D90, 0xBF17DE12, 0x3F4E1688, 0xBF187FC0, 0x3F4D9F02,
      0xBF19210F, 0x3F4D26FE, 0xBF19C201, 0x3F4CAE7A, 0xBF1A6293, 0x3F4C3577, 0xBF1B02C5,
      0x3F4BBBF8, 0xBF1BA299, 0x3F4B41FA, 0xBF1C420C, 0x3F4AC780, 0xBF1CE11F, 0x3F4A4C87,
      0xBF1D7FD1, 0x3F49D112, 0xBF1E1E22, 0x3F495521, 0xBF1EBC12, 0x3F48D8B4, 0xBF1F59A0,
      0x3F485BCA, 0xBF1FF6CB, 0x3F47DE65, 0xBF209393, 0x3F476085, 0xBF212FF8, 0x3F46E22A,
      0xBF21CBFA, 0x3F466354, 0xBF226799, 0x3F45E404, 0xBF2302D4, 0x3F456439, 0xBF239DA8,
      0x3F44E3F4, 0xBF243819, 0x3F446337, 0xBF24D224, 0x3F43E201, 0xBF256BCA, 0x3F436051,
      0xBF26050A, 0x3F42DE29, 0xBF269DE4, 0x3F425B89, 0xBF273655, 0x3F41D870, 0xBF27CE62,
      0x3F4154E1, 0xBF286605, 0x3F40D0DA, 0xBF28FD40, 0x3F404C5B, 0xBF299415, 0x3F3FC767,
      0xBF2A2A80, 0x3F3F41FC, 0xBF2AC081, 0x3F3EBC1C, 0xBF2B561B, 0x3F3E35C6, 0xBF2BEB4A,
      0x3F3DAEF9, 0xBF2C800F, 0x3F3D27B8, 0xBF2D1469, 0x3F3CA003, 0xBF2DA858, 0x3F3C17D9,
      0xBF2E3BDE, 0x3F3B8F3B, 0xBF2ECEF6, 0x3F3B062A, 0xBF2F61A5, 0x3F3A7CA5, 0xBF2FF3E5,
      0x3F39F2AD, 0xBF3085BA, 0x3F396842, 0xBF311723, 0x3F38DD65, 0xBF31A81E, 0x3F385215,
      0xBF3238AA, 0x3F37C654, 0xBF32C8C8, 0x3F373A22, 0xBF33587A, 0x3F36AD80, 0xBF33E7BB,
      0x3F36206C, 0xBF347690, 0x3F3592E7, 0xBF3504F4, 0x3F3504F4, 0xBF3592E7, 0x3F347690,
      0xBF36206C, 0x3F33E7BB, 0xBF36AD80, 0x3F33587A, 0xBF373A22, 0x3F32C8C8, 0xBF37C654,
      0x3F3238AA, 0xBF385215, 0x3F31A81E, 0xBF38DD65, 0x3F311723, 0xBF396842, 0x3F3085BA,
      0xBF39F2AD, 0x3F2FF3E5, 0xBF3A7CA5, 0x3F2F61A5, 0xBF3B062A, 0x3F2ECEF6, 0xBF3B8F3B,
      0x3F2E3BDE, 0xBF3C17D9, 0x3F2DA858, 0xBF3CA003, 0x3F2D1469, 0xBF3D27B8, 0x3F2C800F,
      0xBF3DAEF9, 0x3F2BEB4A, 0xBF3E35C6, 0x3F2B561B, 0xBF3EBC1C, 0x3F2AC081, 0xBF3F41FC,
      0x3F2A2A80, 0xBF3FC767, 0x3F299415, 0xBF404C5B, 0x3F28FD40, 0xBF40D0DA, 0x3F286605,
      0xBF4154E1, 0x3F27CE62, 0xBF41D870, 0x3F273655, 0xBF425B89, 0x3F269DE4, 0xBF42DE29,
      0x3F26050A, 0xBF436051, 0x3F256BCA, 0xBF43E201, 0x3F24D224, 0xBF446337, 0x3F243819,
      0xBF44E3F4, 0x3F239DA8, 0xBF456439, 0x3F2302D4, 0xBF45E404, 0x3F226799, 0xBF466354,
      0x3F21CBFA, 0xBF46E22A, 0x3F212FF8, 0xBF476085, 0x3F209393, 0xBF47DE65, 0x3F1FF6CB,
      0xBF485BCA, 0x3F1F59A0, 0xBF48D8B4, 0x3F1EBC12, 0xBF495521, 0x3F1E1E22, 0xBF49D112,
      0x3F1D7FD1, 0xBF4A4C87, 0x3F1CE11F, 0xBF4AC780, 0x3F1C420C, 0xBF4B41FA, 0x3F1BA299,
      0xBF4BBBF8, 0x3F1B02C5, 0xBF4C3577, 0x3F1A6293, 0xBF4CAE7A, 0x3F19C201, 0xBF4D26FE,
      0x3F19210F, 0xBF4D9F02, 0x3F187FC0, 0xBF4E1688, 0x3F17DE12, 0xBF4E8D90, 0x3F173C07,
      0xBF4F0418, 0x3F16999E, 0xBF4F7A20, 0x3F15F6DA, 0xBF4FEFA8, 0x3F1553B8, 0xBF5064AF,
      0x3F14B03A, 0xBF50D936, 0x3F140C60, 0xBF514D3D, 0x3F13682B, 0xBF51C0C2, 0x3F12C39B,
      0xBF5233C6, 0x3F121EAF, 0xBF52A649, 0x3F11796C, 0xBF531849, 0x3F10D3CD, 0xBF5389C8,
      0x3F102DD4, 0xBF53FAC2, 0x3F0F8785, 0xBF546B3B, 0x3F0EE0DB, 0xBF54DB31, 0x3F0E39D9,
      0xBF554AA4, 0x3F0D9281, 0xBF55B993, 0x3F0CEAD1, 0xBF5627FD, 0x3F0C42CA, 0xBF5695E5,
      0x3F0B9A6B, 0xBF570348, 0x3F0AF1B7, 0xBF577026, 0x3F0A48AE, 0xBF57DC7E, 0x3F099F4F,
      0xBF584853, 0x3F08F59A, 0xBF58B3A1, 0x3F084B92, 0xBF591E69, 0x3F07A135, 0xBF5988AE,
      0x3F06F685, 0xBF59F26A, 0x3F064B83, 0xBF5A5BA0, 0x3F05A02C, 0xBF5AC450, 0x3F04F484,
      0xBF5B2C78, 0x3F044889, 0xBF5B941A, 0x3F039C3C, 0xBF5BFB34, 0x3F02EFA0, 0xBF5C61C6,
      0x3F0242B0, 0xBF5CC7D2, 0x3F019572, 0xBF5D2D54, 0x3F00E7E5, 0xBF5D924D, 0x3F003A07,
      0xBF5DF6BD, 0x3EFF17B3, 0xBF5E5AA6, 0x3EFDBABC, 0xBF5EBE06, 0x3EFC5D27, 0xBF5F20DB,
      0x3EFAFEF8, 0xBF5F8327, 0x3EF9A02E, 0xBF5FE4EA, 0x3EF840C7, 0xBF604621, 0x3EF6E0CC,
      0xBF60A6CF, 0x3EF58036, 0xBF6106F2, 0x3EF41F06, 0xBF61668A, 0x3EF2BD43, 0xBF61C598,
      0x3EF15AE9, 0xBF622419, 0x3EEFF7FA, 0xBF628210, 0x3EEE9479, 0xBF62DF7A, 0x3EED3063,
      0xBF633C59, 0x3EEBCBBA, 0xBF6398AD, 0x3EEA6681, 0xBF63F472, 0x3EE900B8, 0xBF644FAC,
      0x3EE79A5E, 0xBF64AA59, 0x3EE63374, 0xBF650479, 0x3EE4CBFD, 0xBF655E0A, 0x3EE363F9,
      0xBF65B711, 0x3EE1FB6B, 0xBF660F88, 0x3EE0924D, 0xBF666771, 0x3EDF28A9, 0xBF66BECC,
      0x3EDDBE78, 0xBF671599, 0x3EDC53C1, 0xBF676BD8, 0x3EDAE881, 0xBF67C188, 0x3ED97CBA,
      0xBF6816A8, 0x3ED8106C, 0xBF686B39, 0x3ED6A399, 0xBF68BF3C, 0x3ED53643, 0xBF6912AE,
      0x3ED3C866, 0xBF696590, 0x3ED25A0A, 0xBF69B7E4, 0x3ED0EB2B, 0xBF6A09A7, 0x3ECF7BCA,
      0xBF6A5AD9, 0x3ECE0BEC, 0xBF6AAB7B, 0x3ECC9B8B, 0xBF6AFB8C, 0x3ECB2AAE, 0xBF6B4B0C,
      0x3EC9B952, 0xBF6B99FB, 0x3EC8477D, 0xBF6BE857, 0x3EC6D528, 0xBF6C3624, 0x3EC5625E,
      0xBF6C835E, 0x3EC3EF14, 0xBF6CD006, 0x3EC27B55, 0xBF6D1C1D, 0x3EC1071D, 0xBF6D67A1,
      0x3EBF9270, 0xBF6DB293, 0x3EBE1D4A, 0xBF6DFCF2, 0x3EBCA7AE, 0xBF6E46BF, 0x3EBB31A1,
      0xBF6E8FF8, 0x3EB9BB1D, 0xBF6ED89E, 0x3EB84428, 0xBF6F20B1, 0x3EB6CCC4, 0xBF6F6830,
      0x3EB554EB, 0xBF6FAF1C, 0x3EB3DCA6, 0xBF6FF573, 0x3EB263F0, 0xBF703B36, 0x3EB0EACA,
      0xBF708066, 0x3EAF7139, 0xBF70C502, 0x3EADF73D, 0xBF710909, 0x3EAC7CD5, 0xBF714C7A,
      0x3EAB0202, 0xBF718F58, 0x3EA986C4, 0xBF71D19F, 0x3EA80B1D, 0xBF721352, 0x3EA68F12,
      0xBF725470, 0x3EA5129F, 0xBF7294F8, 0x3EA395C4, 0xBF72D4EA, 0x3EA21888, 0xBF731448,
      0x3EA09AE3, 0xBF73530F, 0x3E9F1CE1, 0xBF73913F, 0x3E9D9E76, 0xBF73CED9, 0x3E9C1FAE,
      0xBF740BDD, 0x3E9AA084, 0xBF74484B, 0x3E9920FD, 0xBF748422, 0x3E97A117, 0xBF74BF63,
      0x3E9620D4, 0xBF74FA0A, 0x3E94A032, 0xBF75341C, 0x3E931F36, 0xBF756D98, 0x3E919DDC,
      0xBF75A67A, 0x3E901C2B, 0xBF75DEC6, 0x3E8E9A22, 0xBF76167B, 0x3E8D17BF, 0xBF764D97,
      0x3E8B9508, 0xBF76841C, 0x3E8A11F7, 0xBF76BA08, 0x3E888E95, 0xBF76EF5B, 0x3E870ADB,
      0xBF772416, 0x3E8586CE, 0xBF77583A, 0x3E840270, 0xBF778BC6, 0x3E827DC2, 0xBF77BEB7,
      0x3E80F8C0, 0xBF77F110, 0x3E7EE6E0, 0xBF7822D0, 0x3E7BDBA7, 0xBF7853F9, 0x3E78CFCD,
      0xBF788485, 0x3E75C359, 0xBF78B47B, 0x3E72B651, 0xBF78E3D6, 0x3E6FA8B5, 0xBF791299,
      0x3E6C9A7F, 0xBF7940BF, 0x3E698BBC, 0xBF796E4F, 0x3E667C65, 0xBF799B42, 0x3E636C81,
      0xBF79C79D, 0x3E605C11, 0xBF79F35D, 0x3E5D4B1A, 0xBF7A1E83, 0x3E5A3996, 0xBF7A4911,
      0x3E57278C, 0xBF7A7302, 0x3E541503, 0xBF7A9C59, 0x3E5101F3, 0xBF7AC516, 0x3E4DEE5D,
      0xBF7AED37, 0x3E4ADA4F, 0xBF7B14BF, 0x3E47C5C0, 0xBF7B3BAB, 0x3E44B0B9, 0xBF7B61FC,
      0x3E419B3A, 0xBF7B87B2, 0x3E3E8541, 0xBF7BACCD, 0x3E3B6ED0, 0xBF7BD14D, 0x3E3857EC,
      0xBF7BF531, 0x3E354097, 0xBF7C187A, 0x3E3228D6, 0xBF7C3B27, 0x3E2F10A3, 0xBF7C5D3A,
      0x3E2BF805, 0xBF7C7EB0, 0x3E28DEFB, 0xBF7C9F8A, 0x3E25C58C, 0xBF7CBFC9, 0x3E22ABB3,
      0xBF7CDF6B, 0x3E1F917B, 0xBF7CFE73, 0x3E1C76DF, 0xBF7D1CDE, 0x3E195BDD, 0xBF7D3AAC,
      0x3E164085, 0xBF7D57DE, 0x3E1324C8, 0xBF7D7474, 0x3E1008B4, 0xBF7D906E, 0x3E0CEC49,
      0xBF7DABCB, 0x3E09CF86, 0xBF7DC68D, 0x3E06B26C, 0xBF7DE0B2, 0x3E039502, 0xBF7DFA38,
      0x3E007747, 0xBF7E1323, 0x3DFAB276, 0xBF7E2B72, 0x3DF475BE, 0xBF7E4323, 0x3DEE3872,
      0xBF7E5A38, 0x3DE7FAA0, 0xBF7E70B0, 0x3DE1BC2D, 0xBF7E868A, 0x3DDB7D34, 0xBF7E9BC9,
      0x3DD53DB5, 0xBF7EB069, 0x3DCEFDBC, 0xBF7EC46D, 0x3DC8BD30, 0xBF7ED7D4, 0x3DC27C39,
      0xBF7EEA9D, 0x3DBC3AC9, 0xBF7EFCC9, 0x3DB5F8E0, 0xBF7F0E58, 0x3DAFB67F, 0xBF7F1F49,
      0x3DA973BF, 0xBF7F2F9D, 0x3DA33087, 0xBF7F3F55, 0x3D9CECFE, 0xBF7F4E6E, 0x3D96A909,
      0xBF7F5CEA, 0x3D9064B7, 0xBF7F6AC8, 0x3D8A2007, 0xBF7F7808, 0x3D83DB06, 0xBF7F84AB,
      0x3D7B2B6A, 0xBF7F90B0, 0x3D6EA041, 0xBF7F9C19, 0x3D62145D, 0xBF7FA6E2, 0x3D55880D,
      0xBF7FB110, 0x3D48FB36, 0xBF7FBA9E, 0x3D3C6DDA, 0xBF7FC38E, 0x3D2FE012, 0xBF7FCBE3,
      0x3D2351C4, 0xBF7FD398, 0x3D16C326, 0xBF7FDAAF, 0x3D0A3436, 0xBF7FE129, 0x3CFB49B8,
      0xBF7FE705, 0x3CE22A62, 0xBF7FEC43, 0x3CC90AA0, 0xBF7FF0E3, 0x3CAFEA74, 0xBF7FF4E6,
      0x3C96C9A6, 0xBF7FF849, 0x3C7B5145, 0xBF7FFB11, 0x3C490E67, 0xBF7FFD39, 0x3C16CB89,
      0xBF7FFEC5, 0x3BC90FA9, 0xBF7FFFB1, 0x3B491080]"

definition fpc_dct_scales :: "f32 list" where
  "fpc_dct_scales =
     map F32 [0x3FB504F3, 0x3F800000, 0x3F3504F3, 0x3F000000, 0x3EB504F3, 0x3E800000, 0x3E3504F3, 0x3E000000, 0x3DB504F3, 0x3D800000, 0x3D3504F3]"

end
