(* ===== verification/CosineTransform.thy ===== *)
theory CosineTransform
  imports TransformTables
begin

text \<open>
  The fast cosine transform (\<^verbatim>\<open>profile300.c\<close>: \<^verbatim>\<open>complex_transform\<close>,
  \<^verbatim>\<open>real_forward\<close>, \<^verbatim>\<open>real_inverse\<close>, \<^verbatim>\<open>fpc_profile300_dct\<close>). Complex samples are
  interleaved, real part first; scratch arrays start with zeros, and every entry that is read has
  been written before.
\<close>

unbundle bit_operations_syntax

definition radix_four :: "f32 list \<Rightarrow> nat list \<Rightarrow> bool \<Rightarrow> nat \<Rightarrow> f32 list \<Rightarrow> f32 list" where
  "radix_four input permutation backward i output =
     (let re = (\<lambda>k. input ! (2 * (permutation ! (i + k))));
          im = (\<lambda>k. input ! (2 * (permutation ! (i + k)) + 1));
          ab = re 1 + re 0; ad = re 0 - re 1; ib = im 1 + im 0; idf = im 0 - im 1;
          cd = re 3 + re 2; dd = re 2 - re 3; jb = im 3 + im 2; jd = im 2 - im 3
      in output[2 * i := cd + ab, 2 * i + 1 := jb + ib,
                2 * i + 2 := if backward then jd + ad else ad - jd,
                2 * i + 3 := if backward then idf - dd else dd + idf,
                2 * i + 4 := ab - cd, 2 * i + 5 := ib - jb,
                2 * i + 6 := if backward then ad - jd else jd + ad,
                2 * i + 7 := if backward then dd + idf else idf - dd])"

definition butterfly :: "bool \<Rightarrow> f32 \<Rightarrow> f32 \<Rightarrow> nat \<Rightarrow> nat \<Rightarrow> f32 list \<Rightarrow> f32 list" where
  "butterfly backward cosine sine width base output =
     (let a = 2 * base; b = 2 * (base + width);
          ar = output ! a; ai = output ! (a + 1); br = output ! b; bi = output ! (b + 1);
          tr = (if backward then sine * bi + cosine * br else cosine * br - sine * bi);
          ti = (if backward then cosine * bi - sine * br else cosine * bi + sine * br)
      in output[a + 1 := ti + ai, a := tr + ar, b + 1 := ai - ti, b := ar - tr])"

text \<open>The values \<open>base = j, j + 2 * width, ...\<close> below \<open>n\<close>.\<close>

definition butterfly_bases :: "nat \<Rightarrow> nat \<Rightarrow> nat \<Rightarrow> nat list" where
  "butterfly_bases n width j = map (\<lambda>m. j + m * (2 * width)) [0..<(n - j + 2 * width - 1) div (2 * width)]"

definition butterfly_stage :: "nat \<Rightarrow> bool \<Rightarrow> nat \<Rightarrow> nat \<Rightarrow> f32 list \<Rightarrow> f32 list" where
  "butterfly_stage n backward width step output =
     fold (\<lambda>j output.
             fold (butterfly backward (fpc_fft_twiddles ! (j * step)) (fpc_fft_twiddles ! (j * step + 1)) width)
               (butterfly_bases n width j) output)
       [0..<width] output"

text \<open>The width starts at four and doubles; the guard \<open>0 < width\<close> only serves termination.\<close>

function butterfly_stages :: "nat \<Rightarrow> bool \<Rightarrow> nat \<Rightarrow> nat \<Rightarrow> f32 list \<Rightarrow> f32 list" where
  "butterfly_stages n backward width step output =
     (if 0 < width \<and> width < n
      then butterfly_stages n backward (width * 2) (step div 2) (butterfly_stage n backward width step output)
      else output)"
  by auto
termination
  by (relation "measure (\<lambda>(n, backward, width, step, output). n - width)") auto

declare butterfly_stages.simps [simp del]

definition complex_transform :: "f32 list \<Rightarrow> f32 list \<Rightarrow> nat \<Rightarrow> bool \<Rightarrow> f32 list" where
  "complex_transform input output n backward =
     butterfly_stages n backward 4 512
       (fold (radix_four input (drop (n - 1) fpc_fft_permutation) backward)
         (map (\<lambda>m. 4 * m) [0..<(n + 3) div 4]) output)"

subsection \<open>Real transforms\<close>

definition forward_bridge :: "f32 list \<Rightarrow> nat \<Rightarrow> nat \<Rightarrow> f32 list \<Rightarrow> f32 list" where
  "forward_bridge temporary n k output =
     (let a = 2 * k; b = n - 2 * k; step = 2048 div n;
          sum = (temporary ! b + temporary ! a) * (F32 0x3F000000);
          diff = (temporary ! b - temporary ! a) * (F32 0x3F000000);
          imag_sum = (temporary ! (b + 1) + temporary ! (a + 1)) * (F32 0x3F000000);
          imag_diff = (temporary ! (a + 1) - temporary ! (b + 1)) * (F32 0x3F000000);
          cosine = fpc_fft_twiddles ! (2 * k * step); sine = fpc_fft_twiddles ! (2 * k * step + 1);
          tr = imag_sum * cosine - diff * sine;
          ti = imag_sum * sine + diff * cosine
      in output[a := tr + sum, a + 1 := ti + imag_diff, b + 1 := ti - imag_diff, b := sum - tr])"

definition real_forward :: "f32 list \<Rightarrow> f32 list \<Rightarrow> nat \<Rightarrow> f32 list" where
  "real_forward input output n =
     (let temporary = complex_transform input (replicate 128 0) (n div 2) False;
          output = fold (forward_bridge temporary n) [1..<n div 4] output
      in output[0 := temporary ! 0 + temporary ! 1, 1 := temporary ! 0 - temporary ! 1,
                n div 2 := temporary ! (n div 2), n div 2 + 1 := temporary ! (n div 2 + 1)])"

definition inverse_bridge :: "f32 list \<Rightarrow> nat \<Rightarrow> nat \<Rightarrow> f32 list \<Rightarrow> f32 list" where
  "inverse_bridge input n k temporary =
     (let a = 2 * k; b = n - 2 * k; step = 2048 div n;
          diff = (input ! b - input ! a) * (F32 0xBF000000);
          sum = (input ! b + input ! a) * (F32 0x3F000000);
          imag_sum = (input ! (b + 1) + input ! (a + 1)) * (F32 0xBF000000);
          imag_diff = (input ! (a + 1) - input ! (b + 1)) * (F32 0x3F000000);
          cosine = fpc_fft_twiddles ! (2 * k * step); sine = fpc_fft_twiddles ! (2 * k * step + 1);
          tr = diff * cosine - imag_sum * sine;
          ti = diff * sine + imag_sum * cosine
      in temporary[a := ti + sum, a + 1 := tr + imag_diff, b + 1 := tr - imag_diff, b := sum - ti])"

definition real_inverse :: "f32 list \<Rightarrow> f32 list \<Rightarrow> nat \<Rightarrow> f32 list" where
  "real_inverse input output n =
     (let temporary = fold (inverse_bridge input n) [1..<n div 4] (replicate 128 0);
          temporary = temporary[0 := (input ! 0 + input ! 1) * (F32 0x3F000000),
                                1 := (input ! 0 - input ! 1) * (F32 0x3F000000),
                                n div 2 := input ! (n div 2), n div 2 + 1 := input ! (n div 2 + 1)]
      in complex_transform temporary output (n div 2) True)"

subsection \<open>The cosine transform\<close>

fun ilog2 :: "nat \<Rightarrow> nat" where
  "ilog2 n = (if n \<le> 1 then 0 else 1 + ilog2 (n div 2))"

declare ilog2.simps [simp del]

definition dct_forward :: "f32 list \<Rightarrow> nat \<Rightarrow> f32 list" where
  "dct_forward values n =
     (let step = 1024 div (2 * n); tw = (\<lambda>i. fpc_fft_twiddles ! i);
          working = fold (\<lambda>i w. w[i := values ! (2 * i), n - 1 - i := values ! (2 * i + 1)])
                      [0..<n div 2] (replicate 128 0);
          temporary = real_forward working (replicate 128 0) n;
          values1 = values[0 := temporary ! 0 * (F32 0x3F3504F3)];
          values2 = fold (\<lambda>i v.
                      let low = 2 * i * step; high = (n + 2 * i) * step
                      in v[i := tw low * temporary ! (2 * i) - tw (low + 1) * temporary ! (2 * i + 1),
                           n div 2 + i := tw high * temporary ! (n - 2 * i)
                                            + tw (high + 1) * temporary ! (n - 2 * i + 1)])
                      [1..<n div 2] values1
      in values2[n div 2 := tw (n * step) * temporary ! 1])"

definition dct_backward :: "f32 list \<Rightarrow> nat \<Rightarrow> f32 list" where
  "dct_backward values n =
     (let step = 1024 div (2 * n); tw = (\<lambda>i. fpc_fft_twiddles ! i);
          working0 = (replicate 128 0)[0 := values ! 0 * (F32 0x3FB504F3)];
          working1 = fold (\<lambda>i w.
                      let low = 2 * i * step; high = 2 * (n - i) * step
                      in w[2 * i := tw high * values ! (n - i) + tw low * values ! i,
                           2 * i + 1 := tw (high + 1) * values ! (n - i) - tw (low + 1) * values ! i])
                      [1..<n div 2] working0;
          working = working1[1 := tw (n * step) * values ! (n div 2)];
          temporary = real_inverse working (replicate 128 0) n
      in fold (\<lambda>i v. v[2 * i := temporary ! i, 2 * i + 1 := temporary ! (n - 1 - i)])
           [0..<n div 2] values)"

definition fpc_profile300_dct :: "f32 list \<Rightarrow> nat \<Rightarrow> bool \<Rightarrow> status \<times> f32 list" where
  "fpc_profile300_dct values n backward =
     (if n < 8 \<or> 128 < n \<or> n AND (n - 1) \<noteq> 0 then (- 1, values)
      else let scale = fpc_dct_scales ! ilog2 n;
               transformed = (if backward then dct_backward values n else dct_forward values n)
           in (0, map (\<lambda>v. v * scale) (take n transformed) @ drop n transformed))"

end
