(* ===== verification/Filters.thy ===== *)
theory Filters
  imports Float32
begin

text \<open>
  Filters and elementary functions (\<^verbatim>\<open>fpc_recovered.c\<close>: \<^verbatim>\<open>recovered_exp\<close>,
  \<^verbatim>\<open>fpc_sqrt_recovered\<close>, \<^verbatim>\<open>fpc_hessian_angle\<close>, \<^verbatim>\<open>derivative_kernels\<close>,
  \<^verbatim>\<open>reflect_index\<close>, \<^verbatim>\<open>convolve_taps\<close>, \<^verbatim>\<open>fpc_hessian_planes\<close>,
  \<^verbatim>\<open>fpc_blur_image7\<close>, \<^verbatim>\<open>fpc_hessian_orientation\<close>,
  \<^verbatim>\<open>fpc_enrollment_check_movement\<close>, and the table of \<^verbatim>\<open>sqrt_seed.h\<close>). A plane of signed
  16-bit samples is the list of their bit patterns, row by row.
\<close>

unbundle bit_operations_syntax

subsection \<open>Exponential and square root\<close>

definition recovered_exp :: "f32 \<Rightarrow> f32" where
  "recovered_exp input =
     (let value = (if (F32 0x42B17213) < input then (F32 0x42B17213) else input);
          value = (if value < (F32 0xC2AEAC4A) then (F32 0xC2AEAC4A) else value);
          quotient = value / (F32 0x3F317218);
          exponent = f_to_i32 (if quotient \<le> 0 then quotient - (F32 0x3F000000) else quotient + (F32 0x3F000000));
          remainder = value - f_of_int exponent * (F32 0x3F317218);
          square = remainder * remainder;
          denominator = (((((square * (F32 0x3331BB4C) - (F32 0x35DDEA0E)) * square
                             + (F32 0x388AB355)) * square - (F32 0x3B360B61)) * square
                             + (F32 0x3E2AAAAB)) * square + (F32 0x40000000)) - remainder;
          result = (remainder + remainder) / denominator + 1
      in if \<not> f_eq result 0 then F32 (f_bits result + push_bit 23 (word_of_int exponent)) else result)"

definition sqrt_seed :: "nat list" where
  "sqrt_seed =
     [255, 253, 251, 249, 247, 245, 243, 242, 240, 238, 236, 234, 233, 231, 229, 228,
      226, 224, 223, 221, 219, 218, 216, 215, 213, 212, 210, 209, 207, 206, 204, 203,
      201, 200, 198, 197, 196, 194, 193, 192, 190, 189, 188, 186, 185, 184, 183, 181,
      180, 179, 178, 176, 175, 174, 173, 172, 170, 169, 168, 167, 166, 165, 164, 163,
      162, 160, 159, 158, 157, 156, 155, 154, 153, 152, 151, 150, 149, 148, 147, 146,
      145, 144, 143, 142, 141, 140, 140, 139, 138, 137, 136, 135, 134, 133, 132, 131,
      131, 130, 129, 128, 127, 126, 126, 125, 124, 123, 122, 121, 121, 120, 119, 118,
      118, 117, 116, 115, 114, 114, 113, 112, 111, 111, 110, 109, 109, 108, 107, 106,
      105, 104, 103, 101, 100, 99, 97, 96, 95, 93, 92, 91, 90, 88, 87, 86,
      85, 84, 82, 81, 80, 79, 78, 77, 76, 75, 74, 72, 71, 70, 69, 68,
      67, 66, 65, 64, 63, 62, 61, 60, 60, 59, 58, 57, 56, 55, 54, 53,
      52, 51, 51, 50, 49, 48, 47, 46, 46, 45, 44, 43, 42, 42, 41, 40,
      39, 38, 38, 37, 36, 35, 35, 34, 33, 33, 32, 31, 30, 30, 29, 28,
      28, 27, 26, 26, 25, 24, 24, 23, 22, 22, 21, 20, 20, 19, 19, 18,
      17, 17, 16, 16, 15, 14, 14, 13, 13, 12, 11, 11, 10, 10, 9, 9,
      8, 8, 7, 6, 6, 5, 5, 4, 4, 3, 3, 2, 2, 1, 1, 0]"

definition fpc_sqrt_recovered :: "f32 \<Rightarrow> f32" where
  "fpc_sqrt_recovered input =
     (let adjusted = f_bits input + 0x800000;
          seed = push_bit 15 ((190 - drop_bit 24 adjusted) * 256
                   + of_nat (sqrt_seed ! unat (drop_bit 16 adjusted AND 255)));
          initial = F32 seed;
          next = initial * (((F32 0x40400000) - ((initial * input) * initial)) * (F32 0x3F000000))
      in ((((F32 0x40400000) - ((next * input) * next)) * (F32 0x3F000000)) * next) * input)"

text \<open>\<open>normalized\<close> is NaN when the area is; the comparison is then false and the flag is cleared.\<close>

definition fpc_enrollment_check_movement ::
    "nat \<Rightarrow> f32 \<Rightarrow> f32 \<Rightarrow> f32 \<Rightarrow> u32 \<Rightarrow> int \<Rightarrow> status \<times> u32 \<times> int" where
  "fpc_enrollment_check_movement n area latest_motion threshold insufficient_count report_flag =
     (if 80 < n then (- 1, insufficient_count, report_flag)
      else if n < 2 then (0, insufficient_count, report_flag)
      else let normalized = latest_motion / fpc_sqrt_recovered area
           in if \<not> normalized \<le> threshold then (0, insufficient_count, 0)
              else (0, insufficient_count + 1, 1))"

subsection \<open>The fixed-point angle of an orientation vector\<close>

text \<open>The scan for the highest set bit, from bit \<open>b - 1\<close> down.\<close>

fun leading_zeros :: "u32 \<Rightarrow> nat \<Rightarrow> nat" where
  "leading_zeros w 0 = 0"
| "leading_zeros w (Suc b) = (if bit w b then 0 else 1 + leading_zeros w b)"

definition mul_round15 :: "u32 \<Rightarrow> u32 \<Rightarrow> u32" where
  "mul_round15 a b = word_of_int (shift_floor (signed_u32 (a * b + 0x4000)) 15)"

definition angle_octant :: "int \<Rightarrow> int \<Rightarrow> int \<times> int \<times> int \<times> int \<times> int" where
  "angle_octant sine cosine =
     (let x = (if cosine = - 32768 then - 32767 else cosine);
          y = (if sine = - 32768 then - 32767 else sine);
          (x, y, base) = (if y \<le> 0 then (- x, - y, - 28672) else (x, y, 4096));
          (x, y, base) = (if x < 0 then (y, - x, base + 16384) else (x, y, base))
      in if x < y then (x, y, base + 8192, 12540, - 30274) else (x, y, base, 30274, - 12540))"

definition fpc_hessian_angle :: "u16 \<Rightarrow> u16 \<Rightarrow> u8" where
  "fpc_hessian_angle sine cosine =
     (if cosine = 0 \<and> sine = 0 then 0 else
      case angle_octant (sint sine) (sint cosine) of
        (x, y, base, a, b) \<Rightarrow>
          let den = word_of_int (x * a - y * b) :: u32;
              num = word_of_int (x * b + y * a) :: u32;
              leading = leading_zeros den 32;
              shift = (leading + 30) mod 32;
              divisor = shift_floor (signed_u32 (push_bit shift den + 0x4000)) 15;
              t = (if divisor \<noteq> 0 then word_of_int (signed_u32 (push_bit shift num) sdiv divisor) else 0) :: u32;
              q = mul_round15 t t;
              c = mul_round15 t q;
              f = mul_round15 c q;
              s = mul_round15 f q;
              poly = word_of_int base * 23040 + t * 7332 - c * 2389 + f * 1141 - s * 325;
              angle = signed_u16 (word_of_int (shift_floor (shift_floor (signed_u32 poly) 1 + 16384) 15));
              twice = 2 * angle;
              twice = (if twice < 0 then twice + 46080 else twice)
          in word_of_int (shift_floor (twice + 128) 8))"

subsection \<open>Derivative kernels\<close>

definition round_i16 :: "f32 \<Rightarrow> u16" where
  "round_i16 a = word_of_int (f_to_i32 (if 0 \<le> a then a + (F32 0x3F000000) else a - (F32 0x3F000000)))"

definition sum_f32 :: "f32 list \<Rightarrow> f32" where
  "sum_f32 xs = fold (\<lambda>x acc. acc + x) xs 0"

definition derivative_kernels :: "f32 \<Rightarrow> nat \<Rightarrow> (u16 list \<times> u16 list \<times> u16 list) option" where
  "derivative_kernels sigma taps =
     (if \<not> (1 \<le> sigma \<and> sigma \<le> (F32 0x41200000)) then None else
      let factor = (F32 0xBF000000) / (sigma * sigma);
          x = (\<lambda>i. f_of_int (int i) - f_of_int (int (taps - 1)) * (F32 0x3F000000));
          g = map (\<lambda>i. recovered_exp ((x i * factor) * x i)) [0..<taps];
          acc = sum_f32 g;
          multiplier = (\<lambda>i. (x i + x i) * factor);
          d = map (\<lambda>i. multiplier i * g ! i) [0..<taps];
          dd = map (\<lambda>i. d ! i * multiplier i + (factor + factor) * g ! i) [0..<taps];
          quantize = (\<lambda>v. round_i16 ((v * (F32 0x47000000)) / acc))
      in Some (map quantize g, map quantize d, map quantize dd))"

definition fpc_gaussian_derivative_kernels :: "f32 \<Rightarrow> (u16 list \<times> u16 list \<times> u16 list) option" where
  "fpc_gaussian_derivative_kernels sigma = derivative_kernels sigma 15"

subsection \<open>Convolution\<close>

definition reflect_index :: "int \<Rightarrow> nat \<Rightarrow> nat" where
  "reflect_index position len =
     (if position < 0 then nat (- position)
      else if int len \<le> position then nat (2 * int len - 2 - position)
      else nat position)"

definition convolve_at :: "u16 list \<Rightarrow> nat \<Rightarrow> nat \<Rightarrow> u16 list \<Rightarrow> bool \<Rightarrow> nat \<Rightarrow> nat \<Rightarrow> nat \<Rightarrow> u16" where
  "convolve_at source width height krn vertical taps y x =
     (let acc = fold (\<lambda>tap acc.
            let sy = (if vertical then reflect_index (int y + int tap - int (taps div 2)) height else y);
                sx = (if vertical then x else reflect_index (int x + int tap - int (taps div 2)) width)
            in acc + word_of_int (sint (source ! (sy * width + sx)) * sint (krn ! tap)))
          [0..<taps] (0 :: u32)
      in word_of_int (shift_floor (signed_u32 (acc + 0x4000)) 15))"

definition convolve_taps :: "u16 list \<Rightarrow> nat \<Rightarrow> nat \<Rightarrow> u16 list \<Rightarrow> bool \<Rightarrow> nat \<Rightarrow> u16 list" where
  "convolve_taps source width height krn vertical taps =
     map (\<lambda>(y, x). convolve_at source width height krn vertical taps y x) (raster 0 height 0 width)"

text \<open>\<open>source[y * width + x] = image[y * stride + x] * 64\<close>.\<close>

definition widen_q6 :: "u8 list \<Rightarrow> nat \<Rightarrow> nat \<Rightarrow> nat \<Rightarrow> u16 list" where
  "widen_q6 img width height stride =
     map (\<lambda>(y, x). word_of_int (uint (img ! (y * stride + x)) * 64)) (raster 0 height 0 width)"

definition hessian_filter ::
    "u16 list \<Rightarrow> nat \<Rightarrow> nat \<Rightarrow> u16 list \<times> u16 list \<times> u16 list \<Rightarrow> nat \<Rightarrow> u16 list \<times> u16 list \<times> u16 list" where
  "hessian_filter source width height kernels taps =
     (case kernels of (g, d, dd) \<Rightarrow>
        let conv = (\<lambda>s k vertical. convolve_taps s width height k vertical taps)
        in (conv (conv source dd False) g True, conv (conv source g False) dd True,
            conv (conv source d False) d True))"

definition fpc_hessian_planes ::
    "(nat \<Rightarrow> bool) \<Rightarrow> u8 list \<Rightarrow> nat \<Rightarrow> nat \<Rightarrow> nat \<Rightarrow> f32 \<Rightarrow> status + u16 list \<times> u16 list \<times> u16 list" where
  "fpc_hessian_planes al img width height stride sigma =
     (if width < 15 \<or> height < 15 \<or> 256 < width \<or> 256 < height \<or> stride < width
         \<or> SIZE_MAX div stride < height then Inl (- 1)
      else case fpc_gaussian_derivative_kernels sigma of
             None \<Rightarrow> Inl (- 1)
           | Some kernels \<Rightarrow>
               if \<not> al (width * height * 2 * 2) then Inl (- 1)
               else Inr (hessian_filter (widen_q6 img width height stride) width height kernels 15))"

definition fpc_blur_image7 ::
    "(nat \<Rightarrow> bool) \<Rightarrow> u8 list \<Rightarrow> nat \<Rightarrow> nat \<Rightarrow> nat \<Rightarrow> f32 \<Rightarrow> u8 list \<Rightarrow> nat \<Rightarrow> status \<times> u8 list" where
  "fpc_blur_image7 al source width height stride sigma output output_stride =
     (if width < 8 \<or> height < 8 \<or> 256 < width \<or> 256 < height \<or> odd width \<or> odd height \<or> stride < width
         \<or> output_stride < width \<or> SIZE_MAX div stride < height \<or> SIZE_MAX div output_stride < height
      then (- 1, output)
      else case derivative_kernels sigma 7 of
             None \<Rightarrow> (- 1, output)
           | Some (g, d, dd) \<Rightarrow>
               if \<not> al (3 * (width * height) * 2) then (- 1, output)
               else let filtered = convolve_taps
                          (convolve_taps (widen_q6 source width height stride) width height g False 7)
                          width height g True 7
                    in (0, fill_rows (\<lambda>y x. word_of_int (shift_floor (sint (filtered ! (y * width + x)) + 32) 6))
                             width height output_stride output))"

subsection \<open>Hessian orientation\<close>

definition truncate_sse :: "f32 \<Rightarrow> int" where
  "truncate_sse value =
     (if \<not> ((F32 0xCF000000) \<le> value \<and> value < (F32 0x4F000000)) then - 2147483648 else f_to_i32 value)"

definition i16_f32 :: "u16 \<Rightarrow> f32" where
  "i16_f32 w = f_of_int (sint w)"

text \<open>The weighted double-angle vector of one Hessian matrix.\<close>

definition orientation_vector :: "f32 \<Rightarrow> u16 \<Rightarrow> u16 \<Rightarrow> u16 \<Rightarrow> u16 \<times> u16" where
  "orientation_vector regularizer axx ayy axy =
     (let a = i16_f32 axx; b = i16_f32 ayy; z = i16_f32 axy;
          (lp, lm, pu, pv, mu, mv) =
            (if (F32 0x2B8CBCCC) \<le> z * z
             then let mean = (a + b) * (F32 0x3F000000);
                      root = fpc_sqrt_recovered (mean * mean - (a * b - z * z));
                      lp = mean + root; lm = mean - root
                  in (lp, lm, z, lp - a, z, lm - a)
             else (a, b, 1, 0, 0, 1));
          ap = (if lp < 0 then - lp else lp);
          am = (if lm < 0 then - lm else lm);
          weight = ((ap - am) * (ap - am) / ((am * am + ap * ap) + regularizer)) * (F32 0x437F0000);
          u = (if am \<le> ap then mu else pu);
          v = (if am \<le> ap then mv else pv);
          norm = v * v + u * u;
          cross = (v * u) / norm
      in (word_of_int (truncate_sse (((u * u - v * v) / norm) * weight)),
          word_of_int (truncate_sse ((cross + cross) * weight))))"

definition orientation_confidence :: "u16 \<Rightarrow> u16 \<Rightarrow> u8" where
  "orientation_confidence c s =
     (let magnitude = f_of_int (signed_u32 (word_of_int (sint c * sint c) + word_of_int (sint s * sint s)))
      in word_of_int (truncate_sse (fpc_sqrt_recovered magnitude * (F32 0x3ECCCCCD))))"

definition fpc_hessian_orientation ::
    "(nat \<Rightarrow> bool) \<Rightarrow> u8 list \<Rightarrow> nat \<Rightarrow> nat \<Rightarrow> nat \<Rightarrow> f32 \<Rightarrow> f32 \<Rightarrow> status + u8 list \<times> u8 list" where
  "fpc_hessian_orientation al img width height stride sigma regularizer =
     (if width < 16 \<or> height < 16 \<or> 256 < width \<or> 256 < height \<or> odd width \<or> odd height
         \<or> stride < width \<or> SIZE_MAX div stride < height
         \<or> \<not> (0 \<le> regularizer \<and> regularizer \<le> (F32 0x7F7FFFFF)) then Inl (- 1)
      else case derivative_kernels sigma 7 of
             None \<Rightarrow> Inl (- 1)
           | Some kernels \<Rightarrow>
               if \<not> al (width * height * 5 * 2) then Inl (- 1)
               else case hessian_filter (widen_q6 img width height stride) width height kernels 7 of
                      (xx, yy, xy) \<Rightarrow>
                        let vectors = map (\<lambda>i. orientation_vector regularizer (xx ! i) (yy ! i) (xy ! i))
                                        [0..<width * height];
                            g = (case derivative_kernels (F32 0x40400000) 15 of Some (g, _, _) \<Rightarrow> g | None \<Rightarrow> []);
                            smooth = (\<lambda>p. convolve_taps (convolve_taps p width height g False 15)
                                        width height g True 15);
                            cs = smooth (map fst vectors);
                            ss = smooth (map snd vectors)
                        in Inr (map2 fpc_hessian_angle ss cs, map2 orientation_confidence cs ss))"

lemma leading_zeros_bounds:
  "0 < unat w \<Longrightarrow> unat w < 2 ^ b \<Longrightarrow>
     2 ^ b \<le> 2 * (unat w * 2 ^ leading_zeros w b) \<and> unat w * 2 ^ leading_zeros w b < 2 ^ b
     \<and> leading_zeros w b < b"
proof (induction b)
  case 0
  then show ?case by simp
next
  case (Suc b)
  show ?case
  proof (cases "bit w b")
    case True
    then show ?thesis using Suc.prems bit_top [of w b] by simp
  next
    case False
    then have "unat w < 2 ^ b" using Suc.prems bit_top [of w b] by simp
    with Suc False show ?thesis by simp
  qed
qed

lemma normalized_square:
  assumes "256 < sint (norm :: u32)"
  defines "shift \<equiv> (leading_zeros norm 32 + 31) mod 32"
  shows "1073741824 \<le> sint (push_bit shift norm)" "norm \<noteq> 0"
proof -
  have "norm \<noteq> 0" using assms(1) by auto
  then have pos: "0 < unat norm" by (simp add: unat_gt_0)
  have u: "unat norm < 2147483648"
    using assms(1) unat_bounds(3) [of norm] unfolding sint_u32_cases by (auto split: if_splits)
  let ?k = "leading_zeros norm 31"
  have "\<not> bit norm 31" using bit_top [of norm 31] u unat_bounds(3) [of norm] by simp
  then have lz: "leading_zeros norm 32 = Suc ?k" by (simp add: numeral_eq_Suc)
  from leading_zeros_bounds [of norm 31] pos u
  have b: "2147483648 \<le> 2 * (unat norm * 2 ^ ?k)" "unat norm * 2 ^ ?k < 2147483648" "?k < 31" by simp_all
  have s: "shift = ?k" using b(3) by (simp add: shift_def lz)
  have "unat (push_bit ?k norm) = unat norm * 2 ^ ?k" using b(2) by (intro unat_push_bit_small) simp
  then have "sint (push_bit ?k norm) = int (unat norm * 2 ^ ?k)"
    using b(2) unfolding sint_u32_cases by (simp only: if_True)
  then show "1073741824 \<le> sint (push_bit shift norm)" unfolding s using b(1) by linarith
  show "norm \<noteq> 0" using pos by auto
qed

end
