(* ===== verification/Enhance.thy ===== *)
theory Enhance
  imports CosineTransform Filters
begin

text \<open>
  Normalization and enhancement of a sensor image (\<^verbatim>\<open>profile300.c\<close>: \<^verbatim>\<open>q6\<close>,
  \<^verbatim>\<open>normalize\<close>, \<^verbatim>\<open>projection\<close>, \<^verbatim>\<open>correct_projection\<close>, \<^verbatim>\<open>reflect\<close>,
  \<^verbatim>\<open>enhance\<close>). An image has 88 rows of 112 signed 16-bit samples in Q6, given by their bit
  patterns. The three large coefficient tables of \<^verbatim>\<open>profile300_tables.h\<close> are arguments.
\<close>

unbundle bit_operations_syntax

definition q6 :: "f32 \<Rightarrow> u16" where
  "q6 value =
     (let scaled = value * (F32 0x42800000);
          scaled = (if scaled \<le> 0 then scaled - (F32 0x3F000000) else scaled + (F32 0x3F000000))
      in word_of_int (f_to_i32 scaled))"

subsection \<open>Normalization\<close>

definition usable :: "u8 list \<Rightarrow> nat \<Rightarrow> bool" where
  "usable flags i \<longleftrightarrow> (flags ! i) AND 14 \<noteq> 0"

definition usable_values :: "u16 list \<Rightarrow> u8 list \<Rightarrow> int list" where
  "usable_values img flags = map (\<lambda>i. sint (img ! i)) (filter (usable flags) [0..<9856])"

definition range_of :: "int list \<Rightarrow> int \<times> int" where
  "range_of vs = fold (\<lambda>v (lo, hi). (if v < lo then v else lo, if hi < v then v else hi)) vs (32767, - 32768)"

definition histogram :: "int \<Rightarrow> int \<Rightarrow> int list \<Rightarrow> nat list" where
  "histogram minimum maximum vs =
     (let scale = (if maximum = minimum then 1024 else 33488896 div (maximum - minimum))
      in fold (\<lambda>v h.
           let bin = shift_floor (scale * (v - minimum) + 32768) 16;
               bin = (if bin < 0 then 0 else bin);
               bin = (if 511 < bin then 511 else bin)
           in h[nat bin := h ! nat bin + 1]) vs (replicate 512 0))"

text \<open>The position in \<open>bins\<close> where the running count first exceeds \<open>bound\<close>.\<close>

fun cumulative_bin :: "nat list \<Rightarrow> nat list \<Rightarrow> nat \<Rightarrow> nat \<Rightarrow> nat option" where
  "cumulative_bin h [] cumulative bound = None"
| "cumulative_bin h (b # bs) cumulative bound =
     (let cumulative = cumulative + h ! b
      in if bound < cumulative then Some b else cumulative_bin h bs cumulative bound)"

definition percentile_range :: "int \<Rightarrow> int \<Rightarrow> int list \<Rightarrow> (int \<times> int) option" where
  "percentile_range minimum maximum vs =
     (let h = histogram minimum maximum vs;
          n = f_of_int (int (length vs));
          lower = nat (f_to_i32 (n * (F32 0x3A83126F)));
          upper = nat (f_to_i32 ((1 - (F32 0x3F7D70A4)) * n))
      in do { low \<leftarrow> cumulative_bin h [0..<512] 0 lower;
              high \<leftarrow> cumulative_bin h (rev [0..<512]) 0 upper;
              let range = maximum - minimum;
                  maximum' = minimum + int high * range div 511;
                  minimum' = minimum + int low * range div 511
              in Some (if minimum' < 0 then 0 else minimum', if 16320 < maximum' then 16320 else maximum') })"

definition stretch :: "int \<Rightarrow> int \<Rightarrow> u16 \<Rightarrow> u16" where
  "stretch minimum scale v =
     (let value = shift_floor (signed_u32 (word_of_int (sint v - minimum) * word_of_int scale)) 8;
          value = (if value < 0 then 0 else value)
      in word_of_int (if 16320 < value then 16320 else value))"

definition normalize :: "u16 list \<Rightarrow> u8 list \<Rightarrow> bool \<Rightarrow> u16 list" where
  "normalize img flags percentile =
     (let vs = usable_values img flags; (minimum, maximum) = range_of vs in
      if vs = [] \<or> minimum = 32767 \<or> maximum = - 32768 then img else
      case (if percentile then percentile_range minimum maximum vs else Some (minimum, maximum)) of
        None \<Rightarrow> img
      | Some (lo, hi) \<Rightarrow>
          if hi \<le> lo then img
          else map (\<lambda>i. stretch lo (4177920 div (hi - lo)) (img ! i)) [0..<9856])"

subsection \<open>Projection correction\<close>

definition projection :: "f32 list \<Rightarrow> f32 list \<Rightarrow> nat \<Rightarrow> f32" where
  "projection pixels weights n =
     fold (\<lambda>m acc. let i = 4 * m in
             ((pixels ! i * weights ! i + acc) + pixels ! (i + 1) * weights ! (i + 1))
               + pixels ! (i + 2) * weights ! (i + 2) + pixels ! (i + 3) * weights ! (i + 3))
       [0..<(n + 3) div 4] 0"

definition mean_of :: "f32 list \<Rightarrow> f32 \<Rightarrow> f32" where
  "mean_of xs n = fold (\<lambda>x acc. acc + x) xs 0 / n"

definition line_score :: "f32 list \<Rightarrow> f32 list \<Rightarrow> f32 \<Rightarrow> nat \<Rightarrow> f32" where
  "line_score quality_projection working mean y =
     (let strip = map (\<lambda>x. working ! (y * 112 + x + 16) - mean) [0..<80];
          projected = map (\<lambda>x. projection strip (drop (x * 80) quality_projection) 80) [0..<80]
      in fold (\<lambda>x acc. acc + projected ! x * strip ! x) [0..<80] 0)"

text \<open>A running mean of fifteen scores whose recurrence starts from the preceding output.\<close>

definition smooth_scores :: "f32 list \<Rightarrow> f32 list" where
  "smooth_scores scores =
     (let reciprocal = 1 / (F32 0x41700000);
          first = replicate 8 (fold (\<lambda>x acc. acc + x) (take 15 scores) 0 * reciprocal);
          smooth = fold (\<lambda>i s. s @ [(scores ! (i + 7) - scores ! (i - 8)) * reciprocal + s ! (i - 1)])
                     [8..<81] first
      in smooth @ replicate 7 (smooth ! 80))"

definition peak_score :: "f32 list \<Rightarrow> f32" where
  "peak_score smooth = fold (\<lambda>x m. if \<not> x \<le> m then x else m) smooth (F32 0xFF7FFFFF)"

definition subtract_columns :: "f32 list \<Rightarrow> f32 list \<Rightarrow> f32 \<Rightarrow> f32 list" where
  "subtract_columns correction_projection working mean =
     concat (map (\<lambda>y.
        let strip = map (\<lambda>x. working ! (y * 112 + x) - mean) [0..<112];
            correction = map (\<lambda>x. projection strip (drop (x * 112) correction_projection) 112) [0..<14]
        in map (\<lambda>x. working ! (y * 112 + x) - correction ! (x div 8)) [0..<112])
      [0..<88])"

definition box3 :: "f32 list \<Rightarrow> f32 list" where
  "box3 working =
     (let temporary = map (\<lambda>(y, x).
            (working ! (y * 112 + x) + working ! (y * 112 + (if x = 0 then 0 else x - 1)))
              + working ! (y * 112 + (if x < 111 then x + 1 else 111))) (raster 0 88 0 112)
      in map (\<lambda>(y, x).
            ((temporary ! (y * 112 + x) + temporary ! ((if y = 0 then 0 else y - 1) * 112 + x))
              + temporary ! ((if y < 87 then y + 1 else 87) * 112 + x)) * (F32 0x3DE38E39)) (raster 0 88 0 112))"

definition correct_projection :: "f32 list \<Rightarrow> f32 list \<Rightarrow> u16 list \<Rightarrow> int \<times> u16 list" where
  "correct_projection quality_projection correction_projection img =
     (let working = map (\<lambda>i. i16_f32 (img ! i) * (F32 0x3C800000)) [0..<9856];
          mean = mean_of (map (\<lambda>(y, x). working ! (y * 112 + x)) (raster 0 88 16 96)) (F32 0x45DC0000);
          smooth = smooth_scores (map (line_score quality_projection working mean) [0..<88])
      in if peak_score smooth \<le> (F32 0x461C4000) then (0, img)
         else let corrected = subtract_columns correction_projection working
                                (mean_of working (f_of_int 9856))
              in (100, map q6 (box3 corrected)))"

subsection \<open>Enhancement in the cosine domain\<close>

definition reflect :: "int \<Rightarrow> nat \<Rightarrow> nat" where
  "reflect position n =
     (if position < 0 then nat (- position - 1)
      else if int n \<le> position then nat (2 * int n - position - 1) else nat position)"

definition dct128 :: "bool \<Rightarrow> f32 list \<Rightarrow> f32 list" where
  "dct128 backward line = snd (fpc_profile300_dct line 128 backward)"

definition image_column :: "u16 list \<Rightarrow> nat \<Rightarrow> f32 list" where
  "image_column img x =
     map (\<lambda>y. i16_f32 (img ! (reflect (int y - 20) 88 * 112 + x)) * (F32 0x3C800000)) [0..<128]"

text \<open>One padded row of the plane: columns 8 to 119 hold the transformed image columns, the rest mirror
  them.\<close>

definition padded_row :: "f32 list list \<Rightarrow> nat \<Rightarrow> f32 list" where
  "padded_row columns y =
     map (\<lambda>x. let sx = (if x < 8 then 15 - x else if 120 \<le> x then 239 - x else x)
              in columns ! (sx - 8) ! y) [0..<128]"

definition enhance :: "f32 list \<Rightarrow> u16 list \<Rightarrow> u16 list" where
  "enhance enhancement img =
     (let columns = map (\<lambda>x. dct128 False (image_column img x)) [0..<112];
          rows = map (\<lambda>y. dct128 False (padded_row columns y)) [0..<128];
          weighted = map (\<lambda>y. map (\<lambda>x. rows ! y ! x * enhancement ! (y * 128 + x)) [0..<128]) [0..<128];
          back_rows = map (dct128 True) weighted;
          lines = map (\<lambda>x. dct128 True (map (\<lambda>y. back_rows ! y ! (x + 8)) [0..<128])) [0..<112]
      in map (\<lambda>(y, x). q6 (lines ! x ! (y + 20))) (raster 0 88 0 112))"

end
