(* ===== verification/Detect.thy ===== *)
theory Detect
  imports Float32
begin

text \<open>
  Feature detectors (\<^verbatim>\<open>fpc_recovered.c\<close>: \<^verbatim>\<open>circle_response\<close>,
  \<^verbatim>\<open>fpc_detect_circle9\<close>, \<^verbatim>\<open>fpc_harris_scores\<close>, \<^verbatim>\<open>fpc_select_float_maxima\<close>).
  The output array of key points is a buffer whose length is its capacity; a detector returns it
  with the number of entries it filled.
\<close>

record fpc_keypoint =
  kp_x :: u8
  kp_y :: u8
  kp_reserved :: u16
  kp_score :: f32

subsection \<open>The nine-of-sixteen circle test\<close>

definition circle_offsets :: "(int \<times> int) list" where
  "circle_offsets =
     [(0, 3), (1, 3), (2, 2), (3, 1), (3, 0), (3, - 1), (2, - 2), (1, - 3),
      (0, - 3), (- 1, - 3), (- 2, - 2), (- 3, - 1), (- 3, 0), (- 3, 1), (- 2, 2), (- 1, 3)]"

definition circle_differences :: "u8 list \<Rightarrow> nat \<Rightarrow> nat \<Rightarrow> nat \<Rightarrow> int list" where
  "circle_differences img stride x y =
     map (\<lambda>(dx, dy). uint (img ! (y * stride + x))
            - uint (img ! (nat (int y + dy) * stride + nat (int x + dx)))) circle_offsets"

definition circle_response :: "u8 list \<Rightarrow> nat \<Rightarrow> nat \<Rightarrow> nat \<Rightarrow> nat \<Rightarrow> u8" where
  "circle_response img stride x y threshold =
     (let difference = circle_differences img stride x y;
          strongest =
            fold (\<lambda>start strongest.
                    let (darker, brighter) =
                      fold (\<lambda>k (darker, brighter).
                              let value = difference ! ((start + k) mod 16)
                              in (if value < darker then value else darker,
                                  if - value < brighter then - value else brighter))
                        [0..<9] (255, 255);
                        strongest = (if strongest < darker then darker else strongest)
                    in if strongest < brighter then brighter else strongest)
              [0..<16] 0
      in if int threshold < strongest then word_of_int (strongest - 1) else 0)"

subsection \<open>Strict local maxima\<close>

definition neighbour_steps :: "(int \<times> int) list" where
  "neighbour_steps = [(- 1, - 1), (- 1, 0), (- 1, 1), (0, - 1), (0, 1), (1, - 1), (1, 0), (1, 1)]"

definition neighbours :: "nat \<Rightarrow> nat \<Rightarrow> nat \<Rightarrow> nat list" where
  "neighbours stride y x = map (\<lambda>(dy, dx). nat (int y + dy) * stride + nat (int x + dx)) neighbour_steps"

definition put_point :: "nat \<Rightarrow> nat \<Rightarrow> f32 \<Rightarrow> fpc_keypoint list \<times> nat \<Rightarrow> fpc_keypoint list \<times> nat" where
  "put_point y x score st =
     (case st of (points, n) \<Rightarrow>
        (points[n := \<lparr>kp_x = of_nat x, kp_y = of_nat y, kp_reserved = 0, kp_score = score\<rparr>], n + 1))"

definition select_points ::
    "(nat \<times> nat \<Rightarrow> bool) \<Rightarrow> (nat \<times> nat \<Rightarrow> bool) \<Rightarrow> (nat \<times> nat \<Rightarrow> f32) \<Rightarrow> (nat \<times> nat) list
       \<Rightarrow> fpc_keypoint list \<Rightarrow> fpc_keypoint list \<times> nat" where
  "select_points enabled is_max score cells points =
     fold (\<lambda>c st. if \<not> enabled c \<or> length (fst st) \<le> snd st then st
                  else if is_max c then put_point (fst c) (snd c) (score c) st else st)
       cells (points, 0)"

definition fpc_detect_circle9 ::
    "u8 list \<Rightarrow> nat \<Rightarrow> nat \<Rightarrow> nat \<Rightarrow> u8 list \<Rightarrow> nat \<Rightarrow> nat \<Rightarrow> nat \<Rightarrow> u8 list \<Rightarrow> fpc_keypoint list
       \<Rightarrow> status + u8 list \<times> fpc_keypoint list \<times> nat" where
  "fpc_detect_circle9 img width height stride msk mask_stride threshold border responses points =
     (if width < 7 \<or> height < 7 \<or> 256 < width \<or> 256 < height \<or> stride < width \<or> mask_stride < width
         \<or> SIZE_MAX div stride < height \<or> SIZE_MAX div mask_stride < height \<or> 255 < threshold \<or> border < 3
      then Inl (- 1)
      else let zeroed = replicate (width * height) 0 @ drop (width * height) responses;
               resp = fold (\<lambda>(y, x) r. if msk ! (y * mask_stride + x) = 255
                              then r[y * width + x := circle_response img stride x y threshold] else r)
                        (raster 3 (height - 3) 3 (width - 3)) zeroed
           in if width \<le> border \<or> height \<le> border then Inr (resp, points, 0)
              else case select_points
                     (\<lambda>(y, x). msk ! (y * mask_stride + x) \<noteq> 0)
                     (\<lambda>(y, x). list_all (\<lambda>n. resp ! n < resp ! (y * width + x)) (neighbours width y x))
                     (\<lambda>(y, x). f_of_int (uint (resp ! (y * width + x))))
                     (raster border (height - border) border (width - border)) points of
                   (points', n) \<Rightarrow> Inr (resp, points', n))"

subsection \<open>Hessian scores\<close>

definition harris_score :: "f32 \<Rightarrow> u16 \<Rightarrow> u16 \<Rightarrow> u16 \<Rightarrow> f32" where
  "harris_score k a b c =
     (let trace = sint a + sint b;
          determinant = word_of_int (sint a * sint b - sint c * sint c) :: u32;
          trace_square = word_of_int trace * word_of_int trace :: u32
      in (f_of_int (signed_u32 determinant) - f_of_int (signed_u32 trace_square) * k) * (F32 0x3C800000))"

definition fpc_harris_scores ::
    "u16 list \<Rightarrow> u16 list \<Rightarrow> u16 list \<Rightarrow> nat \<Rightarrow> f32 \<Rightarrow> f32 list \<Rightarrow> status \<times> f32 list" where
  "fpc_harris_scores xx yy xy n k scores =
     (if \<not> (0 \<le> k \<and> k \<le> 1) then (- 1, scores)
      else (0, map (\<lambda>i. harris_score k (xx ! i) (yy ! i) (xy ! i)) [0..<n] @ drop n scores))"

definition fpc_select_float_maxima ::
    "f32 list \<Rightarrow> nat \<Rightarrow> nat \<Rightarrow> nat \<Rightarrow> u8 list \<Rightarrow> nat \<Rightarrow> nat \<Rightarrow> fpc_keypoint list
       \<Rightarrow> status + fpc_keypoint list \<times> nat" where
  "fpc_select_float_maxima scores width height stride msk mask_stride border points =
     (if width = 0 \<or> height = 0 \<or> 256 < width \<or> 256 < height \<or> stride < width \<or> mask_stride < width
         \<or> SIZE_MAX div stride < height \<or> SIZE_MAX div mask_stride < height \<or> border < 1 then Inl (- 1)
      else if width \<le> border \<or> height \<le> border then Inr (points, 0)
      else Inr (select_points
             (\<lambda>(y, x). msk ! (y * mask_stride + x) \<noteq> 0)
             (\<lambda>(y, x). list_all (\<lambda>n. scores ! n < scores ! (y * stride + x)) (neighbours stride y x))
             (\<lambda>(y, x). scores ! (y * stride + x))
             (raster border (height - border) border (width - border)) points))"

end
