(* ===== verification/Ranking.thy ===== *)
theory Ranking
  imports Detect Filters "HOL-Library.Multiset" "HOL-Library.Sublist"
begin

text \<open>
  Ranking and budgeting of features (\<^verbatim>\<open>fpc_recovered.c\<close>: \<^verbatim>\<open>sort_feature_scores\<close>,
  \<^verbatim>\<open>fpc_sort_feature_scores\<close>, \<^verbatim>\<open>fpc_select_spatial_features\<close>,
  \<^verbatim>\<open>fpc_limit_feature_budget\<close>). The quicksort may loop on a NaN pivot, so it runs on fuel
  (\<open>None\<close>: not finished); its caller refuses NaN and passes enough. The drawing loop of the spatial
  selection runs on fuel too: nine cursor steps per feature.
\<close>

unbundle bit_operations_syntax

record fpc_ranked_score =
  rs_index :: int
  rs_score :: f32

record fpc_ranked_location =
  rl_index :: int
  rl_x :: u16
  rl_y :: u16

record fpc_feature_level =
  fl_count :: nat
  fl_scale_x_q14 :: u16
  fl_scale_y_q14 :: u16
  fl_offset_x_q4 :: u16
  fl_offset_y_q4 :: u16

subsection \<open>Sorting by descending score\<close>

text \<open>The partition loop over the records from \<open>lo\<close>: \<open>left\<close> and \<open>right\<close> are relative to \<open>lo\<close>.\<close>

function partition_scores ::
    "fpc_ranked_score list \<Rightarrow> nat \<Rightarrow> f32 \<Rightarrow> int \<Rightarrow> int \<Rightarrow> fpc_ranked_score list \<times> int \<times> int" where
  "partition_scores records lo pivot left right =
     (if left \<le> right then
        (let l = lo + nat left; r = lo + nat right in
         if rs_score (records ! l) \<le> pivot
         then (if pivot \<le> rs_score (records ! r)
               then partition_scores (records[l := records ! r, r := records ! l]) lo pivot (left + 1) (right - 1)
               else partition_scores records lo pivot left (right - 1))
         else partition_scores records lo pivot (left + 1) right)
      else (records, left, right))"
  by auto
termination
  by (relation "measure (\<lambda>(records, lo, pivot, left, right). nat (right - left + 1))") auto

declare partition_scores.simps [simp del]

fun sort_feature_scores ::
    "nat \<Rightarrow> fpc_ranked_score list \<Rightarrow> nat \<Rightarrow> nat \<Rightarrow> fpc_ranked_score list option" where
  "sort_feature_scores 0 records lo n = (if n < 2 then Some records else None)"
| "sort_feature_scores (Suc fuel) records lo n =
     (if n < 2 then Some records else
      case partition_scores records lo (rs_score (records ! (lo + n div 2))) 0 (int n - 1) of
        (records1, left, right) \<Rightarrow>
          do { records2 \<leftarrow> sort_feature_scores fuel records1 lo (nat (right + 1));
               sort_feature_scores fuel records2 (lo + nat left) (n - nat left) })"

definition fpc_sort_feature_scores ::
    "fpc_ranked_score list \<Rightarrow> (status \<times> fpc_ranked_score list) option" where
  "fpc_sort_feature_scores records =
     (if 2048 < length records then Some (- 1, records)
      else if list_ex (\<lambda>r. \<not> f_eq (rs_score r) (rs_score r)) records then Some (- 1, records)
      else do { sorted \<leftarrow> sort_feature_scores (length records) records 0 (length records);
                Some (0, sorted) })"

subsection \<open>Spatial selection\<close>

definition grid_coordinate :: "u16 \<Rightarrow> int \<Rightarrow> int \<Rightarrow> int" where
  "grid_coordinate v low high =
     (let x = f_to_i32 ((f_of_int (sint v - low) * (F32 0x40400000)) / f_of_int (high - low + 1));
          x = (if x < 0 then 0 else x)
      in if 2 < x then 2 else x)"

definition grid_cell :: "int \<Rightarrow> int \<Rightarrow> int \<Rightarrow> int \<Rightarrow> fpc_ranked_location \<Rightarrow> nat" where
  "grid_cell xmin ymin xmax ymax p =
     nat (grid_coordinate (rl_x p) xmin xmax + 3 * grid_coordinate (rl_y p) ymin ymax)"

text \<open>The linked lists of the cells, built from the last location to the first.\<close>

definition link_cells :: "nat list \<Rightarrow> int list \<times> int list" where
  "link_cells cells =
     fold (\<lambda>i (heads, next). (heads[cells ! i := int i], next[i := heads ! (cells ! i)]))
       (rev [0..<length cells]) (replicate 9 (- 1), replicate (length cells) 0)"

definition random_step :: "u64 \<Rightarrow> u64" where
  "random_step state = 4164903690 * ucast (ucast state :: u32) + drop_bit 32 state"

definition random_below :: "nat \<Rightarrow> u64 \<Rightarrow> nat" where
  "random_below n state = unat (ucast state :: u32) mod n"

fun shuffle_cells :: "nat \<Rightarrow> u64 \<Rightarrow> nat list \<Rightarrow> nat list" where
  "shuffle_cells 0 state cells = cells"
| "shuffle_cells (Suc n) state cells =
     (let state1 = random_step state; a = random_below 9 state1;
          state2 = random_step state1; b = random_below 9 state2
      in shuffle_cells n state2 (cells[a := cells ! b, b := cells ! a]))"

fun draw_features ::
    "nat \<Rightarrow> nat list \<Rightarrow> int list \<Rightarrow> int list \<Rightarrow> nat \<Rightarrow> nat \<Rightarrow> nat list option" where
  "draw_features fuel cells next heads cursor 0 = Some []"
| "draw_features 0 cells next heads cursor (Suc wanted) = None"
| "draw_features (Suc fuel) cells next heads cursor (Suc wanted) =
     (let cell = cells ! cursor; cursor' = (cursor + 1) mod 9; at = heads ! cell
      in if 0 \<le> at
         then map_option (\<lambda>rest. nat at # rest)
                (draw_features fuel cells next (heads[cell := next ! nat at]) cursor' wanted)
         else draw_features fuel cells next heads cursor' (Suc wanted))"

definition fpc_select_spatial_features ::
    "(nat \<Rightarrow> bool) \<Rightarrow> fpc_ranked_location list \<Rightarrow> nat \<Rightarrow> int \<Rightarrow> int \<Rightarrow> int \<Rightarrow> int \<Rightarrow> (status + int list) option" where
  "fpc_select_spatial_features al ranked wanted xmin ymin xmax ymax =
     (let n = length ranked in
      if n = 0 \<or> 2048 < n \<or> n < wanted \<or> xmax < xmin \<or> ymax < ymin then Some (Inl (- 1))
      else if \<not> al (n * 4) then Some (Inl (- 1))
      else case link_cells (map (grid_cell xmin ymin xmax ymax) ranked) of
             (heads, next) \<Rightarrow>
               map_option (\<lambda>positions. Inr (map (\<lambda>p. rl_index (ranked ! p)) positions))
                 (draw_features (9 * wanted) (shuffle_cells 90 0xFFFFFFFF [0..<9]) next heads 0 wanted))"

subsection \<open>The feature budget\<close>

definition level_quotas :: "nat \<Rightarrow> fpc_feature_level list \<Rightarrow> int \<Rightarrow> nat list" where
  "level_quotas n levels budget =
     (if 0 \<le> budget \<and> int n > budget then
        (let second = (if length levels = 2 then nat budget * 50 div 100 else 0)
         in [nat budget - second, second])
      else [fl_count (levels ! 0), if length levels = 2 then fl_count (levels ! 1) else 0])"

definition level_location :: "fpc_feature_level \<Rightarrow> fpc_keypoint list \<Rightarrow> fpc_ranked_score \<Rightarrow> fpc_ranked_location" where
  "level_location level points r =
     (let p = points ! nat (rs_index r);
          sx = i16_f32 (fl_scale_x_q14 level) * (F32 0x38800000);
          sy = i16_f32 (fl_scale_y_q14 level) * (F32 0x38800000);
          ox = i16_f32 (fl_offset_x_q4 level) * (F32 0x3D800000);
          oy = i16_f32 (fl_offset_y_q4 level) * (F32 0x3D800000)
      in \<lparr>rl_index = rs_index r,
          rl_x = word_of_int (truncate_sse (f_of_int (uint (kp_x p)) * sx + ox)),
          rl_y = word_of_int (truncate_sse (f_of_int (uint (kp_y p)) * sy + oy))\<rparr>)"

definition choose_level ::
    "(nat \<Rightarrow> bool) \<Rightarrow> fpc_feature_level \<Rightarrow> fpc_keypoint list \<Rightarrow> nat \<Rightarrow> nat \<Rightarrow> nat
       \<Rightarrow> (status + fpc_keypoint list) option" where
  "choose_level al level points q image_width image_height =
     (if q = length points then Some (Inr points)
      else if q = 0 then Some (Inr [])
      else do { (status, ranks) \<leftarrow> fpc_sort_feature_scores
                   (map (\<lambda>i. \<lparr>rs_index = int i, rs_score = kp_score (points ! i)\<rparr>) [0..<length points]);
                if status \<noteq> 0 then Some (Inl (- 1)) else
                do { chosen \<leftarrow> fpc_select_spatial_features al (map (level_location level points) ranks) q
                       0 0 (int image_width - 1) (int image_height - 1);
                     Some (case chosen of
                             Inl _ \<Rightarrow> Inl (- 1)
                           | Inr is \<Rightarrow> Inr (map (\<lambda>i. points ! nat i) is)) } })"

fun budget_levels ::
    "(nat \<Rightarrow> bool) \<Rightarrow> (fpc_feature_level \<times> nat) list \<Rightarrow> fpc_keypoint list \<Rightarrow> nat \<Rightarrow> nat
       \<Rightarrow> (status + fpc_keypoint list \<times> nat list) option" where
  "budget_levels al [] points image_width image_height = Some (Inr ([], []))"
| "budget_levels al ((level, quota) # rest) points image_width image_height =
     (let n = fl_count level; q = (if n < quota then n else quota) in
      do { chosen \<leftarrow> choose_level al level (take n points) q image_width image_height;
           case chosen of
             Inl e \<Rightarrow> Some (Inl e)
           | Inr ps \<Rightarrow>
               do { r \<leftarrow> budget_levels al rest (drop n points) image_width image_height;
                    Some (case r of Inl e \<Rightarrow> Inl e | Inr (qs, counts) \<Rightarrow> Inr (ps @ qs, q # counts)) } })"

definition fpc_limit_feature_budget ::
    "(nat \<Rightarrow> bool) \<Rightarrow> fpc_keypoint list \<Rightarrow> fpc_feature_level list \<Rightarrow> nat \<Rightarrow> nat \<Rightarrow> int \<Rightarrow> nat
       \<Rightarrow> (status + fpc_keypoint list \<times> nat list) option" where
  "fpc_limit_feature_budget al points levels image_width image_height budget capacity =
     (let n = length points in
      if levels = [] \<or> 2 < length levels \<or> 2048 < n \<or> image_width = 0 \<or> image_height = 0
         \<or> 256 < image_width \<or> 256 < image_height \<or> capacity < n
         \<or> n < fl_count (levels ! 0)
         \<or> (if length levels = 1 then fl_count (levels ! 0) \<noteq> n
            else fl_count (levels ! 1) \<noteq> n - fl_count (levels ! 0)) then Some (Inl (- 1))
      else do { r \<leftarrow> budget_levels al (zip levels (level_quotas n levels budget)) points
                       image_width image_height;
                Some (case r of
                        Inl e \<Rightarrow> Inl e
                      | Inr (ps, counts) \<Rightarrow>
                          Inr (ps, counts @ replicate (2 - length counts) 0)) })"

subsection \<open>The quicksort\<close>

definition rank_key :: "fpc_ranked_score \<Rightarrow> int" where
  "rank_key r = f_key (rs_score r)"

definition no_nan :: "fpc_ranked_score list \<Rightarrow> bool" where
  "no_nan rs \<longleftrightarrow> (\<forall>r \<in> set rs. \<not> f_is_nan (rs_score r))"

definition segment :: "'a list \<Rightarrow> nat \<Rightarrow> nat \<Rightarrow> 'a list" where
  "segment xs lo n = take n (drop lo xs)"

text \<open>\<open>ys\<close> is \<open>xs\<close> with the entries from \<open>lo\<close> to \<open>lo + n\<close> rearranged.\<close>

definition rearranged :: "'a list \<Rightarrow> nat \<Rightarrow> nat \<Rightarrow> 'a list \<Rightarrow> bool" where
  "rearranged xs lo n ys \<longleftrightarrow>
     mset ys = mset xs \<and> take lo ys = take lo xs \<and> drop (lo + n) ys = drop (lo + n) xs"

lemma rearranged_refl [simp]: "rearranged xs lo n xs"
  by (simp add: rearranged_def)

lemma rearranged_trans: "rearranged xs lo n ys \<Longrightarrow> rearranged ys lo n zs \<Longrightarrow> rearranged xs lo n zs"
  by (simp add: rearranged_def)

lemma rearranged_length: "rearranged xs lo n ys \<Longrightarrow> length ys = length xs"
  by (auto simp: rearranged_def dest: mset_eq_length)

lemma rearranged_set: "rearranged xs lo n ys \<Longrightarrow> set ys = set xs"
  by (auto simp: rearranged_def dest: mset_eq_setD)

lemma split_segment: "xs = take lo xs @ segment xs lo n @ drop (lo + n) xs"
  by (metis segment_def append_take_drop_id drop_drop add.commute)

lemma rearranged_segment:
  assumes "rearranged xs lo n ys"
  shows "mset (segment ys lo n) = mset (segment xs lo n)"
proof -
  have m: "mset zs = mset (take lo zs) + mset (segment zs lo n) + mset (drop (lo + n) zs)" for zs :: "'a list"
    by (subst split_segment [of zs lo n]) (simp only: mset_append ac_simps)
  have "mset ys = mset xs" "take lo ys = take lo xs" "drop (lo + n) ys = drop (lo + n) xs"
    using assms by (simp_all add: rearranged_def)
  with m [of xs] m [of ys] show ?thesis by (metis add_left_cancel add_right_cancel)
qed

lemma rearranged_mono:
  assumes "rearranged xs lo n ys" "lo' \<le> lo" "lo + n \<le> lo' + n'"
  shows "rearranged xs lo' n' ys"
proof -
  have r: "mset ys = mset xs" "take lo ys = take lo xs" "drop (lo + n) ys = drop (lo + n) xs"
    using assms(1) by (simp_all add: rearranged_def)
  obtain d where d: "lo' + n' = d + (lo + n)" using assms(3) by (metis add.commute le_Suc_ex)
  obtain e where e: "lo = lo' + e" using assms(2) le_Suc_ex by blast
  have "take lo' ys = take lo' (take lo ys)" "take lo' xs = take lo' (take lo xs)"
    using e by (simp_all only: take_take) simp_all
  with r have "take lo' ys = take lo' xs" by simp
  moreover have "drop (lo' + n') ys = drop (lo' + n') xs"
    unfolding d by (metis drop_drop r(3))
  ultimately show ?thesis using r by (simp add: rearranged_def)
qed

lemma rearranged_swap:
  assumes "a < n" "b < n" "lo + n \<le> length xs"
  shows "rearranged xs lo n (xs[lo + a := xs ! (lo + b), lo + b := xs ! (lo + a)])"
  unfolding rearranged_def
proof (intro conjI)
  show "mset (xs[lo + a := xs ! (lo + b), lo + b := xs ! (lo + a)]) = mset xs"
    using assms by (intro mset_swap) auto
  show "take lo (xs[lo + a := xs ! (lo + b), lo + b := xs ! (lo + a)]) = take lo xs"
    by (simp add: take_update_cancel)
  show "drop (lo + n) (xs[lo + a := xs ! (lo + b), lo + b := xs ! (lo + a)]) = drop (lo + n) xs"
    using assms by (simp add: drop_update_cancel)
qed

lemma rearranged_outside:
  assumes "rearranged xs lo n ys" "i < lo \<or> lo + n \<le> i"  "i < length xs"
  shows "ys ! i = xs ! i"
  using assms(2)
proof
  assume "i < lo"
  then show ?thesis using assms(1) by (metis rearranged_def nth_take)
next
  assume i: "lo + n \<le> i"
  then have "zs ! i = drop (lo + n) zs ! (i - (lo + n))" if "length zs = length xs" for zs :: "'a list"
    using that assms(3) by simp
  then show ?thesis using assms(1) rearranged_length [OF assms(1)] by (simp add: rearranged_def)
qed

lemma key_le: "\<not> f_is_nan x \<Longrightarrow> \<not> f_is_nan y \<Longrightarrow> x \<le> y \<longleftrightarrow> f_key x \<le> f_key y"
  by (simp add: less_eq_f32_def)

text \<open>The state of the partition loop on the \<open>n\<close> records from \<open>lo\<close>.\<close>

definition partition_state ::
    "fpc_ranked_score list \<Rightarrow> nat \<Rightarrow> nat \<Rightarrow> int \<Rightarrow> int \<Rightarrow> int \<Rightarrow> bool" where
  "partition_state rs lo n pivot left right \<longleftrightarrow>
     0 \<le> left \<and> right < int n \<and> left \<le> right + 2 \<and> lo + n \<le> length rs \<and> no_nan rs
     \<and> (\<forall>i<n. int i < left \<longrightarrow> pivot \<le> rank_key (rs ! (lo + i)))
     \<and> (\<forall>i<n. right < int i \<longrightarrow> rank_key (rs ! (lo + i)) \<le> pivot)
     \<and> (right = int n - 1 \<longrightarrow> (\<exists>i<n. left \<le> int i \<and> rank_key (rs ! (lo + i)) \<le> pivot))
     \<and> (left = 0 \<longrightarrow> (\<exists>i<n. int i \<le> right \<and> pivot \<le> rank_key (rs ! (lo + i))))"

lemma partition_state_up:
  assumes st: "partition_state rs lo n p left right" and le: "left \<le> right"
    and k: "p < rank_key (rs ! (lo + nat left))"
  shows "partition_state rs lo n p (left + 1) right"
proof -
  obtain a where a: "left = int a" using st by (metis partition_state_def nonneg_int_cases)
  have "i < a \<or> i = a" if "int i < left + 1" for i using that a by linarith
  then have "\<forall>i<n. int i < left + 1 \<longrightarrow> p \<le> rank_key (rs ! (lo + i))"
    using st k a by (fastforce simp: partition_state_def)
  moreover have "right = int n - 1 \<longrightarrow> (\<exists>i<n. left + 1 \<le> int i \<and> rank_key (rs ! (lo + i)) \<le> p)"
  proof
    assume "right = int n - 1"
    then obtain i where "i < n" "left \<le> int i" "rank_key (rs ! (lo + i)) \<le> p"
      using st by (auto simp: partition_state_def)
    moreover from this k a have "i \<noteq> a" by auto
    ultimately show "\<exists>i<n. left + 1 \<le> int i \<and> rank_key (rs ! (lo + i)) \<le> p" using a by (intro exI [of _ i]) auto
  qed
  ultimately show ?thesis using st le by (simp add: partition_state_def)
qed

lemma partition_state_down:
  assumes st: "partition_state rs lo n p left right" and le: "left \<le> right"
    and k: "rank_key (rs ! (lo + nat right)) < p"
  shows "partition_state rs lo n p left (right - 1)"
proof -
  have "0 \<le> right" using st le by (simp add: partition_state_def)
  then obtain b where b: "right = int b" by (metis nonneg_int_cases)
  have "b < i \<or> i = b" if "right - 1 < int i" for i using that b by linarith
  then have "\<forall>i<n. right - 1 < int i \<longrightarrow> rank_key (rs ! (lo + i)) \<le> p"
    using st k b by (fastforce simp: partition_state_def)
  moreover have "left = 0 \<longrightarrow> (\<exists>i<n. int i \<le> right - 1 \<and> p \<le> rank_key (rs ! (lo + i)))"
  proof
    assume "left = 0"
    then obtain i where "i < n" "int i \<le> right" "p \<le> rank_key (rs ! (lo + i))"
      using st by (auto simp: partition_state_def)
    moreover from this k b have "i \<noteq> b" by auto
    ultimately show "\<exists>i<n. int i \<le> right - 1 \<and> p \<le> rank_key (rs ! (lo + i))" using b by (intro exI [of _ i]) auto
  qed
  ultimately show ?thesis using st le by (simp add: partition_state_def)
qed

lemma partition_state_swap:
  assumes st: "partition_state rs lo n p left right" and le: "left \<le> right"
    and kl: "rank_key (rs ! (lo + nat left)) \<le> p" and kr: "p \<le> rank_key (rs ! (lo + nat right))"
  shows "partition_state (rs[lo + nat left := rs ! (lo + nat right), lo + nat right := rs ! (lo + nat left)])
           lo n p (left + 1) (right - 1)"
    (is "partition_state ?rs _ _ _ _ _")
proof -
  have r0: "0 \<le> left" "0 \<le> right" using st le by (auto simp: partition_state_def)
  then obtain a b where ab: "left = int a" "right = int b" by (metis nonneg_int_cases)
  have b: "a \<le> b" "b < n" "lo + n \<le> length rs" "no_nan rs" using st le ab by (auto simp: partition_state_def)
  let ?ss = "rs[lo + a := rs ! (lo + b), lo + b := rs ! (lo + a)]"
  have v: "rank_key (?ss ! (lo + i)) = (if i = b then rank_key (rs ! (lo + a)) else
      if i = a then rank_key (rs ! (lo + b)) else rank_key (rs ! (lo + i)))" if "i < n" for i
    using that b by (simp add: nth_list_update)
  have k: "rank_key (rs ! (lo + a)) \<le> p" "p \<le> rank_key (rs ! (lo + b))" using kl kr ab by simp_all
  have "mset ?ss = mset rs" using b by (intro mset_swap) auto
  then have "no_nan ?ss" using b(4) by (auto simp: no_nan_def dest: mset_eq_setD)
  moreover have "p \<le> rank_key (?ss ! (lo + i))" if i: "i < n" "int i < left + 1" for i
  proof (cases "i = a")
    case True
    with v [OF i(1)] k show ?thesis by auto
  next
    case False
    with i ab have "i < a" "int i < left" by simp_all
    with st i b have "p \<le> rank_key (rs ! (lo + i))" by (auto simp: partition_state_def)
    with v [OF i(1)] \<open>i < a\<close> b show ?thesis by simp
  qed
  moreover have "rank_key (?ss ! (lo + i)) \<le> p" if i: "i < n" "right - 1 < int i" for i
  proof (cases "i = b")
    case True
    with v [OF i(1)] k show ?thesis by simp
  next
    case False
    with i ab have "b < i" "right < int i" by simp_all
    with st i b have "rank_key (rs ! (lo + i)) \<le> p" by (auto simp: partition_state_def)
    with v [OF i(1)] \<open>b < i\<close> b show ?thesis by simp
  qed
  moreover have "right - 1 \<noteq> int n - 1" "left + 1 \<noteq> 0" using b ab by auto
  ultimately have "partition_state ?ss lo n p (left + 1) (right - 1)"
    using b ab le by (simp add: partition_state_def)
  with ab show ?thesis by simp
qed

lemma partition_spec:
  assumes "partition_scores rs lo pivot left right = (rs', l, r)"
    "partition_state rs lo n (f_key pivot) left right" "\<not> f_is_nan pivot"
  shows "partition_state rs' lo n (f_key pivot) l r \<and> r < l \<and> rearranged rs lo n rs'"
  using assms
proof (induction rs lo pivot left right arbitrary: rs' l r rule: partition_scores.induct)
  case (1 rs lo pivot left right)
  note st = "1.prems"(2)
  show ?case
  proof (cases "left \<le> right")
    case False
    with "1.prems" have "rs' = rs" "l = left" "r = right" by (simp_all add: partition_scores.simps)
    with st False show ?thesis by (auto simp: partition_state_def)
  next
    case le: True
    let ?l = "lo + nat left" and ?r = "lo + nat right"
    have b: "nat left < n" "nat right < n" "lo + n \<le> length rs" "no_nan rs"
      using st le by (auto simp: partition_state_def)
    have nn: "\<not> f_is_nan (rs_score (rs ! (lo + i)))" if "i < n" for i
      using b that by (auto simp: no_nan_def)
    have kl: "rs_score (rs ! ?l) \<le> pivot \<longleftrightarrow> rank_key (rs ! ?l) \<le> f_key pivot"
      and kr: "pivot \<le> rs_score (rs ! ?r) \<longleftrightarrow> f_key pivot \<le> rank_key (rs ! ?r)"
      using nn b "1.prems"(3) by (simp_all add: key_le rank_key_def)
    show ?thesis
    proof (cases "rs_score (rs ! ?l) \<le> pivot")
      case False
      with "1.prems"(1) le have e: "partition_scores rs lo pivot (left + 1) right = (rs', l, r)"
        by (subst (asm) partition_scores.simps) (simp add: Let_def)
      have "partition_state rs lo n (f_key pivot) (left + 1) right"
        by (rule partition_state_up [OF st le]) (use False kl in simp)
      from "1.IH"(3) [OF le refl refl False e this "1.prems"(3)] show ?thesis .
    next
      case L: True
      show ?thesis
      proof (cases "pivot \<le> rs_score (rs ! ?r)")
        case False
        with "1.prems"(1) le L have e: "partition_scores rs lo pivot left (right - 1) = (rs', l, r)"
          by (subst (asm) partition_scores.simps) (simp add: Let_def)
        have "partition_state rs lo n (f_key pivot) left (right - 1)"
          by (rule partition_state_down [OF st le]) (use False kr in simp)
        from "1.IH"(2) [OF le refl refl L False e this "1.prems"(3)] show ?thesis .
      next
        case True
        let ?rs = "rs[?l := rs ! ?r, ?r := rs ! ?l]"
        from "1.prems"(1) le L True have e: "partition_scores ?rs lo pivot (left + 1) (right - 1) = (rs', l, r)"
          by (subst (asm) partition_scores.simps) (simp add: Let_def)
        have ra: "rearranged rs lo n ?rs" using b by (intro rearranged_swap) auto
        have "partition_state ?rs lo n (f_key pivot) (left + 1) (right - 1)"
          by (rule partition_state_swap [OF st le]) (use L True kl kr in simp_all)
        from "1.IH"(1) [OF le refl refl L True e this "1.prems"(3)] rearranged_trans [OF ra]
        show ?thesis by blast
      qed
    qed
  qed
qed

lemma partition_state_start:
  assumes "2 \<le> n" "lo + n \<le> length rs" "no_nan rs"
  shows "partition_state rs lo n (rank_key (rs ! (lo + n div 2))) 0 (int n - 1)"
proof -
  have "n div 2 < n" using assms(1) by simp
  moreover have "int (n div 2) \<le> int n - 1" using assms(1) by linarith
  moreover have "int n - 1 \<noteq> - 1" using assms(1) by simp
  ultimately show ?thesis using assms unfolding partition_state_def
    by (intro conjI impI allI exI [of _ "n div 2"]) auto
qed

lemma rearranged_member:
  assumes "rearranged xs lo n ys" "lo + n \<le> length xs" "i < n"
  obtains j where "j < n" "ys ! (lo + i) = xs ! (lo + j)"
proof -
  have len: "length (segment ys lo n) = n" "length (segment xs lo n) = n"
    using assms(2) rearranged_length [OF assms(1)] by (auto simp: segment_def)
  have "segment ys lo n ! i \<in> set (segment ys lo n)" using assms(3) len by (intro nth_mem) simp
  also have "set (segment ys lo n) = set (segment xs lo n)"
    using rearranged_segment [OF assms(1)] by (rule mset_eq_setD)
  finally obtain j where "j < n" "segment ys lo n ! i = segment xs lo n ! j"
    using len by (auto simp: in_set_conv_nth)
  then show ?thesis using that [of j] assms(3) assms(2) rearranged_length [OF assms(1)]
    by (simp add: segment_def)
qed

definition descending_at :: "fpc_ranked_score list \<Rightarrow> nat \<Rightarrow> nat \<Rightarrow> bool" where
  "descending_at rs lo n \<longleftrightarrow>
     (\<forall>i j. i < j \<longrightarrow> j < n \<longrightarrow> rank_key (rs ! (lo + j)) \<le> rank_key (rs ! (lo + i)))"

lemma descending_at_short: "n < 2 \<Longrightarrow> descending_at rs lo n"
  by (auto simp: descending_at_def)

text \<open>Two sorted parts around a pivot make a sorted whole.\<close>

lemma descending_at_join:
  assumes st: "partition_state rs1 lo n p l r" "r < l" "0 < l" "r < int n - 1"
    and r2: "rearranged rs1 lo (nat (r + 1)) rs2" "descending_at rs2 lo (nat (r + 1))"
    and r3: "rearranged rs2 (lo + nat l) (n - nat l) rs3" "descending_at rs3 (lo + nat l) (n - nat l)"
  shows "descending_at rs3 lo n"
proof -
  have b: "0 \<le> l" "r < int n" "lo + n \<le> length rs1" "l \<le> r + 2" and
    hi: "\<And>i. i < n \<Longrightarrow> int i < l \<Longrightarrow> p \<le> rank_key (rs1 ! (lo + i))" and
    lw: "\<And>i. i < n \<Longrightarrow> r < int i \<Longrightarrow> rank_key (rs1 ! (lo + i)) \<le> p"
    using st by (auto simp: partition_state_def)
  have len: "length rs2 = length rs1" using rearranged_length [OF r2(1)] .
  have keep3: "rs3 ! (lo + i) = rs2 ! (lo + i)" if "int i < l" "i < n" for i
    by (rule rearranged_outside [OF r3(1)]) (use that b len in auto)
  have keep2: "rs2 ! (lo + i) = rs1 ! (lo + i)" if "r < int i" "i < n" for i
    by (rule rearranged_outside [OF r2(1)]) (use that b len in auto)
  have hi2: "p \<le> rank_key (rs2 ! (lo + i))" if i: "i < n" "int i < l" for i
  proof (cases "int i \<le> r")
    case True
    obtain j where "j < nat (r + 1)" "rs2 ! (lo + i) = rs1 ! (lo + j)"
      by (rule rearranged_member [OF r2(1)]) (use True b in auto)
    then show ?thesis using hi [of j] st b by auto
  qed (use keep2 that hi in auto)
  have lw3: "rank_key (rs3 ! (lo + i)) \<le> p" if i: "i < n" "r < int i" for i
  proof (cases "int i < l")
    case False
    then have e: "lo + nat l + (i - nat l) = lo + i" using b by simp
    obtain j where j: "j < n - nat l" "rs3 ! (lo + nat l + (i - nat l)) = rs2 ! (lo + nat l + j)"
      by (rule rearranged_member [OF r3(1), of "i - nat l"]) (use False i b len in \<open>auto simp: le_nat_iff\<close>)
    have "r < int (nat l + j)" "nat l + j < n" using j st b by auto
    then show ?thesis using j(2) [unfolded e] keep2 [of "nat l + j"] lw [of "nat l + j"] by (simp add: add.assoc)
  qed (use keep2 keep3 that lw in auto)
  show ?thesis unfolding descending_at_def
  proof (intro allI impI)
    fix i j assume ij: "i < j" "j < n"
    consider (first) "int j \<le> r" | (second) "l \<le> int i" | (across) "r < int j" "int i < l" by linarith
    then show "rank_key (rs3 ! (lo + j)) \<le> rank_key (rs3 ! (lo + i))"
    proof cases
      case first
      then show ?thesis using r2(2) ij st keep3 [of i] keep3 [of j] by (auto simp: descending_at_def)
    next
      case second
      then have "i - nat l < j - nat l" "j - nat l < n - nat l"
        "lo + nat l + (i - nat l) = lo + i" "lo + nat l + (j - nat l) = lo + j" using ij b by auto
      then show ?thesis using r3(2) unfolding descending_at_def by metis
    next
      case across
      then show ?thesis using lw3 [of j] hi2 [of i] keep3 [of i] ij by simp
    qed
  qed
qed

lemma sort_segment:
  assumes "n \<le> fuel" "no_nan rs" "lo + n \<le> length rs"
  shows "\<exists>ys. sort_feature_scores fuel rs lo n = Some ys \<and> rearranged rs lo n ys \<and> descending_at ys lo n"
  using assms
proof (induction fuel arbitrary: rs lo n)
  case 0
  then show ?case by (simp add: descending_at_def)
next
  case (Suc fuel)
  show ?case
  proof (cases "n < 2")
    case True
    then show ?thesis by (simp add: descending_at_short)
  next
    case False
    let ?p = "rs_score (rs ! (lo + n div 2))"
    have piv: "\<not> f_is_nan ?p" using Suc.prems False by (auto simp: no_nan_def)
    obtain rs1 l r where e: "partition_scores rs lo ?p 0 (int n - 1) = (rs1, l, r)" by (metis prod_cases3)
    have st: "partition_state rs1 lo n (f_key ?p) l r" "r < l" "rearranged rs lo n rs1"
      using partition_spec [OF e _ piv] partition_state_start [of n lo rs] Suc.prems False
      by (auto simp: rank_key_def)
    then have b: "0 \<le> l" "r < int n" "0 < l" "r < int n - 1" "l \<le> r + 2"
      by (auto simp: partition_state_def less_le)
    have n1: "no_nan rs1" using Suc.prems(2) rearranged_set [OF st(3)] by (simp add: no_nan_def)
    have len1: "length rs1 = length rs" using rearranged_length [OF st(3)] .
    have n1': "nat (r + 1) \<le> fuel" "lo + nat (r + 1) \<le> length rs1" "n - nat l \<le> fuel"
      "lo + nat l + (n - nat l) \<le> length rs1"
      using b Suc.prems(1,3) len1 by linarith+
    obtain rs2 where r2: "sort_feature_scores fuel rs1 lo (nat (r + 1)) = Some rs2"
        "rearranged rs1 lo (nat (r + 1)) rs2" "descending_at rs2 lo (nat (r + 1))"
      using Suc.IH [of "nat (r + 1)" rs1 lo] n1 n1' by auto
    have n2: "no_nan rs2" using n1 rearranged_set [OF r2(2)] by (simp add: no_nan_def)
    have len2: "length rs2 = length rs" using rearranged_length [OF r2(2)] len1 by simp
    obtain rs3 where r3: "sort_feature_scores fuel rs2 (lo + nat l) (n - nat l) = Some rs3"
        "rearranged rs2 (lo + nat l) (n - nat l) rs3" "descending_at rs3 (lo + nat l) (n - nat l)"
      using Suc.IH [of "n - nat l" rs2 "lo + nat l"] n2 n1' len1 len2 by auto
    have "rearranged rs1 lo n rs2" by (rule rearranged_mono [OF r2(2)]) (use b in auto)
    moreover have "rearranged rs2 lo n rs3" by (rule rearranged_mono [OF r3(2)]) (use b in auto)
    ultimately have "rearranged rs lo n rs3" using st(3) rearranged_trans by blast
    moreover have "descending_at rs3 lo n"
      by (rule descending_at_join [OF st(1,2) b(3,4) r2(2,3) r3(2,3)])
    ultimately show ?thesis using False e r2(1) r3(1) by simp
  qed
qed

lemma descending_sorted:
  assumes "descending_at rs 0 (length rs)" "no_nan rs"
  shows "sorted_wrt (\<lambda>a b. rs_score b \<le> rs_score a) rs"
  using assms by (auto simp: sorted_wrt_iff_nth_less descending_at_def no_nan_def key_le rank_key_def)

lemma sort_scores_spec:
  "\<exists>status sorted. fpc_sort_feature_scores records = Some (status, sorted)
     \<and> (if length records \<le> 2048 \<and> no_nan records
        then status = 0 \<and> mset sorted = mset records \<and> sorted_wrt (\<lambda>a b. rs_score b \<le> rs_score a) sorted
        else status = - 1 \<and> sorted = records)"
proof (cases "length records \<le> 2048 \<and> no_nan records")
  case True
  then obtain ys where ys: "sort_feature_scores (length records) records 0 (length records) = Some ys"
      "rearranged records 0 (length records) ys" "descending_at ys 0 (length records)"
    using sort_segment [of "length records" "length records" records 0] by auto
  have "no_nan ys" using True rearranged_set [OF ys(2)] by (simp add: no_nan_def)
  with ys True descending_sorted [of ys] rearranged_length [OF ys(2)]
  have "sorted_wrt (\<lambda>a b. rs_score b \<le> rs_score a) ys" by simp
  with ys True show ?thesis
    by (auto simp: fpc_sort_feature_scores_def f_eq_def no_nan_def list_ex_iff rearranged_def)
next
  case False
  then show ?thesis
    by (auto simp: fpc_sort_feature_scores_def f_eq_def no_nan_def list_ex_iff)
qed

text \<open>(C30) The score sort always returns: on at most 2048 scores without NaN it succeeds with a
  permutation of its input in descending order of score, on anything else it reports an error and
  leaves the records alone. The quicksort it runs never needs a recursion deeper than the number of
  records.\<close>

theorem feature_sort_correct:
  "\<exists>status sorted. fpc_sort_feature_scores records = Some (status, sorted)
     \<and> (if length records \<le> 2048 \<and> no_nan records
        then status = 0 \<and> mset sorted = mset records \<and> sorted_wrt (\<lambda>a b. rs_score b \<le> rs_score a) sorted
        else status = - 1 \<and> sorted = records)"
  by (rule sort_scores_spec)

subsection \<open>Drawing features from the cells\<close>

text \<open>\<open>linked next at ps\<close>: from the list head \<open>at\<close>, the links \<open>next\<close> give the positions \<open>ps\<close>.\<close>

fun linked :: "int list \<Rightarrow> int \<Rightarrow> nat list \<Rightarrow> bool" where
  "linked next at [] = (at < 0)"
| "linked next at (p # ps) = (at = int p \<and> linked next (next ! p) ps)"

lemma linked_update: "j \<notin> set ps \<Longrightarrow> linked (next[j := v]) at ps = linked next at ps"
  by (induction ps arbitrary: at) auto

lemma linked_nonneg: "linked next at ps \<Longrightarrow> 0 \<le> at \<longleftrightarrow> ps \<noteq> []"
  by (cases ps) auto

text \<open>The positions of cell \<open>c\<close> from \<open>j\<close> on.\<close>

definition cell_positions :: "nat list \<Rightarrow> nat \<Rightarrow> nat \<Rightarrow> nat list" where
  "cell_positions cells j c = filter (\<lambda>i. cells ! i = c) [j..<length cells]"

lemma link_cells_from:
  assumes "list_all (\<lambda>c. c < 9) cells" "j \<le> length cells"
    "fold (\<lambda>i (heads, next). (heads[cells ! i := int i], next[i := heads ! (cells ! i)]))
       (rev [j..<length cells]) (replicate 9 (- 1), replicate (length cells) 0) = (heads, next)"
  shows "length heads = 9 \<and> length next = length cells
    \<and> list_all (\<lambda>c. linked next (heads ! c) (cell_positions cells j c)) [0..<9]"
  using assms(2,3)
proof (induction arbitrary: heads "next" rule: inc_induct)
  case base
  then show ?case by (auto simp: list_all_iff cell_positions_def)
next
  case (step j)
  let ?f = "\<lambda>i (heads, next). (heads[cells ! i := int i], next[i := heads ! (cells ! i)])"
  obtain h0 n0 where e: "fold ?f (rev [Suc j..<length cells]) (replicate 9 (- 1), replicate (length cells) 0) = (h0, n0)"
    by fastforce
  have s: "heads = h0[cells ! j := int j]" "next = n0[j := h0 ! (cells ! j)]"
    using step.prems step.hyps e by (simp_all add: upt_conv_Cons)
  from step.IH [OF e] have ih: "length h0 = 9" "length n0 = length cells"
    "\<And>c. c < 9 \<Longrightarrow> linked n0 (h0 ! c) (cell_positions cells (Suc j) c)" by (auto simp: list_all_iff)
  have "cells ! j < 9" using assms(1) step.hyps by (simp add: list_all_length)
  moreover have "j \<notin> set (cell_positions cells (Suc j) c)" for c by (simp add: cell_positions_def)
  moreover have "cell_positions cells j c
      = (if cells ! j = c then j # cell_positions cells (Suc j) c else cell_positions cells (Suc j) c)" for c
    using step.hyps by (simp add: cell_positions_def upt_conv_Cons)
  ultimately have "linked next (heads ! c) (cell_positions cells j c)" if "c < 9" for c
    using that ih step.hyps by (auto simp: s linked_update nth_list_update)
  then show ?case using ih by (simp add: s list_all_iff)
qed

lemma shuffle_cells_mset:
  "length cells = 9 \<Longrightarrow> mset (shuffle_cells n state cells) = mset cells"
proof (induction n arbitrary: state cells)
  case (Suc n)
  have "random_below 9 s < length cells" for s using Suc.prems by (simp add: random_below_def)
  then show ?case using Suc by (simp add: Let_def mset_swap)
qed simp

lemma cursor_covers: "c < 9 \<Longrightarrow> t < 9 \<Longrightarrow> \<exists>k<9. (c + k) mod 9 = (t :: nat)"
  by (cases "c \<le> t") (rule exI [of _ "t - c"], simp, rule exI [of _ "t + 9 - c"], simp)

lemma draw_features_spec:
  fixes chains :: "nat \<Rightarrow> nat list"
  assumes "length heads = 9" "mset cells = mset [0..<9]" "cursor < 9"
    "\<And>c. c < 9 \<Longrightarrow> linked next (heads ! c) (chains c)" "wanted \<le> (\<Sum>c<9. length (chains c))"
    "0 < wanted \<Longrightarrow> \<exists>k<9. chains (cells ! ((cursor + k) mod 9)) \<noteq> [] \<and> 9 * wanted + k \<le> fuel + 8"
    "\<And>c. c < 9 \<Longrightarrow> list_all (\<lambda>p. cell_of p = c) (chains c)"
  shows "\<exists>ps. draw_features fuel cells next heads cursor wanted = Some ps \<and> length ps = wanted
    \<and> list_all (\<lambda>p. cell_of p < 9) ps
    \<and> list_all (\<lambda>c. prefix (filter (\<lambda>p. cell_of p = c) ps) (chains c)) [0..<9]"
  using assms
proof (induction fuel arbitrary: heads cursor wanted chains)
  case 0
  then show ?case by (cases wanted) auto
next
  case (Suc fuel)
  show ?case
  proof (cases wanted)
    case 0
    then show ?thesis by (simp add: list_all_iff)
  next
    case (Suc w)
    let ?c = "cells ! cursor" and ?u = "(cursor + 1) mod 9"
    have len: "length cells = 9" using mset_eq_length [OF Suc.prems(2)] by simp
    have set9: "set cells = {..<9}" using mset_eq_setD [OF Suc.prems(2)] by (simp add: atLeast0LessThan)
    have c9: "?c < 9" using len Suc.prems(3) set9 nth_mem by fastforce
    have lk: "linked next (heads ! ?c) (chains ?c)" by (rule Suc.prems(4) [OF c9])
    obtain k where k: "k < 9" "chains (cells ! ((cursor + k) mod 9)) \<noteq> []" "9 * wanted + k \<le> Suc fuel + 8"
      using Suc.prems(6) Suc by auto
    show ?thesis
    proof (cases "chains ?c")
      case Nil
      then have "k \<noteq> 0" using k Suc.prems(3) by (cases "k = 0") auto
      then obtain k' where k': "k = Suc k'" by (cases k) auto
      have "\<exists>k<9. chains (cells ! ((?u + k) mod 9)) \<noteq> [] \<and> 9 * wanted + k \<le> fuel + 8"
        using k k' by (intro exI [of _ k']) (simp add: mod_add_left_eq)
      from Suc.IH [OF Suc.prems(1,2) _ Suc.prems(4,5) this Suc.prems(7)] Suc Nil lk show ?thesis
        by (simp add: linked_nonneg Let_def)
    next
      case (Cons p ps)
      let ?heads = "heads[?c := next ! p]" and ?chains = "chains(?c := ps)"
      have "list_all (\<lambda>p. cell_of p = ?c) (chains ?c)" by (rule Suc.prems(7) [OF c9])
      with Cons have cp: "cell_of p = ?c" "list_all (\<lambda>p. cell_of p = ?c) ps" by simp_all
      have at: "heads ! ?c = int p" "linked next (next ! p) ps" using lk Cons by simp_all
      have l: "linked next (?heads ! c) (?chains c)" if "c < 9" for c
        using that Suc.prems(1) Suc.prems(4) [OF that] at by (simp add: nth_list_update)
      have "(\<Sum>c<9. length (chains c)) = length (chains ?c) + (\<Sum>c \<in> {..<9} - {?c}. length (chains c))"
        using c9 by (simp add: sum.remove)
      moreover have "(\<Sum>c<9. length (?chains c)) = length ps + (\<Sum>c \<in> {..<9} - {?c}. length (chains c))"
        using c9 by (simp add: sum.remove)
      ultimately have w: "w \<le> (\<Sum>c<9. length (?chains c))" using Suc.prems(5) Suc Cons by simp
      have g: "\<exists>k<9. ?chains (cells ! ((?u + k) mod 9)) \<noteq> [] \<and> 9 * w + k \<le> fuel + 8" if "0 < w"
      proof -
        have "\<exists>c<9. ?chains c \<noteq> []"
        proof (rule ccontr)
          assume "\<not> (\<exists>c<9. ?chains c \<noteq> [])"
          then have "(\<Sum>c<9. length (?chains c)) = 0" by simp
          with w that show False by linarith
        qed
        then obtain c where c: "c < 9" "?chains c \<noteq> []" by blast
        then obtain t where t: "t < 9" "cells ! t = c" using set9 len by (metis in_set_conv_nth lessThan_iff)
        obtain k' where "k' < 9" "(?u + k') mod 9 = t" using cursor_covers [of ?u t] t by auto
        then show ?thesis using c t k Suc by (intro exI [of _ k']) auto
      qed
      have "list_all (\<lambda>p. cell_of p = c) (?chains c)" if "c < 9" for c
        using Suc.prems(7) [OF that] cp by simp
      from Suc.IH [of ?heads ?u ?chains w, OF _ Suc.prems(2) _ l w g this] Suc.prems(1)
      obtain qs where qs: "draw_features fuel cells next ?heads ?u w = Some qs" "length qs = w"
        "list_all (\<lambda>p. cell_of p < 9) qs"
        "\<And>c. c < 9 \<Longrightarrow> prefix (filter (\<lambda>p. cell_of p = c) qs) (?chains c)"
        by (auto simp: list_all_iff)
      have "prefix (filter (\<lambda>p. cell_of p = c) (p # qs)) (chains c)" if "c < 9" for c
        using qs(4) [OF that] cp Cons by (auto split: if_splits)
      with qs cp c9 Suc at show ?thesis by (simp add: Let_def list_all_iff)
    qed
  qed
qed

lemma grid_coordinate_bounds: "grid_coordinate v low high \<in> {0..2}"
  by (simp add: grid_coordinate_def Let_def)

lemma grid_cell_bound: "grid_cell xmin ymin xmax ymax p < 9"
  using grid_coordinate_bounds [of "rl_x p" xmin xmax] grid_coordinate_bounds [of "rl_y p" ymin ymax]
  by (simp add: grid_cell_def nat_less_iff)

text \<open>Every position lies in the list of exactly one cell.\<close>

lemma cell_positions_total:
  assumes "list_all (\<lambda>c. c < 9) cells"
  shows "(\<Sum>c<9. length (cell_positions cells 0 c)) = length cells"
proof -
  have "(\<Sum>c<9. length (filter (\<lambda>i. cells ! i = c) is)) = length is"
    if "list_all (\<lambda>i. cells ! i < 9) is" for "is"
    using that
  proof (induction "is")
    case (Cons i "is")
    have "(\<Sum>c<9. length (filter (\<lambda>i. cells ! i = c) (i # is)))
        = (\<Sum>c<9. (if cells ! i = c then 1 else 0) + length (filter (\<lambda>i. cells ! i = c) is))"
      by (intro sum.cong) auto
    with Cons show ?case by (simp add: sum.distrib sum.delta)
  qed simp
  from this [of "[0..<length cells]"] assms show ?thesis
    by (simp add: cell_positions_def list_all_length)
qed

lemma distinct_by_class:
  assumes "\<And>c. distinct (filter (\<lambda>p. f p = c) ps)"
  shows "distinct ps"
  using assms
proof (induction ps)
  case (Cons p ps)
  have "distinct (filter (\<lambda>q. f q = c) ps)" for c using Cons.prems [of c] by (auto split: if_splits)
  moreover have "p \<notin> set ps" using Cons.prems [of "f p"] by auto
  ultimately show ?case using Cons.IH by simp
qed simp

text \<open>The drawing loop over the lists that \<open>link_cells\<close> builds.\<close>

lemma draw_linked:
  assumes "list_all (\<lambda>c. c < 9) cells" "wanted \<le> length cells" "link_cells cells = (heads, next)"
    "mset order = mset [0..<9]"
  shows "\<exists>ps. draw_features (9 * wanted) order next heads 0 wanted = Some ps \<and> length ps = wanted
    \<and> distinct ps \<and> set ps \<subseteq> {..<length cells}
    \<and> (\<forall>c. prefix (filter (\<lambda>p. cells ! p = c) ps) (cell_positions cells 0 c))"
proof -
  have l: "length heads = 9"
    "\<And>c. c < 9 \<Longrightarrow> linked next (heads ! c) (cell_positions cells 0 c)"
    using link_cells_from [OF assms(1), of 0 heads "next"] assms(3) by (auto simp: link_cells_def list_all_iff)
  have set9: "set order = {..<9}" "length order = 9"
    using mset_eq_setD [OF assms(4)] mset_eq_length [OF assms(4)] by (simp_all add: atLeast0LessThan)
  have tot: "(\<Sum>c<9. length (cell_positions cells 0 c)) = length cells"
    by (rule cell_positions_total [OF assms(1)])
  have start: "\<exists>k<9. cell_positions cells 0 (order ! ((0 + k) mod 9)) \<noteq> [] \<and> 9 * wanted + k \<le> 9 * wanted + 8"
    if "0 < wanted"
  proof -
    have "\<exists>c<9. cell_positions cells 0 c \<noteq> []"
    proof (rule ccontr)
      assume "\<not> ?thesis"
      then have "(\<Sum>c<9. length (cell_positions cells 0 c)) = 0" by simp
      with tot assms(2) that show False by linarith
    qed
    then obtain c where c: "c < 9" "cell_positions cells 0 c \<noteq> []" by blast
    then obtain t where "t < 9" "order ! t = c" using set9 by (metis in_set_conv_nth lessThan_iff)
    with c show ?thesis by (intro exI [of _ t]) auto
  qed
  have cls: "list_all (\<lambda>p. cells ! p = c) (cell_positions cells 0 c)" for c
    by (simp add: cell_positions_def list_all_iff)
  from draw_features_spec [OF l(1) assms(4) _ l(2) _ start cls] tot assms(2)
  obtain ps where ps: "draw_features (9 * wanted) order next heads 0 wanted = Some ps" "length ps = wanted"
    "list_all (\<lambda>p. cells ! p < 9) ps"
    "\<And>c. c < 9 \<Longrightarrow> prefix (filter (\<lambda>p. cells ! p = c) ps) (cell_positions cells 0 c)"
    by (auto simp: list_all_iff)
  have pre: "prefix (filter (\<lambda>p. cells ! p = c) ps) (cell_positions cells 0 c)" for c
  proof (cases "c < 9")
    case False
    then have "filter (\<lambda>p. cells ! p = c) ps = []" using ps(3) by (auto simp: filter_empty_conv list_all_iff)
    then show ?thesis by simp
  qed (rule ps(4))
  have "distinct (filter (\<lambda>p. cells ! p = c) ps)" for c
    using pre [of c] unfolding prefix_def
    by (metis cell_positions_def distinct_append distinct_filter distinct_upt)
  then have "distinct ps" by (rule distinct_by_class)
  moreover have "p < length cells" if "p \<in> set ps" for p
  proof -
    have "p \<in> set (filter (\<lambda>q. cells ! q = cells ! p) ps)" using that by simp
    then have "p \<in> set (cell_positions cells 0 (cells ! p))" using set_mono_prefix [OF pre] by blast
    then show ?thesis by (simp add: cell_positions_def)
  qed
  ultimately show ?thesis using ps(1,2) pre by blast
qed

lemma select_spatial_spec:
  "\<exists>r. fpc_select_spatial_features al ranked wanted xmin ymin xmax ymax = Some r
     \<and> (if ranked \<noteq> [] \<and> length ranked \<le> 2048 \<and> wanted \<le> length ranked \<and> xmin \<le> xmax \<and> ymin \<le> ymax
           \<and> al (length ranked * 4)
        then \<exists>ps. r = Inr (map (\<lambda>p. rl_index (ranked ! p)) ps) \<and> length ps = wanted \<and> distinct ps
               \<and> set ps \<subseteq> {..<length ranked}
               \<and> (\<forall>c. prefix (filter (\<lambda>p. grid_cell xmin ymin xmax ymax (ranked ! p) = c) ps)
                            (filter (\<lambda>p. grid_cell xmin ymin xmax ymax (ranked ! p) = c)
                               [0..<length ranked]))
        else r = Inl (- 1))"
proof (cases "ranked \<noteq> [] \<and> length ranked \<le> 2048 \<and> wanted \<le> length ranked \<and> xmin \<le> xmax
           \<and> ymin \<le> ymax \<and> al (length ranked * 4)")
  case False
  then show ?thesis by (auto simp: fpc_select_spatial_features_def Let_def)
next
  case True
  let ?cell = "grid_cell xmin ymin xmax ymax"
  let ?cells = "map ?cell ranked" and ?order = "shuffle_cells 90 0xFFFFFFFF [0..<9]"
  obtain heads "next" where l: "link_cells ?cells = (heads, next)" by fastforce
  obtain ps where ps: "draw_features (9 * wanted) ?order next heads 0 wanted = Some ps"
    "length ps = wanted" "distinct ps" "set ps \<subseteq> {..<length ranked}"
    "\<And>c. prefix (filter (\<lambda>p. ?cells ! p = c) ps) (cell_positions ?cells 0 c)"
    using draw_linked [OF _ _ l, of wanted ?order] True shuffle_cells_mset [of "[0..<9]"]
    by (auto simp: list_all_iff grid_cell_bound)
  have "filter (\<lambda>p. ?cells ! p = c) ps = filter (\<lambda>p. ?cell (ranked ! p) = c) ps" for c
    using ps(4) by (intro filter_cong) auto
  moreover have "cell_positions ?cells 0 c = filter (\<lambda>p. ?cell (ranked ! p) = c) [0..<length ranked]" for c
    unfolding cell_positions_def by (intro filter_cong) auto
  ultimately have "prefix (filter (\<lambda>p. ?cell (ranked ! p) = c) ps)
      (filter (\<lambda>p. ?cell (ranked ! p) = c) [0..<length ranked])" for c
    using ps(5) [of c] by simp
  with True l ps(1-4) show ?thesis
    by (auto simp: fpc_select_spatial_features_def Let_def simp del: shuffle_cells.simps)
qed

text \<open>(C31) The spatial selection always returns: an unusable call or a failed allocation is an error,
  any other call yields exactly the wanted number of distinct features, and within each of the nine
  cells it takes the best ranked features, none skipped. The nine cursor steps it allows per
  feature are enough.\<close>

theorem spatial_selection_live:
  "\<exists>r. fpc_select_spatial_features al ranked wanted xmin ymin xmax ymax = Some r
     \<and> (if ranked \<noteq> [] \<and> length ranked \<le> 2048 \<and> wanted \<le> length ranked \<and> xmin \<le> xmax \<and> ymin \<le> ymax
           \<and> al (length ranked * 4)
        then \<exists>ps. r = Inr (map (\<lambda>p. rl_index (ranked ! p)) ps) \<and> length ps = wanted \<and> distinct ps
               \<and> set ps \<subseteq> {..<length ranked}
               \<and> (\<forall>c. prefix (filter (\<lambda>p. grid_cell xmin ymin xmax ymax (ranked ! p) = c) ps)
                            (filter (\<lambda>p. grid_cell xmin ymin xmax ymax (ranked ! p) = c)
                               [0..<length ranked]))
        else r = Inl (- 1))"
  by (rule select_spatial_spec)

end
