(* ===== verification/Orientation.thy ===== *)
theory Orientation
  imports Filters
begin

text \<open>
  The orientation field (\<^verbatim>\<open>fpc_recovered.c\<close>: \<^verbatim>\<open>fpc_angle_vector\<close>,
  \<^verbatim>\<open>fpc_angle_fixed\<close>, \<^verbatim>\<open>fpc_interpolate_orientation\<close>, \<^verbatim>\<open>smooth_orientation\<close>,
  \<^verbatim>\<open>fpc_build_orientation_field\<close>). The 64-bit intermediates of the code are integers: none of
  them leaves the 64-bit range.
\<close>

unbundle bit_operations_syntax

subsection \<open>Angles\<close>

definition fpc_angle_vector :: "u8 \<Rightarrow> int \<times> int" where
  "fpc_angle_vector angle =
     (let sign = (if uint angle < 128 then 0x5A82 else - 0x5A82);
          a = shift_floor (uint (angle AND 127) * 0x6488 - 0x1921E0) 6;
          b = shift_floor (a + 1) 1;
          c = shift_floor (shift_floor (b * a + 0x4000) 15 + 1) 1;
          d = shift_floor (shift_floor (c * a + 0x4000) 15 * 0x2AAB + 0x4000) 15;
          e = shift_floor (shift_floor (d * a + 0x4000) 15 + 2) 2;
          u = 0x4000 - c + e;
          v = b - d + shift_floor (shift_floor (e * a + 0x4000) 15 * 0x199A + 0x4000) 15;
          x = shift_floor (u * 0x5A82 - v * sign + 0x4000) 15;
          y = shift_floor (u * sign + v * 0x5A82 + 0x4000) 15
      in (shift_floor (x * x - y * y + 0x2000) 14, shift_floor (x * y + 0x1000) 13))"

definition angle_quadrant :: "int \<Rightarrow> int \<Rightarrow> int \<times> int \<times> int \<times> int \<times> int" where
  "angle_quadrant first0 second0 =
     (let (first, second, base) =
            (if first0 < 1 then (- first0, - second0, - 0x7000) else (first0, second0, 0x1000));
          (large, second, base) =
            (if second < 0 then (- second, first, base + 0x4000) else (first, second, base))
      in if second < large then (large, second, base + 0x2000, 0x30FC, - 0x7642)
         else (large, second, base, 0x7642, - 0x30FC))"

definition fpc_angle_fixed :: "int \<Rightarrow> int \<Rightarrow> int" where
  "fpc_angle_fixed first second =
     (if (first = 0 \<and> second = 0) \<or> first < - 32768 \<or> 32767 < first \<or> second < - 32768 \<or> 32767 < second
      then 0
      else case angle_quadrant first second of
        (large, second, base, a, b) \<Rightarrow>
          let denominator = word_of_int (a * second - b * large) :: u32 in
          if denominator = 0 then 0 else
          let leading = leading_zeros denominator 32;
              shift = (leading + 31) mod 32;
              numerator = push_bit shift (word_of_int (a * large + b * second) :: u32);
              divisor = shift_floor (signed_u32 (push_bit shift denominator)) 15 in
          if divisor = 0 then 0 else
          let ratio = signed_u32 numerator sdiv divisor;
              square = shift_floor (ratio * ratio + 0x4000) 15;
              cube = shift_floor (square * ratio + 0x4000) 15;
              fifth = shift_floor (cube * square + 0x4000) 15;
              seventh = shift_floor (fifth * square + 0x4000) 15
          in signed_u32 (word_of_int (fifth * 0x657 - seventh * 0x1CE + ratio * 0x28BC
                                        + base * 0x8000 - cube * 0xD46)))"

subsection \<open>Interpolation\<close>

definition clamp_to :: "int \<Rightarrow> nat \<Rightarrow> nat" where
  "clamp_to n len =
     (let n = (if n < 0 then 0 else n) in nat (if int len \<le> n then int len - 1 else n))"

definition fpc_interpolate_orientation ::
    "u8 list \<Rightarrow> nat \<Rightarrow> nat \<Rightarrow> int \<Rightarrow> int \<Rightarrow> status + int" where
  "fpc_interpolate_orientation field width height x_q4 y_q4 =
     (if width = 0 \<or> height = 0 \<or> 256 < width \<or> 256 < height \<or> x_q4 < - 4096 \<or> 4096 < x_q4
         \<or> y_q4 < - 4096 \<or> 4096 < y_q4 then Inl (- 1)
      else let qx = x_q4 - 64; qy = y_q4 - 64;
               ix = shift_floor qx 6; iy = shift_floor qy 6;
               fx = qx mod 64; fy = qy mod 64;
               (cos_sum, sin_sum) =
                 fold (\<lambda>(dy, dx) (cs, ss).
                         let nx = clamp_to (ix + int dx) width; ny = clamp_to (iy + int dy) height;
                             (c, s) = fpc_angle_vector (field ! (ny * width + nx));
                             weight = (if dx \<noteq> 0 then fx else 64 - fx) * (if dy \<noteq> 0 then fy else 64 - fy)
                         in (cs + c * weight, ss + s * weight))
                   (raster 0 2 0 2) (0, 0);
               code = fpc_angle_fixed (shift_floor (sin_sum + 0x8000) 12) (shift_floor (cos_sum + 0x8000) 12);
               value = shift_floor (code + 0x400000) 23
           in Inr (sint (word_of_int (if value \<le> 127 then value else value - 256) :: u8)))"

subsection \<open>The field\<close>

definition smooth_at :: "u16 list \<Rightarrow> nat \<Rightarrow> nat \<Rightarrow> u16 list \<Rightarrow> bool \<Rightarrow> nat \<Rightarrow> nat \<Rightarrow> u16" where
  "smooth_at input width height krn vertical y x =
     (let acc = fold (\<lambda>k acc.
            let nx = clamp_to (if vertical then int x else int x + int k - 3) width;
                ny = clamp_to (if vertical then int y + int k - 3 else int y) height
            in acc + word_of_int (sint (input ! (ny * width + nx)) * sint (krn ! k)))
          [0..<7] (0 :: u32)
      in word_of_int (shift_floor (signed_u32 acc) 15))"

definition smooth_orientation :: "u16 list \<Rightarrow> nat \<Rightarrow> nat \<Rightarrow> u16 list \<Rightarrow> bool \<Rightarrow> u16 list" where
  "smooth_orientation input width height krn vertical =
     map (\<lambda>(y, x). smooth_at input width height krn vertical y x) (raster 0 height 0 width)"

text \<open>Summed gradient products over a four-by-four cell.\<close>

definition cell_gradient :: "u8 list \<Rightarrow> nat \<Rightarrow> nat \<Rightarrow> nat \<Rightarrow> int \<times> int" where
  "cell_gradient img stride cy cx =
     fold (\<lambda>(dy, dx) (a, b).
             let p = (2 + cy * 4 + dy) * stride + 2 + cx * 4 + dx;
                 at = (\<lambda>k. uint (img ! (p + k)));
                 gx = at 0 + at stride - at 1 - at (stride + 1);
                 gy = at 0 + at 1 - at stride - at (stride + 1)
             in (a + (gx * gx - gy * gy), b + 2 * gx * gy))
       (raster 0 4 0 4) (0, 0)"

definition normalize_gradient :: "int \<times> int \<Rightarrow> u16 \<times> u16" where
  "normalize_gradient ab =
     (case ab of (a, b) \<Rightarrow>
       let magnitude = (word_of_int (shift_floor a 1) XOR word_of_int a)
                         OR (word_of_int (shift_floor b 1) XOR word_of_int b) OR 0x2000 :: u32;
           leading = leading_zeros magnitude 32;
           shift = nat ((18 - int leading) mod 32)
       in (word_of_int (shift_floor a shift), word_of_int (shift_floor b shift)))"

definition smoothing_kernel :: "u16 list" where
  "smoothing_kernel =
     (let sigma = (F32 0x3F99999A);
          factor = (F32 0xBF000000) / (sigma * sigma);
          x = (\<lambda>k. f_of_int (int k) - (F32 0x40400000));
          weights = map (\<lambda>k. recovered_exp ((x k * factor) * x k)) [0..<7];
          acc = sum_f32 weights
      in map (\<lambda>w. word_of_int (f_to_i32 ((w * (F32 0x47000000)) / acc + (F32 0x3F000000)))) weights)"

definition fpc_build_orientation_field ::
    "(nat \<Rightarrow> bool) \<Rightarrow> u8 list \<Rightarrow> nat \<Rightarrow> nat \<Rightarrow> nat \<Rightarrow> u8 list \<Rightarrow> status \<times> u8 list" where
  "fpc_build_orientation_field al img width height stride field =
     (if width < 24 \<or> height < 24 \<or> 256 < width \<or> 256 < height \<or> stride < width
         \<or> SIZE_MAX div stride < height then (- 1, field)
      else let fw = (width - 4) div 4; fh = (height - 4) div 4; n = fw * fh in
        if length field < n then (- 1, field)
        else if \<not> al (n * 3 * 2) then (- 1, field)
        else let cells = map (\<lambda>(cy, cx). normalize_gradient (cell_gradient img stride cy cx))
                           (raster 0 fh 0 fw);
                 smooth = (\<lambda>p. smooth_orientation (smooth_orientation p fw fh smoothing_kernel False)
                              fw fh smoothing_kernel True);
                 cosine = smooth (map fst cells);
                 sine = smooth (map snd cells)
             in (0, map2 (\<lambda>s c. word_of_int (shift_floor (fpc_angle_fixed (sint s) (sint c) + 0x400000) 23))
                      sine cosine @ drop n field))"

end
