(* ===== verification/Descriptor.thy ===== *)
theory Descriptor
  imports PairPayload
begin

text \<open>
  Descriptors and their distances (\<^verbatim>\<open>fpc_recovered.c\<close>: \<^verbatim>\<open>fpc_saturation_quality\<close>,
  \<^verbatim>\<open>fpc_score_remap\<close>, \<^verbatim>\<open>fpc_project_descriptor\<close>, \<^verbatim>\<open>popcount32\<close>,
  \<^verbatim>\<open>fpc_descriptor_distance32\<close>, \<^verbatim>\<open>fpc_descriptor_distance128\<close>,
  \<^verbatim>\<open>fpc_mutual_candidates\<close>). Signed 16-bit tables are lists of their bit patterns.
\<close>

unbundle bit_operations_syntax

definition fpc_saturation_quality :: "u8 list \<Rightarrow> int" where
  "fpc_saturation_quality pixels =
     (let n = length pixels in
      if n = 0 \<or> INT32_MAX div 1000 < n then - 1
      else let saturated = length (filter (\<lambda>p. p = 0 \<or> p = 255) pixels)
           in 1000 - int (saturated * 1000 div n))"

definition fpc_score_remap :: "int \<Rightarrow> int \<Rightarrow> int \<Rightarrow> u16 list \<Rightarrow> int \<Rightarrow> int" where
  "fpc_score_remap raw_score probe_features overlap coeff maximum =
     (if maximum < 0 then - 1 else
      let score = (if 0 < raw_score
                   then shift_floor
                          (shift_floor (sint (coeff ! 3) * overlap) 10 + sint (coeff ! 1) * raw_score
                             + (sint (coeff ! 2) * probe_features + sint (coeff ! 0))) 7
                   else 0);
          score = (if score < 0 then 0 else score)
      in if maximum < score then maximum else score)"

subsection \<open>Projection\<close>

definition bits_byte :: "(nat \<Rightarrow> bool) \<Rightarrow> u8" where
  "bits_byte f = fold (\<lambda>b acc. if f b then acc OR push_bit b 1 else acc) [0..<8] 0"

definition projection_sum :: "u8 list \<Rightarrow> u16 list \<Rightarrow> nat \<Rightarrow> nat \<Rightarrow> int" where
  "projection_sum patch weights projections column =
     fold (\<lambda>pixel a. a + sint (weights ! (pixel * projections + column)) * uint (patch ! pixel))
       [0..<length patch] 0"

definition fpc_project_descriptor :: "u8 list \<Rightarrow> u16 list \<Rightarrow> nat \<Rightarrow> status + u8 list" where
  "fpc_project_descriptor patch weights descriptor_bytes =
     (let pixels = length patch; projections = descriptor_bytes * 4 in
      if pixels = 0 \<or> descriptor_bytes = 0 \<or> descriptor_bytes mod 2 \<noteq> 0 \<or> 16 < descriptor_bytes
         \<or> SIZE_MAX div (descriptor_bytes * 4) < pixels
         \<or> length weights \<noteq> pixels * descriptor_bytes * 4 then Inl (- 1)
      else Inr (map (\<lambda>byte. bits_byte (\<lambda>b. 0 < projection_sum patch weights projections (byte * 8 + b)))
                  [0..<descriptor_bytes div 2]
              @ map (\<lambda>byte. bits_byte (\<lambda>b. 0 < projection_sum (rev patch) weights projections (byte * 8 + b)))
                  [0..<descriptor_bytes div 2]))"

subsection \<open>Distances\<close>

definition popcount32 :: "u32 \<Rightarrow> nat" where
  "popcount32 value0 =
     (let value1 = value0 - (drop_bit 1 value0 AND 0x55555555);
          value2 = (value1 AND 0x33333333) + (drop_bit 2 value1 AND 0x33333333)
      in unat (drop_bit 24 (((value2 + drop_bit 4 value2) AND 0x0F0F0F0F) * 0x01010101)))"

definition half_swap :: "u32 \<Rightarrow> u32" where
  "half_swap w = push_bit 16 w OR drop_bit 16 w"

definition fpc_descriptor_distance32 :: "u32 \<Rightarrow> u32 \<Rightarrow> nat" where
  "fpc_descriptor_distance32 first second =
     (let a = popcount32 (first XOR second); b = popcount32 (half_swap first XOR second)
      in if a < b then a else b)"

definition word_at :: "u8 list \<Rightarrow> nat \<Rightarrow> u32" where
  "word_at d i = (case le32 d i of None \<Rightarrow> 0 | Some w \<Rightarrow> w)"

text \<open>A descriptor is an array of sixteen bytes; \<open>i\<close> runs over its words, \<open>i XOR 8\<close> over the word
  in the other half.\<close>

definition fpc_descriptor_distance128 :: "u8 list \<Rightarrow> u8 list \<Rightarrow> nat" where
  "fpc_descriptor_distance128 first second =
     (let (normal, rotated) =
        fold (\<lambda>i (normal, rotated).
                (normal + popcount32 (word_at first i XOR word_at second i),
                 rotated + popcount32 (word_at first i XOR word_at second (i XOR 8))))
          [0, 4, 8, 12] (0, 0)
      in if normal < rotated then normal else rotated)"

subsection \<open>Mutual nearest neighbours\<close>

text \<open>The smallest of \<open>f 0 .. f (n - 1)\<close> below \<open>bound\<close> and the first index that has it.\<close>

definition first_min :: "nat \<Rightarrow> (nat \<Rightarrow> nat) \<Rightarrow> nat \<Rightarrow> nat \<times> nat" where
  "first_min bound f n =
     fold (\<lambda>i (best, arg). if f i < best then (f i, i) else (best, arg)) [0..<n] (bound, 0)"

definition put_candidate ::
    "u16 \<Rightarrow> u16 \<Rightarrow> nat \<Rightarrow> nat \<Rightarrow> nat \<Rightarrow> fpc_candidate list \<times> nat \<Rightarrow> fpc_candidate list \<times> nat" where
  "put_candidate first_offset second_offset i j distance st =
     (case st of (output, n) \<Rightarrow>
        (output[n := (output ! n)\<lparr>cd_first := of_nat i + first_offset, cd_second := of_nat j + second_offset,
                        cd_distance := of_nat distance, cd_flag := 0\<rparr>], n + 1))"

definition fpc_mutual_candidates ::
    "(nat \<Rightarrow> bool) \<Rightarrow> u8 list \<Rightarrow> nat \<Rightarrow> nat \<Rightarrow> nat \<Rightarrow> nat \<Rightarrow> u16 \<Rightarrow> u16 \<Rightarrow> fpc_candidate list
       \<Rightarrow> status + fpc_candidate list \<times> nat" where
  "fpc_mutual_candidates al matrix first_count second_count stride threshold first_offset second_offset
     output =
     (if 32767 < first_count \<or> 32767 < second_count \<or> stride < second_count
         \<or> length output < first_count \<or> (first_count \<noteq> 0 \<and> SIZE_MAX div first_count < stride)
      then Inl (- 1)
      else if first_count = 0 \<or> second_count = 0 then Inr (output, 0)
      else if \<not> al (second_count * 2) then Inl (- 1)
      else
        let d = (\<lambda>i j. unat (matrix ! (i * stride + j)));
            nearest = map (\<lambda>j. snd (first_min 255 (\<lambda>i. d i j) first_count)) [0..<second_count]
        in Inr (fold (\<lambda>i st.
                  case first_min 255 (d i) second_count of (best, jbest) \<Rightarrow>
                    if nearest ! jbest = i \<and> best < threshold
                    then put_candidate first_offset second_offset i jbest best st else st)
                [0..<first_count] (output, 0)))"

subsection \<open>The population count\<close>

fun digits_value :: "nat \<Rightarrow> nat list \<Rightarrow> nat" where
  "digits_value B [] = 0"
| "digits_value B (d # ds) = d + B * digits_value B ds"

fun evens :: "nat list \<Rightarrow> nat list" where
  "evens (a # b # r) = a # evens r"
| "evens _ = []"

fun odds :: "nat list \<Rightarrow> nat list" where
  "odds (a # b # r) = b # odds r"
| "odds _ = []"

lemma and_split:
  fixes a c r s :: nat
  assumes "a < 2 ^ k" "c < 2 ^ k"
  shows "(a + 2 ^ k * r) AND (c + 2 ^ k * s) = (a AND c) + 2 ^ k * (r AND s)"
proof -
  have e: "take_bit k x + 2 ^ k * y = take_bit k x OR push_bit k y" for x y :: nat
  proof -
    have "take_bit k x + push_bit k y = take_bit k x OR push_bit k y"
      by (rule disjunctive_add) (auto simp: bit_simps)
    then show ?thesis by (simp add: push_bit_eq_mult mult.commute)
  qed
  have t: "a = take_bit k a" "c = take_bit k c" using assms by (simp_all add: take_bit_nat_eq_self)
  have "(take_bit k a + 2 ^ k * r) AND (take_bit k c + 2 ^ k * s) = take_bit k (a AND c) + 2 ^ k * (r AND s)"
    unfolding e by (rule bit_eqI) (auto simp: bit_simps)
  then show ?thesis using t by simp
qed

lemma digits_value_bound: "list_all (\<lambda>d. d < B) ds \<Longrightarrow> digits_value B ds < B ^ length ds"
proof (induction ds)
  case (Cons d ds)
  then have "digits_value B ds + 1 \<le> B ^ length ds" "d < B" by simp_all
  then have "d + B * digits_value B ds < B * (digits_value B ds + 1)" by simp
  also have "\<dots> \<le> B * B ^ length ds" using Cons by (intro mult_le_mono2) simp
  finally show ?case by simp
qed simp

text \<open>Masking every other digit, before and after a shift by one digit.\<close>

lemma mask_digits:
  "list_all (\<lambda>d. d < 2 ^ k) ds \<Longrightarrow> length ds = 2 * n \<Longrightarrow>
     digits_value (2 ^ k) ds AND digits_value (4 ^ k) (replicate n (2 ^ k - 1)) = digits_value (4 ^ k) (evens ds)
     \<and> drop_bit k (digits_value (2 ^ k) ds) AND digits_value (4 ^ k) (replicate n (2 ^ k - 1))
         = digits_value (4 ^ k) (odds ds)"
proof (induction ds arbitrary: n rule: evens.induct)
  case (1 a b r)
  define m where "m = n - 1"
  have "length r + 2 = 2 * n" using "1.prems" by simp
  then have n: "n = Suc m" "length r = 2 * m" by (auto simp: m_def)
  have ab: "a < 2 ^ k" "b < 2 ^ k" "list_all (\<lambda>d. d < 2 ^ k) r" using "1.prems" by simp_all
  let ?R = "digits_value (2 ^ k) r" and ?M = "digits_value (4 ^ k) (replicate m (2 ^ k - 1))"
  have four: "(4 :: nat) ^ k = 2 ^ k * 2 ^ k" "(4 :: nat) ^ k = 2 ^ (2 * k)"
    by (simp_all add: power_mult power_mult_distrib [symmetric])
  have one: "x AND (2 ^ k - 1) = x" if "x < 2 ^ k" for x :: nat
    by (metis that take_bit_eq_mask mask_eq_exp_minus_1 take_bit_nat_eq_self)
  have low: "(x + 2 ^ k * y + 4 ^ k * z) AND (2 ^ k - 1 + 4 ^ k * M) = x + 4 ^ k * (z AND M)"
    if "x < 2 ^ k" "y < 2 ^ k" for x y z M :: nat
  proof -
    have "x + 2 ^ k * y < 4 ^ k"
    proof -
      have "x + 2 ^ k * y < 2 ^ k * (y + 1)" using that by simp
      also have "\<dots> \<le> 2 ^ k * 2 ^ k" using that by (intro mult_le_mono2) simp
      finally show ?thesis by (simp add: four)
    qed
    moreover have "(2 :: nat) ^ k - 1 < 4 ^ k" using that(1) by (simp add: four less_le_trans [of _ "2 ^ k"])
    ultimately have "(x + 2 ^ k * y + 4 ^ k * z) AND (2 ^ k - 1 + 4 ^ k * M)
        = ((x + 2 ^ k * y) AND (2 ^ k - 1)) + 4 ^ k * (z AND M)"
      unfolding four(2) by (rule and_split)
    also have "(x + 2 ^ k * y) AND (2 ^ k - 1) = x"
      using and_split [of x k "2 ^ k - 1" y 0] that one by simp
    finally show ?thesis .
  qed
  have R: "?R = ?R mod 2 ^ k + 2 ^ k * drop_bit k ?R" by (simp add: drop_bit_eq_div)
  have ih: "?R AND ?M = digits_value (4 ^ k) (evens r)" "drop_bit k ?R AND ?M = digits_value (4 ^ k) (odds r)"
    using "1.IH" [OF ab(3) n(2)] by simp_all
  have V: "digits_value (2 ^ k) (a # b # r) = a + 2 ^ k * b + 4 ^ k * ?R"
    by (simp add: four algebra_simps)
  have E: "digits_value (2 ^ k) (a # b # r) AND digits_value (4 ^ k) (replicate n (2 ^ k - 1)) = digits_value (4 ^ k) (evens (a # b # r))"
    using low [OF ab(1,2), of ?R ?M] ih by (simp add: n V del: digits_value.simps(2)) simp
  have "drop_bit k (digits_value (2 ^ k) (a # b # r)) = b + 2 ^ k * ?R"
    using ab(1) by (simp add: drop_bit_eq_div)
  also have "\<dots> = b + 2 ^ k * (?R mod 2 ^ k) + 4 ^ k * drop_bit k ?R"
    by (subst R) (simp add: four algebra_simps)
  finally have D: "drop_bit k (digits_value (2 ^ k) (a # b # r)) = b + 2 ^ k * (?R mod 2 ^ k) + 4 ^ k * drop_bit k ?R" .
  have "drop_bit k (digits_value (2 ^ k) (a # b # r)) AND digits_value (4 ^ k) (replicate n (2 ^ k - 1)) = digits_value (4 ^ k) (odds (a # b # r))"
    using low [OF ab(2), of "?R mod 2 ^ k" "drop_bit k ?R" ?M] ih by (simp add: n D del: digits_value.simps(2)) simp
  with E show ?case by blast
qed simp_all

definition add_lists :: "nat list \<Rightarrow> nat list \<Rightarrow> nat list" where
  "add_lists xs ys = map2 (+) xs ys"

lemma add_lists_simps [simp]:
  "add_lists [] ys = []" "add_lists (x # xs) (y # ys) = (x + y) # add_lists xs ys"
  by (simp_all add: add_lists_def)

lemma digits_value_add:
  "length xs = length ys \<Longrightarrow> digits_value B (add_lists xs ys) = digits_value B xs + digits_value B ys"
  by (induction xs ys rule: list_induct2) (simp_all add: algebra_simps)

lemma pair_digits:
  "length ds = 2 * n \<Longrightarrow>
     length (evens ds) = n \<and> length (odds ds) = n
     \<and> digits_value B ds = digits_value (B * B) (evens ds) + B * digits_value (B * B) (odds ds)
     \<and> sum_list (add_lists (evens ds) (odds ds)) = sum_list ds"
proof (induction ds arbitrary: n rule: evens.induct)
  case (1 a b r)
  define m where "m = n - 1"
  have "length r + 2 = 2 * n" using "1.prems" by simp
  then have n: "n = Suc m" "length r = 2 * m" by (auto simp: m_def)
  from "1.IH" [OF n(2)] n show ?case by (simp add: algebra_simps)
qed simp_all

lemma pair_digits_bound:
  "list_all (\<lambda>d. d \<le> m) ds \<Longrightarrow> list_all (\<lambda>d. d \<le> 2 * m) (add_lists (evens ds) (odds ds))"
  by (induction ds rule: evens.induct) auto

lemma word_digits:
  "unat (w :: u32) = digits_value 2 (map (\<lambda>i. of_bool (bit w i)) [0..<32])"
proof -
  have h: "horner_sum f (2::nat) xs = digits_value 2 (map f xs)" for f :: "bool \<Rightarrow> nat" and xs
    by (induction xs) simp_all
  have "unat w = take_bit 32 (unat w)"
    using unat_bounds(3) [of w] by (simp add: take_bit_nat_eq_self)
  also have "\<dots> = horner_sum of_bool 2 (map (bit (unat w)) [0..<32])"
    by (rule horner_sum_bit_eq_take_bit [symmetric])
  also have "\<dots> = digits_value 2 (map (\<lambda>i. of_bool (bit w i)) [0..<32])"
    by (simp add: h bit_unsigned_iff comp_def del: upt.simps)
  finally show ?thesis .
qed

lemma list_of_eight:
  "length xs = 8 \<Longrightarrow> \<exists>a b c d e f g h. xs = [a, b, c, d, e, f, g, h]"
  by (auto simp: length_Suc_conv eval_nat_numeral)

lemma sum_bytes:
  fixes a b c d :: nat
  assumes "a \<le> 8" "b \<le> 8" "c \<le> 8" "d \<le> 8"
  shows "(a + 256 * (b + 256 * (c + 256 * d))) * 16843009 mod 4294967296 div 16777216 = a + b + c + d"
proof -
  let ?low = "a + 256 * (a + b) + 65536 * (a + b + c)"
  let ?high = "(b + c + d) + 256 * (c + d) + 65536 * d"
  have e: "(a + 256 * (b + 256 * (c + 256 * d))) * 16843009
      = (?low + 16777216 * (a + b + c + d)) + 4294967296 * ?high"
    by (simp add: algebra_simps)
  have "?low + 16777216 * (a + b + c + d) < 4294967296" using assms by simp
  then have "(a + 256 * (b + 256 * (c + 256 * d))) * 16843009 mod 4294967296
      = ?low + 16777216 * (a + b + c + d)" by (simp only: e mod_mult_self2 mod_less)
  moreover have "?low < 16777216" using assms by simp
  then have "(?low + 16777216 * (a + b + c + d)) div 16777216 = a + b + c + d"
    by (simp only: div_mult_self2 div_less add_0)
  ultimately show ?thesis by (simp only:)
qed

lemma replicate_small:
  "replicate 4 x = [x, x, x, x]"
  "replicate 8 x = [x, x, x, x, x, x, x, x]"
  "replicate 16 x = [x, x, x, x, x, x, x, x, x, x, x, x, x, x, x, x]"
  by (simp_all add: numeral_eq_Suc)

lemma masks_as_digits:
  "digits_value 4 (replicate 16 1) = 1431655765"
  "digits_value 16 (replicate 8 3) = 858993459"
  "digits_value 256 (replicate 4 15) = 252645135"
  by (simp_all add: replicate_small)

lemma unat_drop_bit: "unat (drop_bit k (w :: u32)) = drop_bit k (unat w)"
  using unat_bounds(3) [of w] by (simp add: unsigned_drop_bit_eq take_bit_nat_eq_self)

lemma fold_pairs:
  assumes "unat (w :: u32) = digits_value 2 bs" "length bs = 2 * 16" "list_all (\<lambda>d. d \<le> 1) bs"
  shows "unat (w - (drop_bit 1 w AND 1431655765)) = digits_value 4 (add_lists (evens bs) (odds bs))"
proof -
  have "list_all (\<lambda>d. d < 2 ^ 1) bs" using assms(3) by (fastforce simp: list_all_iff)
  note pb = pair_digits [OF assms(2), of 2]
  from mask_digits [OF \<open>list_all (\<lambda>d. d < 2 ^ 1) bs\<close> assms(2)]
  have "drop_bit 1 (unat w) AND 1431655765 = digits_value 4 (odds bs)"
    by (simp add: assms(1) masks_as_digits [simplified One_nat_def])
  then have m: "unat (drop_bit 1 w AND 1431655765) = digits_value 4 (odds bs)"
    by (simp add: unsigned_and_eq unat_drop_bit)
  have v: "unat w = digits_value 4 (evens bs) + 2 * digits_value 4 (odds bs)" using pb assms(1) by simp
  have "drop_bit 1 w AND 1431655765 \<le> w" unfolding word_le_nat_alt m v by simp
  from unat_sub [OF this] m v pb show ?thesis by (simp add: digits_value_add)
qed

lemma fold_quads:
  assumes "unat (w :: u32) = digits_value 4 cs" "length cs = 2 * 8" "list_all (\<lambda>d. d \<le> 2) cs"
  shows "unat ((w AND 858993459) + (drop_bit 2 w AND 858993459)) = digits_value 16 (add_lists (evens cs) (odds cs))"
proof -
  have l: "list_all (\<lambda>d. d < 2 ^ 2) cs" using assms(3) by (fastforce simp: list_all_iff)
  note pc = pair_digits [OF assms(2), of 4]
  let ?es = "add_lists (evens cs) (odds cs)"
  from mask_digits [OF l assms(2)]
  have "unat w AND 858993459 = digits_value 16 (evens cs)" "drop_bit 2 (unat w) AND 858993459 = digits_value 16 (odds cs)"
    by (simp_all add: assms(1) masks_as_digits)
  then have m: "unat (w AND 858993459) = digits_value 16 (evens cs)"
      "unat (drop_bit 2 w AND 858993459) = digits_value 16 (odds cs)"
    by (simp_all add: unsigned_and_eq unat_drop_bit)
  have "list_all (\<lambda>d. d < 16) ?es" using pair_digits_bound [OF assms(3)] by (fastforce simp: list_all_iff)
  from digits_value_bound [OF this] have "digits_value 16 ?es < 4294967296"
    using pc by (simp add: add_lists_def)
  moreover have e: "digits_value 16 ?es = digits_value 16 (evens cs) + digits_value 16 (odds cs)"
    using pc by (simp add: digits_value_add)
  ultimately have "unat (w AND 858993459) + unat (drop_bit 2 w AND 858993459) < 2 ^ LENGTH(32)" using m by simp
  from unat_add_lem [THEN iffD1, OF this] show ?thesis using m e by simp
qed

lemma fold_octets:
  assumes "unat (w :: u32) = digits_value 16 es" "length es = 8" "list_all (\<lambda>d. d \<le> 4) es"
  shows "unat (drop_bit 24 (((w + drop_bit 4 w) AND 252645135) * 16843009)) = sum_list es"
proof -
  obtain a b c d e f g h where el: "es = [a, b, c, d, e, f, g, h]" using list_of_eight [OF assms(2)] by blast
  have small: "a \<le> 4" "b \<le> 4" "c \<le> 4" "d \<le> 4" "e \<le> 4" "f \<le> 4" "g \<le> 4" "h \<le> 4"
    using assms(3) by (simp_all add: el)
  let ?fs = "[a + b, b + c, c + d, d + e, e + f, f + g, g + h, h]"
  have "list_all (\<lambda>d. d < 16) ?fs" using small by simp
  from digits_value_bound [OF this] have bound: "digits_value 16 ?fs < 4294967296" by simp
  have "unat (drop_bit 4 w) = digits_value 16 [b, c, d, e, f, g, h]"
    unfolding unat_drop_bit assms(1) el using small by (simp add: drop_bit_eq_div)
  then have s: "unat w + unat (drop_bit 4 w) = digits_value 16 ?fs" by (simp add: assms(1) el)
  then have "unat w + unat (drop_bit 4 w) < 2 ^ LENGTH(32)" using bound by simp
  from unat_add_lem [THEN iffD1, OF this] s have v: "unat (w + drop_bit 4 w) = digits_value 16 ?fs" by simp
  have "list_all (\<lambda>d. d < 2 ^ 4) ?fs" "length ?fs = 2 * 4" using small by simp_all
  from mask_digits [OF this] have "digits_value 16 ?fs AND 252645135
      = a + b + 256 * (c + d + 256 * (e + f + 256 * (g + h)))"
    by (simp add: masks_as_digits del: digits_value.simps) simp
  then have m: "unat ((w + drop_bit 4 w) AND 252645135)
      = a + b + 256 * (c + d + 256 * (e + f + 256 * (g + h)))"
    by (simp only: unsigned_and_eq v) simp
  have "unat (drop_bit 24 (((w + drop_bit 4 w) AND 252645135) * 16843009))
      = (a + b + 256 * (c + d + 256 * (e + f + 256 * (g + h)))) * 16843009 mod 4294967296 div 16777216"
    unfolding unat_drop_bit unat_word_ariths(2) m by (simp add: drop_bit_eq_div)
  also have "\<dots> = (a + b) + (c + d) + (e + f) + (g + h)"
    using small by (intro sum_bytes) simp_all
  finally show ?thesis by (simp add: el)
qed

lemma popcount32_sum:
  "popcount32 w = sum_list (map (\<lambda>i. of_bool (bit w i)) [0..<32])"
proof -
  define bs :: "nat list" where "bs = map (\<lambda>i. of_bool (bit w i)) [0..<32]"
  define cs where "cs = add_lists (evens bs) (odds bs)"
  define es where "es = add_lists (evens cs) (odds cs)"
  have lb: "length bs = 2 * 16" and bb: "list_all (\<lambda>d. d \<le> 1) bs" by (simp_all add: bs_def list_all_iff)
  note pb = pair_digits [OF lb]
  have lc: "length cs = 2 * 8" using pb by (simp add: cs_def add_lists_def)
  have bc: "list_all (\<lambda>d. d \<le> 2) cs" using pair_digits_bound [OF bb] by (simp add: cs_def)
  note pc = pair_digits [OF lc]
  have le: "length es = 8" using pc by (simp add: es_def add_lists_def)
  have be: "list_all (\<lambda>d. d \<le> 4) es" using pair_digits_bound [OF bc] by (simp add: es_def)
  have w: "unat w = digits_value 2 bs" by (simp add: bs_def word_digits)
  note v1 = fold_pairs [OF w lb bb, folded cs_def]
  note v2 = fold_quads [OF v1 lc bc, folded es_def]
  have "popcount32 w = sum_list es" unfolding popcount32_def Let_def by (rule fold_octets [OF v2 le be])
  also have "\<dots> = sum_list bs" using pb pc by (simp add: cs_def es_def)
  finally show ?thesis by (simp add: bs_def)
qed

definition set_bits :: "u32 \<Rightarrow> nat set" where
  "set_bits w = {i. i < 32 \<and> bit w i}"

lemma popcount32_card: "popcount32 w = card (set_bits w)"
proof -
  have "popcount32 w = sum (\<lambda>i. of_bool (bit w i)) {0..<32}"
    unfolding popcount32_sum interv_sum_list_conv_sum_set_nat set_upt by (rule refl)
  also have "\<dots> = card ({0..<32} \<inter> {i. bit w i})" by (simp only: sum_of_bool_eq finite_atLeastLessThan) simp
  also have "{0..<32} \<inter> {i. bit w i} = set_bits w" by (auto simp: set_bits_def)
  finally show ?thesis .
qed

subsection \<open>The descriptor metric\<close>

definition hamming :: "u32 \<Rightarrow> u32 \<Rightarrow> nat" where
  "hamming v w = card (set_bits (v XOR w))"

definition descriptor_words :: "u8 list \<Rightarrow> u32 \<times> u32 \<times> u32 \<times> u32" where
  "descriptor_words d = (word_at d 0, word_at d 4, word_at d 8, word_at d 12)"

fun half_turn :: "u32 \<times> u32 \<times> u32 \<times> u32 \<Rightarrow> u32 \<times> u32 \<times> u32 \<times> u32" where
  "half_turn (a, b, c, d) = (c, d, a, b)"

fun hamming4 :: "u32 \<times> u32 \<times> u32 \<times> u32 \<Rightarrow> u32 \<times> u32 \<times> u32 \<times> u32 \<Rightarrow> nat" where
  "hamming4 (a, b, c, d) (a', b', c', d') = hamming a a' + hamming b b' + hamming c c' + hamming d d'"

lemma finite_set_bits [simp]: "finite (set_bits w)"
  by (simp add: set_bits_def)

lemma hamming_sym: "hamming v w = hamming w v"
  by (simp add: hamming_def xor.commute)

lemma hamming_le: "hamming v w \<le> 32"
proof -
  have "set_bits (v XOR w) \<subseteq> {0..<32}" by (auto simp: set_bits_def)
  from card_mono [OF _ this] show ?thesis by (simp add: hamming_def)
qed

lemma hamming_zero: "hamming v w = 0 \<longleftrightarrow> v = w"
proof
  assume "hamming v w = 0"
  then have "set_bits (v XOR w) = {}" by (simp add: hamming_def)
  then show "v = w" by (intro bit_word_eqI) (auto simp: set_bits_def bit_simps)
qed (simp add: hamming_def set_bits_def)

lemma hamming_triangle: "hamming u w \<le> hamming u v + hamming v w"
proof -
  have "set_bits (u XOR w) \<subseteq> set_bits (u XOR v) \<union> set_bits (v XOR w)"
    by (auto simp: set_bits_def bit_simps)
  from card_mono [OF _ this] card_Un_le [of "set_bits (u XOR v)" "set_bits (v XOR w)"] show ?thesis
    by (simp add: hamming_def)
qed

lemma hamming4_sym: "hamming4 p q = hamming4 q p"
  by (cases p; cases q) (simp add: hamming_sym)

lemma hamming4_turn: "hamming4 (half_turn p) (half_turn q) = hamming4 p q"
  by (cases p; cases q) simp

lemma half_turn_twice [simp]: "half_turn (half_turn p) = p"
  by (cases p) simp

lemma hamming4_turn_left: "hamming4 (half_turn p) q = hamming4 p (half_turn q)"
  using hamming4_turn [of p "half_turn q"] by simp

lemma hamming4_le: "hamming4 p q \<le> 128"
proof (cases p; cases q)
  fix a b c d a' b' c' d'
  assume "p = (a, b, c, d)" "q = (a', b', c', d')"
  then show ?thesis
    using hamming_le [of a a'] hamming_le [of b b'] hamming_le [of c c'] hamming_le [of d d'] by simp
qed

lemma hamming4_zero: "hamming4 p q = 0 \<longleftrightarrow> p = q"
  by (cases p; cases q) (simp add: hamming_zero)

lemma hamming4_triangle: "hamming4 p r \<le> hamming4 p q + hamming4 q r"
proof (cases p; cases q; cases r)
  fix a b c d a' b' c' d' a'' b'' c'' d''
  assume "p = (a, b, c, d)" "q = (a', b', c', d')" "r = (a'', b'', c'', d'')"
  then show ?thesis
    using hamming_triangle [of a a'' a'] hamming_triangle [of b b'' b']
      hamming_triangle [of c c'' c'] hamming_triangle [of d d'' d'] by simp
qed

definition turn_distance :: "u32 \<times> u32 \<times> u32 \<times> u32 \<Rightarrow> u32 \<times> u32 \<times> u32 \<times> u32 \<Rightarrow> nat" where
  "turn_distance p q = min (hamming4 p q) (hamming4 p (half_turn q))"

lemma turn_distance_sym: "turn_distance p q = turn_distance q p"
  by (simp add: turn_distance_def hamming4_sym [of p] hamming4_turn_left)

lemma turn_distance_triangle: "turn_distance p r \<le> turn_distance p q + turn_distance q r"
  using hamming4_triangle [of p r q] hamming4_triangle [of p "half_turn r" q]
    hamming4_triangle [of p r "half_turn q"] hamming4_triangle [of p "half_turn r" "half_turn q"]
  by (auto simp: turn_distance_def hamming4_turn_left min_def)

lemma turn_distance_le: "turn_distance p q \<le> 128"
  using hamming4_le [of p q] by (simp add: turn_distance_def min_le_iff_disj)

lemma turn_distance_zero: "turn_distance p q = 0 \<longleftrightarrow> p = q \<or> p = half_turn q"
  unfolding hamming4_zero [symmetric] by (auto simp: turn_distance_def min_def)

lemma distance128_words:
  "fpc_descriptor_distance128 a b = turn_distance (descriptor_words a) (descriptor_words b)"
proof -
  have "(0 :: nat) XOR 8 = 8" "(4 :: nat) XOR 8 = 12" "(8 :: nat) XOR 8 = 0" "(12 :: nat) XOR 8 = 4"
    by simp_all
  then show ?thesis
    by (auto simp: fpc_descriptor_distance128_def turn_distance_def descriptor_words_def
        popcount32_card hamming_def)
qed

lemma distance32_hamming:
  "fpc_descriptor_distance32 v w = min (hamming v w) (hamming (half_swap v) w)"
  by (auto simp: fpc_descriptor_distance32_def popcount32_card hamming_def min_def Let_def)

text \<open>The descriptor distance is the smaller of the two Hamming distances of 128 bits, plain and with
  the halves of one descriptor exchanged: the bit-parallel population count is the number of set bits, and
  the distance is symmetric, at most 128, zero exactly for descriptors that agree up to that exchange, and
  obeys the triangle inequality. The 32-bit distance is the analogous minimum.\<close>

theorem descriptor_distance_metric:
  "popcount32 v = card {i. i < 32 \<and> bit v i}
   \<and> fpc_descriptor_distance32 v w = min (hamming v w) (hamming (half_swap v) w)
   \<and> fpc_descriptor_distance128 a b = min (hamming4 (descriptor_words a) (descriptor_words b))
        (hamming4 (descriptor_words a) (half_turn (descriptor_words b)))
   \<and> fpc_descriptor_distance128 a b = fpc_descriptor_distance128 b a
   \<and> fpc_descriptor_distance128 a b \<le> 128
   \<and> fpc_descriptor_distance128 a c \<le> fpc_descriptor_distance128 a b + fpc_descriptor_distance128 b c
   \<and> (fpc_descriptor_distance128 a b = 0 \<longleftrightarrow>
        descriptor_words a = descriptor_words b \<or> descriptor_words a = half_turn (descriptor_words b))"
  unfolding distance32_hamming distance128_words popcount32_card set_bits_def
  by (intro conjI refl turn_distance_def turn_distance_sym turn_distance_le turn_distance_triangle
      turn_distance_zero)

subsection \<open>Mutual nearest neighbours\<close>

text \<open>\<open>k\<close> is the first position of the minimum of \<open>f\<close> on \<open>0 .. n - 1\<close>.\<close>

definition first_minimum :: "(nat \<Rightarrow> nat) \<Rightarrow> nat \<Rightarrow> nat \<Rightarrow> bool" where
  "first_minimum f n k \<longleftrightarrow> k < n \<and> (\<forall>i<n. f k \<le> f i) \<and> (\<forall>i<k. f k < f i)"

lemma first_minimum_unique: "first_minimum f n k \<Longrightarrow> first_minimum f n l \<Longrightarrow> k = l"
  unfolding first_minimum_def by (metis linorder_less_linear not_le)

lemma first_min_spec:
  "first_min bound f n = (m, k) \<Longrightarrow>
     m \<le> bound \<and> (\<forall>i<n. m \<le> f i) \<and> (m < bound \<longrightarrow> first_minimum f n k \<and> f k = m) \<and> (m = bound \<longrightarrow> k = 0)"
proof (induction n arbitrary: m k)
  case 0
  then show ?case by (simp add: first_min_def)
next
  case (Suc n)
  obtain m' k' where p: "first_min bound f n = (m', k')" by fastforce
  have e: "(m, k) = (if f n < m' then (f n, n) else (m', k'))"
    using Suc.prems p by (simp add: first_min_def)
  from Suc.IH [OF p] have ih: "m' \<le> bound" "\<forall>i<n. m' \<le> f i" "m' < bound \<longrightarrow> first_minimum f n k' \<and> f k' = m'"
    "m' = bound \<longrightarrow> k' = 0" by auto
  show ?case
  proof (cases "f n < m'")
    case True
    with e ih show ?thesis by (auto simp: first_minimum_def less_Suc_eq) (meson less_le_trans order_less_imp_le)+
  next
    case False
    with e ih show ?thesis by (auto simp: first_minimum_def less_Suc_eq)
  qed
qed

lemma first_min_found:
  assumes "first_minimum f n k" "f k < bound"
  shows "first_min bound f n = (f k, k)"
proof -
  obtain m l where p: "first_min bound f n = (m, l)" by fastforce
  from first_min_spec [OF p] have s: "m \<le> bound" "\<forall>i<n. m \<le> f i" "m < bound \<longrightarrow> first_minimum f n l \<and> f l = m"
    by auto
  have "m \<le> f k" using s(2) assms(1) by (simp add: first_minimum_def)
  with assms(2) s(3) have "first_minimum f n l" "f l = m" by auto
  with first_minimum_unique [OF assms(1)] p show ?thesis by auto
qed

definition mutual_pair :: "(nat \<Rightarrow> nat \<Rightarrow> nat) \<Rightarrow> nat \<Rightarrow> nat \<Rightarrow> nat \<Rightarrow> nat \<Rightarrow> nat \<Rightarrow> bool" where
  "mutual_pair d n1 n2 threshold i j \<longleftrightarrow>
     first_minimum (d i) n2 j \<and> first_minimum (\<lambda>i. d i j) n1 i \<and> d i j < threshold"

text \<open>The pairs that the second loop reports, in its order.\<close>

definition reported :: "(nat \<Rightarrow> nat \<Rightarrow> nat) \<Rightarrow> nat \<Rightarrow> nat \<Rightarrow> nat \<Rightarrow> nat \<Rightarrow> (nat \<times> nat) list" where
  "reported d n1 n2 threshold i =
     (case first_min 255 (d i) n2 of (best, j) \<Rightarrow>
        if snd (first_min 255 (\<lambda>i. d i j) n1) = i \<and> best < threshold then [(i, j)] else [])"

lemma reported_iff:
  assumes "i < n1" "0 < n2" "threshold \<le> 255"
  shows "(i', j) \<in> set (reported d n1 n2 threshold i) \<longleftrightarrow> i' = i \<and> mutual_pair d n1 n2 threshold i j"
proof
  assume r: "(i', j) \<in> set (reported d n1 n2 threshold i)"
  obtain best l where p: "first_min 255 (d i) n2 = (best, l)" by fastforce
  with r have l: "l = j" "i' = i" "best < threshold" and q: "snd (first_min 255 (\<lambda>i. d i j) n1) = i"
    by (auto simp: reported_def split: if_splits)
  have row: "first_minimum (d i) n2 j" "d i j = best"
    using first_min_spec [OF p] l assms(3) by auto
  obtain m where c: "first_min 255 (\<lambda>i. d i j) n1 = (m, i)" using q by (cases "first_min 255 (\<lambda>i. d i j) n1") auto
  have "m \<le> d i j" using first_min_spec [OF c] assms(1) by auto
  then have "m < 255" using row l assms(3) by simp
  then have "first_minimum (\<lambda>i. d i j) n1 i" using first_min_spec [OF c] by auto
  with row l show "i' = i \<and> mutual_pair d n1 n2 threshold i j" by (simp add: mutual_pair_def)
next
  assume m: "i' = i \<and> mutual_pair d n1 n2 threshold i j"
  then have "first_min 255 (d i) n2 = (d i j, j)" "first_min 255 (\<lambda>i. d i j) n1 = (d i j, i)"
    using assms(3) by (auto simp: mutual_pair_def intro!: first_min_found)
  with m show "(i', j) \<in> set (reported d n1 n2 threshold i)"
    by (simp add: reported_def mutual_pair_def)
qed

definition all_reported :: "(nat \<Rightarrow> nat \<Rightarrow> nat) \<Rightarrow> nat \<Rightarrow> nat \<Rightarrow> nat \<Rightarrow> nat \<Rightarrow> (nat \<times> nat) list" where
  "all_reported d n1 n2 threshold m = concat (map (reported d n1 n2 threshold) [0..<m])"

lemma reported_length: "length (reported d n1 n2 threshold i) \<le> 1"
  by (auto simp: reported_def split: prod.splits)

lemma all_reported_length: "length (all_reported d n1 n2 threshold m) \<le> m"
proof (induction m)
  case (Suc m)
  then show ?case using reported_length [of d n1 n2 threshold m] by (simp add: all_reported_def)
qed (simp add: all_reported_def)

definition as_candidate :: "(nat \<Rightarrow> nat \<Rightarrow> nat) \<Rightarrow> u16 \<Rightarrow> u16 \<Rightarrow> nat \<times> nat \<Rightarrow> fpc_candidate \<Rightarrow> fpc_candidate" where
  "as_candidate d first_offset second_offset ij c =
     c\<lparr>cd_first := of_nat (fst ij) + first_offset, cd_second := of_nat (snd ij) + second_offset,
       cd_distance := of_nat (d (fst ij) (snd ij)), cd_flag := 0\<rparr>"

definition written :: "(nat \<Rightarrow> nat \<Rightarrow> nat) \<Rightarrow> u16 \<Rightarrow> u16 \<Rightarrow> (nat \<times> nat) list \<Rightarrow> fpc_candidate list \<Rightarrow> fpc_candidate list" where
  "written d fo so ps output = map2 (as_candidate d fo so) ps output @ drop (length ps) output"

lemma zip_take_length [simp]: "zip xs (take (length xs) ys) = zip xs ys"
proof (induction xs arbitrary: ys)
  case (Cons x xs)
  then show ?case by (cases ys) auto
qed simp

lemma written_snoc:
  assumes "length ps < length output"
  shows "(written d fo so ps output)[length ps := as_candidate d fo so p (output ! length ps)]
           = written d fo so (ps @ [p]) output"
    and "written d fo so ps output ! length ps = output ! length ps"
proof -
  have l: "length (map2 (as_candidate d fo so) ps output) = length ps" using assms by simp
  have dr: "drop (length ps) output = output ! length ps # drop (Suc (length ps)) output"
    using assms by (simp add: Cons_nth_drop_Suc)
  show "written d fo so ps output ! length ps = output ! length ps"
    using assms by (simp add: written_def nth_append dr)
  have z: "zip (ps @ [p]) output = zip ps output @ [(p, output ! length ps)]"
    using assms by (simp add: zip_append1 dr)
  show "(written d fo so ps output)[length ps := as_candidate d fo so p (output ! length ps)]
           = written d fo so (ps @ [p]) output"
    using assms by (simp add: written_def list_update_append dr z)
qed

lemma mutual_candidates_fold:
  assumes "fpc_mutual_candidates al matrix n1 n2 stride threshold fo so output = Inr (out, n)" "0 < n2" "0 < n1"
    "threshold \<le> 255"
  defines "d \<equiv> (\<lambda>i j. unat (matrix ! (i * stride + j)))"
  shows "out = written d fo so (all_reported d n1 n2 threshold n1) output \<and> n = length (all_reported d n1 n2 threshold n1)"
proof -
  define nearest where "nearest = map (\<lambda>j. snd (first_min 255 (\<lambda>i. d i j) n1)) [0..<n2]"
  define step where "step = (\<lambda>i st. case first_min 255 (d i) n2 of (best, jbest) \<Rightarrow>
      if nearest ! jbest = i \<and> best < threshold then put_candidate fo so i jbest best st else st)"
  have cap: "n1 \<le> length output" and f: "fold step [0..<n1] (output, 0) = (out, n)"
    using assms(1-3)
    by (auto simp: fpc_mutual_candidates_def d_def [symmetric] nearest_def step_def Let_def not_less
        simp del: upt_Suc split: if_splits)
  have "fold step [0..<m] (output, 0)
      = (written d fo so (all_reported d n1 n2 threshold m) output, length (all_reported d n1 n2 threshold m))"
    if "m \<le> n1" for m
    using that
  proof (induction m)
    case 0
    then show ?case by (simp add: all_reported_def written_def)
  next
    case (Suc m)
    let ?ps = "all_reported d n1 n2 threshold m"
    have lt: "length ?ps < length output" using all_reported_length [of d n1 n2 threshold m] Suc.prems cap by simp
    obtain best j where p: "first_min 255 (d m) n2 = (best, j)" by fastforce
    from first_min_spec [OF p] have j: "j < n2 \<and> (best < 255 \<longrightarrow> d m j = best)" and b: "best \<le> 255"
      using assms(2) by (cases "best = 255"; auto simp: first_minimum_def)+
    have nb: "nearest ! j = snd (first_min 255 (\<lambda>i. d i j) n1)" using j by (simp add: nearest_def)
    have "put_candidate fo so m j best (written d fo so ?ps output, length ?ps)
        = (written d fo so (?ps @ [(m, j)]) output, length ?ps + 1)" if "best < threshold"
      using written_snoc(1) [OF lt, where d = d and fo = fo and so = so and p = "(m, j)"]
        written_snoc(2) [OF lt, where d = d and fo = fo and so = so] that j assms(4)
      by (simp add: put_candidate_def as_candidate_def)
    with Suc show ?case
      by (simp add: step_def p nb all_reported_def reported_def)
  qed
  from this [of n1] f show ?thesis by simp
qed

lemma all_reported_props:
  assumes "0 < n2" "threshold \<le> 255"
  shows "set (all_reported d n1 n2 threshold n1) = {(i, j). mutual_pair d n1 n2 threshold i j}"
    and "sorted_wrt (\<lambda>p q. fst p < fst q) (all_reported d n1 n2 threshold n1)"
proof -
  have "mutual_pair d n1 n2 threshold i j \<Longrightarrow> i < n1" for i j
    by (simp add: mutual_pair_def first_minimum_def)
  then show "set (all_reported d n1 n2 threshold n1) = {(i, j). mutual_pair d n1 n2 threshold i j}"
    using reported_iff [OF _ assms] by (fastforce simp: all_reported_def)
  have "sorted_wrt (\<lambda>p q. fst p < fst q) (all_reported d n1 n2 threshold m)
        \<and> (\<forall>p \<in> set (all_reported d n1 n2 threshold m). fst p < m)" for m
  proof (induction m)
    case (Suc m)
    have "p = (m, snd p)" if "p \<in> set (reported d n1 n2 threshold m)" for p
      using that by (auto simp: reported_def split: prod.splits if_splits)
    then have "\<forall>p \<in> set (reported d n1 n2 threshold m). fst p = m" by (metis fst_conv)
    moreover have "sorted_wrt (\<lambda>p q. fst p < fst q) (reported d n1 n2 threshold m)"
      by (simp add: reported_def split: prod.splits)
    ultimately show ?case using Suc by (auto simp: all_reported_def sorted_wrt_append less_Suc_eq)
  qed (simp add: all_reported_def)
  then show "sorted_wrt (\<lambda>p q. fst p < fst q) (all_reported d n1 n2 threshold n1)" by blast
qed

lemma mutual_distinct:
  assumes "set ps = {(i, j). mutual_pair d n1 n2 threshold i j}" "sorted_wrt (\<lambda>p q. fst p < fst q) ps"
  shows "distinct (map snd ps)"
proof -
  have "distinct ps" using assms(2) by (induction ps) auto
  moreover have "inj_on snd (set ps)"
    unfolding assms(1) inj_on_def by (auto simp: mutual_pair_def dest: first_minimum_unique)
  ultimately show ?thesis by (simp add: distinct_map)
qed

text \<open>(C32) An accepted call of the candidate matcher writes exactly the mutual nearest neighbours: the pairs
  whose distance is the first minimum of its row and of its column and lies below the threshold, in
  ascending order of the first index, with both indices used at most once; the rest of the output buffer
  stays as it was.\<close>

theorem mutual_candidates_exact:
  assumes "fpc_mutual_candidates al matrix n1 n2 stride threshold fo so output = Inr (out, n)"
    "threshold \<le> 255"
  shows "\<exists>ps. set ps = {(i, j). mutual_pair (\<lambda>i j. unat (matrix ! (i * stride + j))) n1 n2 threshold i j}
     \<and> sorted_wrt (\<lambda>p q. fst p < fst q) ps \<and> distinct (map snd ps) \<and> n = length ps
     \<and> out = written (\<lambda>i j. unat (matrix ! (i * stride + j))) fo so ps output"
proof (cases "n1 = 0 \<or> n2 = 0")
  case True
  then have "out = output \<and> n = 0"
    using assms(1) by (auto simp: fpc_mutual_candidates_def split: if_splits)
  with True show ?thesis by (auto simp: mutual_pair_def first_minimum_def written_def)
next
  case False
  let ?d = "\<lambda>i j. unat (matrix ! (i * stride + j))"
  let ?ps = "all_reported ?d n1 n2 threshold n1"
  from False have n: "0 < n2" "0 < n1" by simp_all
  note f = mutual_candidates_fold [OF assms(1) n assms(2)] and p = all_reported_props [OF n(1) assms(2), of ?d n1]
  show ?thesis using f p mutual_distinct [OF p] by blast
qed

theorem mutual_candidates_exact_witness:
  "\<exists>ps. set ps = {(i, j). mutual_pair (\<lambda>i j. unat ([9, 4, 200, 7, 3, 90] ! (i * 3 + j) :: u8)) 2 3 64 i j}
     \<and> sorted_wrt (\<lambda>p q. fst p < fst q) ps \<and> distinct (map snd ps) \<and> 1 = length ps
     \<and> [\<lparr>cd_first = 1, cd_second = 1, cd_distance = 3, cd_flag = 0, cd_reserved = 5\<rparr>,
        \<lparr>cd_first = 0, cd_second = 0, cd_distance = 0, cd_flag = 9, cd_reserved = 6\<rparr>]
       = written (\<lambda>i j. unat ([9, 4, 200, 7, 3, 90] ! (i * 3 + j) :: u8)) 0 0 ps
           [\<lparr>cd_first = 0, cd_second = 0, cd_distance = 0, cd_flag = 9, cd_reserved = 5\<rparr>,
            \<lparr>cd_first = 0, cd_second = 0, cd_distance = 0, cd_flag = 9, cd_reserved = 6\<rparr>]"
  by (rule mutual_candidates_exact [of "\<lambda>_. True"])
    (simp_all add: fpc_mutual_candidates_def first_min_def put_candidate_def SIZE_MAX_def upt_rec nth_Cons')

end
