(* ===== verification/Masks.thy ===== *)
theory Masks
  imports Descriptor Float32
begin

text \<open>
  Masks and images (\<^verbatim>\<open>fpc_recovered.c\<close>: \<^verbatim>\<open>fpc_count_packed_mask\<close>,
  \<^verbatim>\<open>fpc_union_packed_mask\<close>, \<^verbatim>\<open>fpc_warp_packed_mask\<close>, \<^verbatim>\<open>fpc_expand_mask\<close>,
  \<^verbatim>\<open>fpc_threshold_resized_mask\<close>, \<^verbatim>\<open>fpc_pad_image_edges\<close>, \<^verbatim>\<open>fpc_resize_down\<close>).
  A packed mask is a list of 32-bit words in which bit \<open>i\<close> of the mask is bit \<open>i mod 32\<close> of word
  \<open>i div 32\<close>, with rows aligned to words.
\<close>

unbundle bit_operations_syntax

subsection \<open>Packed masks\<close>

definition mask_bit :: "u32 list \<Rightarrow> nat \<Rightarrow> bool" where
  "mask_bit words i = bit (words ! (i div 32)) (i mod 32)"

definition fpc_count_packed_mask :: "u32 list \<Rightarrow> nat \<Rightarrow> nat \<Rightarrow> nat \<Rightarrow> status + u32" where
  "fpc_count_packed_mask words width height stride_bits =
     (if width = 0 \<or> SIZE_MAX - 31 < width \<or> stride_bits \<noteq> (width + 31) div 32 * 32
         \<or> SIZE_MAX div (stride_bits div 32) < height \<or> 4294967295 < width
         \<or> 4294967295 div width < height then Inl (- 1)
      else Inr (fold (\<lambda>(y, k) acc.
                  let value = words ! (y * (stride_bits div 32) + k);
                      remaining = width - 32 * k;
                      value = (if remaining < 32 then value AND (push_bit remaining 1 - 1) else value)
                  in acc + of_nat (popcount32 value))
                (raster 0 height 0 ((width + 31) div 32)) 0))"

definition fpc_union_packed_mask ::
    "u32 list \<Rightarrow> nat \<Rightarrow> nat \<Rightarrow> nat \<Rightarrow> u32 list \<Rightarrow> nat \<Rightarrow> nat \<Rightarrow> nat \<Rightarrow> nat \<Rightarrow> nat \<Rightarrow> status \<times> u32 list" where
  "fpc_union_packed_mask destination width height stride_bits source source_width source_height
     source_stride_bits offset_x offset_y =
     (if width = 0 \<or> source_width = 0 \<or> stride_bits mod 32 \<noteq> 0 \<or> source_stride_bits mod 32 \<noteq> 0
         \<or> stride_bits < width \<or> source_stride_bits < source_width \<or> width < offset_x \<or> height < offset_y
         \<or> width - offset_x < source_width \<or> height - offset_y < source_height
         \<or> stride_bits = 0 \<or> source_stride_bits = 0 \<or> SIZE_MAX div stride_bits < height
         \<or> SIZE_MAX div source_stride_bits < source_height then (- 1, destination)
      else (0, fold (\<lambda>(y, x) dest.
                 let src = y * source_stride_bits + x;
                     dst = (y + offset_y) * stride_bits + x + offset_x
                 in dest[dst div 32 := (dest ! (dst div 32))
                           OR push_bit (dst mod 32) (drop_bit (src mod 32) (source ! (src div 32)) AND 1)])
               (raster 0 source_height 0 source_width) destination))"

text \<open>Nearest-neighbour warp with Q20 coordinates that wrap around. A row of \<open>n\<close> pixels from
  column \<open>x\<close>; \<open>base\<close> is the first word of the destination row.\<close>

definition warp_bit :: "u32 list \<Rightarrow> nat \<Rightarrow> nat \<Rightarrow> nat \<Rightarrow> u8 \<Rightarrow> u32 \<Rightarrow> u32 \<Rightarrow> u32" where
  "warp_bit source source_width source_height source_stride_bits outside vx vy =
     (let sx = shift_floor (signed_u32 vx) 20; sy = shift_floor (signed_u32 vy) 20
      in if 0 \<le> sx \<and> 0 \<le> sy \<and> sx < int source_width \<and> sy < int source_height
         then (let index = nat sy * source_stride_bits + nat sx
               in drop_bit (index mod 32) (source ! (index div 32)) AND 1)
         else ucast outside AND 1)"

fun warp_row ::
    "(u32 \<Rightarrow> u32 \<Rightarrow> u32) \<Rightarrow> u32 list \<Rightarrow> nat \<Rightarrow> nat \<Rightarrow> nat \<Rightarrow> u32 \<Rightarrow> u32 \<Rightarrow> u32 \<Rightarrow> u32 list \<Rightarrow> u32 list" where
  "warp_row sample q base 0 x vx vy acc dest = dest"
| "warp_row sample q base (Suc n) x vx vy acc dest =
     (let word = (if x mod 32 = 0 then 0 else acc) OR push_bit (x mod 32) (sample vx vy)
      in warp_row sample q base n (x + 1) (vx + q ! 0) (vy + q ! 3) word (dest[base + x div 32 := word]))"

fun warp_rows ::
    "(u32 \<Rightarrow> u32 \<Rightarrow> u32) \<Rightarrow> u32 list \<Rightarrow> nat \<Rightarrow> nat \<Rightarrow> nat \<Rightarrow> nat \<Rightarrow> u32 \<Rightarrow> u32 \<Rightarrow> u32 list \<Rightarrow> u32 list" where
  "warp_rows sample q width row_words 0 y row_x row_y dest = dest"
| "warp_rows sample q width row_words (Suc h) y row_x row_y dest =
     warp_rows sample q width row_words h (y + 1) (row_x + q ! 1) (row_y + q ! 4)
       (warp_row sample q (y * row_words) width 0 row_x row_y 0 dest)"

definition q20_fixed :: "f32 \<Rightarrow> u32 option" where
  "q20_fixed a =
     (let value = a * (F32 0x49800000)
      in if \<not> ((F32 0xCF000000) \<le> value \<and> value < (F32 0x4F000000)) then None
         else Some (word_of_int (f_to_i32 value)))"

definition fpc_warp_packed_mask ::
    "u32 list \<Rightarrow> nat \<Rightarrow> nat \<Rightarrow> nat \<Rightarrow> u32 list \<Rightarrow> nat \<Rightarrow> nat \<Rightarrow> nat \<Rightarrow> f32 list \<Rightarrow> u8 \<Rightarrow> status \<times> u32 list" where
  "fpc_warp_packed_mask source source_width source_height source_stride_bits destination width height
     stride_bits affine outside =
     (if width = 0 \<or> source_width = 0 \<or> source_stride_bits mod 32 \<noteq> 0 \<or> stride_bits mod 32 \<noteq> 0
         \<or> source_stride_bits < source_width \<or> stride_bits < width \<or> stride_bits = 0
         \<or> source_stride_bits = 0 \<or> SIZE_MAX div stride_bits < height
         \<or> SIZE_MAX div source_stride_bits < source_height then (- 1, destination)
      else case those (map (\<lambda>i. q20_fixed (affine ! i)) [0..<6]) of
             None \<Rightarrow> (- 1, destination)
           | Some q \<Rightarrow>
               (0, warp_rows (warp_bit source source_width source_height source_stride_bits outside) q width
                     (stride_bits div 32) height 0 (q ! 2 + 0x80000) (q ! 5 + 0x80000) destination))"

subsection \<open>Byte masks\<close>

definition fpc_expand_mask ::
    "u32 list \<Rightarrow> nat \<Rightarrow> nat \<Rightarrow> nat \<Rightarrow> nat \<Rightarrow> nat \<Rightarrow> u8 list \<Rightarrow> nat \<Rightarrow> status \<times> u8 list" where
  "fpc_expand_mask words bit_stride origin_x origin_y width height output output_stride =
     (if width = 0 \<or> height = 0 \<or> bit_stride mod 32 \<noteq> 0 \<or> bit_stride < origin_x
         \<or> bit_stride - origin_x < width \<or> output_stride < width \<or> SIZE_MAX div output_stride < height
         \<or> SIZE_MAX - height < origin_y \<or> bit_stride = 0 \<or> SIZE_MAX div bit_stride < origin_y + height
         \<or> length words < (origin_y + height) * bit_stride div 32 then (- 1, output)
      else (0, fill_rows (\<lambda>y x. if mask_bit words ((origin_y + y) * bit_stride + origin_x + x) then 255 else 0)
                 width height output_stride output))"

definition fpc_threshold_resized_mask :: "u8 list \<Rightarrow> nat \<Rightarrow> nat \<Rightarrow> nat \<Rightarrow> status \<times> u8 list" where
  "fpc_threshold_resized_mask msk width height stride =
     (if width = 0 \<or> height = 0 \<or> stride < width \<or> SIZE_MAX div stride < height then (- 1, msk)
      else (0, fill_rows (\<lambda>y x. if msk ! (y * stride + x) \<noteq> 255 then 0 else msk ! (y * stride + x))
                 width height stride msk))"

subsection \<open>Padding and resizing\<close>

definition clamp_index :: "nat \<Rightarrow> nat \<Rightarrow> nat \<Rightarrow> nat" where
  "clamp_index padding len i =
     (if i < padding then 0 else if i - padding < len then i - padding else len - 1)"

definition fpc_pad_image_edges ::
    "u8 list \<Rightarrow> nat \<Rightarrow> nat \<Rightarrow> nat \<Rightarrow> nat \<Rightarrow> u8 list \<Rightarrow> nat \<Rightarrow> status \<times> u8 list" where
  "fpc_pad_image_edges source width height stride padding output output_stride =
     (if width = 0 \<or> height = 0 \<or> 256 < width \<or> 256 < height \<or> 128 < padding \<or> stride < width
         \<or> output_stride < width + 2 * padding \<or> SIZE_MAX div stride < height
         \<or> SIZE_MAX div output_stride < height + 2 * padding then (- 1, output)
      else (0, fill_rows (\<lambda>y x. source ! (clamp_index padding height y * stride + clamp_index padding width x))
                 (width + 2 * padding) (height + 2 * padding) output_stride output))"

text \<open>Position \<open>i\<close> of the Q15 walk over \<open>len\<close> samples in \<open>out\<close> steps. Reads go through \<open>rd\<close>:
  \<open>None\<close> is a read outside the source or the temporary.\<close>

definition resize_step :: "nat \<Rightarrow> nat \<Rightarrow> int" where
  "resize_step len out = int ((out div 2 + len * 32768) div out)"

definition resize_pos :: "nat \<Rightarrow> nat \<Rightarrow> nat \<Rightarrow> int" where
  "resize_pos len out i = (resize_step len out - 32768) div 2 + int i * resize_step len out"

definition resize_cell :: "nat \<Rightarrow> nat \<Rightarrow> nat \<Rightarrow> nat" where
  "resize_cell len out i = nat (resize_pos len out i div 32768)"

definition resize_fraction :: "nat \<Rightarrow> nat \<Rightarrow> nat \<Rightarrow> int" where
  "resize_fraction len out i = resize_pos len out i mod 32768"

definition resize_columns :: "u8 list \<Rightarrow> nat \<Rightarrow> nat \<Rightarrow> nat \<Rightarrow> nat \<Rightarrow> int list option" where
  "resize_columns source width height stride oh =
     those (map (\<lambda>(x, y).
        do { a \<leftarrow> rd source (resize_cell height oh y * stride + x);
             b \<leftarrow> rd source ((resize_cell height oh y + 1) * stride + x);
             Some (((32768 - resize_fraction height oh y) * uint a
                     + resize_fraction height oh y * uint b + 64) div 128) })
       (raster 0 width 0 oh))"

definition resize_rows :: "int list \<Rightarrow> nat \<Rightarrow> nat \<Rightarrow> nat \<Rightarrow> u8 list option" where
  "resize_rows temporary width ow oh =
     those (map (\<lambda>(y, x).
        do { a \<leftarrow> rd temporary (resize_cell width ow x * oh + y);
             b \<leftarrow> rd temporary ((resize_cell width ow x + 1) * oh + y);
             let fraction = word_of_int (resize_fraction width ow x) :: u32;
                 value = (32768 - fraction) * word_of_int a + fraction * word_of_int b + 0x400000
             in Some (word_of_int (shift_floor (signed_u32 value) 23)) })
       (raster 0 oh 0 ow))"

definition fpc_resize_down ::
    "(nat \<Rightarrow> bool) \<Rightarrow> u8 list \<Rightarrow> nat \<Rightarrow> nat \<Rightarrow> nat \<Rightarrow> u8 list \<Rightarrow> nat \<Rightarrow> nat \<Rightarrow> nat
       \<Rightarrow> (status \<times> u8 list) option" where
  "fpc_resize_down al source width height stride output ow oh output_stride =
     (if 256 < width \<or> 256 < height \<or> ow = 0 \<or> oh = 0 \<or> width \<le> ow \<or> height \<le> oh \<or> stride < width
         \<or> output_stride < ow \<or> SIZE_MAX div stride < height \<or> SIZE_MAX div output_stride < oh
      then Some (- 1, output)
      else if \<not> al (width * oh * 4) then Some (- 1, output)
      else do { temporary \<leftarrow> resize_columns source width height stride oh;
                pixels \<leftarrow> resize_rows temporary width ow oh;
                Some (0, fill_rows (\<lambda>y x. pixels ! (y * ow + x)) ow oh output_stride output) })"

subsection \<open>Counting\<close>

lemma fold_add_of_nat: "fold (\<lambda>p acc. acc + of_nat (g p)) xs (a :: u32) = a + of_nat (sum_list (map g xs))"
  by (induction xs arbitrary: a) (simp_all add: add.assoc)

definition mask_area :: "u32 list \<Rightarrow> nat \<Rightarrow> nat \<Rightarrow> nat \<Rightarrow> (nat \<times> nat) set" where
  "mask_area words width height stride_bits =
     {(y, x). y < height \<and> x < width \<and> mask_bit words (y * stride_bits + x)}"

lemma finite_mask_area: "finite (mask_area words width height stride_bits)"
  by (rule finite_subset [of _ "{..<height} \<times> {..<width}"]) (auto simp: mask_area_def)

lemma card_mask_area_le: "card (mask_area words width height stride_bits) \<le> height * width"
  using card_mono [of "{..<height} \<times> {..<width}" "mask_area words width height stride_bits"]
  by (auto simp: mask_area_def card_cartesian_product)

definition row_word :: "u32 list \<Rightarrow> nat \<Rightarrow> nat \<Rightarrow> nat \<times> nat \<Rightarrow> u32" where
  "row_word words width nw yk =
     (let value = words ! (fst yk * nw + snd yk); remaining = width - 32 * snd yk
      in if remaining < 32 then value AND (push_bit remaining 1 - 1) else value)"

lemma bit_row_word:
  assumes "k < (width + 31) div 32"
  shows "bit (row_word words width nw (y, k)) j
    \<longleftrightarrow> j < 32 \<and> 32 * k + j < width \<and> bit (words ! (y * nw + k)) j"
proof -
  have "32 * k < width" using assms by auto
  moreover have "(push_bit r 1 - 1 :: u32) = mask r" for r by (simp add: push_bit_eq_mult mask_eq_exp_minus_1)
  moreover have "j < 32" if "bit v j" for v :: u32 using bit_imp_le_length [OF that] by simp
  moreover have "32 * k + j < width" if "j < 32" "\<not> width - 32 * k < 32" using that by linarith
  ultimately show ?thesis by (auto simp: row_word_def Let_def bit_simps)
qed

lemma popcount_row_word:
  assumes "k < (width + 31) div 32" "stride_bits = nw * 32" "y < height"
  shows "popcount32 (row_word words width nw (y, k))
    = card {p \<in> mask_area words width height stride_bits. (fst p, snd p div 32) = (y, k)}"
proof -
  let ?J = "set_bits (row_word words width nw (y, k))"
  have at: "(y * stride_bits + (32 * k + j)) div 32 = y * nw + k" "(y * stride_bits + (32 * k + j)) mod 32 = j"
    if "j < 32" for j
  proof -
    have e: "y * stride_bits + (32 * k + j) = 32 * (y * nw + k) + j"
      unfolding assms(2) by (simp add: algebra_simps)
    have "(32 * m + j) div 32 = m" "(32 * m + j) mod 32 = j" for m using that by simp_all
    then show "(y * stride_bits + (32 * k + j)) div 32 = y * nw + k" "(y * stride_bits + (32 * k + j)) mod 32 = j"
      by (simp_all only: e)
  qed
  have "{p \<in> mask_area words width height stride_bits. (fst p, snd p div 32) = (y, k)}
      = (\<lambda>j. (y, 32 * k + j)) ` ?J"
  proof (intro equalityI subsetI)
    fix p assume "p \<in> {p \<in> mask_area words width height stride_bits. (fst p, snd p div 32) = (y, k)}"
    then obtain x where p: "p = (y, x)" "x div 32 = k" "x < width" "mask_bit words (y * stride_bits + x)"
      by (cases p) (auto simp: mask_area_def)
    define j where "j = x mod 32"
    have x: "x = 32 * k + j" "j < 32" using p(2) by (auto simp: j_def)
    have "bit (words ! (y * nw + k)) j" using p(4) at [OF x(2)] by (simp add: mask_bit_def x(1))
    then have "j \<in> ?J" using x p(3) by (simp add: set_bits_def bit_row_word [OF assms(1)])
    then show "p \<in> (\<lambda>j. (y, 32 * k + j)) ` ?J" using p(1) x(1) by simp
  next
    fix p assume "p \<in> (\<lambda>j. (y, 32 * k + j)) ` ?J"
    then obtain j where j: "p = (y, 32 * k + j)" "j \<in> ?J" by blast
    then have b: "j < 32" "32 * k + j < width" "bit (words ! (y * nw + k)) j"
      by (simp_all add: set_bits_def bit_row_word [OF assms(1)])
    then show "p \<in> {p \<in> mask_area words width height stride_bits. (fst p, snd p div 32) = (y, k)}"
      using j(1) assms(3) at [OF b(1)] by (simp add: mask_area_def mask_bit_def)
  qed
  then show ?thesis by (simp add: popcount32_card card_image inj_on_def)
qed

lemma sum_raster: "sum_list (map g (raster 0 h 0 n)) = (\<Sum>p \<in> {..<h} \<times> {..<n}. g p)"
  using sum_list_distinct_conv_sum_set [OF distinct_raster, of g 0 h 0 n]
  by (simp add: set_raster atLeast0LessThan)

lemma count_area:
  assumes "stride_bits = nw * 32" "nw = (width + 31) div 32"
  shows "sum_list (map (\<lambda>p. popcount32 (row_word words width nw p)) (raster 0 height 0 nw))
    = card (mask_area words width height stride_bits)"
proof -
  let ?S = "mask_area words width height stride_bits" and ?T = "{..<height} \<times> {..<nw}"
  let ?f = "\<lambda>p. (fst p, snd p div 32)"
  have "?f ` ?S \<subseteq> ?T" by (auto simp: mask_area_def assms(2))
  from sum.group [OF finite_mask_area _ this, of "\<lambda>_. 1 :: nat"]
  have "card ?S = (\<Sum>p \<in> ?T. card {q \<in> ?S. ?f q = p})" by simp
  also have "\<dots> = (\<Sum>p \<in> ?T. popcount32 (row_word words width nw p))"
    using popcount_row_word [OF _ assms(1)] by (intro sum.cong) (auto simp: assms(2))
  finally show ?thesis by (simp add: sum_raster)
qed

text \<open>The count of a packed mask is the number of its set bits inside the rectangle: bits of the last
  word of a row beyond the width do not count, and the 32-bit sum cannot wrap around.\<close>

theorem packed_mask_count:
  assumes "fpc_count_packed_mask words width height stride_bits = Inr n"
  shows "unat n = card (mask_area words width height stride_bits)"
proof -
  let ?nw = "(width + 31) div 32"
  have g: "stride_bits = ?nw * 32" "height \<le> 4294967295 div width" "0 < width"
    and n: "n = fold (\<lambda>(y, k) acc. let value = words ! (y * (stride_bits div 32) + k);
                      remaining = width - 32 * k;
                      value = (if remaining < 32 then value AND (push_bit remaining 1 - 1) else value)
                  in acc + of_nat (popcount32 value)) (raster 0 height 0 ?nw) 0"
    using assms by (auto simp: fpc_count_packed_mask_def split: if_splits)
  have f: "(\<lambda>(y, k) acc. let value = words ! (y * (stride_bits div 32) + k);
                      remaining = width - 32 * k;
                      value = (if remaining < 32 then value AND (push_bit remaining 1 - 1) else value)
                  in acc + of_nat (popcount32 value))
      = (\<lambda>p acc :: u32. acc + of_nat (popcount32 (row_word words width ?nw p)))"
    using g(1) by (auto simp: row_word_def Let_def fun_eq_iff)
  have e: "n = of_nat (card (mask_area words width height stride_bits))"
    unfolding n f fold_add_of_nat count_area [OF g(1) refl] by simp
  have "height * width \<le> 4294967295 div width * width" using g(2) by (rule mult_right_mono) simp
  also have "\<dots> \<le> 4294967295" by simp
  finally have "card (mask_area words width height stride_bits) \<le> 4294967295"
    using card_mask_area_le [of words width height stride_bits] by linarith
  then show ?thesis by (simp add: e unat_of_nat take_bit_nat_eq_self)
qed

theorem packed_mask_count_witness:
  "card (mask_area [0xF000000F, 0xFFFFFFFF, 7, 4] 35 2 64) = 15"
  using packed_mask_count [of "[0xF000000F, 0xFFFFFFFF, 7, 4]" 35 2 64 15]
  by (simp add: fpc_count_packed_mask_def SIZE_MAX_def raster_def upt_rec popcount32_def)

subsection \<open>Union\<close>

lemma mask_bit_update:
  assumes "i div 32 < length dest"
  shows "mask_bit (dest[d div 32 := (dest ! (d div 32)) OR push_bit (d mod 32) (v AND 1)]) i
    \<longleftrightarrow> mask_bit dest i \<or> (i = d \<and> bit v 0)"
proof (cases "i div 32 = d div 32")
  case False
  then show ?thesis using assms by (auto simp: mask_bit_def)
next
  case True
  have "i = d \<longleftrightarrow> i mod 32 = d mod 32" using True by (metis div_mult_mod_eq)
  moreover have "bit (push_bit (d mod 32) (v AND 1)) (i mod 32) \<longleftrightarrow> i mod 32 = d mod 32 \<and> bit v 0"
    by (auto simp: bit_simps)
  ultimately show ?thesis using True assms by (auto simp: mask_bit_def bit_or_iff)
qed

lemma union_fold:
  "let dest' = fold (\<lambda>(y, x) dest.
                 let src = y * ss + x; dst = (y + oy) * sb + x + ox
                 in dest[dst div 32 := (dest ! (dst div 32))
                           OR push_bit (dst mod 32) (drop_bit (src mod 32) (source ! (src div 32)) AND 1)])
               ps dest
   in length dest' = length dest
      \<and> (\<forall>i. i div 32 < length dest \<longrightarrow>
           (mask_bit dest' i \<longleftrightarrow> mask_bit dest i
              \<or> (\<exists>(y, x) \<in> set ps. i = (y + oy) * sb + x + ox \<and> mask_bit source (y * ss + x))))"
proof (induction ps arbitrary: dest)
  case (Cons p ps)
  obtain y x where p: "p = (y, x)" by fastforce
  let ?d = "(y + oy) * sb + x + ox" and ?s = "y * ss + x"
  let ?v = "drop_bit (?s mod 32) (source ! (?s div 32))"
  have "bit ?v 0 = mask_bit source ?s" by (simp add: mask_bit_def bit_simps)
  with mask_bit_update [of _ dest ?d ?v] Cons.IH [of "dest[?d div 32 := (dest ! (?d div 32)) OR push_bit (?d mod 32) (?v AND 1)]"]
  show ?case by (auto simp: p Let_def)
qed simp

text \<open>The union sets a bit of the destination exactly if it was set before or corresponds, under the
  offset, to a set bit of the source rectangle. A refused call changes nothing.\<close>

theorem packed_mask_union:
  "case fpc_union_packed_mask dest width height sb source sw sh ss ox oy of
     (status, dest') \<Rightarrow> length dest' = length dest
       \<and> (if status = 0
          then list_all (\<lambda>i. mask_bit dest' i = (mask_bit dest i
                 \<or> list_ex (\<lambda>(y, x). i = (y + oy) * sb + x + ox \<and> mask_bit source (y * ss + x))
                     (raster 0 sh 0 sw)))
                 [0..<32 * length dest]
          else status = - 1 \<and> dest' = dest)"
proof -
  have i: "i div 32 < length dest" if "i \<in> set [0..<32 * length dest]" for i using that by auto
  show ?thesis
    using union_fold [of ss oy sb ox source "raster 0 sh 0 sw" dest] i
    by (auto simp: fpc_union_packed_mask_def Let_def list_all_iff list_ex_iff)
qed

subsection \<open>Reads of the downscaler\<close>

lemma those_total:
  "(\<And>x. x \<in> set xs \<Longrightarrow> f x \<noteq> None) \<Longrightarrow> \<exists>ys. those (map f xs) = Some ys \<and> length ys = length xs"
  by (induction xs) fastforce+

lemma those_missing: "x \<in> set xs \<Longrightarrow> f x = None \<Longrightarrow> those (map f xs) = None"
  by (induction xs) (auto split: option.splits)

lemma resize_cell_bound:
  assumes "0 < out" "out < len" "out \<le> 180" "i < out"
  shows "resize_cell len out i + 1 < len"
proof -
  define s where "s = resize_step len out"
  define n where "n = int out"
  define m where "m = int len"
  have n: "0 < n" "n < m" "n \<le> 180" "int i \<le> n - 1" using assms by (simp_all add: n_def m_def)
  have s: "s = (n div 2 + m * 32768) div n" by (simp add: s_def resize_step_def n_def m_def zdiv_int)
  have lo: "s * n \<le> n div 2 + m * 32768" "n div 2 + m * 32768 < s * n + n"
  proof -
    have "s * n + (n div 2 + m * 32768) mod n = n div 2 + m * 32768" unfolding s by (rule div_mult_mod_eq)
    then show "s * n \<le> n div 2 + m * 32768" "n div 2 + m * 32768 < s * n + n"
      using pos_mod_bound [OF n(1), of "n div 2 + m * 32768"] pos_mod_sign [OF n(1), of "n div 2 + m * 32768"]
      by linarith+
  qed
  have big: "n + 32768 < s"
  proof (rule ccontr)
    assume "\<not> n + 32768 < s"
    then have "s * n \<le> (n + 32768) * n" using n(1) by (intro mult_right_mono) simp_all
    also have "\<dots> \<le> 180 * n + 32768 * n" using n by (simp add: distrib_right mult_right_mono)
    finally have "m * 32768 < 181 * n + 32768 * n" using lo(2) n(1) by linarith
    moreover have "(n + 1) * 32768 \<le> m * 32768" using n(2) by simp
    ultimately show False using n(3) by simp
  qed
  have "int i * s \<le> (n - 1) * s" using n(4) big n(1) by (intro mult_right_mono) simp_all
  moreover have "2 * ((s - 32768) div 2) \<le> s - 32768" by simp
  ultimately have "2 * ((s - 32768) div 2) + 2 * (int i * s) \<le> s - 32768 + 2 * ((n - 1) * s)"
    by linarith
  then have "2 * resize_pos len out i \<le> s - 32768 + 2 * ((n - 1) * s)"
    unfolding resize_pos_def s_def [symmetric] distrib_left .
  also have "\<dots> = 2 * (s * n) - s - 32768" by (simp add: algebra_simps)
  also have "\<dots> < 2 * ((m - 1) * 32768)" using lo(1) big by simp
  finally have "resize_pos len out i div 32768 < m - 1" by simp
  then show ?thesis using n by (simp add: resize_cell_def m_def)
qed

text \<open>Downscaling stays inside the source and the temporary for every target of at most 180 by 180
  pixels: the call then succeeds.\<close>

theorem resize_down_safe:
  assumes "width \<le> 256" "height \<le> 256" "0 < ow" "0 < oh" "ow < width" "oh < height" "width \<le> stride"
    "ow \<le> output_stride" "height \<le> SIZE_MAX div stride" "oh \<le> SIZE_MAX div output_stride"
    "al (width * oh * 4)" "length source = height * stride" "ow \<le> 180" "oh \<le> 180"
  shows "\<exists>out. fpc_resize_down al source width height stride output ow oh output_stride = Some (0, out)
    \<and> length out = length output"
proof -
  have row: "(resize_cell height oh y + 1) * stride + x < length source" if "x < width" "y < oh" for x y
  proof -
    have "(resize_cell height oh y + 2) * stride \<le> height * stride"
      using resize_cell_bound [of oh height y] assms that by (intro mult_right_mono) auto
    then show ?thesis using that(1) assms(7,12) by (simp add: algebra_simps)
  qed
  have "\<exists>t. resize_columns source width height stride oh = Some t \<and> length t = length (raster 0 width 0 oh)"
    unfolding resize_columns_def
  proof (rule those_total)
    fix p assume "p \<in> set (raster 0 width 0 oh)"
    then obtain x y where p: "p = (x, y)" "x < width" "y < oh" by (auto simp: set_raster)
    with row [OF p(2,3)] show "(case p of (x, y) \<Rightarrow>
        do { a \<leftarrow> rd source (resize_cell height oh y * stride + x);
             b \<leftarrow> rd source ((resize_cell height oh y + 1) * stride + x);
             Some (((32768 - resize_fraction height oh y) * uint a
                     + resize_fraction height oh y * uint b + 64) div 128) }) \<noteq> None"
      by (simp add: rd_def)
  qed
  then obtain t where t: "resize_columns source width height stride oh = Some t" "length t = width * oh"
    by (auto simp: length_raster)
  have col: "(resize_cell width ow x + 1) * oh + y < width * oh" if "x < ow" "y < oh" for x y
  proof -
    have "(resize_cell width ow x + 2) * oh \<le> width * oh"
      using resize_cell_bound [of ow width x] assms that by (intro mult_right_mono) auto
    then show ?thesis using that(2) by (simp add: algebra_simps)
  qed
  have "\<exists>ps. resize_rows t width ow oh = Some ps \<and> length ps = length (raster 0 oh 0 ow)"
    unfolding resize_rows_def
  proof (rule those_total)
    fix p assume "p \<in> set (raster 0 oh 0 ow)"
    then obtain x y where p: "p = (y, x)" "x < ow" "y < oh" by (auto simp: set_raster)
    with col [OF p(2,3)] show "(case p of (y, x) \<Rightarrow>
        do { a \<leftarrow> rd t (resize_cell width ow x * oh + y);
             b \<leftarrow> rd t ((resize_cell width ow x + 1) * oh + y);
             let fraction = word_of_int (resize_fraction width ow x) :: u32;
                 value = (32768 - fraction) * word_of_int a + fraction * word_of_int b + 0x400000
             in Some (word_of_int (shift_floor (signed_u32 value) 23)) }) \<noteq> None"
      by (simp add: rd_def t(2) Let_def)
  qed
  then obtain ps where "resize_rows t width ow oh = Some ps" by blast
  with t(1) assms show ?thesis by (simp add: fpc_resize_down_def)
qed

theorem resize_down_safe_witness:
  "\<exists>out. fpc_resize_down (\<lambda>_. True) (replicate 9856 7) 112 88 112 (replicate 2464 0) 56 44 56 = Some (0, out)
    \<and> length out = 2464"
proof -
  have "\<exists>out. fpc_resize_down (\<lambda>_. True) (replicate 9856 7) 112 88 112 (replicate 2464 0) 56 44 56 = Some (0, out)
    \<and> length out = length (replicate 2464 (0 :: u8))"
    by (rule resize_down_safe) (simp_all add: SIZE_MAX_def)
  then show ?thesis by (simp only: length_replicate)
qed

text \<open>The guards of the downscaler do not keep its reads inside the source: from 256 rows to 255 the
  rounded step walks so far that the last row interpolates with a row one past the end of any
  source of the announced size.\<close>

theorem resize_down_overread:
  assumes "width \<le> 256" "0 < ow" "ow < width" "width \<le> stride" "ow \<le> output_stride"
    "256 \<le> SIZE_MAX div stride" "255 \<le> SIZE_MAX div output_stride" "al (width * 255 * 4)"
    "length source = 256 * stride"
  shows "fpc_resize_down al source width 256 stride output ow 255 output_stride = None"
proof -
  have c: "resize_cell 256 255 254 = 255" by (simp add: resize_cell_def resize_pos_def resize_step_def)
  have "(0, 254) \<in> set (raster 0 width 0 255)" using assms(2,3) by (simp add: set_raster)
  moreover have "rd source ((resize_cell 256 255 254 + 1) * stride + 0) = None"
    by (simp add: c rd_def assms(9))
  ultimately have "resize_columns source width 256 stride 255 = None"
    unfolding resize_columns_def
    by (intro those_missing [of "(0, 254)"]) (simp_all add: c rd_def assms(9))
  with assms show ?thesis by (simp add: fpc_resize_down_def)
qed

theorem resize_down_overread_witness:
  "fpc_resize_down (\<lambda>_. True) (replicate 512 0) 2 256 2 (replicate 255 0) 1 255 1 = None"
  by (rule resize_down_overread) (simp_all add: SIZE_MAX_def)

end
