(* ===== verification/Sampling.thy ===== *)
theory Sampling
  imports Float32
begin

text \<open>
  Sampling of descriptor patches (\<^verbatim>\<open>fpc_recovered.c\<close>: \<^verbatim>\<open>fpc_sample_affine_q15\<close>,
  \<^verbatim>\<open>fpc_sincos_recovered\<close>, \<^verbatim>\<open>sample_descriptor_roi\<close>,
  \<^verbatim>\<open>fpc_sample_descriptor_patch\<close>). Q15 coordinates are 32-bit patterns that wrap around,
  as in the code. Hexadecimal float literals of the source appear as their bit patterns.
\<close>

unbundle bit_operations_syntax

subsection \<open>Q15 affine sampling\<close>

definition q15_cell :: "u32 \<Rightarrow> int" where
  "q15_cell q = shift_floor (signed_u32 q) 15"

definition q15_inside :: "nat \<Rightarrow> nat \<Rightarrow> u32 \<times> u32 \<Rightarrow> bool" where
  "q15_inside width height q \<longleftrightarrow>
     \<not> (q15_cell (fst q) < 0 \<or> q15_cell (snd q) < 0
        \<or> int width - 1 \<le> q15_cell (fst q) \<or> int height - 1 \<le> q15_cell (snd q))"

text \<open>The fixed-point positions of one row of the patch and of all rows.\<close>

fun q15_row :: "u32 list \<Rightarrow> u32 \<Rightarrow> u32 \<Rightarrow> nat \<Rightarrow> (u32 \<times> u32) list" where
  "q15_row affine qx qy 0 = []"
| "q15_row affine qx qy (Suc n) = (qx, qy) # q15_row affine (qx + affine ! 0) (qy + affine ! 3) n"

fun q15_rows :: "u32 list \<Rightarrow> u32 \<Rightarrow> u32 \<Rightarrow> nat \<Rightarrow> nat \<Rightarrow> (u32 \<times> u32) list" where
  "q15_rows affine rowx rowy w 0 = []"
| "q15_rows affine rowx rowy w (Suc h) =
     q15_row affine rowx rowy w @ q15_rows affine (rowx + affine ! 1) (rowy + affine ! 4) w h"

definition q15_blend :: "u8 \<Rightarrow> u8 \<Rightarrow> u8 \<Rightarrow> u8 \<Rightarrow> u32 \<Rightarrow> u32 \<Rightarrow> u8" where
  "q15_blend p00 p10 p01 p11 qx qy =
     (let fx = qx AND 0x7FFF; fy = qy AND 0x7FFF;
          w00 = drop_bit 15 ((32768 - fx) * (32768 - fy));
          w10 = drop_bit 15 (fx * (32768 - fy));
          w01 = drop_bit 15 ((32768 - fx) * fy);
          w11 = drop_bit 15 (fx * fy)
      in ucast (drop_bit 15 (ucast p00 * w00 + ucast p10 * w10 + ucast p01 * w01 + ucast p11 * w11 :: u32)))"

definition q15_sample :: "u8 list \<Rightarrow> nat \<Rightarrow> u32 \<times> u32 \<Rightarrow> u8" where
  "q15_sample source stride q =
     (let p = nat (q15_cell (snd q)) * stride + nat (q15_cell (fst q))
      in q15_blend (source ! p) (source ! (p + 1)) (source ! (p + stride)) (source ! (p + stride + 1))
           (fst q) (snd q))"

definition fpc_sample_affine_q15 ::
    "u8 list \<Rightarrow> nat \<Rightarrow> nat \<Rightarrow> nat \<Rightarrow> u8 list \<Rightarrow> nat \<Rightarrow> nat \<Rightarrow> u32 list \<Rightarrow> status \<times> u8 list" where
  "fpc_sample_affine_q15 source width height stride patch patch_width patch_height affine =
     (if width < 2 \<or> height < 2 \<or> stride < width \<or> patch_width = 0 \<or> patch_height = 0
         \<or> SIZE_MAX div stride < height \<or> SIZE_MAX div patch_width < patch_height then (- 1, patch)
      else let positions = q15_rows affine (affine ! 2) (affine ! 5) patch_width patch_height
           in if \<not> list_all (q15_inside width height) positions then (- 1, patch)
              else (0, map (q15_sample source stride) positions @ drop (length positions) patch))"

subsection \<open>Sine and cosine\<close>

definition fpc_sincos_recovered :: "f32 \<Rightarrow> (f32 \<times> f32) option" where
  "fpc_sincos_recovered radians =
     (let pi = (F32 0x40490FDB); tau = (F32 0x40C90FDB) in
      if \<not> ((F32 0xC61C4000) \<le> radians \<and> radians \<le> (F32 0x461C4000)) then None else
      let quotient = radians / tau;
          turns0 = f_to_i32 quotient;
          turns = (if quotient < 0 then turns0 - 1 else turns0);
          angle0 = radians - (f_of_int turns + f_of_int turns) * pi;
          over = pi < angle0;
          angle1 = (if over then angle0 + (- pi) else angle0);
          sign = (if over then (F32 0xBF800000) else 1);
          beyond = (F32 0x3FC90FDB) < angle1;
          angle2 = (if beyond then angle1 + (F32 0xBFC90FDB) else angle1);
          a = (if beyond then (F32 0x80000000) else sign);
          b = (if beyond then sign else 0);
          angle = angle2 + (F32 0xBF490FDB);
          u = (a - b) * (F32 0x3F3504F3);
          v = (b + b) * (F32 0x3F3504F3) + u;
          square = angle * angle;
          c = (((square * (F32 0x37D00D01) - (F32 0x3AB60B61)) * square
                 + (F32 0x3D2AAAAB)) * square - (F32 0x3F000000)) * square + 1;
          s = ((((square * (F32 0x3638EF1D) - (F32 0x39500D01)) * square
                  + (F32 0x3C088889)) * square - (F32 0x3E2AAAAB)) * square + 1) * angle
      in Some (c * u - s * v, c * v + s * u))"

subsection \<open>Descriptor patches\<close>

definition roi_transform :: "nat \<Rightarrow> nat \<Rightarrow> u8 \<Rightarrow> u8 \<Rightarrow> f32 \<Rightarrow> f32 \<Rightarrow> f32 list" where
  "roi_transform side source_span x y c s =
     (let half = f_of_int (int ((source_span - 1) div 2));
          scale = f_of_int (int (source_span - 1)) / f_of_int (int (side - 1))
      in [scale * c, - (scale * s), f_of_int (uint x) - (c - s) * half,
          scale * s, scale * c, f_of_int (uint y) - (c + s) * half])"

definition sample_descriptor_roi ::
    "u8 list \<Rightarrow> nat \<Rightarrow> nat \<Rightarrow> nat \<Rightarrow> u8 list \<Rightarrow> nat \<Rightarrow> nat \<Rightarrow> u8 \<Rightarrow> u8 \<Rightarrow> f32 \<Rightarrow> nat \<Rightarrow> nat
       \<Rightarrow> status \<times> u8 list" where
  "sample_descriptor_roi source width height stride patch side source_span x y degrees origin_x origin_y =
     (if side < 2 \<or> 25 < side \<or> source_span < 2 \<or> 25 < source_span then (- 1, patch) else
      case fpc_sincos_recovered (degrees * (F32 0x3C8EFA35)) of
        None \<Rightarrow> (- 1, patch)
      | Some (c, s) \<Rightarrow>
          let fixed = map (\<lambda>t. word_of_int (f_to_i32 (t * (F32 0x47000000))) :: u32)
                        (roi_transform side source_span x y c s);
              fixed = fixed[2 := fixed ! 2 + of_nat origin_x * 32768, 5 := fixed ! 5 + of_nat origin_y * 32768]
          in fpc_sample_affine_q15 source width height stride patch side side fixed)"

definition fpc_sample_descriptor_patch ::
    "u8 list \<Rightarrow> nat \<Rightarrow> nat \<Rightarrow> nat \<Rightarrow> u8 list \<Rightarrow> nat \<Rightarrow> nat \<Rightarrow> u8 \<Rightarrow> u8 \<Rightarrow> f32 \<Rightarrow> status \<times> u8 list" where
  "fpc_sample_descriptor_patch source width height stride patch side source_span x y degrees =
     sample_descriptor_roi source width height stride patch side source_span x y degrees 0 0"

end
