(* ===== verification/Extract.thy ===== *)
theory Extract
  imports Ranking Orientation Masks Sampling
begin

text \<open>
  Feature extraction from a prepared image (\<^verbatim>\<open>fpc_recovered.c\<close>:
  \<^verbatim>\<open>fpc_extract_profile300_prepared\<close>): the composition of the Hessian planes, their scores, the
  maxima, the feature budget, the orientation field, the padded image and the descriptors. The
  output buffer and the number of valid entries are returned also when the call fails.
\<close>

record fpc_feature =
  ft_point :: fpc_keypoint
  ft_degrees :: f32
  ft_descriptor :: "u8 list"

text \<open>One pass of the descriptor loop: angle, patch and projection of one selected point.\<close>

definition describe_point :: "u8 list \<Rightarrow> u8 list \<Rightarrow> u16 list \<Rightarrow> fpc_keypoint \<Rightarrow> status + fpc_feature" where
  "describe_point field padded weights p =
     (case fpc_interpolate_orientation field 27 21 (8 + 16 * uint (kp_x p)) (8 + 16 * uint (kp_y p)) of
        Inl e \<Rightarrow> Inl e
      | Inr angle \<Rightarrow>
          let degrees = f_of_int (shift_floor (360 * angle) 9 + 180) in
          case sample_descriptor_roi padded 140 116 140 (replicate 256 0) 16 25 (kp_x p) (kp_y p) degrees
                 14 14 of
            (status, patch) \<Rightarrow>
              if status \<noteq> 0 then Inl status else
              case fpc_project_descriptor patch weights 16 of
                Inl e \<Rightarrow> Inl e
              | Inr d \<Rightarrow> Inr \<lparr>ft_point = p, ft_degrees = degrees, ft_descriptor = d\<rparr>)"

fun describe_points ::
    "(fpc_keypoint \<Rightarrow> status + fpc_feature) \<Rightarrow> fpc_keypoint list \<Rightarrow> nat \<Rightarrow> fpc_feature list
       \<Rightarrow> status \<times> fpc_feature list" where
  "describe_points describe [] i output = (0, output)"
| "describe_points describe (p # ps) i output =
     (case describe p of
        Inl e \<Rightarrow> (e, output)
      | Inr f \<Rightarrow> describe_points describe ps (i + 1) (output[i := f]))"

definition detect_profile300 ::
    "(nat \<Rightarrow> bool) \<Rightarrow> u8 list \<Rightarrow> nat \<Rightarrow> u8 list \<Rightarrow> nat \<Rightarrow> status + fpc_keypoint list" where
  "detect_profile300 al img stride msk mask_stride =
     (case fpc_hessian_planes al img 112 88 stride (F32 0x3FCCCCCD) of
        Inl e \<Rightarrow> Inl e
      | Inr (xx, yy, xy) \<Rightarrow>
          case fpc_harris_scores xx yy xy 9856 (F32 0x3D23D70A) (replicate 9856 0) of
            (status, scores) \<Rightarrow>
              if status \<noteq> 0 then Inl status else
              case fpc_select_float_maxima scores 112 88 112 msk mask_stride 4
                     (replicate 2048 \<lparr>kp_x = 0, kp_y = 0, kp_reserved = 0, kp_score = 0\<rparr>) of
                Inl e \<Rightarrow> Inl e
              | Inr (points, found) \<Rightarrow> Inr (take found points))"

definition fpc_extract_profile300_prepared ::
    "(nat \<Rightarrow> bool) \<Rightarrow> u8 list \<Rightarrow> nat \<Rightarrow> u8 list \<Rightarrow> nat \<Rightarrow> u16 list \<Rightarrow> fpc_feature list \<Rightarrow> nat
       \<Rightarrow> (status \<times> fpc_feature list \<times> nat) option" where
  "fpc_extract_profile300_prepared al img stride msk mask_stride weights output n =
     (if stride < 112 \<or> mask_stride < 112 \<or> SIZE_MAX div 88 < stride \<or> SIZE_MAX div 88 < mask_stride
         \<or> length weights \<noteq> 16384 \<or> length output < 300 then Some (- 1, output, n)
      else if \<not> al 59136 \<or> \<not> al 39424 \<or> \<not> al 16240 then Some (- 1, output, 0)
      else case detect_profile300 al img stride msk mask_stride of
             Inl e \<Rightarrow> Some (e, output, 0)
           | Inr detected \<Rightarrow>
               do { budget \<leftarrow> fpc_limit_feature_budget al detected
                      [\<lparr>fl_count = length detected, fl_scale_x_q14 = 16384, fl_scale_y_q14 = 16384,
                        fl_offset_x_q4 = 8, fl_offset_y_q4 = 8\<rparr>] 112 88 300 2048;
                    Some (case budget of
                        Inl e \<Rightarrow> (e, output, 0)
                      | Inr (kept, _) \<Rightarrow>
                          if kept = [] then (0, output, 0) else
                          case fpc_build_orientation_field al img 112 88 stride (replicate 567 0) of
                            (status1, field) \<Rightarrow>
                              if status1 \<noteq> 0 then (status1, output, 0) else
                              case fpc_pad_image_edges img 112 88 stride 14 (replicate 16240 0) 140 of
                                (status2, padded) \<Rightarrow>
                                  if status2 \<noteq> 0 then (status2, output, 0) else
                                  case describe_points (describe_point field padded weights) kept 0 output of
                                    (status3, output') \<Rightarrow>
                                      (status3, output', if status3 \<noteq> 0 then 0 else length kept)) })"

end
