(* ===== verification/Defects.thy ===== *)
theory Defects
  imports Float32
begin

text \<open>
  Defective and saturated pixels (\<^verbatim>\<open>fpc_recovered.c\<close>: \<^verbatim>\<open>fpc_classify_raw_pixels\<close>,
  \<^verbatim>\<open>defect_neighbor_sum\<close>, \<^verbatim>\<open>fpc_fill_saturated_pixels\<close>,
  \<^verbatim>\<open>correct_defective_pixels_mode\<close>, \<^verbatim>\<open>fpc_correct_defective_pixels\<close>,
  \<^verbatim>\<open>fpc_process_raw_pixel_defects\<close>). An image is a row-major list of floats; functions that
  change it in place return it, also when they fail.
\<close>

unbundle bit_operations_syntax

definition fpc_classify_raw_pixels ::
    "u8 list \<Rightarrow> nat \<Rightarrow> nat \<Rightarrow> nat \<Rightarrow> u16 list \<Rightarrow> u8 list \<Rightarrow> nat \<Rightarrow> status \<times> u8 list" where
  "fpc_classify_raw_pixels img width height image_stride defective_indices flags flags_stride =
     (if width = 0 \<or> height = 0 \<or> image_stride < width \<or> flags_stride < width
         \<or> SIZE_MAX div width < height \<or> SIZE_MAX div image_stride < height
         \<or> SIZE_MAX div flags_stride < height
         \<or> list_ex (\<lambda>i. width * height \<le> unat i) defective_indices then (- 1, flags)
      else let classified = fill_rows (\<lambda>y x. let pixel = img ! (y * image_stride + x)
                                          in if pixel = 0 then 1 else if pixel = 255 then 16 else 2)
                              width height flags_stride flags
           in (0, fold (\<lambda>i f. f[unat i div width * flags_stride + unat i mod width := 4])
                    defective_indices classified))"

definition defect_neighbor_sum ::
    "f32 list \<Rightarrow> nat \<Rightarrow> nat \<Rightarrow> bool list \<Rightarrow> nat \<Rightarrow> nat \<Rightarrow> nat \<times> f32" where
  "defect_neighbor_sum img width height excluded index radius =
     (let x = index mod width; y = index div width;
          x0 = (if radius < x then x - radius else 0);
          y0 = (if radius < y then y - radius else 0);
          x1 = (if x + radius < width then x + radius else width - 1);
          y1 = (if y + radius < height then y + radius else height - 1)
      in fold (\<lambda>(row, col) (n, acc).
                let at = row * width + col
                in if \<not> excluded ! at then (n + 1, img ! at + acc) else (n, acc))
           (raster y0 (y1 + 1) x0 (x1 + 1)) (0, 0))"

subsection \<open>Filling saturated pixels\<close>

definition fill_step ::
    "nat \<Rightarrow> nat \<Rightarrow> nat \<Rightarrow> nat \<Rightarrow> f32 list \<times> u8 list \<times> bool list \<Rightarrow> f32 list \<times> u8 list \<times> bool list" where
  "fill_step width height i window st =
     (case st of (img, working, excluded) \<Rightarrow>
        if working ! i = 8 then st
        else case defect_neighbor_sum img width height excluded i (window div 2) of
               (n, s) \<Rightarrow>
                 if n \<noteq> 0 \<and> (window \<noteq> 5 \<or> 5 < n)
                 then (img[i := s / f_of_int (int n)], working[i := 8], excluded[i := True])
                 else st)"

definition fpc_fill_saturated_pixels ::
    "(nat \<Rightarrow> bool) \<Rightarrow> f32 list \<Rightarrow> nat \<Rightarrow> nat \<Rightarrow> u8 list \<Rightarrow> u8 list \<Rightarrow> status \<times> f32 list \<times> u8 list" where
  "fpc_fill_saturated_pixels al img width height source_flags working_flags =
     (if width = 0 \<or> height = 0 \<or> SIZE_MAX div width < height then (- 1, img, working_flags)
      else if \<not> al (width * height) then (2, img, working_flags)
      else let excluded = map (\<lambda>i. (working_flags ! i) AND 2 = 0) [0..<width * height]
           in case fold (\<lambda>i st. if (source_flags ! i) AND 0x11 \<noteq> 0
                                 then fold (fill_step width height i) [3, 5] st else st)
                     [0..<width * height] (img, working_flags, excluded) of
                (img', working', _) \<Rightarrow> (0, img', working'))"

subsection \<open>Interpolating listed defects\<close>

definition mark_all :: "u16 list \<Rightarrow> nat \<Rightarrow> bool list" where
  "mark_all indices pixels = fold (\<lambda>i e. e[unat i := True]) indices (replicate pixels False)"

definition interior_index :: "nat \<Rightarrow> nat \<Rightarrow> nat \<Rightarrow> bool" where
  "interior_index width height i \<longleftrightarrow>
     1 < i mod width \<and> i mod width + 2 < width \<and> 1 < i div width \<and> i div width + 2 < height"

definition correct_step ::
    "nat \<Rightarrow> nat \<Rightarrow> u16 list \<Rightarrow> bool list \<Rightarrow> bool \<Rightarrow> nat \<Rightarrow> nat \<Rightarrow> f32 list \<times> u8 list \<Rightarrow> f32 list \<times> u8 list" where
  "correct_step width height indices excluded border window i st =
     (case st of (img, resolved) \<Rightarrow>
        let at = unat (indices ! i) in
        if resolved ! i \<noteq> 0 then st
        else if border \<and> interior_index width height at then st
        else case defect_neighbor_sum img width height excluded at (window div 2) of
               (n, s) \<Rightarrow>
                 if n \<noteq> 0 \<and> (border \<or> window \<noteq> 5 \<or> 5 < n)
                 then (img[at := s / f_of_int (int n)], resolved[i := 1]) else st)"

definition propagate_step ::
    "nat \<Rightarrow> nat \<Rightarrow> u16 list \<Rightarrow> bool list \<Rightarrow> nat \<Rightarrow> f32 list \<times> u8 list \<Rightarrow> f32 list \<times> u8 list" where
  "propagate_step width height indices excluded i st =
     (case st of (img, resolved) \<Rightarrow>
        let at = unat (indices ! i) in
        if resolved ! i \<noteq> 0 then st
        else case defect_neighbor_sum img width height excluded at 2 of
               (n, s) \<Rightarrow>
                 if 5 < n then (img[at := s / f_of_int (int n)], resolved[i := 255]) else st)"

fun propagate_passes ::
    "nat \<Rightarrow> nat \<Rightarrow> nat \<Rightarrow> u16 list \<Rightarrow> f32 list \<times> u8 list \<Rightarrow> f32 list \<times> u8 list" where
  "propagate_passes 0 width height indices st = st"
| "propagate_passes (Suc passes) width height indices st =
     (let resolved = snd st;
          open = filter (\<lambda>i. resolved ! i = 0) [0..<length indices]
      in if open = [] then st
         else let excluded = mark_all (map (\<lambda>i. indices ! i) open) (width * height)
              in case fold (propagate_step width height indices excluded) [0..<length indices] st of
                   (img, res) \<Rightarrow>
                     propagate_passes passes width height indices
                       (img, map (\<lambda>r. if r = 255 then 1 else r) res))"

definition correct_defective_pixels_mode ::
    "(nat \<Rightarrow> bool) \<Rightarrow> f32 list \<Rightarrow> nat \<Rightarrow> nat \<Rightarrow> u16 list \<Rightarrow> u16 \<Rightarrow> bool \<Rightarrow> nat \<Rightarrow> status \<times> f32 list" where
  "correct_defective_pixels_mode al img width height indices maximum_count require_all mode =
     (let n = length indices; pixels = width * height in
      if width = 0 \<or> height = 0 \<or> INT32_MAX < width \<or> INT32_MAX < height \<or> SIZE_MAX div width < height
         \<or> 65535 < n \<or> list_ex (\<lambda>i. pixels \<le> unat i) indices then (- 1, img)
      else if n = 0 then (0, img)
      else if require_all \<and> unat maximum_count < n then (1001, img)
      else if \<not> al pixels \<or> \<not> al n then (2, img)
      else let excluded = mark_all indices pixels;
               st0 = (img, replicate n 0);
               st1 = fold (\<lambda>window. fold (correct_step width height indices excluded False window) [0..<n])
                       [3, 5] st0;
               st2 = fold (\<lambda>window. fold (correct_step width height indices excluded True window) [0..<n])
                       [5, 7] st1;
               (img', resolved) =
                 (if mode = 4 then propagate_passes (unat maximum_count) width height indices st2 else st2)
           in (if require_all \<and> list_ex (\<lambda>i. resolved ! i = 0) [0..<n] then 1001 else 0, img'))"

definition fpc_correct_defective_pixels ::
    "(nat \<Rightarrow> bool) \<Rightarrow> f32 list \<Rightarrow> nat \<Rightarrow> nat \<Rightarrow> u16 list \<Rightarrow> u16 \<Rightarrow> bool \<Rightarrow> status \<times> f32 list" where
  "fpc_correct_defective_pixels al img width height indices maximum_count require_all =
     correct_defective_pixels_mode al img width height indices maximum_count require_all 0"

subsection \<open>Dispatch\<close>

definition force_saturated :: "u8 list \<Rightarrow> nat \<Rightarrow> f32 list \<Rightarrow> f32 list" where
  "force_saturated working pixels img =
     fold (\<lambda>i img. if (working ! i) AND 1 \<noteq> 0 then img[i := 0]
                   else if (working ! i) AND 16 \<noteq> 0 then img[i := (F32 0x437F0000)] else img)
       [0..<pixels] img"

text \<open>Flags are written by position in the list of defects, not by pixel.\<close>

definition flag_by_ordinal :: "u16 list \<Rightarrow> f32 list \<Rightarrow> u8 list \<Rightarrow> u8 list" where
  "flag_by_ordinal indices img working =
     fold (\<lambda>i w. let v = img ! unat (indices ! i)
                 in if \<not> 0 < v then w[i := 1] else if (F32 0x437F0000) \<le> v then w[i := 16] else w)
       [0..<length indices] working"

definition fpc_process_raw_pixel_defects ::
    "(nat \<Rightarrow> bool) \<Rightarrow> f32 list \<Rightarrow> u8 list option \<Rightarrow> nat \<Rightarrow> nat \<Rightarrow> u16 list \<Rightarrow> nat \<Rightarrow> u16 \<Rightarrow> bool
       \<Rightarrow> status \<times> f32 list \<times> u8 list option" where
  "fpc_process_raw_pixel_defects al img flags width height indices mode maximum_count require_all =
     (let n = length indices; pixels = width * height in
      if 4 < mode then (105, img, flags)
      else if width = 0 \<or> height = 0 \<or> SIZE_MAX div width < height \<or> 65535 < n
              \<or> list_ex (\<lambda>i. pixels \<le> unat i) indices then (- 1, img, flags)
      else if mode = 0 \<or> mode = 4 then
        (case correct_defective_pixels_mode al img width height indices maximum_count require_all mode of
           (status, img') \<Rightarrow> (status, img', flags))
      else case flags of
        None \<Rightarrow> (- 1, img, flags)
      | Some fl \<Rightarrow>
          if pixels < n then (- 1, img, flags)
          else if \<not> al pixels then (2, img, flags)
          else case fpc_fill_saturated_pixels al img width height fl (take pixels fl) of
            (status, img1, working1) \<Rightarrow>
              if status \<noteq> 0 then (status, img1, flags)
              else let img2 = (if mode \<le> 2 then force_saturated working1 pixels img1 else img1)
                   in case fpc_correct_defective_pixels al img2 width height indices maximum_count require_all of
                        (status, img3) \<Rightarrow>
                          if status \<noteq> 0 then (status, img3, flags)
                          else let working2 = flag_by_ordinal indices img3 working1;
                                   fl' = working2 @ drop pixels fl
                               in if mode = 1
                                  then (case fpc_fill_saturated_pixels al img3 width height fl'
                                               (replicate pixels 2) of
                                          (status, img4, _) \<Rightarrow> (status, img4, Some fl'))
                                  else (0, img3, Some fl'))"

end
