(* ===== verification/Prepare.thy ===== *)
theory Prepare
  imports Enhance Extract Defects
begin

text \<open>
  Preparation of a capture (\<^verbatim>\<open>profile300.c\<close>: \<^verbatim>\<open>morph\<close>, \<^verbatim>\<open>capture_mask\<close>,
  \<^verbatim>\<open>box15\<close>, \<^verbatim>\<open>fpc_profile300_frame_score\<close>, \<^verbatim>\<open>fpc_profile300_rank_frames\<close>,
  \<^verbatim>\<open>fpc_profile300_prepare\<close>). The morphology grid holds the bytes 0 and 1 only and is a list of
  booleans.
\<close>

unbundle bit_operations_syntax

subsection \<open>Morphology\<close>

text \<open>A three-cell window along a line of \<open>len\<close> cells; outside the line a cell is \<open>\<not> dilate\<close>.\<close>

definition morph_cell :: "bool \<Rightarrow> nat \<Rightarrow> (nat \<Rightarrow> bool) \<Rightarrow> nat \<Rightarrow> bool" where
  "morph_cell dilate len cell k =
     (let a = (if 0 < k then cell (k - 1) else \<not> dilate); b = (if k < len - 1 then cell (k + 1) else \<not> dilate)
      in if dilate then cell k \<or> a \<or> b else cell k \<and> a \<and> b)"

definition morph :: "bool \<Rightarrow> bool list \<Rightarrow> bool list" where
  "morph dilate grid =
     (let temporary = map (\<lambda>(y, x). morph_cell dilate 128 (\<lambda>k. grid ! (y * 128 + k)) x) (raster 0 100 0 128)
      in map (\<lambda>(y, x). morph_cell dilate 100 (\<lambda>k. temporary ! (k * 128 + x)) y) (raster 0 100 0 128))"

definition fill_span :: "bool list \<Rightarrow> bool list" where
  "fill_span line =
     (let hits = filter (\<lambda>i. line ! i) [0..<length line]
      in if hits = [] then line
         else map (\<lambda>i. line ! i \<or> (hd hits \<le> i \<and> i \<le> List.last hits)) [0..<length line])"

definition fill_columns :: "bool list \<Rightarrow> bool list" where
  "fill_columns grid =
     (let columns = map (\<lambda>x. fill_span (map (\<lambda>y. grid ! (y * 128 + x)) [0..<100])) [0..<128]
      in map (\<lambda>(y, x). columns ! x ! y) (raster 0 100 0 128))"

definition fill_lines :: "bool list \<Rightarrow> bool list" where
  "fill_lines grid = concat (map (\<lambda>y. fill_span (map (\<lambda>x. grid ! (y * 128 + x)) [0..<128])) [0..<100])"

definition mask_grid :: "u8 list \<Rightarrow> bool list" where
  "mask_grid msk =
     map (\<lambda>(y, x). 6 \<le> y \<and> y < 94 \<and> 6 \<le> x \<and> x < 118 \<and> msk ! ((y - 6) * 112 + (x - 6)) \<noteq> 0)
       (raster 0 100 0 128)"

definition set_border :: "bool list \<Rightarrow> bool list" where
  "set_border grid =
     map (\<lambda>(y, x). y < 6 \<or> 94 \<le> y \<or> x < 6 \<or> 118 \<le> x \<or> grid ! (y * 128 + x)) (raster 0 100 0 128)"

definition pack_bit :: "nat \<times> nat \<Rightarrow> u32 list \<Rightarrow> u32 list" where
  "pack_bit yx packed =
     (case yx of (y, x) \<Rightarrow>
        packed[y * 4 + x div 32 := (packed ! (y * 4 + x div 32)) OR push_bit (x mod 32) 1])"

text \<open>The number of valid pixels, the byte mask and the packed mask.\<close>

definition capture_mask :: "u8 list \<Rightarrow> u32 list \<Rightarrow> nat \<times> u8 list \<times> u32 list" where
  "capture_mask msk packed =
     (let closed = (morph False ^^ 5) ((morph True ^^ 5) (mask_grid msk));
          eroded = (morph False ^^ 10) (set_border (fill_lines (fill_columns closed)));
          valid = filter (\<lambda>(y, x). eroded ! ((y + 6) * 128 + x + 6)) (raster 0 88 0 112)
      in (length valid,
          map (\<lambda>(y, x). if eroded ! ((y + 6) * 128 + x + 6) then 255 else 0) (raster 0 88 0 112),
          fold pack_bit valid packed))"

subsection \<open>Contrast of a frame\<close>

text \<open>The sliding sums of fifteen samples: \<open>n\<close> further windows after the one that ends at \<open>x - 1\<close>.\<close>

fun slide_sums :: "(nat \<Rightarrow> u32) \<Rightarrow> nat \<Rightarrow> nat \<Rightarrow> u32 \<Rightarrow> u32 list" where
  "slide_sums f x 0 acc = [acc]"
| "slide_sums f x (Suc n) acc = acc # slide_sums f (x + 1) n (acc - f (x - 15) + f x)"

definition box_line :: "nat \<Rightarrow> (nat \<Rightarrow> u16) \<Rightarrow> u16 list" where
  "box_line len f =
     (let g = (\<lambda>i. ucast (f i) :: u32);
          sums = slide_sums g 15 (len - 15) (sum_list (map g [0..<15]));
          means = map (\<lambda>s. ucast (drop_bit 16 (s * 4369 + 32768)) :: u16) sums
      in replicate 7 (hd means) @ means @ replicate 7 (List.last means))"

definition box15 :: "u16 list \<Rightarrow> u16 list" where
  "box15 img =
     (let temporary = map (\<lambda>y. box_line 112 (\<lambda>x. img ! (y * 112 + x))) [0..<88];
          columns = map (\<lambda>x. box_line 88 (\<lambda>y. temporary ! y ! x)) [0..<112]
      in map (\<lambda>(y, x). columns ! x ! y) (raster 0 88 0 112))"

definition fpc_profile300_frame_score :: "(nat \<Rightarrow> bool) \<Rightarrow> u8 list \<Rightarrow> int" where
  "fpc_profile300_frame_score al pixels =
     (if length pixels \<noteq> 9856 \<or> \<not> al 19712 then - 1
      else let blurred = box15 (map (\<lambda>p. ucast p * 16) pixels);
               differences = map2 (\<lambda>b p. word_of_int \<bar>uint b - uint p * 16\<bar>) blurred pixels;
               contrast = length (filter (\<lambda>d. 208 < d) (box15 differences))
           in shift_floor (3072 * fpc_saturation_quality pixels
                             + 1024 * int (contrast * 1000 div 9856) + 2048) 12)"

subsection \<open>Ranking of frames\<close>

text \<open>Insertion of frame \<open>selected\<close> into the ranked prefix that ends before position \<open>j\<close>.\<close>

fun insert_frame :: "int list \<Rightarrow> nat \<Rightarrow> nat \<Rightarrow> nat list \<Rightarrow> nat list" where
  "insert_frame scores selected 0 order = order[0 := selected]"
| "insert_frame scores selected (Suc j) order =
     (if scores ! (order ! j) < scores ! selected
      then insert_frame scores selected j (order[Suc j := order ! j])
      else order[Suc j := selected])"

definition fpc_profile300_rank_frames :: "(nat \<Rightarrow> bool) \<Rightarrow> u8 list list \<Rightarrow> status + nat list" where
  "fpc_profile300_rank_frames al frames =
     (if frames = [] \<or> 5 < length frames then Inl (- 1)
      else let scores = map (fpc_profile300_frame_score al) frames in
        if list_ex (\<lambda>s. s < 0) scores then Inl (- 1)
        else Inr (fold (\<lambda>i order. insert_frame scores (order ! i) i order)
                   [1..<length frames] [0..<length frames]))"

subsection \<open>Preparation\<close>

record fpc_prepared_capture =
  pc_pixels :: "u8 list"
  pc_mask :: "u8 list"
  pc_packed_mask :: "u32 list"
  pc_prepared_mask :: "u32 list"
  pc_filter_reason :: int
  pc_quality :: int
  pc_confidence :: int
  pc_coverage :: int
  pc_is_finger :: bool
  pc_features :: "fpc_feature list"
  pc_feature_count :: nat

record profile_tables =
  pt_descriptor_weights :: "u16 list"
  pt_quality_projection :: "f32 list"
  pt_correction_projection :: "f32 list"
  pt_enhancement :: "f32 list"

definition blank_feature :: fpc_feature where
  "blank_feature =
     \<lparr>ft_point = \<lparr>kp_x = 0, kp_y = 0, kp_reserved = 0, kp_score = 0\<rparr>, ft_degrees = 0,
      ft_descriptor = replicate 16 0\<rparr>"

definition enhanced_image :: "profile_tables \<Rightarrow> u8 list \<Rightarrow> f32 list \<Rightarrow> int \<times> u16 list" where
  "enhanced_image tables flags working =
     (case correct_projection (pt_quality_projection tables) (pt_correction_projection tables)
             (map q6 working) of
        (reason, corrected) \<Rightarrow>
          (reason, normalize (enhance (pt_enhancement tables) (normalize corrected flags False)) flags True))"

definition coverage_percent :: "nat \<Rightarrow> int" where
  "coverage_percent valid =
     f_to_i32 ((f_of_int (int valid) * (F32 0x42C80000)) / f_of_int 9856 + (F32 0x3F000000))"

text \<open>The image, masks and reason of a capture, before its quality fields and features are known.\<close>

definition masked_capture :: "int \<Rightarrow> u16 list \<Rightarrow> u8 list \<Rightarrow> nat \<times> fpc_prepared_capture" where
  "masked_capture reason img flags =
     (let prepared = filter (\<lambda>(y, x). usable flags (y * 112 + x)) (raster 0 88 0 112);
          usable_mask = map (\<lambda>i. if usable flags i then 255 else 0) [0..<9856];
          (valid, msk, packed) = capture_mask usable_mask (replicate 352 0)
      in (valid,
          \<lparr>pc_pixels = map (\<lambda>v. word_of_int (shift_floor (sint v + 32) 6)) img, pc_mask = msk,
           pc_packed_mask = packed, pc_prepared_mask = fold pack_bit prepared (replicate 352 0),
           pc_filter_reason = reason, pc_quality = 100, pc_confidence = 0, pc_coverage = 0,
           pc_is_finger = False, pc_features = replicate 300 blank_feature, pc_feature_count = 0\<rparr>))"

definition describe_capture ::
    "(nat \<Rightarrow> bool) \<Rightarrow> profile_tables \<Rightarrow> nat \<Rightarrow> u8 list \<Rightarrow> fpc_prepared_capture
       \<Rightarrow> (status \<times> fpc_prepared_capture) option" where
  "describe_capture al tables valid confidence capture =
     (let msk = pc_mask capture;
          acc = sum_list (map (\<lambda>i. unat (confidence ! i)) (filter (\<lambda>i. msk ! i \<noteq> 0) [0..<9856]));
          confident = int (acc div (valid + 1)); covered = coverage_percent valid;
          capture' = capture\<lparr>pc_confidence := confident, pc_coverage := covered,
                             pc_is_finger := 20 \<le> confident \<and> 30 \<le> covered\<rparr>
      in do { (status, features, n) \<leftarrow> fpc_extract_profile300_prepared al (pc_pixels capture) 112 msk 112
                 (pt_descriptor_weights tables) (pc_features capture) 0;
              Some (status, capture'\<lparr>pc_features := features, pc_feature_count := n\<rparr>) })"

definition fpc_profile300_prepare ::
    "(nat \<Rightarrow> bool) \<Rightarrow> profile_tables \<Rightarrow> u8 list \<Rightarrow> u16 list \<Rightarrow> fpc_prepared_capture
       \<Rightarrow> (status \<times> fpc_prepared_capture) option" where
  "fpc_profile300_prepare al tables pixels dead output =
     (if length pixels \<noteq> 9856 \<or> 560 < length dead then Some (- 1, output)
      else if \<not> al 39424 \<or> \<not> al 65536 \<or> \<not> al 19712 \<or> \<not> al 9856 then Some (2, output)
      else case fpc_classify_raw_pixels pixels 112 88 112 dead (replicate 9856 0) 112 of
             (status1, flags) \<Rightarrow>
               if status1 \<noteq> 0 then Some (status1, output) else
               case fpc_process_raw_pixel_defects al (map (\<lambda>p. f_of_int (uint p)) pixels) (Some flags)
                      112 88 dead 0 560 True of
                 (status2, working, _) \<Rightarrow>
                   if status2 \<noteq> 0 then Some (status2, output) else
                   case enhanced_image tables flags working of
                     (reason, img) \<Rightarrow>
                       case masked_capture reason img flags of
                         (valid, capture) \<Rightarrow>
                           case fpc_hessian_orientation al (pc_pixels capture) 112 88 112 1 0 of
                             Inl e \<Rightarrow> Some (e, capture)
                           | Inr (_, confidence) \<Rightarrow> describe_capture al tables valid confidence capture)"

subsection \<open>The sliding window\<close>

definition window :: "(nat \<Rightarrow> u32) \<Rightarrow> nat \<Rightarrow> u32" where
  "window f a = sum_list (map f [a..<a + 15])"

lemma window_slide: "window f a - f a + f (a + 15) = window f (a + 1)"
proof -
  have "[a..<a + 15] = a # [a + 1..<a + 15]" by (simp add: upt_rec)
  moreover have "[a + 1..<a + 1 + 15] = [a + 1..<a + 15] @ [a + 15]" by (simp add: upt_rec)
  ultimately show ?thesis by (simp add: window_def)
qed

lemma slide_sums_windows: "slide_sums f (a + 15) n (window f a) = map (\<lambda>k. window f (a + k)) [0..<n + 1]"
proof (induction n arbitrary: a)
  case (Suc n)
  have "slide_sums f (a + 15) (Suc n) (window f a) = window f a # slide_sums f (a + 1 + 15) n (window f (a + 1))"
    by (simp add: window_slide)
  also have "\<dots> = window f a # map (\<lambda>k. window f (a + 1 + k)) [0..<n + 1]" by (simp only: Suc.IH)
  also have "\<dots> = map (\<lambda>k. window f (a + k)) [0..<Suc n + 1]"
    by (simp add: upt_conv_Cons map_Suc_upt [symmetric] comp_def del: upt_Suc)
  finally show ?case .
qed simp

definition window_mean :: "(nat \<Rightarrow> u16) \<Rightarrow> nat \<Rightarrow> u16" where
  "window_mean f a = ucast (drop_bit 16 (window (\<lambda>i. ucast (f i)) a * 4369 + 32768))"

text \<open>Where the window of position \<open>i\<close> starts: seven before it, kept inside the line.\<close>

definition window_start :: "nat \<Rightarrow> nat \<Rightarrow> nat" where
  "window_start len i = min (i - 7) (len - 15)"

lemma box_line_windows:
  assumes "15 \<le> len"
  shows "box_line len f = map (\<lambda>i. window_mean f (window_start len i)) [0..<len]"
proof -
  have g: "sum_list (map (\<lambda>i. ucast (f i) :: u32) [0..<15]) = window (\<lambda>i. ucast (f i)) 0" by (simp add: window_def)
  have b: "box_line len f = replicate 7 (window_mean f 0) @ map (window_mean f) [0..<len - 14] @ replicate 7 (window_mean f (len - 15))"
  proof -
    have m: "map (\<lambda>s. ucast (drop_bit 16 (s * 4369 + 32768)) :: u16)
        (slide_sums (\<lambda>i. ucast (f i)) 15 (len - 15) (window (\<lambda>i. ucast (f i)) 0)) = map (window_mean f) [0..<len - 14]"
    proof -
      have "len - 15 + 1 = len - 14" using assms by linarith
      with slide_sums_windows [of "\<lambda>i. ucast (f i)" 0 "len - 15"]
      have "slide_sums (\<lambda>i. ucast (f i)) 15 (len - 15) (window (\<lambda>i. ucast (f i)) 0)
          = map (\<lambda>k. window (\<lambda>i. ucast (f i)) k) [0..<len - 14]"
        by (simp only: add_0)
      then show ?thesis by (simp add: window_mean_def comp_def)
    qed
    have "hd (map (window_mean f) [0..<len - 14]) = window_mean f 0"
      "List.last (map (window_mean f) [0..<len - 14]) = window_mean f (len - 15)"
      using assms by (simp_all add: hd_map last_map)
    then show ?thesis unfolding box_line_def Let_def g m by simp
  qed
  show ?thesis
  proof (rule nth_equalityI)
    show "length (box_line len f) = length (map (\<lambda>i. window_mean f (window_start len i)) [0..<len])"
      using assms by (simp add: b)
    fix i assume "i < length (box_line len f)"
    then have i: "i < len" using assms by (simp add: b)
    consider "i < 7" | "7 \<le> i" "i < len - 7" | "len - 7 \<le> i" by linarith
    then show "box_line len f ! i = map (\<lambda>i. window_mean f (window_start len i)) [0..<len] ! i"
    proof cases
      case 1
      with i assms show ?thesis by (simp add: b nth_append window_start_def)
    next
      case 2
      then have "i - 7 < len - 14" "min (i - 7) (len - 15) = i - 7" by auto
      with 2 i assms show ?thesis by (simp add: b nth_append window_start_def)
    next
      case 3
      then have "len - 14 \<le> i - 7" "min (i - 7) (len - 15) = len - 15" "7 \<le> i" using assms by auto
      with 3 i assms show ?thesis by (simp add: b nth_append window_start_def)
    qed
  qed
qed

lemma window_value:
  assumes "\<And>i. unat (f i) \<le> 4080"
  shows "unat (window (\<lambda>i. ucast (f i)) a) = (\<Sum>i\<leftarrow>[a..<a + 15]. unat (f i))"
    "(\<Sum>i\<leftarrow>[a..<a + 15]. unat (f i)) \<le> 61200"
proof -
  have "(\<Sum>i\<leftarrow>xs. unat (f i)) \<le> length xs * 4080" for xs
    using assms by (induction xs) (auto simp: add_mono)
  from this [of "[a..<a + 15]"] show le: "(\<Sum>i\<leftarrow>[a..<a + 15]. unat (f i)) \<le> 61200" by simp
  have "sum_list (map (\<lambda>i. ucast (f i) :: u32) xs) = of_nat (\<Sum>i\<leftarrow>xs. unat (f i))" for xs
    by (induction xs) (simp_all add: unsigned_ucast_eq)
  with le show "unat (window (\<lambda>i. ucast (f i)) a) = (\<Sum>i\<leftarrow>[a..<a + 15]. unat (f i))"
    by (simp add: window_def unat_of_nat take_bit_nat_eq_self)
qed

lemma window_mean_value:
  fixes a :: nat
  assumes "\<And>i. unat (f i) \<le> 4080"
  defines "t \<equiv> (\<Sum>i\<leftarrow>[a..<a + 15]. unat (f i))"
  shows "unat (window_mean f a) = (t * 4369 + 32768) div 65536" "\<bar>15 * int (unat (window_mean f a)) - int t\<bar> \<le> 8"
proof -
  note w = window_value [where f = f and a = a, OF assms(1), folded t_def]
  have u: "unat (window (\<lambda>i. ucast (f i)) a * 4369 + 32768) = t * 4369 + 32768"
    using w by (simp add: unat_word_ariths take_bit_nat_eq_self)
  have "unat (drop_bit 16 (window (\<lambda>i. ucast (f i)) a * 4369 + 32768)) = (t * 4369 + 32768) div 65536"
    by (subst drop_bit_eq_div, subst unat_div, subst u) simp
  moreover have "(t * 4369 + 32768) div 65536 \<le> 65535" using w(2) by linarith
  ultimately show v: "unat (window_mean f a) = (t * 4369 + 32768) div 65536"
    by (simp add: window_mean_def unsigned_ucast_eq take_bit_nat_eq_self)
  define q where "q = (t * 4369 + 32768) div 65536"
  have "65536 * q \<le> t * 4369 + 32768" "t * 4369 + 32768 < 65536 * q + 65536" unfolding q_def by linarith+
  then have "15 * q \<le> t + 8" "t \<le> 15 * q + 8" using w(2) by linarith+
  then show "\<bar>15 * int (unat (window_mean f a)) - int t\<bar> \<le> 8" unfolding v q_def [symmetric] by linarith
qed

text \<open>One line of the box filter equals direct averaging: for samples of at most 4080, as
  the frames have, the sliding 32-bit sums never wrap around, every output is the 16-bit rounding of
  the mean of the fifteen samples around its position, with the window kept inside the line, and it is
  within eight fifteenths of that mean.\<close>

theorem box_line_mean:
  assumes "15 \<le> len" "\<And>i. unat (f i) \<le> 4080" "i < len"
  defines "t \<equiv> (\<Sum>k\<leftarrow>[min (i - 7) (len - 15)..<min (i - 7) (len - 15) + 15]. unat (f k))"
  shows "length (box_line len f) = len \<and> unat (box_line len f ! i) = (t * 4369 + 32768) div 65536
    \<and> \<bar>15 * int (unat (box_line len f ! i)) - int t\<bar> \<le> 8"
proof -
  have n: "box_line len f ! i = window_mean f (min (i - 7) (len - 15))" "length (box_line len f) = len"
    unfolding box_line_windows [OF assms(1)] window_start_def using assms(3) by simp_all
  show ?thesis
    unfolding n using window_mean_value [where f = f and a = "min (i - 7) (len - 15)", OF assms(2), folded t_def] by simp
qed

theorem box_line_mean_witness:
  "length (box_line 112 (\<lambda>i. 16 * (of_nat i AND 1))) = 112
   \<and> \<bar>15 * int (unat (box_line 112 (\<lambda>i. 16 * (of_nat i AND 1)) ! 3)) - 112\<bar> \<le> 8"
proof -
  have "unat (16 * (of_nat i AND 1) :: u16) \<le> 4080" for i
    by (simp add: and_one_eq mod_2_eq_odd)
  from box_line_mean [where len = 112 and f = "\<lambda>i. 16 * (of_nat i AND 1)" and i = 3, OF _ this] show ?thesis
    by (simp add: upt_rec)
qed

subsection \<open>The ranking is a stable sort\<close>

lemma insert_frame_sorted:
  assumes "length order = n" "k \<le> j" "j < n" "\<forall>i < j. order ! i = ps ! i" "length ps = j"
    "\<forall>i < length ps. scores ! (ps ! i) \<ge> scores ! selected \<longleftrightarrow> i < k"
  shows "insert_frame scores selected j order
    = take k ps @ selected # drop k ps @ drop (Suc j) order"
  using assms
proof (induction j arbitrary: order ps)
  case 0
  then show ?case by (cases order) auto
next
  case (Suc j)
  obtain qs q where ps: "ps = qs @ [q]" "length qs = j" using Suc.prems(5) by (metis length_Suc_conv_rev)
  have q: "order ! j = q" using Suc.prems(4) ps by (simp add: nth_append)
  have d: "drop (Suc j) (order[Suc j := x]) = x # drop (Suc (Suc j)) order" for x
    using Suc.prems(1,3) by (simp add: Cons_nth_drop_Suc [symmetric])
  show ?case
  proof (cases "scores ! q < scores ! selected")
    case True
    then have "\<not> j < k" using Suc.prems(6) ps by (auto simp: nth_append)
    then have "k \<le> j" by simp
    have "insert_frame scores selected (Suc j) order = insert_frame scores selected j (order[Suc j := q])"
      by (simp add: q True)
    also have "\<dots> = take k qs @ selected # drop k qs @ drop (Suc j) (order[Suc j := q])"
    proof (rule Suc.IH)
      have p: "ps ! i = qs ! i" if "i < j" for i using that ps by (simp add: nth_append)
      show "\<forall>i<length qs. scores ! selected \<le> scores ! (qs ! i) \<longleftrightarrow> i < k"
        using Suc.prems(5,6) p ps(2) by (metis less_SucI)
      show "\<forall>i<j. order[Suc j := q] ! i = qs ! i"
        using Suc.prems(4) p by simp
    qed (use Suc.prems ps \<open>k \<le> j\<close> in auto)
    finally show ?thesis using \<open>k \<le> j\<close> ps by (simp add: d)
  next
    case False
    then have "j < k" using Suc.prems(5,6) ps by (auto simp: nth_append)
    then have "k = Suc j" using Suc.prems(2) by simp
    have "insert_frame scores selected (Suc j) order = order[Suc j := selected]" by (simp add: q False)
    also have "\<dots> = take (Suc j) order @ selected # drop (Suc (Suc j)) order"
      using Suc.prems(3,1) by (simp add: upd_conv_take_nth_drop)
    also have "take (Suc j) order = ps" using Suc.prems(1,3,4,5) by (intro nth_equalityI) auto
    finally show ?thesis using \<open>k = Suc j\<close> Suc.prems(5) by simp
  qed
qed

lemma sort_key_snoc:
  assumes "ps = sort_key f xs" "k \<le> length ps" "\<forall>i < length ps. f (ps ! i) \<le> f x \<longleftrightarrow> i < k"
  shows "sort_key f (xs @ [x]) = take k ps @ x # drop k ps"
proof (rule properties_for_sort_key)
  have s: "sorted (map f ps)" by (simp add: assms(1))
  have l: "f y \<le> f x" if "y \<in> set (take k ps)" for y
    using that assms(2,3) by (auto simp: in_set_conv_nth)
  have g: "f x < f y" if "y \<in> set (drop k ps)" for y
    using that assms(2,3) by (auto simp: in_set_conv_nth not_le [symmetric])
  have "mset ps = mset (take k ps) + mset (drop k ps)" by (metis append_take_drop_id mset_append)
  then show "mset (take k ps @ x # drop k ps) = mset (xs @ [x])" by (simp add: assms(1))
  have "sorted (map f (take k ps) @ map f (drop k ps))"
    using s by (metis append_take_drop_id map_append)
  then show "sorted (map f (take k ps @ x # drop k ps))"
    using l g by (auto simp: sorted_append less_imp_le)
  fix y assume "y \<in> set (take k ps @ x # drop k ps)"
  have st: "filter (\<lambda>z. f y = f z) ps = filter (\<lambda>z. f y = f z) xs"
    unfolding assms(1) using sort_key_stable [of f "f y" xs] by (simp add: eq_commute)
  have sp: "filter (\<lambda>z. f y = f z) ps = filter (\<lambda>z. f y = f z) (take k ps) @ filter (\<lambda>z. f y = f z) (drop k ps)"
    by (metis append_take_drop_id filter_append)
  have "filter (\<lambda>z. f y = f z) (drop k ps) = []" if "f y = f x" using g that by (fastforce simp: filter_empty_conv)
  with sp show "filter (\<lambda>z. f y = f z) (take k ps @ x # drop k ps) = filter (\<lambda>z. f y = f z) (xs @ [x])"
    by (simp add: st [symmetric])
qed

lemma sorted_split:
  assumes "sorted (map f ps)"
  obtains k where "k \<le> length ps" "\<forall>i < length ps. f (ps ! i) \<le> c \<longleftrightarrow> i < k"
proof
  show "length (takeWhile (\<lambda>y. f y \<le> c) ps) \<le> length ps" by (rule length_takeWhile_le)
  show "\<forall>i < length ps. f (ps ! i) \<le> c \<longleftrightarrow> i < length (takeWhile (\<lambda>y. f y \<le> c) ps)"
  proof (intro allI impI iffI)
    fix i assume i: "i < length ps" "f (ps ! i) \<le> c"
    show "i < length (takeWhile (\<lambda>y. f y \<le> c) ps)"
    proof (rule ccontr)
      let ?n = "length (takeWhile (\<lambda>y. f y \<le> c) ps)"
      assume "\<not> i < ?n"
      then have "?n \<le> i" by simp
      with i have "?n < length ps" by simp
      then have "\<not> f (ps ! ?n) \<le> c" by (rule nth_length_takeWhile)
      moreover have "f (ps ! ?n) \<le> f (ps ! i)"
        using assms \<open>?n \<le> i\<close> i(1) by (simp add: sorted_iff_nth_mono)
      ultimately show False using i(2) by simp
    qed
  next
    fix i assume "i < length (takeWhile (\<lambda>y. f y \<le> c) ps)"
    then show "f (ps ! i) \<le> c" by (metis nth_mem set_takeWhileD takeWhile_nth)
  qed
qed

lemma rank_prefix:
  assumes "j \<le> n" "0 < j"
  shows "fold (\<lambda>i order. insert_frame scores (order ! i) i order) [1..<j] [0..<n]
    = sort_key (\<lambda>i. - scores ! i) [0..<j] @ [j..<n]"
  using assms(2,1)
proof (induction j rule: nat_induct_non_zero)
  case 1
  then show ?case by (simp add: upt_conv_Cons)
next
  case (Suc j)
  let ?f = "\<lambda>i. - (scores ! i) :: int" and ?o = "sort_key (\<lambda>i. - scores ! i) [0..<j] @ [j..<n]"
  obtain k where k: "k \<le> length (sort_key ?f [0..<j])"
      "\<forall>i < length (sort_key ?f [0..<j]). ?f (sort_key ?f [0..<j] ! i) \<le> ?f j \<longleftrightarrow> i < k"
    using sorted_split [of ?f "sort_key ?f [0..<j]" "?f j"] by auto
  have "fold (\<lambda>i order. insert_frame scores (order ! i) i order) [1..<Suc j] [0..<n]
      = insert_frame scores (?o ! j) j ?o"
    using Suc by simp
  also have "?o ! j = j" using Suc.prems by (simp add: nth_append)
  also have "insert_frame scores j j ?o = take k (sort_key ?f [0..<j]) @ j # drop k (sort_key ?f [0..<j]) @ drop (Suc j) ?o"
    using k Suc.prems by (intro insert_frame_sorted [where n = n]) (auto simp: nth_append)
  also have "drop (Suc j) ?o = [Suc j..<n]" by simp
  also have "take k (sort_key ?f [0..<j]) @ j # drop k (sort_key ?f [0..<j]) @ [Suc j..<n]
      = sort_key ?f [0..<Suc j] @ [Suc j..<n]"
    using sort_key_snoc [OF refl k] by simp
  finally show ?case .
qed

text \<open>Frames are ranked by a stable descending sort of their scores: the call is refused
  exactly for no frames, for more than five and when a frame has no score; otherwise the order is
  the stable sort of the frame numbers, so that of equally good frames the earlier one is used.\<close>

theorem rank_frames_stable_sort:
  "fpc_profile300_rank_frames al frames =
     (let scores = map (fpc_profile300_frame_score al) frames
      in if 1 \<le> length frames \<and> length frames \<le> 5 \<and> list_all (\<lambda>s. 0 \<le> s) scores
         then Inr (sort_key (\<lambda>i. - scores ! i) [0..<length frames]) else Inl (- 1))"
proof (cases "1 \<le> length frames \<and> length frames \<le> 5")
  case True
  then have "frames \<noteq> []" by auto
  have e: "list_ex (\<lambda>s. s < 0) scores \<longleftrightarrow> \<not> list_all (\<lambda>s. 0 \<le> s) scores" for scores :: "int list"
    by (induction scores) (auto simp: not_le)
  show ?thesis
    using True \<open>frames \<noteq> []\<close> rank_prefix [of "length frames" "length frames" "map (fpc_profile300_frame_score al) frames"]
    by (simp add: fpc_profile300_rank_frames_def Let_def e)
next
  case False
  then show ?thesis by (cases frames) (auto simp: fpc_profile300_rank_frames_def Let_def)
qed

end
