(* ===== verification/Geometry.thy ===== *)
theory Geometry
  imports PairPayload Filters
begin

text \<open>
  Geometric verification of candidate pairs (\<^verbatim>\<open>fpc_recovered.c\<close>:
  \<^verbatim>\<open>fpc_fit_similarity_pair\<close>, \<^verbatim>\<open>fpc_sample_geometry_pairs\<close>,
  \<^verbatim>\<open>fpc_similarity_error\<close>, \<^verbatim>\<open>fpc_verify_geometry_profile300\<close>). Coordinates and
  transform entries are the bit patterns of signed 16-bit values. The search loop runs on fuel:
  its bound is rewritten inside the loop, but never above 10000.
\<close>

unbundle bit_operations_syntax

record fpc_match_coordinates =
  mc_x :: u16
  mc_y :: u16
  mc_target_x :: u16
  mc_target_y :: u16

record fpc_geometry_result =
  gr_transform :: "u16 list"
  gr_inliers :: int
  gr_spatial_inliers :: int
  gr_success :: u8
  gr_low_movement :: u8

subsection \<open>The similarity of two correspondences\<close>

definition square_norm :: "int \<Rightarrow> int \<Rightarrow> u32" where
  "square_norm dx dy = word_of_int dx * word_of_int dx + word_of_int dy * word_of_int dy"

definition fpc_fit_similarity_pair ::
    "fpc_match_coordinates \<Rightarrow> fpc_match_coordinates \<Rightarrow> u16 list option" where
  "fpc_fit_similarity_pair a b =
     (let dx = sint (mc_x b) - sint (mc_x a); dy = sint (mc_y b) - sint (mc_y a);
          ex = sint (mc_target_x b) - sint (mc_target_x a); ey = sint (mc_target_y b) - sint (mc_target_y a);
          norm = square_norm dx dy in
      if norm = 0 then None else
      let leading = leading_zeros norm 32;
          shift = (leading + 31) mod 32;
          divisor = shift_floor (signed_u32 (push_bit shift norm)) 14 in
      if divisor = 0 then None else
      let dot = word_of_int dx * word_of_int ex + word_of_int dy * word_of_int ey :: u32;
          crs = word_of_int dx * word_of_int ey - word_of_int dy * word_of_int ex :: u32;
          rounding = word_of_int (shift_floor divisor 1) :: u32;
          c = signed_u32 (push_bit shift dot + rounding) sdiv divisor;
          s = signed_u32 (push_bit shift crs + rounding) sdiv divisor in
      if c < - 2147483648 \<or> 2147483647 < c \<or> s < - 2147483648 \<or> 2147483647 < s then None else
      let sx = word_of_int (sint (mc_x a) + sint (mc_x b)) :: u32;
          sy = word_of_int (sint (mc_y a) + sint (mc_y b)) :: u32;
          tx = push_bit 14 (word_of_int (sint (mc_target_x a) + sint (mc_target_x b) + 1))
                 - sx * word_of_int c + sy * word_of_int s;
          ty = push_bit 14 (word_of_int (sint (mc_target_y a) + sint (mc_target_y b) + 1))
                 - sx * word_of_int s - sy * word_of_int c
      in Some [word_of_int c, word_of_int s, word_of_int (shift_floor (signed_u32 tx) 15),
               word_of_int (shift_floor (signed_u32 ty) 15)])"

definition fpc_similarity_error :: "fpc_match_coordinates \<Rightarrow> u16 list \<Rightarrow> u32" where
  "fpc_similarity_error p t =
     (let w = (\<lambda>v :: u16. word_of_int (sint v) :: u32);
          x = w (mc_x p); y = w (mc_y p); c = w (t ! 0); s = w (t ! 1);
          vx = x * c - y * s + push_bit 14 (w (t ! 2)) - push_bit 14 (w (mc_target_x p));
          vy = y * c + x * s + push_bit 14 (w (t ! 3)) - push_bit 14 (w (mc_target_y p));
          dx = word_of_int (shift_floor (signed_u32 vx) 14); dy = word_of_int (shift_floor (signed_u32 vy) 14)
      in dx * dx + dy * dy)"

subsection \<open>Sampling of correspondence pairs\<close>

text \<open>One batch of eight index pairs and the advance of the two-word state.\<close>

definition spread_word :: "u32 \<Rightarrow> u32" where
  "spread_word a = a OR push_bit 18 ((a XOR push_bit 5 a) AND 0x1FE0)"

definition sample_batch :: "nat \<Rightarrow> u32 \<times> u32 \<Rightarrow> (nat \<times> nat) list \<times> u32 \<times> u32" where
  "sample_batch n state =
     (let a = spread_word (fst state); b = spread_word (snd state);
          index = (\<lambda>w k. n * unat (ucast (drop_bit k w) :: u16) div 65536)
      in (map (\<lambda>k. (index a k, index b k)) [1..<9], drop_bit 8 a, drop_bit 8 b))"

definition pair_is_valid :: "fpc_match_coordinates list \<Rightarrow> nat \<Rightarrow> nat \<times> nat \<Rightarrow> bool" where
  "pair_is_valid points tolerance_shift ij =
     (let a = points ! fst ij; b = points ! snd ij;
          n = signed_u32 (square_norm (sint (mc_x b) - sint (mc_x a)) (sint (mc_y b) - sint (mc_y a)));
          m = signed_u32 (square_norm (sint (mc_target_x b) - sint (mc_target_x a))
                            (sint (mc_target_y b) - sint (mc_target_y a)));
          tolerance = shift_floor n (tolerance_shift mod 32);
          low = signed_u32 (word_of_int n - word_of_int tolerance);
          high = signed_u32 (word_of_int n + word_of_int tolerance)
      in 256 < n \<and> low < m \<and> m < high)"

definition fpc_sample_geometry_pairs ::
    "fpc_match_coordinates list \<Rightarrow> u32 \<times> u32 \<Rightarrow> nat
       \<Rightarrow> ((nat \<times> nat) list \<times> bool list \<times> u32 \<times> u32) option" where
  "fpc_sample_geometry_pairs points state tolerance_shift =
     (if points = [] \<or> 32767 < length points then None
      else case sample_batch (length points) state of
             (first, state1) \<Rightarrow> case sample_batch (length points) state1 of
               (second, state2) \<Rightarrow>
                 Some (first @ second, map (pair_is_valid points tolerance_shift) (first @ second), state2))"

subsection \<open>The consensus search\<close>

definition limits :: "nat list" where
  "limits = [0x3334, 0x8000, 0x5DC0, 0x44C0, 0x3334, 0x2148, 0x1917, 0x13B7,
             0x0EDA, 0x0C09, 0x0979, 0x072C, 0x0419, 0x0290, 0x018A, 0x0107]"

definition iteration_quota :: "nat \<Rightarrow> nat" where
  "iteration_quota i = 10000 * (limits ! i) div 32768"

record geometry_search =
  gs_state :: "u32 \<times> u32"
  gs_indices :: "(nat \<times> nat) list"
  gs_valid :: "bool list"
  gs_best :: int
  gs_transform :: "u16 list"
  gs_limit :: int
  gs_accepted :: int
  gs_progress :: int

definition is_inlier :: "u16 list \<Rightarrow> fpc_match_coordinates \<Rightarrow> bool" where
  "is_inlier t p \<longleftrightarrow> signed_u32 (fpc_similarity_error p t) < 768"

definition inlier_count :: "fpc_match_coordinates list \<Rightarrow> u16 list \<Rightarrow> int" where
  "inlier_count points t = int (length (filter (is_inlier t) points))"

definition inlier_bucket :: "nat \<Rightarrow> int \<Rightarrow> nat" where
  "inlier_bucket n inliers =
     (let bucket = shift_floor (inliers * int (32768 div n)) 10
      in nat (if 15 < bucket then 15 else bucket))"

text \<open>A new batch every sixteen iterations.\<close>

definition refill :: "fpc_match_coordinates list \<Rightarrow> int \<Rightarrow> geometry_search \<Rightarrow> geometry_search option" where
  "refill points iteration st =
     (if iteration mod 16 \<noteq> 0 then Some st
      else map_option (\<lambda>(indices, valid, state). st\<lparr>gs_indices := indices, gs_valid := valid, gs_state := state\<rparr>)
             (fpc_sample_geometry_pairs points (gs_state st) 3))"

definition adopt :: "nat \<Rightarrow> u16 list \<Rightarrow> int \<Rightarrow> geometry_search \<Rightarrow> geometry_search" where
  "adopt n t inliers st =
     (if gs_best st < inliers
      then st\<lparr>gs_best := inliers, gs_transform := t,
              gs_limit := int (iteration_quota (inlier_bucket n inliers))\<rparr>
      else st)"

definition search_step ::
    "fpc_match_coordinates list \<Rightarrow> int \<Rightarrow> geometry_search \<Rightarrow> geometry_search option" where
  "search_step points iteration st0 =
     do { st \<leftarrow> refill points iteration st0;
          let slot = nat (iteration mod 16);
          st' \<leftarrow> (if gs_valid st ! slot then
                    do { t \<leftarrow> fpc_fit_similarity_pair (points ! fst (gs_indices st ! slot))
                                 (points ! snd (gs_indices st ! slot));
                         let st1 = st\<lparr>gs_accepted := gs_accepted st + 32768\<rparr>;
                         Some (if 1500 < iteration \<and> gs_accepted st1 < gs_progress st1
                               then st1\<lparr>gs_limit := iteration\<rparr>
                               else adopt (length points) t (inlier_count points t) st1) }
                  else Some st);
          Some (st'\<lparr>gs_progress := gs_progress st' + 4424\<rparr>) }"

text \<open>\<open>None\<close>: out of fuel. \<open>Some None\<close>: the code returns -1.\<close>

fun search_loop ::
    "nat \<Rightarrow> fpc_match_coordinates list \<Rightarrow> int \<Rightarrow> geometry_search \<Rightarrow> geometry_search option option" where
  "search_loop 0 points iteration st = (if iteration < gs_limit st then None else Some (Some st))"
| "search_loop (Suc fuel) points iteration st =
     (if \<not> iteration < gs_limit st then Some (Some st)
      else case search_step points iteration st of
             None \<Rightarrow> Some None
           | Some st' \<Rightarrow> search_loop fuel points (iteration + 1) st')"

definition search_start :: geometry_search where
  "search_start =
     \<lparr>gs_state = (0xFFFE, 0x8300), gs_indices = replicate 16 (0, 0), gs_valid = replicate 16 False,
      gs_best = 0, gs_transform = [0, 0, 0, 0], gs_limit = 1500, gs_accepted = 0, gs_progress = 0\<rparr>"

subsection \<open>Filtering of the inliers\<close>

definition flag_inliers ::
    "fpc_match_coordinates list \<Rightarrow> u16 list \<Rightarrow> fpc_candidate list \<Rightarrow> fpc_candidate list" where
  "flag_inliers points t pairs =
     map2 (\<lambda>p pair. pair\<lparr>cd_flag := if is_inlier t p then 1 else 0\<rparr>) points pairs"

text \<open>A flagged point too close to an earlier flagged one is dropped.\<close>

definition drop_close ::
    "fpc_match_coordinates list \<Rightarrow> nat \<Rightarrow> nat \<Rightarrow> fpc_candidate list \<times> int \<Rightarrow> fpc_candidate list \<times> int" where
  "drop_close points i j st =
     (if cd_flag (fst st ! j) \<noteq> 0
         \<and> signed_u32 (square_norm (sint (mc_x (points ! i)) - sint (mc_x (points ! j)))
                          (sint (mc_y (points ! i)) - sint (mc_y (points ! j)))) < 3584
      then ((fst st)[j := (fst st ! j)\<lparr>cd_flag := 0\<rparr>], snd st - 1) else st)"

definition drop_duplicates ::
    "fpc_match_coordinates list \<Rightarrow> fpc_candidate list \<times> int \<Rightarrow> fpc_candidate list \<times> int" where
  "drop_duplicates points st =
     fold (\<lambda>i st. if cd_flag (fst st ! i) \<noteq> 0
                  then fold (drop_close points i) [i + 1..<length points] st else st)
       [0..<length points] st"

definition movement_x :: "fpc_match_coordinates \<Rightarrow> int" where
  "movement_x p = sint (mc_x p) - sint (mc_target_x p)"

definition movement_y :: "fpc_match_coordinates \<Rightarrow> int" where
  "movement_y p = sint (mc_y p) - sint (mc_target_y p)"

text \<open>Mean absolute movement below 32 in either direction clears the consensus.\<close>

definition low_movement :: "fpc_match_coordinates list \<Rightarrow> fpc_candidate list \<Rightarrow> int \<Rightarrow> bool" where
  "low_movement points pairs inliers \<longleftrightarrow>
     (let flagged = map fst (filter (\<lambda>(p, pair). cd_flag pair \<noteq> 0) (zip points pairs));
          sx = sum_list (map (\<lambda>p. \<bar>movement_x p\<bar>) flagged);
          sy = sum_list (map (\<lambda>p. \<bar>movement_y p\<bar>) flagged)
      in inliers \<noteq> 0 \<and> (sx sdiv inliers < 32 \<or> sy sdiv inliers < 32))"

definition membership_bit :: "u8 list \<Rightarrow> u16 \<Rightarrow> bool" where
  "membership_bit membership i = bit (membership ! (unat i div 8)) (unat i mod 8)"

definition member_total :: "u8 list \<Rightarrow> fpc_candidate list \<Rightarrow> nat" where
  "member_total source pairs =
     length (filter (\<lambda>pair. cd_flag pair = 1 \<and> membership_bit source (cd_first pair)) pairs)"

definition mark_member ::
    "fpc_match_coordinates \<times> fpc_candidate \<Rightarrow> u8 list \<Rightarrow> u8 list" where
  "mark_member pp target =
     (case pp of (p, pair) \<Rightarrow>
        if cd_flag pair = 1 \<and> 768 \<le> signed_u32 (square_norm (movement_x p) (movement_y p))
        then (let k = unat (cd_second pair) div 8
              in target[k := (target ! k) OR push_bit (unat (cd_second pair) mod 8) 1])
        else target)"

definition filter_consensus ::
    "fpc_match_coordinates list \<Rightarrow> u8 list \<Rightarrow> int \<Rightarrow> u16 list \<Rightarrow> fpc_geometry_result
       \<Rightarrow> fpc_candidate list \<Rightarrow> u8 list \<Rightarrow> fpc_geometry_result \<times> fpc_candidate list \<times> u8 list" where
  "filter_consensus points source best t result pairs target =
     (case drop_duplicates points (flag_inliers points t pairs, best) of
        (pairs1, spatial) \<Rightarrow>
          let low = low_movement points pairs1 spatial;
              pairs2 = (if low then map (\<lambda>pair. pair\<lparr>cd_flag := 0\<rparr>) pairs1 else pairs1);
              members = member_total source pairs2;
              result1 = result\<lparr>gr_spatial_inliers := spatial, gr_low_movement := if low then 1 else 0,
                               gr_inliers := if low then 0 else spatial\<rparr>
          in if members < 4 then (result1\<lparr>gr_inliers := int members\<rparr>, pairs2, target)
             else (result1, pairs2, fold mark_member (zip points pairs2) target))"

definition fpc_verify_geometry_profile300 ::
    "fpc_match_coordinates list \<Rightarrow> fpc_candidate list \<Rightarrow> u8 list \<Rightarrow> u8 list \<Rightarrow> fpc_geometry_result
       \<Rightarrow> (status \<times> fpc_geometry_result \<times> fpc_candidate list \<times> u8 list) option" where
  "fpc_verify_geometry_profile300 points pairs source target result =
     (if 32767 < length points
         \<or> list_ex (\<lambda>pair. length source \<le> unat (cd_first pair) div 8
                          \<or> length target \<le> unat (cd_second pair) div 8) pairs
      then Some (- 1, result, pairs, target)
      else let result0 = result\<lparr>gr_success := 0\<rparr> in
        if length points < 8 then Some (0, result0, pairs, target)
        else case search_loop 10000 points 0 search_start of
               None \<Rightarrow> None
             | Some None \<Rightarrow> Some (- 1, result0, pairs, target)
             | Some (Some st) \<Rightarrow>
                 let best = gs_best st;
                     result1 = result0\<lparr>gr_transform := gs_transform st, gr_inliers := best,
                                       gr_spatial_inliers := best\<rparr>;
                     success = (\<lambda>r. r\<lparr>gr_success := if 8 \<le> best then 1 else 0\<rparr>)
                 in if 0 < best
                    then (case filter_consensus points source best (gs_transform st) result1 pairs target of
                            (r, ps, tg) \<Rightarrow> Some (0, success r, ps, tg))
                    else Some (0, success result1, pairs, target))"

subsection \<open>Fitting a valid pair\<close>

lemma fit_of_valid_pair:
  assumes "pair_is_valid points 3 (i, j)"
  shows "fpc_fit_similarity_pair (points ! i) (points ! j) \<noteq> None"
proof -
  let ?a = "points ! i" and ?b = "points ! j"
  define norm where "norm = square_norm (sint (mc_x ?b) - sint (mc_x ?a)) (sint (mc_y ?b) - sint (mc_y ?a))"
  define shift where "shift = (leading_zeros norm 32 + 31) mod 32"
  define divisor where "divisor = sint (push_bit shift norm) div 16384"
  have n: "256 < sint norm" using assms by (simp add: pair_is_valid_def norm_def Let_def)
  have top: "1073741824 \<le> sint (push_bit shift norm)" and nz: "norm \<noteq> 0"
    using normalized_square [OF n] by (simp_all add: shift_def)
  then have d: "1 < divisor" by (simp add: divisor_def)
  note c = sdiv_bounds [OF sint_u32_range d]
  show ?thesis
    using nz d c unfolding fpc_fit_similarity_pair_def Let_def signed_u32_sint shift_floor_div
    by (simp add: norm_def [symmetric] shift_def [symmetric] divisor_def [symmetric] not_less)
qed

subsection \<open>The search loop\<close>

lemma bucket_limit: "inlier_bucket n k \<le> 15"
  by (simp add: inlier_bucket_def Let_def nat_le_iff not_less)

lemma quota_limit: "i \<le> 15 \<Longrightarrow> iteration_quota i \<le> 10000"
proof -
  assume "i \<le> 15"
  then have "i \<in> set [0..<16]" by auto
  moreover have "\<forall>i\<in>set [0..<16]. iteration_quota i \<le> 10000"
    by (simp add: iteration_quota_def limits_def upt_rec)
  ultimately show ?thesis by blast
qed

lemma adopt_limit: "gs_limit st \<le> 10000 \<Longrightarrow> gs_limit (adopt n t k st) \<le> 10000"
  using quota_limit [OF bucket_limit, of n k] by (simp add: adopt_def)

lemma refill_keeps:
  assumes "refill points iteration st = Some st'"
  shows "gs_limit st' = gs_limit st" "gs_best st' = gs_best st" "gs_transform st' = gs_transform st"
  using assms by (auto simp: refill_def split: if_splits)

lemma search_step_limit:
  assumes "search_step points iteration st = Some st'" "iteration < gs_limit st" "gs_limit st \<le> 10000"
  shows "gs_limit st' \<le> 10000"
  using assms refill_keeps(1) [of points iteration st]
  by (auto simp: search_step_def Let_def adopt_limit split: Option.bind_splits if_splits)

lemma search_loop_fuel:
  assumes "0 \<le> iteration" "gs_limit st \<le> 10000" "10000 \<le> int fuel + iteration"
  shows "search_loop fuel points iteration st \<noteq> None"
  using assms
proof (induction fuel arbitrary: iteration st)
  case 0
  then show ?case by simp
next
  case (Suc fuel)
  show ?case
  proof (cases "iteration < gs_limit st \<and> search_step points iteration st \<noteq> None")
    case True
    then obtain st' where s: "search_step points iteration st = Some st'" by auto
    have "search_loop fuel points (iteration + 1) st' \<noteq> None"
      using Suc.prems search_step_limit [OF s] True by (intro Suc.IH) auto
    with True s show ?thesis by simp
  qed auto
qed

lemma search_terminates: "search_loop 10000 points 0 search_start \<noteq> None"
  by (rule search_loop_fuel) (simp_all add: search_start_def)

text \<open>A loaded batch: sixteen index pairs inside the list and their validity.\<close>

definition batch_loaded :: "fpc_match_coordinates list \<Rightarrow> geometry_search \<Rightarrow> bool" where
  "batch_loaded points st \<longleftrightarrow>
     length (gs_indices st) = 16
     \<and> list_all (\<lambda>ij. fst ij < length points \<and> snd ij < length points) (gs_indices st)
     \<and> gs_valid st = map (pair_is_valid points 3) (gs_indices st)"

lemma sample_index: "n \<noteq> 0 \<Longrightarrow> n * unat (v :: u16) div 65536 < n"
proof -
  assume "n \<noteq> 0"
  then have "n * unat v < n * 65536" using unat_bounds(2) [of v] by simp
  then show ?thesis by (simp add: less_mult_imp_div_less)
qed

lemma sample_batch_pairs:
  assumes "sample_batch n state = (ps, state')" "n \<noteq> 0"
  shows "length ps = 8" "list_all (\<lambda>ij. fst ij < n \<and> snd ij < n) ps"
  using assms(1) sample_index [OF assms(2)]
  by (auto simp: sample_batch_def Let_def list_all_iff)

lemma refill_loaded:
  assumes "points \<noteq> []" "length points \<le> 32767" "iteration mod 16 = 0 \<or> batch_loaded points st"
  shows "\<exists>st'. refill points iteration st = Some st' \<and> batch_loaded points st'"
proof (cases "iteration mod 16 = 0")
  case True
  obtain ps s1 qs s2 where b: "sample_batch (length points) (gs_state st) = (ps, s1)"
      "sample_batch (length points) s1 = (qs, s2)"
    by (metis surj_pair)
  have n: "length points \<noteq> 0" using assms(1) by simp
  note p = sample_batch_pairs [OF b(1) n] sample_batch_pairs [OF b(2) n]
  show ?thesis
    using True assms(1,2) b p
    by (simp add: refill_def fpc_sample_geometry_pairs_def batch_loaded_def not_less)
next
  case False
  with assms(3) show ?thesis by (simp add: refill_def)
qed

lemma batch_loaded_cong:
  "gs_indices st' = gs_indices st \<Longrightarrow> gs_valid st' = gs_valid st \<Longrightarrow>
     batch_loaded points st' = batch_loaded points st"
  by (simp add: batch_loaded_def)

lemma adopt_batch [simp]:
  "gs_indices (adopt n t k st) = gs_indices st" "gs_valid (adopt n t k st) = gs_valid st"
  by (simp_all add: adopt_def)

definition consensus_known :: "fpc_match_coordinates list \<Rightarrow> geometry_search \<Rightarrow> bool" where
  "consensus_known points st \<longleftrightarrow>
     (gs_best st = 0 \<and> gs_transform st = [0, 0, 0, 0]) \<or> (0 < gs_best st \<and> gs_best st = inlier_count points (gs_transform st))"

lemma search_step_total:
  assumes "points \<noteq> []" "length points \<le> 32767" "0 \<le> iteration"
    "iteration mod 16 = 0 \<or> batch_loaded points st" "consensus_known points st"
  shows "\<exists>st'. search_step points iteration st = Some st' \<and> batch_loaded points st'
               \<and> consensus_known points st'"
proof -
  from refill_loaded [OF assms(1,2,4)] obtain st1 where
    r: "refill points iteration st = Some st1" and b: "batch_loaded points st1" by blast
  have c: "consensus_known points st1"
    using assms(5) refill_keeps [OF r] by (simp add: consensus_known_def)
  let ?slot = "nat (iteration mod 16)"
  have slot: "?slot < 16" using pos_mod_bound [of 16 iteration] by linarith
  show ?thesis
  proof (cases "gs_valid st1 ! ?slot")
    case False
    with r b c show ?thesis
      by (auto simp: search_step_def Let_def batch_loaded_def consensus_known_def)
  next
    case True
    obtain i j where ij: "gs_indices st1 ! ?slot = (i, j)" by (metis surj_pair)
    have "pair_is_valid points 3 (i, j)"
      using True b slot ij by (simp add: batch_loaded_def)
    from fit_of_valid_pair [OF this] obtain t where
      t: "fpc_fit_similarity_pair (points ! i) (points ! j) = Some t" by auto
    have "0 \<le> gs_best st1" using c by (auto simp: consensus_known_def)
    with r b c t ij True show ?thesis
      by (auto simp: search_step_def Let_def batch_loaded_def consensus_known_def adopt_def)
  qed
qed

lemma search_loop_total:
  assumes "points \<noteq> []" "length points \<le> 32767"
  shows "0 \<le> iteration \<Longrightarrow> iteration mod 16 = 0 \<or> batch_loaded points st \<Longrightarrow> consensus_known points st \<Longrightarrow>
     search_loop fuel points iteration st \<noteq> Some None
     \<and> (\<forall>st'. search_loop fuel points iteration st = Some (Some st') \<longrightarrow> consensus_known points st')"
proof (induction fuel arbitrary: iteration st)
  case 0
  then show ?case by simp
next
  case (Suc fuel)
  from search_step_total [OF assms Suc.prems] obtain st' where
    s: "search_step points iteration st = Some st'" "batch_loaded points st'" "consensus_known points st'"
    by blast
  have "0 \<le> iteration + 1" using Suc.prems by simp
  from Suc.IH [OF this disjI2 [OF s(2)] s(3)] s(1) Suc.prems(3) show ?case by simp
qed

lemma search_result:
  assumes "points \<noteq> []" "length points \<le> 32767"
  obtains st where "search_loop 10000 points 0 search_start = Some (Some st)" "consensus_known points st"
proof -
  have c: "consensus_known points search_start" by (simp add: consensus_known_def search_start_def)
  have "search_loop 10000 points 0 search_start \<noteq> Some None
        \<and> (\<forall>st'. search_loop 10000 points 0 search_start = Some (Some st') \<longrightarrow> consensus_known points st')"
    by (rule search_loop_total [OF assms _ _ c]) simp_all
  with search_terminates [of points] that show ?thesis by (metis not_None_eq)
qed

subsection \<open>The filters\<close>

abbreviation flagged :: "fpc_candidate list \<Rightarrow> nat \<Rightarrow> bool" where
  "flagged pairs i \<equiv> cd_flag (pairs ! i) \<noteq> 0"

definition flag_count :: "fpc_candidate list \<Rightarrow> int" where
  "flag_count pairs = int (length (filter (\<lambda>p. cd_flag p \<noteq> 0) pairs))"

definition too_close :: "fpc_match_coordinates list \<Rightarrow> nat \<Rightarrow> nat \<Rightarrow> bool" where
  "too_close points i j \<longleftrightarrow>
     signed_u32 (square_norm (sint (mc_x (points ! i)) - sint (mc_x (points ! j)))
                   (sint (mc_y (points ! i)) - sint (mc_y (points ! j)))) < 3584"

text \<open>\<open>ps'\<close> is \<open>ps\<close> with some flags cleared.\<close>

definition thinned :: "fpc_candidate list \<Rightarrow> fpc_candidate list \<Rightarrow> bool" where
  "thinned ps ps' \<longleftrightarrow>
     list_all2 (\<lambda>p p'. p' = p \<or> p' = p\<lparr>cd_flag := 0\<rparr>) ps ps'"

lemma thinned_refl [simp]: "thinned ps ps"
  by (simp add: thinned_def list_all2_refl)

lemma thinned_trans: "thinned a b \<Longrightarrow> thinned b c \<Longrightarrow> thinned a c"
  by (auto simp: thinned_def list_all2_conv_all_nth) (metis fpc_candidate.surjective fpc_candidate.update_convs(4))

lemma thinned_length: "thinned a b \<Longrightarrow> length b = length a"
  by (simp add: thinned_def list_all2_lengthD)

lemma thinned_flag: "thinned a b \<Longrightarrow> i < length a \<Longrightarrow> flagged b i \<Longrightarrow> b ! i = a ! i"
  by (auto simp: thinned_def dest!: list_all2_nthD)

lemma thinned_clear: "thinned ps (ps[j := (ps ! j)\<lparr>cd_flag := 0\<rparr>])"
  by (cases "j < length ps") (auto simp: thinned_def list_all2_conv_all_nth nth_list_update)

lemma flag_count_Cons [simp]:
  "flag_count (p # ps) = (if cd_flag p \<noteq> 0 then 1 else 0) + flag_count ps"
  by (simp add: flag_count_def)

lemma flag_count_update:
  "j < length ps \<Longrightarrow>
     flag_count (ps[j := p]) = flag_count ps - (if flagged ps j then 1 else 0) + (if cd_flag p \<noteq> 0 then 1 else 0)"
  by (induction ps arbitrary: j) (auto split: nat.splits)

lemma drop_close_step:
  assumes "drop_close points i j (ps, k) = (ps', k')" "j < length ps"
  shows "thinned ps ps'" "k' - flag_count ps' = k - flag_count ps" "flagged ps' j \<longrightarrow> \<not> too_close points i j"
  using assms thinned_clear [of ps j]
  by (auto simp: drop_close_def too_close_def flag_count_update split: if_splits)

lemma drop_close_fold:
  assumes "fold (drop_close points i) js (ps, k) = (ps', k')" "list_all (\<lambda>j. j < length ps) js"
  shows "thinned ps ps' \<and> k' - flag_count ps' = k - flag_count ps
         \<and> (\<forall>j\<in>set js. flagged ps' j \<longrightarrow> \<not> too_close points i j)"
  using assms
proof (induction js arbitrary: ps k)
  case Nil
  then show ?case by simp
next
  case (Cons j js)
  obtain ps1 k1 where s: "drop_close points i j (ps, k) = (ps1, k1)" by fastforce
  have j: "j < length ps" using Cons.prems by simp
  note st = drop_close_step [OF s j]
  have len: "length ps1 = length ps" by (rule thinned_length [OF st(1)])
  have "fold (drop_close points i) js (ps1, k1) = (ps', k')" "list_all (\<lambda>j. j < length ps1) js"
    using Cons.prems s len by simp_all
  from Cons.IH [OF this]
  have ih: "thinned ps1 ps'" "k' - flag_count ps' = k1 - flag_count ps1"
      "\<forall>j\<in>set js. flagged ps' j \<longrightarrow> \<not> too_close points i j" by simp_all
  have "flagged ps' j \<longrightarrow> \<not> too_close points i j"
    using thinned_flag [OF ih(1), of j] j len st(3) by auto
  with ih st(2) thinned_trans [OF st(1) ih(1)] show ?case by simp
qed

lemma drop_duplicates_spec:
  assumes "drop_duplicates points (ps, k) = (ps', k')" "length ps = length points"
  shows "thinned ps ps'" "k' - flag_count ps' = k - flag_count ps"
    "i < j \<Longrightarrow> j < length points \<Longrightarrow> flagged ps' i \<Longrightarrow> flagged ps' j \<Longrightarrow> \<not> too_close points i j"
proof -
  let ?n = "length points"
  define step where "step = (\<lambda>i st. if cd_flag (fst st ! i) \<noteq> 0
     then fold (drop_close points i) [i + 1..<?n] st else st)"
  have "\<forall>ps' k'. fold step [0..<m] (ps, k) = (ps', k') \<longrightarrow>
          thinned ps ps' \<and> k' - flag_count ps' = k - flag_count ps
          \<and> (\<forall>i<m. \<forall>j. i < j \<and> j < ?n \<and> flagged ps' i \<and> flagged ps' j \<longrightarrow> \<not> too_close points i j)"
    if "m \<le> ?n" for m
    using that
  proof (induction m)
    case 0
    then show ?case by simp
  next
    case (Suc m)
    obtain ps1 k1 where s: "fold step [0..<m] (ps, k) = (ps1, k1)"
      by fastforce
    with Suc have ih: "thinned ps ps1" "k1 - flag_count ps1 = k - flag_count ps"
      "\<forall>i<m. \<forall>j. i < j \<and> j < ?n \<and> flagged ps1 i \<and> flagged ps1 j \<longrightarrow> \<not> too_close points i j"
      by auto
    have len: "length ps1 = ?n" using thinned_length [OF ih(1)] assms(2) by simp
    show ?case
    proof (intro allI impI)
      fix ps' k'
      assume "fold step [0..<Suc m] (ps, k) = (ps', k')"
      moreover have "fold step [0..<Suc m] (ps, k) = step m (ps1, k1)" by (simp add: s)
      ultimately have e: "step m (ps1, k1) = (ps', k')" by (simp only:)
      have "thinned ps1 ps' \<and> k' - flag_count ps' = k1 - flag_count ps1
            \<and> (\<forall>j. m < j \<and> j < ?n \<and> flagged ps' m \<and> flagged ps' j \<longrightarrow> \<not> too_close points m j)"
      proof (cases "flagged ps1 m")
        case True
        with e have f: "fold (drop_close points m) [m + 1..<?n] (ps1, k1) = (ps', k')"
          by (simp only: step_def fst_conv if_True simp_thms)
        have "list_all (\<lambda>j. j < length ps1) [m + 1..<?n]" by (simp add: list_all_iff len)
        from drop_close_fold [OF f this] show ?thesis by auto
      qed (use e in \<open>simp add: step_def\<close>)
      then have t: "thinned ps1 ps'" "k' - flag_count ps' = k1 - flag_count ps1"
        "\<forall>j. m < j \<and> j < ?n \<and> flagged ps' m \<and> flagged ps' j \<longrightarrow> \<not> too_close points m j" by auto
      have keep: "flagged ps1 i" if "flagged ps' i" "i < ?n" for i
        using thinned_flag [OF t(1), of i] that len by auto
      have "\<not> too_close points i j" if "i < Suc m" "i < j" "j < ?n" "flagged ps' i" "flagged ps' j" for i j
      proof (cases "i = m")
        case False
        with that(1) have "i < m" by simp
        moreover have "flagged ps1 i" "flagged ps1 j" using keep that by simp_all
        ultimately show ?thesis using ih(3) that by blast
      qed (use t that in blast)
      then show "thinned ps ps' \<and> k' - flag_count ps' = k - flag_count ps
          \<and> (\<forall>i<Suc m. \<forall>j. i < j \<and> j < ?n \<and> flagged ps' i \<and> flagged ps' j \<longrightarrow> \<not> too_close points i j)"
        using thinned_trans [OF ih(1) t(1)] ih(2) t(2) by auto
    qed
  qed
  from this [of ?n] assms(1) show "thinned ps ps'" "k' - flag_count ps' = k - flag_count ps"
    "i < j \<Longrightarrow> j < length points \<Longrightarrow> flagged ps' i \<Longrightarrow> flagged ps' j \<Longrightarrow> \<not> too_close points i j"
    unfolding drop_duplicates_def step_def [symmetric] by auto
qed

lemma flag_inliers_nth:
  "length pairs = length points \<Longrightarrow> i < length points \<Longrightarrow>
     flag_inliers points t pairs ! i = (pairs ! i)\<lparr>cd_flag := if is_inlier t (points ! i) then 1 else 0\<rparr>"
  by (simp add: flag_inliers_def)

lemma length_flag_inliers [simp]:
  "length pairs = length points \<Longrightarrow> length (flag_inliers points t pairs) = length points"
  by (simp add: flag_inliers_def)

lemma flag_count_inliers:
  "length pairs = length points \<Longrightarrow> flag_count (flag_inliers points t pairs) = inlier_count points t"
  by (induction points pairs rule: list_induct2')
    (simp_all add: flag_inliers_def inlier_count_def flag_count_def)

lemma flag_count_cleared: "flag_count (map (\<lambda>p. p\<lparr>cd_flag := 0\<rparr>) ps) = 0"
  by (simp add: flag_count_def)

lemma thinned_cleared: "thinned ps (map (\<lambda>p. p\<lparr>cd_flag := 0\<rparr>) ps)"
  by (simp add: thinned_def list_all2_conv_all_nth)

lemma member_total_cleared: "member_total source (map (\<lambda>p. p\<lparr>cd_flag := 0\<rparr>) ps) = 0"
  by (simp add: member_total_def filter_empty_conv)

definition has_moved :: "fpc_match_coordinates \<Rightarrow> bool" where
  "has_moved p \<longleftrightarrow> 768 \<le> signed_u32 (square_norm (movement_x p) (movement_y p))"

lemma div_mod_8_eq: "a div 8 = b div 8 \<Longrightarrow> a mod 8 = b mod 8 \<Longrightarrow> a = (b :: nat)"
  by (metis div_mult_mod_eq)

lemma mark_member_bit:
  assumes "unat (cd_second pair) div 8 < length target" "unat m div 8 < length target"
  shows "membership_bit (mark_member (p, pair) target) m
           \<longleftrightarrow> membership_bit target m \<or> (cd_flag pair = 1 \<and> has_moved p \<and> cd_second pair = m)"
  using assms div_mod_8_eq [of "unat m" "unat (cd_second pair)"]
  by (auto simp: mark_member_def membership_bit_def has_moved_def Let_def nth_list_update bit_simps
      word_unat_eq_iff)

lemma mark_member_length [simp]: "length (mark_member pp target) = length target"
  by (auto simp: mark_member_def Let_def split: prod.splits)

lemma mark_member_fold:
  assumes "list_all (\<lambda>(p, pair). unat (cd_second pair) div 8 < length target) pps"
    "unat m div 8 < length target"
  shows "length (fold mark_member pps target) = length target
     \<and> (membership_bit (fold mark_member pps target) m
           \<longleftrightarrow> membership_bit target m
             \<or> (\<exists>(p, pair) \<in> set pps. cd_flag pair = 1 \<and> has_moved p \<and> cd_second pair = m))"
  using assms
proof (induction pps arbitrary: target)
  case (Cons pp pps)
  obtain p pair where pp: "pp = (p, pair)" by fastforce
  have "list_all (\<lambda>(p, pair). unat (cd_second pair) div 8 < length (mark_member pp target)) pps"
    using Cons.prems by simp
  moreover have "membership_bit (mark_member pp target) m \<longleftrightarrow> membership_bit target m
      \<or> (cd_flag pair = 1 \<and> has_moved p \<and> cd_second pair = m)"
    using Cons.prems unfolding pp by (intro mark_member_bit) simp_all
  ultimately show ?case using Cons.IH [of "mark_member pp target"] Cons.prems(2) by (auto simp: pp)
qed simp

lemma fold_mark_length [simp]: "length (fold mark_member pps target) = length target"
  by (induction pps arbitrary: target) simp_all

text \<open>What the flags, scores and membership bits mean once a transform has been found.\<close>

definition consensus_of ::
    "fpc_match_coordinates list \<Rightarrow> fpc_candidate list \<Rightarrow> u8 list \<Rightarrow> u8 list \<Rightarrow> fpc_geometry_result
       \<Rightarrow> fpc_candidate list \<Rightarrow> u8 list \<Rightarrow> bool" where
  "consensus_of points pairs source target r ps tg \<longleftrightarrow>
     length ps = length points \<and> length tg = length target
     \<and> (\<forall>i < length points. ps ! i = (pairs ! i)\<lparr>cd_flag := cd_flag (ps ! i)\<rparr>
          \<and> (flagged ps i \<longrightarrow> cd_flag (ps ! i) = 1 \<and> is_inlier (gr_transform r) (points ! i)))
     \<and> (\<forall>j < length points. \<forall>i < j. flagged ps i \<and> flagged ps j \<longrightarrow> \<not> too_close points i j)
     \<and> gr_inliers r = (if member_total source ps < 4 then int (member_total source ps) else flag_count ps)
     \<and> (\<forall>m. unat m div 8 < length target \<longrightarrow>
          (membership_bit tg m \<longleftrightarrow> membership_bit target m
             \<or> (4 \<le> member_total source ps
                \<and> (\<exists>i < length points. cd_flag (ps ! i) = 1 \<and> has_moved (points ! i) \<and> cd_second (ps ! i) = m))))"

lemma filter_consensus_spec:
  assumes "filter_consensus points source best t result pairs target = (r, ps, tg)"
    "length pairs = length points" "best = inlier_count points t" "gr_transform result = t"
    "list_all (\<lambda>pair. unat (cd_second pair) div 8 < length target) pairs"
  shows "consensus_of points pairs source target r ps tg" "gr_transform r = t"
proof -
  let ?n = "length points" and ?flags = "flag_inliers points t pairs"
  obtain ps1 spatial where d: "drop_duplicates points (?flags, best) = (ps1, spatial)" by fastforce
  have "length ?flags = ?n" using assms(2) by simp
  note dup = drop_duplicates_spec [OF d this]
  have spatial: "spatial = flag_count ps1"
    using dup(2) flag_count_inliers [OF assms(2), of t] assms(3) by simp
  define low where "low = low_movement points ps1 spatial"
  define ps2 where "ps2 = (if low then map (\<lambda>p. p\<lparr>cd_flag := 0\<rparr>) ps1 else ps1)"
  have t12: "thinned ps1 ps2" by (simp add: ps2_def thinned_cleared)
  then have thin: "thinned ?flags ps2" using dup(1) thinned_trans by blast
  have len: "length ps2 = ?n" using thinned_length [OF thin] assms(2) by simp
  have ps: "ps = ps2" and gt: "gr_transform r = t"
    and tg: "tg = (if member_total source ps2 < 4 then target else fold mark_member (zip points ps2) target)"
    and gi: "gr_inliers r = (if member_total source ps2 < 4 then int (member_total source ps2)
                             else if low then 0 else spatial)"
    using assms(1,4) d by (auto simp: filter_consensus_def low_def [symmetric] ps2_def Let_def split: if_splits)
  have cell: "ps2 ! i = (pairs ! i)\<lparr>cd_flag := cd_flag (ps2 ! i)\<rparr>
      \<and> (flagged ps2 i \<longrightarrow> cd_flag (ps2 ! i) = 1 \<and> is_inlier t (points ! i))" if "i < ?n" for i
  proof -
    have "ps2 ! i = ?flags ! i \<or> ps2 ! i = (?flags ! i)\<lparr>cd_flag := 0\<rparr>"
      using thin that assms(2) by (auto simp: thinned_def list_all2_conv_all_nth)
    then show ?thesis using flag_inliers_nth [OF assms(2) that, of t] by (auto split: if_splits)
  qed
  have sep: "\<not> too_close points i j" if "i < j" "j < ?n" "flagged ps2 i" "flagged ps2 j" for i j
  proof -
    have "flagged ps1 i" "flagged ps1 j"
      using thinned_flag [OF t12] that len thinned_length [OF t12] by (metis order_less_trans)+
    with that dup(3) show ?thesis by blast
  qed
  have count: "gr_inliers r = (if member_total source ps2 < 4 then int (member_total source ps2) else flag_count ps2)"
    using gi spatial by (simp add: ps2_def member_total_cleared split: if_splits)
  have second: "cd_second (ps2 ! i) = cd_second (pairs ! i)" if "i < ?n" for i
    using cell [OF that] by (metis fpc_candidate.select_convs(2) fpc_candidate.surjective fpc_candidate.update_convs(4))
  have "list_all (\<lambda>(p, pair). unat (cd_second pair) div 8 < length target) (zip points ps2)"
    using assms(2) list_all_length [THEN iffD1, OF assms(5)] len second by (auto simp: list_all_iff set_zip)
  note marks = mark_member_fold [OF this]
  have bits: "membership_bit tg m \<longleftrightarrow> membership_bit target m
             \<or> (4 \<le> member_total source ps2
                \<and> (\<exists>i < ?n. cd_flag (ps2 ! i) = 1 \<and> has_moved (points ! i) \<and> cd_second (ps2 ! i) = m))"
    if "unat m div 8 < length target" for m
    using marks [OF that] len by (auto simp: tg set_zip not_less)
  show "gr_transform r = t" by (rule gt)
  show "consensus_of points pairs source target r ps tg"
    using len cell sep count bits by (auto simp: consensus_of_def ps gt tg)
qed

definition membership_short :: "fpc_candidate list \<Rightarrow> u8 list \<Rightarrow> u8 list \<Rightarrow> bool" where
  "membership_short pairs source target \<longleftrightarrow>
     list_ex (\<lambda>pair. length source \<le> unat (cd_first pair) div 8
                   \<or> length target \<le> unat (cd_second pair) div 8) pairs"

lemma verify_geometry_returns:
  "\<exists>r ps tg. fpc_verify_geometry_profile300 points pairs source target result
     = Some (if 32767 < length points \<or> membership_short pairs source target then - 1 else 0, r, ps, tg)"
proof (cases "32767 < length points \<or> membership_short pairs source target \<or> length points < 8")
  case True
  then show ?thesis by (auto simp: fpc_verify_geometry_profile300_def membership_short_def)
next
  case False
  then have "points \<noteq> []" "length points \<le> 32767" by auto
  from search_result [OF this] obtain st where
    "search_loop 10000 points 0 search_start = Some (Some st)" by blast
  with False show ?thesis
    by (auto simp: fpc_verify_geometry_profile300_def membership_short_def Let_def split: prod.splits)
qed

text \<open>The two outcomes of an accepted input: no transform was found and nothing changes, or the result
  is the consensus of a transform, successful from eight inliers on.\<close>

definition no_consensus ::
    "fpc_candidate list \<Rightarrow> u8 list \<Rightarrow> fpc_geometry_result \<Rightarrow> fpc_candidate list \<Rightarrow> u8 list \<Rightarrow> bool" where
  "no_consensus pairs target r ps tg \<longleftrightarrow>
     ps = pairs \<and> tg = target \<and> gr_transform r = [0, 0, 0, 0] \<and> gr_inliers r = 0
     \<and> gr_spatial_inliers r = 0 \<and> gr_success r = 0"

definition consensus_found ::
    "fpc_match_coordinates list \<Rightarrow> fpc_candidate list \<Rightarrow> u8 list \<Rightarrow> u8 list \<Rightarrow> fpc_geometry_result
       \<Rightarrow> fpc_candidate list \<Rightarrow> u8 list \<Rightarrow> bool" where
  "consensus_found points pairs source target r ps tg \<longleftrightarrow>
     consensus_of points pairs source target r ps tg \<and> 0 < inlier_count points (gr_transform r)
     \<and> gr_success r = (if 8 \<le> inlier_count points (gr_transform r) then 1 else 0)"

lemma verify_geometry_outcome:
  assumes "8 \<le> length points" "length points \<le> 32767" "length pairs = length points"
    "\<not> membership_short pairs source target"
  obtains r ps tg where "fpc_verify_geometry_profile300 points pairs source target result = Some (0, r, ps, tg)"
    "no_consensus pairs target r ps tg \<or> consensus_found points pairs source target r ps tg"
proof -
  have "points \<noteq> []" using assms(1) by auto
  from search_result [OF this assms(2)] obtain st where
    s: "search_loop 10000 points 0 search_start = Some (Some st)" and k: "consensus_known points st" by blast
  let ?result = "result\<lparr>gr_success := 0, gr_transform := gs_transform st, gr_inliers := gs_best st,
                        gr_spatial_inliers := gs_best st\<rparr>"
  obtain r1 ps1 tg1 where f: "filter_consensus points source (gs_best st) (gs_transform st) ?result pairs target
      = (r1, ps1, tg1)" by (metis surj_pair)
  show thesis
  proof (cases "0 < gs_best st")
    case True
    then have b: "gs_best st = inlier_count points (gs_transform st)"
      using k by (simp add: consensus_known_def)
    have "list_all (\<lambda>pair. unat (cd_second pair) div 8 < length target) pairs"
      using assms(4) by (auto simp: membership_short_def list_all_iff list_ex_iff not_le)
    from filter_consensus_spec [OF f assms(3) b _ this]
    have c: "consensus_of points pairs source target r1 ps1 tg1" "gr_transform r1 = gs_transform st" by simp_all
    let ?r = "r1\<lparr>gr_success := if 8 \<le> gs_best st then 1 else 0\<rparr>"
    have "fpc_verify_geometry_profile300 points pairs source target result = Some (0, ?r, ps1, tg1)"
      using assms s f True by (simp add: fpc_verify_geometry_profile300_def membership_short_def Let_def)
    moreover have "consensus_found points pairs source target ?r ps1 tg1"
      using c b True by (simp add: consensus_found_def consensus_of_def)
    ultimately show ?thesis by (rule that [OF _ disjI2])
  next
    case False
    then have z: "gs_best st = 0" "gs_transform st = [0, 0, 0, 0]" using k by (auto simp: consensus_known_def)
    have "fpc_verify_geometry_profile300 points pairs source target result = Some (0, ?result, pairs, target)"
      using assms s z by (simp add: fpc_verify_geometry_profile300_def membership_short_def Let_def)
    moreover have "no_consensus pairs target ?result pairs target" using z by (simp add: no_consensus_def)
    ultimately show ?thesis by (rule that [OF _ disjI1])
  qed
qed

text \<open>(C28) Verification of candidate pairs always returns: the consensus search, whose bound is rewritten while
  it runs, needs at most 10000 iterations, and no sampled pair can make the similarity fit fail. The call
  returns 0 exactly when the number of points and the membership indices are acceptable.\<close>

theorem geometry_verification_total:
  "\<exists>r ps tg. fpc_verify_geometry_profile300 points pairs source target result
     = Some (if 32767 < length points \<or> membership_short pairs source target then - 1 else 0, r, ps, tg)"
  by (rule verify_geometry_returns)


definition sample_points :: "fpc_match_coordinates list" where
  "sample_points =
     map (\<lambda>(x, y). \<lparr>mc_x = x, mc_y = y, mc_target_x = x + 100, mc_target_y = y + 100\<rparr>)
       [(100, 100), (300, 120), (520, 90), (110, 400), (330, 420), (540, 380), (90, 700), (350, 720)]"

definition sample_candidates :: "fpc_candidate list" where
  "sample_candidates =
     map (\<lambda>i. \<lparr>cd_first = i, cd_second = i, cd_distance = 5, cd_flag = 0, cd_reserved = 0\<rparr>)
       [0, 1, 2, 3, 4, 5, 6, 7]"


end
