(* ===== verification/Matching.thy ===== *)
theory Matching
  imports Geometry Descriptor TemplateCodec Extract
begin

text \<open>
  Matching of captures, collections and templates (\<^verbatim>\<open>fpc_recovered.c\<close>:
  \<^verbatim>\<open>capture_compact_levels_valid\<close>, \<^verbatim>\<open>capture_compact_point\<close>,
  \<^verbatim>\<open>fpc_capture_candidate_coordinates\<close>, \<^verbatim>\<open>fpc_match_profile300_captures\<close>,
  \<^verbatim>\<open>fpc_match_profile300_collection\<close>, \<^verbatim>\<open>fpc_identify_profile300\<close>,
  \<^verbatim>\<open>fpc_match_profile300_features\<close>). The outer \<open>option\<close> is the fuel of the geometric search
  and, in the coordinate lookup, a read outside the level table. An array pointer of a view is an
  optional list; the buffer that the collection matcher allocates for candidates is written before
  it is read, so its initial contents are arbitrary.
\<close>

unbundle bit_operations_syntax

subsection \<open>Coordinates of packed captures\<close>

definition level_count_field :: "u16 list \<Rightarrow> nat \<Rightarrow> u16" where
  "level_count_field table l = table ! (l * 5)"

definition capture_compact_levels_valid :: "fpc_capture_payload_view \<Rightarrow> bool" where
  "capture_compact_levels_valid view =
     (case vw_level_fields view of
        None \<Rightarrow> False
      | Some table \<Rightarrow>
          vw_levels view \<noteq> 0 \<and> (vw_count view \<noteq> 0 \<longrightarrow> vw_compact_coordinates view \<noteq> None)
          \<and> list_all (\<lambda>l. unat (level_count_field table l) \<le> 32767) [0..<unat (vw_levels view)]
          \<and> sum_list (map (\<lambda>l. unat (level_count_field table l)) [0..<unat (vw_levels view)])
              = unat (vw_count view))"

text \<open>The walk along the level table; \<open>None\<close> is a read past its end.\<close>

function level_of :: "u16 list \<Rightarrow> nat \<Rightarrow> nat \<Rightarrow> nat \<Rightarrow> nat option" where
  "level_of table index level bound =
     (if index < bound then Some level
      else case rd table ((level + 1) * 5) of
             None \<Rightarrow> None
           | Some n \<Rightarrow> level_of table index (level + 1) (bound + unat n))"
  by auto
termination
  by (relation "measure (\<lambda>(table, index, level, bound). length table - level)")
    (auto dest!: rd_length)

declare level_of.simps [simp del]

definition compact_coordinate :: "u16 \<Rightarrow> u8 \<Rightarrow> u16 \<Rightarrow> u16" where
  "compact_coordinate scale coordinate offset =
     word_of_int (shift_floor (sint scale * uint coordinate) 10 + sint offset)"

definition capture_compact_point :: "fpc_capture_payload_view \<Rightarrow> u16 \<Rightarrow> (u16 \<times> u16) option" where
  "capture_compact_point view index =
     do { table \<leftarrow> vw_level_fields view;
          compact \<leftarrow> vw_compact_coordinates view;
          n \<leftarrow> rd table 0;
          level \<leftarrow> level_of table (unat index) 0 (unat n);
          let f = (\<lambda>k. table ! (level * 5 + k));
          cx \<leftarrow> rd compact (2 * unat index);
          cy \<leftarrow> rd compact (2 * unat index + 1);
          Some (compact_coordinate (f 1) cx (f 3), compact_coordinate (f 2) cy (f 4)) }"

definition candidate_coordinates ::
    "fpc_capture_payload_view \<Rightarrow> fpc_capture_payload_view \<Rightarrow> fpc_candidate \<Rightarrow> fpc_match_coordinates option" where
  "candidate_coordinates first second pair =
     do { (x, y) \<leftarrow> capture_compact_point first (cd_first pair);
          (tx, ty) \<leftarrow> capture_compact_point second (cd_second pair);
          Some \<lparr>mc_x = x, mc_y = y, mc_target_x = tx, mc_target_y = ty\<rparr> }"

definition fpc_capture_candidate_coordinates ::
    "fpc_capture_payload_view \<Rightarrow> fpc_capture_payload_view \<Rightarrow> fpc_candidate list
       \<Rightarrow> (status + fpc_match_coordinates list) option" where
  "fpc_capture_candidate_coordinates first second pairs =
     (if \<not> capture_compact_levels_valid first \<or> \<not> capture_compact_levels_valid second then Some (Inl (- 1))
      else if list_ex (\<lambda>pair. unat (vw_count first) \<le> unat (cd_first pair)
                            \<or> unat (vw_count second) \<le> unat (cd_second pair)) pairs then Some (Inl (- 1))
      else map_option Inr (those (map (candidate_coordinates first second) pairs)))"

subsection \<open>Two captures\<close>

definition empty_result :: fpc_geometry_result where
  "empty_result = \<lparr>gr_transform = [0, 0, 0, 0], gr_inliers = 0, gr_spatial_inliers = 0,
                   gr_success = 0, gr_low_movement = 0\<rparr>"

record match_output =
  mo_status :: status
  mo_result :: fpc_geometry_result
  mo_pairs :: "fpc_candidate list"
  mo_pair_count :: nat
  mo_target :: "u8 list"

definition distance_matrix :: "u8 list list \<Rightarrow> u8 list list \<Rightarrow> u8 list" where
  "distance_matrix first second =
     map (\<lambda>(a, b). of_nat (fpc_descriptor_distance128 a b)) (List.product first second)"

definition descriptor_rows :: "nat \<Rightarrow> u8 list \<Rightarrow> u8 list list" where
  "descriptor_rows n descriptors = map (\<lambda>i. take 16 (drop (i * 16) descriptors)) [0..<n]"

text \<open>The common tail of both matchers: candidates, their coordinates, verification.\<close>

definition match_descriptors ::
    "(nat \<Rightarrow> bool) \<Rightarrow> u8 list list \<Rightarrow> u8 list list
       \<Rightarrow> (fpc_candidate list \<Rightarrow> (status + fpc_match_coordinates list) option)
       \<Rightarrow> u8 list \<Rightarrow> u8 list \<Rightarrow> fpc_candidate list \<Rightarrow> match_output option" where
  "match_descriptors al first second coordinates source target pairs =
     (let out = (\<lambda>s r ps n tg. \<lparr>mo_status = s, mo_result = r, mo_pairs = ps, mo_pair_count = n,
                               mo_target = tg\<rparr>);
          n1 = length first; n2 = length second in
      if n1 = 0 \<or> n2 = 0 then Some (out 0 empty_result pairs 0 target)
      else if \<not> al (n1 * n2) \<or> \<not> al (n1 * 8) then Some (out (- 1) empty_result pairs 0 target)
      else case fpc_mutual_candidates al (distance_matrix first second) n1 n2 n2 64 0 0 pairs of
             Inl e \<Rightarrow> Some (out e empty_result pairs 0 target)
           | Inr (pairs1, n) \<Rightarrow>
               do { points \<leftarrow> coordinates (take n pairs1);
                    case points of
                      Inl e \<Rightarrow> Some (out e empty_result pairs1 n target)
                    | Inr ps \<Rightarrow>
                        do { (status, result, pairs2, target') \<leftarrow>
                               fpc_verify_geometry_profile300 ps (take n pairs1) source target empty_result;
                             Some (out status result (pairs2 @ drop n pairs1) n target') } })"

definition view_rejected :: "fpc_capture_payload_view \<Rightarrow> bool" where
  "view_rejected v \<longleftrightarrow> \<not> capture_compact_levels_valid v \<or> vw_levels v \<noteq> 1 \<or> vw_mode v \<noteq> 1
     \<or> vw_descriptor_bytes v \<noteq> 16 \<or> 32767 < unat (vw_count v)
     \<or> (vw_count v \<noteq> 0 \<and> vw_descriptors v = None)"

definition fpc_match_profile300_captures ::
    "(nat \<Rightarrow> bool) \<Rightarrow> fpc_capture_payload_view \<Rightarrow> fpc_capture_payload_view \<Rightarrow> u8 list
       \<Rightarrow> fpc_candidate list \<Rightarrow> fpc_geometry_result \<Rightarrow> nat \<Rightarrow> match_output option" where
  "fpc_match_profile300_captures al first second target pairs result pair_count =
     (let n1 = unat (vw_count first); n2 = unat (vw_count second) in
      if view_rejected first \<or> view_rejected second \<or> length pairs < n1
         \<or> (n1 \<noteq> 0 \<and> vw_membership first = None) \<or> length target < (n2 + 7) div 8
      then Some \<lparr>mo_status = - 1, mo_result = result, mo_pairs = pairs, mo_pair_count = pair_count,
                 mo_target = target\<rparr>
      else match_descriptors al
             (case vw_descriptors first of None \<Rightarrow> [] | Some d \<Rightarrow> descriptor_rows n1 d)
             (case vw_descriptors second of None \<Rightarrow> [] | Some d \<Rightarrow> descriptor_rows n2 d)
             (fpc_capture_candidate_coordinates first second)
             (case vw_membership first of None \<Rightarrow> [] | Some bits \<Rightarrow> take ((n1 + 7) div 8) bits)
             target pairs)"

definition feature_coordinates :: "fpc_feature list \<Rightarrow> fpc_feature list \<Rightarrow> fpc_candidate \<Rightarrow> fpc_match_coordinates" where
  "feature_coordinates first second pair =
     (let a = ft_point (first ! unat (cd_first pair)); b = ft_point (second ! unat (cd_second pair));
          q4 = (\<lambda>v :: u8. word_of_int (uint v * 16) :: u16)
      in \<lparr>mc_x = q4 (kp_x a), mc_y = q4 (kp_y a), mc_target_x = q4 (kp_x b), mc_target_y = q4 (kp_y b)\<rparr>)"

definition fpc_match_profile300_features ::
    "(nat \<Rightarrow> bool) \<Rightarrow> fpc_feature list \<Rightarrow> fpc_feature list \<Rightarrow> u8 list \<Rightarrow> u8 list
       \<Rightarrow> fpc_candidate list \<Rightarrow> fpc_geometry_result \<Rightarrow> nat \<Rightarrow> match_output option" where
  "fpc_match_profile300_features al first second source target pairs result pair_count =
     (if 32767 < length first \<or> 32767 < length second \<or> length pairs < length first
         \<or> length source < (length first + 7) div 8 \<or> length target < (length second + 7) div 8
      then Some \<lparr>mo_status = - 1, mo_result = result, mo_pairs = pairs, mo_pair_count = pair_count,
                 mo_target = target\<rparr>
      else match_descriptors al (map ft_descriptor first) (map ft_descriptor second)
             (\<lambda>candidates. Some (Inr (map (feature_coordinates first second) candidates)))
             source target pairs)"

subsection \<open>A collection\<close>

record fpc_collection_match_result =
  cm_count :: nat
  cm_scores :: "u16 list"
  cm_spatial_scores :: "u16 list"
  cm_transforms :: "u16 list list"
  cm_score :: u16
  cm_selected_capture :: int
  cm_rank :: f32

definition empty_match :: fpc_collection_match_result where
  "empty_match =
     \<lparr>cm_count = 0, cm_scores = replicate 80 0, cm_spatial_scores = replicate 80 0,
      cm_transforms = replicate 80 [0, 0, 0, 0], cm_score = 0, cm_selected_capture = 0, cm_rank = 0\<rparr>"

definition record_match ::
    "nat \<Rightarrow> fpc_geometry_result \<Rightarrow> fpc_collection_match_result \<Rightarrow> fpc_collection_match_result" where
  "record_match i geometry r =
     (let score = word_of_int (gr_inliers geometry) :: u16;
          r1 = r\<lparr>cm_scores := (cm_scores r)[i := score],
                 cm_spatial_scores := (cm_spatial_scores r)[i := word_of_int (gr_spatial_inliers geometry)],
                 cm_transforms := (cm_transforms r)[i := gr_transform geometry]\<rparr>
      in if cm_score r < score then r1\<lparr>cm_score := score, cm_selected_capture := int i\<rparr> else r1)"

fun match_captures ::
    "(nat \<Rightarrow> bool) \<Rightarrow> fpc_capture_payload_view \<Rightarrow> fpc_capture_payload_view list \<Rightarrow> nat \<Rightarrow> u16 list
       \<Rightarrow> fpc_candidate list \<Rightarrow> u8 list \<Rightarrow> fpc_collection_match_result
       \<Rightarrow> ((status + fpc_collection_match_result) \<times> u8 list) option" where
  "match_captures al query [] i previous pairs membership r = Some (Inr r, membership)"
| "match_captures al query (v # vs) i previous pairs membership r =
     do { m \<leftarrow> fpc_match_profile300_captures al v query membership pairs empty_result 0;
          if mo_status m \<noteq> 0 then Some (Inl (mo_status m), mo_target m)
          else let geometry = (if mo_pair_count m = 0 then (mo_result m)\<lparr>gr_transform := previous\<rparr>
                               else mo_result m)
               in match_captures al query vs (i + 1) (gr_transform geometry) (mo_pairs m) (mo_target m)
                    (record_match i geometry r) }"

definition fpc_match_profile300_collection ::
    "(nat \<Rightarrow> bool) \<Rightarrow> fpc_candidate list \<Rightarrow> fpc_loaded_collection \<Rightarrow> fpc_capture_payload_view \<Rightarrow> u8 list
       \<Rightarrow> ((status + fpc_collection_match_result) \<times> u8 list) option" where
  "fpc_match_profile300_collection al heap collection query membership =
     (let views = lc_captures collection;
          capacity = fold (\<lambda>v c. if c < unat (vw_count v) then unat (vw_count v) else c) views 0 in
      if 80 < length views \<or> list_ex (\<lambda>v. 32767 < unat (vw_count v)) views then Some (Inl (- 1), membership)
      else if capacity \<noteq> 0 \<and> \<not> al (capacity * 8) then Some (Inl (- 1), membership)
      else do { (r, membership') \<leftarrow> match_captures al query views 0 [0, 0, 0, 0] (take capacity heap) membership
                   (empty_match\<lparr>cm_count := length views, cm_selected_capture := - 1\<rparr>);
                Some (map_sum id (\<lambda>m. m\<lparr>cm_rank := f_of_int (uint (cm_score m))\<rparr>) r, membership') })"

subsection \<open>Identification over templates\<close>

record fpc_identification_policy =
  ip_threshold :: int
  ip_reported_score_limit :: int
  ip_good_score_threshold :: int
  ip_good_query_quality_threshold :: int

record fpc_identification_result =
  ir_score :: u16
  ir_reported_score :: u16
  ir_matched :: int
  ir_selected_template :: int
  ir_selected_capture :: int
  ir_good_quality :: int
  ir_evaluated :: nat
  ir_tested :: "u8 list"

definition identify_start :: fpc_identification_result where
  "identify_start =
     \<lparr>ir_score = 0, ir_reported_score = 0, ir_matched = 0, ir_selected_template = - 1,
      ir_selected_capture = 0, ir_good_quality = 0, ir_evaluated = 0, ir_tested = replicate 100 0\<rparr>"

text \<open>One template: its score is kept if it is the best so far, and stops the search if it passes.\<close>

definition identify_step ::
    "fpc_identification_policy \<Rightarrow> nat \<Rightarrow> fpc_collection_match_result \<Rightarrow> fpc_identification_result
       \<Rightarrow> fpc_identification_result" where
  "identify_step policy i m r0 =
     (let r = r0\<lparr>ir_tested := (ir_tested r0)[i := 1], ir_evaluated := ir_evaluated r0 + 1\<rparr> in
      if ir_score r < cm_score m
      then let r1 = r\<lparr>ir_score := cm_score m, ir_selected_capture := cm_selected_capture m\<rparr>
           in if ip_threshold policy \<le> uint (cm_score m)
              then r1\<lparr>ir_matched := 1, ir_selected_template := int i\<rparr> else r1
      else r)"

fun identify_loop ::
    "(fpc_loaded_collection \<Rightarrow> u8 list \<Rightarrow> ((status + fpc_collection_match_result) \<times> u8 list) option)
       \<Rightarrow> fpc_identification_policy \<Rightarrow> fpc_loaded_collection list \<Rightarrow> nat \<Rightarrow> u8 list
       \<Rightarrow> fpc_identification_result \<Rightarrow> ((status + fpc_identification_result) \<times> u8 list) option" where
  "identify_loop match policy [] i membership r = Some (Inr r, membership)"
| "identify_loop match policy (c # cs) i membership r =
     do { (m, membership') \<leftarrow> match c membership;
          case m of
            Inl e \<Rightarrow> Some (Inl e, membership')
          | Inr m \<Rightarrow>
              let r1 = identify_step policy i m r
              in if ir_matched r1 = 1 then Some (Inr r1, membership')
                 else identify_loop match policy cs (i + 1) membership' r1 }"

definition report_identification ::
    "fpc_identification_policy \<Rightarrow> int \<Rightarrow> fpc_identification_result \<Rightarrow> fpc_identification_result" where
  "report_identification policy query_quality r =
     r\<lparr>ir_reported_score := word_of_int (if uint (ir_score r) < ip_reported_score_limit policy
                                         then uint (ir_score r) else ip_reported_score_limit policy),
       ir_good_quality := if ip_good_score_threshold policy \<le> uint (ir_score r)
                             \<or> ip_good_query_quality_threshold policy \<le> query_quality then 1 else 0\<rparr>"

definition fpc_identify_profile300 ::
    "(nat \<Rightarrow> bool) \<Rightarrow> fpc_candidate list \<Rightarrow> fpc_loaded_collection list \<Rightarrow> fpc_capture_payload_view \<Rightarrow> int
       \<Rightarrow> u8 list \<Rightarrow> fpc_identification_policy
       \<Rightarrow> ((status + fpc_identification_result) \<times> u8 list) option" where
  "fpc_identify_profile300 al heap collections query query_quality membership policy =
     (if 100 < length collections \<or> ip_reported_score_limit policy < 0 then Some (Inl (- 1), membership)
      else do { (r, membership') \<leftarrow> identify_loop
                   (\<lambda>c mem. fpc_match_profile300_collection al heap c query mem) policy collections 0
                   membership identify_start;
                Some (map_sum id (report_identification policy query_quality) r, membership') })"

subsection \<open>Matching of loaded captures is safe\<close>

text \<open>\<open>view_ready v\<close>: the level table and the coordinates that \<open>v\<close> announces are there.\<close>

definition view_ready :: "fpc_capture_payload_view \<Rightarrow> bool" where
  "view_ready v \<longleftrightarrow>
     5 \<le> length (arr (vw_level_fields v)) \<and> vw_level_fields v \<noteq> None
     \<and> 2 * unat (vw_count v) \<le> length (arr (vw_compact_coordinates v))"

lemma compact_point_total:
  assumes "view_ready v" "capture_compact_levels_valid v" "vw_levels v = 1" "unat index < unat (vw_count v)"
  shows "capture_compact_point v index \<noteq> None"
proof -
  obtain table where t: "vw_level_fields v = Some table" "5 \<le> length table"
    using assms(1) by (auto simp: view_ready_def)
  then have "table \<noteq> []" by auto
  obtain compact where c: "vw_compact_coordinates v = Some compact" "2 * unat (vw_count v) \<le> length compact"
    using assms(1,4) by (cases "vw_compact_coordinates v") (auto simp: view_ready_def)
  have n: "unat (table ! 0) = unat (vw_count v)"
    using assms(2,3) t by (simp add: capture_compact_levels_valid_def level_count_field_def)
  have "level_of table (unat index) 0 (unat (table ! 0)) = Some 0"
    using assms(4) n by (subst level_of.simps) simp
  with t c n assms(4) \<open>table \<noteq> []\<close> show ?thesis
    by (simp add: capture_compact_point_def rd_def Let_def)
qed

lemma candidate_coordinates_total:
  assumes "view_ready first" "view_ready second" "vw_levels first = 1" "vw_levels second = 1"
  shows "fpc_capture_candidate_coordinates first second pairs \<noteq> None"
proof -
  have "those (map (candidate_coordinates first second) pairs) \<noteq> None"
    if "capture_compact_levels_valid first" "capture_compact_levels_valid second"
      "list_all (\<lambda>pair. unat (cd_first pair) < unat (vw_count first)
                       \<and> unat (cd_second pair) < unat (vw_count second)) pairs"
    using that(3)
  proof (induction pairs)
    case (Cons pair pairs)
    have "capture_compact_point first (cd_first pair) \<noteq> None"
      "capture_compact_point second (cd_second pair) \<noteq> None"
      using compact_point_total assms that(1,2) Cons.prems by simp_all
    then have "candidate_coordinates first second pair \<noteq> None"
      by (auto simp: candidate_coordinates_def)
    with Cons show ?case by auto
  qed simp
  then show ?thesis
    by (auto simp: fpc_capture_candidate_coordinates_def list_all_iff list_ex_iff not_le)
qed

lemma verify_geometry_target_length:
  assumes "fpc_verify_geometry_profile300 points pairs source target result = Some (s, r, ps, tg)"
  shows "length tg = length target"
proof -
  have f: "length tg' = length target" if "filter_consensus points source best t res pairs target = (r', ps', tg')"
    for best t res r' ps' tg'
    using that by (auto simp: filter_consensus_def Let_def split: prod.splits if_splits)
  show ?thesis using assms f
    by (auto simp: fpc_verify_geometry_profile300_def Let_def split: if_splits option.splits prod.splits)
qed

lemma match_descriptors_total:
  assumes "\<And>cs. coordinates cs \<noteq> None"
  shows "\<exists>m. match_descriptors al first second coordinates source target pairs = Some m
    \<and> length (mo_target m) = length target"
proof (cases "fpc_mutual_candidates al (distance_matrix first second) (length first) (length second)
                (length second) 64 0 0 pairs")
  case (Inl e)
  then show ?thesis by (auto simp: match_descriptors_def Let_def)
next
  case (Inr c)
  obtain pairs1 n where c: "c = (pairs1, n)" by fastforce
  obtain points where p: "coordinates (take n pairs1) = Some points" using assms by blast
  show ?thesis
  proof (cases points)
    case (Inl e)
    then show ?thesis using Inr c p by (auto simp: match_descriptors_def Let_def)
  next
    case i: (Inr ps)
    obtain s r ps2 tg where v: "fpc_verify_geometry_profile300 ps (take n pairs1) source target empty_result
        = Some (s, r, ps2, tg)"
      using verify_geometry_returns by blast
    then have "length tg = length target" by (rule verify_geometry_target_length)
    with Inr c p i v show ?thesis by (auto simp: match_descriptors_def Let_def)
  qed
qed

lemma match_captures_returns:
  assumes "view_ready first" "view_ready second"
  shows "\<exists>m. fpc_match_profile300_captures al first second target pairs result pair_count = Some m
    \<and> length (mo_target m) = length target"
proof (cases "view_rejected first \<or> view_rejected second")
  case True
  then show ?thesis by (auto simp: fpc_match_profile300_captures_def Let_def)
next
  case False
  then have "vw_levels first = 1" "vw_levels second = 1" by (simp_all add: view_rejected_def)
  note t = match_descriptors_total [OF candidate_coordinates_total [OF assms this], of al]
  show ?thesis unfolding fpc_match_profile300_captures_def Let_def
    using t by auto
qed

subsection \<open>Identification\<close>

text \<open>The results that a run of the identification loop draws from the matcher, in order.\<close>

fun match_trace ::
    "(fpc_loaded_collection \<Rightarrow> u8 list \<Rightarrow> ((status + fpc_collection_match_result) \<times> u8 list) option)
       \<Rightarrow> fpc_loaded_collection list \<Rightarrow> u8 list \<Rightarrow> fpc_collection_match_result list \<Rightarrow> bool" where
  "match_trace match cs membership [] = True"
| "match_trace match [] membership (m # ms) = False"
| "match_trace match (c # cs) membership (m # ms) =
     (\<exists>membership'. match c membership = Some (Inr m, membership') \<and> match_trace match cs membership' ms)"

definition passes :: "fpc_identification_policy \<Rightarrow> fpc_collection_match_result \<Rightarrow> bool" where
  "passes policy m \<longleftrightarrow> 0 < cm_score m \<and> ip_threshold policy \<le> uint (cm_score m)"

lemma identify_loop_trace:
  assumes "identify_loop match policy cs i membership r0 = Some (Inr r, membership')"
    "ir_matched r0 = 0" "ir_evaluated r0 = i" "i + length cs \<le> length (ir_tested r0)"
    "0 < ir_score r0 \<Longrightarrow> uint (ir_score r0) < ip_threshold policy"
  shows "\<exists>ms. match_trace match cs membership ms \<and> ir_evaluated r = i + length ms
    \<and> list_all (\<lambda>m. \<not> passes policy m) (butlast ms)
    \<and> ir_tested r = take i (ir_tested r0) @ replicate (length ms) 1 @ drop (i + length ms) (ir_tested r0)
    \<and> ir_score r = fold max (map cm_score ms) (ir_score r0)
    \<and> (if ms \<noteq> [] \<and> passes policy (last ms)
       then ir_matched r = 1 \<and> ir_selected_template r = int (i + length ms - 1)
            \<and> ir_score r = cm_score (last ms) \<and> ir_selected_capture r = cm_selected_capture (last ms)
       else ir_matched r = 0 \<and> ir_selected_template r = ir_selected_template r0 \<and> length ms = length cs)"
  using assms
proof (induction cs arbitrary: i membership r0)
  case Nil
  then show ?case by (intro exI [of _ "[]"]) simp
next
  case (Cons c cs)
  obtain m membership1 where m: "match c membership = Some (Inr m, membership1)"
  proof (cases "match c membership")
    case (Some a)
    then show ?thesis using Cons.prems(1) that by (cases a; cases "fst a") auto
  qed (use Cons.prems(1) in simp)
  let ?r1 = "identify_step policy i m r0"
  have step: "ir_evaluated ?r1 = i + 1" "ir_tested ?r1 = (ir_tested r0)[i := 1]"
    "ir_score ?r1 = max (ir_score r0) (cm_score m)"
    using Cons.prems(3) by (auto simp: identify_step_def Let_def max_def not_less)
  have split_i: "(ir_tested r0)[i := 1] = take i (ir_tested r0) @ 1 # drop (i + 1) (ir_tested r0)"
    using Cons.prems(4) by (simp add: upd_conv_take_nth_drop)
  have pass: "ir_score r0 < cm_score m" if "passes policy m"
    using that Cons.prems(5) by (cases "0 < ir_score r0") (auto simp: passes_def word_less_def not_less)
  show ?case
  proof (cases "passes policy m")
    case True
    with pass have lt: "ir_score r0 < cm_score m" by simp
    have "r = ?r1"
      using Cons.prems(1) m True lt by (simp add: identify_step_def Let_def passes_def)
    with True lt m step split_i show ?thesis
      by (intro exI [of _ "[m]"]) (auto simp: identify_step_def Let_def passes_def max_def)
  next
    case False
    then have same: "ir_matched ?r1 = 0" "ir_selected_template ?r1 = ir_selected_template r0"
      using Cons.prems(2) by (auto simp: identify_step_def Let_def passes_def word_gt_0)
    have loop: "identify_loop match policy cs (i + 1) membership1 ?r1 = Some (Inr r, membership')"
      using Cons.prems(1) m same(1) by (simp add: Let_def)
    have low: "uint (ir_score ?r1) < ip_threshold policy" if "0 < ir_score ?r1"
      using that False Cons.prems(5) step(3) by (auto simp: max_def passes_def split: if_splits)
    have fits: "i + 1 + length cs \<le> length (ir_tested ?r1)" using Cons.prems(4) step(2) by simp
    obtain ms where ms: "match_trace match cs membership1 ms" "ir_evaluated r = i + 1 + length ms"
      "list_all (\<lambda>m. \<not> passes policy m) (butlast ms)"
      "ir_tested r = take (i + 1) (ir_tested ?r1) @ replicate (length ms) 1 @ drop (i + 1 + length ms) (ir_tested ?r1)"
      "ir_score r = fold max (map cm_score ms) (ir_score ?r1)"
      "if ms \<noteq> [] \<and> passes policy (last ms)
       then ir_matched r = 1 \<and> ir_selected_template r = int (i + 1 + length ms - 1)
            \<and> ir_score r = cm_score (last ms) \<and> ir_selected_capture r = cm_selected_capture (last ms)
       else ir_matched r = 0 \<and> ir_selected_template r = ir_selected_template ?r1 \<and> length ms = length cs"
      using Cons.IH [OF loop same(1) step(1) fits low] by blast
    have t: "ir_tested r = take i (ir_tested r0) @ replicate (length (m # ms)) 1
        @ drop (i + length (m # ms)) (ir_tested r0)"
      using ms(4) Cons.prems(4) unfolding step(2) split_i by (simp add: min_def add.commute)
    show ?thesis
    proof (intro exI [of _ "m # ms"] conjI)
      show "match_trace match (c # cs) membership (m # ms)" using m ms(1) by auto
      show "list_all (\<lambda>m. \<not> passes policy m) (butlast (m # ms))" using ms(3) False by auto
      show "ir_score r = fold max (map cm_score (m # ms)) (ir_score r0)"
        using ms(5) step(3) by (simp add: max.commute)
    qed (use ms(2,6) t False same(2) in auto)
  qed
qed

lemma match_captures_list_total:
  assumes "list_all view_ready vs" "view_ready query"
  shows "match_captures al query vs i previous pairs membership r \<noteq> None"
  using assms(1)
proof (induction vs arbitrary: i previous pairs membership r)
  case (Cons v vs)
  then obtain m where "fpc_match_profile300_captures al v query membership pairs empty_result 0 = Some m"
    using match_captures_returns [of v query] assms(2) by fastforce
  with Cons show ?case by (simp add: Let_def)
qed simp

lemma bind_total: "m \<noteq> None \<Longrightarrow> (\<And>x. f x \<noteq> None) \<Longrightarrow> Option.bind m f \<noteq> None"
  by (cases m) auto

lemma match_collection_total:
  assumes "list_all view_ready (lc_captures c)" "view_ready query"
  shows "fpc_match_profile300_collection al heap c query membership \<noteq> None"
  unfolding fpc_match_profile300_collection_def Let_def
  by (simp add: bind_total [OF match_captures_list_total [OF assms]] case_prod_unfold del: not_None_eq)

lemma identify_loop_total:
  assumes "\<And>c membership. c \<in> set cs \<Longrightarrow> match c membership \<noteq> None"
  shows "identify_loop match policy cs i membership r \<noteq> None"
  using assms
proof (induction cs arbitrary: i membership r)
  case (Cons c cs)
  then obtain m where "match c membership = Some m" by fastforce
  then show ?case using Cons by (cases m; cases "fst m") (auto simp: Let_def)
qed simp

text \<open>Identification over loaded templates is safe: when the level tables and coordinate arrays
  that the captures announce are there, every lookup stays inside them, every geometric search ends,
  and the call returns a result or an error.\<close>

theorem identification_safe:
  assumes "list_all (\<lambda>c. list_all view_ready (lc_captures c)) collections" "view_ready query"
  shows "fpc_identify_profile300 al heap collections query query_quality membership policy \<noteq> None"
proof -
  have "identify_loop (\<lambda>c mem. fpc_match_profile300_collection al heap c query mem) policy collections 0
      membership identify_start \<noteq> None"
    by (rule identify_loop_total) (use assms match_collection_total in \<open>auto simp: list_all_iff\<close>)
  then show ?thesis by (auto simp: fpc_identify_profile300_def)
qed

definition sample_query :: fpc_capture_payload_view where
  "sample_query = sample_view\<lparr>vw_descriptor_bytes := 16, vw_descriptors := Some (replicate 32 7)\<rparr>"

theorem identification_safe_witness:
  "fpc_identify_profile300 (\<lambda>_. True) [] [\<lparr>lc_captures = [sample_query, sample_query], lc_capacity = 2\<rparr>] sample_query 80 [0]
     \<lparr>ip_threshold = 20, ip_reported_score_limit = 100, ip_good_score_threshold = 40,
      ip_good_query_quality_threshold = 50\<rparr> \<noteq> None"
  by (rule identification_safe)
    (simp_all add: view_ready_def sample_query_def sample_view_def empty_view_def)

text \<open>(C34) Identification tries the templates in order and stops at the first that passes, that is,
  whose score is positive and reaches the threshold. Exactly the tried templates are counted and
  marked as tested, the score is the largest one met, a match reports the template and the capture
  that gave it, and without a match every template has been tried. The reported score is capped.\<close>

theorem identification_first_pass:
  assumes "fpc_identify_profile300 al heap collections query query_quality membership policy
    = Some (Inr r, membership')"
  shows "\<exists>ms. match_trace (\<lambda>c mem. fpc_match_profile300_collection al heap c query mem) collections membership ms
    \<and> ir_evaluated r = length ms \<and> ir_tested r = replicate (length ms) 1 @ replicate (100 - length ms) 0
    \<and> list_all (\<lambda>m. \<not> passes policy m) (butlast ms)
    \<and> ir_score r = fold max (map cm_score ms) 0
    \<and> ir_reported_score r = word_of_int (min (uint (ir_score r)) (ip_reported_score_limit policy))
    \<and> (if ms \<noteq> [] \<and> passes policy (last ms)
       then ir_matched r = 1 \<and> ir_selected_template r = int (length ms - 1)
            \<and> ir_score r = cm_score (last ms) \<and> ir_selected_capture r = cm_selected_capture (last ms)
       else ir_matched r = 0 \<and> ir_selected_template r = - 1 \<and> length ms = length collections)"
proof -
  let ?match = "\<lambda>c mem. fpc_match_profile300_collection al heap c query mem"
  have small: "length collections \<le> 100"
    using assms by (simp add: fpc_identify_profile300_def split: if_splits)
  obtain r1 where r1: "identify_loop ?match policy collections 0 membership identify_start = Some (Inr r1, membership')"
    "r = report_identification policy query_quality r1"
  proof (cases "identify_loop ?match policy collections 0 membership identify_start")
    case (Some a)
    then show ?thesis using assms that
      by (cases a; cases "fst a") (auto simp: fpc_identify_profile300_def split: if_splits)
  qed (use assms in \<open>simp add: fpc_identify_profile300_def split: if_splits\<close>)
  have start: "ir_matched identify_start = 0" "ir_evaluated identify_start = 0" "ir_score identify_start = 0"
    "ir_tested identify_start = replicate 100 0" "ir_selected_template identify_start = - 1"
    by (simp_all add: identify_start_def)
  have pre: "0 + length collections \<le> length (ir_tested identify_start)"
    "0 < ir_score identify_start \<Longrightarrow> uint (ir_score identify_start) < ip_threshold policy"
    using small by (simp_all add: start)
  note tr = identify_loop_trace [OF r1(1) start(1,2) pre, unfolded start add_0 take_0 append_Nil]
  obtain ms where ms: "match_trace ?match collections membership ms" "ir_evaluated r1 = length ms"
    "list_all (\<lambda>m. \<not> passes policy m) (butlast ms)"
    "ir_tested r1 = replicate (length ms) 1 @ drop (length ms) (replicate 100 0)"
    "ir_score r1 = fold max (map cm_score ms) 0"
    "if ms \<noteq> [] \<and> passes policy (last ms)
       then ir_matched r1 = 1 \<and> ir_selected_template r1 = int (length ms - 1)
            \<and> ir_score r1 = cm_score (last ms) \<and> ir_selected_capture r1 = cm_selected_capture (last ms)
       else ir_matched r1 = 0 \<and> ir_selected_template r1 = - 1 \<and> length ms = length collections"
    by (rule exE [OF tr], assumption) (elim conjE, rule that; assumption)
  have least: "(if a < l then a else l) = min a l" for a l :: int by simp
  have rf: "ir_evaluated r = ir_evaluated r1" "ir_tested r = ir_tested r1" "ir_score r = ir_score r1"
    "ir_matched r = ir_matched r1" "ir_selected_template r = ir_selected_template r1"
    "ir_selected_capture r = ir_selected_capture r1"
    "ir_reported_score r = word_of_int (min (uint (ir_score r1)) (ip_reported_score_limit policy))"
    by (simp_all only: r1(2) report_identification_def least) simp_all
  show ?thesis
    unfolding rf using ms by (intro exI [of _ ms] conjI; (assumption | simp only: drop_replicate)?)
qed

theorem identification_first_pass_witness:
  "\<exists>r membership' ms. fpc_identify_profile300 (\<lambda>_. True) [] [\<lparr>lc_captures = [], lc_capacity = 0\<rparr>, \<lparr>lc_captures = [], lc_capacity = 0\<rparr>] sample_query
       80 [0] \<lparr>ip_threshold = 20, ip_reported_score_limit = 100, ip_good_score_threshold = 40,
                ip_good_query_quality_threshold = 50\<rparr> = Some (Inr r, membership')
     \<and> match_trace (\<lambda>c mem. fpc_match_profile300_collection (\<lambda>_. True) [] c sample_query mem)
         [\<lparr>lc_captures = [], lc_capacity = 0\<rparr>, \<lparr>lc_captures = [], lc_capacity = 0\<rparr>] [0] ms
     \<and> ir_evaluated r = length ms"
proof -
  let ?c = "\<lparr>lc_captures = [], lc_capacity = 0\<rparr>"
  have "\<exists>r. fpc_identify_profile300 (\<lambda>_. True) [] [?c, ?c] sample_query 80 [0]
      \<lparr>ip_threshold = 20, ip_reported_score_limit = 100, ip_good_score_threshold = 40,
       ip_good_query_quality_threshold = 50\<rparr> = Some (Inr r, [0])"
    by (simp add: fpc_identify_profile300_def fpc_match_profile300_collection_def identify_step_def
        identify_start_def empty_match_def Let_def)
  then obtain r where r: "fpc_identify_profile300 (\<lambda>_. True) [] [?c, ?c] sample_query 80 [0]
      \<lparr>ip_threshold = 20, ip_reported_score_limit = 100, ip_good_score_threshold = 40,
       ip_good_query_quality_threshold = 50\<rparr> = Some (Inr r, [0])" by blast
  with identification_first_pass [OF r] show ?thesis by blast
qed

end
