(* ===== verification/Transforms.thy ===== *)
theory Transforms
  imports Filters Sampling
begin

text \<open>
  Plane transforms in single precision (\<^verbatim>\<open>fpc_recovered.c\<close>: \<^verbatim>\<open>fpc_inverse_transform3\<close>,
  \<^verbatim>\<open>fpc_compose_transform3\<close>, \<^verbatim>\<open>fpc_inverse_affine6\<close>,
  \<^verbatim>\<open>fpc_clip_affine_warp_bounds\<close>, \<^verbatim>\<open>fpc_atan2_approx_float\<close>,
  \<^verbatim>\<open>fpc_transform_to_parameters\<close>, \<^verbatim>\<open>fpc_parameters_to_transform\<close>,
  \<^verbatim>\<open>fpc_q14_similarity_to_transform\<close>). A matrix is its row-major list; \<open>None\<close> is the
  return value -1, on which the code leaves the output alone.
\<close>

unbundle bit_operations_syntax

definition determinant3 :: "f32 list \<Rightarrow> f32" where
  "determinant3 a =
     (let det = ((a ! 0 * a ! 4) * a ! 8 + (a ! 1 * a ! 5) * a ! 6) + (a ! 2 * a ! 3) * a ! 7;
          det = det - (a ! 2 * a ! 4) * a ! 6;
          det = det - (a ! 3 * a ! 1) * a ! 8
      in det - (a ! 0 * a ! 5) * a ! 7)"

definition fpc_inverse_transform3 :: "f32 list \<Rightarrow> f32 list option" where
  "fpc_inverse_transform3 a =
     (let det = determinant3 a in
      if f_eq det 0 then None else
      let inv = 1 / det in
      Some [(a ! 8 * a ! 4 - a ! 7 * a ! 5) * inv,
            - ((a ! 8 * a ! 1 - a ! 2 * a ! 7) * inv),
            (a ! 1 * a ! 5 - a ! 4 * a ! 2) * inv,
            - ((a ! 3 * a ! 8 - a ! 6 * a ! 5) * inv),
            (a ! 8 * a ! 0 - a ! 6 * a ! 2) * inv,
            - ((a ! 0 * a ! 5 - a ! 2 * a ! 3) * inv),
            (a ! 3 * a ! 7 - a ! 6 * a ! 4) * inv,
            - ((a ! 7 * a ! 0 - a ! 6 * a ! 1) * inv),
            (a ! 4 * a ! 0 - a ! 3 * a ! 1) * inv])"

definition fpc_compose_transform3 :: "f32 list \<Rightarrow> f32 list \<Rightarrow> f32 list" where
  "fpc_compose_transform3 a b =
     map (\<lambda>(row, col). b ! (col + 6) * a ! (row * 3 + 2)
                         + (b ! (col + 3) * a ! (row * 3 + 1) + (b ! col * a ! (row * 3) + 0)))
       (raster 0 3 0 3)"

definition fpc_inverse_affine6 :: "f32 list \<Rightarrow> f32 list option" where
  "fpc_inverse_affine6 a =
     (let det = a ! 4 * a ! 0 - a ! 3 * a ! 1 in
      if f_eq det 0 then None else
      Some [a ! 4 / det, - (a ! 1 / det), (a ! 5 * a ! 1 - a ! 4 * a ! 2) / det,
            - (a ! 3 / det), a ! 0 / det, - ((a ! 5 * a ! 0 - a ! 3 * a ! 2) / det)])"

subsection \<open>Clipping a warp to a canvas\<close>

definition warp_corners :: "f32 list \<Rightarrow> f32 \<Rightarrow> f32 \<Rightarrow> (f32 \<times> f32) list" where
  "warp_corners m w h =
     [(m ! 0 * 0 + m ! 1 * 0 + m ! 2, m ! 3 * 0 + m ! 4 * 0 + m ! 5),
      (m ! 0 * w + m ! 1 * 0 + m ! 2, m ! 3 * w + m ! 4 * 0 + m ! 5),
      (m ! 1 * h + m ! 0 * w + m ! 2, m ! 4 * h + m ! 3 * w + m ! 5),
      (m ! 1 * h + m ! 0 * 0 + m ! 2, m ! 4 * h + m ! 3 * 0 + m ! 5)]"

definition corner_in_range :: "f32 \<times> f32 \<Rightarrow> bool" where
  "corner_in_range p \<longleftrightarrow>
     (F32 0xCF000000) \<le> fst p \<and> fst p < (F32 0x4EFFFFFF)
     \<and> (F32 0xCF000000) \<le> snd p \<and> snd p < (F32 0x4EFFFFFF)"

definition float_min :: "f32 list \<Rightarrow> f32" where
  "float_min xs = fold (\<lambda>x m. if x < m then x else m) xs (xs ! 0)"

definition float_max :: "f32 list \<Rightarrow> f32" where
  "float_max xs = fold (\<lambda>x m. if m < x then x else m) xs (xs ! 0)"

definition fpc_clip_affine_warp_bounds ::
    "f32 list \<Rightarrow> int \<Rightarrow> int \<Rightarrow> int \<Rightarrow> int \<Rightarrow> (int list \<times> f32 list) option" where
  "fpc_clip_affine_warp_bounds affine source_width source_height canvas_width canvas_height =
     (if source_width < 1 \<or> source_height < 1 \<or> canvas_width < 1 \<or> canvas_height < 1 then None else
      case fpc_inverse_affine6 affine of
        None \<Rightarrow> None
      | Some backward \<Rightarrow>
          let corners = warp_corners backward (f_of_int (source_width - 1)) (f_of_int (source_height - 1)) in
          if \<not> list_all corner_in_range corners then None else
          let xs = map fst corners; ys = map snd corners;
              left = max 0 (f_to_i32 (float_min xs));
              top = max 0 (f_to_i32 (float_min ys));
              right = min (f_to_i32 (float_max xs) + 1) (canvas_width - 1);
              bottom = min (f_to_i32 (float_max ys) + 1) (canvas_height - 1)
          in Some ([left, top, max 0 (right - left + 1), max 0 (bottom - top + 1)],
                   affine[2 := (f_of_int left * affine ! 0 + f_of_int top * affine ! 1) + affine ! 2,
                          5 := (f_of_int top * affine ! 4 + f_of_int left * affine ! 3) + affine ! 5]))"

subsection \<open>Polar parameters\<close>

definition fpc_atan2_approx_float :: "f32 \<Rightarrow> f32 \<Rightarrow> f32" where
  "fpc_atan2_approx_float sine cosine =
     (let (a, b, offset) =
            (if sine < 0 then (- sine, - cosine, (F32 0xC0490FDB)) else (sine, cosine, 0));
          (a, b, offset) = (if b < 0 then (- b, a, offset + (F32 0x3FC90FDB)) else (a, b, offset));
          (a, b, offset) =
            (if b < a then ((a + a) - (b + a), b + a, offset + (F32 0x3F490FDB)) else (a, b, offset));
          t = (a * (F32 0x3F6C835E) - b * (F32 0x3EC3EF15)) / (b * (F32 0x3F6C835E) + a * (F32 0x3EC3EF15));
          square = t * t;
          value = (F32 0x3DE38E39) - square * (F32 0x3DBA2E8C);
          value = value * square - (F32 0x3E124925);
          value = value * square + (F32 0x3E4CCCCD);
          value = value * square - (F32 0x3EAAAAAB);
          value = value * square + 1
      in value * t + (offset + (F32 0x3EC90FDB)))"

definition fpc_transform_to_parameters :: "f32 list \<Rightarrow> f32 list" where
  "fpc_transform_to_parameters matrix =
     (let scale = fpc_sqrt_recovered (matrix ! 4 * matrix ! 0 - matrix ! 1 * matrix ! 3)
      in [matrix ! 2, matrix ! 5, fpc_atan2_approx_float (matrix ! 3 / scale) (matrix ! 0 / scale), scale])"

definition fpc_parameters_to_transform :: "f32 list \<Rightarrow> f32 list option" where
  "fpc_parameters_to_transform parameters =
     map_option (\<lambda>(c, s). [c * parameters ! 3, - (s * parameters ! 3), parameters ! 0,
                           s * parameters ! 3, c * parameters ! 3, parameters ! 1, 0, 0, 1])
       (fpc_sincos_recovered (parameters ! 2))"

definition fpc_q14_similarity_to_transform :: "u16 list \<Rightarrow> f32 list" where
  "fpc_q14_similarity_to_transform fixed =
     (let c = i16_f32 (fixed ! 0) * (F32 0x38800000); s = i16_f32 (fixed ! 1) * (F32 0x38800000)
      in [c, - s, i16_f32 (fixed ! 2) * (F32 0x3D800000), s, c, i16_f32 (fixed ! 3) * (F32 0x3D800000), 0, 0, 1])"

end
