(* ===== verification/CaptureGroups.thy ===== *)
theory CaptureGroups
  imports Transforms Masks
begin

text \<open>
  Capture groups and their coverage (\<^verbatim>\<open>fpc_recovered.c\<close>:
  \<^verbatim>\<open>fpc_weighted_group_transform\<close>, \<^verbatim>\<open>fpc_capture_group_bounds\<close>,
  \<^verbatim>\<open>fpc_rebuild_capture_groups\<close>, \<^verbatim>\<open>fpc_capture_canvas_transform\<close>,
  \<^verbatim>\<open>fpc_normalize_group_canvas\<close>, \<^verbatim>\<open>fpc_build_group_mask_union\<close>). Matches are in
  append order, \<open>later * (later - 1) / 2 + earlier\<close>; a group number is an integer, \<open>- 1\<close> for a
  capture without a group; the transforms of all captures are one list, nine entries each. The two
  unbounded loops of the grouping run on fuel: every round visits one more capture.
\<close>

unbundle bit_operations_syntax

record fpc_capture_match =
  cx_transform :: "u16 list"
  cx_inliers :: int
  cx_success :: u8

record fpc_capture_groups_state =
  cg_group_count :: int
  cg_selected_group :: int
  cg_reference_capture :: int
  cg_center_x :: f32
  cg_center_y :: f32

record fpc_capture_coverage =
  cc_image_width :: int
  cc_image_height :: int
  cc_mask_width :: int
  cc_mask_height :: int
  cc_mask_stride_bits :: nat
  cc_mask :: "u32 list"

definition append_pairs :: "nat \<Rightarrow> (nat \<times> nat) list" where
  "append_pairs n = concat (map (\<lambda>later. map (\<lambda>earlier. (later, earlier)) [0..<later]) [1..<n])"

definition pair_match :: "fpc_capture_match list \<Rightarrow> nat \<times> nat \<Rightarrow> fpc_capture_match" where
  "pair_match matches le = matches ! (fst le * (fst le - 1) div 2 + snd le)"

definition matrix_at :: "f32 list \<Rightarrow> nat \<Rightarrow> f32 list" where
  "matrix_at transforms i = take 9 (drop (i * 9) transforms)"

definition put_matrix :: "nat \<Rightarrow> f32 list \<Rightarrow> f32 list \<Rightarrow> f32 list" where
  "put_matrix i m transforms = take (i * 9) transforms @ m @ drop (i * 9 + 9) transforms"

subsection \<open>The weighted transform of a capture\<close>

definition neighbour_transform ::
    "fpc_capture_match \<Rightarrow> nat \<times> nat \<Rightarrow> int list \<Rightarrow> f32 list \<Rightarrow> f32 list option" where
  "neighbour_transform pair le groups transforms =
     (case le of (later, earlier) \<Rightarrow>
        let matrix = fpc_q14_similarity_to_transform (cx_transform pair) in
        if groups ! later \<noteq> - 1
        then map_option (fpc_compose_transform3 (matrix_at transforms later)) (fpc_inverse_transform3 matrix)
        else Some (fpc_compose_transform3 (matrix_at transforms earlier) matrix))"

definition joins_group :: "nat \<Rightarrow> int list \<Rightarrow> nat \<times> nat \<Rightarrow> bool" where
  "joins_group capture groups le \<longleftrightarrow>
     (case le of (later, earlier) \<Rightarrow>
        (later = capture \<and> groups ! earlier \<noteq> - 1) \<or> (earlier = capture \<and> groups ! later \<noteq> - 1))"

definition add_weighted ::
    "fpc_capture_match list \<Rightarrow> nat \<Rightarrow> int list \<Rightarrow> f32 list \<Rightarrow> nat \<times> nat
       \<Rightarrow> (f32 list \<times> u32) option \<Rightarrow> (f32 list \<times> u32) option" where
  "add_weighted matches capture groups transforms le acc =
     (let pair = pair_match matches le in
      if cx_success pair = 0 \<or> \<not> joins_group capture groups le then acc else
      do { (sums, weight_sum) \<leftarrow> acc;
           composed \<leftarrow> neighbour_transform pair le groups transforms;
           let parameters = fpc_transform_to_parameters composed;
               weight = f_of_int (cx_inliers pair)
           in Some (map2 (\<lambda>s p. s + p * weight) sums parameters, weight_sum + word_of_int (cx_inliers pair)) })"

definition fpc_weighted_group_transform ::
    "fpc_capture_match list \<Rightarrow> nat \<Rightarrow> nat \<Rightarrow> int list \<Rightarrow> f32 list \<Rightarrow> f32 list option" where
  "fpc_weighted_group_transform matches n capture groups transforms =
     (if 32767 < n \<or> n \<le> capture \<or> length matches < n * (n - 1) div 2 then None
      else do { (sums, weight_sum) \<leftarrow> fold (add_weighted matches capture groups transforms) (append_pairs n)
                   (Some ([0, 0, 0, 0], 0));
                let total_weight = signed_u32 weight_sum;
                    mean = (if total_weight \<noteq> 0 then map (\<lambda>s. s / f_of_int total_weight) sums else sums)
                in fpc_parameters_to_transform mean })"

subsection \<open>Bounds of a group\<close>

record extent =
  ex_xmin :: int
  ex_ymin :: int
  ex_xmax :: int
  ex_ymax :: int
  ex_found :: bool

definition extent_corner :: "f32 list \<Rightarrow> int \<Rightarrow> int \<Rightarrow> nat \<times> nat \<Rightarrow> extent \<Rightarrow> extent option" where
  "extent_corner back width height c e =
     (let x = f_of_int (width - 1) * f_of_int (int (fst c));
          y = f_of_int (height - 1) * f_of_int (int (snd c));
          divisor = (x * back ! 6 + y * back ! 7) + back ! 8 in
      if f_eq divisor 0 then None else
      let tx = ((y * back ! 1 + x * back ! 0) + back ! 2) / divisor;
          ty = ((x * back ! 3 + y * back ! 4) + back ! 5) / divisor;
          inside = (\<lambda>v. (F32 0xCF000000) \<le> v \<and> v < (F32 0x4F000000)) in
      if \<not> (inside tx \<and> inside ty) then None else
      Some \<lparr>ex_xmin = if tx < f_of_int (ex_xmin e) then f_to_i32 tx else ex_xmin e,
            ex_ymin = if ty < f_of_int (ex_ymin e) then f_to_i32 ty else ex_ymin e,
            ex_xmax = if f_of_int (ex_xmax e) < tx then f_to_i32 tx else ex_xmax e,
            ex_ymax = if f_of_int (ex_ymax e) < ty then f_to_i32 ty else ex_ymax e,
            ex_found = True\<rparr>)"

fun extent_corners :: "f32 list \<Rightarrow> int \<Rightarrow> int \<Rightarrow> (nat \<times> nat) list \<Rightarrow> extent \<Rightarrow> extent option" where
  "extent_corners back width height [] e = Some e"
| "extent_corners back width height (c # cs) e =
     do { e' \<leftarrow> extent_corner back width height c e; extent_corners back width height cs e' }"

fun extent_captures ::
    "int list \<Rightarrow> int list \<Rightarrow> int list \<Rightarrow> f32 list \<Rightarrow> int \<Rightarrow> nat list \<Rightarrow> extent \<Rightarrow> extent option" where
  "extent_captures widths heights groups transforms grp [] e = Some e"
| "extent_captures widths heights groups transforms grp (i # rest) e =
     (if groups ! i = - 1 \<or> (0 \<le> grp \<and> groups ! i \<noteq> grp)
      then extent_captures widths heights groups transforms grp rest e
      else if widths ! i < 1 \<or> heights ! i < 1 then None
      else do { back \<leftarrow> fpc_inverse_transform3 (matrix_at transforms i);
                e' \<leftarrow> extent_corners back (widths ! i) (heights ! i) [(0, 0), (1, 0), (1, 1), (0, 1)] e;
                extent_captures widths heights groups transforms grp rest e' })"

definition fpc_capture_group_bounds ::
    "int list \<Rightarrow> int list \<Rightarrow> int list \<Rightarrow> f32 list \<Rightarrow> nat \<Rightarrow> int \<Rightarrow> int list option" where
  "fpc_capture_group_bounds widths heights groups transforms n grp =
     (if 32767 < n then None
      else do { e \<leftarrow> extent_captures widths heights groups transforms grp [0..<n]
                   \<lparr>ex_xmin = 2147483647, ex_ymin = 2147483647, ex_xmax = - 2147483648,
                    ex_ymax = - 2147483648, ex_found = False\<rparr>;
                if \<not> ex_found e then None
                else Some [ex_xmin e, ex_ymin e,
                           signed_u32 (word_of_int (ex_xmax e) - word_of_int (ex_xmin e) + 1),
                           signed_u32 (word_of_int (ex_ymax e) - word_of_int (ex_ymin e) + 1)] })"

subsection \<open>Rebuilding the groups\<close>

record grouping =
  gp_visited :: "bool list"
  gp_groups :: "int list"
  gp_roots :: "u16 list"
  gp_transforms :: "f32 list"

definition capture_weights ::
    "fpc_capture_match list \<Rightarrow> nat \<Rightarrow> bool list \<Rightarrow> (nat \<Rightarrow> bool) \<Rightarrow> u32 list" where
  "capture_weights matches n visited reached =
     fold (\<lambda>(later, earlier) w.
             let pair = pair_match matches (later, earlier); inliers = word_of_int (cx_inliers pair) in
             if cx_success pair = 0 then w
             else let w1 = (if \<not> visited ! later \<and> reached earlier then w[later := w ! later + inliers] else w)
                  in if \<not> visited ! earlier \<and> reached later then w1[earlier := w1 ! earlier + inliers] else w1)
       (append_pairs n) (replicate n 0)"

text \<open>The first capture of the largest positive weight, or \<open>n\<close>.\<close>

definition heaviest :: "u32 list \<Rightarrow> nat \<Rightarrow> nat" where
  "heaviest weights n =
     snd (fold (\<lambda>i (maximum, selected).
                  if maximum < signed_u32 (weights ! i) then (signed_u32 (weights ! i), i)
                  else (maximum, selected)) [0..<n] (0, n))"

definition adopt_capture ::
    "fpc_capture_match list \<Rightarrow> nat \<Rightarrow> bool \<Rightarrow> int \<Rightarrow> nat \<Rightarrow> grouping \<Rightarrow> status \<times> grouping" where
  "adopt_capture matches n preserve grp selected g0 =
     (let g = g0\<lparr>gp_visited := (gp_visited g0)[selected := True]\<rparr> in
      if preserve \<and> gp_groups g ! selected = grp then (0, g) else
      case fpc_weighted_group_transform matches n selected (gp_groups g) (gp_transforms g) of
        None \<Rightarrow> (- 1, g)
      | Some m \<Rightarrow> (0, g\<lparr>gp_transforms := put_matrix selected m (gp_transforms g),
                       gp_groups := (gp_groups g)[selected := grp]\<rparr>))"

fun grow_group ::
    "nat \<Rightarrow> fpc_capture_match list \<Rightarrow> nat \<Rightarrow> bool \<Rightarrow> int \<Rightarrow> grouping \<Rightarrow> (status \<times> grouping) option" where
  "grow_group fuel matches n preserve grp g =
     (let selected = heaviest (capture_weights matches n (gp_visited g) (\<lambda>i. gp_groups g ! i \<noteq> - 1)) n in
      if selected = n then Some (0, g) else
      case fuel of
        0 \<Rightarrow> None
      | Suc fuel' \<Rightarrow>
          (case adopt_capture matches n preserve grp selected g of
             (status, g') \<Rightarrow>
               if status \<noteq> 0 then Some (status, g') else grow_group fuel' matches n preserve grp g'))"

declare grow_group.simps [simp del]

fun seed_groups ::
    "nat \<Rightarrow> fpc_capture_match list \<Rightarrow> nat \<Rightarrow> bool \<Rightarrow> int \<Rightarrow> grouping \<Rightarrow> (status \<times> int \<times> grouping) option" where
  "seed_groups fuel matches n preserve grp g =
     (let selected = heaviest (capture_weights matches n (gp_visited g) (\<lambda>_. True)) n in
      if selected = n then Some (0, grp, g) else
      case fuel of
        0 \<Rightarrow> None
      | Suc fuel' \<Rightarrow>
          let grp' = grp + 1;
              g1 = \<lparr>gp_visited = (gp_visited g)[selected := True],
                    gp_groups = (gp_groups g)[selected := grp'],
                    gp_roots = (gp_roots g)[nat grp' := of_nat selected],
                    gp_transforms = put_matrix selected [1, 0, 0, 0, 1, 0, 0, 0, 1] (gp_transforms g)\<rparr>
          in do { (status, g2) \<leftarrow> grow_group n matches n preserve grp' g1;
                  if status \<noteq> 0 then Some (status, grp', g2)
                  else seed_groups fuel' matches n preserve grp' g2 })"

declare seed_groups.simps [simp del]

text \<open>With no group selected, the last group that is large enough is; an earlier selection follows its
  reference capture.\<close>

fun select_group ::
    "int list \<Rightarrow> int list \<Rightarrow> nat \<Rightarrow> int \<Rightarrow> grouping \<Rightarrow> nat list \<Rightarrow> fpc_capture_groups_state \<times> u32
       \<Rightarrow> status \<times> fpc_capture_groups_state \<times> u32" where
  "select_group widths heights n minimum g [] st = (0, st)"
| "select_group widths heights n minimum g (k # ks) st =
     (if int (length (filter (\<lambda>i. gp_groups g ! i = int k) [0..<n])) < minimum
      then select_group widths heights n minimum g ks st
      else case fpc_capture_group_bounds widths heights (gp_groups g) (gp_transforms g) n (int k) of
             None \<Rightarrow> (- 1, st)
           | Some b \<Rightarrow>
               select_group widths heights n minimum g ks
                 ((fst st)\<lparr>cg_selected_group := int k, cg_reference_capture := uint (gp_roots g ! k),
                           cg_center_x := f_of_int (b ! 2) * (F32 0x3F000000) + f_of_int (b ! 0),
                           cg_center_y := f_of_int (b ! 3) * (F32 0x3F000000) + f_of_int (b ! 1)\<rparr>,
                  snd st OR 0x20))"

definition follow_reference ::
    "nat \<Rightarrow> u16 list \<Rightarrow> int list \<Rightarrow> fpc_capture_groups_state \<Rightarrow> u16 list \<times> fpc_capture_groups_state" where
  "follow_reference n roots groups st =
     (let r = cg_reference_capture st in
      if 0 \<le> r \<and> r < int n \<and> 0 \<le> groups ! nat r
      then (roots[nat (groups ! nat r) := of_nat (nat r)], st\<lparr>cg_selected_group := groups ! nat r\<rparr>)
      else (roots, st\<lparr>cg_selected_group := 0, cg_reference_capture := uint (roots ! 0)\<rparr>))"

definition fpc_rebuild_capture_groups ::
    "(nat \<Rightarrow> bool) \<Rightarrow> fpc_capture_match list \<Rightarrow> nat \<Rightarrow> int list \<Rightarrow> int list \<Rightarrow> int \<Rightarrow> bool \<Rightarrow> int list \<Rightarrow> u16 list
       \<Rightarrow> f32 list \<Rightarrow> fpc_capture_groups_state \<Rightarrow> u32
       \<Rightarrow> (status \<times> int list \<times> u16 list \<times> f32 list \<times> fpc_capture_groups_state \<times> u32) option" where
  "fpc_rebuild_capture_groups al matches n widths heights minimum preserve groups roots transforms st flags =
     (if n = 0 \<or> 32767 < n \<or> length matches < n * (n - 1) div 2 \<or> \<not> al n \<or> \<not> al (n * 4)
      then Some (- 1, groups, roots, transforms, st, flags)
      else do { (status, grp, g) \<leftarrow> seed_groups n matches n preserve (- 1)
                   \<lparr>gp_visited = replicate n False, gp_groups = replicate n (- 1) @ drop n groups,
                    gp_roots = roots, gp_transforms = transforms\<rparr>;
                Some (if status \<noteq> 0
                      then (status, gp_groups g, gp_roots g, gp_transforms g, st, flags)
                      else let st1 = st\<lparr>cg_group_count := grp + 1\<rparr> in
                        if cg_selected_group st1 = - 1
                        then (case select_group widths heights n minimum g [0..<nat (grp + 1)] (st1, flags) of
                                (status', st2, flags') \<Rightarrow>
                                  (status', gp_groups g, gp_roots g, gp_transforms g, st2, flags'))
                        else (case follow_reference n (gp_roots g) (gp_groups g) st1 of
                                (roots', st2) \<Rightarrow> (0, gp_groups g, roots', gp_transforms g, st2, flags))) })"

subsection \<open>Canvas transforms\<close>

definition fpc_capture_canvas_transform ::
    "f32 list \<Rightarrow> nat \<Rightarrow> nat \<Rightarrow> u16 \<Rightarrow> int \<Rightarrow> int \<Rightarrow> int \<Rightarrow> int \<Rightarrow> f32 list option" where
  "fpc_capture_canvas_transform transforms n capture reference reference_width reference_height
     canvas_width canvas_height =
     (if n \<le> capture \<or> canvas_width < 1 \<or> canvas_height < 1
         \<or> (reference \<noteq> 0xFFFF \<and> (n \<le> unat reference \<or> reference_width < 1 \<or> reference_height < 1)) then None
      else
        let half = (\<lambda>v. f_of_int v * (F32 0x3F000000));
            shift_by = (\<lambda>c r. if reference = 0xFFFF then half c else half c - half r);
            base = (if reference = 0xFFFF then [1, 0, 0, 0, 1, 0, 0, 0, 1]
                    else matrix_at transforms (unat reference));
            translation = [1, 0, shift_by canvas_width reference_width,
                           0, 1, shift_by canvas_height reference_height, 0, 0, 1]
        in map_option (\<lambda>back. fpc_compose_transform3 translation (fpc_compose_transform3 base back))
             (fpc_inverse_transform3 (matrix_at transforms capture)))"

definition group_replacement ::
    "int list \<Rightarrow> int list \<Rightarrow> int list \<Rightarrow> u16 list \<Rightarrow> nat \<Rightarrow> int \<Rightarrow> int \<Rightarrow> f32 list \<Rightarrow> nat \<Rightarrow> f32 list option" where
  "group_replacement widths heights groups roots n canvas_width canvas_height transforms i =
     (if groups ! i = - 1 then Some (matrix_at transforms i)
      else if groups ! i < 0 \<or> int n \<le> groups ! i then None
      else let base = roots ! nat (groups ! i) in
        if base \<noteq> 0xFFFF \<and> n \<le> unat base then None
        else do { matrix \<leftarrow> fpc_capture_canvas_transform transforms n i base
                     (if base = 0xFFFF then 0 else widths ! unat base)
                     (if base = 0xFFFF then 0 else heights ! unat base) canvas_width canvas_height;
                  fpc_inverse_transform3 matrix })"

definition fpc_normalize_group_canvas ::
    "(nat \<Rightarrow> bool) \<Rightarrow> int list \<Rightarrow> int list \<Rightarrow> int list \<Rightarrow> u16 list \<Rightarrow> nat \<Rightarrow> int \<Rightarrow> int \<Rightarrow> f32 list
       \<Rightarrow> status \<times> f32 list" where
  "fpc_normalize_group_canvas al widths heights groups roots n canvas_width canvas_height transforms =
     (if 80 < n then (- 1, transforms)
      else if n = 0 then (0, transforms)
      else if \<not> al (n * 9 * 4) then (2, transforms)
      else case those (map (group_replacement widths heights groups roots n canvas_width canvas_height
                              transforms) [0..<n]) of
             None \<Rightarrow> (- 1, transforms)
           | Some ms \<Rightarrow> (0, concat ms @ drop (9 * n) transforms))"

subsection \<open>Coverage of a group\<close>

definition row_bits :: "nat \<Rightarrow> nat" where
  "row_bits width = (width + 31) div 32 * 32"

definition cover_capture ::
    "(nat \<Rightarrow> bool) \<Rightarrow> fpc_capture_coverage list \<Rightarrow> nat \<Rightarrow> f32 list \<Rightarrow> u16 \<Rightarrow> int \<Rightarrow> int \<Rightarrow> nat \<Rightarrow> u32 list
       \<Rightarrow> status \<times> u32 list" where
  "cover_capture al captures n transforms base canvas_width canvas_height i output =
     (let cap = captures ! i in
      case do { canvas \<leftarrow> fpc_capture_canvas_transform transforms n i base
                   (if base = 0xFFFF then 0 else cc_image_width (captures ! unat base))
                   (if base = 0xFFFF then 0 else cc_image_height (captures ! unat base))
                   canvas_width canvas_height;
                back \<leftarrow> fpc_inverse_transform3 canvas;
                fpc_clip_affine_warp_bounds back (cc_mask_width cap) (cc_mask_height cap)
                  canvas_width canvas_height } of
        None \<Rightarrow> (- 1, output)
      | Some (bounds, local) \<Rightarrow>
          let w = nat (bounds ! 2); h = nat (bounds ! 3); local_stride = row_bits w in
          if w = 0 \<or> h = 0 then (0, output)
          else if SIZE_MAX div (local_stride div 32) div 4 < h \<or> \<not> al (local_stride div 32 * h * 4)
          then (- 1, output)
          else case fpc_warp_packed_mask (cc_mask cap) (nat (cc_mask_width cap)) (nat (cc_mask_height cap))
                      (cc_mask_stride_bits cap) (replicate (local_stride div 32 * h) 0) w h local_stride
                      local 0 of
                 (status, warped) \<Rightarrow>
                   if status \<noteq> 0 then (status, output)
                   else fpc_union_packed_mask output (nat canvas_width) (nat canvas_height)
                          (row_bits (nat canvas_width)) warped w h local_stride
                          (nat (bounds ! 0)) (nat (bounds ! 1)))"

fun cover_captures ::
    "(nat \<Rightarrow> u32 list \<Rightarrow> status \<times> u32 list) \<Rightarrow> int list \<Rightarrow> int \<Rightarrow> nat list \<Rightarrow> u32 list \<Rightarrow> status \<times> u32 list" where
  "cover_captures cover groups grp [] output = (0, output)"
| "cover_captures cover groups grp (i # rest) output =
     (if groups ! i \<noteq> grp then cover_captures cover groups grp rest output
      else case cover i output of
             (status, output') \<Rightarrow>
               if status \<noteq> 0 then (status, output') else cover_captures cover groups grp rest output')"

definition fpc_build_group_mask_union ::
    "(nat \<Rightarrow> bool) \<Rightarrow> fpc_capture_coverage list \<Rightarrow> int list \<Rightarrow> u16 list \<Rightarrow> f32 list \<Rightarrow> int \<Rightarrow> int \<Rightarrow> int
       \<Rightarrow> u32 list \<Rightarrow> status \<times> u32 list" where
  "fpc_build_group_mask_union al captures groups roots transforms grp canvas_width canvas_height output =
     (let n = length captures; stride = row_bits (nat canvas_width);
          words = stride div 32 * nat canvas_height in
      if grp < 0 \<or> int n \<le> grp \<or> 32767 < n \<or> canvas_width < 1 \<or> canvas_height < 1
         \<or> 2147483616 < canvas_width \<or> SIZE_MAX div (stride div 32) < nat canvas_height
         \<or> length output < words then (- 1, output)
      else let cleared = replicate words 0 @ drop words output; base = roots ! nat grp in
        if base \<noteq> 0xFFFF \<and> n \<le> unat base then (- 1, cleared)
        else cover_captures (cover_capture al captures n transforms base canvas_width canvas_height)
               groups grp [0..<n] cleared)"

subsection \<open>Correctness of the grouping\<close>

text \<open>\<open>groups_valid n k groups roots\<close>: the first \<open>n\<close> captures lie in groups below \<open>k\<close> or in none,
  and each of the \<open>k\<close> groups has a root capture that lies in it.\<close>

definition groups_valid :: "nat \<Rightarrow> int \<Rightarrow> int list \<Rightarrow> u16 list \<Rightarrow> bool" where
  "groups_valid n k groups roots \<longleftrightarrow>
     0 \<le> k \<and> k \<le> int n \<and> (\<forall>i<n. - 1 \<le> groups ! i \<and> groups ! i < k)
     \<and> (\<forall>j<nat k. unat (roots ! j) < n \<and> groups ! unat (roots ! j) = int j)"

definition unvisited :: "grouping \<Rightarrow> nat" where
  "unvisited g = length (filter Not (gp_visited g))"

lemma unvisited_mark:
  assumes "i < length (gp_visited g)" "\<not> gp_visited g ! i" "gp_visited g' = (gp_visited g)[i := True]"
  shows "unvisited g = Suc (unvisited g')"
proof -
  let ?v = "gp_visited g"
  have "?v = take i ?v @ ?v ! i # drop (Suc i) ?v" using assms(1) by (rule id_take_nth_drop)
  then have "?v = take i ?v @ False # drop (Suc i) ?v" using assms(2) by simp
  moreover have "?v[i := True] = take i ?v @ True # drop (Suc i) ?v"
    using assms(1) by (rule upd_conv_take_nth_drop)
  ultimately obtain a b where "?v = a @ False # b" "?v[i := True] = a @ True # b" by blast
  then show ?thesis by (simp add: unvisited_def assms(3))
qed

lemma unvisited_zero: "unvisited g = 0 \<Longrightarrow> i < length (gp_visited g) \<Longrightarrow> gp_visited g ! i"
  by (auto simp: unvisited_def filter_empty_conv)

lemma capture_weights_unvisited:
  "length (capture_weights matches n visited reached) = n
   \<and> (\<forall>i<n. visited ! i \<longrightarrow> capture_weights matches n visited reached ! i = 0)"
proof -
  define ok where "ok = (\<lambda>w :: u32 list. length w = n \<and> (\<forall>i<n. visited ! i \<longrightarrow> w ! i = 0))"
  have upd: "ok (w[j := v])" if "ok w" "\<not> visited ! j" for w j v
    using that by (cases "j < n") (auto simp: ok_def nth_list_update)
  have "ok (fold f ps w)" if "ok w" "\<And>p w. ok w \<Longrightarrow> ok (f p w)" for f and ps :: "(nat \<times> nat) list" and w
    using that by (induction ps arbitrary: w) auto
  note fold_inv = this
  have "ok (capture_weights matches n visited reached)"
    unfolding capture_weights_def
  proof (rule fold_inv)
    show "ok (replicate n 0)" by (simp add: ok_def)
  qed (auto simp: Let_def intro!: upd)
  then show ?thesis by (simp add: ok_def)
qed

lemma heaviest_cases:
  "heaviest weights n = n \<or> (heaviest weights n < n \<and> 0 < signed_u32 (weights ! heaviest weights n))"
proof -
  let ?f = "\<lambda>i (maximum, selected).
              if maximum < signed_u32 (weights ! i) then (signed_u32 (weights ! i), i) else (maximum, selected)"
  have "\<exists>m s. fold ?f [0..<k] (0, n) = (m, s)
      \<and> 0 \<le> m \<and> (s = n \<or> (s < k \<and> 0 < signed_u32 (weights ! s)))" for k
    by (induction k) (auto simp: less_Suc_eq)
  from this [of n] show ?thesis by (auto simp: heaviest_def)
qed

lemma heaviest_unvisited:
  assumes "heaviest (capture_weights matches n visited reached) n \<noteq> n"
  shows "heaviest (capture_weights matches n visited reached) n < n
    \<and> \<not> visited ! heaviest (capture_weights matches n visited reached) n"
  using assms heaviest_cases [of "capture_weights matches n visited reached" n]
    capture_weights_unvisited [of matches n visited reached]
  by (auto simp: signed_u32_def)

text \<open>What one growing step and the whole growth of a group keep.\<close>

definition grown :: "nat \<Rightarrow> int \<Rightarrow> grouping \<Rightarrow> grouping \<Rightarrow> bool" where
  "grown n grp g g' \<longleftrightarrow>
     length (gp_visited g') = length (gp_visited g) \<and> length (gp_groups g') = length (gp_groups g)
     \<and> gp_roots g' = gp_roots g \<and> drop n (gp_groups g') = drop n (gp_groups g)
     \<and> unvisited g' \<le> unvisited g
     \<and> (\<forall>i<n. (gp_visited g ! i \<longrightarrow> gp_visited g' ! i)
          \<and> (gp_groups g' ! i = gp_groups g ! i \<or> (gp_groups g' ! i = grp \<and> \<not> gp_visited g ! i)))"

lemma grown_refl: "grown n grp g g"
  by (simp add: grown_def)

lemma grown_trans: "grown n grp g g' \<Longrightarrow> grown n grp g' g'' \<Longrightarrow> grown n grp g g''"
  by (fastforce simp: grown_def)

lemma adopt_capture_grown:
  assumes "adopt_capture matches n preserve grp i g = (status, g')" "i < n" "\<not> gp_visited g ! i"
    "length (gp_visited g) = n" "n \<le> length (gp_groups g)"
  shows "grown n grp g g' \<and> unvisited g = Suc (unvisited g')"
proof -
  have v: "gp_visited g' = (gp_visited g)[i := True]" "gp_roots g' = gp_roots g"
    "gp_groups g' = gp_groups g \<or> gp_groups g' = (gp_groups g)[i := grp]"
    using assms(1) by (auto simp: adopt_capture_def Let_def split: if_splits option.splits)
  have u: "unvisited g = Suc (unvisited g')" using v(1) assms by (intro unvisited_mark [of i]) auto
  moreover have "grown n grp g g'"
    using v(3)
  proof
    assume "gp_groups g' = gp_groups g"
    with v u assms show ?thesis by (auto simp: grown_def nth_list_update)
  next
    assume "gp_groups g' = (gp_groups g)[i := grp]"
    with v u assms show ?thesis by (auto simp: grown_def nth_list_update)
  qed
  ultimately show ?thesis by simp
qed

lemma grow_group_total:
  assumes "length (gp_visited g) = n" "n \<le> length (gp_groups g)" "unvisited g \<le> fuel"
  shows "\<exists>status g'. grow_group fuel matches n preserve grp g = Some (status, g') \<and> grown n grp g g'"
  using assms
proof (induction fuel arbitrary: g)
  case (0 g)
  let ?w = "capture_weights matches n (gp_visited g) (\<lambda>i. gp_groups g ! i \<noteq> - 1)"
  have "heaviest ?w n = n"
  proof (rule ccontr)
    assume "heaviest ?w n \<noteq> n"
    then have "heaviest ?w n < n" "\<not> gp_visited g ! heaviest ?w n" using heaviest_unvisited by blast+
    with 0 unvisited_zero [of g "heaviest ?w n"] show False by simp
  qed
  then show ?case by (simp add: grow_group.simps [of 0] grown_refl)
next
  case (Suc fuel g)
  let ?i = "heaviest (capture_weights matches n (gp_visited g) (\<lambda>i. gp_groups g ! i \<noteq> - 1)) n"
  show ?case
  proof (cases "?i = n")
    case True
    then show ?thesis by (simp add: grow_group.simps [of "Suc fuel"] grown_refl)
  next
    case False
    then have i: "?i < n" "\<not> gp_visited g ! ?i" using heaviest_unvisited by blast+
    obtain status g1 where a: "adopt_capture matches n preserve grp ?i g = (status, g1)" by fastforce
    have g1: "grown n grp g g1" "unvisited g = Suc (unvisited g1)"
      using adopt_capture_grown [OF a i Suc.prems(1,2)] by auto
    then have "length (gp_visited g1) = n" "n \<le> length (gp_groups g1)" "unvisited g1 \<le> fuel"
      using Suc.prems by (auto simp: grown_def)
    from Suc.IH [OF this] obtain s g2 where
      "grow_group fuel matches n preserve grp g1 = Some (s, g2)" "grown n grp g1 g2" by blast
    with False a g1 grown_trans [of n grp g g1 g2] show ?thesis
      by (cases "status = 0") (simp_all add: grow_group.simps [of "Suc fuel"])
  qed
qed

text \<open>The state between two seeds: groups up to \<open>grp\<close> exist, and every root has been visited.\<close>

definition seeded :: "nat \<Rightarrow> int \<Rightarrow> grouping \<Rightarrow> bool" where
  "seeded n grp g \<longleftrightarrow>
     length (gp_visited g) = n \<and> n \<le> length (gp_groups g) \<and> n \<le> length (gp_roots g) \<and> n \<le> 32767
     \<and> groups_valid n (grp + 1) (gp_groups g) (gp_roots g) \<and> grp + 1 + int (unvisited g) \<le> int n
     \<and> (\<forall>j<nat (grp + 1). gp_visited g ! unat (gp_roots g ! j))"

lemma seeded_grown:
  assumes "seeded n grp g" "grown n grp g g'" "0 \<le> grp"
  shows "seeded n grp g'"
  unfolding seeded_def groups_valid_def
proof (intro conjI allI impI)
  fix i assume i: "i < n"
  have "- 1 \<le> gp_groups g ! i" "gp_groups g ! i < grp + 1"
    using assms(1) i by (auto simp: seeded_def groups_valid_def)
  moreover have "gp_groups g' ! i = gp_groups g ! i \<or> gp_groups g' ! i = grp"
    using assms(2) i by (auto simp: grown_def)
  ultimately show "- 1 \<le> gp_groups g' ! i" "gp_groups g' ! i < grp + 1" using assms(3) by auto
next
  fix j assume j: "j < nat (grp + 1)"
  let ?r = "unat (gp_roots g ! j)"
  have r: "?r < n" "gp_groups g ! ?r = int j" "gp_visited g ! ?r" "gp_roots g' = gp_roots g"
    using assms j by (auto simp: seeded_def groups_valid_def grown_def)
  then show "unat (gp_roots g' ! j) < n" by simp
  show "gp_groups g' ! unat (gp_roots g' ! j) = int j" "gp_visited g' ! unat (gp_roots g' ! j)"
    using assms(2) r by (auto simp: grown_def)
qed (use assms in \<open>auto simp: seeded_def groups_valid_def grown_def\<close>)

lemma seeded_new:
  assumes "seeded n grp g" "i < n" "\<not> gp_visited g ! i"
    "gp_visited g' = (gp_visited g)[i := True]" "gp_groups g' = (gp_groups g)[i := grp + 1]"
    "gp_roots g' = (gp_roots g)[nat (grp + 1) := of_nat i]"
  shows "seeded n (grp + 1) g' \<and> unvisited g = Suc (unvisited g')"
proof -
  have s: "length (gp_visited g) = n" "n \<le> length (gp_groups g)" "n \<le> length (gp_roots g)" "n \<le> 32767"
    "0 \<le> grp + 1" "grp + 1 + int (unvisited g) \<le> int n"
    "\<And>i. i < n \<Longrightarrow> - 1 \<le> gp_groups g ! i \<and> gp_groups g ! i < grp + 1"
    "\<And>j. j < nat (grp + 1) \<Longrightarrow> unat (gp_roots g ! j) < n"
    "\<And>j. j < nat (grp + 1) \<Longrightarrow> gp_groups g ! unat (gp_roots g ! j) = int j"
    "\<And>j. j < nat (grp + 1) \<Longrightarrow> gp_visited g ! unat (gp_roots g ! j)"
    using assms(1) by (auto simp: seeded_def groups_valid_def)
  have u: "unvisited g = Suc (unvisited g')" using assms s by (intro unvisited_mark [of i]) auto
  have i16: "unat (of_nat i :: u16) = i" using assms(2) s(4) by (simp add: unat_of_nat take_bit_nat_eq_self)
  have k: "nat (grp + 1) < length (gp_roots g)" using s u by linarith
  have old: "gp_roots g' ! j = gp_roots g ! j" if "j < nat (grp + 1)" for j
    using that by (simp add: assms(6))
  have new: "gp_roots g' ! nat (grp + 1) = of_nat i" using k by (simp add: assms(6))
  have other: "unat (gp_roots g ! j) \<noteq> i" if "j < nat (grp + 1)" for j
    using s(10) [OF that] assms(3) by metis
  have keep: "(gp_groups g)[i := grp + 1] ! unat (gp_roots g ! j) = int j"
    "(gp_visited g)[i := True] ! unat (gp_roots g ! j)" if "j < nat (grp + 1)" for j
    using other [OF that] s(9) [OF that] s(10) [OF that] by simp_all
  have j2: "j < nat (grp + 1) \<or> j = nat (grp + 1)" if "j < nat (grp + 1 + 1)" for j
    using that s(5) by linarith
  have "seeded n (grp + 1) g'"
    unfolding seeded_def groups_valid_def
  proof (intro conjI allI impI)
    fix m assume "m < n"
    then show "- 1 \<le> gp_groups g' ! m" "gp_groups g' ! m < grp + 1 + 1"
      using s(2,5) s(7) [of m] by (cases "m = i", auto simp: assms(5))+
  next
    fix j assume j: "j < nat (grp + 1 + 1)"
    show "unat (gp_roots g' ! j) < n"
      using j2 [OF j] s(8) old new assms(2) i16 by auto
    show "gp_groups g' ! unat (gp_roots g' ! j) = int j"
      using j2 [OF j]
      by (rule disjE) (use s(2,5) old new keep assms(2) i16 in \<open>simp_all add: assms(5)\<close>)
    show "gp_visited g' ! unat (gp_roots g' ! j)"
      using j2 [OF j]
      by (rule disjE) (use s(1) old new keep assms(2) i16 in \<open>simp_all add: assms(4)\<close>)
  qed (use s u assms(4-6) in auto)
  with u show ?thesis by simp
qed

text \<open>Lengths and the entries past the captures, which no step touches.\<close>

definition same_frame :: "nat \<Rightarrow> grouping \<Rightarrow> grouping \<Rightarrow> bool" where
  "same_frame n g g' \<longleftrightarrow>
     length (gp_groups g') = length (gp_groups g) \<and> length (gp_roots g') = length (gp_roots g)
     \<and> drop n (gp_groups g') = drop n (gp_groups g)"

definition seed_capture :: "nat \<Rightarrow> int \<Rightarrow> grouping \<Rightarrow> grouping" where
  "seed_capture i grp g =
     \<lparr>gp_visited = (gp_visited g)[i := True], gp_groups = (gp_groups g)[i := grp],
      gp_roots = (gp_roots g)[nat grp := of_nat i],
      gp_transforms = put_matrix i [1, 0, 0, 0, 1, 0, 0, 0, 1] (gp_transforms g)\<rparr>"

lemma seed_groups_stop:
  "heaviest (capture_weights matches n (gp_visited g) (\<lambda>_. True)) n = n
   \<Longrightarrow> seed_groups fuel matches n preserve grp g = Some (0, grp, g)"
  by (subst seed_groups.simps) simp

lemma seed_groups_step:
  "heaviest (capture_weights matches n (gp_visited g) (\<lambda>_. True)) n = i \<Longrightarrow> i \<noteq> n
   \<Longrightarrow> grow_group n matches n preserve (grp + 1) (seed_capture i (grp + 1) g) = Some (status, g2)
   \<Longrightarrow> seed_groups (Suc fuel) matches n preserve grp g
        = (if status \<noteq> 0 then Some (status, grp + 1, g2) else seed_groups fuel matches n preserve (grp + 1) g2)"
  by (subst seed_groups.simps) (simp add: Let_def seed_capture_def)

lemma seed_groups_total:
  assumes "seeded n grp g" "unvisited g \<le> fuel" "- 1 \<le> grp"
  shows "\<exists>status grp' g'. seed_groups fuel matches n preserve grp g = Some (status, grp', g')
    \<and> seeded n grp' g' \<and> same_frame n g g' \<and> - 1 \<le> grp'"
  using assms
proof (induction fuel arbitrary: grp g)
  case (0 grp g)
  let ?w = "capture_weights matches n (gp_visited g) (\<lambda>_. True)"
  have "heaviest ?w n = n"
  proof (rule ccontr)
    assume "heaviest ?w n \<noteq> n"
    then have "heaviest ?w n < n" "\<not> gp_visited g ! heaviest ?w n" using heaviest_unvisited by blast+
    with 0 unvisited_zero [of g "heaviest ?w n"] show False by (simp add: seeded_def)
  qed
  with 0 show ?case by (simp add: seed_groups_stop same_frame_def)
next
  case (Suc fuel grp g)
  let ?i = "heaviest (capture_weights matches n (gp_visited g) (\<lambda>_. True)) n"
  let ?g1 = "seed_capture ?i (grp + 1) g"
  show ?case
  proof (cases "?i = n")
    case True
    with Suc.prems show ?thesis by (simp add: seed_groups_stop same_frame_def)
  next
    case False
    then have i: "?i < n" "\<not> gp_visited g ! ?i" using heaviest_unvisited by blast+
    have s1: "seeded n (grp + 1) ?g1" "unvisited g = Suc (unvisited ?g1)"
      using seeded_new [OF Suc.prems(1) i, of ?g1] by (simp_all add: seed_capture_def)
    obtain status g2 where g2: "grow_group n matches n preserve (grp + 1) ?g1 = Some (status, g2)"
      "grown n (grp + 1) ?g1 g2"
    proof -
      have "length (gp_visited ?g1) = n" "n \<le> length (gp_groups ?g1)" "unvisited ?g1 \<le> n"
        using s1(1) by (simp_all add: seeded_def) (simp add: unvisited_def, metis length_filter_le)
      from grow_group_total [OF this, of matches preserve "grp + 1"] that show ?thesis by blast
    qed
    have s2: "seeded n (grp + 1) g2" using seeded_grown [OF s1(1) g2(2)] Suc.prems(3) by simp
    have f2: "same_frame n g g2" using g2(2) i(1) by (simp add: grown_def same_frame_def seed_capture_def)
    have u2: "unvisited g2 \<le> fuel" using g2(2) s1(2) Suc.prems(2) by (simp add: grown_def)
    obtain status' grp' g3 where g3: "seed_groups fuel matches n preserve (grp + 1) g2 = Some (status', grp', g3)"
      "seeded n grp' g3" "same_frame n g2 g3" "- 1 \<le> grp'"
      using Suc.IH [OF s2 u2] Suc.prems(3) by auto
    have f3: "same_frame n g g3" using f2 g3(3) by (simp add: same_frame_def)
    show ?thesis
      unfolding seed_groups_step [OF refl False g2(1)] using g3(1,2,4) f3 s2 f2 Suc.prems(3)
      by (cases "status = 0") simp_all
  qed
qed

text \<open>The only error code of the grouping is \<open>- 1\<close>.\<close>

lemma grow_group_status:
  "grow_group fuel matches n preserve grp g = Some (status, g') \<Longrightarrow> status = 0 \<or> status = - 1"
proof (induction fuel arbitrary: g)
  case (Suc fuel g)
  obtain s1 g1 where "adopt_capture matches n preserve grp
      (heaviest (capture_weights matches n (gp_visited g) (\<lambda>i. gp_groups g ! i \<noteq> - 1)) n) g = (s1, g1)" by fastforce
  moreover from this have "s1 = 0 \<or> s1 = - 1"
    by (auto simp: adopt_capture_def Let_def split: if_splits option.splits)
  ultimately show ?case using Suc
    by (auto simp: grow_group.simps [of "Suc fuel"] Let_def split: if_splits)
qed (auto simp: grow_group.simps [of 0] Let_def split: if_splits)

lemma seed_groups_status:
  "seed_groups fuel matches n preserve grp g = Some (status, grp', g') \<Longrightarrow> status = 0 \<or> status = - 1"
proof (induction fuel arbitrary: grp g)
  case (Suc fuel grp g)
  let ?i = "heaviest (capture_weights matches n (gp_visited g) (\<lambda>_. True)) n"
  show ?case
  proof (cases "?i = n")
    case True
    with Suc.prems show ?thesis by (simp add: seed_groups_stop)
  next
    case False
    show ?thesis
    proof (cases "grow_group n matches n preserve (grp + 1) (seed_capture ?i (grp + 1) g)")
      case None
      with Suc.prems False show ?thesis by (simp add: seed_groups.simps [of "Suc fuel"] Let_def seed_capture_def)
    next
      case (Some r)
      obtain s1 g1 where r: "r = (s1, g1)" by fastforce
      have "s1 = 0 \<or> s1 = - 1" using Some r grow_group_status by blast
      with Suc Some r False show ?thesis by (auto simp: seed_groups_step split: if_splits)
    qed
  qed
qed (auto simp: seed_groups.simps [of 0] Let_def split: if_splits)

lemma select_group_status:
  "fst (select_group widths heights n minimum g ks st) = 0 \<or> fst (select_group widths heights n minimum g ks st) = - 1"
  by (induction ks arbitrary: st) (auto split: option.splits)

lemma select_group_count:
  "cg_group_count (fst (snd (select_group widths heights n minimum g ks st))) = cg_group_count (fst st)"
  by (induction ks arbitrary: st) (auto split: option.splits)

lemma follow_reference_valid:
  assumes "follow_reference n roots groups st = (roots', st')" "groups_valid n k groups roots" "n \<le> 32767"
    "n \<le> length roots"
  shows "groups_valid n k groups roots' \<and> length roots' = length roots \<and> cg_group_count st' = cg_group_count st"
proof -
  let ?r = "nat (cg_reference_capture st)"
  consider "roots' = roots" "cg_group_count st' = cg_group_count st"
    | "roots' = roots[nat (groups ! ?r) := of_nat ?r]" "cg_group_count st' = cg_group_count st"
      "?r < n" "0 \<le> groups ! ?r"
    using assms(1) by (auto simp: follow_reference_def Let_def split: if_splits)
  then show ?thesis
  proof cases
    case 2
    have r16: "unat (of_nat ?r :: u16) = ?r" using 2(3) assms(3) by (simp add: unat_of_nat take_bit_nat_eq_self)
    have "unat (roots' ! j) < n \<and> groups ! unat (roots' ! j) = int j" if "j < nat k" for j
    proof (cases "j = nat (groups ! ?r)")
      case True
      have "k \<le> int n" using assms(2) by (simp add: groups_valid_def)
      then have "j < length roots" using that assms(4) by linarith
      then have "roots' ! j = of_nat ?r" using True 2(1) by simp
      with r16 2(3,4) True show ?thesis by simp
    next
      case False
      with 2(1) assms(2) that show ?thesis by (simp add: groups_valid_def)
    qed
    with 2 assms(2) show ?thesis by (simp add: groups_valid_def)
  qed (use assms(2) in simp)
qed

lemma rebuild_groups_spec:
  assumes "n \<le> length groups" "n \<le> length roots"
  shows "\<exists>status groups' roots' transforms' st' flags'.
    fpc_rebuild_capture_groups al matches n widths heights minimum preserve groups roots transforms st flags
      = Some (status, groups', roots', transforms', st', flags')
    \<and> length groups' = length groups \<and> length roots' = length roots \<and> drop n groups' = drop n groups
    \<and> (if status = 0 then groups_valid n (cg_group_count st') groups' roots' else status = - 1)"
proof (cases "n = 0 \<or> 32767 < n \<or> length matches < n * (n - 1) div 2 \<or> \<not> al n \<or> \<not> al (n * 4)")
  case True
  then show ?thesis unfolding fpc_rebuild_capture_groups_def by simp
next
  case False
  let ?g0 = "\<lparr>gp_visited = replicate n False, gp_groups = replicate n (- 1) @ drop n groups,
              gp_roots = roots, gp_transforms = transforms\<rparr>"
  have "seeded n (- 1) ?g0" "unvisited ?g0 = n"
    using assms False by (auto simp: seeded_def groups_valid_def unvisited_def nth_append)
  then obtain status grp g where g: "seed_groups n matches n preserve (- 1) ?g0 = Some (status, grp, g)"
    "seeded n grp g" "same_frame n ?g0 g" "- 1 \<le> grp"
    using seed_groups_total [of n "- 1" ?g0 n matches preserve] by auto
  have fr: "length (gp_groups g) = length groups" "length (gp_roots g) = length roots"
    "drop n (gp_groups g) = drop n groups"
    using g(3) assms(1) by (simp_all add: same_frame_def)
  have gv: "groups_valid n (grp + 1) (gp_groups g) (gp_roots g)" using g(2) by (simp add: seeded_def)
  let ?st = "st\<lparr>cg_group_count := grp + 1\<rparr>"
  obtain s2 st2 f2 where sel: "select_group widths heights n minimum g [0..<nat (grp + 1)] (?st, flags) = (s2, st2, f2)"
    by (metis prod_cases3)
  have c2: "cg_group_count st2 = grp + 1"
    using select_group_count [of widths heights n minimum g "[0..<nat (grp + 1)]" "(?st, flags)"] sel by simp
  have sts: "status = 0 \<or> status = - 1" "s2 = 0 \<or> s2 = - 1"
    using seed_groups_status [OF g(1)] select_group_status [of widths heights n minimum g "[0..<nat (grp + 1)]" "(?st, flags)"] sel
    by simp_all
  obtain r3 st3 where fol: "follow_reference n (gp_roots g) (gp_groups g) ?st = (r3, st3)" by fastforce
  have v3: "groups_valid n (grp + 1) (gp_groups g) r3" "length r3 = length roots" "cg_group_count st3 = grp + 1"
    using follow_reference_valid [OF fol gv] False assms(2) fr by auto
  show ?thesis unfolding fpc_rebuild_capture_groups_def
    using False g(1) fr gv c2 v3 sel fol sts by (auto simp: Let_def)
qed

text \<open>(C33) Rebuilding the capture groups always returns: every round of its two unbounded loops
  marks a new capture. It keeps the lengths of its arrays and touches no group entry beyond the
  captures; it fails with - 1 only, and when it succeeds, the reported number of groups is at most the number of captures, every
  capture lies in one of these groups or in none, and every group has a root capture that lies in
  it.\<close>

theorem rebuild_groups_valid:
  assumes "n \<le> length groups" "n \<le> length roots"
  shows "\<exists>status groups' roots' transforms' st' flags'.
    fpc_rebuild_capture_groups al matches n widths heights minimum preserve groups roots transforms st flags
      = Some (status, groups', roots', transforms', st', flags')
    \<and> length groups' = length groups \<and> length roots' = length roots \<and> drop n groups' = drop n groups
    \<and> (if status = 0 then groups_valid n (cg_group_count st') groups' roots' else status = - 1)"
  using assms by (rule rebuild_groups_spec)

theorem rebuild_groups_valid_witness:
  "\<exists>status groups' roots' transforms' st' flags'.
    fpc_rebuild_capture_groups (\<lambda>_. True)
      [\<lparr>cx_transform = [16384, 0, 64, 32], cx_inliers = 9, cx_success = 1\<rparr>] 2 [112, 112] [88, 88] 4 False
      [- 1, - 1, 7] [0, 0, 0] (replicate 18 0)
      \<lparr>cg_group_count = 0, cg_selected_group = - 1, cg_reference_capture = - 1, cg_center_x = 0,
        cg_center_y = 0\<rparr> 0
      = Some (status, groups', roots', transforms', st', flags')
    \<and> length groups' = length [- 1, - 1, 7 :: int] \<and> length roots' = length [0, 0, 0 :: u16]
    \<and> drop 2 groups' = drop 2 [- 1, - 1, 7]
    \<and> (if status = 0 then groups_valid 2 (cg_group_count st') groups' roots' else status = - 1)"
  by (rule rebuild_groups_valid) simp_all

end
