(* ===== verification/Metrics.thy ===== *)
theory Metrics
  imports CaptureGroups
begin

text \<open>
  Enrollment metrics (\<^verbatim>\<open>fpc_recovered.c\<close>: \<^verbatim>\<open>fpc_update_enrollment_metrics\<close>,
  \<^verbatim>\<open>fpc_compute_enrollment_metrics\<close>): the histories of covered area and of motion between
  consecutive captures. A rejected call returns the state unchanged.
\<close>

unbundle bit_operations_syntax

record fpc_enrollment_metrics =
  em_area :: "f32 list"
  em_motion :: "f32 list"
  em_latest_motion :: f32
  em_normalized_motion :: f32
  em_relative_area_change :: f32

definition area_step :: "f32 list \<Rightarrow> nat \<Rightarrow> f32" where
  "area_step areas i = (let change = areas ! i - areas ! (i - 1) in if change < 0 then - change else change)"

text \<open>The weighted area changes of the last captures and their normalizer.\<close>

definition area_change :: "f32 list \<Rightarrow> nat \<Rightarrow> f32 \<times> f32" where
  "area_change areas n =
     (let change = area_step areas (n - 1) in
      if n < 3 then (change, 1) else
      let change3 = area_step areas (n - 2) * (F32 0x3F2B851F) + change in
      if n < 4 then (change3, (F32 0x3FD5C290))
      else (area_step areas (n - 3) * (F32 0x3EA8F5C3) + change3, (F32 0x40000000)))"

text \<open>Positions relative to the capture count, as the code's negative loop variables.\<close>

definition recent_pairs :: "int \<Rightarrow> (int \<times> int) list" where
  "recent_pairs n =
     concat (map (\<lambda>later. map (\<lambda>earlier. (later, earlier)) [max (- n) (- 4)..min later (- 1) - 1])
               [max (1 - n) (- 3)..- 1])"

definition match_distance :: "f32 \<Rightarrow> fpc_capture_match \<Rightarrow> f32" where
  "match_distance fallback pair =
     (if cx_success pair = 0 then fallback
      else let x = i16_f32 (cx_transform pair ! 2) * (F32 0x3D800000);
               y = i16_f32 (cx_transform pair ! 3) * (F32 0x3D800000)
           in fpc_sqrt_recovered (y * y + x * x))"

definition add_motion ::
    "f32 \<Rightarrow> fpc_capture_match list \<Rightarrow> int \<Rightarrow> int \<times> int \<Rightarrow> f32 \<times> f32 \<Rightarrow> f32 \<times> f32" where
  "add_motion fallback matches n le st =
     (case le of (later, earlier) \<Rightarrow> case st of (motion, latest) \<Rightarrow>
        let distance = match_distance fallback
              (matches ! (nat (earlier + n) + nat (n + later) * nat (n + later - 1) div 2))
        in ((f_of_int earlier + (f_of_int later + (F32 0x41000000))) * distance + motion,
            if later = - 1 \<and> earlier = - 2 then distance else latest))"

definition fpc_update_enrollment_metrics ::
    "nat \<Rightarrow> f32 \<Rightarrow> int \<Rightarrow> int \<Rightarrow> fpc_capture_match list \<Rightarrow> fpc_enrollment_metrics
       \<Rightarrow> status \<times> fpc_enrollment_metrics" where
  "fpc_update_enrollment_metrics n area image_width image_height matches st =
     (if n = 0 \<or> 80 < n \<or> \<not> 0 < area \<or> image_width < 1 \<or> image_height < 1
         \<or> length matches < n * (n - 1) div 2 then (- 1, st)
      else let st1 = st\<lparr>em_area := (em_area st)[n - 1 := area]\<rparr> in
        if n < 2 then (0, st1) else
        let (change, normalizer) = area_change (em_area st1) n;
            diagonal = word_of_int image_height * word_of_int image_height
                         + word_of_int image_width * word_of_int image_width :: u32;
            fallback = fpc_sqrt_recovered (f_of_int (signed_u32 diagonal));
            (motion, latest) = fold (add_motion fallback matches (int n)) (recent_pairs (int n))
                                 (0, em_latest_motion st1);
            mean = motion / (if n = 2 then (F32 0x40A00000) else if n = 3 then (F32 0x41400000) else (F32 0x41900000))
        in (0, st1\<lparr>em_relative_area_change := change / (normalizer * area),
                   em_latest_motion := latest,
                   em_motion := (em_motion st1)[n - 1 := mean],
                   em_normalized_motion := mean / fpc_sqrt_recovered area\<rparr>))"

text \<open>The area of every group in turn; \<open>msk\<close> is reused. \<open>None\<close>: a group could not be rendered.\<close>

fun covered_area ::
    "(int \<Rightarrow> u32 list \<Rightarrow> status \<times> u32 list) \<Rightarrow> (u32 list \<Rightarrow> status + u32) \<Rightarrow> nat list \<Rightarrow> u32 list \<Rightarrow> f32
       \<Rightarrow> f32 option" where
  "covered_area render count_bits [] msk aligned = Some aligned"
| "covered_area render count_bits (g # gs) msk aligned =
     (case render (int g) msk of
        (status, msk') \<Rightarrow>
          if status \<noteq> 0 then None
          else case count_bits msk' of
                 Inl _ \<Rightarrow> None
               | Inr area \<Rightarrow> covered_area render count_bits gs msk' (aligned + f_of_int (signed_u32 area)))"

definition unaligned_area :: "int list \<Rightarrow> int list \<Rightarrow> u32 \<Rightarrow> nat \<Rightarrow> f32" where
  "unaligned_area coverage_percent groups pixels n =
     fold (\<lambda>i acc. if groups ! i < 0
                   then acc + ((f_of_int (coverage_percent ! i) / (F32 0x42C80000)) * f_of_int (signed_u32 pixels))
                                * (F32 0x3F000000)
                   else acc) [0..<n] 0"

definition fpc_compute_enrollment_metrics ::
    "(nat \<Rightarrow> bool) \<Rightarrow> fpc_capture_coverage list \<Rightarrow> int list \<Rightarrow> int list \<Rightarrow> u16 list \<Rightarrow> f32 list \<Rightarrow> nat
       \<Rightarrow> int \<Rightarrow> int \<Rightarrow> fpc_capture_match list \<Rightarrow> fpc_enrollment_metrics
       \<Rightarrow> status \<times> fpc_enrollment_metrics" where
  "fpc_compute_enrollment_metrics al captures coverage_percent groups roots transforms group_count
     canvas_width canvas_height matches st =
     (let n = length captures; stride = row_bits (nat canvas_width);
          words = stride div 32 * nat canvas_height in
      if n = 0 \<or> 80 < n \<or> n < group_count \<or> canvas_width < 1 \<or> 2147483616 < canvas_width
         \<or> canvas_height < 1 \<or> SIZE_MAX div (stride div 32) div 4 < nat canvas_height
         \<or> \<not> al (words * 4) then (- 1, st)
      else case covered_area
                  (\<lambda>g msk. fpc_build_group_mask_union al captures groups roots transforms g canvas_width
                              canvas_height msk)
                  (\<lambda>msk. fpc_count_packed_mask msk (nat canvas_width) (nat canvas_height) stride)
                  [0..<group_count] (replicate words 0) 0 of
             None \<Rightarrow> (- 1, st)
           | Some aligned \<Rightarrow>
               let w = cc_image_width (captures ! 0); h = cc_image_height (captures ! 0);
                   pixels = word_of_int w * word_of_int h
               in fpc_update_enrollment_metrics n (aligned + unaligned_area coverage_percent groups pixels n)
                    w h matches st)"

end
