(* ===== verification/Progress.thy ===== *)
theory Progress
  imports Float32
begin

text \<open>
  Enrollment progress and quality gates (\<^verbatim>\<open>fpc_recovered.c\<close>:
  \<^verbatim>\<open>fpc_enrollment_progress_profile300\<close>, \<^verbatim>\<open>fpc_enrollment_quality_profile300\<close>).
  Results the code writes through pointers are returned; a rejected call returns them unchanged.
\<close>

unbundle bit_operations_syntax

record fpc_enrollment_progress =
  pg_percent :: int
  pg_remaining :: int
  pg_complete :: u8

record fpc_enrollment_quality_state =
  qs_attempts :: u16
  qs_rejection_streak :: u8
  qs_early_complete_latched :: u8
  qs_progress :: fpc_enrollment_progress

definition metrics_rejected :: "int \<Rightarrow> f32 \<Rightarrow> f32 \<Rightarrow> f32 \<Rightarrow> bool" where
  "metrics_rejected n area normalized_motion relative_area_change \<longleftrightarrow>
     n < 0 \<or> 80 < n \<or> \<not> 0 \<le> area \<or> \<not> 0 \<le> normalized_motion \<or> \<not> 0 \<le> relative_area_change"

definition capped_percent :: "int \<Rightarrow> int" where
  "capped_percent n =
     (let progress = (f_of_int n / (F32 0x41500000)) * (F32 0x42C80000)
      in f_to_i32 (if (F32 0x42C80000) \<le> progress then (F32 0x42C80000) else progress))"

definition early_complete :: "int \<Rightarrow> f32 \<Rightarrow> f32 \<Rightarrow> f32 \<Rightarrow> bool" where
  "early_complete n area normalized_motion relative_area_change \<longleftrightarrow>
     3 \<le> n \<and> (F32 0x3ECCCCCD) < normalized_motion \<and> relative_area_change < (F32 0x3DAE147B) \<and> (F32 0x46C35000) \<le> area"

definition fpc_enrollment_progress_profile300 ::
    "int \<Rightarrow> f32 \<Rightarrow> f32 \<Rightarrow> f32 \<Rightarrow> u8 \<Rightarrow> fpc_enrollment_progress \<Rightarrow> status \<times> u8 \<times> fpc_enrollment_progress" where
  "fpc_enrollment_progress_profile300 n area normalized_motion relative_area_change latched result =
     (if metrics_rejected n area normalized_motion relative_area_change then (- 1, latched, result)
      else let latched' = (if early_complete n area normalized_motion relative_area_change then 1 else latched);
               percent = (if 7 \<le> n \<and> latched' = 1 then 100 else capped_percent n)
           in (0, latched', \<lparr>pg_percent = percent, pg_remaining = if 100 \<le> percent then 0 else 13 - n,
                             pg_complete = if 100 \<le> percent then 1 else 0\<rparr>))"

definition quality_flags :: "int \<Rightarrow> int \<Rightarrow> int \<Rightarrow> u64" where
  "quality_flags quality28 quality32 quality16 =
     (if quality28 < 25 then 1 else 0) OR (if quality32 < 60 then 16 else 0)
       OR (if quality16 < 32 then 32768 else 0)"

definition fpc_enrollment_quality_profile300 ::
    "int \<Rightarrow> int \<Rightarrow> int \<Rightarrow> int \<Rightarrow> f32 \<Rightarrow> f32 \<Rightarrow> f32 \<Rightarrow> fpc_enrollment_quality_state \<Rightarrow> u64
       \<Rightarrow> status \<times> fpc_enrollment_quality_state \<times> u64" where
  "fpc_enrollment_quality_profile300 quality28 quality32 quality16 accepted_count area normalized_motion
     relative_area_change st rejection_flags =
     (if metrics_rejected accepted_count area normalized_motion relative_area_change
      then (- 1, st, rejection_flags)
      else let flags = quality_flags quality28 quality32 quality16;
               st1 = st\<lparr>qs_attempts := qs_attempts st + 1\<rparr>
           in if flags = 0 then (0, st1\<lparr>qs_rejection_streak := 0\<rparr>, flags)
              else case fpc_enrollment_progress_profile300 accepted_count area normalized_motion
                          relative_area_change (qs_early_complete_latched st1) (qs_progress st1) of
                     (status, latched, progress) \<Rightarrow>
                       let st2 = st1\<lparr>qs_early_complete_latched := latched, qs_progress := progress\<rparr>
                       in if status \<noteq> 0 then (- 1, st2, flags)
                          else let streak = qs_rejection_streak st2 + 1
                               in (if 10 \<le> streak then 112 else 0, st2\<lparr>qs_rejection_streak := streak\<rparr>, flags))"

subsection \<open>The percentage\<close>

text \<open>The float computation of the percentage, evaluated for every count it accepts.\<close>

lemma capped_percent_0:
  "map capped_percent
    [0, 1, 2, 3, 4, 5, 6, 7, 8, 9, 10, 11, 12, 13, 14, 15, 16, 17, 18, 19]
   = [0, 7, 15, 23, 30, 38, 46, 53, 61, 69, 76, 84, 92, 100, 100, 100, 100, 100, 100, 100]"
  by code_simp

lemma capped_percent_1:
  "map capped_percent
    [20, 21, 22, 23, 24, 25, 26, 27, 28, 29, 30, 31, 32, 33, 34, 35, 36, 37, 38, 39]
   = [100, 100, 100, 100, 100, 100, 100, 100, 100, 100, 100, 100, 100, 100, 100, 100, 100, 100,
     100, 100]"
  by code_simp

lemma capped_percent_2:
  "map capped_percent
    [40, 41, 42, 43, 44, 45, 46, 47, 48, 49, 50, 51, 52, 53, 54, 55, 56, 57, 58, 59]
   = [100, 100, 100, 100, 100, 100, 100, 100, 100, 100, 100, 100, 100, 100, 100, 100, 100, 100,
     100, 100]"
  by code_simp

lemma capped_percent_3:
  "map capped_percent
    [60, 61, 62, 63, 64, 65, 66, 67, 68, 69, 70, 71, 72, 73, 74, 75, 76, 77, 78, 79]
   = [100, 100, 100, 100, 100, 100, 100, 100, 100, 100, 100, 100, 100, 100, 100, 100, 100, 100,
     100, 100]"
  by code_simp

lemma capped_percent_4:
  "map capped_percent
    [80]
   = [100]"
  by code_simp

lemma capped_percent_value:
  assumes "0 \<le> n" "n \<le> 80"
  shows "capped_percent n = min 100 (100 * n div 13)"
proof -
  have u0: "[0..19] = [0, 1, 2, 3, 4, 5, 6, 7, 8, 9, 10, 11, 12, 13, 14, 15, 16, 17, 18, 19]" by (simp add: upto_rec1)
  have m0: "map capped_percent [0..19] = map (\<lambda>n. min 100 (100 * n div 13)) [0..19]"
    unfolding u0 capped_percent_0 by simp
  have u1: "[20..39] = [20, 21, 22, 23, 24, 25, 26, 27, 28, 29, 30, 31, 32, 33, 34, 35, 36, 37, 38, 39]" by (simp add: upto_rec1)
  have m1: "map capped_percent [20..39] = map (\<lambda>n. min 100 (100 * n div 13)) [20..39]"
    unfolding u1 capped_percent_1 by simp
  have u2: "[40..59] = [40, 41, 42, 43, 44, 45, 46, 47, 48, 49, 50, 51, 52, 53, 54, 55, 56, 57, 58, 59]" by (simp add: upto_rec1)
  have m2: "map capped_percent [40..59] = map (\<lambda>n. min 100 (100 * n div 13)) [40..59]"
    unfolding u2 capped_percent_2 by simp
  have u3: "[60..79] = [60, 61, 62, 63, 64, 65, 66, 67, 68, 69, 70, 71, 72, 73, 74, 75, 76, 77, 78, 79]" by (simp add: upto_rec1)
  have m3: "map capped_percent [60..79] = map (\<lambda>n. min 100 (100 * n div 13)) [60..79]"
    unfolding u3 capped_percent_3 by simp
  have u4: "[80..80] = [80]" by (simp add: upto_rec1)
  have m4: "map capped_percent [80..80] = map (\<lambda>n. min 100 (100 * n div 13)) [80..80]"
    unfolding u4 capped_percent_4 by simp
  consider "n \<in> set [0..19]" | "n \<in> set [20..39]" | "n \<in> set [40..59]" | "n \<in> set [60..79]" | "n \<in> set [80..80]"
    using assms unfolding set_upto by (auto; linarith?)
  then show ?thesis
    by cases (use m0 m1 m2 m3 m4 in \<open>simp_all only: map_eq_conv\<close>)
qed

lemma enrollment_progress_value:
  "fpc_enrollment_progress_profile300 n area normalized_motion relative_area_change latched result
     = (if metrics_rejected n area normalized_motion relative_area_change then (- 1, latched, result)
        else let latched' = (if early_complete n area normalized_motion relative_area_change then 1 else latched);
                 complete = (13 \<le> n \<or> (7 \<le> n \<and> latched' = 1))
             in (0, latched', \<lparr>pg_percent = if complete then 100 else 100 * n div 13,
                               pg_remaining = if complete then 0 else 13 - n,
                               pg_complete = if complete then 1 else 0\<rparr>))
   \<and> (pg_percent (snd (snd (fpc_enrollment_progress_profile300 n area normalized_motion relative_area_change
          latched \<lparr>pg_percent = 0, pg_remaining = 13, pg_complete = 0\<rparr>))) \<in> {0..100})"
proof -
  have c: "0 \<le> n \<and> n \<le> 80" if "\<not> metrics_rejected n area normalized_motion relative_area_change"
    using that by (auto simp: metrics_rejected_def)
  have v: "capped_percent n = (if 13 \<le> n then 100 else 100 * n div 13) \<and> (100 \<le> capped_percent n \<longleftrightarrow> 13 \<le> n)
      \<and> 0 \<le> capped_percent n \<and> capped_percent n \<le> 100"
    if "0 \<le> n \<and> n \<le> 80"
    using that by (auto simp: capped_percent_value)
  show ?thesis using c v
    by (auto simp: fpc_enrollment_progress_profile300_def Let_def)
qed

text \<open>(C39) The enrollment progress is computed exactly. A call with a count above 80 or with a negative
  or unordered metric is refused and changes nothing. Any other call latches early completion,
  reports the percentage that integer arithmetic gives, capped at 100, or 100 from the seventh
  capture on once completion is latched, and reports completion exactly at 100, with 13 minus the
  count captures remaining before that.\<close>

theorem enrollment_progress_exact:
  "fpc_enrollment_progress_profile300 n area normalized_motion relative_area_change latched result
     = (if metrics_rejected n area normalized_motion relative_area_change then (- 1, latched, result)
        else let latched' = (if early_complete n area normalized_motion relative_area_change then 1 else latched);
                 complete = (13 \<le> n \<or> (7 \<le> n \<and> latched' = 1))
             in (0, latched', \<lparr>pg_percent = if complete then 100 else 100 * n div 13,
                               pg_remaining = if complete then 0 else 13 - n,
                               pg_complete = if complete then 1 else 0\<rparr>))
   \<and> (pg_percent (snd (snd (fpc_enrollment_progress_profile300 n area normalized_motion relative_area_change
          latched \<lparr>pg_percent = 0, pg_remaining = 13, pg_complete = 0\<rparr>))) \<in> {0..100})"
  by (rule enrollment_progress_value)

subsection \<open>The rejection streak\<close>

record quality_call =
  qc_quality28 :: int
  qc_quality32 :: int
  qc_quality16 :: int
  qc_count :: int
  qc_area :: f32
  qc_motion :: f32
  qc_change :: f32

text \<open>One call of the quality gate, and the gate after a sequence of calls.\<close>

definition gate :: "quality_call \<Rightarrow> fpc_enrollment_quality_state \<Rightarrow> status \<times> fpc_enrollment_quality_state \<times> u64" where
  "gate c st = fpc_enrollment_quality_profile300 (qc_quality28 c) (qc_quality32 c) (qc_quality16 c)
     (qc_count c) (qc_area c) (qc_motion c) (qc_change c) st 0"

definition gate_run :: "quality_call list \<Rightarrow> fpc_enrollment_quality_state \<Rightarrow> fpc_enrollment_quality_state" where
  "gate_run cs st = fold (\<lambda>c st. fst (snd (gate c st))) cs st"

definition refused :: "quality_call \<Rightarrow> bool" where
  "refused c \<longleftrightarrow> metrics_rejected (qc_count c) (qc_area c) (qc_motion c) (qc_change c)"

definition poor :: "quality_call \<Rightarrow> bool" where
  "poor c \<longleftrightarrow> qc_quality28 c < 25 \<or> qc_quality32 c < 60 \<or> qc_quality16 c < 32"

lemma quality_flags_zero: "quality_flags a b c = 0 \<longleftrightarrow> \<not> (a < 25 \<or> b < 60 \<or> c < 32)"
  by (simp add: quality_flags_def)

lemma gate_step:
  "refused c \<Longrightarrow> gate c st = (- 1, st, 0)"
  "\<not> refused c \<Longrightarrow> qs_attempts (fst (snd (gate c st))) = qs_attempts st + 1"
  "\<not> refused c \<Longrightarrow> \<not> poor c \<Longrightarrow> fst (gate c st) = 0 \<and> qs_rejection_streak (fst (snd (gate c st))) = 0"
  "\<not> refused c \<Longrightarrow> poor c \<Longrightarrow> qs_rejection_streak (fst (snd (gate c st))) = qs_rejection_streak st + 1
     \<and> fst (gate c st) = (if 10 \<le> qs_rejection_streak st + 1 then 112 else 0)"
proof -
  obtain s l p where e: "fpc_enrollment_progress_profile300 (qc_count c) (qc_area c) (qc_motion c) (qc_change c)
      (qs_early_complete_latched st) (qs_progress st) = (s, l, p)" by (metis prod_cases3)
  have z: "s = 0" if "\<not> refused c"
    using that e by (auto simp: fpc_enrollment_progress_profile300_def refused_def Let_def)
  note d = gate_def fpc_enrollment_quality_profile300_def refused_def poor_def quality_flags_zero Let_def
  show "refused c \<Longrightarrow> gate c st = (- 1, st, 0)" by (simp add: d)
  show "\<not> refused c \<Longrightarrow> qs_attempts (fst (snd (gate c st))) = qs_attempts st + 1"
    using e z by (simp add: d)
  show "\<not> refused c \<Longrightarrow> \<not> poor c \<Longrightarrow> fst (gate c st) = 0 \<and> qs_rejection_streak (fst (snd (gate c st))) = 0"
    by (simp add: d)
  show "\<not> refused c \<Longrightarrow> poor c \<Longrightarrow> qs_rejection_streak (fst (snd (gate c st))) = qs_rejection_streak st + 1
     \<and> fst (gate c st) = (if 10 \<le> qs_rejection_streak st + 1 then 112 else 0)"
    using e z by (simp add: d)
qed

text \<open>Accepted calls only: how many rejections stand at the end of the sequence.\<close>

definition trailing_poor :: "quality_call list \<Rightarrow> nat" where
  "trailing_poor cs = length (takeWhile poor (rev cs))"

lemma gate_run_snoc: "gate_run (cs @ [c]) st = fst (snd (gate c (gate_run cs st)))"
  by (simp add: gate_run_def)

lemma gate_run_streak:
  assumes "list_all (\<lambda>c. \<not> refused c) cs" "qs_rejection_streak st = 0"
  shows "qs_rejection_streak (gate_run cs st) = of_nat (trailing_poor cs)
    \<and> qs_attempts (gate_run cs st) = qs_attempts st + of_nat (length cs)"
  using assms(1)
proof (induction cs rule: rev_induct)
  case Nil
  then show ?case using assms(2) by (simp add: gate_run_def trailing_poor_def)
next
  case (snoc c cs)
  then show ?case
    using gate_step(2-4) [of c "gate_run cs st"]
    by (cases "poor c") (simp_all add: gate_run_snoc trailing_poor_def add.commute)
qed

text \<open>The quality gate counts attempts and consecutive rejections. After any sequence of calls with
  usable metrics, from a state without a streak, the attempt counter has advanced by the number of
  calls and the streak is the number of poor captures since the last good one, both at their
  widths of 16 and 8 bits; a further poor capture reports 112 exactly when that makes at least ten
  modulo 256, so a streak of 256 starts again from zero. A good capture returns 0 and ends the streak.\<close>

theorem quality_gate_streak:
  assumes "list_all (\<lambda>c. \<not> refused c) cs" "qs_rejection_streak st = 0" "\<not> refused c"
  shows "qs_attempts (gate_run cs st) = qs_attempts st + of_nat (length cs)
    \<and> unat (qs_rejection_streak (gate_run cs st)) = trailing_poor cs mod 256
    \<and> fst (gate c (gate_run cs st)) = (if poor c \<and> 10 \<le> (trailing_poor cs + 1) mod 256 then 112 else 0)
    \<and> qs_rejection_streak (gate_run (cs @ [c]) st) = (if poor c then of_nat (trailing_poor cs + 1) else 0)"
proof -
  note r = gate_run_streak [OF assms(1,2)]
  have "(10 \<le> of_nat (trailing_poor cs) + (1 :: u8)) = (10 \<le> (trailing_poor cs + 1) mod 256)"
  proof -
    have "(of_nat (trailing_poor cs) + 1 :: u8) = of_nat (trailing_poor cs + 1)" by simp
    then show ?thesis unfolding word_le_nat_alt by (simp only: unat_of_nat) (simp add: take_bit_eq_mod)
  qed
  then show ?thesis
    using r gate_step(3,4) [of c "gate_run cs st"] assms(3)
    by (cases "poor c") (simp_all add: unat_of_nat take_bit_eq_mod gate_run_snoc)
qed

definition sample_call :: quality_call where
  "sample_call = \<lparr>qc_quality28 = 10, qc_quality32 = 90, qc_quality16 = 90, qc_count = 0, qc_area = 0,
                  qc_motion = 0, qc_change = 0\<rparr>"

definition sample_quality :: fpc_enrollment_quality_state where
  "sample_quality = \<lparr>qs_attempts = 0, qs_rejection_streak = 0, qs_early_complete_latched = 0,
                     qs_progress = \<lparr>pg_percent = 0, pg_remaining = 13, pg_complete = 0\<rparr>\<rparr>"

theorem quality_gate_streak_witness:
  "unat (qs_rejection_streak (gate_run (replicate 12 sample_call) sample_quality)) = 12
   \<and> fst (gate sample_call (gate_run (replicate 12 sample_call) sample_quality)) = 112"
proof -
  have "\<not> refused sample_call"
    by (simp add: refused_def sample_call_def metrics_rejected_def f_arith f_is_nan_def f_code_def)
  moreover have "poor sample_call" by (simp add: poor_def sample_call_def)
  ultimately show ?thesis
    using quality_gate_streak [of "replicate 12 sample_call" sample_quality sample_call]
    by (simp add: list_all_iff sample_quality_def trailing_poor_def)
qed

end
