(* ===== verification/Session.thy ===== *)
theory Session
  imports Prepare Matching Metrics Progress
begin

text \<open>
  The enrollment session (\<^verbatim>\<open>enrollment.c\<close>): conversion of a prepared capture, creation of a
  session, the addition of a capture with its error paths, and the template that a completed session
  yields. The arrays of the session have the fixed lengths of the code. The outer \<open>option\<close> is fuel
  or a read outside an object.
\<close>

unbundle bit_operations_syntax

record fpc_native_enrollment =
  se_count :: nat
  se_pair_count :: nat
  se_captures :: "fpc_capture_payload_view list"
  se_masks :: "u32 list list"
  se_coverage :: "int list"
  se_widths :: "int list"
  se_heights :: "int list"
  se_matches :: "fpc_capture_match list"
  se_spatial_scores :: "u16 list"
  se_roots :: "u16 list"
  se_groups :: "int list"
  se_transforms :: "f32 list"
  se_grouping :: fpc_capture_groups_state
  se_metrics :: fpc_enrollment_metrics
  se_quality :: fpc_enrollment_quality_state
  se_insufficient_movement :: u32
  se_failed :: bool

record fpc_native_enrollment_report =
  er_rejection_flags :: u64
  er_progress :: fpc_enrollment_progress
  er_movement :: int
  er_group_change :: u32
  er_accepted :: nat
  er_area :: f32
  er_latest_motion :: f32
  er_normalized_motion :: f32
  er_relative_area_change :: f32

subsection \<open>Captures from prepared captures\<close>

text \<open>Membership bytes with the first \<open>n\<close> bits set, in 38 bytes.\<close>

definition full_membership :: "nat \<Rightarrow> u8 list" where
  "full_membership n = fold (\<lambda>i m. m[i div 8 := (m ! (i div 8)) OR push_bit (i mod 8) 1]) [0..<n] (replicate 38 0)"

definition prepared_view :: "fpc_prepared_capture \<Rightarrow> bool \<Rightarrow> fpc_capture_payload_view" where
  "prepared_view prepared enrolled =
     (let n = pc_feature_count prepared; features = take n (pc_features prepared)
      in (empty_view (of_nat n))
           \<lparr>vw_mode := 1, vw_descriptor_bytes := 16, vw_levels := 1, vw_table_width := 0,
            vw_level_fields := Some [of_nat n, 16384, 16384, 8, 8],
            vw_compact_coordinates := Some (concat (map (\<lambda>f. [kp_x (ft_point f), kp_y (ft_point f)]) features)),
            vw_descriptors := Some (concat (map ft_descriptor features)),
            vw_membership := Some (if enrolled then full_membership n else replicate 38 0)\<rparr>)"

definition fpc_capture_from_prepared ::
    "(nat \<Rightarrow> bool) \<Rightarrow> fpc_prepared_capture \<Rightarrow> bool \<Rightarrow> (status + fpc_capture_payload_view) option" where
  "fpc_capture_from_prepared al prepared enrolled =
     (if 300 < pc_feature_count prepared then Some (Inl (- 1))
      else do { r \<leftarrow> fpc_capture_payload (prepared_view prepared enrolled) 0xCE1 (Some (replicate 5500 0));
                case r of
                  Inl status \<Rightarrow> Some (Inl status)
                | Inr (bytes, None) \<Rightarrow> None
                | Inr (bytes, Some payload) \<Rightarrow> fpc_capture_load_payload al (take bytes payload) 0xCE1 })"

subsection \<open>Creation\<close>

definition zero_metrics :: fpc_enrollment_metrics where
  "zero_metrics =
     \<lparr>em_area = replicate 80 0, em_motion = replicate 80 0, em_latest_motion = 0,
      em_normalized_motion = 0, em_relative_area_change = 0\<rparr>"

definition fpc_native_enrollment_create :: fpc_native_enrollment where
  "fpc_native_enrollment_create =
     \<lparr>se_count = 0, se_pair_count = 0, se_captures = replicate 13 (empty_view 0),
      se_masks = replicate 13 (replicate 352 0), se_coverage = replicate 13 0,
      se_widths = replicate 13 112, se_heights = replicate 13 88,
      se_matches = replicate 78 \<lparr>cx_transform = [0, 0, 0, 0], cx_inliers = 0, cx_success = 0\<rparr>,
      se_spatial_scores = replicate 78 0, se_roots = replicate 13 0, se_groups = replicate 13 (- 1),
      se_transforms = replicate 117 0,
      se_grouping = \<lparr>cg_group_count = 0, cg_selected_group = - 1, cg_reference_capture = - 1,
                     cg_center_x = 0, cg_center_y = 0\<rparr>,
      se_metrics = zero_metrics,
      se_quality = \<lparr>qs_attempts = 0, qs_rejection_streak = 0, qs_early_complete_latched = 0,
                    qs_progress = \<lparr>pg_percent = 0, pg_remaining = 13, pg_complete = 0\<rparr>\<rparr>,
      se_insufficient_movement = 0, se_failed = False\<rparr>"

definition zero_report :: fpc_native_enrollment_report where
  "zero_report =
     \<lparr>er_rejection_flags = 0, er_progress = \<lparr>pg_percent = 0, pg_remaining = 0, pg_complete = 0\<rparr>,
      er_movement = 0, er_group_change = 0, er_accepted = 0, er_area = 0, er_latest_motion = 0,
      er_normalized_motion = 0, er_relative_area_change = 0\<rparr>"

definition latest_area :: "fpc_native_enrollment \<Rightarrow> f32" where
  "latest_area s = (if se_count s \<noteq> 0 then em_area (se_metrics s) ! (se_count s - 1) else 0)"

subsection \<open>Addition of a capture\<close>

text \<open>The incoming capture against one stored capture; its membership bits may be set.\<close>

definition store_match :: "match_output \<Rightarrow> fpc_native_enrollment \<Rightarrow> fpc_native_enrollment" where
  "store_match m s =
     (let r = mo_result m; k = se_pair_count s
      in s\<lparr>se_matches := (se_matches s)[k := \<lparr>cx_transform = gr_transform r,
               cx_inliers = if gr_success r \<noteq> 0 then gr_inliers r else 0, cx_success = gr_success r\<rparr>],
           se_spatial_scores := (se_spatial_scores s)[k := word_of_int (gr_spatial_inliers r)],
           se_pair_count := k + 1\<rparr>)"

definition membership_bytes :: "fpc_capture_payload_view \<Rightarrow> u8 list" where
  "membership_bytes v =
     (case vw_membership v of None \<Rightarrow> [] | Some m \<Rightarrow> take ((unat (vw_count v) + 7) div 8) m)"

definition update_membership :: "u8 list \<Rightarrow> fpc_capture_payload_view \<Rightarrow> fpc_capture_payload_view" where
  "update_membership bits v =
     (case vw_membership v of
        None \<Rightarrow> v
      | Some m \<Rightarrow> v\<lparr>vw_membership := Some (bits @ drop (length bits) m)\<rparr>)"

fun match_stored ::
    "(nat \<Rightarrow> bool) \<Rightarrow> nat list \<Rightarrow> fpc_native_enrollment \<Rightarrow> (status \<times> fpc_native_enrollment) option" where
  "match_stored al [] s = Some (0, s)"
| "match_stored al (i # rest) s =
     (let incoming = se_captures s ! se_count s in
      do { m \<leftarrow> fpc_match_profile300_captures al (se_captures s ! i) incoming (membership_bytes incoming)
                  (replicate 300 \<lparr>cd_first = 0, cd_second = 0, cd_distance = 0, cd_flag = 0, cd_reserved = 0\<rparr>)
                  empty_result 0;
           let s1 = s\<lparr>se_captures := (se_captures s)[se_count s := update_membership (mo_target m) incoming]\<rparr>
           in if mo_status m \<noteq> 0 then Some (mo_status m, s1)
              else match_stored al rest (store_match m s1) })"

definition unassigned :: "fpc_native_enrollment \<Rightarrow> nat" where
  "unassigned s = length (filter (\<lambda>i. se_groups s ! i < 0) [0..<se_count s])"

definition regroup ::
    "(nat \<Rightarrow> bool) \<Rightarrow> fpc_native_enrollment \<Rightarrow> u32 \<Rightarrow> (status \<times> fpc_native_enrollment \<times> u32) option" where
  "regroup al s flags =
     do { (status, groups, roots, transforms, grouping, flags') \<leftarrow>
            fpc_rebuild_capture_groups al (take (se_pair_count s) (se_matches s)) (se_count s)
              (se_widths s) (se_heights s) 4 False (se_groups s) (se_roots s) (se_transforms s)
              (se_grouping s) flags;
          Some (status, s\<lparr>se_groups := groups, se_roots := roots, se_transforms := transforms,
                          se_grouping := grouping\<rparr>, flags') }"

definition group_change_bit :: "fpc_native_enrollment \<Rightarrow> fpc_native_enrollment \<Rightarrow> u32 \<Rightarrow> u32" where
  "group_change_bit before after flags =
     (flags AND 1) OR
       (if cg_group_count (se_grouping after) = cg_group_count (se_grouping before)
           \<and> unassigned after \<le> unassigned before \<and> 0 \<le> cg_selected_group (se_grouping after)
           \<and> se_groups after ! (se_count after - 1) = cg_selected_group (se_grouping after) then 1 else 0)"

definition coverage_of :: "fpc_native_enrollment \<Rightarrow> fpc_capture_coverage list" where
  "coverage_of s =
     map (\<lambda>i. \<lparr>cc_image_width = 112, cc_image_height = 88, cc_mask_width = 112, cc_mask_height = 88,
               cc_mask_stride_bits = 128, cc_mask = se_masks s ! i\<rparr>) [0..<se_count s]"

definition measure_session ::
    "(nat \<Rightarrow> bool) \<Rightarrow> fpc_native_enrollment \<Rightarrow> status \<times> fpc_native_enrollment" where
  "measure_session al s =
     (case fpc_compute_enrollment_metrics al (coverage_of s) (se_coverage s) (se_groups s) (se_roots s)
             (se_transforms s) (nat (cg_group_count (se_grouping s))) 500 500
             (take (se_pair_count s) (se_matches s)) (se_metrics s) of
        (status, metrics) \<Rightarrow> (status, s\<lparr>se_metrics := metrics\<rparr>))"

definition judge_movement :: "fpc_native_enrollment \<Rightarrow> int \<Rightarrow> status \<times> fpc_native_enrollment \<times> int" where
  "judge_movement s movement =
     (case fpc_enrollment_check_movement (se_count s) (latest_area s) (em_latest_motion (se_metrics s))
             (F32 0x3ECCCCCD) (se_insufficient_movement s) movement of
        (status, insufficient, movement') \<Rightarrow> (status, s\<lparr>se_insufficient_movement := insufficient\<rparr>, movement'))"

definition update_progress :: "fpc_native_enrollment \<Rightarrow> status \<times> fpc_native_enrollment" where
  "update_progress s =
     (case fpc_enrollment_progress_profile300 (int (se_count s)) (latest_area s)
             (em_normalized_motion (se_metrics s)) (em_relative_area_change (se_metrics s))
             (qs_early_complete_latched (se_quality s)) (qs_progress (se_quality s)) of
        (status, latched, progress) \<Rightarrow>
          (status, s\<lparr>se_quality := (se_quality s)\<lparr>qs_early_complete_latched := latched,
                                                  qs_progress := progress\<rparr>\<rparr>))"

text \<open>The two exits: \<open>result\<close> fills the report, \<open>fail\<close> latches the failure.\<close>

definition exit_result ::
    "status \<Rightarrow> fpc_native_enrollment \<Rightarrow> fpc_native_enrollment_report
       \<Rightarrow> status \<times> fpc_native_enrollment \<times> fpc_native_enrollment_report" where
  "exit_result status s report =
     (status, s,
      report\<lparr>er_area := latest_area s, er_latest_motion := em_latest_motion (se_metrics s),
             er_normalized_motion := em_normalized_motion (se_metrics s),
             er_relative_area_change := em_relative_area_change (se_metrics s),
             er_accepted := se_count s, er_progress := qs_progress (se_quality s)\<rparr>)"

definition exit_fail ::
    "status \<Rightarrow> fpc_native_enrollment \<Rightarrow> fpc_native_enrollment_report
       \<Rightarrow> status \<times> fpc_native_enrollment \<times> fpc_native_enrollment_report" where
  "exit_fail status s report = (status, s\<lparr>se_failed := True\<rparr>, report)"

definition finish_addition ::
    "(nat \<Rightarrow> bool) \<Rightarrow> fpc_native_enrollment \<Rightarrow> fpc_native_enrollment \<Rightarrow> fpc_native_enrollment_report
       \<Rightarrow> (status \<times> fpc_native_enrollment \<times> fpc_native_enrollment_report) option" where
  "finish_addition al before s report =
     do { (status1, s1, flags) \<leftarrow> regroup al s (er_group_change report);
          Some (if status1 \<noteq> 0 then exit_fail status1 s1 (report\<lparr>er_group_change := flags\<rparr>)
                else let report1 = report\<lparr>er_group_change := group_change_bit before s1 flags\<rparr> in
                  case measure_session al s1 of (status2, s2) \<Rightarrow>
                    if status2 \<noteq> 0 then exit_fail status2 s2 report1
                    else case judge_movement s2 (er_movement report1) of (status3, s3, movement) \<Rightarrow>
                      let report3 = report1\<lparr>er_movement := movement\<rparr> in
                      if status3 \<noteq> 0 then exit_fail status3 s3 report3
                      else case update_progress s3 of (status4, s4) \<Rightarrow>
                        if status4 \<noteq> 0 then exit_fail status4 s4 report3 else exit_result status4 s4 report3) }"

definition accept_capture ::
    "(nat \<Rightarrow> bool) \<Rightarrow> fpc_native_enrollment \<Rightarrow> fpc_prepared_capture \<Rightarrow> fpc_native_enrollment_report
       \<Rightarrow> (status \<times> fpc_native_enrollment \<times> fpc_native_enrollment_report) option" where
  "accept_capture al s p report =
     do { c \<leftarrow> fpc_capture_from_prepared al p True;
          case c of
            Inl e \<Rightarrow> Some (exit_fail e s report)
          | Inr view \<Rightarrow>
              do { (status, s1) \<leftarrow> match_stored al [0..<se_count s]
                     (s\<lparr>se_captures := (se_captures s)[se_count s := view]\<rparr>);
                   if status \<noteq> 0 then Some (exit_fail status s1 report)
                   else finish_addition al s
                          (s1\<lparr>se_masks := (se_masks s1)[se_count s1 := pc_packed_mask p],
                              se_coverage := (se_coverage s1)[se_count s1 := pc_coverage p],
                              se_count := se_count s1 + 1\<rparr>) report } }"

definition fpc_native_enrollment_add ::
    "(nat \<Rightarrow> bool) \<Rightarrow> fpc_native_enrollment \<Rightarrow> fpc_prepared_capture \<Rightarrow> fpc_native_enrollment_report
       \<Rightarrow> (status \<times> fpc_native_enrollment \<times> fpc_native_enrollment_report) option" where
  "fpc_native_enrollment_add al s p report =
     (if se_failed s then Some (- 1, s, report)
      else if 13 \<le> se_count s then Some (111, s, zero_report)
      else case fpc_enrollment_quality_profile300 (pc_confidence p) (pc_coverage p) (pc_quality p)
                  (int (se_count s)) (latest_area s) (em_normalized_motion (se_metrics s))
                  (em_relative_area_change (se_metrics s)) (se_quality s) 0 of
             (status, quality, flags) \<Rightarrow>
               let s1 = s\<lparr>se_quality := quality\<rparr>; report1 = zero_report\<lparr>er_rejection_flags := flags\<rparr>
               in if status \<noteq> 0 \<or> flags \<noteq> 0 then Some (exit_result status s1 report1)
                  else accept_capture al s1 p report1)"

subsection \<open>Completion\<close>

definition session_template_bytes ::
    "fpc_retained_graph \<Rightarrow> fpc_capture_payload_view list \<Rightarrow> (nat \<Rightarrow> bool) \<Rightarrow> (status + u8 list) option" where
  "session_template_bytes graph views al =
     do { sizes \<leftarrow> fpc_template_serialize_default graph views 32 0 32 None;
          case sizes of
            Inl e \<Rightarrow> Some (Inl e)
          | Inr (bytes, _) \<Rightarrow>
              if \<not> al bytes then Some (Inl 2)
              else do { r \<leftarrow> fpc_template_serialize_default graph views 32 0 32 (Some (replicate bytes 0));
                        Some (case r of
                                Inl e \<Rightarrow> Inl e
                              | Inr (n, out) \<Rightarrow> Inr (take n (case out of None \<Rightarrow> [] | Some b \<Rightarrow> b))) } }"

definition fpc_native_enrollment_finish ::
    "(nat \<Rightarrow> bool) \<Rightarrow> fpc_native_enrollment \<Rightarrow> bool \<Rightarrow> (status + fpc_loaded_template) option" where
  "fpc_native_enrollment_finish al s occupied =
     (if se_failed s \<or> pg_complete (qs_progress (se_quality s)) = 0 \<or> occupied then Some (Inl (- 1))
      else case fpc_retained_graph_create al (Some (take (se_pair_count s) (se_spatial_scores s)))
                  (se_count s) 32 8 of
             Inl e \<Rightarrow> Some (Inl e)
           | Inr graph \<Rightarrow>
               case fpc_enrollment_initial_order al (arr (rg_scores graph)) (unat (rg_used graph))
                      (unat (rg_capacity graph)) (arr (rg_order graph)) of
                 (status, order) \<Rightarrow>
                   if status \<noteq> 0 then Some (Inl status)
                   else do { bytes \<leftarrow> session_template_bytes (graph\<lparr>rg_order := Some order\<rparr>)
                               (take (se_count s) (se_captures s)) al;
                             case bytes of
                               Inl e \<Rightarrow> Some (Inl e)
                             | Inr data \<Rightarrow> fpc_template_load_default al data 32 })"

subsection \<open>A prepared capture survives its conversion\<close>

text \<open>What the preparation hands over: at most 300 features with descriptors of sixteen bytes.\<close>

definition prepared_ok :: "fpc_prepared_capture \<Rightarrow> bool" where
  "prepared_ok p \<longleftrightarrow>
     pc_feature_count p \<le> 300 \<and> length (pc_features p) = 300
     \<and> list_all (\<lambda>f. length (ft_descriptor f) = 16) (pc_features p)"

text \<open>The view with its membership cut to the bytes that the features use.\<close>

definition trimmed_view :: "fpc_prepared_capture \<Rightarrow> bool \<Rightarrow> fpc_capture_payload_view" where
  "trimmed_view p enrolled =
     (prepared_view p enrolled)\<lparr>vw_membership :=
        Some (take ((pc_feature_count p + 7) div 8) (arr (vw_membership (prepared_view p enrolled))))\<rparr>"

lemma length_full_membership [simp]: "length (full_membership n) = 38"
proof -
  have "length (fold (\<lambda>i m. m[i div 8 := f i m]) xs m) = length m" for f :: "nat \<Rightarrow> u8 list \<Rightarrow> u8" and xs m
    by (induction xs arbitrary: m) simp_all
  then show ?thesis by (simp add: full_membership_def)
qed

lemma length_concat_const: "list_all (\<lambda>x. length (f x) = k) xs \<Longrightarrow> length (concat (map f xs)) = length xs * k"
  by (induction xs) auto

lemma count_small: "n \<le> 300 \<Longrightarrow> unat (of_nat n :: u32) = n"
  by (simp add: unat_of_nat take_bit_nat_eq_self)

lemma trimmed_view_fields:
  assumes "prepared_ok p"
  defines "n \<equiv> pc_feature_count p"
  shows "vw_count (trimmed_view p e) = of_nat n" "unat (vw_count (trimmed_view p e)) = n"
    "vw_mode (trimmed_view p e) = 1" "vw_descriptor_bytes (trimmed_view p e) = 16"
    "vw_levels (trimmed_view p e) = 1" "vw_table_width (trimmed_view p e) = 0"
    "vw_level_fields (trimmed_view p e) = Some [of_nat n, 16384, 16384, 8, 8]"
    "vw_level_extra (trimmed_view p e) = None" "vw_coordinates (trimmed_view p e) = None"
    "vw_scores (trimmed_view p e) = None" "vw_angles (trimmed_view p e) = None"
    "vw_compact_coordinates (trimmed_view p e)
       = Some (concat (map (\<lambda>f. [kp_x (ft_point f), kp_y (ft_point f)]) (take n (pc_features p))))"
    "vw_descriptors (trimmed_view p e) = Some (concat (map ft_descriptor (take n (pc_features p))))"
    "vw_membership (trimmed_view p e)
       = Some (take ((n + 7) div 8) (if e then full_membership n else replicate 38 0))"
  using assms count_small [of n]
  by (simp_all add: trimmed_view_def prepared_view_def empty_view_def Let_def prepared_ok_def)

lemma flags_ce1:
  "has_flag 0xCE1 0x400" "has_flag 0xCE1 0x20" "\<not> has_flag 0xCE1 4" "\<not> has_flag 0xCE1 2"
  "has_flag 0xCE1 0x800" "has_flag 0xCE1 0x80"
  by (simp_all add: has_flag_def)

lemma trimmed_view_ok:
  assumes "prepared_ok p"
  shows "view_ok (trimmed_view p e) 0xCE1"
proof -
  let ?n = "pc_feature_count p"
  note f = trimmed_view_fields [OF assms, of e]
  have n: "?n \<le> 300" using assms by (simp add: prepared_ok_def)
  have n16: "unat (of_nat ?n :: u16) = ?n" "ucast (of_nat ?n :: u16) = (of_nat ?n :: u32)"
    using n by (simp_all add: unat_of_nat take_bit_nat_eq_self unsigned_of_nat)
  have "length (concat (map (\<lambda>f. [kp_x (ft_point f), kp_y (ft_point f)]) (take ?n (pc_features p)))) = 2 * ?n"
    using assms length_concat_const [of "\<lambda>f. [kp_x (ft_point f), kp_y (ft_point f)]" 2 "take ?n (pc_features p)"]
    by (simp add: prepared_ok_def list_all_iff)
  moreover have "length (concat (map ft_descriptor (take ?n (pc_features p)))) = ?n * 16"
    using assms length_concat_const [of ft_descriptor 16 "take ?n (pc_features p)"]
    by (auto simp: prepared_ok_def list_all_iff dest: in_set_takeD)
  moreover have "(?n + 7) div 8 \<le> 38" using n by simp
  ultimately show ?thesis
    using n n16 count_small [OF n]
    by (simp add: view_ok_def f Let_def extra_words_def n_array_defs flags_ce1 view_rows_def level_rows_def
        level_sum_def upt_rec)
qed

text \<open>Cutting the membership changes neither the bytes nor the size of the payload.\<close>

lemma prepared_payload:
  fixes e :: bool
  assumes "prepared_ok p"
  defines "v \<equiv> trimmed_view p e"
  shows "fpc_capture_payload (prepared_view p e) 0xCE1 (Some (replicate 5500 0))
    = Some (Inr (length (view_bytes v), Some (view_bytes v @ replicate (5500 - length (view_bytes v)) 0)))"
proof -
  let ?u = "prepared_view p e" and ?n = "pc_feature_count p"
  have n: "?n \<le> 300" using assms(1) by (simp add: prepared_ok_def)
  have ok: "view_ok v 0xCE1" unfolding v_def by (rule trimmed_view_ok [OF assms(1)])
  have same: "vw_count ?u = vw_count v" "vw_mode ?u = vw_mode v" "vw_levels ?u = vw_levels v"
    "vw_descriptor_bytes ?u = vw_descriptor_bytes v" "vw_table_width ?u = vw_table_width v"
    "vw_level_fields ?u = vw_level_fields v" "vw_level_extra ?u = vw_level_extra v"
    "vw_compact_coordinates ?u = vw_compact_coordinates v" "vw_coordinates ?u = vw_coordinates v"
    "vw_scores ?u = vw_scores v" "vw_angles ?u = vw_angles v" "vw_descriptors ?u = vw_descriptors v"
    by (simp_all add: v_def trimmed_view_def)
  have mem: "vw_membership ?u = Some (if e then full_membership ?n else replicate 38 0)"
    by (simp add: prepared_view_def Let_def)
  have cnt: "unat (vw_count v) = ?n" using trimmed_view_fields(2) [OF assms(1)] by (simp add: v_def)
  have "(?n + 7) div 8 \<le> 38" using n by simp
  then have pre: "rd_prefix (vw_membership ?u) (n_membership 0xCE1 ?n) = rd_prefix (vw_membership v) (n_membership 0xCE1 ?n)"
    using trimmed_view_fields(14) [OF assms(1), of e] mem
    by (auto simp: v_def rd_prefix_def rd_bytes_def n_membership_def flags_ce1)
  have bytes: "capture_payload_bytes ?u 0xCE1 = Some (view_bytes v)"
    using capture_payload_bytes_ok [OF ok flags_ce1(1)]
    unfolding capture_payload_bytes_def Let_def same cnt pre .
  have size: "capture_payload_size ?u 0xCE1 = length (view_bytes v)"
    unfolding length_view_bytes [OF ok flags_ce1(1)] by (simp add: capture_payload_size_def Let_def same)
  have "capture_payload_size ?u 0xCE1 \<le> 5500"
    using n cnt trimmed_view_fields [OF assms(1), of e]
    by (simp add: capture_payload_size_def Let_def same v_def n_array_defs flags_ce1 extra_words_def)
  moreover have "\<not> view_missing ?u 0xCE1"
    using view_ok_present [OF ok] mem by (auto simp: view_missing_def Let_def same)
  moreover have "unat (vw_count ?u) = ?n" using cnt by (simp add: same)
  ultimately show ?thesis
    using n bytes size by (simp add: fpc_capture_payload_def write_out_def Let_def not_less)
qed

lemma alloc_bind:
  "(\<And>a. f a = g a \<or> f a = e) \<Longrightarrow> Option.bind m f = Option.bind m g \<or> Option.bind m f = e"
  by (cases m) auto

lemma alloc_if:
  "x1 = x2 \<or> x1 = e \<Longrightarrow> y1 = y2 \<or> y1 = e
   \<Longrightarrow> (if c then x1 else y1) = (if c then x2 else y2) \<or> (if c then x1 else y1) = e"
  by auto

lemma load_payload_alloc:
  "fpc_capture_load_payload al data flags = fpc_capture_load_payload (\<lambda>_. True) data flags
   \<or> fpc_capture_load_payload al data flags = Some (Inl 2)"
  unfolding fpc_capture_load_payload_def Let_def
  by (intro alloc_if alloc_bind) (auto split: sum.splits)

lemma from_prepared_cases:
  assumes "prepared_ok p"
  shows "fpc_capture_from_prepared al p e = Some (Inr (loaded_view (trimmed_view p e)))
    \<or> fpc_capture_from_prepared al p e = Some (Inl 2)"
    and "(\<And>n. al n) \<Longrightarrow> fpc_capture_from_prepared al p e = Some (Inr (loaded_view (trimmed_view p e)))"
proof -
  let ?v = "trimmed_view p e"
  have ok: "view_ok ?v 0xCE1" by (rule trimmed_view_ok [OF assms])
  have l: "fpc_capture_from_prepared al p e = fpc_capture_load_payload al (view_bytes ?v) 0xCE1"
    using assms prepared_payload [where e = e, OF assms]
    by (simp add: fpc_capture_from_prepared_def prepared_ok_def not_less)
  show "fpc_capture_from_prepared al p e = Some (Inr (loaded_view ?v))
    \<or> fpc_capture_from_prepared al p e = Some (Inl 2)"
    using load_payload_alloc [of al "view_bytes ?v" "0xCE1"] view_bytes_load [where al = "\<lambda>_. True", OF ok flags_ce1(1)]
    by (simp add: l)
  show "(\<And>n. al n) \<Longrightarrow> fpc_capture_from_prepared al p e = Some (Inr (loaded_view ?v))"
    using view_bytes_load [OF ok flags_ce1(1)] by (simp add: l)
qed

text \<open>Bit \<open>i\<close> of a bit array in bytes.\<close>

definition bit_at :: "u8 list \<Rightarrow> nat \<Rightarrow> bool" where
  "bit_at m i = bit (m ! (i div 8)) (i mod 8)"

lemma full_membership_bits:
  assumes "n \<le> 304" "i < n"
  shows "bit_at (full_membership n) i"
proof -
  let ?f = "\<lambda>i m. m[i div 8 := (m ! (i div 8)) OR push_bit (i mod 8) (1 :: u8)]"
  have "length (fold ?f [0..<k] (replicate 38 0)) = 38
      \<and> (\<forall>i<k. bit_at (fold ?f [0..<k] (replicate 38 0)) i)" if "k \<le> 304" for k
    using that
  proof (induction k)
    case (Suc k)
    let ?m = "fold ?f [0..<k] (replicate 38 0)"
    have ih: "length ?m = 38" "\<And>i. i < k \<Longrightarrow> bit_at ?m i" using Suc by simp_all
    have "bit_at (?f k ?m) i" if "i < Suc k" for i
    proof (cases "i = k")
      case True
      have "k div 8 < 38" using Suc.prems by simp
      then show ?thesis using True ih(1) by (simp add: bit_at_def bit_simps)
    next
      case False
      then have "bit_at ?m i" using ih(2) that by simp
      then show ?thesis using ih(1) Suc.prems
        by (cases "k div 8 = i div 8") (simp_all add: bit_at_def bit_or_iff)
    qed
    then show ?case using ih(1) by simp
  qed simp
  from this [OF assms(1)] assms(2) show ?thesis by (simp add: full_membership_def)
qed

lemma descriptor_rows_concat:
  "list_all (\<lambda>d. length d = 16) ds \<Longrightarrow> descriptor_rows (length ds) (concat ds) = ds"
proof (induction ds)
  case (Cons d ds)
  have d: "length d = 16" using Cons.prems by simp
  have "descriptor_rows (length (d # ds)) (concat (d # ds))
      = take 16 (concat (d # ds)) # descriptor_rows (length ds) (drop 16 (concat (d # ds)))"
    by (simp add: descriptor_rows_def upt_conv_Cons map_Suc_upt [symmetric] d add.commute del: upt_Suc)
  with Cons d show ?case by simp
qed (simp add: descriptor_rows_def)

lemma from_prepared_fields:
  fixes e :: bool
  assumes "prepared_ok p"
  defines "v \<equiv> loaded_view (trimmed_view p e)" and "n \<equiv> pc_feature_count p"
  shows "unat (vw_count v) = n" "vw_mode v = 1 \<and> vw_levels v = 1 \<and> vw_descriptor_bytes v = 16"
    "capture_compact_levels_valid v" "view_ready v"
    "arr (vw_compact_coordinates v)
       = concat (map (\<lambda>f. [kp_x (ft_point f), kp_y (ft_point f)]) (take n (pc_features p)))"
    "descriptor_rows n (arr (vw_descriptors v)) = map ft_descriptor (take n (pc_features p))"
    "length (arr (vw_membership v)) = (n + 7) div 8"
    "list_all (\<lambda>i. bit_at (arr (vw_membership v)) i = e) [0..<n]"
    "\<not> view_rejected v"
proof -
  note f = trimmed_view_fields [OF assms(1), of e, folded n_def]
  have n: "n \<le> 300" using assms(1) by (simp add: prepared_ok_def n_def)
  have nn: "arr (non_null xs) = xs" for xs :: "'a list" by (simp add: non_null_def)
  note ok = trimmed_view_ok [OF assms(1), of e]
  show c: "unat (vw_count v) = n" using count_small [OF n] by (simp add: v_def loaded_view_def f)
  show m: "vw_mode v = 1 \<and> vw_levels v = 1 \<and> vw_descriptor_bytes v = 16" by (simp add: v_def loaded_view_def f)
  show k: "arr (vw_compact_coordinates v)
       = concat (map (\<lambda>f. [kp_x (ft_point f), kp_y (ft_point f)]) (take n (pc_features p)))"
    by (simp add: v_def loaded_view_def f nn)
  have lc: "length (arr (vw_compact_coordinates v)) = 2 * n"
    using ok f by (simp add: v_def loaded_view_def nn view_ok_def n_compact_def flags_ce1 Let_def)
  have n16: "unat (of_nat n :: u16) = n" using n by (simp add: unat_of_nat take_bit_nat_eq_self)
  have lf: "vw_level_fields v = Some [of_nat n, 16384, 16384, 8, 8]"
    by (simp add: v_def loaded_view_def f)
  have "vw_compact_coordinates v \<noteq> None" if "n \<noteq> 0"
  proof
    assume "vw_compact_coordinates v = None"
    with lc that show False by simp
  qed
  moreover have cn: "vw_count v \<noteq> 0 \<longleftrightarrow> n \<noteq> 0" using c by (metis unat_eq_0)
  ultimately show valid: "capture_compact_levels_valid v"
    using n n16 c m lf by (simp add: capture_compact_levels_valid_def level_count_field_def)
  have "length (arr (vw_descriptors v)) = 16 * n"
    using ok f by (simp add: v_def loaded_view_def nn view_ok_def n_descriptors_def flags_ce1 Let_def)
  then have "vw_descriptors v \<noteq> None" if "n \<noteq> 0" using that by (cases "vw_descriptors v") auto
  with valid c cn m n show "\<not> view_rejected v" by (cases "n = 0") (simp_all add: view_rejected_def)
  show "view_ready v" using lf lc c by (simp add: view_ready_def)
  have "length (pc_features p) = 300" "list_all (\<lambda>d. length d = 16) (map ft_descriptor (take n (pc_features p)))"
    using assms(1) by (auto simp: prepared_ok_def list_all_iff dest: in_set_takeD)
  then show "descriptor_rows n (arr (vw_descriptors v)) = map ft_descriptor (take n (pc_features p))"
    using descriptor_rows_concat [of "map ft_descriptor (take n (pc_features p))"] n
    by (simp add: v_def loaded_view_def f nn)
  have mb: "arr (vw_membership v) = take ((n + 7) div 8) (if e then full_membership n else replicate 38 0)"
    by (simp add: v_def loaded_view_def f nn)
  show "length (arr (vw_membership v)) = (n + 7) div 8" using n unfolding mb by auto
  have "bit_at (arr (vw_membership v)) i = e" if "i < n" for i
  proof -
    have "i div 8 < (n + 7) div 8" "i div 8 < 38" using that n by auto
    then show ?thesis using full_membership_bits [of n i] n that unfolding mb by (simp add: bit_at_def)
  qed
  then show "list_all (\<lambda>i. bit_at (arr (vw_membership v)) i = e) [0..<n]" by (simp add: list_all_iff)
qed

text \<open>A prepared capture survives its conversion to the payload format and back: with memory
  available the conversion succeeds, and the loaded capture has the features in order with their
  coordinates and descriptors, level tables that the matcher accepts, and every membership bit set
  for an enrolled capture and clear otherwise.\<close>

theorem prepared_capture_roundtrip:
  assumes "prepared_ok p" "\<And>n. al n"
  shows "\<exists>v. fpc_capture_from_prepared al p e = Some (Inr v) \<and> unat (vw_count v) = pc_feature_count p
    \<and> \<not> view_rejected v \<and> view_ready v
    \<and> arr (vw_compact_coordinates v)
        = concat (map (\<lambda>f. [kp_x (ft_point f), kp_y (ft_point f)]) (take (pc_feature_count p) (pc_features p)))
    \<and> descriptor_rows (pc_feature_count p) (arr (vw_descriptors v))
        = map ft_descriptor (take (pc_feature_count p) (pc_features p))
    \<and> length (arr (vw_membership v)) = (pc_feature_count p + 7) div 8
    \<and> list_all (\<lambda>i. bit_at (arr (vw_membership v)) i = e) [0..<pc_feature_count p]"
  by (intro exI [of _ "loaded_view (trimmed_view p e)"] conjI from_prepared_cases(2) [OF assms]
      from_prepared_fields [OF assms(1)])

definition sample_prepared :: fpc_prepared_capture where
  "sample_prepared =
     \<lparr>pc_pixels = [], pc_mask = [], pc_packed_mask = replicate 352 0, pc_prepared_mask = replicate 352 0,
      pc_filter_reason = 0, pc_quality = 100, pc_confidence = 90, pc_coverage = 80, pc_is_finger = True,
      pc_features = replicate 300 blank_feature, pc_feature_count = 9\<rparr>"

lemma sample_prepared_ok: "prepared_ok sample_prepared"
  by (simp add: prepared_ok_def sample_prepared_def blank_feature_def list_all_iff)

theorem prepared_capture_roundtrip_witness:
  "\<exists>v. fpc_capture_from_prepared (\<lambda>_. True) sample_prepared True = Some (Inr v) \<and> unat (vw_count v) = 9
     \<and> length (arr (vw_membership v)) = 2 \<and> list_all (\<lambda>i. bit_at (arr (vw_membership v)) i) [0..<9]"
  using prepared_capture_roundtrip [OF sample_prepared_ok, of "\<lambda>_. True" True]
  by (auto simp: sample_prepared_def)

subsection \<open>The session invariant\<close>

text \<open>A capture of a session: well formed under the default flags, in the form that loading gives, and
  accepted by the matcher.\<close>

definition stored_ok :: "fpc_capture_payload_view \<Rightarrow> bool" where
  "stored_ok v \<longleftrightarrow> view_ready v \<and> \<not> view_rejected v \<and> view_ok v 0xCE1 \<and> loaded_view v = v
     \<and> unat (vw_count v) \<le> 300 \<and> vw_table_width v = 0"

lemma stored_membership: "stored_ok v \<Longrightarrow> length (arr (vw_membership v)) = (unat (vw_count v) + 7) div 8"
  by (simp add: stored_ok_def view_ok_def n_membership_def flags_ce1 Let_def)

definition session_arrays :: "fpc_native_enrollment \<Rightarrow> bool" where
  "session_arrays s \<longleftrightarrow>
     se_count s \<le> 13 \<and> length (se_captures s) = 13 \<and> length (se_masks s) = 13
     \<and> length (se_coverage s) = 13 \<and> length (se_widths s) = 13 \<and> length (se_heights s) = 13
     \<and> length (se_matches s) = 78 \<and> length (se_spatial_scores s) = 78
     \<and> length (se_roots s) = 13 \<and> length (se_groups s) = 13
     \<and> list_all stored_ok (take (se_count s) (se_captures s))"

text \<open>A session that has not failed holds the scores of all pairs of its captures, and its groups are
  valid.\<close>

definition session_counts :: "fpc_native_enrollment \<Rightarrow> bool" where
  "session_counts s \<longleftrightarrow>
     se_pair_count s = se_count s * (se_count s - 1) div 2
     \<and> groups_valid (se_count s) (cg_group_count (se_grouping s)) (se_groups s) (se_roots s)"

definition session_ok :: "fpc_native_enrollment \<Rightarrow> bool" where
  "session_ok s \<longleftrightarrow> session_arrays s \<and> (\<not> se_failed s \<longrightarrow> session_counts s)"

lemma create_ok: "session_ok fpc_native_enrollment_create"
  by (simp add: session_ok_def session_arrays_def session_counts_def groups_valid_def fpc_native_enrollment_create_def)

lemma arr_non_null [simp]: "arr (non_null xs) = xs"
  by (simp add: non_null_def)

lemma loaded_view_ok: "view_ok v flags \<Longrightarrow> view_ok (loaded_view v) flags"
  by (simp add: view_ok_def loaded_view_def view_rows_def Let_def)

lemma loaded_view_idem: "loaded_view (loaded_view v) = loaded_view v"
  by (simp add: loaded_view_def)

lemma from_prepared_stored:
  assumes "prepared_ok p" "fpc_capture_from_prepared al p True = Some (Inr v)"
  shows "stored_ok v"
proof -
  have v: "v = loaded_view (trimmed_view p True)" using from_prepared_cases(1) [OF assms(1), of al True] assms(2) by auto
  have "vw_table_width v = 0" using trimmed_view_fields(6) [OF assms(1)] by (simp add: v loaded_view_def)
  with v show ?thesis
    using from_prepared_fields [OF assms(1), of True] loaded_view_ok [OF trimmed_view_ok [OF assms(1)], of True] assms(1)
    by (simp add: stored_ok_def loaded_view_idem prepared_ok_def)
qed

subsection \<open>Matching the incoming capture\<close>

lemma membership_bytes_stored: "stored_ok v \<Longrightarrow> membership_bytes v = arr (vw_membership v)"
  using stored_membership [of v] by (cases "vw_membership v") (auto simp: membership_bytes_def)

lemma update_membership_stored:
  assumes "stored_ok v" "length bits = length (membership_bytes v)"
  shows "stored_ok (update_membership bits v)"
proof (cases "vw_membership v")
  case None
  then show ?thesis using assms(1) by (simp add: update_membership_def)
next
  case (Some m)
  let ?u = "v\<lparr>vw_membership := Some bits\<rparr>"
  have m: "length bits = length m" "length m = (unat (vw_count v) + 7) div 8"
    using assms Some stored_membership [OF assms(1)] by (simp_all add: membership_bytes_stored)
  have lv: "loaded_view v = v" using assms(1) by (simp add: stored_ok_def)
  have "non_null m = Some m" using arg_cong [OF lv, of vw_membership] Some by (simp add: loaded_view_def)
  then have nb: "non_null bits = Some bits" using m(1) by (auto simp: non_null_def split: if_splits)
  have "loaded_view ?u = (loaded_view v)\<lparr>vw_membership := Some bits\<rparr>"
    using nb by (simp add: loaded_view_def)
  then have lu: "loaded_view ?u = ?u" using lv by simp
  have "capture_compact_levels_valid ?u = capture_compact_levels_valid v"
    by (cases "vw_level_fields v") (simp_all add: capture_compact_levels_valid_def)
  moreover have "view_ok v 0xCE1" using assms(1) by (simp add: stored_ok_def)
  then have "view_ok ?u 0xCE1"
    using m by (simp add: view_ok_def view_rows_def n_membership_def flags_ce1 Let_def)
  ultimately have "stored_ok ?u"
    using assms(1) lu by (simp add: stored_ok_def view_ready_def view_rejected_def)
  then show ?thesis using Some m(1) by (simp add: update_membership_def)
qed

lemma match_stored_spec:
  assumes "stored_ok (se_captures s ! se_count s)" "se_count s < length (se_captures s)"
    "list_all (\<lambda>i. i < se_count s \<and> stored_ok (se_captures s ! i)) is"
  shows "\<exists>status c m sp k. match_stored al is s = Some (status,
       s\<lparr>se_captures := (se_captures s)[se_count s := c], se_matches := m, se_spatial_scores := sp,
         se_pair_count := k\<rparr>)
    \<and> stored_ok c \<and> length m = length (se_matches s) \<and> length sp = length (se_spatial_scores s)
    \<and> (status = 0 \<longrightarrow> k = se_pair_count s + length is)"
  using assms
proof (induction "is" arbitrary: s)
  case Nil
  then show ?case
    by (intro exI [of _ 0] exI [of _ "se_captures s ! se_count s"] exI [of _ "se_matches s"]
        exI [of _ "se_spatial_scores s"] exI [of _ "se_pair_count s"]) simp
next
  case (Cons i "is")
  let ?n = "se_count s"
  let ?in = "se_captures s ! ?n"
  have ready: "view_ready (se_captures s ! i)" "view_ready ?in" "i < ?n"
    using Cons.prems by (simp_all add: stored_ok_def)
  obtain m where m: "fpc_match_profile300_captures al (se_captures s ! i) ?in (membership_bytes ?in)
      (replicate 300 \<lparr>cd_first = 0, cd_second = 0, cd_distance = 0, cd_flag = 0, cd_reserved = 0\<rparr>)
      empty_result 0 = Some m" "length (mo_target m) = length (membership_bytes ?in)"
    using match_captures_returns [OF ready(1,2)] by blast
  let ?c = "update_membership (mo_target m) ?in"
  have c: "stored_ok ?c" by (rule update_membership_stored [OF Cons.prems(1) m(2)])
  let ?s1 = "s\<lparr>se_captures := (se_captures s)[?n := ?c]\<rparr>"
  show ?case
  proof (cases "mo_status m = 0")
    case False
    with m(1) c show ?thesis
      by (intro exI [of _ "mo_status m"] exI [of _ ?c] exI [of _ "se_matches s"]
          exI [of _ "se_spatial_scores s"] exI [of _ "se_pair_count s"]) (simp add: Let_def)
  next
    case True
    let ?s2 = "store_match m ?s1"
    have f: "se_count ?s2 = ?n" "se_captures ?s2 = (se_captures s)[?n := ?c]"
      "length (se_matches ?s2) = length (se_matches s)"
      "length (se_spatial_scores ?s2) = length (se_spatial_scores s)" "se_pair_count ?s2 = se_pair_count s + 1"
      by (simp_all add: store_match_def Let_def)
    have "stored_ok (se_captures ?s2 ! se_count ?s2)" "se_count ?s2 < length (se_captures ?s2)"
      using f c Cons.prems(2) by simp_all
    moreover have "list_all (\<lambda>i. i < se_count ?s2 \<and> stored_ok (se_captures ?s2 ! i)) is"
      using f Cons.prems(3) by (auto simp: list_all_iff nth_list_update)
    ultimately obtain status c' m' sp k where r: "match_stored al is ?s2 = Some (status,
         ?s2\<lparr>se_captures := (se_captures ?s2)[se_count ?s2 := c'], se_matches := m', se_spatial_scores := sp,
           se_pair_count := k\<rparr>)"
      "stored_ok c'" "length m' = length (se_matches ?s2)" "length sp = length (se_spatial_scores ?s2)"
      "status = 0 \<longrightarrow> k = se_pair_count ?s2 + length is"
      using Cons.IH [of ?s2] by blast
    have "?s2\<lparr>se_captures := (se_captures ?s2)[se_count ?s2 := c'], se_matches := m', se_spatial_scores := sp,
           se_pair_count := k\<rparr>
        = s\<lparr>se_captures := (se_captures s)[?n := c'], se_matches := m', se_spatial_scores := sp, se_pair_count := k\<rparr>"
      by (simp add: store_match_def Let_def)
    with r f m(1) True show ?thesis
      by (intro exI [of _ status] exI [of _ c'] exI [of _ m'] exI [of _ sp] exI [of _ k]) (simp add: Let_def)
  qed
qed

subsection \<open>Progress of a session\<close>

text \<open>\<open>progress_ok n g\<close>: what a progress report says after \<open>n\<close> accepted captures.\<close>

definition progress_ok :: "nat \<Rightarrow> fpc_enrollment_progress \<Rightarrow> bool" where
  "progress_ok n g \<longleftrightarrow>
     0 \<le> pg_percent g \<and> pg_percent g \<le> 100
     \<and> (if pg_complete g = 0 then n < 13 \<and> pg_remaining g = 13 - int n
        else 7 \<le> n \<and> pg_percent g = 100 \<and> pg_remaining g = 0)"

lemma progress_step:
  assumes "fpc_enrollment_progress_profile300 (int n) area motion change latched g = (status, latched', g')"
  shows "(status = 0 \<and> progress_ok n g') \<or> (status = - 1 \<and> g' = g)"
proof (cases "metrics_rejected (int n) area motion change")
  case True
  then show ?thesis using assms enrollment_progress_value [of "int n" area motion change latched g] by simp
next
  case False
  then show ?thesis using assms enrollment_progress_value [of "int n" area motion change latched g]
    by (auto simp: Let_def progress_ok_def split: if_splits)
qed

lemma quality_step:
  assumes "fpc_enrollment_quality_profile300 a b c (int n) area motion change st 0 = (status, st', flags)"
    "progress_ok n (qs_progress st)"
  shows "progress_ok n (qs_progress st') \<and> (status = 0 \<or> status = - 1 \<or> status = 112)
    \<and> (status = 112 \<longrightarrow> flags \<noteq> 0)"
proof -
  obtain s l g where e: "fpc_enrollment_progress_profile300 (int n) area motion change
      (qs_early_complete_latched st) (qs_progress st) = (s, l, g)" by (metis prod_cases3)
  show ?thesis using assms progress_step [OF e] e
    by (auto simp: fpc_enrollment_quality_profile300_def Let_def split: if_splits)
qed

definition session_live :: "fpc_native_enrollment \<Rightarrow> bool" where
  "session_live s \<longleftrightarrow> session_ok s \<and> (\<not> se_failed s \<longrightarrow> progress_ok (se_count s) (qs_progress (se_quality s)))"

subsection \<open>The abstract session\<close>

datatype session_phase = Enrolling nat | Broken

inductive session_step :: "session_phase \<Rightarrow> status \<Rightarrow> session_phase \<Rightarrow> bool" where
  rejected: "n < 13 \<Longrightarrow> status \<in> {0, - 1, 112} \<Longrightarrow> session_step (Enrolling n) status (Enrolling n)"
| accepted: "n < 13 \<Longrightarrow> session_step (Enrolling n) 0 (Enrolling (n + 1))"
| breaks: "n < 13 \<Longrightarrow> status \<noteq> 0 \<Longrightarrow> session_step (Enrolling n) status Broken"
| full: "session_step (Enrolling 13) 111 (Enrolling 13)"
| stuck: "session_step Broken (- 1) Broken"

inductive_cases from_broken: "session_step Broken status q"
inductive_cases from_full: "session_step (Enrolling 13) status q"

definition phase :: "fpc_native_enrollment \<Rightarrow> session_phase" where
  "phase s = (if se_failed s then Broken else Enrolling (se_count s))"

lemma measure_session_frame: "measure_session al s = (status, s') \<Longrightarrow> \<exists>m. s' = s\<lparr>se_metrics := m\<rparr>"
  by (auto simp: measure_session_def split: prod.splits)

lemma judge_movement_frame:
  "judge_movement s mv = (status, s', mv') \<Longrightarrow> \<exists>k. s' = s\<lparr>se_insufficient_movement := k\<rparr>"
  by (auto simp: judge_movement_def split: prod.splits)

lemma update_progress_frame:
  assumes "update_progress s = (status, s')"
  shows "\<exists>q. s' = s\<lparr>se_quality := q\<rparr> \<and> (status = 0 \<longrightarrow> progress_ok (se_count s) (qs_progress q))"
proof -
  obtain st l g where u: "fpc_enrollment_progress_profile300 (int (se_count s)) (latest_area s)
             (em_normalized_motion (se_metrics s)) (em_relative_area_change (se_metrics s))
             (qs_early_complete_latched (se_quality s)) (qs_progress (se_quality s)) = (st, l, g)"
    by (metis prod_cases3)
  show ?thesis using assms progress_step [OF u] u
    by (intro exI [of _ "(se_quality s)\<lparr>qs_early_complete_latched := l, qs_progress := g\<rparr>"])
      (auto simp: update_progress_def)
qed

text \<open>The end of an addition, after the capture has been stored.\<close>

lemma finish_addition_spec:
  assumes "session_arrays s" "se_count s = Suc n" "se_pair_count s = Suc n * n div 2" "\<not> se_failed s"
  shows "\<exists>status s' r. finish_addition al before s report = Some (status, s', r)
    \<and> session_live s' \<and> se_count s' = Suc n
    \<and> (if status = 0 then \<not> se_failed s' \<and> er_accepted r = Suc n \<and> er_progress r = qs_progress (se_quality s')
       else se_failed s')"
proof -
  have len: "se_count s \<le> length (se_groups s)" "se_count s \<le> length (se_roots s)"
    using assms(1) by (simp_all add: session_arrays_def)
  obtain st1 groups roots transforms grouping flags where g:
    "fpc_rebuild_capture_groups al (take (se_pair_count s) (se_matches s)) (se_count s) (se_widths s)
       (se_heights s) 4 False (se_groups s) (se_roots s) (se_transforms s) (se_grouping s)
       (er_group_change report) = Some (st1, groups, roots, transforms, grouping, flags)"
    "length groups = length (se_groups s)" "length roots = length (se_roots s)"
    "if st1 = 0 then groups_valid (se_count s) (cg_group_count grouping) groups roots else st1 = - 1"
    using rebuild_groups_spec [OF len, where al = al and matches = "take (se_pair_count s) (se_matches s)"
        and widths = "se_widths s" and heights = "se_heights s" and minimum = 4 and preserve = False
        and transforms = "se_transforms s" and st = "se_grouping s" and flags = "er_group_change report"]
    by blast
  define s1 where "s1 = s\<lparr>se_groups := groups, se_roots := roots, se_transforms := transforms, se_grouping := grouping\<rparr>"
  have r: "regroup al s (er_group_change report) = Some (st1, s1, flags)"
    using g(1) by (simp add: regroup_def s1_def)
  have a1: "session_arrays s1" using assms(1) g(2,3) by (simp add: session_arrays_def s1_def)
  have c1: "session_counts s1" if "st1 = 0"
    using g(4) that assms(2,3) by (simp add: session_counts_def s1_def)
  have n1: "se_count s1 = Suc n" "\<not> se_failed s1" using assms(2,4) by (simp_all add: s1_def)
  have kept: "session_arrays s'" "session_counts s'" "se_count s' = Suc n" "\<not> se_failed s'"
    if "st1 = 0" "s' = s1\<lparr>se_metrics := m, se_insufficient_movement := im, se_quality := q\<rparr>" for s' m im q
    using a1 c1 n1 that by (simp_all add: session_arrays_def session_counts_def)
  have failed: "session_live (s'\<lparr>se_failed := True\<rparr>)" if "session_arrays s'" for s'
    using that by (simp add: session_live_def session_ok_def session_arrays_def)
  show ?thesis
  proof (cases "st1 = 0")
    case False
    with r a1 n1 failed show ?thesis by (simp add: finish_addition_def exit_fail_def Let_def)
  next
    case True
    obtain st2 s2 where m: "measure_session al s1 = (st2, s2)" by fastforce
    obtain st3 s3 mv where j: "judge_movement s2 (er_movement report) = (st3, s3, mv)" by (metis prod_cases3)
    obtain st4 s4 where u: "update_progress s3 = (st4, s4)" by fastforce
    obtain metrics im q where f: "s2 = s1\<lparr>se_metrics := metrics\<rparr>" "s3 = s2\<lparr>se_insufficient_movement := im\<rparr>"
      "s4 = s3\<lparr>se_quality := q\<rparr>" "st4 = 0 \<longrightarrow> progress_ok (se_count s3) (qs_progress q)"
      using measure_session_frame [OF m] judge_movement_frame [OF j] update_progress_frame [OF u] by blast
    have k2: "session_arrays s2" "se_count s2 = Suc n"
      using kept [OF True, where s' = s2 and m = metrics and im = "se_insufficient_movement s1" and q = "se_quality s1"] f by simp_all
    have k3: "session_arrays s3" "se_count s3 = Suc n"
      using kept [OF True, where s' = s3 and m = metrics and im = im and q = "se_quality s1"] f by simp_all
    have k4: "session_arrays s4" "session_counts s4" "se_count s4 = Suc n" "\<not> se_failed s4"
      using kept [OF True, where s' = s4 and m = metrics and im = im and q = q] f by simp_all
    have live: "session_live s4" if "st4 = 0"
      using f(3,4) that k3(2) k4 by (simp add: session_live_def session_ok_def)
    note d = finish_addition_def exit_fail_def exit_result_def Let_def
    consider "st2 \<noteq> 0" | "st2 = 0" "st3 \<noteq> 0" | "st2 = 0" "st3 = 0" "st4 \<noteq> 0"
      | "st2 = 0" "st3 = 0" "st4 = 0" by blast
    then show ?thesis
    proof cases
      case 1
      then show ?thesis using r True m k2 failed [OF k2(1)] by (simp add: d)
    next
      case 2
      then show ?thesis using r True m j k3 failed [OF k3(1)] by (simp add: d)
    next
      case 3
      then show ?thesis using r True m j u k4 failed [OF k4(1)] by (simp add: d)
    next
      case 4
      then show ?thesis using r True m j u k4 live by (simp add: d)
    qed
  qed
qed

lemma pair_total: "(n * (n - 1)) div 2 + n = (Suc n * n) div 2"
  by (cases n) (simp_all add: algebra_simps)

lemma live_fail: "session_arrays s \<Longrightarrow> session_live (s\<lparr>se_failed := True\<rparr>)"
  by (simp add: session_live_def session_ok_def session_arrays_def)

text \<open>How an addition that passed the quality gate ends.\<close>

definition addition_end ::
    "fpc_native_enrollment \<Rightarrow> status \<Rightarrow> fpc_native_enrollment \<Rightarrow> fpc_native_enrollment_report \<Rightarrow> bool" where
  "addition_end s status s' r \<longleftrightarrow>
     session_live s' \<and> se_count s' \<le> Suc (se_count s)
     \<and> (if status = 0 then \<not> se_failed s' \<and> se_count s' = Suc (se_count s) \<and> er_accepted r = se_count s'
                          \<and> er_progress r = qs_progress (se_quality s')
        else se_failed s')"

lemma accept_capture_spec:
  assumes "session_live s" "\<not> se_failed s" "se_count s < 13" "prepared_ok p"
  shows "\<exists>status s' r. accept_capture al s p report = Some (status, s', r) \<and> addition_end s status s' r"
proof -
  let ?n = "se_count s"
  have a: "session_arrays s" "session_counts s" using assms(1,2) by (simp_all add: session_live_def session_ok_def)
  from from_prepared_cases(1) [OF assms(4), of al True] show ?thesis
  proof
    assume "fpc_capture_from_prepared al p True = Some (Inl 2)"
    then show ?thesis using live_fail [OF a(1)]
      by (simp add: accept_capture_def exit_fail_def addition_end_def)
  next
    let ?v = "loaded_view (trimmed_view p True)" and ?s0 = "s\<lparr>se_captures := (se_captures s)[?n := loaded_view (trimmed_view p True)]\<rparr>"
    assume e: "fpc_capture_from_prepared al p True = Some (Inr ?v)"
    have len: "length (se_captures s) = 13" using a(1) by (simp add: session_arrays_def)
    have old: "stored_ok (se_captures s ! i)" if "i < ?n" for i
      using a(1) that len by (simp add: session_arrays_def list_all_length)
    have "stored_ok (se_captures ?s0 ! se_count ?s0)" "se_count ?s0 < length (se_captures ?s0)"
      "list_all (\<lambda>i. i < se_count ?s0 \<and> stored_ok (se_captures ?s0 ! i)) [0..<?n]"
      using from_prepared_stored [OF assms(4) e] len assms(3) old by (auto simp: list_all_iff)
    from match_stored_spec [OF this, of al] obtain st c m sp k where
      r: "match_stored al [0..<?n] ?s0 = Some (st,
            ?s0\<lparr>se_captures := (se_captures ?s0)[se_count ?s0 := c], se_matches := m, se_spatial_scores := sp,
              se_pair_count := k\<rparr>)"
        "stored_ok c" "length m = length (se_matches s)" "length sp = length (se_spatial_scores s)"
        "st = 0 \<longrightarrow> k = se_pair_count s + ?n"
      by auto
    define s1 where "s1 = s\<lparr>se_captures := (se_captures s)[?n := c], se_matches := m, se_spatial_scores := sp,
              se_pair_count := k\<rparr>"
    have r1: "match_stored al [0..<?n] ?s0 = Some (st, s1)" using r(1) by (simp add: s1_def)
    have n1: "se_count s1 = ?n" by (simp add: s1_def)
    have a1: "session_arrays s1" using a(1) r(3,4) by (simp add: session_arrays_def s1_def)
    show ?thesis
    proof (cases "st = 0")
      case False
      then show ?thesis using e r1 live_fail [OF a1] n1
        by (simp add: accept_capture_def exit_fail_def addition_end_def)
    next
      case True
      define s2 where "s2 = s1\<lparr>se_masks := (se_masks s1)[se_count s1 := pc_packed_mask p],
          se_coverage := (se_coverage s1)[se_count s1 := pc_coverage p], se_count := se_count s1 + 1\<rparr>"
      have n2: "se_count s2 = Suc ?n" "\<not> se_failed s2" using assms(2) by (simp_all add: s2_def s1_def)
      have "take (Suc ?n) ((se_captures s)[?n := c]) = take ?n (se_captures s) @ [c]"
        using len assms(3) by (simp add: take_Suc_conv_app_nth)
      then have a2: "session_arrays s2"
        using a1 a(1) r(2) assms(3) by (simp add: session_arrays_def s2_def s1_def)
      have p2: "se_pair_count s2 = Suc ?n * ?n div 2"
        using True r(5) a(2) pair_total [of ?n] by (simp add: s2_def s1_def session_counts_def)
      obtain status s' rr where f: "finish_addition al s s2 report = Some (status, s', rr)"
        "session_live s'" "se_count s' = Suc ?n"
        "if status = 0 then \<not> se_failed s' \<and> er_accepted rr = Suc ?n \<and> er_progress rr = qs_progress (se_quality s')
         else se_failed s'"
        using finish_addition_spec [OF a2 n2(1) p2 n2(2), of al s report] by blast
      have "accept_capture al s p report = Some (status, s', rr)"
        using e r1 True f(1) by (simp add: accept_capture_def s2_def)
      moreover have "addition_end s status s' rr" using f(2-4) by (auto simp: addition_end_def)
      ultimately show ?thesis by blast
    qed
  qed
qed

text \<open>What one addition does to a live session.\<close>

definition addition_outcome ::
    "fpc_native_enrollment \<Rightarrow> status \<Rightarrow> fpc_native_enrollment \<Rightarrow> fpc_native_enrollment_report \<Rightarrow> bool" where
  "addition_outcome s status s' r \<longleftrightarrow>
     session_live s' \<and> session_step (phase s) status (phase s') \<and> se_count s' \<le> Suc (se_count s)
     \<and> (if se_failed s \<or> 13 \<le> se_count s then s' = s
        else if phase s' = phase s then (\<exists>q. s' = s\<lparr>se_quality := q\<rparr>) \<and> (status \<noteq> - 1 \<longrightarrow> er_rejection_flags r \<noteq> 0)
             \<and> er_accepted r = se_count s
        else status = 0 \<longrightarrow> er_accepted r = Suc (se_count s) \<and> er_progress r = qs_progress (se_quality s'))"

lemma add_spec:
  assumes "session_live s" "prepared_ok p"
  shows "\<exists>status s' r. fpc_native_enrollment_add al s p report = Some (status, s', r) \<and> addition_outcome s status s' r"
proof (cases "se_failed s \<or> 13 \<le> se_count s")
  case True
  have "se_count s \<le> 13" using assms(1) by (simp add: session_live_def session_ok_def session_arrays_def)
  with True assms(1) show ?thesis
    by (auto simp: fpc_native_enrollment_add_def addition_outcome_def phase_def intro: session_step.intros)
next
  case False
  let ?n = "se_count s"
  obtain st q flags where g: "fpc_enrollment_quality_profile300 (pc_confidence p) (pc_coverage p) (pc_quality p)
      (int ?n) (latest_area s) (em_normalized_motion (se_metrics s)) (em_relative_area_change (se_metrics s))
      (se_quality s) 0 = (st, q, flags)" by (metis prod_cases3)
  have po: "progress_ok ?n (qs_progress (se_quality s))" using assms(1) False by (simp add: session_live_def)
  note qs = quality_step [OF g po]
  let ?s1 = "s\<lparr>se_quality := q\<rparr>"
  have l1: "session_live ?s1"
    using assms(1) qs by (simp add: session_live_def session_ok_def session_arrays_def session_counts_def)
  show ?thesis
  proof (cases "st \<noteq> 0 \<or> flags \<noteq> 0")
    case True
    with False g qs l1 show ?thesis
      by (auto simp: fpc_native_enrollment_add_def exit_result_def addition_outcome_def phase_def Let_def
          zero_report_def intro: session_step.rejected)
  next
    case ok: False
    let ?r1 = "zero_report\<lparr>er_rejection_flags := flags\<rparr>"
    have nf: "\<not> se_failed ?s1" "se_count ?s1 < 13" using False by simp_all
    obtain status s' r where a: "accept_capture al ?s1 p ?r1 = Some (status, s', r)"
      "addition_end ?s1 status s' r"
      using accept_capture_spec [OF l1 nf assms(2), of al ?r1] by blast
    have "fpc_native_enrollment_add al s p report = Some (status, s', r)"
      using False g ok a(1) by (simp add: fpc_native_enrollment_add_def Let_def)
    moreover have "addition_outcome s status s' r"
      using a(2) False
      by (auto simp: addition_end_def addition_outcome_def phase_def intro: session_step.accepted [simplified] session_step.breaks split: if_splits)
    ultimately show ?thesis by blast
  qed
qed

text \<open>A sequence of additions, and the sessions it goes through.\<close>

fun session_run ::
    "(nat \<Rightarrow> bool) \<Rightarrow> fpc_prepared_capture list \<Rightarrow> fpc_native_enrollment \<Rightarrow> fpc_native_enrollment option" where
  "session_run al [] s = Some s"
| "session_run al (p # ps) s =
     do { (status, s', r) \<leftarrow> fpc_native_enrollment_add al s p zero_report; session_run al ps s' }"

lemma create_live: "session_live fpc_native_enrollment_create"
  using create_ok by (simp add: session_live_def progress_ok_def fpc_native_enrollment_create_def)

lemma session_run_spec:
  assumes "list_all prepared_ok ps" "session_live s"
  shows "\<exists>s'. session_run al ps s = Some s' \<and> session_live s' \<and> se_count s' \<le> se_count s + length ps
    \<and> (\<not> se_failed s' \<longrightarrow> \<not> se_failed s)"
  using assms
proof (induction ps arbitrary: s)
  case (Cons p ps)
  obtain status s1 r where a: "fpc_native_enrollment_add al s p zero_report = Some (status, s1, r)"
    "addition_outcome s status s1 r"
    using add_spec [of s p al zero_report] Cons.prems by auto
  have l1: "session_live s1" "se_count s1 \<le> Suc (se_count s)" using a(2) by (simp_all add: addition_outcome_def)
  obtain s' where s': "session_run al ps s1 = Some s'" "session_live s'"
    "se_count s' \<le> se_count s1 + length ps" "\<not> se_failed s' \<longrightarrow> \<not> se_failed s1"
    using Cons.IH [OF _ l1(1)] Cons.prems by auto
  have st: "session_step (phase s) status (phase s1)" using a(2) by (simp add: addition_outcome_def)
  have "\<not> se_failed s" if "\<not> se_failed s1"
    using st that by (cases "se_failed s") (auto simp: phase_def elim: from_broken)
  with a(1) s' l1(2) show ?case by auto
qed simp

text \<open>(C13) Adding a capture refines the abstract session. From a live session and for any capture as the
  preparation hands it over, the addition returns: no conversion, matching, grouping or measurement
  on the way runs on or reads outside its arrays. The session stays live and makes a step of the
  abstract machine: a rejection that changes nothing but the quality state, an acceptance that
  advances the count by one and reports it, or a failure, which is final; a full session answers
  111.\<close>

theorem session_add_refines:
  assumes "session_live s" "prepared_ok p"
  shows "\<exists>status s' r. fpc_native_enrollment_add al s p report = Some (status, s', r) \<and> addition_outcome s status s' r"
  using assms by (rule add_spec)

theorem session_add_refines_witness:
  "\<exists>status s' r. fpc_native_enrollment_add (\<lambda>_. True) fpc_native_enrollment_create sample_prepared zero_report
       = Some (status, s', r) \<and> addition_outcome fpc_native_enrollment_create status s' r"
  using create_live sample_prepared_ok by (rule session_add_refines)

text \<open>(C16) Every session that additions make out of a new one is live: its arrays have the lengths of
  the code, it holds at most thirteen captures, each with the tables and the membership bits that it
  announces, and unless it has failed it has one score per pair of captures, valid groups, and a
  progress report that is complete from the thirteenth capture on and never before the seventh.\<close>

theorem session_invariant:
  assumes "list_all prepared_ok ps"
  shows "\<exists>s. session_run al ps fpc_native_enrollment_create = Some s \<and> session_live s
    \<and> se_count s \<le> length ps"
  using session_run_spec [OF assms create_live, of al] by (auto simp: fpc_native_enrollment_create_def)

theorem session_invariant_witness:
  "\<exists>s. session_run (\<lambda>_. True) (replicate 20 sample_prepared) fpc_native_enrollment_create = Some s
     \<and> session_live s \<and> se_count s \<le> 20"
proof -
  have "list_all prepared_ok (replicate 20 sample_prepared)" using sample_prepared_ok by (simp add: list_all_iff)
  from session_invariant [OF this, of "\<lambda>_. True"] show ?thesis by (simp only: length_replicate)
qed

subsection \<open>Completion\<close>

text \<open>The template of a completed session: its captures, their pair scores in the graph and an order of
  the slots, captures by increasing cost first.\<close>

definition session_order :: "u16 list \<Rightarrow> nat \<Rightarrow> u16 list" where
  "session_order scores n = map of_nat (sort_key (capture_cost 32 scores n) [0..<n] @ [n..<32])"

definition session_graph :: "u16 list \<Rightarrow> nat \<Rightarrow> fpc_retained_graph" where
  "session_graph scores n = (created_graph scores n 32 32 8)\<lparr>rg_order := Some (session_order scores n)\<rparr>"

lemma length_frames_blocks:
  "list_all (\<lambda>v. length (view_bytes v) \<le> k) vs
   \<Longrightarrow> length (frames (capture_blocks i vs)) \<le> length vs * (k + 12)"
proof (induction vs arbitrary: i)
  case (Cons v vs)
  from Cons.IH [of "i + 1"] Cons.prems show ?case by (simp add: frames_Cons)
qed simp

lemma stored_bytes:
  assumes "stored_ok v"
  shows "length (view_bytes v) \<le> 5500"
proof -
  have "unat (vw_count v) \<le> 300" using assms by (simp add: stored_ok_def)
  then have "(unat (vw_count v) + 7) div 8 \<le> 38" "unat (vw_count v) \<le> 300" by auto
  then show ?thesis
    using assms length_view_bytes [OF _ flags_ce1(1), of v]
    by (simp add: stored_ok_def capture_payload_size_def Let_def n_array_defs flags_ce1 extra_words_def
        view_rejected_def)
qed

lemma stored_collection:
  assumes "list_all stored_ok vs" "vs \<noteq> []" "length vs \<le> 13"
  shows "collection_storable vs 32" "length (collection_bytes vs 32) \<le> 80000"
proof -
  have b: "list_all (\<lambda>v. length (view_bytes v) \<le> 5500) vs"
    using assms(1) stored_bytes by (auto simp: list_all_iff)
  have l: "length (frames (capture_blocks 0 vs)) \<le> length vs * 5512"
    using length_frames_blocks [OF b] by simp
  also have "\<dots> \<le> 13 * 5512" using assms(3) by (intro mult_right_mono) simp_all
  finally show s: "length (collection_bytes vs 32) \<le> 80000" by (simp add: length_collection_bytes)
  have "storable v" if "v \<in> set vs" for v
    using that assms(1) stored_bytes [of v] by (auto simp: list_all_iff storable_def stored_ok_def)
  then show "collection_storable vs 32"
    using assms s by (simp add: collection_storable_def list_all_iff SIZE_MAX_def)
qed

lemma length_session_order: "n \<le> 32 \<Longrightarrow> length (session_order scores n) = 32"
  by (simp add: session_order_def)

lemma session_graph_storable:
  assumes "list_all stored_ok vs" "vs \<noteq> []" "length vs \<le> 13" "length scores = table_size 32"
    "graph_wf (created_graph scores (length vs) 32 32 8)"
  shows "template_storable (session_graph scores (length vs)) vs 32 32"
proof -
  have u: "unat (of_nat (length vs) :: u16) = length vs" using assms(3) by (simp add: unat_of_nat take_bit_nat_eq_self)
  have g: "graph_wf (session_graph scores (length vs))"
    using assms(3,5) length_session_order [of "length vs" scores]
    by (simp add: graph_wf_def session_graph_def created_graph_def)
  have "length (graph_bytes (session_graph scores (length vs)) 0) \<le> 5000"
    using length_graph_bytes [OF g, of 0] assms(4) by (simp add: session_graph_def created_graph_def table_size_def)
  moreover have "length (concat (map st16 (replicate 32 (64 :: u16)))) = 64"
    using half.length_concat [of "replicate 32 64"] by simp
  ultimately have "length (template_bytes (session_graph scores (length vs)) vs 32 0) \<le> INT32_MAX"
    using stored_collection(2) [OF assms(1-3)]
    by (simp add: template_bytes_def Let_def frames_Cons session_graph_def created_graph_def INT32_MAX_def)
  then show ?thesis
    using g u stored_collection(1) [OF assms(1-3)] assms(4)
    by (simp add: template_storable_def session_graph_def created_graph_def)
qed

lemma unat_numeral_32: "unat (32 :: u8) = 32"
  by simp

lemma pair_slot: "k < l \<Longrightarrow> l < n \<Longrightarrow> l * (l - 1) div 2 + k < table_size n"
proof -
  assume kl: "k < l" "l < n"
  then have "l * (l - 1) div 2 + k < l * (l - 1) div 2 + l" by simp
  also have "\<dots> = Suc l * l div 2" by (rule pair_total)
  also have "\<dots> \<le> n * (n - 1) div 2" using kl by (intro div_le_mono mult_mono) auto
  finally show ?thesis by (simp add: table_size_def)
qed

lemma finish_spec:
  assumes "session_live s" "\<not> se_failed s" "pg_complete (qs_progress (se_quality s)) \<noteq> 0" "\<And>n. al n"
  shows "\<exists>scores. fpc_native_enrollment_finish al s False
      = Some (Inr \<lparr>lt_graph = session_graph scores (se_count s),
                  lt_collection = \<lparr>lc_captures = take (se_count s) (se_captures s), lc_capacity = 32\<rparr>,
                  lt_metadata = 0\<rparr>)
    \<and> template_storable (session_graph scores (se_count s)) (take (se_count s) (se_captures s)) 32 32
    \<and> (\<forall>k l. k < l \<and> l < 32 \<longrightarrow> scores ! edge 32 k l
         = (if l < se_count s then se_spatial_scores s ! (l * (l - 1) div 2 + k) else 0))"
proof -
  let ?n = "se_count s" and ?vs = "take (se_count s) (se_captures s)"
  let ?ps = "take (se_pair_count s) (se_spatial_scores s)"
  have a: "session_arrays s" "session_counts s" "progress_ok ?n (qs_progress (se_quality s))"
    using assms(1,2) by (simp_all add: session_live_def session_ok_def)
  have n: "7 \<le> ?n" "?n \<le> 13" using a(1,3) assms(3) by (simp_all add: progress_ok_def session_arrays_def)
  have pc: "se_pair_count s = table_size ?n" using a(2) by (simp add: session_counts_def table_size_def)
  have "?n * (?n - 1) \<le> 13 * 12" using n by (intro mult_mono) auto
  then have t78: "table_size ?n \<le> 78" by (simp add: table_size_def)
  have lps: "length ?ps = table_size ?n" using a(1) pc t78 by (simp add: session_arrays_def)
  have vs: "list_all stored_ok ?vs" "?vs \<noteq> []" "length ?vs = ?n" "length ?vs \<le> 13"
    using a(1) n by (auto simp: session_arrays_def)
  have pre: "?n \<le> 80" "table_size ?n \<le> length ?ps" "32 = max ?n (unat (32 :: u8))" "(2 :: nat) \<le> 32"
    using n lps by simp_all
  from retained_graph_created [where protection = 8, OF pre assms(4)] obtain scores where
    c0: "fpc_retained_graph_create al (Some ?ps) ?n 32 8 = Inr (created_graph scores ?n 32 (unat (32 :: u8)) 8)
      \<and> graph_wf (created_graph scores ?n 32 (unat (32 :: u8)) 8) \<and> length scores = table_size 32
      \<and> (\<forall>k l. k < l \<and> l < 32 \<longrightarrow> scores ! edge 32 k l = (if l < ?n then ?ps ! (l * (l - 1) div 2 + k) else 0))"
    by (rule exE)
  then have c: "fpc_retained_graph_create al (Some ?ps) ?n 32 8 = Inr (created_graph scores ?n 32 32 8)"
    "graph_wf (created_graph scores ?n 32 32 8)" "length scores = table_size 32"
    by (simp_all only: unat_numeral_32)
  have look: "scores ! edge 32 k l = (if l < ?n then se_spatial_scores s ! (l * (l - 1) div 2 + k) else 0)"
    if "k < l" "l < 32" for k l
  proof -
    have "?ps ! (l * (l - 1) div 2 + k) = se_spatial_scores s ! (l * (l - 1) div 2 + k)" if "l < ?n"
      using pair_slot [OF \<open>k < l\<close> that] pc by simp
    with c0 that show ?thesis by simp
  qed
  have un: "unat (of_nat ?n :: u16) = ?n" "unat (of_nat 32 :: u16) = 32"
    using n by (simp_all add: unat_of_nat take_bit_nat_eq_self)
  have "fpc_enrollment_initial_order al scores ?n 32 (map of_nat [0..<32]) = (0, session_order scores ?n)"
    using initial_order_sorted [of 32 ?n "map of_nat [0..<32]" scores al] n c(3) assms(4)
    by (simp add: session_order_def)
  note o = this
  have st: "template_storable (session_graph scores ?n) ?vs 32 32"
    using session_graph_storable [OF vs(1,2,4), of scores] c(2,3) vs(3) by simp
  have "session_template_bytes (session_graph scores ?n) ?vs al = Some (Inr (template_bytes (session_graph scores ?n) ?vs 32 0))"
    using template_writes(1) [where metadata = 0, OF st] assms(4)
      template_writes(2) [where metadata = 0 and
        buf = "replicate (length (template_bytes (session_graph scores ?n) ?vs 32 0)) 0", OF st]
    by (simp add: session_template_bytes_def)
  note b = this
  have lv: "map loaded_view ?vs = ?vs"
    using vs(1) by (auto simp: list_all_iff stored_ok_def intro: map_idI)
  have "fpc_native_enrollment_finish al s False
      = Some (Inr \<lparr>lt_graph = session_graph scores ?n, lt_collection = \<lparr>lc_captures = ?vs, lc_capacity = 32\<rparr>, lt_metadata = 0\<rparr>)"
    using assms(2,3) c(1) o b template_bytes_load [where metadata = 0, OF st assms(4)] lv un
    by (simp add: fpc_native_enrollment_finish_def created_graph_def session_graph_def)
  with look st show ?thesis by blast
qed

text \<open>(C14) Completing an enrollment. With memory available, a live session yields its template exactly
  when it has not failed, its progress is complete and its identity is free; otherwise the call is
  refused. The template has been written and loaded again, and it holds the captures of the session
  in order, at least seven, a graph whose score of two captures is their spatial score of the
  session, the slots ordered by the cost of their captures, and ages of twice the retention
  capacity.\<close>

theorem enrollment_finish_template:
  assumes "session_live s" "\<And>n. al n"
  shows "if se_failed s \<or> pg_complete (qs_progress (se_quality s)) = 0 \<or> occupied
    then fpc_native_enrollment_finish al s occupied = Some (Inl (- 1))
    else 7 \<le> se_count s \<and> (\<exists>scores. fpc_native_enrollment_finish al s occupied
      = Some (Inr \<lparr>lt_graph = session_graph scores (se_count s),
                  lt_collection = \<lparr>lc_captures = take (se_count s) (se_captures s), lc_capacity = 32\<rparr>,
                  lt_metadata = 0\<rparr>)
      \<and> (\<forall>k l. k < l \<and> l < 32 \<longrightarrow> scores ! edge 32 k l
           = (if l < se_count s then se_spatial_scores s ! (l * (l - 1) div 2 + k) else 0)))"
proof (cases "se_failed s \<or> pg_complete (qs_progress (se_quality s)) = 0 \<or> occupied")
  case True
  then show ?thesis by (auto simp: fpc_native_enrollment_finish_def)
next
  case False
  then have "7 \<le> se_count s" using assms(1) by (simp add: session_live_def progress_ok_def)
  with False finish_spec [of s al, OF assms(1) _ _ assms(2)] show ?thesis by auto
qed

definition sample_session :: fpc_native_enrollment where
  "sample_session = fpc_native_enrollment_create
     \<lparr>se_count := 7, se_pair_count := 21,
      se_captures := replicate 13 (loaded_view (trimmed_view sample_prepared True)),
      se_spatial_scores := map of_nat [0..<78],
      se_quality := \<lparr>qs_attempts = 9, qs_rejection_streak = 0, qs_early_complete_latched = 1,
                     qs_progress = \<lparr>pg_percent = 100, pg_remaining = 0, pg_complete = 1\<rparr>\<rparr>\<rparr>"

lemma sample_session_live: "session_live sample_session"
proof -
  have "stored_ok (loaded_view (trimmed_view sample_prepared True))"
    using from_prepared_stored [OF sample_prepared_ok, where al = "\<lambda>_. True"]
      from_prepared_cases(2) [OF sample_prepared_ok, of "\<lambda>_. True" True] by simp
  then show ?thesis
    by (simp add: session_live_def session_ok_def session_arrays_def session_counts_def groups_valid_def
        progress_ok_def sample_session_def fpc_native_enrollment_create_def list_all_iff)
qed

theorem enrollment_finish_template_witness:
  "\<exists>t. fpc_native_enrollment_finish (\<lambda>_. True) sample_session False = Some (Inr t)
     \<and> length (lc_captures (lt_collection t)) = 7 \<and> rg_used (lt_graph t) = 7"
  using enrollment_finish_template [OF sample_session_live, of "\<lambda>_. True" False]
  by (auto simp: sample_session_def fpc_native_enrollment_create_def session_graph_def created_graph_def)

end
