(* ===== verification/OrderedMap.thy ===== *)
theory OrderedMap
  imports Prelude "HOL-Library.AList"
begin

text \<open>
  The ordered map of the C++ standard library (\<^verbatim>\<open>std::map\<close>), in the order in which it is walked:
  an association list with strictly ascending keys. \<open>put\<close> is \<open>m[k] = v\<close>, \<open>AList.delete\<close> is
  \<open>erase\<close> and \<open>map_of\<close> is \<open>find\<close>. The contract the clients rely on is the locale
  \<open>dictionary\<close>.
\<close>

fun put :: "'k::linorder \<Rightarrow> 'v \<Rightarrow> ('k \<times> 'v) list \<Rightarrow> ('k \<times> 'v) list" where
  "put k v [] = [(k, v)]"
| "put k v ((k', v') # m) =
     (if k < k' then (k, v) # (k', v') # m
      else if k = k' then (k, v) # m
      else (k', v') # put k v m)"

definition ordered :: "('k::linorder \<times> 'v) list \<Rightarrow> bool" where
  "ordered m \<longleftrightarrow> sorted_wrt (<) (map fst m)"

locale dictionary =
  fixes find :: "'m \<Rightarrow> 'k \<Rightarrow> 'v option" and insert :: "'k \<Rightarrow> 'v \<Rightarrow> 'm \<Rightarrow> 'm"
    and erase :: "'k \<Rightarrow> 'm \<Rightarrow> 'm" and valid :: "'m \<Rightarrow> bool"
  assumes find_insert: "find (insert k v m) = (find m)(k \<mapsto> v)"
    and find_erase: "find (erase k m) = (find m)(k := None)"
    and valid_insert: "valid m \<Longrightarrow> valid (insert k v m)"
    and valid_erase: "valid m \<Longrightarrow> valid (erase k m)"
    and extensional: "valid m \<Longrightarrow> valid m' \<Longrightarrow> find m = find m' \<Longrightarrow> m = m'"
begin

lemma erase_absent: "valid m \<Longrightarrow> find m k = None \<Longrightarrow> erase k m = m"
  by (rule extensional) (auto simp: valid_erase find_erase)

lemma insert_again: "valid m \<Longrightarrow> find m k = Some v \<Longrightarrow> insert k v m = m"
  by (rule extensional) (auto simp: valid_insert find_insert)

lemma insert_insert: "valid m \<Longrightarrow> insert k v (insert k w m) = insert k v m"
  by (rule extensional) (auto simp: valid_insert find_insert)

lemma insert_erase: "valid m \<Longrightarrow> insert k v (erase k m) = insert k v m"
  by (rule extensional) (auto simp: valid_insert valid_erase find_insert find_erase)

end

lemma map_of_put [simp]: "map_of (put k v m) = (map_of m)(k \<mapsto> v)"
  by (induction k v m rule: put.induct) (auto simp: fun_eq_iff)

lemma set_put_keys: "set (map fst (put k v m)) = insert k (set (map fst m))"
  by (induction k v m rule: put.induct) auto

lemma ordered_Nil [simp]: "ordered []"
  by (simp add: ordered_def)

lemma ordered_Cons: "ordered ((k, v) # m) \<longleftrightarrow> (\<forall>k' \<in> set (map fst m). k < k') \<and> ordered m"
  by (simp add: ordered_def)

lemma ordered_put [simp]: "ordered m \<Longrightarrow> ordered (put k v m)"
proof (induction k v m rule: put.induct)
  case (2 k v k' v' m)
  then show ?case
    by (auto simp: ordered_Cons set_put_keys [simplified] dest: less_trans)
qed (simp add: ordered_def)

lemma delete_subset: "x \<in> set (AList.delete k m) \<Longrightarrow> x \<in> set m"
  by (induction m) (auto split: if_splits)

lemma ordered_delete [simp]: "ordered m \<Longrightarrow> ordered (AList.delete k m)"
proof (induction m)
  case (Cons kv m)
  then show ?case
    by (cases kv) (auto simp: ordered_Cons dest!: delete_subset)
qed simp

lemma ordered_extensional:
  assumes "ordered m" "ordered m'" "map_of m = map_of m'"
  shows "m = m'"
  using assms
proof (induction m arbitrary: m')
  case Nil
  then show ?case by (metis map_of.simps(1) map_of_eq_empty_iff)
next
  case (Cons kv m)
  obtain k v where kv: "kv = (k, v)" by force
  have "map_of m' \<noteq> Map.empty" using Cons.prems(3) kv by (metis map_of_eq_empty_iff list.distinct(1))
  then obtain k' v' n where m': "m' = (k', v') # n" by (cases m') auto
  have low: "k < j" if "map_of m j \<noteq> None" for j
    using Cons.prems(1) kv that by (auto simp: ordered_Cons map_of_eq_None_iff)
  have low': "k' < j" if "map_of n j \<noteq> None" for j
    using Cons.prems(2) m' that by (auto simp: ordered_Cons map_of_eq_None_iff)
  have eq: "map_of ((k, v) # m) j = map_of ((k', v') # n) j" for j
    using Cons.prems(3) unfolding kv m' by (rule fun_cong)
  have "k = k'"
  proof (rule ccontr)
    assume "k \<noteq> k'"
    then have "map_of m k' = Some v'" "Some v = map_of n k" using eq [of k] eq [of k'] by simp_all
    then have "map_of m k' \<noteq> None" "map_of n k \<noteq> None" by (metis option.distinct(1))+
    with low low' show False by (meson less_asym)
  qed
  have "v = v'" using eq [of k] \<open>k = k'\<close> by simp
  have "map_of m j = map_of n j" for j
  proof (cases "j = k")
    case True
    then show ?thesis using low [of k] low' [of k] \<open>k = k'\<close> by (metis less_irrefl)
  next
    case False
    then show ?thesis using eq [of j] \<open>k = k'\<close> by simp
  qed
  then have "m = n" using Cons.IH [of n] Cons.prems(1,2) kv m' by (simp add: ordered_Cons fun_eq_iff)
  with kv m' \<open>k = k'\<close> \<open>v = v'\<close> show ?case by simp
qed

interpretation omap: dictionary map_of put AList.delete ordered
  by unfold_locales (auto simp: delete_conv intro: ordered_extensional)

lemma ordered_distinct: "ordered m \<Longrightarrow> distinct (map fst m)"
  unfolding ordered_def by (induction m) auto

lemma put_last:
  "\<forall>k' \<in> set (map fst m). k' < k \<Longrightarrow> put k v m = m @ [(k, v)]"
  by (induction m) auto

text \<open>Inserting the entries of an ordered map one after the other, in its order, rebuilds it.\<close>

lemma fold_put:
  assumes "ordered (m @ n)"
  shows "fold (\<lambda>(k, v). put k v) n m = m @ n"
  using assms
proof (induction n arbitrary: m)
  case (Cons kv n)
  obtain k v where kv: "kv = (k, v)" by force
  have "\<forall>k' \<in> set (map fst m). k' < k" using Cons.prems kv by (auto simp: ordered_def sorted_wrt_append)
  then have "put k v m = m @ [(k, v)]" by (rule put_last)
  then show ?case using Cons.IH [of "m @ [(k, v)]"] Cons.prems kv by simp
qed simp

end
