(* ===== verification/Storage.thy ===== *)
theory Storage
  imports OrderedMap Session Matching TemplateUpdate "HOL-Library.List_Lexorder"
begin

text \<open>
  The store of enrolled fingerprints (\<^verbatim>\<open>fingerprint.hpp\<close>, \<^verbatim>\<open>fingerprint.cpp\<close>): the
  records of every user, their validation, the encrypted database file, and the verification of a
  capture against the stored templates with their adaptation. A \<^verbatim>\<open>std::string\<close> is its list of
  bytes, a thrown \<^verbatim>\<open>runtime_error\<close> is \<open>Inl\<close> of its message, \<open>None\<close> is undefined behaviour.
  ChaCha20-Poly1305 (OpenSSL) is the pair of parameters \<open>seal\<close> and \<open>unseal\<close>; what the random
  generator and the file system answer is an argument of \<open>save\<close>.
\<close>

unbundle bit_operations_syntax

type_synonym exn = string

definition ascii :: "string \<Rightarrow> u8 list" where
  "ascii s = map (\<lambda>c. of_nat (of_char c)) s"

definition attempt :: "(exn + 'a) option \<Rightarrow> ('a \<Rightarrow> (exn + 'b) option) \<Rightarrow> (exn + 'b) option" where
  "attempt r f = (case r of None \<Rightarrow> None | Some (Inl e) \<Rightarrow> Some (Inl e) | Some (Inr x) \<Rightarrow> f x)"

subsection \<open>Records\<close>

record Fingerprint =
  fp_user :: "u8 list"
  fp_name :: "u8 list"
  fp_native :: "u8 list"
  fp_registration :: u32

type_synonym Records = "(u8 list \<times> (u8 list \<times> Fingerprint) list) list"

record FingerprintStorage =
  fs_filename :: "u8 list"
  fs_key :: "u8 list"
  fs_fingerprints :: Records
  fs_dead_pixels :: "u16 list"
  fs_hardware_id :: u16

definition finger_names :: "u8 list list" where
  "finger_names = map ascii
     [''left-thumb'', ''left-index-finger'', ''left-middle-finger'', ''left-ring-finger'',
      ''left-little-finger'', ''right-thumb'', ''right-index-finger'', ''right-middle-finger'',
      ''right-ring-finger'', ''right-little-finger'']"

definition valid_name :: "u8 list \<Rightarrow> bool" where
  "valid_name name = list_ex (\<lambda>value. name = value) finger_names"

definition is_any :: "u8 list \<Rightarrow> bool" where
  "is_any name = (name = [] \<or> name = ascii ''any'')"

definition user_records :: "FingerprintStorage \<Rightarrow> u8 list \<Rightarrow> (u8 list \<times> Fingerprint) list" where
  "user_records st user = (case map_of (fs_fingerprints st) user of None \<Rightarrow> [] | Some m \<Rightarrow> m)"

definition get_enrolled_count :: "FingerprintStorage \<Rightarrow> u8 list \<Rightarrow> nat" where
  "get_enrolled_count st user =
     (case map_of (fs_fingerprints st) user of None \<Rightarrow> 0 | Some m \<Rightarrow> length m)"

definition check :: "FingerprintStorage \<Rightarrow> u8 list \<Rightarrow> u8 list \<Rightarrow> bool" where
  "check st user name =
     (case map_of (fs_fingerprints st) user of None \<Rightarrow> False | Some m \<Rightarrow> map_of m name \<noteq> None)"

text \<open>\<^verbatim>\<open>foreach\<close> visits the records of a user by ascending registration.\<close>

definition in_order :: "FingerprintStorage \<Rightarrow> u8 list \<Rightarrow> Fingerprint list" where
  "in_order st user = sort_key fp_registration (map snd (user_records st user))"

subsection \<open>Templates\<close>

fun check_order :: "u16 list \<Rightarrow> bool list \<Rightarrow> nat list \<Rightarrow> (exn + unit) option" where
  "check_order order seen [] = Some (Inr ())"
| "check_order order seen (i # is) =
     do { slot \<leftarrow> rd order i;
          if 32 \<le> unat slot \<or> seen ! unat slot then Some (Inl ''invalid retained order'')
          else check_order order (seen[unat slot := True]) is }"

definition foreign_capture :: "fpc_capture_payload_view \<Rightarrow> bool" where
  "foreign_capture c \<longleftrightarrow> vw_mode c \<noteq> 1 \<or> vw_descriptor_bytes c \<noteq> 16 \<or> vw_levels c \<noteq> 1 \<or> 300 < vw_count c"

definition validate :: "(nat \<Rightarrow> bool) \<Rightarrow> u8 list \<Rightarrow> (exn + unit) option" where
  "validate al bytes =
     (if 200000 < length bytes then Some (Inl ''incompatible native template'')
      else do { r \<leftarrow> fpc_template_load_default al bytes 32;
        case r of
          Inl _ \<Rightarrow> Some (Inl ''incompatible native template'')
        | Inr owned \<Rightarrow>
            if rg_capacity (lt_graph owned) \<noteq> 32 \<or> lc_capacity (lt_collection owned) \<noteq> 32
               \<or> 32 < length (lc_captures (lt_collection owned))
            then Some (Inl ''incompatible native template'')
            else attempt (check_order (arr (rg_order (lt_graph owned))) (replicate 32 False) [0..<32]) (\<lambda>_.
              if 32 < rg_protected_count (lt_graph owned) \<or> 32 < rg_protected_limit (lt_graph owned)
              then Some (Inl ''invalid retained protection'')
              else if list_ex foreign_capture (lc_captures (lt_collection owned))
              then Some (Inl ''incompatible profile300 capture'')
              else Some (Inr ())) })"

definition serialize_native_template :: "fpc_loaded_template \<Rightarrow> (exn + u8 list) option" where
  "serialize_native_template data =
     (let views = lc_captures (lt_collection data);
          run = fpc_template_serialize_default (lt_graph data) views (lc_capacity (lt_collection data))
                  (lt_metadata data) 32
      in do { size \<leftarrow> run None;
              case size of
                Inl _ \<Rightarrow> Some (Inl ''native template size failed'')
              | Inr (n, _) \<Rightarrow>
                  do { r \<leftarrow> run (Some (replicate n 0));
                       case r of
                         Inl _ \<Rightarrow> Some (Inl ''native template serialization failed'')
                       | Inr (_, None) \<Rightarrow> None
                       | Inr (_, Some bytes) \<Rightarrow> Some (Inr bytes) } })"

subsection \<open>Writing the database\<close>

definition append_string :: "u8 list \<Rightarrow> u8 list \<Rightarrow> exn + u8 list" where
  "append_string data value =
     (if value = [] \<or> 256 < length value \<or> list_ex (\<lambda>c. c = 0) value
      then Inl ''invalid native record name''
      else Inr (data @ store_le32 (of_nat (length value)) @ value))"

definition append_record :: "Fingerprint \<Rightarrow> u8 list \<Rightarrow> exn + u8 list" where
  "append_record print plain =
     (case append_string (plain @ store_le32 (fp_registration print)) (fp_user print) of
        Inl e \<Rightarrow> Inl e
      | Inr plain \<Rightarrow>
          (case append_string plain (fp_name print) of
             Inl e \<Rightarrow> Inl e
           | Inr plain \<Rightarrow>
               Inr (plain @ store_le32 (of_nat (length (fp_native print))) @ fp_native print)))"

fun append_records :: "Fingerprint list \<Rightarrow> u8 list \<Rightarrow> exn + u8 list" where
  "append_records [] plain = Inr plain"
| "append_records (print # prints) plain =
     (case append_record print plain of Inl e \<Rightarrow> Inl e | Inr plain \<Rightarrow> append_records prints plain)"

definition all_records :: "Records \<Rightarrow> Fingerprint list" where
  "all_records db = concat (map (\<lambda>(user, m). map snd m) db)"

definition record_count :: "Records \<Rightarrow> u32" where
  "record_count db = fold (\<lambda>(user, m) count. count + of_nat (length m)) db 0"

definition maximum_file :: nat where
  "maximum_file = 16 * 1024 * 1024"

text \<open>The plaintext of the database; \<open>None\<close> where \<^verbatim>\<open>save\<close> gives up before it encrypts.\<close>

definition plain_database :: "FingerprintStorage \<Rightarrow> u8 list option" where
  "plain_database st =
     (if length (fs_key st) \<noteq> 32 \<or> fs_filename st = [] then None
      else if 1000 < record_count (fs_fingerprints st) then None
      else case append_records (all_records (fs_fingerprints st))
                  (concat (map store_le32 [1, 300, 112, 88, 26, ucast (fs_hardware_id st),
                                           record_count (fs_fingerprints st)])) of
             Inl _ \<Rightarrow> None
           | Inr plain \<Rightarrow> if maximum_file - 36 < length plain then None else Some plain)"

definition magic :: "u8 list" where
  "magic = ascii ''FPCNATV1''"

datatype write_answer = Interrupted | Refused | Wrote nat

record save_answers =
  sa_nonce :: "u8 list option"
  sa_directory :: bool
  sa_temporary :: bool
  sa_mode :: bool
  sa_writes :: "write_answer list"
  sa_sync :: bool
  sa_closed :: bool
  sa_renamed :: bool

text \<open>The write loop: what is in the temporary file when it ends and whether all was written;
  \<open>None\<close> when the answers run out before it ends.\<close>

fun write_loop :: "u8 list \<Rightarrow> nat \<Rightarrow> write_answer list \<Rightarrow> (bool \<times> u8 list) option" where
  "write_loop encrypted offset [] =
     (if length encrypted \<le> offset then Some (True, take offset encrypted) else None)"
| "write_loop encrypted offset (answer # rest) =
     (if length encrypted \<le> offset then Some (True, take offset encrypted)
      else case answer of
        Interrupted \<Rightarrow> write_loop encrypted offset rest
      | Refused \<Rightarrow> Some (False, take offset encrypted)
      | Wrote n \<Rightarrow>
          if n = 0 then Some (False, take offset encrypted) else write_loop encrypted (offset + n) rest)"

text \<open>\<open>save\<close>: whether it succeeded, and the file of the database afterwards.\<close>

definition save ::
    "(u8 list \<Rightarrow> u8 list \<Rightarrow> u8 list \<Rightarrow> u8 list \<Rightarrow> u8 list \<times> u8 list) \<Rightarrow> save_answers \<Rightarrow> FingerprintStorage
      \<Rightarrow> u8 list option \<Rightarrow> (bool \<times> u8 list option) option" where
  "save seal answers st file =
     (case plain_database st of
        None \<Rightarrow> Some (False, file)
      | Some plain \<Rightarrow>
     case sa_nonce answers of
        None \<Rightarrow> Some (False, file)
      | Some nonce \<Rightarrow>
          let (cipher, tag) = seal magic nonce (fs_key st) plain;
              encrypted = magic @ nonce @ cipher @ tag
          in if \<not> sa_directory answers \<or> \<not> sa_temporary answers \<or> \<not> sa_mode answers
             then Some (False, file)
             else do { (written, temporary) \<leftarrow> write_loop encrypted 0 (sa_writes answers);
                       let ok = written \<and> sa_sync answers;
                           ok = ok \<and> sa_closed answers;
                           ok = ok \<and> sa_renamed answers
                       in Some (if ok then (True, Some temporary) else (False, file)) })"

subsection \<open>Changing the records\<close>

text \<open>Each operation changes the records, saves them, and takes the change back when that fails.\<close>

definition committed ::
    "(u8 list \<Rightarrow> u8 list \<Rightarrow> u8 list \<Rightarrow> u8 list \<Rightarrow> u8 list \<times> u8 list) \<Rightarrow> save_answers \<Rightarrow> Records
      \<Rightarrow> FingerprintStorage \<Rightarrow> u8 list option \<Rightarrow> (bool \<times> FingerprintStorage \<times> u8 list option) option" where
  "committed seal answers db st file =
     (let before = fs_fingerprints st; st = st\<lparr>fs_fingerprints := db\<rparr> in
      do { (ok, file) \<leftarrow> save seal answers st file;
           Some (if ok then (True, st, file) else (False, st\<lparr>fs_fingerprints := before\<rparr>, file)) })"

definition delete_all ::
    "(u8 list \<Rightarrow> u8 list \<Rightarrow> u8 list \<Rightarrow> u8 list \<Rightarrow> u8 list \<times> u8 list) \<Rightarrow> save_answers \<Rightarrow> u8 list
      \<Rightarrow> FingerprintStorage \<Rightarrow> u8 list option \<Rightarrow> (bool \<times> FingerprintStorage \<times> u8 list option) option" where
  "delete_all seal answers user st file =
     committed seal answers (AList.delete user (fs_fingerprints st)) st file"

definition delete_fingerprint ::
    "(u8 list \<Rightarrow> u8 list \<Rightarrow> u8 list \<Rightarrow> u8 list \<Rightarrow> u8 list \<times> u8 list) \<Rightarrow> save_answers \<Rightarrow> u8 list \<Rightarrow> u8 list
      \<Rightarrow> FingerprintStorage \<Rightarrow> u8 list option \<Rightarrow> (bool \<times> FingerprintStorage \<times> u8 list option) option" where
  "delete_fingerprint seal answers user name st file =
     (if \<not> check st user name then Some (False, st, file)
      else committed seal answers
             (put user (AList.delete name (user_records st user)) (fs_fingerprints st)) st file)"

definition last_registration :: "Records \<Rightarrow> u32" where
  "last_registration db = fold (\<lambda>print last. max last (fp_registration print)) (all_records db) 0"

definition insert_or_update ::
    "(u8 list \<Rightarrow> u8 list \<Rightarrow> u8 list \<Rightarrow> u8 list \<Rightarrow> u8 list \<times> u8 list) \<Rightarrow> save_answers \<Rightarrow> (nat \<Rightarrow> bool) \<Rightarrow> Fingerprint
      \<Rightarrow> FingerprintStorage \<Rightarrow> u8 list option
      \<Rightarrow> (exn + bool \<times> FingerprintStorage \<times> u8 list option) option" where
  "insert_or_update seal answers al print st file =
     (if \<not> valid_name (fp_name print) then Some (Inl ''invalid finger name'')
      else attempt (validate al (fp_native print)) (\<lambda>_.
        let user = fp_user print; name = fp_name print; last = last_registration (fs_fingerprints st);
            commit = (\<lambda>registration. map_option Inr (committed seal answers
              (put user (put name (print\<lparr>fp_registration := registration\<rparr>) (user_records st user))
                 (fs_fingerprints st)) st file))
        in if check st user name
           then (case map_of (user_records st user) name of
                   None \<Rightarrow> None | Some old \<Rightarrow> commit (fp_registration old))
           else if last = 0xFFFFFFFF then Some (Inr (False, st, file))
           else commit (last + 1)))"

subsection \<open>Reading the database\<close>

text \<open>The \<^verbatim>\<open>Reader\<close>: each operation takes the offset and returns the offset behind what it read.\<close>

definition read_word :: "u8 list \<Rightarrow> nat \<Rightarrow> (exn + u32 \<times> nat) option" where
  "read_word bytes offset =
     (if length bytes - offset < 4 then Some (Inl ''truncated native database'')
      else do { n \<leftarrow> le32 bytes offset; Some (Inr (n, offset + 4)) })"

definition read_take :: "u8 list \<Rightarrow> nat \<Rightarrow> nat \<Rightarrow> (exn + u8 list \<times> nat) option" where
  "read_take bytes offset n =
     (if length bytes - offset < n then Some (Inl ''truncated native record'')
      else do { xs \<leftarrow> rd_bytes bytes offset n; Some (Inr (xs, offset + n)) })"

definition read_string :: "u8 list \<Rightarrow> nat \<Rightarrow> (exn + u8 list \<times> nat) option" where
  "read_string bytes offset =
     attempt (read_word bytes offset) (\<lambda>(n, offset).
       if n = 0 \<or> 256 < n then Some (Inl ''invalid native name length'')
       else attempt (read_take bytes offset (unat n)) (\<lambda>(xs, offset).
         if list_ex (\<lambda>c. c = 0) xs then Some (Inl ''invalid native name'') else Some (Inr (xs, offset))))"

fun read_profile :: "u8 list \<Rightarrow> u32 list \<Rightarrow> nat \<Rightarrow> (exn + nat) option" where
  "read_profile bytes [] offset = Some (Inr offset)"
| "read_profile bytes (expected # rest) offset =
     attempt (read_word bytes offset) (\<lambda>(w, offset).
       if w \<noteq> expected then Some (Inl ''native database profile mismatch'')
       else read_profile bytes rest offset)"

definition read_record ::
    "(nat \<Rightarrow> bool) \<Rightarrow> u8 list \<Rightarrow> u32 list \<Rightarrow> nat \<Rightarrow> (exn + Fingerprint \<times> nat) option" where
  "read_record al bytes registrations offset =
     attempt (read_word bytes offset) (\<lambda>(registration, offset).
       if registration = 0 \<or> registration \<in> set registrations then Some (Inl ''invalid native registration'')
       else attempt (read_string bytes offset) (\<lambda>(user, offset).
       attempt (read_string bytes offset) (\<lambda>(name, offset).
       if \<not> valid_name name then Some (Inl ''invalid stored finger name'')
       else attempt (read_word bytes offset) (\<lambda>(n, offset).
       if 200000 < n then Some (Inl ''native template too large'')
       else attempt (read_take bytes offset (unat n)) (\<lambda>(native, offset).
       attempt (validate al native) (\<lambda>_.
         Some (Inr (\<lparr>fp_user = user, fp_name = name, fp_native = native, fp_registration = registration\<rparr>,
                    offset))))))))"

definition emplace :: "Fingerprint \<Rightarrow> Records \<Rightarrow> exn + Records" where
  "emplace print parsed =
     (let m = (case map_of parsed (fp_user print) of None \<Rightarrow> [] | Some m \<Rightarrow> m)
      in if map_of m (fp_name print) \<noteq> None then Inl ''duplicate native record''
         else Inr (put (fp_user print) (put (fp_name print) print m) parsed))"

fun read_records ::
    "(nat \<Rightarrow> bool) \<Rightarrow> u8 list \<Rightarrow> nat \<Rightarrow> u32 list \<Rightarrow> Records \<Rightarrow> nat \<Rightarrow> (exn + Records \<times> nat) option" where
  "read_records al bytes 0 registrations parsed offset = Some (Inr (parsed, offset))"
| "read_records al bytes (Suc n) registrations parsed offset =
     attempt (read_record al bytes registrations offset) (\<lambda>(print, offset).
       case emplace print parsed of
         Inl e \<Rightarrow> Some (Inl e)
       | Inr parsed \<Rightarrow> read_records al bytes n (fp_registration print # registrations) parsed offset)"

definition read_database :: "(nat \<Rightarrow> bool) \<Rightarrow> u16 \<Rightarrow> u8 list \<Rightarrow> (exn + Records) option" where
  "read_database al hw plain =
     attempt (read_profile plain [1, 300, 112, 88, 26, ucast hw] 0) (\<lambda>offset.
     attempt (read_word plain offset) (\<lambda>(n, offset).
       if 1000 < n then Some (Inl ''too many native records'')
       else attempt (read_records al plain (unat n) [] [] offset) (\<lambda>(parsed, offset).
         if offset \<noteq> length plain then Some (Inl ''trailing native database data'') else Some (Inr parsed))))"

text \<open>\<open>unseal\<close> is given the associated data, the nonce, the key, the ciphertext and the tag.\<close>

definition load ::
    "(u8 list \<Rightarrow> u8 list \<Rightarrow> u8 list \<Rightarrow> u8 list \<Rightarrow> u8 list \<Rightarrow> u8 list option) \<Rightarrow> (nat \<Rightarrow> bool)
      \<Rightarrow> u8 list option \<Rightarrow> FingerprintStorage \<Rightarrow> (exn + FingerprintStorage) option" where
  "load unseal al file st =
     (case file of
        None \<Rightarrow> Some (Inr (st\<lparr>fs_fingerprints := []\<rparr>))
      | Some encrypted \<Rightarrow>
          if length encrypted < 36 \<or> maximum_file < length encrypted
          then Some (Inl ''invalid native database size'')
          else do { prefix \<leftarrow> rd_bytes encrypted 0 8;
            if prefix \<noteq> magic then Some (Inl ''invalid native database header'')
            else do { nonce \<leftarrow> rd_bytes encrypted 8 12;
                      cipher \<leftarrow> rd_bytes encrypted 20 (length encrypted - 36);
                      tag \<leftarrow> rd_bytes encrypted (length encrypted - 16) 16;
              case unseal prefix nonce (fs_key st) cipher tag of
                None \<Rightarrow> Some (Inl ''native database authentication failed'')
              | Some plain \<Rightarrow>
                  attempt (read_database al (fs_hardware_id st) plain) (\<lambda>parsed.
                    Some (Inr (st\<lparr>fs_fingerprints := parsed\<rparr>))) } })"

text \<open>The key and the name stay set when the database is refused.\<close>

definition init ::
    "(u8 list \<Rightarrow> u8 list \<Rightarrow> u8 list \<Rightarrow> u8 list \<Rightarrow> u8 list \<Rightarrow> u8 list option) \<Rightarrow> (nat \<Rightarrow> bool)
      \<Rightarrow> u8 list option \<Rightarrow> u8 list \<Rightarrow> u8 list \<Rightarrow> FingerprintStorage
      \<Rightarrow> ((exn + unit) \<times> FingerprintStorage) option" where
  "init unseal al file filename key st =
     (if length key \<noteq> 32 then Some (Inl ''invalid database encryption key'', st)
      else let st = st\<lparr>fs_filename := filename, fs_key := key\<rparr> in
        do { r \<leftarrow> load unseal al file st;
             Some (case r of Inl e \<Rightarrow> (Inl e, st) | Inr st \<Rightarrow> (Inr (), st)) })"

definition reset :: "FingerprintStorage \<Rightarrow> FingerprintStorage" where
  "reset st = st\<lparr>fs_filename := [], fs_key := [], fs_fingerprints := [], fs_dead_pixels := []\<rparr>"

subsection \<open>Lookups\<close>

definition find_record :: "Records \<Rightarrow> u8 list \<Rightarrow> u8 list \<Rightarrow> Fingerprint option" where
  "find_record db user name = (case map_of db user of None \<Rightarrow> None | Some m \<Rightarrow> map_of m name)"

definition record_ok :: "(nat \<Rightarrow> bool) \<Rightarrow> u8 list \<Rightarrow> u8 list \<Rightarrow> Fingerprint \<Rightarrow> bool" where
  "record_ok al user name p \<longleftrightarrow>
     fp_user p = user \<and> fp_name p = name \<and> valid_name name \<and> fp_registration p \<noteq> 0
     \<and> validate al (fp_native p) = Some (Inr ())"

definition db_ok :: "(nat \<Rightarrow> bool) \<Rightarrow> Records \<Rightarrow> bool" where
  "db_ok al db \<longleftrightarrow> ordered db \<and> list_all (\<lambda>(user, m). ordered m) db
     \<and> (\<forall>user name p. find_record db user name = Some p \<longrightarrow> record_ok al user name p)
     \<and> (\<forall>user name p user' name' p'.
          find_record db user name = Some p \<and> find_record db user' name' = Some p'
            \<and> fp_registration p = fp_registration p' \<longrightarrow> user = user' \<and> name = name')"

lemma find_record_put [simp]:
  "find_record (put u m db) u' n = (if u' = u then map_of m n else find_record db u' n)"
  by (simp add: find_record_def)

lemma find_record_delete [simp]:
  "find_record (AList.delete u db) u' n = (if u' = u then None else find_record db u' n)"
  by (simp add: find_record_def delete_conv)

lemma list_all_put: "list_all P m \<Longrightarrow> P (k, v) \<Longrightarrow> list_all P (put k v m)"
  by (induction k v m rule: put.induct) auto

lemma list_all_delete: "list_all P m \<Longrightarrow> list_all P (AList.delete k m)"
  by (auto simp: list_all_iff dest: delete_subset)

definition user_map :: "Records \<Rightarrow> u8 list \<Rightarrow> (u8 list \<times> Fingerprint) list" where
  "user_map db user = (case map_of db user of None \<Rightarrow> [] | Some m \<Rightarrow> m)"

lemma map_of_user_map: "map_of (user_map db user) name = find_record db user name"
  by (simp add: user_map_def find_record_def split: option.split)

lemma user_records_map: "user_records st user = user_map (fs_fingerprints st) user"
  by (simp add: user_records_def user_map_def)

lemma check_find: "check st user name \<longleftrightarrow> find_record (fs_fingerprints st) user name \<noteq> None"
  by (simp add: check_def find_record_def split: option.split)

lemma ordered_user_map: "list_all (\<lambda>(user, m). ordered m) db \<Longrightarrow> ordered (user_map db user)"
  by (auto simp: user_map_def list_all_iff split: option.split dest: map_of_SomeD)

lemma db_ok_empty [simp]: "db_ok al []"
  by (simp add: db_ok_def find_record_def)

lemma db_okI:
  assumes "ordered db" "list_all (\<lambda>(user, m). ordered m) db"
    "\<And>user name p. find_record db user name = Some p \<Longrightarrow> record_ok al user name p"
    "\<And>user name p user' name' p'. find_record db user name = Some p \<Longrightarrow> find_record db user' name' = Some p' \<Longrightarrow>
       fp_registration p = fp_registration p' \<Longrightarrow> user = user' \<and> name = name'"
  shows "db_ok al db"
  unfolding db_ok_def
proof (intro conjI allI impI)
  fix user name p user' name' p'
  assume "find_record db user name = Some p \<and> find_record db user' name' = Some p' \<and> fp_registration p = fp_registration p'"
  then show "user = user'" "name = name'" using assms(4) [of user name p user' name' p'] by simp_all
qed (use assms(1-3) in auto)

lemma db_okD:
  assumes "db_ok al db"
  shows "ordered db" "list_all (\<lambda>(user, m). ordered m) db"
    "find_record db user name = Some p \<Longrightarrow> record_ok al user name p"
    "find_record db user name = Some p \<Longrightarrow> find_record db user' name' = Some p' \<Longrightarrow>
       fp_registration p = fp_registration p' \<Longrightarrow> user = user' \<and> name = name'"
  using assms unfolding db_ok_def by blast+

lemma db_ok_sub:
  assumes "db_ok al db" "ordered db'" "list_all (\<lambda>(user, m). ordered m) db'"
    "\<And>u n p. find_record db' u n = Some p \<Longrightarrow> find_record db u n = Some p"
  shows "db_ok al db'"
proof (rule db_okI [OF assms(2,3)])
  show "record_ok al u n p" if "find_record db' u n = Some p" for u n p
    by (rule db_okD(3) [OF assms(1) assms(4) [OF that]])
  show "u = u' \<and> n = n'" if "find_record db' u n = Some p" "find_record db' u' n' = Some p'"
    "fp_registration p = fp_registration p'" for u n p u' n' p'
    by (rule db_okD(4) [OF assms(1) assms(4) [OF that(1)] assms(4) [OF that(2)] that(3)])
qed

lemma db_ok_put:
  assumes "db_ok al db" "record_ok al u n p"
    "\<And>u' n' p'. find_record db u' n' = Some p' \<Longrightarrow> fp_registration p' = fp_registration p \<Longrightarrow> u' = u \<and> n' = n"
  shows "db_ok al (put u (put n p (user_map db u)) db)" (is "db_ok al ?db")
proof (rule db_okI)
  note ok = db_okD [OF assms(1)]
  have m: "ordered (user_map db u)" by (rule ordered_user_map [OF ok(2)])
  show "ordered ?db" using ok(1) by simp
  show "list_all (\<lambda>(user, m). ordered m) ?db" using ok(2) m by (intro list_all_put) simp_all
  have f: "find_record ?db u' n' = (if u' = u \<and> n' = n then Some p else find_record db u' n')" for u' n'
    by (simp add: map_of_user_map)
  have old: "find_record db a b = Some q" if "find_record ?db a b = Some q" "\<not> (a = u \<and> b = n)" for a b q
    using that(1) unfolding f if_not_P [OF that(2)] .
  have new: "q = p" if "find_record ?db u n = Some q" for q
    using that unfolding f by simp
  show "record_ok al a b q" if q: "find_record ?db a b = Some q" for a b q
  proof (cases "a = u \<and> b = n")
    case True
    with q new assms(2) show ?thesis by blast
  next
    case False
    show ?thesis by (rule ok(3) [OF old [OF q False]])
  qed
  show "a = a' \<and> b = b'"
    if q: "find_record ?db a b = Some q" "find_record ?db a' b' = Some q'" "fp_registration q = fp_registration q'"
    for a b q a' b' q'
  proof (cases "a = u \<and> b = n")
    case here: True
    with q(1) new have "q = p" by blast
    show ?thesis
    proof (cases "a' = u \<and> b' = n")
      case False
      from assms(3) [OF old [OF q(2) False]] q(3) \<open>q = p\<close> here show ?thesis by simp
    qed (use here in simp)
  next
    case other: False
    show ?thesis
    proof (cases "a' = u \<and> b' = n")
      case True
      with q(2) new have "q' = p" by blast
      with assms(3) [OF old [OF q(1) other]] q(3) True show ?thesis by simp
    next
      case False
      show ?thesis by (rule ok(4) [OF old [OF q(1) other] old [OF q(2) False] q(3)])
    qed
  qed
qed

lemma db_ok_delete_user: "db_ok al db \<Longrightarrow> db_ok al (AList.delete u db)"
  by (rule db_ok_sub) (auto simp: list_all_delete dest: db_okD split: if_splits)

lemma db_ok_delete_name:
  assumes "db_ok al db"
  shows "db_ok al (put u (AList.delete n (user_map db u)) db)"
proof (rule db_ok_sub [OF assms])
  note ok = db_okD [OF assms]
  have "ordered (user_map db u)" by (rule ordered_user_map [OF ok(2)])
  then show "list_all (\<lambda>(user, m). ordered m) (put u (AList.delete n (user_map db u)) db)"
    using ok(2) by (intro list_all_put) simp_all
  show "ordered (put u (AList.delete n (user_map db u)) db)" using ok(1) by simp
qed (auto simp: map_of_user_map delete_conv split: if_splits)

subsection \<open>The records as a list\<close>

definition entries :: "Records \<Rightarrow> (u8 list \<times> u8 list \<times> Fingerprint) list" where
  "entries db = concat (map (\<lambda>(u, m). map (\<lambda>(n, p). (u, n, p)) m) db)"

lemma all_records_entries: "all_records db = map (\<lambda>(u, n, p). p) (entries db)"
  by (induction db) (auto simp: all_records_def entries_def)

lemma set_entries:
  assumes "ordered db" "list_all (\<lambda>(user, m). ordered m) db"
  shows "(u, n, p) \<in> set (entries db) \<longleftrightarrow> find_record db u n = Some p"
proof
  assume "(u, n, p) \<in> set (entries db)"
  then obtain m where m: "(u, m) \<in> set db" "(n, p) \<in> set m" by (auto simp: entries_def)
  then have "map_of db u = Some m" using ordered_distinct [OF assms(1)] by simp
  moreover have "map_of m n = Some p"
    using m assms(2) by (auto simp: list_all_iff intro!: map_of_is_SomeI ordered_distinct)
  ultimately show "find_record db u n = Some p" by (simp add: find_record_def)
next
  assume "find_record db u n = Some p"
  then obtain m where "map_of db u = Some m" "map_of m n = Some p" by (auto simp: find_record_def split: option.splits)
  then have "(u, m) \<in> set db" "(n, p) \<in> set m" by (auto dest: map_of_SomeD)
  then show "(u, n, p) \<in> set (entries db)" by (force simp: entries_def)
qed

lemma distinct_entries:
  assumes "ordered db" "list_all (\<lambda>(user, m). ordered m) db"
  shows "distinct (map (\<lambda>(u, n, p). (u, n)) (entries db))"
  using assms
proof (induction db)
  case Nil
  then show ?case by (simp add: entries_def)
next
  case (Cons um db)
  obtain u m where um: "um = (u, m)" by force
  have "distinct (map fst m)" using Cons.prems um by (auto intro: ordered_distinct)
  then have "distinct (map (\<lambda>(n, p). (u, n)) m)"
    by (induction m) (auto simp: image_iff)
  moreover have "u \<notin> fst ` set (entries db)"
    using Cons.prems(1) um by (fastforce simp: ordered_Cons entries_def)
  ultimately show ?case
    using Cons um by (auto simp: entries_def ordered_Cons comp_def case_prod_unfold image_iff)
qed

lemma distinct_registrations:
  assumes "db_ok al db"
  shows "distinct (map fp_registration (all_records db))"
proof -
  note ok = db_okD [OF assms]
  have "distinct (entries db)" using distinct_entries [OF ok(1,2)] by (simp add: distinct_map)
  moreover have "inj_on (\<lambda>(u, n, p). fp_registration p) (set (entries db))"
  proof (rule inj_onI)
    fix x y
    assume e: "x \<in> set (entries db)" "y \<in> set (entries db)"
      "(\<lambda>(u, n, p). fp_registration p) x = (\<lambda>(u, n, p). fp_registration p) y"
    obtain u n p u' n' p' where xy: "x = (u, n, p)" "y = (u', n', p')" by (metis prod_cases3)
    then have f: "find_record db u n = Some p" "find_record db u' n' = Some p'"
      using set_entries [OF ok(1,2)] e(1,2) by blast+
    then have "u = u' \<and> n = n'" using ok(4) e(3) xy by simp
    with f xy show "x = y" by simp
  qed
  ultimately show ?thesis
    by (simp add: all_records_entries distinct_map comp_def case_prod_unfold)
qed

lemma all_records_find:
  assumes "db_ok al db"
  shows "p \<in> set (all_records db) \<longleftrightarrow> (\<exists>u n. find_record db u n = Some p)"
proof -
  have "p \<in> set (all_records db) \<longleftrightarrow> (\<exists>u n. (u, n, p) \<in> set (entries db))"
    by (force simp: all_records_entries)
  with set_entries [of db] assms show ?thesis by (simp add: db_ok_def)
qed

subsection \<open>The plaintext\<close>

definition string_ok :: "u8 list \<Rightarrow> bool" where
  "string_ok s \<longleftrightarrow> s \<noteq> [] \<and> length s \<le> 256 \<and> 0 \<notin> set s"

definition string_bytes :: "u8 list \<Rightarrow> u8 list" where
  "string_bytes s = store_le32 (of_nat (length s)) @ s"

definition record_bytes :: "Fingerprint \<Rightarrow> u8 list" where
  "record_bytes p = store_le32 (fp_registration p) @ string_bytes (fp_user p) @ string_bytes (fp_name p)
     @ store_le32 (of_nat (length (fp_native p))) @ fp_native p"

lemma append_string_eq:
  "append_string data s = (if string_ok s then Inr (data @ string_bytes s) else Inl ''invalid native record name'')"
  by (auto simp: append_string_def string_ok_def string_bytes_def list_ex_iff not_less)

lemma append_record_eq:
  "append_record p plain = (if string_ok (fp_user p) \<and> string_ok (fp_name p) then Inr (plain @ record_bytes p)
     else Inl ''invalid native record name'')"
  by (simp add: append_record_def append_string_eq record_bytes_def)

lemma append_records_eq:
  "append_records ps plain =
     (if list_all (\<lambda>p. string_ok (fp_user p) \<and> string_ok (fp_name p)) ps then Inr (plain @ concat (map record_bytes ps))
      else Inl ''invalid native record name'')"
  by (induction ps arbitrary: plain) (auto simp: append_record_eq)

definition header_bytes :: "u16 \<Rightarrow> u32 \<Rightarrow> u8 list" where
  "header_bytes hw n = concat (map store_le32 [1, 300, 112, 88, 26, ucast hw, n])"

lemma plain_database_eq:
  "plain_database st = Some plain \<longleftrightarrow>
     length (fs_key st) = 32 \<and> fs_filename st \<noteq> [] \<and> \<not> 1000 < record_count (fs_fingerprints st)
     \<and> list_all (\<lambda>p. string_ok (fp_user p) \<and> string_ok (fp_name p)) (all_records (fs_fingerprints st))
     \<and> plain = header_bytes (fs_hardware_id st) (record_count (fs_fingerprints st))
                @ concat (map record_bytes (all_records (fs_fingerprints st)))
     \<and> length plain \<le> maximum_file - 36"
  by (auto simp: plain_database_def append_records_eq header_bytes_def not_less split: if_splits)

subsection \<open>Reading what was written\<close>

lemma read_word_at:
  "offset = length pre \<Longrightarrow> read_word (pre @ store_le32 w @ post) offset = Some (Inr (w, offset + 4))"
  by (simp add: read_word_def word.r_append)

lemma read_take_at:
  "offset = length pre \<Longrightarrow> n = length xs \<Longrightarrow> read_take (pre @ xs @ post) offset n = Some (Inr (xs, offset + n))"
  by (simp add: read_take_def rd_bytes_append)

lemma unat_small: "n \<le> 200000 \<Longrightarrow> unat (of_nat n :: u32) = n"
  by (simp add: unat_of_nat take_bit_nat_eq_self)

lemma read_string_at:
  assumes "offset = length pre" "string_ok s"
  shows "read_string (pre @ string_bytes s @ post) offset = Some (Inr (s, offset + length (string_bytes s)))"
proof -
  have n: "length s \<le> 256" "s \<noteq> []" using assms(2) by (simp_all add: string_ok_def)
  then have u: "unat (of_nat (length s) :: u32) = length s" by (intro unat_small) simp
  have "of_nat (length s) \<noteq> (0 :: u32)" using u n by (metis length_0_conv unsigned_0)
  moreover have "\<not> 256 < (of_nat (length s) :: u32)" using u n by (simp add: word_less_nat_alt)
  moreover have "read_take (pre @ store_le32 (of_nat (length s)) @ s @ post) (offset + 4) (length s)
      = Some (Inr (s, offset + 4 + length s))"
    using read_take_at [of "offset + 4" "pre @ store_le32 (of_nat (length s))" "length s" s post] assms(1) by simp
  moreover have "\<not> list_ex (\<lambda>c. c = 0) s" using assms(2) by (auto simp: string_ok_def list_ex_iff)
  ultimately show ?thesis
    using read_word_at [OF assms(1), of "of_nat (length s)" "s @ post"]
    by (simp add: read_string_def string_bytes_def attempt_def u add.commute add.left_commute)
qed

definition readable :: "(nat \<Rightarrow> bool) \<Rightarrow> Fingerprint \<Rightarrow> bool" where
  "readable al p \<longleftrightarrow> string_ok (fp_user p) \<and> string_ok (fp_name p) \<and> valid_name (fp_name p)
     \<and> fp_registration p \<noteq> 0 \<and> validate al (fp_native p) = Some (Inr ())"

lemma validate_length: "validate al native = Some (Inr ()) \<Longrightarrow> length native \<le> 200000"
  by (simp add: validate_def split: if_splits)

lemma read_record_at:
  assumes "offset = length pre" "readable al p" "fp_registration p \<notin> set regs"
  shows "read_record al (pre @ record_bytes p @ post) regs offset = Some (Inr (p, offset + length (record_bytes p)))"
proof -
  let ?r = "store_le32 (fp_registration p)" and ?u = "string_bytes (fp_user p)" and ?n = "string_bytes (fp_name p)"
  let ?l = "store_le32 (of_nat (length (fp_native p)))" and ?d = "fp_native p"
  let ?b = "pre @ ?r @ ?u @ ?n @ ?l @ ?d @ post"
  have l: "length ?d \<le> 200000" using assms(2) by (auto simp: readable_def intro: validate_length)
  then have u: "unat (of_nat (length ?d) :: u32) = length ?d" by (rule unat_small)
  have g: "\<not> 200000 < (of_nat (length ?d) :: u32)" using u l by (simp add: word_less_nat_alt)
  define o1 where "o1 = offset + 4"
  define o2 where "o2 = o1 + length ?u"
  define o3 where "o3 = o2 + length ?n"
  define o4 where "o4 = o3 + 4"
  define o5 where "o5 = o4 + length ?d"
  note o = o1_def o2_def o3_def o4_def o5_def
  have 1: "read_word ?b offset = Some (Inr (fp_registration p, o1))"
    unfolding o by (rule read_word_at [OF assms(1)])
  have 2: "read_string ?b o1 = Some (Inr (fp_user p, o2))"
    using read_string_at [of o1 "pre @ ?r" "fp_user p" "?n @ ?l @ ?d @ post"] assms by (simp add: readable_def o)
  have 3: "read_string ?b o2 = Some (Inr (fp_name p, o3))"
    using read_string_at [of o2 "pre @ ?r @ ?u" "fp_name p" "?l @ ?d @ post"] assms by (simp add: readable_def o)
  have 4: "read_word ?b o3 = Some (Inr (of_nat (length ?d), o4))"
    using read_word_at [of o3 "pre @ ?r @ ?u @ ?n" "of_nat (length ?d)" "?d @ post"] assms(1) by (simp add: o)
  have 5: "read_take ?b o4 (length ?d) = Some (Inr (?d, o5))"
    using read_take_at [of o4 "pre @ ?r @ ?u @ ?n @ ?l" "length ?d" ?d post] assms(1) by (simp add: o)
  have e: "\<lparr>fp_user = fp_user p, fp_name = fp_name p, fp_native = ?d, fp_registration = fp_registration p\<rparr> = p"
    by (cases p) simp
  have "read_record al ?b regs offset = Some (Inr (p, o5))"
    unfolding read_record_def using assms(2,3) g
    by (simp add: attempt_def 1 2 3 4 5 u e readable_def)
  then show ?thesis by (simp add: record_bytes_def o add.assoc)
qed

fun emplace_all :: "Fingerprint list \<Rightarrow> Records \<Rightarrow> exn + Records" where
  "emplace_all [] db = Inr db"
| "emplace_all (p # ps) db = (case emplace p db of Inl e \<Rightarrow> Inl e | Inr db \<Rightarrow> emplace_all ps db)"

lemma read_records_at:
  assumes "offset = length pre" "list_all (readable al) ps" "distinct (map fp_registration ps)"
    "set (map fp_registration ps) \<inter> set regs = {}" "emplace_all ps parsed = Inr db"
  shows "read_records al (pre @ concat (map record_bytes ps) @ post) (length ps) regs parsed offset
    = Some (Inr (db, offset + length (concat (map record_bytes ps))))"
  using assms
proof (induction ps arbitrary: pre regs parsed offset)
  case Nil
  then show ?case by simp
next
  case (Cons p ps)
  obtain db' where e: "emplace p parsed = Inr db'" "emplace_all ps db' = Inr db"
    using Cons.prems(5) by (auto split: sum.splits)
  have r: "read_record al (pre @ record_bytes p @ concat (map record_bytes ps) @ post) regs offset
      = Some (Inr (p, offset + length (record_bytes p)))"
    using Cons.prems by (intro read_record_at) auto
  have "read_records al ((pre @ record_bytes p) @ concat (map record_bytes ps) @ post) (length ps)
      (fp_registration p # regs) db' (offset + length (record_bytes p))
      = Some (Inr (db, offset + length (record_bytes p) + length (concat (map record_bytes ps))))"
    using Cons.prems e by (intro Cons.IH) auto
  with r e show ?case by (simp add: attempt_def add.assoc)
qed

lemma read_profile_at:
  assumes "offset = length pre"
  shows "read_profile (pre @ concat (map store_le32 ws) @ post) ws offset
    = Some (Inr (offset + 4 * length ws))"
  using assms
proof (induction ws arbitrary: pre offset)
  case (Cons w ws)
  have "read_word (pre @ store_le32 w @ concat (map store_le32 ws) @ post) offset = Some (Inr (w, offset + 4))"
    by (rule read_word_at [OF Cons.prems])
  moreover have "read_profile ((pre @ store_le32 w) @ concat (map store_le32 ws) @ post) ws (offset + 4)
      = Some (Inr (offset + 4 + 4 * length ws))"
    using Cons.prems by (intro Cons.IH) simp
  ultimately show ?case by (simp add: attempt_def)
qed simp

definition nonempty_users :: "Records \<Rightarrow> Records" where
  "nonempty_users db = filter (\<lambda>(user, m). m \<noteq> []) db"

lemma emplace_eq:
  "emplace p db = (if find_record db (fp_user p) (fp_name p) \<noteq> None then Inl ''duplicate native record''
     else Inr (put (fp_user p) (put (fp_name p) p (user_map db (fp_user p))) db))"
  by (simp add: emplace_def Let_def user_map_def [symmetric] map_of_user_map)

lemma emplace_user:
  assumes "\<forall>u' \<in> set (map fst db). u' < u" "ordered (pre @ n)" "\<forall>(k, p) \<in> set n. fp_user p = u \<and> fp_name p = k"
  shows "emplace_all (map snd n) (db @ (if pre = [] then [] else [(u, pre)]))
    = Inr (db @ (if pre @ n = [] then [] else [(u, pre @ n)]))"
  using assms(2,3)
proof (induction n arbitrary: pre)
  case Nil
  then show ?case by simp
next
  case (Cons kp n)
  obtain k p where kp: "kp = (k, p)" "fp_user p = u" "fp_name p = k" using Cons.prems(2) by (cases kp) auto
  let ?db = "db @ (if pre = [] then [] else [(u, pre)])"
  have nu: "map_of db u = None" using assms(1) by (auto simp: map_of_eq_None_iff)
  then have um: "user_map ?db u = pre" by (simp add: user_map_def map_add_def)
  have lt: "\<forall>k' \<in> set (map fst pre). k' < k" using Cons.prems(1) kp by (auto simp: ordered_def sorted_wrt_append)
  then have "map_of pre k = None" by (auto simp: map_of_eq_None_iff)
  then have "find_record ?db u k = None" using um by (simp flip: map_of_user_map)
  moreover have "put k p pre = pre @ [(k, p)]" by (rule put_last [OF lt])
  moreover have "put u (pre @ [(k, p)]) ?db = db @ [(u, pre @ [(k, p)])]"
    using assms(1) by (induction db) auto
  ultimately have "emplace p ?db = Inr (db @ [(u, pre @ [(k, p)])])"
    using kp um by (simp add: emplace_eq)
  moreover have "emplace_all (map snd n) (db @ [(u, pre @ [(k, p)])]) = Inr (db @ [(u, (pre @ [(k, p)]) @ n)])"
    using Cons.IH [of "pre @ [(k, p)]"] Cons.prems kp by simp
  ultimately show ?case using kp(1) by simp
qed

lemma emplace_all_append:
  "emplace_all (ps @ qs) db = (case emplace_all ps db of Inl e \<Rightarrow> Inl e | Inr db \<Rightarrow> emplace_all qs db)"
  by (induction ps arbitrary: db) (auto split: sum.split)

lemma emplace_db:
  assumes "ordered (pre @ db)" "list_all (\<lambda>(u, m). ordered m \<and> (\<forall>(k, p) \<in> set m. fp_user p = u \<and> fp_name p = k)) db"
  shows "emplace_all (all_records db) (nonempty_users pre) = Inr (nonempty_users (pre @ db))"
  using assms
proof (induction db arbitrary: pre)
  case Nil
  then show ?case by (simp add: all_records_def)
next
  case (Cons um db)
  obtain u m where um: "um = (u, m)" by force
  have lt: "\<forall>u' \<in> set (map fst (nonempty_users pre)). u' < u"
    using Cons.prems(1) um by (auto simp: ordered_def sorted_wrt_append nonempty_users_def)
  have "emplace_all (map snd m) (nonempty_users pre) = Inr (nonempty_users (pre @ [(u, m)]))"
    using emplace_user [OF lt, of "[]" m] Cons.prems(2) um
    by (auto simp: nonempty_users_def list_all_iff)
  moreover have "emplace_all (all_records db) (nonempty_users (pre @ [(u, m)])) = Inr (nonempty_users ((pre @ [(u, m)]) @ db))"
    using Cons.IH [of "pre @ [(u, m)]"] Cons.prems um by simp
  ultimately show ?case
    using um by (simp add: all_records_def emplace_all_append)
qed

lemma record_count_small:
  assumes "length (all_records db) < 2 ^ 32"
  shows "unat (record_count db) = length (all_records db)"
proof -
  have "fold (\<lambda>(user, m) count. count + of_nat (length m)) db c = c + of_nat (length (all_records db))" for c :: u32
    by (induction db arbitrary: c) (auto simp: all_records_def)
  then have "record_count db = of_nat (length (all_records db))" by (simp add: record_count_def)
  then show ?thesis using assms by (simp add: unat_of_nat take_bit_nat_eq_self)
qed

lemma records_length: "length ps * 16 \<le> length (concat (map record_bytes ps))"
  by (induction ps) (auto simp: record_bytes_def string_bytes_def)

lemma db_entries_ok:
  assumes "db_ok al db"
  shows "list_all (\<lambda>(u, m). ordered m \<and> (\<forall>(k, p) \<in> set m. fp_user p = u \<and> fp_name p = k)) db"
proof -
  note ok = db_okD [OF assms]
  have "fp_user p = u \<and> fp_name p = k" if "(u, m) \<in> set db" "(k, p) \<in> set m" for u m k p
  proof -
    have "(u, k, p) \<in> set (entries db)" using that by (force simp: entries_def)
    then have "find_record db u k = Some p" using set_entries [OF ok(1,2)] by blast
    with ok(3) show ?thesis by (auto simp: record_ok_def)
  qed
  with ok(2) show ?thesis by (auto simp: list_all_iff)
qed

lemma read_database_written:
  assumes "db_ok al (fs_fingerprints st)" "plain_database st = Some plain"
  shows "read_database al (fs_hardware_id st) plain = Some (Inr (nonempty_users (fs_fingerprints st)))"
proof -
  let ?db = "fs_fingerprints st" and ?ps = "all_records (fs_fingerprints st)" and ?hw = "fs_hardware_id st"
  note ok = db_okD [OF assms(1)]
  have p: "\<not> 1000 < record_count ?db" "list_all (\<lambda>p. string_ok (fp_user p) \<and> string_ok (fp_name p)) ?ps"
    "plain = header_bytes ?hw (record_count ?db) @ concat (map record_bytes ?ps)" "length plain \<le> maximum_file - 36"
    using assms(2) unfolding plain_database_eq by blast+
  have "length ?ps * 16 \<le> maximum_file"
    using records_length [of ?ps] p(3,4) by (simp add: maximum_file_def)
  then have n: "unat (record_count ?db) = length ?ps" by (intro record_count_small) (simp add: maximum_file_def)
  have r: "list_all (readable al) ?ps"
    unfolding list_all_iff
  proof
    fix p assume p': "p \<in> set ?ps"
    then obtain u n where "find_record ?db u n = Some p" using all_records_find [OF assms(1)] by blast
    from ok(3) [OF this] p(2) p' show "readable al p" by (auto simp: readable_def record_ok_def list_all_iff)
  qed
  have e: "emplace_all ?ps [] = Inr (nonempty_users ?db)"
    using emplace_db [of "[]" ?db] ok(1) db_entries_ok [OF assms(1)] by (simp add: nonempty_users_def)
  let ?h = "concat (map store_le32 [1, 300, 112, 88, 26, ucast ?hw])" and ?b = "concat (map record_bytes ?ps)"
  have lh: "length ?h = 24" by simp
  have plain: "plain = ?h @ store_le32 (record_count ?db) @ ?b" by (simp add: p(3) header_bytes_def)
  have 1: "read_profile plain [1, 300, 112, 88, 26, ucast ?hw] 0 = Some (Inr 24)"
    using read_profile_at [of 0 "[]" "[1, 300, 112, 88, 26, ucast ?hw]" "store_le32 (record_count ?db) @ ?b"]
    unfolding plain by simp
  have 2: "read_word plain 24 = Some (Inr (record_count ?db, 28))"
    using read_word_at [of 24 ?h "record_count ?db" ?b] lh unfolding plain by simp
  have 3: "read_records al plain (length ?ps) [] [] 28 = Some (Inr (nonempty_users ?db, 28 + length ?b))"
    using read_records_at [of 28 "?h @ store_le32 (record_count ?db)" al ?ps "[]" "[]" "nonempty_users ?db" "[]"]
      r e distinct_registrations [OF assms(1)] lh
    unfolding plain by simp
  have 4: "length plain = 28 + length ?b" using lh unfolding plain by simp
  show ?thesis
    unfolding read_database_def by (simp add: attempt_def 1 2 3 4 n p(1) del: read_profile.simps)
qed

lemma write_loop_all:
  "write_loop encrypted offset answers = Some (True, t) \<Longrightarrow> t = encrypted"
  by (induction encrypted offset answers rule: write_loop.induct)
    (auto split: if_splits write_answer.splits)

text \<open>What a successful save leaves in the file.\<close>

definition database_file ::
    "(u8 list \<Rightarrow> u8 list \<Rightarrow> u8 list \<Rightarrow> u8 list \<Rightarrow> u8 list \<times> u8 list) \<Rightarrow> u8 list \<Rightarrow> FingerprintStorage \<Rightarrow> u8 list option" where
  "database_file seal nonce st =
     (case plain_database st of
        None \<Rightarrow> None
      | Some plain \<Rightarrow> Some (magic @ nonce @ fst (seal magic nonce (fs_key st) plain) @ snd (seal magic nonce (fs_key st) plain)))"

lemma save_cases:
  assumes "save seal answers st file = Some (ok, file')"
  shows "if ok then (\<exists>nonce. sa_nonce answers = Some nonce \<and> database_file seal nonce st \<noteq> None \<and> file' = database_file seal nonce st)
    else file' = file"
proof (cases "plain_database st")
  case None
  with assms show ?thesis by (simp add: save_def)
next
  case (Some plain)
  show ?thesis
  proof (cases "sa_nonce answers")
    case None
    with Some assms show ?thesis by (simp add: save_def)
  next
    case nonce: (Some nonce)
    obtain cipher tag where s: "seal magic nonce (fs_key st) plain = (cipher, tag)" by force
    show ?thesis
    proof (cases "sa_directory answers \<and> sa_temporary answers \<and> sa_mode answers")
      case False
      with Some nonce s assms show ?thesis by (auto simp: save_def)
    next
      case True
      with Some nonce s assms obtain written t where
        w: "write_loop (magic @ nonce @ cipher @ tag) 0 (sa_writes answers) = Some (written, t)"
        and r: "(ok, file') = (if written \<and> sa_sync answers \<and> sa_closed answers \<and> sa_renamed answers then (True, Some t) else (False, file))"
        by (auto simp: save_def Let_def split: Option.bind_splits)
      show ?thesis
      proof (cases ok)
        case ok: True
        with r have "written" "file' = Some t" by (auto split: if_splits)
        with w have "file' = Some (magic @ nonce @ cipher @ tag)" by (auto dest: write_loop_all)
        with ok nonce Some s show ?thesis by (simp add: database_file_def)
      next
        case False
        with r show ?thesis by (auto split: if_splits)
      qed
    qed
  qed
qed

lemma load_written:
  assumes "db_ok al (fs_fingerprints st)" "database_file seal nonce st = Some file" "length nonce = 12"
    "\<And>plain. length (fst (seal magic nonce (fs_key st) plain)) = length plain"
    "\<And>plain. length (snd (seal magic nonce (fs_key st) plain)) = 16"
    "\<And>plain. unseal magic nonce (fs_key st) (fst (seal magic nonce (fs_key st) plain)) (snd (seal magic nonce (fs_key st) plain)) = Some plain"
    "fs_key st' = fs_key st" "fs_hardware_id st' = fs_hardware_id st"
  shows "load unseal al (Some file) st' = Some (Inr (st'\<lparr>fs_fingerprints := nonempty_users (fs_fingerprints st)\<rparr>))"
proof -
  obtain plain where p: "plain_database st = Some plain"
    "file = magic @ nonce @ fst (seal magic nonce (fs_key st) plain) @ snd (seal magic nonce (fs_key st) plain)"
    using assms(2) by (auto simp: database_file_def split: option.splits)
  let ?c = "fst (seal magic nonce (fs_key st) plain)" and ?t = "snd (seal magic nonce (fs_key st) plain)"
  have m: "length magic = 8" by (simp add: magic_def ascii_def)
  have l: "length ?c = length plain" "length ?t = 16" by (rule assms(4), rule assms(5))
  have len: "length file = length plain + 36" using m l assms(3) p(2) by simp
  have "length plain \<le> maximum_file - 36" using p(1) unfolding plain_database_eq by blast
  then have b: "\<not> length file < 36" "\<not> maximum_file < length file" using len by (auto simp: maximum_file_def)
  have r: "rd_bytes file 0 8 = Some magic" "rd_bytes file 8 12 = Some nonce"
    "rd_bytes file 20 (length file - 36) = Some ?c" "rd_bytes file (length file - 16) 16 = Some ?t"
    using m l assms(3) len by (simp_all add: p(2) rd_bytes_def)
  show ?thesis
    using b r assms(6) [of plain] read_database_written [OF assms(1) p(1)] assms(7,8)
    by (simp add: load_def attempt_def)
qed

subsection \<open>Loading is safe\<close>

text \<open>The computation is defined and what it returns satisfies \<open>P\<close>.\<close>

definition sound :: "(exn + 'a) option \<Rightarrow> ('a \<Rightarrow> bool) \<Rightarrow> bool" where
  "sound r P = (case r of None \<Rightarrow> False | Some (Inl _) \<Rightarrow> True | Some (Inr x) \<Rightarrow> P x)"

named_theorems sound_intros \<open>readers of the database are sound\<close>

lemma sound_simps [simp]:
  "sound (Some (Inl e)) P" "sound (Some (Inr x)) P \<longleftrightarrow> P x" "\<not> sound None P"
  by (simp_all add: sound_def)

lemma sound_attempt:
  assumes "sound r P" "\<And>x. P x \<Longrightarrow> sound (f x) Q"
  shows "sound (attempt r f) Q"
proof -
  from assms(1) consider (bad) e where "r = Some (Inl e)" | (good) x where "r = Some (Inr x)" "P x"
    by (auto simp: sound_def split: option.splits sum.splits)
  then show ?thesis using assms(2) by cases (simp_all add: attempt_def)
qed

lemma sound_mono: "sound r P \<Longrightarrow> (\<And>x. P x \<Longrightarrow> Q x) \<Longrightarrow> sound r Q"
  by (auto simp: sound_def split: option.splits sum.splits)

lemma sound_read_word: "offset \<le> length bytes \<Longrightarrow> sound (read_word bytes offset) (\<lambda>(w, o'). o' \<le> length bytes)"
  using word.r_total [of offset bytes]
  by (cases "offset + 4 \<le> length bytes") (auto simp: read_word_def)

lemma sound_read_take:
  "offset \<le> length bytes \<Longrightarrow> sound (read_take bytes offset n) (\<lambda>(xs, o'). o' \<le> length bytes \<and> length xs = n)"
  by (auto simp: read_take_def rd_bytes_def)

lemma sound_read_string:
  "offset \<le> length bytes \<Longrightarrow> sound (read_string bytes offset) (\<lambda>(s, o'). o' \<le> length bytes \<and> string_ok s)"
  unfolding read_string_def
  by (intro sound_attempt [OF sound_read_word])
    (auto simp: string_ok_def list_ex_iff word_less_nat_alt unsigned_eq_0_iff
      intro!: sound_attempt [OF sound_read_take])

lemma sound_check_order:
  "32 \<le> length order \<Longrightarrow> list_all (\<lambda>i. i < 32) is \<Longrightarrow> sound (check_order order seen is) (\<lambda>_. True)"
  by (induction "is" arbitrary: seen) (auto simp: rd_def)

lemma sound_validate: "sound (validate al bytes) (\<lambda>_. validate al bytes = Some (Inr ()))"
proof -
  obtain r where r: "fpc_template_load_default al bytes 32 = Some r"
    using template_load_safe [of al bytes 32] by auto
  have "sound (validate al bytes) (\<lambda>_. True)"
  proof (cases r)
    case (Inl e)
    with r show ?thesis by (simp add: validate_def)
  next
    case (Inr t)
    with r have ok: "loaded_template_ok t 32" by (intro template_load_ok) simp
    show ?thesis
    proof (cases "rg_capacity (lt_graph t) = 32")
      case True
      with ok have "length (arr (rg_order (lt_graph t))) = 32"
        by (auto simp: loaded_template_ok_def graph_wf_def arr_def)
      then have "sound (check_order (arr (rg_order (lt_graph t))) (replicate 32 False) [0..<32]) (\<lambda>_. True)"
        by (intro sound_check_order) (auto simp: list_all_iff)
      with r Inr show ?thesis by (auto simp: validate_def intro!: sound_attempt)
    next
      case False
      with r Inr show ?thesis by (simp add: validate_def)
    qed
  qed
  then show ?thesis by (auto simp: sound_def split: option.splits sum.splits)
qed

lemma sound_read_profile:
  "offset \<le> length bytes \<Longrightarrow> sound (read_profile bytes ws offset) (\<lambda>o'. o' \<le> length bytes)"
  by (induction ws arbitrary: offset) (auto intro!: sound_attempt [OF sound_read_word])

lemma sound_read_record:
  assumes "offset \<le> length bytes"
  shows "sound (read_record al bytes regs offset) (\<lambda>(p, o'). o' \<le> length bytes \<and>
     record_ok al (fp_user p) (fp_name p) p \<and> fp_registration p \<notin> set regs)"
  unfolding read_record_def
proof (rule sound_attempt [OF sound_read_word [OF assms]], clarify)
  fix reg o1 assume o1: "o1 \<le> length bytes"
  let ?Q = "\<lambda>(p, o'). o' \<le> length bytes \<and> record_ok al (fp_user p) (fp_name p) p \<and> fp_registration p \<notin> set regs"
  let ?native = "\<lambda>user name (n :: u32, offset). if 200000 < n then Some (Inl ''native template too large'')
       else attempt (read_take bytes offset (unat n)) (\<lambda>(native, offset).
       attempt (validate al native) (\<lambda>_.
         Some (Inr (\<lparr>fp_user = user, fp_name = name, fp_native = native, fp_registration = reg\<rparr>, offset))))"
  have native: "sound (?native user name x) ?Q" if "snd x \<le> length bytes" "valid_name name" "reg \<noteq> 0" "reg \<notin> set regs"
    for user name x
    using that by (cases x) (auto simp: record_ok_def intro!: sound_attempt [OF sound_read_take] sound_attempt [OF sound_validate])
  show "sound (if reg = 0 \<or> reg \<in> set regs then Some (Inl ''invalid native registration'')
       else attempt (read_string bytes o1) (\<lambda>(user, offset).
       attempt (read_string bytes offset) (\<lambda>(name, offset).
       if \<not> valid_name name then Some (Inl ''invalid stored finger name'')
       else attempt (read_word bytes offset) (?native user name)))) ?Q"
  proof (cases "reg = 0 \<or> reg \<in> set regs")
    case False
    have "sound (attempt (read_string bytes o1) (\<lambda>(user, offset).
       attempt (read_string bytes offset) (\<lambda>(name, offset).
       if \<not> valid_name name then Some (Inl ''invalid stored finger name'')
       else attempt (read_word bytes offset) (?native user name)))) ?Q"
    proof (rule sound_attempt [OF sound_read_string [OF o1]], clarify)
      fix user o2 assume o2: "o2 \<le> length bytes"
      show "sound (attempt (read_string bytes o2) (\<lambda>(name, offset).
         if \<not> valid_name name then Some (Inl ''invalid stored finger name'')
         else attempt (read_word bytes offset) (?native user name))) ?Q"
      proof (rule sound_attempt [OF sound_read_string [OF o2]], clarify)
        fix name o3 assume o3: "o3 \<le> length bytes"
        show "sound (if \<not> valid_name name then Some (Inl ''invalid stored finger name'')
           else attempt (read_word bytes o3) (?native user name)) ?Q"
        proof (cases "valid_name name")
          case True
          have "sound (attempt (read_word bytes o3) (?native user name)) ?Q"
          proof (rule sound_attempt [OF sound_read_word [OF o3]])
            fix x :: "u32 \<times> nat" assume "case x of (w, o') \<Rightarrow> o' \<le> length bytes"
            then show "sound (?native user name x) ?Q" using native [of x name user] True False by (cases x) simp
          qed
          with True show ?thesis by simp
        qed simp
      qed
    qed
    with False show ?thesis by simp
  qed simp
qed

lemma sound_read_records:
  assumes "offset \<le> length bytes" "db_ok al parsed"
    "\<And>u k p. find_record parsed u k = Some p \<Longrightarrow> fp_registration p \<in> set regs"
  shows "sound (read_records al bytes n regs parsed offset) (\<lambda>(db, o'). db_ok al db)"
  using assms
proof (induction n arbitrary: regs parsed offset)
  case 0
  then show ?case by simp
next
  case (Suc n)
  show ?case
    unfolding read_records.simps
  proof (rule sound_attempt [OF sound_read_record [OF Suc.prems(1)]], clarify)
    fix p o'
    assume o': "o' \<le> length bytes" and p: "record_ok al (fp_user p) (fp_name p) p" "fp_registration p \<notin> set regs"
    let ?db = "put (fp_user p) (put (fp_name p) p (user_map parsed (fp_user p))) parsed"
    have ok: "db_ok al ?db" if "find_record parsed (fp_user p) (fp_name p) = None"
      using Suc.prems(2) p(1)
    proof (rule db_ok_put)
      fix u' n' p'
      assume "find_record parsed u' n' = Some p'" "fp_registration p' = fp_registration p"
      with Suc.prems(3) p(2) show "u' = fp_user p \<and> n' = fp_name p" by metis
    qed
    have new: "fp_registration q \<in> set (fp_registration p # regs)" if "find_record ?db u k = Some q" for u k q
      using that Suc.prems(3) [of u k q] by (auto simp: map_of_user_map split: if_splits)
    show "sound (case emplace p parsed of Inl e \<Rightarrow> Some (Inl e)
        | Inr parsed \<Rightarrow> read_records al bytes n (fp_registration p # regs) parsed o') (\<lambda>(db, o'). db_ok al db)"
      using Suc.IH [OF o' ok new] by (simp add: emplace_eq)
  qed
qed

lemma sound_read_database: "sound (read_database al hw plain) (db_ok al)"
  unfolding read_database_def
proof (rule sound_attempt [OF sound_read_profile], simp)
  fix o1 assume o1: "o1 \<le> length plain"
  show "sound (attempt (read_word plain o1) (\<lambda>(n, offset).
       if 1000 < n then Some (Inl ''too many native records'')
       else attempt (read_records al plain (unat n) [] [] offset) (\<lambda>(parsed, offset).
         if offset \<noteq> length plain then Some (Inl ''trailing native database data'') else Some (Inr parsed)))) (db_ok al)"
  proof (rule sound_attempt [OF sound_read_word [OF o1]], clarify)
    fix n o2 assume o2: "o2 \<le> length plain"
    have "sound (read_records al plain (unat n) [] [] o2) (\<lambda>(db, o'). db_ok al db)"
      by (rule sound_read_records [OF o2]) (simp_all add: find_record_def)
    then show "sound (if 1000 < n then Some (Inl ''too many native records'')
       else attempt (read_records al plain (unat n) [] [] o2) (\<lambda>(parsed, offset).
         if offset \<noteq> length plain then Some (Inl ''trailing native database data'') else Some (Inr parsed))) (db_ok al)"
      by (auto intro: sound_attempt)
  qed
qed

lemma sound_load:
  "sound (load unseal al file st) (\<lambda>st'. db_ok al (fs_fingerprints st') \<and> st' = st\<lparr>fs_fingerprints := fs_fingerprints st'\<rparr>)"
proof (cases "file")
  case (Some enc)
  show ?thesis
  proof (cases "length enc < 36")
    case False
    then have r: "rd_bytes enc 0 8 = Some (take 8 enc)" "rd_bytes enc 8 12 = Some (take 12 (drop 8 enc))"
      "rd_bytes enc 20 (length enc - 36) = Some (take (length enc - 36) (drop 20 enc))"
      "rd_bytes enc (length enc - 16) 16 = Some (take 16 (drop (length enc - 16) enc))"
      by (simp_all add: rd_bytes_def)
    have "sound (attempt (read_database al (fs_hardware_id st) plain) (\<lambda>parsed. Some (Inr (st\<lparr>fs_fingerprints := parsed\<rparr>))))
        (\<lambda>st'. db_ok al (fs_fingerprints st') \<and> st' = st\<lparr>fs_fingerprints := fs_fingerprints st'\<rparr>)" for plain
      by (rule sound_attempt [OF sound_read_database]) simp
    then show ?thesis using Some r by (auto simp: load_def split: option.split)
  qed (simp add: load_def Some)
qed (simp add: load_def)

lemma load_total: "load unseal al file st \<noteq> None"
proof
  assume "load unseal al file st = None"
  then have "\<not> sound (load unseal al file st) P" for P by simp
  then show False using sound_load by blast
qed

text \<open>(C2) Loading the database is safe for every file and every decryption: no read leaves a
  buffer; a file that is accepted yields a consistent store, in which every record stands under its
  own user and a valid finger name, has a registration number other than zero that no other record
  has, and a template that passes the validation; a refused file leaves the store as it was.\<close>

theorem storage_load_safe:
  "case load unseal al file st of
     None \<Rightarrow> False
   | Some (Inl e) \<Rightarrow> True
   | Some (Inr st') \<Rightarrow> db_ok al (fs_fingerprints st') \<and> st' = st\<lparr>fs_fingerprints := fs_fingerprints st'\<rparr>"
  using sound_load by (simp add: sound_def)

subsection \<open>What the operations do\<close>

text \<open>The authenticated encryption: ciphertexts have the length of their plaintext, tags have
  sixteen bytes, and decryption under the same key, nonce and associated data gives the plaintext back.\<close>

definition aead ::
    "(u8 list \<Rightarrow> u8 list \<Rightarrow> u8 list \<Rightarrow> u8 list \<Rightarrow> u8 list \<times> u8 list)
      \<Rightarrow> (u8 list \<Rightarrow> u8 list \<Rightarrow> u8 list \<Rightarrow> u8 list \<Rightarrow> u8 list \<Rightarrow> u8 list option) \<Rightarrow> bool" where
  "aead seal unseal \<longleftrightarrow>
     (\<forall>associated nonce key plain. length (fst (seal associated nonce key plain)) = length plain
        \<and> length (snd (seal associated nonce key plain)) = 16
        \<and> unseal associated nonce key (fst (seal associated nonce key plain))
            (snd (seal associated nonce key plain)) = Some plain)"

text \<open>The random generator fills the twelve bytes of the nonce or fails.\<close>

definition nonce_ok :: "save_answers \<Rightarrow> bool" where
  "nonce_ok answers \<longleftrightarrow> (case sa_nonce answers of None \<Rightarrow> True | Some nonce \<Rightarrow> length nonce = 12)"

lemma save_then_load:
  assumes "db_ok al (fs_fingerprints st)" "aead seal unseal" "nonce_ok answers"
    and "save seal answers st old = Some (True, file')"
    and "fs_key st' = fs_key st" "fs_hardware_id st' = fs_hardware_id st"
  shows "load unseal al file' st' = Some (Inr (st'\<lparr>fs_fingerprints := nonempty_users (fs_fingerprints st)\<rparr>))"
proof -
  obtain nonce where n: "sa_nonce answers = Some nonce" "database_file seal nonce st \<noteq> None" "file' = database_file seal nonce st"
    using save_cases [OF assms(4)] by auto
  then obtain bytes where "database_file seal nonce st = Some bytes" by blast
  moreover have "length nonce = 12" using assms(3) n(1) by (simp add: nonce_ok_def)
  ultimately show ?thesis
    using load_written [of al st seal nonce bytes unseal st'] assms(1,2,5,6) n(3) by (simp add: aead_def)
qed

lemma committed_None: "committed seal answers db st old = None \<Longrightarrow> save seal answers (st\<lparr>fs_fingerprints := db\<rparr>) old = None"
  by (auto simp: committed_def Let_def split: Option.bind_splits)

lemma committed_cases:
  assumes "committed seal answers db st old = Some (ok, st', file')"
  shows "if ok then st' = st\<lparr>fs_fingerprints := db\<rparr> \<and> save seal answers st' old = Some (True, file')
    else st' = st \<and> file' = old"
proof -
  obtain ok' f where s: "save seal answers (st\<lparr>fs_fingerprints := db\<rparr>) old = Some (ok', f)"
      "(ok, st', file') = (if ok' then (True, st\<lparr>fs_fingerprints := db\<rparr>, f) else (False, st, f))"
    using assms by (auto simp: committed_def Let_def split: Option.bind_splits prod.splits if_splits)
  with save_cases [OF s(1)] show ?thesis by (cases ok') auto
qed

lemma last_registration_ge:
  "p \<in> set (all_records db) \<Longrightarrow> fp_registration p \<le> last_registration db"
proof -
  have "x \<le> fold (\<lambda>print last. max last (fp_registration print)) ps x \<and>
      (\<forall>p \<in> set ps. fp_registration p \<le> fold (\<lambda>print last. max last (fp_registration print)) ps x)" for ps :: "Fingerprint list" and x
  proof (induction ps arbitrary: x)
    case (Cons q ps)
    from Cons.IH [of "max x (fp_registration q)"] show ?case by auto
  qed simp
  then show "p \<in> set (all_records db) \<Longrightarrow> fp_registration p \<le> last_registration db"
    by (simp add: last_registration_def)
qed

lemma successor:
  assumes "(w :: u32) \<noteq> 0xFFFFFFFF"
  shows "unat (w + 1) = unat w + 1"
proof -
  have "unat w \<noteq> unat (0xFFFFFFFF :: u32)" using assms by (metis word_unat_eq_iff)
  then have "unat w + 1 < 4294967296" using unat_bounds(3) [of w] by simp
  then show ?thesis by (simp add: unat_word_ariths take_bit_nat_eq_self)
qed

text \<open>The registration a new record gets: the old one of its finger, else one above all others.\<close>

definition next_registration :: "Records \<Rightarrow> u8 list \<Rightarrow> u8 list \<Rightarrow> u32" where
  "next_registration db user name =
     (case find_record db user name of None \<Rightarrow> last_registration db + 1 | Some old \<Rightarrow> fp_registration old)"

lemma insert_or_update_cases:
  assumes "db_ok al (fs_fingerprints st)" "insert_or_update seal answers al print st old = Some (Inr (ok, st', file'))"
  shows "valid_name (fp_name print) \<and> validate al (fp_native print) = Some (Inr ())
    \<and> (let db = fs_fingerprints st; user = fp_user print; name = fp_name print;
           p = print\<lparr>fp_registration := next_registration db user name\<rparr>;
           db' = put user (put name p (user_map db user)) db
       in if ok then st' = st\<lparr>fs_fingerprints := db'\<rparr> \<and> db_ok al db' \<and> save seal answers st' old = Some (True, file')
            \<and> find_record db' = (find_record db)(user := (find_record db user)(name \<mapsto> p))
          else st' = st \<and> file' = old)"
proof -
  let ?db = "fs_fingerprints st" and ?u = "fp_user print" and ?n = "fp_name print"
  let ?p = "print\<lparr>fp_registration := next_registration ?db ?u ?n\<rparr>"
  let ?db' = "put ?u (put ?n ?p (user_map ?db ?u)) ?db"
  note ok = db_okD [OF assms(1)]
  have v: "valid_name ?n" using assms(2) by (simp add: insert_or_update_def split: if_splits)
  have val: "validate al (fp_native print) = Some (Inr ())"
    using assms(2) v sound_validate [of al "fp_native print"]
    by (auto simp: insert_or_update_def attempt_def sound_def split: option.splits sum.splits)
  have f: "find_record ?db' = (find_record ?db)(?u := (find_record ?db ?u)(?n \<mapsto> ?p))"
    by (auto simp: fun_eq_iff map_of_user_map)
  consider (full) "find_record ?db ?u ?n = None" "last_registration ?db = 0xFFFFFFFF" "ok = False" "st' = st" "file' = old"
    | (commit) "find_record ?db ?u ?n \<noteq> None \<or> last_registration ?db \<noteq> 0xFFFFFFFF"
        "committed seal answers ?db' st old = Some (ok, st', file')"
    using assms(2) v val
    by (cases "find_record ?db ?u ?n")
      (auto simp: insert_or_update_def attempt_def Let_def check_find user_records_map map_of_user_map next_registration_def
        split: if_splits)
  then show ?thesis
  proof cases
    case full
    with v val show ?thesis by (simp add: Let_def)
  next
    case commit
    have "record_ok al ?u ?n ?p"
    proof -
      have "next_registration ?db ?u ?n \<noteq> 0"
      proof (cases "find_record ?db ?u ?n")
        case None
        with commit(1) have "last_registration ?db \<noteq> 0xFFFFFFFF" by simp
        then have "unat (last_registration ?db + 1) \<noteq> 0" by (simp add: successor)
        then have "last_registration ?db + 1 \<noteq> 0" by (metis unsigned_0)
        with None show ?thesis by (simp add: next_registration_def)
      next
        case (Some q)
        with ok(3) show ?thesis by (auto simp: next_registration_def record_ok_def)
      qed
      with v val show ?thesis by (simp add: record_ok_def)
    qed
    moreover have "u' = ?u \<and> n' = ?n"
      if q: "find_record ?db u' n' = Some q" "fp_registration q = fp_registration ?p" for u' n' q
    proof (cases "find_record ?db ?u ?n")
      case None
      have "q \<in> set (all_records ?db)" using all_records_find [OF assms(1)] q(1) by blast
      then have le: "fp_registration q \<le> last_registration ?db" by (rule last_registration_ge)
      have "last_registration ?db \<noteq> 0xFFFFFFFF" using None commit(1) by simp
      then have "last_registration ?db < last_registration ?db + 1"
        by (simp add: word_less_nat_alt successor)
      with le q(2) None show ?thesis by (simp add: next_registration_def)
    next
      case (Some old)
      with ok(4) [OF q(1) Some] q(2) show ?thesis by (simp add: next_registration_def)
    qed
    ultimately have db': "db_ok al ?db'" by (intro db_ok_put [OF assms(1)]) blast+
    from committed_cases [OF commit(2)] db' v val f show ?thesis by (cases ok) (auto simp: Let_def)
  qed
qed

lemma find_nonempty:
  assumes "ordered db"
  shows "find_record (nonempty_users db) = find_record db"
proof (intro ext)
  fix u n
  have d: "distinct (map fst db)" by (rule ordered_distinct [OF assms])
  then have d': "distinct (map fst (nonempty_users db))"
    by (simp add: nonempty_users_def distinct_map_filter)
  show "find_record (nonempty_users db) u n = find_record db u n"
  proof (cases "map_of db u")
    case None
    then have "map_of (nonempty_users db) u = None"
      by (auto simp: map_of_eq_None_iff nonempty_users_def)
    with None show ?thesis by (simp add: find_record_def)
  next
    case (Some m)
    then have "(u, m) \<in> set db" by (rule map_of_SomeD)
    show ?thesis
    proof (cases "m = []")
      case True
      have "map_of (nonempty_users db) u = None"
        using Some d True by (auto simp: map_of_eq_None_iff nonempty_users_def dest: map_of_is_SomeI [OF d])
      with Some True show ?thesis by (simp add: find_record_def)
    next
      case False
      with \<open>(u, m) \<in> set db\<close> have "(u, m) \<in> set (nonempty_users db)" by (simp add: nonempty_users_def)
      with d' have "map_of (nonempty_users db) u = Some m" by (rule map_of_is_SomeI)
      with Some show ?thesis by (simp add: find_record_def)
    qed
  qed
qed

end
