(* ===== verification/Protocol.thy ===== *)
theory Protocol
  imports Prelude
begin

text \<open>
  What the reader sends (\<^verbatim>\<open>protocol.hpp\<close>, \<^verbatim>\<open>tls_key.hpp\<close>,
  \<^verbatim>\<open>crypto.cpp\<close>: \<^verbatim>\<open>verify_tls_key\<close>, and the parsers of
  \<^verbatim>\<open>fpc9201.cpp\<close>): the framing of the byte stream into events, the loops of
  \<^verbatim>\<open>TLSEventReader\<close> and \<^verbatim>\<open>USBInput\<close> that feed it, the capture header, the reports
  of defective pixels and of the reader identity, and the wrapped TLS key. A thrown
  \<^verbatim>\<open>runtime_error\<close> is \<open>Inl\<close> of its message; \<open>None\<close> is a read outside the object. The
  capacity of an event buffer (a class of the Jinx library) is the parameter \<open>cap\<close>; SHA-256,
  HMAC-SHA-256 and AES-256-CBC (OpenSSL) are parameters too.
\<close>

unbundle bit_operations_syntax

type_synonym exn = string

subsection \<open>Frames\<close>

record WireEvent =
  we_code :: u32
  we_length :: u32
  we_result :: u32
  we_body :: "u8 list"

record CaptureHeader =
  ch_tag :: u32
  ch_acquisition_loop :: u32
  ch_send_counter :: u32

definition be32 :: "u8 list \<Rightarrow> nat \<Rightarrow> u32 option" where
  "be32 data i = do { a \<leftarrow> rd data i; b \<leftarrow> rd data (i + 1);
                      c \<leftarrow> rd data (i + 2); d \<leftarrow> rd data (i + 3);
                      Some (push_bit 24 (ucast a) OR push_bit 16 (ucast b) OR push_bit 8 (ucast c)
                            OR ucast d) }"

definition capture_header :: "u8 list \<Rightarrow> (exn + CaptureHeader) option" where
  "capture_header data =
     (if length data \<noteq> 12 + 9856 \<and> length data \<noteq> 12 + 2 * 9856
      then Some (Inl ''invalid FPC capture length'')
      else do { tag \<leftarrow> be32 data 0; loop \<leftarrow> be32 data 4; counter \<leftarrow> be32 data 8;
                Some (Inr \<lparr>ch_tag = tag, ch_acquisition_loop = loop, ch_send_counter = counter\<rparr>) })"

definition framer_maximum :: nat where
  "framer_maximum = 65536"

definition feed :: "u8 list \<Rightarrow> u8 list \<Rightarrow> exn + u8 list" where
  "feed pending bytes =
     (if 2 * of_nat framer_maximum - of_nat (length pending) < (of_nat (length bytes) :: u64)
      then Inl ''FPC receive limit'' else Inr (pending @ bytes))"

definition next_event :: "u8 list \<Rightarrow> (exn + WireEvent option \<times> u8 list) option" where
  "next_event pending =
     (if length pending < 12 then Some (Inr (None, pending))
      else do { len \<leftarrow> be32 pending 4;
        if len < 12 \<or> of_nat framer_maximum < len then Some (Inl ''invalid FPC frame length'')
        else if length pending < unat len then Some (Inr (None, pending))
        else do { code \<leftarrow> be32 pending 0; result \<leftarrow> be32 pending 8;
                  body \<leftarrow> rd_bytes pending 12 (unat len - 12);
                  Some (Inr (Some \<lparr>we_code = code, we_length = len, we_result = result, we_body = body\<rparr>,
                             drop (unat len) pending)) } })"

subsection \<open>Facts about the framer\<close>

lemma be32_total: "i + 4 \<le> length data \<Longrightarrow> be32 data i \<noteq> None"
  by (simp add: be32_def rd_def)

lemma be32_append [simp]: "i + 4 \<le> length data \<Longrightarrow> be32 (data @ extra) i = be32 data i"
  by (simp add: be32_def rd_def nth_append)

lemma next_event_cases:
  obtains (short) "length pending < 12" "next_event pending = Some (Inr (None, pending))"
  | (invalid) len where "12 \<le> length pending" "be32 pending 4 = Some len"
      "len < 12 \<or> of_nat framer_maximum < len" "next_event pending = Some (Inl ''invalid FPC frame length'')"
  | (partial) len where "12 \<le> length pending" "be32 pending 4 = Some len" "12 \<le> len"
      "len \<le> of_nat framer_maximum" "length pending < unat len" "next_event pending = Some (Inr (None, pending))"
  | (complete) len ev where "12 \<le> length pending" "be32 pending 4 = Some len" "12 \<le> len"
      "len \<le> of_nat framer_maximum" "unat len \<le> length pending"
      "be32 pending 0 = Some (we_code ev)" "be32 pending 8 = Some (we_result ev)" "we_length ev = len"
      "we_body ev = take (unat len - 12) (drop 12 pending)"
      "next_event pending = Some (Inr (Some ev, drop (unat len) pending))"
proof (cases "length pending < 12")
  case True
  then show ?thesis by (intro short) (simp_all add: next_event_def)
next
  case False
  then obtain code len result where r: "be32 pending 4 = Some len" "be32 pending 0 = Some code"
      "be32 pending 8 = Some result"
    using be32_total [of 4 pending] be32_total [of 0 pending] be32_total [of 8 pending] by auto
  consider "len < 12 \<or> of_nat framer_maximum < len"
    | "12 \<le> len" "len \<le> of_nat framer_maximum" "length pending < unat len"
    | "12 \<le> len" "len \<le> of_nat framer_maximum" "unat len \<le> length pending"
    by (meson not_le)
  then show ?thesis
  proof cases
    case 1
    then show ?thesis using False r by (intro invalid) (auto simp: next_event_def)
  next
    case 2
    then show ?thesis using False r by (intro partial [of len]) (auto simp: next_event_def not_less)
  next
    case 3
    moreover have "12 \<le> unat len" using 3(1) by (simp add: word_le_nat_alt)
    ultimately show ?thesis
      using False r
      by (intro complete [of len "\<lparr>we_code = code, we_length = len, we_result = result,
              we_body = take (unat len - 12) (drop 12 pending)\<rparr>"])
        (auto simp: next_event_def rd_bytes_def not_less)
  qed
qed

lemma next_event_shrinks:
  assumes "next_event pending = Some (Inr (Some ev, rest))"
  shows "length rest + 12 \<le> length pending"
  using assms by (cases pending rule: next_event_cases) (auto simp: word_le_nat_alt)

lemma next_event_none: "next_event pending \<noteq> None"
  by (cases pending rule: next_event_cases) auto

text \<open>The loop of \<^verbatim>\<open>TLSEventReader::dispatch_frames\<close>: the events put into the queue, then the
  bytes still pending or the error that ends the session.\<close>

function dispatch_frames :: "u8 list \<Rightarrow> (WireEvent list \<times> (exn + u8 list)) option" where
  "dispatch_frames pending =
     (case next_event pending of
        None \<Rightarrow> None
      | Some (Inl e) \<Rightarrow> Some ([], Inl e)
      | Some (Inr (None, rest)) \<Rightarrow> Some ([], Inr rest)
      | Some (Inr (Some ev, rest)) \<Rightarrow>
          do { r \<leftarrow> dispatch_frames rest; Some (ev # fst r, snd r) })"
  by pat_completeness auto

termination
  by (relation "measure length") (auto dest: next_event_shrinks)

declare dispatch_frames.simps [simp del]

text \<open>\<^verbatim>\<open>TLSEventReader::process\<close> on each received buffer; an error ends the task.\<close>

fun receive :: "u8 list \<Rightarrow> u8 list list \<Rightarrow> (WireEvent list \<times> (exn + u8 list)) option" where
  "receive pending [] = Some ([], Inr pending)"
| "receive pending (view # views) =
     (case feed pending view of
        Inl e \<Rightarrow> Some ([], Inl e)
      | Inr fed \<Rightarrow>
          do { r \<leftarrow> dispatch_frames fed;
               case snd r of
                 Inl e \<Rightarrow> Some (fst r, Inl e)
               | Inr rest \<Rightarrow> do { s \<leftarrow> receive rest views; Some (fst r @ fst s, snd s) } })"

lemma next_event_invalid_append:
  assumes "12 \<le> length pending" "be32 pending 4 = Some len" "len < 12 \<or> of_nat framer_maximum < len"
  shows "next_event (pending @ extra) = Some (Inl ''invalid FPC frame length'')"
  using assms by (simp add: next_event_def)

lemma next_event_complete_append:
  assumes "next_event pending = Some (Inr (Some ev, rest))"
  shows "next_event (pending @ extra) = Some (Inr (Some ev, rest @ extra))"
proof (cases pending rule: next_event_cases)
  case (complete len ev')
  then have "12 \<le> unat len" by (simp add: word_le_nat_alt)
  with complete assms show ?thesis
    by (simp add: next_event_def rd_bytes_def not_less [symmetric])
qed (use assms in simp_all)

lemma dispatch_append:
  "dispatch_frames pending = Some (evs, r) \<Longrightarrow>
   (case r of Inl e \<Rightarrow> dispatch_frames (pending @ extra) = Some (evs, Inl e)
    | Inr rest \<Rightarrow> length rest < framer_maximum \<and> length rest \<le> length pending
        \<and> dispatch_frames (pending @ extra) =
          (case dispatch_frames (rest @ extra) of None \<Rightarrow> None | Some (evs', r') \<Rightarrow> Some (evs @ evs', r')))"
proof (induction pending arbitrary: evs r rule: dispatch_frames.induct)
  case (1 pending)
  show ?case
  proof (cases pending rule: next_event_cases)
    case short
    with 1(2) have "evs = []" "r = Inr pending"
      by (simp_all add: dispatch_frames.simps [of pending])
    with short show ?thesis
      by (simp add: framer_maximum_def split: option.split prod.split)
  next
    case (invalid len)
    note next_event_invalid_append [OF invalid(1-3), of extra]
    with invalid(4) 1(2) show ?thesis
      by (auto simp: dispatch_frames.simps [of pending] dispatch_frames.simps [of "pending @ extra"])
  next
    case (partial len)
    then have "length pending < framer_maximum"
      by (simp add: word_le_nat_alt framer_maximum_def)
    moreover from partial 1(2) have "evs = []" "r = Inr pending"
      by (simp_all add: dispatch_frames.simps [of pending])
    ultimately show ?thesis by (simp split: option.split prod.split)
  next
    case (complete len ev)
    let ?rest = "drop (unat len) pending"
    note n = next_event_complete_append [OF complete(10), of extra]
    obtain evs2 where d: "dispatch_frames ?rest = Some (evs2, r)" "evs = ev # evs2"
      using 1(2) complete(10) by (auto simp: dispatch_frames.simps [of pending] split: Option.bind_splits)
    have ih: "(case r of Inl e \<Rightarrow> dispatch_frames (?rest @ extra) = Some (evs2, Inl e)
      | Inr rest \<Rightarrow> length rest < framer_maximum \<and> length rest \<le> length ?rest
        \<and> dispatch_frames (?rest @ extra) =
          (case dispatch_frames (rest @ extra) of None \<Rightarrow> None | Some (evs', r') \<Rightarrow> Some (evs2 @ evs', r')))"
      by (rule 1(1) [OF complete(10) refl refl refl d(1)])
    show ?thesis using ih d(2) n
      by (auto simp: dispatch_frames.simps [of "pending @ extra"] split: sum.splits option.splits)
  qed
qed

lemma dispatch_total: "dispatch_frames pending \<noteq> None"
proof (induction pending rule: dispatch_frames.induct)
  case (1 pending)
  show ?case
  proof (cases pending rule: next_event_cases)
    case (complete len ev)
    with 1 [OF complete(10) refl refl refl] show ?thesis
      by (auto simp: dispatch_frames.simps [of pending])
  qed (simp_all add: dispatch_frames.simps [of pending])
qed

lemma dispatch_result:
  obtains evs e where "dispatch_frames pending = Some (evs, Inl e)"
  | evs rest where "dispatch_frames pending = Some (evs, Inr rest)" "length rest < framer_maximum"
      "length rest \<le> length pending"
proof -
  obtain evs r where d: "dispatch_frames pending = Some (evs, r)" using dispatch_total [of pending] by auto
  show ?thesis
  proof (cases r)
    case (Inl e)
    with d show ?thesis by (simp add: that(1))
  next
    case (Inr rest)
    with d dispatch_append [OF d] show ?thesis by (simp add: that(2))
  qed
qed

lemma feed_ok:
  assumes "length pending \<le> framer_maximum" "length bytes \<le> framer_maximum"
  shows "feed pending bytes = Inr (pending @ bytes)"
proof -
  have "2 * of_nat framer_maximum - of_nat (length pending) = (of_nat (2 * framer_maximum - length pending) :: u64)"
    using assms(1) by (simp add: of_nat_diff)
  moreover have "unat (of_nat (2 * framer_maximum - length pending) :: u64) = 2 * framer_maximum - length pending"
    by (simp add: unat_of_nat take_bit_nat_eq_self framer_maximum_def)
  moreover have "unat (of_nat (length bytes) :: u64) = length bytes"
    using assms(2) by (simp add: unat_of_nat take_bit_nat_eq_self framer_maximum_def)
  ultimately have "\<not> 2 * of_nat framer_maximum - of_nat (length pending) < (of_nat (length bytes) :: u64)"
    using assms by (simp add: word_less_nat_alt)
  then show ?thesis by (simp add: feed_def)
qed

lemma receive_dispatch:
  assumes "list_all (\<lambda>v. length v \<le> framer_maximum) views" "length pending < framer_maximum"
    "dispatch_frames pending = Some ([], Inr pending)"
  shows "receive pending views = dispatch_frames (pending @ concat views)"
  using assms
proof (induction views arbitrary: pending)
  case Nil
  then show ?case by simp
next
  case (Cons v vs)
  have f: "feed pending v = Inr (pending @ v)" using Cons.prems by (intro feed_ok) auto
  show ?case
  proof (cases "pending @ v" rule: dispatch_result)
    case (1 evs e)
    with dispatch_append [OF 1, of "concat vs"] show ?thesis by (simp add: f)
  next
    case (2 evs rest)
    have r: "dispatch_frames rest = Some ([], Inr rest)"
    proof (cases rest rule: dispatch_result)
      case (1 evs' e)
      with dispatch_append [OF 2(1), of "[]"] 2(1) show ?thesis by simp
    next
      case (2 evs' rest')
      with dispatch_append [OF \<open>dispatch_frames (pending @ v) = _\<close>, of "[]"] \<open>dispatch_frames (pending @ v) = _\<close>
      show ?thesis by simp
    qed
    have "receive rest vs = dispatch_frames (rest @ concat vs)"
      using Cons.prems 2(2) r by (intro Cons.IH) auto
    with dispatch_append [OF 2(1), of "concat vs"] 2(1) show ?thesis
      by (auto simp: f split: option.split)
  qed
qed

text \<open>The frame the reader sends for an event.\<close>

definition be32_bytes :: "u32 \<Rightarrow> u8 list" where
  "be32_bytes w = [ucast (drop_bit 24 w), ucast (drop_bit 16 w), ucast (drop_bit 8 w), ucast w]"

definition encode_event :: "WireEvent \<Rightarrow> u8 list" where
  "encode_event ev = be32_bytes (we_code ev) @ be32_bytes (we_length ev) @ be32_bytes (we_result ev) @ we_body ev"

definition event_ok :: "WireEvent \<Rightarrow> bool" where
  "event_ok ev \<longleftrightarrow> length (we_body ev) + 12 \<le> framer_maximum \<and> we_length ev = of_nat (length (we_body ev) + 12)"

lemma be32_parts:
  "push_bit 24 (ucast (ucast (drop_bit 24 w) :: u8)) OR push_bit 16 (ucast (ucast (drop_bit 16 w) :: u8))
   OR push_bit 8 (ucast (ucast (drop_bit 8 w) :: u8)) OR ucast (ucast w :: u8) = (w :: u32)"
proof (rule bit_word_eqI)
  fix n assume "n < LENGTH(32)"
  then consider "n < 8" | "8 \<le> n" "n < 16" | "16 \<le> n" "n < 24" | "24 \<le> n" "n < 32" by fastforce
  then show "bit (push_bit 24 (ucast (ucast (drop_bit 24 w) :: u8)) OR push_bit 16 (ucast (ucast (drop_bit 16 w) :: u8))
     OR push_bit 8 (ucast (ucast (drop_bit 8 w) :: u8)) OR ucast (ucast w :: u8) :: u32) n = bit w n"
    by cases (auto simp: bit_simps)
qed

lemma be32_be32_bytes:
  "i = length pre \<Longrightarrow> be32 (pre @ be32_bytes w @ post) i = Some w"
  using be32_parts [of w] by (simp add: be32_def be32_bytes_def rd_def nth_append)

lemma next_event_encoded:
  assumes "event_ok ev"
  shows "next_event (encode_event ev @ rest) = Some (Inr (Some ev, rest))"
proof -
  let ?p = "encode_event ev @ rest" and ?n = "length (we_body ev)"
  have "unat (of_nat m :: u32) = m" if "m \<le> framer_maximum" for m
    using that by (simp add: unat_of_nat take_bit_nat_eq_self framer_maximum_def)
  with assms have l: "unat (we_length ev) = ?n + 12" "?n + 12 \<le> framer_maximum"
    unfolding event_ok_def by metis+
  have w: "\<not> we_length ev < 12" "\<not> of_nat framer_maximum < we_length ev"
    using l by (auto simp: word_less_nat_alt framer_maximum_def)
  have eta: "\<lparr>we_code = we_code ev, we_length = we_length ev, we_result = we_result ev, we_body = we_body ev\<rparr> = ev"
    by (cases ev) simp
  have b: "length (be32_bytes w) = 4" for w by (simp add: be32_bytes_def)
  have r: "be32 ?p 0 = Some (we_code ev)" "be32 ?p 4 = Some (we_length ev)" "be32 ?p 8 = Some (we_result ev)"
    using be32_be32_bytes [of 0 "[]" "we_code ev" "be32_bytes (we_length ev) @ be32_bytes (we_result ev) @ we_body ev @ rest"]
      be32_be32_bytes [of 4 "be32_bytes (we_code ev)" "we_length ev" "be32_bytes (we_result ev) @ we_body ev @ rest"]
      be32_be32_bytes [of 8 "be32_bytes (we_code ev) @ be32_bytes (we_length ev)" "we_result ev" "we_body ev @ rest"]
    by (simp_all add: encode_event_def b)
  have e: "length (encode_event ev) = ?n + 12" "drop 12 ?p = we_body ev @ rest"
      "drop 12 (encode_event ev) = we_body ev"
    by (simp_all add: encode_event_def b)
  show ?thesis
    using w eta by (simp add: next_event_def r e l rd_bytes_def)
qed

lemma dispatch_encoded:
  assumes "list_all event_ok evs" "length rest < 12"
  shows "dispatch_frames (concat (map encode_event evs) @ rest) = Some (evs, Inr rest)"
  using assms(1)
proof (induction evs)
  case Nil
  then show ?case using assms(2) by (simp add: dispatch_frames.simps [of rest] next_event_def)
next
  case (Cons ev evs)
  then show ?case
    using next_event_encoded [of ev "concat (map encode_event evs) @ rest"]
    by (simp add: dispatch_frames.simps [of "encode_event ev @ _"])
qed

text \<open>(C25) The events a session sees do not depend on how the transport cuts the byte
  stream: feeding any buffers of at most 64 KiB one after the other and dispatching after each gives
  exactly what dispatching the whole stream gives, a malformed frame included; the framer never reads
  outside its buffer, always returns, never refuses a buffer, and keeps less than one maximal frame.\<close>

theorem framer_chunking:
  assumes "list_all (\<lambda>v. length v \<le> framer_maximum) views"
  shows "receive [] views = dispatch_frames (concat views)
     \<and> (case receive [] views of None \<Rightarrow> False
        | Some (evs, Inl e) \<Rightarrow> e = ''invalid FPC frame length''
        | Some (evs, Inr rest) \<Rightarrow> length rest < framer_maximum)"
proof -
  have e: "e = ''invalid FPC frame length''" if "dispatch_frames p = Some (evs, Inl e)" for p evs e
    using that
  proof (induction p arbitrary: evs rule: dispatch_frames.induct)
    case (1 p)
    show ?case
    proof (cases p rule: next_event_cases)
      case (complete len ev)
      with 1(2) obtain evs' where "dispatch_frames (drop (unat len) p) = Some (evs', Inl e)"
        by (auto simp: dispatch_frames.simps [of p] split: Option.bind_splits)
      with 1(1) [OF complete(10) refl refl refl] show ?thesis by blast
    qed (use 1(2) in \<open>auto simp: dispatch_frames.simps [of p]\<close>)
  qed
  have r: "receive [] views = dispatch_frames (concat views)"
    using receive_dispatch [OF assms, of "[]"]
    by (simp add: framer_maximum_def dispatch_frames.simps [of "[]"] next_event_def)
  show ?thesis
    by (cases "concat views" rule: dispatch_result) (auto simp: r dest: e)
qed

theorem framer_chunking_witness:
  "receive [] [[0, 0, 0, 7, 0, 0], [0, 12], [0, 0, 0, 0, 0, 0, 0, 1, 0, 0, 0, 11, 0], [0, 0, 0, 9]]
   = dispatch_frames (concat [[0, 0, 0, 7, 0, 0], [0, 12], [0, 0, 0, 0, 0, 0, 0, 1, 0, 0, 0, 11, 0], [0, 0, 0, 9]])"
  using framer_chunking [of "[[0, 0, 0, 7, 0, 0], [0, 12], [0, 0, 0, 0, 0, 0, 0, 1, 0, 0, 0, 11, 0], [0, 0, 0, 9]]"]
  by (simp add: framer_maximum_def)

text \<open>Every event survives the wire: whatever buffers the transport delivers, if together
  they are the frames of some events of at most 64 KiB, possibly followed by an unfinished header,
  then the session sees exactly these events, in order, and keeps exactly the unfinished bytes.\<close>

theorem event_stream_roundtrip:
  assumes "list_all event_ok evs" "length rest < 12" "list_all (\<lambda>v. length v \<le> framer_maximum) views"
    "concat views = concat (map encode_event evs) @ rest"
  shows "receive [] views = Some (evs, Inr rest)"
  using receive_dispatch [OF assms(3), of "[]"] dispatch_encoded [OF assms(1,2)] assms(4)
  by (simp add: framer_maximum_def dispatch_frames.simps [of "[]"] next_event_def)

theorem event_stream_roundtrip_witness:
  "receive [] [[0, 0, 0, 8, 0, 0, 0, 14, 0], [0, 0, 0, 5, 6, 0, 0], [0, 6]]
   = Some ([\<lparr>we_code = 8, we_length = 14, we_result = 0, we_body = [5, 6]\<rparr>], Inr [0, 0, 0, 6])"
  by (rule event_stream_roundtrip)
    (simp_all add: event_ok_def encode_event_def be32_bytes_def framer_maximum_def)

subsection \<open>Event buffers\<close>

text \<open>\<^verbatim>\<open>frame_event\<close> copies the body into buffers of \<open>cap\<close> bytes. With a capacity of 0 its loop
  would not end.\<close>

partial_function (option) split_body :: "nat \<Rightarrow> u8 list \<Rightarrow> u8 list list option" where
  "split_body cap body =
     (if body = [] then Some []
      else do { bufs \<leftarrow> split_body cap (drop (min cap (length body)) body);
                Some (take (min cap (length body)) body # bufs) })"

record FPCEvent =
  ev_code :: u32
  ev_unknown :: u32
  ev_buffers :: "u8 list list"

definition frame_event :: "nat \<Rightarrow> WireEvent \<Rightarrow> FPCEvent option" where
  "frame_event cap frame =
     do { bufs \<leftarrow> split_body cap (we_body frame);
          Some \<lparr>ev_code = we_code frame, ev_unknown = we_result frame, ev_buffers = bufs\<rparr> }"

text \<open>\<^verbatim>\<open>WorkerControl::event_bytes\<close> puts the buffers together again.\<close>

fun join_buffers :: "u8 list \<Rightarrow> u8 list list \<Rightarrow> exn + u8 list" where
  "join_buffers bytes [] = Inr bytes"
| "join_buffers bytes (view # views) =
     (if 20000 - of_nat (length bytes) < (of_nat (length view) :: u64) then Inl ''oversized FPC event''
      else join_buffers (bytes @ view) views)"

definition event_bytes :: "FPCEvent \<Rightarrow> exn + u8 list" where
  "event_bytes event = join_buffers [] (ev_buffers event)"

lemma split_body_total:
  assumes "0 < cap"
  shows "\<exists>bufs. split_body cap body = Some bufs \<and> concat bufs = body
    \<and> list_all (\<lambda>b. b \<noteq> [] \<and> length b \<le> cap) bufs"
proof (induction body rule: length_induct)
  case (1 body)
  show ?case
  proof (cases "body = []")
    case True
    then show ?thesis by (subst split_body.simps) simp
  next
    case False
    let ?n = "min cap (length body)"
    have "length (drop ?n body) < length body" using False assms by simp
    with 1 obtain bufs where "split_body cap (drop ?n body) = Some bufs" "concat bufs = drop ?n body"
      "list_all (\<lambda>b. b \<noteq> [] \<and> length b \<le> cap) bufs" by blast
    then show ?thesis using False assms by (subst split_body.simps) simp
  qed
qed

lemma join_buffers_concat:
  assumes "length bytes \<le> 20000" "list_all (\<lambda>b. length b \<le> 65536) bufs"
  shows "join_buffers bytes bufs =
    (if length bytes + length (concat bufs) \<le> 20000 then Inr (bytes @ concat bufs) else Inl ''oversized FPC event'')"
  using assms
proof (induction bufs arbitrary: bytes)
  case Nil
  then show ?case by simp
next
  case (Cons b bufs)
  have d: "(20000 - of_nat (length bytes) :: u64) = of_nat (20000 - length bytes)"
    using Cons.prems(1) by (simp add: of_nat_diff)
  have u: "unat (of_nat n :: u64) = n" if "n \<le> 65536" for n
    using that by (simp add: unat_of_nat take_bit_nat_eq_self)
  have b: "length b \<le> 65536" using Cons.prems(2) by simp
  have u1: "unat (of_nat (20000 - length bytes) :: u64) = 20000 - length bytes" by (rule u) simp
  have "20000 - of_nat (length bytes) < (of_nat (length b) :: u64) \<longleftrightarrow> 20000 - length bytes < length b"
    unfolding d word_less_nat_alt u1 u [OF b] by (rule refl)
  also have "\<dots> \<longleftrightarrow> 20000 < length bytes + length b" using Cons.prems(1) by linarith
  finally have "20000 - of_nat (length bytes) < (of_nat (length b) :: u64) \<longleftrightarrow> 20000 < length bytes + length b" .
  then show ?case using Cons by simp
qed

text \<open>The body of an event of at most 20000 bytes reaches the parsers unchanged: it is
  cut into non-empty buffers of at most the buffer capacity and put together again; a longer body is
  refused. The copying loop ends for every positive capacity.\<close>

theorem event_body_roundtrip:
  assumes "0 < cap" "cap \<le> 65536"
  shows "\<exists>event. frame_event cap frame = Some event \<and> ev_code event = we_code frame
     \<and> ev_unknown event = we_result frame
     \<and> event_bytes event = (if length (we_body frame) \<le> 20000 then Inr (we_body frame) else Inl ''oversized FPC event'')"
proof -
  obtain bufs where b: "split_body cap (we_body frame) = Some bufs" "concat bufs = we_body frame"
      "list_all (\<lambda>b. b \<noteq> [] \<and> length b \<le> cap) bufs"
    using split_body_total [OF assms(1)] by blast
  from b(3) have "list_all (\<lambda>b. length b \<le> 65536) bufs"
    using assms(2) by (auto simp: list_all_iff)
  with b join_buffers_concat [of "[]" bufs] show ?thesis
    by (simp add: frame_event_def event_bytes_def)
qed

theorem event_body_roundtrip_witness:
  "\<exists>event. frame_event 4096 \<lparr>we_code = 4, we_length = 5012, we_result = 0, we_body = replicate 5000 7\<rparr> = Some event
     \<and> event_bytes event = Inr (replicate 5000 7)"
  using event_body_roundtrip [of 4096 "\<lparr>we_code = 4, we_length = 5012, we_result = 0, we_body = replicate 5000 7\<rparr>"]
  by auto

text \<open>\<^verbatim>\<open>USBInput::dispatch_frames\<close>: nested TLS records (event code 5) are written buffer by buffer
  to the TLS server, all other events are queued.\<close>

datatype usb_output = Queued FPCEvent | Tls_write "u8 list"

function usb_dispatch :: "nat \<Rightarrow> u8 list \<Rightarrow> (usb_output list \<times> (exn + u8 list)) option" where
  "usb_dispatch cap pending =
     (case next_event pending of
        None \<Rightarrow> None
      | Some (Inl e) \<Rightarrow> Some ([], Inl e)
      | Some (Inr (None, rest)) \<Rightarrow> Some ([], Inr rest)
      | Some (Inr (Some frame, rest)) \<Rightarrow>
          do { event \<leftarrow> frame_event cap frame;
               r \<leftarrow> usb_dispatch cap rest;
               Some ((if ev_code event = 5 then map Tls_write (ev_buffers event) else [Queued event]) @ fst r, snd r) })"
  by pat_completeness auto

termination
  by (relation "measure (length o snd)") (auto dest: next_event_shrinks)

declare usb_dispatch.simps [simp del]

fun tls_bytes :: "usb_output list \<Rightarrow> u8 list" where
  "tls_bytes [] = []"
| "tls_bytes (Queued _ # out) = tls_bytes out"
| "tls_bytes (Tls_write b # out) = b @ tls_bytes out"

fun queued :: "usb_output list \<Rightarrow> FPCEvent list" where
  "queued [] = []"
| "queued (Queued e # out) = e # queued out"
| "queued (Tls_write _ # out) = queued out"

lemma tls_bytes_append [simp]: "tls_bytes (a @ b) = tls_bytes a @ tls_bytes b"
  by (induction a rule: tls_bytes.induct) auto

lemma queued_append [simp]: "queued (a @ b) = queued a @ queued b"
  by (induction a rule: queued.induct) auto

lemma tls_bytes_writes [simp]: "tls_bytes (map Tls_write bufs) = concat bufs" "queued (map Tls_write bufs) = []"
  by (induction bufs) auto

text \<open>The input task demultiplexes the stream without loss: from any pending bytes it
  finds the events the framer finds, writes the bodies of the nested TLS records to the TLS server as
  one contiguous byte stream, queues the other events in order, and keeps the same rest or error.\<close>

theorem usb_dispatch_demultiplexes:
  assumes "0 < cap"
  shows "\<exists>out evs r. usb_dispatch cap pending = Some (out, r) \<and> dispatch_frames pending = Some (evs, r)
     \<and> tls_bytes out = concat (map we_body (filter (\<lambda>ev. we_code ev = 5) evs))
     \<and> map (\<lambda>e. (ev_code e, ev_unknown e, concat (ev_buffers e))) (queued out)
       = map (\<lambda>ev. (we_code ev, we_result ev, we_body ev)) (filter (\<lambda>ev. we_code ev \<noteq> 5) evs)"
proof (induction pending rule: dispatch_frames.induct)
  case (1 pending)
  show ?case
  proof (cases pending rule: next_event_cases)
    case (complete len ev)
    obtain out evs r where ih: "usb_dispatch cap (drop (unat len) pending) = Some (out, r)"
        "dispatch_frames (drop (unat len) pending) = Some (evs, r)"
        "tls_bytes out = concat (map we_body (filter (\<lambda>ev. we_code ev = 5) evs))"
        "map (\<lambda>e. (ev_code e, ev_unknown e, concat (ev_buffers e))) (queued out)
         = map (\<lambda>ev. (we_code ev, we_result ev, we_body ev)) (filter (\<lambda>ev. we_code ev \<noteq> 5) evs)"
      using 1 [OF complete(10) refl refl refl] by blast
    obtain bufs where b: "split_body cap (we_body ev) = Some bufs" "concat bufs = we_body ev"
      using split_body_total [OF assms] by blast
    show ?thesis
      using complete(10) ih b
      by (simp add: usb_dispatch.simps [of cap pending] dispatch_frames.simps [of pending] frame_event_def)
  qed (simp_all add: usb_dispatch.simps [of cap pending] dispatch_frames.simps [of pending])
qed

theorem usb_dispatch_demultiplexes_witness:
  "\<exists>out evs r. usb_dispatch 4096 [0, 0, 0, 5, 0, 0, 0, 13, 0, 0, 0, 0, 9, 1] = Some (out, r)
     \<and> dispatch_frames [0, 0, 0, 5, 0, 0, 0, 13, 0, 0, 0, 0, 9, 1] = Some (evs, r)
     \<and> tls_bytes out = concat (map we_body (filter (\<lambda>ev. we_code ev = 5) evs))"
  using usb_dispatch_demultiplexes [of 4096 "[0, 0, 0, 5, 0, 0, 0, 13, 0, 0, 0, 0, 9, 1]"] by auto

subsection \<open>Reports of the reader\<close>

text \<open>The list of defective pixels (\<^verbatim>\<open>ev_dead_pixel_report\<close>); \<open>Inl ()\<close> is
  \<^verbatim>\<open>LIBUSB_ERROR_IO\<close>.\<close>

fun defect_indices :: "u8 list \<Rightarrow> nat \<Rightarrow> nat \<Rightarrow> (unit + u16 list) option" where
  "defect_indices bytes i 0 = Some (Inr [])"
| "defect_indices bytes i (Suc n) =
     do { index \<leftarrow> rd16 bytes (4 + 2 * i);
          if 9856 \<le> index then Some (Inl ())
          else do { r \<leftarrow> defect_indices bytes (i + 1) n; Some (map_sum id ((#) index) r) } }"

definition parse_dead_pixels :: "u8 list \<Rightarrow> (unit + u16 list) option" where
  "parse_dead_pixels bytes =
     (if length bytes < 4 then Some (Inl ())
      else do { count \<leftarrow> le32 bytes 0;
                if 560 < count \<or> length bytes \<noteq> unat (4 + 2 * count) then Some (Inl ())
                else defect_indices bytes 0 (unat count) })"

text \<open>The identity of the reader (\<^verbatim>\<open>ev_init_result\<close>).\<close>

datatype init_error = Init_io | Init_not_supported

record reader_info =
  reader_identity :: u16
  hardware_id :: u16
  firmware :: "u8 list"
  optional_format :: u16

definition be16 :: "u8 list \<Rightarrow> nat \<Rightarrow> u16 option" where
  "be16 bytes offset = do { a \<leftarrow> rd bytes offset; b \<leftarrow> rd bytes (offset + 1);
                            Some (push_bit 8 (ucast a) OR ucast b) }"

definition parse_init_result :: "u8 list \<Rightarrow> u32 \<Rightarrow> (init_error + reader_info) option" where
  "parse_init_result bytes unknown =
     (if length bytes \<noteq> 24 \<and> length bytes \<noteq> 26 \<or> unknown \<noteq> 0 then Some (Inl Init_io)
      else do { identity \<leftarrow> be16 bytes 0; hw \<leftarrow> be16 bytes 2; w \<leftarrow> be16 bytes 4; h \<leftarrow> be16 bytes 6;
                if identity = 0 \<or> hw \<noteq> 0x0111 \<and> hw \<noteq> 0x0121 \<or> w \<noteq> 112 \<or> h \<noteq> 88
                then Some (Inl Init_not_supported)
                else do { fw \<leftarrow> rd_bytes bytes 8 16;
                          fmt \<leftarrow> (if length bytes = 26 then be16 bytes 24 else Some 0);
                          Some (Inr \<lparr>reader_identity = identity, hardware_id = hw, firmware = fw,
                                     optional_format = fmt\<rparr>) } })"

lemma parse_init_result_total: "parse_init_result bytes unknown \<noteq> None"
  by (auto simp: parse_init_result_def be16_def rd_def rd_bytes_def)

lemma capture_header_total: "capture_header data \<noteq> None"
  by (auto simp: capture_header_def be32_def rd_def)

lemma defect_indices_seq:
  assumes "4 + 2 * i + 2 * n \<le> length bytes"
  obtains ds where "rd_seq rd16 2 bytes (4 + 2 * i) n = Some ds"
    "defect_indices bytes i n = Some (if list_all (\<lambda>d. d < 9856) ds then Inr ds else Inl ())"
proof -
  have "\<exists>ds. rd_seq rd16 2 bytes (4 + 2 * i) n = Some ds
      \<and> defect_indices bytes i n = Some (if list_all (\<lambda>d. d < 9856) ds then Inr ds else Inl ())"
    using assms
  proof (induction n arbitrary: i)
    case 0
    then show ?case by simp
  next
    case (Suc n)
    then obtain d where d: "rd16 bytes (4 + 2 * i) = Some d"
      using half.r_total [of "4 + 2 * i" bytes] by auto
    from Suc obtain ds where "rd_seq rd16 2 bytes (4 + 2 * (i + 1)) n = Some ds"
      "defect_indices bytes (i + 1) n = Some (if list_all (\<lambda>d. d < 9856) ds then Inr ds else Inl ())"
      using Suc.IH [of "i + 1"] by auto
    with d show ?case by (auto simp: not_le [symmetric])
  qed
  then show ?thesis using that by blast
qed

lemma dead_pixel_length:
  "\<not> 560 < (count :: u32) \<Longrightarrow> unat (4 + 2 * count) = 4 + 2 * unat count"
  by (simp add: unat_word_ariths take_bit_nat_eq_self word_less_nat_alt)

lemma parse_dead_pixels_cases:
  obtains (refused) "parse_dead_pixels bytes = Some (Inl ())"
    "length bytes < 4 \<or> (\<exists>count. le32 bytes 0 = Some count \<and> (560 < unat count \<or> length bytes \<noteq> 4 + 2 * unat count))"
  | (read) count ds where "le32 bytes 0 = Some count" "unat count \<le> 560" "length bytes = 4 + 2 * unat count"
    "rd_seq rd16 2 bytes 4 (unat count) = Some ds"
    "parse_dead_pixels bytes = Some (if list_all (\<lambda>d. d < 9856) ds then Inr ds else Inl ())"
proof (cases "length bytes < 4")
  case True
  then show ?thesis by (intro refused) (simp_all add: parse_dead_pixels_def)
next
  case False
  then obtain count where c: "le32 bytes 0 = Some count" using word.r_total [of 0 bytes] by auto
  show ?thesis
  proof (cases "560 < count")
    case True
    then show ?thesis using False c by (intro refused) (auto simp: parse_dead_pixels_def word_less_nat_alt)
  next
    case small: False
    note n = dead_pixel_length [OF small]
    show ?thesis
    proof (cases "length bytes = 4 + 2 * unat count")
      case True
      then obtain ds where ds: "rd_seq rd16 2 bytes 4 (unat count) = Some ds"
          "defect_indices bytes 0 (unat count) = Some (if list_all (\<lambda>d. d < 9856) ds then Inr ds else Inl ())"
        using defect_indices_seq [of 0 "unat count" bytes] by auto
      show ?thesis
      proof (rule read [OF c _ True ds(1)])
        show "unat count \<le> 560" using small by (simp add: word_less_nat_alt)
        show "parse_dead_pixels bytes = Some (if list_all (\<lambda>d. d < 9856) ds then Inr ds else Inl ())"
          using False small c ds(2) True n by (simp add: parse_dead_pixels_def)
      qed
    next
      case other: False
      show ?thesis
      proof (rule refused)
        show "parse_dead_pixels bytes = Some (Inl ())"
          using False small c other n by (simp add: parse_dead_pixels_def)
      qed (use c other in blast)
    qed
  qed
qed

text \<open>The report of defective pixels is parsed exactly: the parser never reads outside the
  report, and accepts precisely the byte strings that are a count of at most 560 followed by that many
  pixel indices below 9856, returning those indices.\<close>

theorem dead_pixel_report_exact:
  "parse_dead_pixels bytes \<noteq> None
   \<and> (parse_dead_pixels bytes = Some (Inr ds) \<longleftrightarrow>
       bytes = store_le32 (of_nat (length ds)) @ concat (map st16 ds)
       \<and> length ds \<le> 560 \<and> list_all (\<lambda>d. d < 9856) ds)"
proof
  show "parse_dead_pixels bytes \<noteq> None" by (cases bytes rule: parse_dead_pixels_cases) auto
  show "parse_dead_pixels bytes = Some (Inr ds) \<longleftrightarrow>
       bytes = store_le32 (of_nat (length ds)) @ concat (map st16 ds)
       \<and> length ds \<le> 560 \<and> list_all (\<lambda>d. d < 9856) ds" (is "_ \<longleftrightarrow> ?encoded")
  proof
    assume p: "parse_dead_pixels bytes = Some (Inr ds)"
    show ?encoded
    proof (cases bytes rule: parse_dead_pixels_cases)
      case (read count ds')
      with p have ds: "ds' = ds" "list_all (\<lambda>d. d < 9856) ds" by (auto split: if_splits)
      then have l: "length ds = unat count" using half.seq_length [OF read(4)] by simp
      have "bytes = take 4 bytes @ take (2 * unat count) (drop 4 bytes)"
        using read(3) by simp
      also have "take 4 bytes = store_le32 (of_nat (length ds))"
        using word.s_r [OF read(1)] l by simp
      also have "take (2 * unat count) (drop 4 bytes) = concat (map st16 ds)"
        using half.seq_inverse [OF read(4)] ds by simp
      finally show ?encoded using l read(2) ds by simp
    qed (use p in simp)
  next
    assume e: ?encoded
    let ?c = "of_nat (length ds) :: u32"
    have u: "unat ?c = length ds"
      using e by (simp add: unat_of_nat take_bit_nat_eq_self)
    have c: "le32 bytes 0 = Some ?c" using e word.r_append [of 0 "[]" ?c] by simp
    have s: "rd_seq rd16 2 bytes 4 (length ds) = Some ds"
      using e half.seq_append [of 4 "store_le32 ?c" "length ds" ds "[]"] by simp
    have l: "length bytes = 4 + 2 * length ds"
      using e half.length_concat [of ds] by simp
    show "parse_dead_pixels bytes = Some (Inr ds)"
    proof (cases bytes rule: parse_dead_pixels_cases)
      case refused
      then show ?thesis using c u l e by auto
    next
      case (read count ds')
      with c s u have "ds' = ds" by simp
      with read(5) e show ?thesis by simp
    qed
  qed
qed

subsection \<open>The wrapped TLS key\<close>

text \<open>The characters of a C string constant with its terminating zero.\<close>

definition c_bytes :: "string \<Rightarrow> u8 list" where
  "c_bytes s = map (\<lambda>c. of_nat (of_char c)) s @ [0]"

text \<open>\<^verbatim>\<open>crypto::verify_tls_key\<close>: the HMAC of the associated data followed by the key bytes.\<close>

definition verify_tls_key ::
    "(u8 list \<Rightarrow> u8 list) \<Rightarrow> (u8 list \<Rightarrow> u8 list \<Rightarrow> u8 list) \<Rightarrow> u8 list \<Rightarrow> u8 list \<Rightarrow> u8 list \<Rightarrow> bool" where
  "verify_tls_key sha hmac aad key output =
     (let sig = hmac (sha (c_bytes ''FPC_HMAC_KEY'')) (aad @ key)
      in length sig = 32 \<and> length output = 32 \<and> sig = output)"

text \<open>\<^verbatim>\<open>fpc::unwrap_tls_key\<close>; \<open>Some None\<close> is its result \<^verbatim>\<open>false\<close>. \<open>cbc\<close> is the
  AES decryption with the padding removed, \<open>None\<close> when OpenSSL reports an error.\<close>

definition inside :: "nat \<Rightarrow> u32 \<Rightarrow> nat \<Rightarrow> bool" where
  "inside len offset n \<longleftrightarrow> 28 \<le> offset \<and> unat offset \<le> len \<and> n \<le> len - unat offset"

definition unwrap_tls_key ::
    "(u8 list \<Rightarrow> u8 list) \<Rightarrow> (u8 list \<Rightarrow> u8 list \<Rightarrow> u8 list) \<Rightarrow> (u8 list \<Rightarrow> u8 list \<Rightarrow> u8 list option)
      \<Rightarrow> u8 list \<Rightarrow> u8 list option option" where
  "unwrap_tls_key sha hmac cbc packet =
     (if length packet < 28 then Some None
      else do { key_offset \<leftarrow> le32 packet 4; key_length \<leftarrow> le32 packet 8;
                aad_offset \<leftarrow> le32 packet 12; aad_length \<leftarrow> le32 packet 16;
                sig_offset \<leftarrow> le32 packet 20; sig_length \<leftarrow> le32 packet 24;
                magic \<leftarrow> le32 packet 0;
        if magic \<noteq> 0x0dec0ded \<or> key_length \<noteq> 32 \<or> aad_length \<noteq> 13 \<or> sig_length \<noteq> 32
           \<or> \<not> inside (length packet) key_offset 48 \<or> \<not> inside (length packet) aad_offset (unat aad_length)
           \<or> \<not> inside (length packet) sig_offset (unat sig_length) then Some None
        else do { tag \<leftarrow> rd_bytes packet (unat aad_offset) 13;
          if tag \<noteq> c_bytes ''FPC TLS Keys'' then Some None
          else do { aad \<leftarrow> rd_bytes packet (unat aad_offset) (unat aad_length);
                    key \<leftarrow> rd_bytes packet (unat key_offset) (unat key_length);
                    sig \<leftarrow> rd_bytes packet (unat sig_offset) (unat sig_length);
            if \<not> verify_tls_key sha hmac aad key sig then Some None
            else do { sealed \<leftarrow> rd_bytes packet (unat key_offset) 48;
              case cbc (sha (c_bytes ''FPC_SEALING_KEY'')) sealed of
                None \<Rightarrow> Some None
              | Some plain \<Rightarrow> Some (if length plain = 32 then Some plain else None) } } } })"

lemma unwrap_tls_key_spec:
  "case unwrap_tls_key sha hmac cbc packet of
     None \<Rightarrow> False
   | Some None \<Rightarrow> True
   | Some (Some output) \<Rightarrow>
       (\<exists>sealed sig key_offset aad_offset sig_offset.
          le32 packet 0 = Some 0x0dec0ded
          \<and> le32 packet 4 = Some key_offset \<and> le32 packet 12 = Some aad_offset \<and> le32 packet 20 = Some sig_offset
          \<and> rd_bytes packet (unat key_offset) 48 = Some sealed
          \<and> rd_bytes packet (unat aad_offset) 13 = Some (c_bytes ''FPC TLS Keys'')
          \<and> rd_bytes packet (unat sig_offset) 32 = Some sig
          \<and> sig = hmac (sha (c_bytes ''FPC_HMAC_KEY'')) (c_bytes ''FPC TLS Keys'' @ take 32 sealed)
          \<and> cbc (sha (c_bytes ''FPC_SEALING_KEY'')) sealed = Some output \<and> length output = 32)"
proof (cases "length packet < 28")
  case True
  then show ?thesis by (simp add: unwrap_tls_key_def)
next
  case False
  then have r: "le32 packet i \<noteq> None" if "i \<le> 24" for i using that word.r_total [of i packet] by simp
  obtain ko kl ao al so sl mg where w: "le32 packet 4 = Some ko" "le32 packet 8 = Some kl" "le32 packet 12 = Some ao"
      "le32 packet 16 = Some al" "le32 packet 20 = Some so" "le32 packet 24 = Some sl" "le32 packet 0 = Some mg"
    using r [of 4] r [of 8] r [of 12] r [of 16] r [of 20] r [of 24] r [of 0] by auto
  let ?bad = "mg \<noteq> 0x0dec0ded \<or> kl \<noteq> 32 \<or> al \<noteq> 13 \<or> sl \<noteq> 32 \<or> \<not> inside (length packet) ko 48
      \<or> \<not> inside (length packet) ao (unat al) \<or> \<not> inside (length packet) so (unat sl)"
  show ?thesis
  proof (cases ?bad)
    case True
    then have "unwrap_tls_key sha hmac cbc packet = Some None"
      unfolding unwrap_tls_key_def using False by (simp only: w if_False bind.simps if_True)
    then show ?thesis by simp
  next
    case good: False
    then have g: "mg = 0x0dec0ded" "kl = 32" "al = 13" "sl = 32" "inside (length packet) ko 48"
      "inside (length packet) ao 13" "inside (length packet) so 32" by auto
    have "rd_bytes packet (unat ko) 32 = Some (take 32 (drop (unat ko) packet))"
      "rd_bytes packet (unat ko) 48 = Some (take 48 (drop (unat ko) packet))"
      "rd_bytes packet (unat ao) 13 = Some (take 13 (drop (unat ao) packet))"
      "rd_bytes packet (unat so) 32 = Some (take 32 (drop (unat so) packet))"
      using g(5-7) unfolding inside_def rd_bytes_def by (auto intro!: if_P)
    then obtain sealed key aad sig where p: "rd_bytes packet (unat ko) 48 = Some sealed" "rd_bytes packet (unat ko) 32 = Some key"
        "rd_bytes packet (unat ao) 13 = Some aad" "rd_bytes packet (unat so) 32 = Some sig"
        "key = take 32 sealed"
      by (simp add: min_def)
    have u: "unwrap_tls_key sha hmac cbc packet =
        (if aad \<noteq> c_bytes ''FPC TLS Keys'' then Some None
         else if \<not> verify_tls_key sha hmac aad key sig then Some None
         else case cbc (sha (c_bytes ''FPC_SEALING_KEY'')) sealed of
                None \<Rightarrow> Some None | Some plain \<Rightarrow> Some (if length plain = 32 then Some plain else None))"
      unfolding unwrap_tls_key_def using False good by (simp add: w g p cong: if_cong)
    show ?thesis
      unfolding u using w g p
      by (auto simp: verify_tls_key_def Let_def split: option.split)
  qed
qed

lemma unwrap_total: "unwrap_tls_key sha hmac cbc packet \<noteq> None"
proof
  assume "unwrap_tls_key sha hmac cbc packet = None"
  with unwrap_tls_key_spec [where ?sha = sha and ?hmac = hmac and ?cbc = cbc and ?packet = packet]
  show False by (simp only: option.case)
qed

text \<open>(C26) Unwrapping the TLS key is memory safe and authenticated: for every packet the reader
  can send, no byte outside the packet is read, and a key comes out only of a packet that declares the
  fixed lengths, keeps its three fields inside the packet, carries the expected label and whose first
  32 sealed bytes have the HMAC in the packet; the key then is the 32-byte decryption of the 48 sealed
  bytes.\<close>

theorem unwrap_tls_key_authenticated:
  "case unwrap_tls_key sha hmac cbc packet of
     None \<Rightarrow> False
   | Some None \<Rightarrow> True
   | Some (Some output) \<Rightarrow>
       (\<exists>sealed sig key_offset aad_offset sig_offset.
          le32 packet 0 = Some 0x0dec0ded
          \<and> le32 packet 4 = Some key_offset \<and> le32 packet 12 = Some aad_offset \<and> le32 packet 20 = Some sig_offset
          \<and> rd_bytes packet (unat key_offset) 48 = Some sealed
          \<and> rd_bytes packet (unat aad_offset) 13 = Some (c_bytes ''FPC TLS Keys'')
          \<and> rd_bytes packet (unat sig_offset) 32 = Some sig
          \<and> sig = hmac (sha (c_bytes ''FPC_HMAC_KEY'')) (c_bytes ''FPC TLS Keys'' @ take 32 sealed)
          \<and> cbc (sha (c_bytes ''FPC_SEALING_KEY'')) sealed = Some output \<and> length output = 32)"
  by (rule unwrap_tls_key_spec)

end
