(* ===== verification/UsbTransfer.thy ===== *)
theory UsbTransfer
  imports Prelude "HOL-Library.AList"
begin

text \<open>
  Transfers and device handles (\<^verbatim>\<open>usb_transfer.hpp\<close>). A handle or a transfer is its 64-bit
  address, 0 the null pointer. The state holds the table \<^verbatim>\<open>pending_usb_handles\<close> (an association
  list, in the order in which the table is walked), the \<^verbatim>\<open>USBTransfer\<close> objects, and what libusb
  knows: the open handles, the allocated transfers and those in flight. An operation of libusb is
  undefined (\<open>None\<close>) where its documentation forbids the call: closing a handle that is not open or
  has a transfer in flight, freeing a transfer that is not allocated or in flight, submitting one
  that is in flight or whose handle is closed, cancelling one that is not in flight.
\<close>

subsection \<open>State\<close>

record USBPendingHandle =
  transfers :: nat
  closing :: bool
  interface_number :: int

record USBTransfer =
  ut_transfer :: u64
  ut_pending :: bool

record libusb_transfer =
  dev_handle :: u64
  user_data :: "nat option"

record usb_state =
  pending_usb_handles :: "(u64 \<times> USBPendingHandle) list"
  usb_object :: "nat \<Rightarrow> USBTransfer"
  allocated :: "u64 \<Rightarrow> libusb_transfer option"
  in_flight :: "u64 list"
  opened :: "u64 list"
  released_interfaces :: "(u64 \<times> int) list"

definition usb_initial :: usb_state where
  "usb_initial = \<lparr>pending_usb_handles = [], usb_object = (\<lambda>_. \<lparr>ut_transfer = 0, ut_pending = False\<rparr>),
     allocated = (\<lambda>_. None), in_flight = [], opened = [], released_interfaces = []\<rparr>"

subsection \<open>libusb\<close>

definition on_handle :: "usb_state \<Rightarrow> u64 \<Rightarrow> u64 list" where
  "on_handle s h = filter (\<lambda>t. map_option dev_handle (allocated s t) = Some h) (in_flight s)"

definition libusb_close :: "u64 \<Rightarrow> usb_state \<Rightarrow> usb_state option" where
  "libusb_close h s =
     (if h \<in> set (opened s) \<and> on_handle s h = [] then Some (s\<lparr>opened := removeAll h (opened s)\<rparr>) else None)"

definition libusb_release_interface :: "u64 \<Rightarrow> int \<Rightarrow> usb_state \<Rightarrow> usb_state option" where
  "libusb_release_interface h n s =
     (if h \<in> set (opened s) then Some (s\<lparr>released_interfaces := (h, n) # released_interfaces s\<rparr>) else None)"

definition libusb_free_transfer :: "u64 \<Rightarrow> usb_state \<Rightarrow> usb_state option" where
  "libusb_free_transfer t s =
     (if allocated s t \<noteq> None \<and> t \<notin> set (in_flight s) then Some (s\<lparr>allocated := (allocated s)(t := None)\<rparr>)
      else None)"

definition libusb_cancel_transfer :: "u64 \<Rightarrow> usb_state \<Rightarrow> usb_state option" where
  "libusb_cancel_transfer t s = (if t \<in> set (in_flight s) then Some s else None)"

text \<open>\<open>result\<close> is what libusb answers; a submission that succeeds is in flight until its callback.\<close>

definition libusb_submit_transfer :: "int \<Rightarrow> u64 \<Rightarrow> usb_state \<Rightarrow> usb_state option" where
  "libusb_submit_transfer result t s =
     (case allocated s t of
        None \<Rightarrow> None
      | Some x \<Rightarrow>
          if t \<in> set (in_flight s) \<or> dev_handle x \<notin> set (opened s) then None
          else Some (if result < 0 then s else s\<lparr>in_flight := t # in_flight s\<rparr>))"

subsection \<open>The table of handles\<close>

definition finish_usb_transfer :: "u64 \<Rightarrow> usb_state \<Rightarrow> usb_state" where
  "finish_usb_transfer h s =
     (case map_of (pending_usb_handles s) h of
        None \<Rightarrow> s
      | Some e \<Rightarrow>
          let n = (transfers e + SIZE_MAX) mod (SIZE_MAX + 1)
          in s\<lparr>pending_usb_handles :=
                (if n = 0 \<and> \<not> closing e then AList.delete h (pending_usb_handles s)
                 else AList.update h (e\<lparr>transfers := n\<rparr>) (pending_usb_handles s))\<rparr>)"

definition close_interface :: "u64 \<Rightarrow> int \<Rightarrow> usb_state \<Rightarrow> usb_state option" where
  "close_interface h n s =
     do { s \<leftarrow> (if 0 \<le> n then libusb_release_interface h n s else Some s); libusb_close h s }"

definition defer_usb_close :: "u64 \<Rightarrow> int \<Rightarrow> usb_state \<Rightarrow> usb_state option" where
  "defer_usb_close h n s =
     (if h = 0 then Some s
      else case map_of (pending_usb_handles s) h of
        None \<Rightarrow> close_interface h n s
      | Some e \<Rightarrow> Some (s\<lparr>pending_usb_handles :=
            AList.update h (e\<lparr>closing := True, interface_number := n\<rparr>) (pending_usb_handles s)\<rparr>))"

definition has_deferred_usb_closes :: "usb_state \<Rightarrow> bool" where
  "has_deferred_usb_closes s = list_ex (\<lambda>(_, e). closing e) (pending_usb_handles s)"

text \<open>The walk of \<^verbatim>\<open>drain_usb_closes\<close> over the entries not yet visited.\<close>

fun drain_entries :: "(u64 \<times> USBPendingHandle) list \<Rightarrow> usb_state \<Rightarrow> usb_state option" where
  "drain_entries [] s = Some s"
| "drain_entries ((h, e) # rest) s =
     (if \<not> closing e \<or> transfers e \<noteq> 0 then drain_entries rest s
      else do { s \<leftarrow> close_interface h (interface_number e)
                       (s\<lparr>pending_usb_handles := AList.delete h (pending_usb_handles s)\<rparr>);
                drain_entries rest s })"

definition drain_usb_closes :: "usb_state \<Rightarrow> usb_state option" where
  "drain_usb_closes s = drain_entries (pending_usb_handles s) s"

subsection \<open>Transfers\<close>

definition release_transfer :: "nat \<Rightarrow> usb_state \<Rightarrow> usb_state option" where
  "release_transfer obj s =
     (let t = ut_transfer (usb_object s obj) in
      if t = 0 then Some s
      else do { s \<leftarrow> (if ut_pending (usb_object s obj)
                        then libusb_cancel_transfer t
                          (s\<lparr>allocated := (allocated s)(t := map_option (\<lambda>x. x\<lparr>user_data := None\<rparr>) (allocated s t))\<rparr>)
                        else libusb_free_transfer t s);
                Some (s\<lparr>usb_object := (usb_object s)(obj := \<lparr>ut_transfer = 0, ut_pending = False\<rparr>)\<rparr>) })"

text \<open>
  \<^verbatim>\<open>control\<close> and \<^verbatim>\<open>bulk\<close> up to the submission: \<open>t\<close> is the transfer libusb allocates, 0 when it
  cannot, \<open>room\<close> whether the buffer could be allocated. The result tells whether the operation goes on.
\<close>

definition start_transfer :: "nat \<Rightarrow> u64 \<Rightarrow> u64 \<Rightarrow> bool \<Rightarrow> usb_state \<Rightarrow> (bool \<times> usb_state) option" where
  "start_transfer obj h t room s =
     do { s \<leftarrow> release_transfer obj s;
          if t = 0 then Some (False, s)
          else let s = s\<lparr>allocated := (allocated s)(t := Some \<lparr>dev_handle = h, user_data = Some obj\<rparr>),
                         usb_object := (usb_object s)(obj := (usb_object s obj)\<lparr>ut_transfer := t\<rparr>)\<rparr> in
          if \<not> room
          then do { s \<leftarrow> libusb_free_transfer t s;
                    Some (False, s\<lparr>usb_object := (usb_object s)(obj := (usb_object s obj)\<lparr>ut_transfer := 0\<rparr>)\<rparr>) }
          else Some (True, s) }"

datatype submit_result = Submitted | No_device | Submit_error int

definition submit :: "nat \<Rightarrow> int \<Rightarrow> usb_state \<Rightarrow> (submit_result \<times> usb_state) option" where
  "submit obj result s =
     (case allocated s (ut_transfer (usb_object s obj)) of
        None \<Rightarrow> None
      | Some x \<Rightarrow>
          let t = ut_transfer (usb_object s obj);
              h = dev_handle x;
              s = (if map_of (pending_usb_handles s) h = None
                   then s\<lparr>pending_usb_handles := AList.update h \<lparr>transfers = 0, closing = False, interface_number = - 1\<rparr>
                            (pending_usb_handles s)\<rparr> else s)
          in case map_of (pending_usb_handles s) h of
               None \<Rightarrow> None
             | Some e \<Rightarrow>
                 if closing e then Some (No_device, s)
                 else do { s \<leftarrow> libusb_submit_transfer result t s;
                   if result < 0
                   then Some (Submit_error result,
                          if transfers e = 0
                          then s\<lparr>pending_usb_handles := AList.delete h (pending_usb_handles s)\<rparr> else s)
                   else Some (Submitted,
                          s\<lparr>pending_usb_handles := AList.update h (e\<lparr>transfers := (transfers e + 1) mod (SIZE_MAX + 1)\<rparr>)
                              (pending_usb_handles s),
                            usb_object := (usb_object s)(obj := (usb_object s obj)\<lparr>ut_pending := True\<rparr>)\<rparr>) })"

text \<open>The callback \<^verbatim>\<open>resume\<close>: libusb delivers the completion of a transfer in flight.\<close>

definition resume :: "u64 \<Rightarrow> usb_state \<Rightarrow> usb_state option" where
  "resume t s =
     (case allocated s t of
        None \<Rightarrow> None
      | Some x \<Rightarrow>
          let s = finish_usb_transfer (dev_handle x) (s\<lparr>in_flight := removeAll t (in_flight s)\<rparr>)
          in case user_data x of
               None \<Rightarrow> libusb_free_transfer t s
             | Some obj \<Rightarrow>
                 Some (s\<lparr>usb_object := (usb_object s)(obj := (usb_object s obj)\<lparr>ut_pending := False\<rparr>)\<rparr>))"

text \<open>
  \<^verbatim>\<open>completed\<close>: the received bytes are copied behind the setup packet of a control transfer,
  to the start of the destination of a bulk transfer; \<open>None\<close> is a copy outside one of the buffers.
\<close>

definition completed :: "bool \<Rightarrow> nat \<Rightarrow> nat \<Rightarrow> u8 list \<Rightarrow> u8 list \<Rightarrow> (nat + nat \<times> u8 list) option" where
  "completed control status actual_length buffer destination =
     (if status \<noteq> 0 then Some (Inl status)
      else let offset = (if control then 8 else 0) in
        do { bytes \<leftarrow> rd_bytes buffer offset actual_length;
             if length destination < offset + actual_length then None
             else Some (Inr (actual_length,
               take offset destination @ bytes @ drop (offset + actual_length) destination)) })"

subsection \<open>Runs\<close>

text \<open>
  What the program, libusb and the kernel may do, in any order. \<open>usb_allowed\<close> is the contract: a
  handle libusb hands out is not open already, an allocator returns no live block, the client starts
  transfers and closes on a handle it holds, submits what it has started, and libusb completes only
  transfers in flight.
\<close>

datatype usb_op =
    Open_handle u64
  | Start nat u64 u64 bool
  | Submit nat int
  | Release nat
  | Complete u64
  | Close u64 int
  | Drain

fun usb_run :: "usb_op \<Rightarrow> usb_state \<Rightarrow> usb_state option" where
  "usb_run (Open_handle h) s = Some (s\<lparr>opened := h # opened s\<rparr>)"
| "usb_run (Start obj h t room) s = map_option snd (start_transfer obj h t room s)"
| "usb_run (Submit obj result) s = map_option snd (submit obj result s)"
| "usb_run (Release obj) s = release_transfer obj s"
| "usb_run (Complete t) s = resume t s"
| "usb_run (Close h n) s = defer_usb_close h n s"
| "usb_run Drain s = drain_usb_closes s"

fun usb_allowed :: "usb_op \<Rightarrow> usb_state \<Rightarrow> bool" where
  "usb_allowed (Open_handle h) s = (h \<noteq> 0 \<and> h \<notin> set (opened s))"
| "usb_allowed (Start obj h t room) s =
     (h \<in> set (opened s) \<and> t \<notin> set (in_flight s) \<and>
      (t = 0 \<or> allocated s t = None \<or> t = ut_transfer (usb_object s obj)))"
| "usb_allowed (Submit obj result) s =
     (ut_transfer (usb_object s obj) \<noteq> 0 \<and> \<not> ut_pending (usb_object s obj)
      \<and> (case allocated s (ut_transfer (usb_object s obj)) of None \<Rightarrow> False | Some x \<Rightarrow> dev_handle x \<in> set (opened s)))"
| "usb_allowed (Release obj) s = True"
| "usb_allowed (Complete t) s = (t \<in> set (in_flight s))"
| "usb_allowed (Close h n) s = (h = 0 \<or> h \<in> set (opened s))"
| "usb_allowed Drain s = True"

inductive usb_step :: "usb_state \<Rightarrow> usb_state \<Rightarrow> bool" where
  step: "usb_allowed op s \<Longrightarrow> usb_run op s = Some s' \<Longrightarrow> usb_step s s'"

inductive usb_reachable :: "usb_state \<Rightarrow> bool" where
  initial: "usb_reachable usb_initial"
| next_state: "usb_reachable s \<Longrightarrow> usb_step s s' \<Longrightarrow> usb_reachable s'"

inductive_cases usb_stepE: "usb_step s s'"

text \<open>A close of the handle is waiting for its transfers.\<close>

definition close_deferred :: "usb_state \<Rightarrow> u64 \<Rightarrow> bool" where
  "close_deferred s h \<longleftrightarrow> map_option closing (map_of (pending_usb_handles s) h) = Some True"

definition entry_ok :: "usb_state \<Rightarrow> u64 \<Rightarrow> bool" where
  "entry_ok s h \<longleftrightarrow>
     (case map_of (pending_usb_handles s) h of
        None \<Rightarrow> on_handle s h = []
      | Some e \<Rightarrow> h \<in> set (opened s) \<and> transfers e = length (on_handle s h) \<and> (closing e \<or> on_handle s h \<noteq> []))"

definition flight_ok :: "usb_state \<Rightarrow> bool" where
  "flight_ok s \<longleftrightarrow> distinct (in_flight s) \<and> allocated s 0 = None
     \<and> (\<forall>t \<in> set (in_flight s). \<exists>x. allocated s t = Some x \<and> dev_handle x \<in> set (opened s))"

definition owner_ok :: "usb_state \<Rightarrow> bool" where
  "owner_ok s \<longleftrightarrow>
     (\<forall>obj. if ut_transfer (usb_object s obj) = 0 then \<not> ut_pending (usb_object s obj)
       else map_option user_data (allocated s (ut_transfer (usb_object s obj))) = Some (Some obj)
         \<and> (ut_pending (usb_object s obj) \<longleftrightarrow> ut_transfer (usb_object s obj) \<in> set (in_flight s)))
     \<and> (\<forall>t x. allocated s t = Some x \<longrightarrow>
         (case user_data x of None \<Rightarrow> t \<in> set (in_flight s) | Some obj \<Rightarrow> ut_transfer (usb_object s obj) = t))"

definition usb_inv :: "usb_state \<Rightarrow> bool" where
  "usb_inv s \<longleftrightarrow> distinct (map fst (pending_usb_handles s)) \<and> (\<forall>h. entry_ok s h) \<and> flight_ok s \<and> owner_ok s"

lemma owner_okD1:
  "owner_ok s \<Longrightarrow>
   (if ut_transfer (usb_object s obj) = 0 then \<not> ut_pending (usb_object s obj)
    else map_option user_data (allocated s (ut_transfer (usb_object s obj))) = Some (Some obj)
      \<and> (ut_pending (usb_object s obj) \<longleftrightarrow> ut_transfer (usb_object s obj) \<in> set (in_flight s)))"
  by (simp add: owner_ok_def)

lemma owner_okD2:
  "owner_ok s \<Longrightarrow> allocated s t = Some x \<Longrightarrow>
   (case user_data x of None \<Rightarrow> t \<in> set (in_flight s) | Some obj \<Rightarrow> ut_transfer (usb_object s obj) = t)"
  by (simp add: owner_ok_def)

lemma usb_invI:
  "distinct (map fst (pending_usb_handles s)) \<Longrightarrow> (\<And>h. entry_ok s h) \<Longrightarrow> flight_ok s \<Longrightarrow> owner_ok s \<Longrightarrow> usb_inv s"
  by (simp add: usb_inv_def)

lemma on_handle_cong:
  "in_flight s' = in_flight s \<Longrightarrow>
   (\<And>t. t \<in> set (in_flight s) \<Longrightarrow> map_option dev_handle (allocated s' t) = map_option dev_handle (allocated s t)) \<Longrightarrow>
   on_handle s' h = on_handle s h"
  unfolding on_handle_def by (rule filter_cong) simp_all

lemma entry_ok_cong:
  "pending_usb_handles s' = pending_usb_handles s \<Longrightarrow> opened s' = opened s \<Longrightarrow>
   on_handle s' h = on_handle s h \<Longrightarrow> entry_ok s h \<Longrightarrow> entry_ok s' h"
  by (simp add: entry_ok_def split: option.splits)

lemma owner_ok_cong:
  "allocated s' = allocated s \<Longrightarrow> in_flight s' = in_flight s \<Longrightarrow> usb_object s' = usb_object s \<Longrightarrow>
   owner_ok s \<Longrightarrow> owner_ok s'"
  by (simp add: owner_ok_def cong: option.case_cong)

lemma flight_ok_cong:
  "allocated s' = allocated s \<Longrightarrow> in_flight s' = in_flight s \<Longrightarrow> opened s' = opened s \<Longrightarrow>
   flight_ok s \<Longrightarrow> flight_ok s'"
  by (simp add: flight_ok_def)

lemma in_flight_bound:
  assumes "flight_ok s"
  shows "length (in_flight s) < SIZE_MAX + 1"
proof -
  have "0 \<notin> set (in_flight s)" using assms by (auto simp: flight_ok_def)
  then have "set (in_flight s) \<subset> UNIV" by auto
  then have "card (set (in_flight s)) < card (UNIV :: u64 set)" by (intro psubset_card_mono) auto
  then show ?thesis
    using assms by (simp add: flight_ok_def distinct_card card_word SIZE_MAX_def)
qed

lemma on_handle_bound: "flight_ok s \<Longrightarrow> length (on_handle s h) < SIZE_MAX + 1"
  unfolding on_handle_def by (rule le_less_trans [OF length_filter_le in_flight_bound])

lemma usb_inv_initial: "usb_inv usb_initial"
  by (simp add: usb_inv_def entry_ok_def flight_ok_def owner_ok_def usb_initial_def on_handle_def)

lemma release_transfer_ok:
  assumes "usb_inv s"
  shows "\<exists>s'. release_transfer obj s = Some s' \<and> usb_inv s' \<and> opened s' = opened s \<and> in_flight s' = in_flight s
    \<and> pending_usb_handles s' = pending_usb_handles s \<and> ut_transfer (usb_object s' obj) = 0
    \<and> (\<forall>t. t \<notin> set (in_flight s) \<longrightarrow> t = ut_transfer (usb_object s obj) \<longrightarrow> allocated s' t = None)
    \<and> (\<forall>t. allocated s t = None \<longrightarrow> allocated s' t = None)"
proof (cases "ut_transfer (usb_object s obj) = 0")
  case True
  with assms show ?thesis by (auto simp: release_transfer_def usb_inv_def flight_ok_def)
next
  case nz: False
  let ?t = "ut_transfer (usb_object s obj)"
  note inv = assms [unfolded usb_inv_def]
  from inv nz obtain x where x: "allocated s ?t = Some x" "user_data x = Some obj"
      and p: "ut_pending (usb_object s obj) \<longleftrightarrow> ?t \<in> set (in_flight s)"
    unfolding owner_ok_def by (metis (no_types, lifting) map_option_eq_Some)
  define s' where "s' = s\<lparr>allocated := (allocated s)(?t := if ut_pending (usb_object s obj) then Some (x\<lparr>user_data := None\<rparr>) else None),
     usb_object := (usb_object s)(obj := \<lparr>ut_transfer = 0, ut_pending = False\<rparr>)\<rparr>"
  have r: "release_transfer obj s = Some s'"
    using nz x p by (simp add: release_transfer_def s'_def libusb_cancel_transfer_def libusb_free_transfer_def)
  have o: "on_handle s' h = on_handle s h" for h
    by (rule on_handle_cong) (use p x in \<open>auto simp: s'_def\<close>)
  have "usb_inv s'"
  proof (rule usb_invI)
    show "distinct (map fst (pending_usb_handles s'))" using inv by (simp add: s'_def)
    have "pending_usb_handles s' = pending_usb_handles s" "opened s' = opened s" by (simp_all add: s'_def)
    then show "entry_ok s' h" for h using inv by (intro entry_ok_cong [of s' s]) (simp_all add: o)
    show "flight_ok s'" using inv p x nz by (auto simp: flight_ok_def s'_def)
    show "owner_ok s'" unfolding owner_ok_def
    proof (intro conjI allI impI)
      fix obj'
      show "if ut_transfer (usb_object s' obj') = 0 then \<not> ut_pending (usb_object s' obj')
         else map_option user_data (allocated s' (ut_transfer (usb_object s' obj'))) = Some (Some obj')
         \<and> (ut_pending (usb_object s' obj') \<longleftrightarrow> ut_transfer (usb_object s' obj') \<in> set (in_flight s'))"
      proof (cases "obj' = obj")
        case False
        have "ut_transfer (usb_object s obj') \<noteq> ?t" if "ut_transfer (usb_object s obj') \<noteq> 0"
          using inv x that False unfolding owner_ok_def by (metis map_option_eq_Some option.inject)
        moreover have "if ut_transfer (usb_object s obj') = 0 then \<not> ut_pending (usb_object s obj')
         else map_option user_data (allocated s (ut_transfer (usb_object s obj'))) = Some (Some obj')
         \<and> (ut_pending (usb_object s obj') \<longleftrightarrow> ut_transfer (usb_object s obj') \<in> set (in_flight s))"
          using inv unfolding owner_ok_def by blast
        ultimately show ?thesis using False by (simp add: s'_def split: if_splits)
      qed (simp add: s'_def)
    next
      fix t' y assume y: "allocated s' t' = Some y"
      show "case user_data y of None \<Rightarrow> t' \<in> set (in_flight s') | Some o' \<Rightarrow> ut_transfer (usb_object s' o') = t'"
      proof (cases "t' = ?t")
        case True
        with y p show ?thesis by (auto simp: s'_def split: if_splits)
      next
        case False
        with y have "allocated s t' = Some y" by (simp add: s'_def)
        with inv have "case user_data y of None \<Rightarrow> t' \<in> set (in_flight s) | Some o' \<Rightarrow> ut_transfer (usb_object s o') = t'"
          unfolding owner_ok_def by blast
        with False show ?thesis by (auto simp: s'_def split: option.splits)
      qed
    qed
  qed
  with r p x nz show ?thesis by (auto simp: s'_def)
qed

lemma start_transfer_ok:
  assumes "usb_inv s" "usb_allowed (Start obj h t room) s"
  shows "\<exists>r s'. start_transfer obj h t room s = Some (r, s') \<and> usb_inv s'"
proof -
  obtain s1 where r: "release_transfer obj s = Some s1" and inv1: "usb_inv s1" and s1: "opened s1 = opened s"
      "in_flight s1 = in_flight s" "ut_transfer (usb_object s1 obj) = 0"
      and a: "t = 0 \<or> allocated s1 t = None"
    using release_transfer_ok [OF assms(1), of obj] assms(2) by auto
  note inv = inv1 [unfolded usb_inv_def]
  show ?thesis
  proof (cases "t = 0")
    case True
    with r have "start_transfer obj h t room s = Some (False, s1)" by (simp add: start_transfer_def)
    then show ?thesis using inv1 by (intro exI conjI)
  next
    case t: False
    with a have a: "allocated s1 t = None" by simp
    have f: "t \<notin> set (in_flight s1)" using assms(2) s1 by simp
    show ?thesis
    proof (cases room)
      case False
      have "start_transfer obj h t room s = Some (False, s1)"
        using r t False f s1(3) a
        by (auto simp: start_transfer_def libusb_free_transfer_def Let_def fun_upd_idem)
      then show ?thesis using inv1 by (intro exI conjI)
    next
      case True
      define s' where "s' = s1\<lparr>allocated := (allocated s1)(t := Some \<lparr>dev_handle = h, user_data = Some obj\<rparr>),
                         usb_object := (usb_object s1)(obj := (usb_object s1 obj)\<lparr>ut_transfer := t\<rparr>)\<rparr>"
      have s': "pending_usb_handles s' = pending_usb_handles s1" "opened s' = opened s1" by (simp_all add: s'_def)
      have o: "on_handle s' k = on_handle s1 k" for k
        by (rule on_handle_cong) (use f in \<open>auto simp: s'_def\<close>)
      have np: "\<not> ut_pending (usb_object s1 obj)" using inv s1(3) by (auto simp: owner_ok_def)
      have "usb_inv s'"
      proof (rule usb_invI)
        show "distinct (map fst (pending_usb_handles s'))" using inv s' by simp
        show "entry_ok s' k" for k using inv by (intro entry_ok_cong [of s' s1]) (simp_all add: o s')
        show "flight_ok s'" using inv t f by (auto simp: flight_ok_def s'_def)
        show "owner_ok s'" unfolding owner_ok_def
        proof (intro conjI allI impI)
          fix obj'
          have "ut_transfer (usb_object s1 obj') \<noteq> t" if "obj' \<noteq> obj"
            using inv a t that unfolding owner_ok_def by (metis map_option_is_None option.distinct(1))
          then show "if ut_transfer (usb_object s' obj') = 0 then \<not> ut_pending (usb_object s' obj')
             else map_option user_data (allocated s' (ut_transfer (usb_object s' obj'))) = Some (Some obj')
             \<and> (ut_pending (usb_object s' obj') \<longleftrightarrow> ut_transfer (usb_object s' obj') \<in> set (in_flight s'))"
            using inv f t np unfolding owner_ok_def by (cases "obj' = obj") (auto simp: s'_def)
        next
          fix t' x assume "allocated s' t' = Some x"
          then show "case user_data x of None \<Rightarrow> t' \<in> set (in_flight s') | Some o' \<Rightarrow> ut_transfer (usb_object s' o') = t'"
            using inv s1(3) t owner_okD2 [of s1 t' x]
            by (cases "t' = t") (auto simp: s'_def flight_ok_def split: option.splits)
        qed
      qed
      moreover have "start_transfer obj h t room s = Some (True, s')"
        using r t True by (simp add: start_transfer_def Let_def s'_def)
      ultimately show ?thesis by blast
    qed
  qed
qed

lemma resume_ok:
  assumes "usb_inv s" "t \<in> set (in_flight s)"
  shows "\<exists>s'. resume t s = Some s' \<and> usb_inv s' \<and> set (in_flight s') = set (in_flight s) - {t}
    \<and> length (in_flight s') < length (in_flight s) \<and> opened s' = opened s
    \<and> (\<forall>h. close_deferred s' h
          \<longleftrightarrow> close_deferred s h)"
proof -
  note inv = assms(1) [unfolded usb_inv_def]
  obtain x where x: "allocated s t = Some x" "dev_handle x \<in> set (opened s)"
    using inv assms(2) unfolding flight_ok_def by blast
  let ?h = "dev_handle x"
  have on: "t \<in> set (on_handle s ?h)" using x assms(2) by (simp add: on_handle_def)
  have "entry_ok s ?h" using inv by simp
  then obtain e where e: "map_of (pending_usb_handles s) ?h = Some e" "transfers e = length (on_handle s ?h)"
    using on by (auto simp: entry_ok_def split: option.splits)
  let ?n = "length (on_handle s ?h) - 1"
  have pos: "0 < length (on_handle s ?h)" using on by auto
  have "length (on_handle s ?h) \<le> SIZE_MAX" using on_handle_bound [of s ?h] inv by simp
  then have n: "(transfers e + SIZE_MAX) mod (SIZE_MAX + 1) = ?n"
    using pos e(2) by (simp add: mod_if)
  define table where "table = (if ?n = 0 \<and> \<not> closing e then AList.delete ?h (pending_usb_handles s)
      else AList.update ?h (e\<lparr>transfers := ?n\<rparr>) (pending_usb_handles s))"
  define s1 where "s1 = s\<lparr>in_flight := removeAll t (in_flight s), pending_usb_handles := table\<rparr>"
  have f: "finish_usb_transfer ?h (s\<lparr>in_flight := removeAll t (in_flight s)\<rparr>) = s1"
    unfolding finish_usb_transfer_def by (simp add: e(1) n [simplified] Let_def table_def s1_def)
  define s' where "s' = (case user_data x of None \<Rightarrow> s1\<lparr>allocated := (allocated s)(t := None)\<rparr>
      | Some obj \<Rightarrow> s1\<lparr>usb_object := (usb_object s)(obj := (usb_object s obj)\<lparr>ut_pending := False\<rparr>)\<rparr>)"
  have r: "resume t s = Some s'"
    using x f unfolding resume_def
    by (auto simp: s'_def Let_def libusb_free_transfer_def s1_def split: option.splits)
  have s': "pending_usb_handles s' = table" "opened s' = opened s" "in_flight s' = removeAll t (in_flight s)"
    by (simp_all add: s'_def s1_def split: option.splits)
  have al: "allocated s' u = allocated s u" if "u \<noteq> t" for u
    using that by (simp add: s'_def s1_def split: option.splits)
  have o: "on_handle s' k = removeAll t (on_handle s k)" for k
    by (auto simp: on_handle_def s' removeAll_filter_not_eq intro!: filter_cong) (use al in force)+
  have dist: "distinct (on_handle s k)" for k using inv by (simp add: on_handle_def flight_ok_def)
  have oh: "length (on_handle s' ?h) = ?n"
    using on dist [of ?h] by (simp add: o distinct_remove1_removeAll [symmetric] length_remove1)
  have ok: "on_handle s' k = on_handle s k" if "k \<noteq> ?h" for k
    unfolding o using x(1) that by (intro removeAll_id) (simp add: on_handle_def)
  have "usb_inv s'"
  proof (rule usb_invI)
    show "distinct (map fst (pending_usb_handles s'))"
      using inv by (simp add: s' table_def distinct_update distinct_delete)
    show "entry_ok s' k" for k
    proof (cases "k = ?h")
      case True
      then show ?thesis
        using oh x(2) inv by (auto simp: entry_ok_def s' table_def update_conv' delete_conv')
    next
      case False
      then have "map_of table k = map_of (pending_usb_handles s) k"
        by (simp add: table_def update_conv' delete_conv')
      moreover have "entry_ok s k" using inv by simp
      ultimately show ?thesis using ok [OF False] by (simp add: entry_ok_def s' split: option.splits)
    qed
    have "allocated s' 0 = None" using inv x(1) by (cases "t = 0") (auto simp: al flight_ok_def)
    moreover have "distinct (in_flight s')" using inv by (simp add: flight_ok_def s' distinct_removeAll)
    ultimately show "flight_ok s'" using inv by (auto simp: flight_ok_def s' al)
    show "owner_ok s'" unfolding owner_ok_def
    proof (intro conjI allI impI)
      fix obj
      show "if ut_transfer (usb_object s' obj) = 0 then \<not> ut_pending (usb_object s' obj)
         else map_option user_data (allocated s' (ut_transfer (usb_object s' obj))) = Some (Some obj)
         \<and> (ut_pending (usb_object s' obj) \<longleftrightarrow> ut_transfer (usb_object s' obj) \<in> set (in_flight s'))"
      proof (cases "user_data x")
        case None
        then have "usb_object s' = usb_object s" by (simp add: s'_def s1_def)
        moreover have "ut_transfer (usb_object s obj) \<noteq> t" if "ut_transfer (usb_object s obj) \<noteq> 0"
          using owner_okD1 [of s obj] inv that x(1) None by auto
        ultimately show ?thesis using owner_okD1 [of s obj] inv al by (auto simp: s' split: if_splits)
      next
        case (Some obj')
        then have "usb_object s' = (usb_object s)(obj' := (usb_object s obj')\<lparr>ut_pending := False\<rparr>)"
            "allocated s' = allocated s" by (simp_all add: s'_def s1_def)
        moreover have "ut_transfer (usb_object s obj') = t" using owner_okD2 [of s t x] inv x(1) Some by simp
        moreover have "ut_transfer (usb_object s obj) \<noteq> t" if "obj \<noteq> obj'" "ut_transfer (usb_object s obj) \<noteq> 0"
          using owner_okD1 [of s obj] inv that x(1) Some by auto
        ultimately show ?thesis using owner_okD1 [of s obj] inv by (cases "obj = obj'") (auto simp: s' split: if_splits)
      qed
    next
      fix t' y assume y: "allocated s' t' = Some y"
      show "case user_data y of None \<Rightarrow> t' \<in> set (in_flight s') | Some o' \<Rightarrow> ut_transfer (usb_object s' o') = t'"
      proof (cases "user_data x")
        case None
        then have "usb_object s' = usb_object s" "t' \<noteq> t" using y by (auto simp: s'_def s1_def)
        then show ?thesis using owner_okD2 [of s t' y] inv y al [of t'] by (simp add: s' split: option.splits)
      next
        case (Some obj')
        then have o': "ut_transfer (usb_object s' k) = ut_transfer (usb_object s k)" "allocated s' = allocated s" for k
          by (simp_all add: s'_def s1_def)
        show ?thesis
        proof (cases "t' = t")
          case True
          then have "y = x" using y x(1) o'(2) by simp
          then show ?thesis using owner_okD2 [of s t x] inv x(1) Some True o' by simp
        next
          case False
          then show ?thesis using owner_okD2 [of s t' y] inv y o' by (simp add: s' split: option.splits)
        qed
      qed
    qed
  qed
  moreover have "length (removeAll t (in_flight s)) < length (in_flight s)"
    using assms(2) by (rule length_removeAll_less)
  moreover have "close_deferred s' h \<longleftrightarrow> close_deferred s h" for h
    using e(1) by (cases "h = ?h") (auto simp: close_deferred_def s' table_def update_conv' delete_conv')
  ultimately show ?thesis using r s' by auto
qed

lemma submit_ok:
  assumes "usb_inv s" "usb_allowed (Submit obj result) s"
  shows "\<exists>r s'. submit obj result s = Some (r, s') \<and> usb_inv s'"
proof -
  note inv = assms(1) [unfolded usb_inv_def]
  let ?t = "ut_transfer (usb_object s obj)"
  obtain x where x: "allocated s ?t = Some x" "dev_handle x \<in> set (opened s)" and nz: "?t \<noteq> 0"
      and np: "\<not> ut_pending (usb_object s obj)"
    using assms(2) by (auto split: option.splits)
  let ?h = "dev_handle x"
  have nf: "?t \<notin> set (in_flight s)" using inv nz np unfolding owner_ok_def by metis
  define e where "e = (case map_of (pending_usb_handles s) ?h of
      None \<Rightarrow> \<lparr>transfers = 0, closing = False, interface_number = - 1\<rparr> | Some e \<Rightarrow> e)"
  define s1 where "s1 = (if map_of (pending_usb_handles s) ?h = None
      then s\<lparr>pending_usb_handles := AList.update ?h e (pending_usb_handles s)\<rparr> else s)"
  have m: "map_of (pending_usb_handles s1) ?h = Some e"
    by (auto simp: s1_def e_def update_conv' split: option.splits)
  have eh: "entry_ok s ?h" using inv by simp
  have te: "transfers e = length (on_handle s ?h)"
    using eh by (auto simp: e_def entry_ok_def split: option.splits)
  have s1: "allocated s1 = allocated s" "in_flight s1 = in_flight s" "usb_object s1 = usb_object s" "opened s1 = opened s"
    by (simp_all add: s1_def)
  have dist: "distinct (map fst (pending_usb_handles s1))"
    using inv by (simp add: s1_def distinct_update)
  have other: "map_of (pending_usb_handles s1) k = map_of (pending_usb_handles s) k" if "k \<noteq> ?h" for k
    using that by (simp add: s1_def update_conv')
  have u: "submit obj result s =
      (if closing e then Some (No_device, s1)
       else do { s \<leftarrow> libusb_submit_transfer result ?t s1;
          if result < 0
          then Some (Submit_error result,
                 if transfers e = 0
                 then s\<lparr>pending_usb_handles := AList.delete ?h (pending_usb_handles s)\<rparr> else s)
          else Some (Submitted,
                 s\<lparr>pending_usb_handles := AList.update ?h (e\<lparr>transfers := (transfers e + 1) mod (SIZE_MAX + 1)\<rparr>)
                     (pending_usb_handles s),
                   usb_object := (usb_object s)(obj := (usb_object s obj)\<lparr>ut_pending := True\<rparr>)\<rparr>) })"
  proof -
    have "(if map_of (pending_usb_handles s) ?h = None
        then s\<lparr>pending_usb_handles := AList.update ?h \<lparr>transfers = 0, closing = False, interface_number = - 1\<rparr>
                 (pending_usb_handles s)\<rparr> else s) = s1"
      by (auto simp: s1_def e_def)
    then show ?thesis unfolding submit_def x(1) by (simp only: option.case Let_def m)
  qed
  show ?thesis
  proof (cases "closing e")
    case True
    then have "map_of (pending_usb_handles s) ?h \<noteq> None" by (auto simp: e_def split: option.splits)
    then have "s1 = s" unfolding s1_def by (rule if_not_P)
    with u True assms(1) show ?thesis by simp
  next
    case nc: False
    show ?thesis
    proof (cases "result < 0")
      case True
      define s' where "s' = (if transfers e = 0 then s1\<lparr>pending_usb_handles := AList.delete ?h (pending_usb_handles s1)\<rparr> else s1)"
      have r: "submit obj result s = Some (Submit_error result, s')"
        using True nc nf x by (simp add: u libusb_submit_transfer_def s1 s'_def)
      have s': "allocated s' = allocated s" "in_flight s' = in_flight s" "usb_object s' = usb_object s" "opened s' = opened s"
        by (simp_all add: s'_def s1)
      have o: "on_handle s' k = on_handle s k" for k by (rule on_handle_cong) (simp_all add: s')
      have "usb_inv s'"
      proof (rule usb_invI)
        show "distinct (map fst (pending_usb_handles s'))" using dist by (simp add: s'_def distinct_delete)
        show "entry_ok s' k" for k
        proof (cases "k = ?h")
          case True
          have "map_of (pending_usb_handles s') ?h = (if transfers e = 0 then None else Some e)"
            by (simp add: s'_def delete_conv' m)
          then show ?thesis using te x True by (simp add: entry_ok_def o s')
        next
          case False
          have "entry_ok s k" using inv by simp
          moreover have "map_of (pending_usb_handles s') k = map_of (pending_usb_handles s) k"
            using False other by (simp add: s'_def delete_conv')
          ultimately show ?thesis by (simp add: entry_ok_def o s' split: option.splits)
        qed
        show "flight_ok s'" using inv by (simp add: flight_ok_def s')
        show "owner_ok s'" by (rule owner_ok_cong [of _ s]) (use inv s' in simp_all)
      qed
      with r show ?thesis by blast
    next
      case False
      let ?e = "e\<lparr>transfers := (transfers e + 1) mod (SIZE_MAX + 1)\<rparr>"
      define s' where "s' = s1\<lparr>in_flight := ?t # in_flight s,
          pending_usb_handles := AList.update ?h ?e (pending_usb_handles s1),
          usb_object := (usb_object s)(obj := (usb_object s obj)\<lparr>ut_pending := True\<rparr>)\<rparr>"
      have r: "submit obj result s = Some (Submitted, s')"
        using False nc nf x by (simp add: u libusb_submit_transfer_def s1 s'_def)
      have s': "allocated s' = allocated s" "opened s' = opened s" by (simp_all add: s'_def s1)
      have fl: "flight_ok s'" using inv nf x nz by (auto simp: flight_ok_def s') (auto simp: s'_def)
      have o: "on_handle s' k = (if k = ?h then ?t # on_handle s k else on_handle s k)" for k
        using x by (simp add: on_handle_def s') (simp add: s'_def)
      have "length (on_handle s ?h) + 1 < SIZE_MAX + 1"
        using on_handle_bound [OF fl, of ?h] by (simp add: o)
      then have n: "(transfers e + 1) mod (SIZE_MAX + 1) = length (on_handle s ?h) + 1"
        by (simp add: te)
      have "usb_inv s'"
      proof (rule usb_invI)
        show "distinct (map fst (pending_usb_handles s'))" using dist by (simp add: s'_def distinct_update)
        show "entry_ok s' k" for k
        proof (cases "k = ?h")
          case True
          have "map_of (pending_usb_handles s') ?h = Some ?e" by (simp add: s'_def update_conv')
          then show ?thesis using n x True by (simp add: entry_ok_def o s')
        next
          case False
          have "entry_ok s k" using inv by simp
          moreover have "map_of (pending_usb_handles s') k = map_of (pending_usb_handles s) k"
            using False other by (simp add: s'_def update_conv')
          ultimately show ?thesis using False by (simp add: entry_ok_def o s' split: option.splits)
        qed
        show "flight_ok s'" by (rule fl)
        show "owner_ok s'" unfolding owner_ok_def
        proof (intro conjI allI impI)
          fix obj'
          have "ut_transfer (usb_object s obj') \<noteq> ?t" if "obj' \<noteq> obj"
            using inv nz that unfolding owner_ok_def by (metis option.inject)
          moreover have "if ut_transfer (usb_object s obj') = 0 then \<not> ut_pending (usb_object s obj')
            else map_option user_data (allocated s (ut_transfer (usb_object s obj'))) = Some (Some obj')
            \<and> (ut_pending (usb_object s obj') \<longleftrightarrow> ut_transfer (usb_object s obj') \<in> set (in_flight s))"
            using inv unfolding owner_ok_def by blast
          ultimately show "if ut_transfer (usb_object s' obj') = 0 then \<not> ut_pending (usb_object s' obj')
             else map_option user_data (allocated s' (ut_transfer (usb_object s' obj'))) = Some (Some obj')
             \<and> (ut_pending (usb_object s' obj') \<longleftrightarrow> ut_transfer (usb_object s' obj') \<in> set (in_flight s'))"
            using nz by (cases "obj' = obj") (auto simp: s'_def s1 split: if_splits)
        next
          fix t' y assume "allocated s' t' = Some y"
          then show "case user_data y of None \<Rightarrow> t' \<in> set (in_flight s') | Some o' \<Rightarrow> ut_transfer (usb_object s' o') = t'"
            using inv owner_okD2 [of s t' y] by (auto simp: s'_def s1 split: option.splits)
        qed
      qed
      with r show ?thesis by blast
    qed
  qed
qed

lemma close_interface_ok:
  assumes "h \<in> set (opened s)" "on_handle s h = []"
  shows "\<exists>r. close_interface h n s = Some (s\<lparr>opened := removeAll h (opened s), released_interfaces := r\<rparr>)"
proof (cases "0 \<le> n")
  case True
  have "on_handle (s\<lparr>released_interfaces := (h, n) # released_interfaces s\<rparr>) h = []"
    using assms(2) by (simp add: on_handle_def)
  with True assms(1) show ?thesis
    by (intro exI [of _ "(h, n) # released_interfaces s"])
      (simp add: close_interface_def libusb_release_interface_def libusb_close_def)
next
  case False
  with assms show ?thesis
    by (intro exI [of _ "released_interfaces s"]) (simp add: close_interface_def libusb_close_def)
qed

lemma closed_inv:
  assumes "distinct (map fst (pending_usb_handles s))" "\<And>k. k \<noteq> h \<Longrightarrow> entry_ok s k" "flight_ok s" "owner_ok s"
    "map_of (pending_usb_handles s) h = None" "on_handle s h = []"
  shows "usb_inv (s\<lparr>opened := removeAll h (opened s), released_interfaces := r\<rparr>)" (is "usb_inv ?s")
proof (rule usb_invI)
  have o: "on_handle ?s k = on_handle s k" for k by (rule on_handle_cong) simp_all
  show "distinct (map fst (pending_usb_handles ?s))" using assms(1) by simp
  show "entry_ok ?s k" for k
    using assms(2) [of k] assms(5,6)
    by (cases "k = h") (auto simp: entry_ok_def o split: option.splits)
  show "flight_ok ?s" unfolding flight_ok_def
  proof (intro conjI ballI)
    fix t assume t: "t \<in> set (in_flight ?s)"
    then obtain x where x: "allocated s t = Some x" "dev_handle x \<in> set (opened s)"
      using assms(3) by (auto simp: flight_ok_def)
    have "dev_handle x \<noteq> h"
    proof
      assume "dev_handle x = h"
      with t x(1) have "t \<in> set (on_handle s h)" by (simp add: on_handle_def)
      with assms(6) show False by simp
    qed
    with x show "\<exists>x. allocated ?s t = Some x \<and> dev_handle x \<in> set (opened ?s)" by auto
  qed (use assms(3) in \<open>simp_all add: flight_ok_def\<close>)
  show "owner_ok ?s" by (rule owner_ok_cong [OF _ _ _ assms(4)]) simp_all
qed

lemma defer_usb_close_ok:
  assumes "usb_inv s" "h = 0 \<or> h \<in> set (opened s)"
  shows "\<exists>s'. defer_usb_close h n s = Some s' \<and> usb_inv s'"
proof (cases "h = 0")
  case True
  with assms(1) show ?thesis by (simp add: defer_usb_close_def)
next
  case h: False
  note inv = assms(1) [unfolded usb_inv_def]
  then have eh: "entry_ok s h" by simp
  show ?thesis
  proof (cases "map_of (pending_usb_handles s) h")
    case None
    with eh have "on_handle s h = []" by (simp add: entry_ok_def)
    moreover obtain r where "close_interface h n s = Some (s\<lparr>opened := removeAll h (opened s), released_interfaces := r\<rparr>)"
      using close_interface_ok calculation assms(2) h by blast
    ultimately show ?thesis
      using closed_inv [of s h r] inv h None by (simp add: defer_usb_close_def)
  next
    case (Some e)
    let ?s = "s\<lparr>pending_usb_handles := AList.update h (e\<lparr>closing := True, interface_number := n\<rparr>) (pending_usb_handles s)\<rparr>"
    have o: "on_handle ?s k = on_handle s k" for k by (rule on_handle_cong) simp_all
    have "usb_inv ?s"
    proof (rule usb_invI)
      show "distinct (map fst (pending_usb_handles ?s))" using inv by (simp add: distinct_update)
      show "entry_ok ?s k" for k
      proof (cases "k = h")
        case True
        with eh Some show ?thesis by (simp add: entry_ok_def o update_conv')
      next
        case False
        have "entry_ok s k" using inv by simp
        with False show ?thesis by (simp add: entry_ok_def o update_conv' split: option.splits)
      qed
      show "flight_ok ?s" by (rule flight_ok_cong [of _ s]) (use inv in simp_all)
      show "owner_ok ?s" by (rule owner_ok_cong [of _ s]) (use inv in simp_all)
    qed
    with h Some show ?thesis by (simp add: defer_usb_close_def)
  qed
qed

lemma drain_entries_ok:
  assumes "usb_inv s" "distinct (map fst es)" "\<And>h e. (h, e) \<in> set es \<Longrightarrow> map_of (pending_usb_handles s) h = Some e"
  shows "\<exists>s'. drain_entries es s = Some s' \<and> usb_inv s' \<and> in_flight s' = in_flight s
    \<and> (\<forall>k. map_of (pending_usb_handles s') k =
         (case map_of es k of None \<Rightarrow> map_of (pending_usb_handles s) k
          | Some e \<Rightarrow> if closing e \<and> transfers e = 0 then None else Some e))
    \<and> set (opened s') = set (opened s) - {h. \<exists>e. map_of es h = Some e \<and> closing e \<and> transfers e = 0}"
  using assms
proof (induction es arbitrary: s)
  case Nil
  then show ?case by simp
next
  case (Cons he es)
  obtain h e where he: "he = (h, e)" by force
  have m: "map_of (pending_usb_handles s) h = Some e" using Cons.prems(3) [of h e] he by simp
  have nh: "map_of es h = None" using Cons.prems(2) he by (simp add: map_of_eq_None_iff)
  note inv = Cons.prems(1) [unfolded usb_inv_def]
  show ?case
  proof (cases "\<not> closing e \<or> transfers e \<noteq> 0")
    case True
    obtain s' where s': "drain_entries es s = Some s'" "usb_inv s'" "in_flight s' = in_flight s"
      "\<And>k. map_of (pending_usb_handles s') k =
         (case map_of es k of None \<Rightarrow> map_of (pending_usb_handles s) k
          | Some e \<Rightarrow> if closing e \<and> transfers e = 0 then None else Some e)"
      "set (opened s') = set (opened s) - {h. \<exists>e. map_of es h = Some e \<and> closing e \<and> transfers e = 0}"
      using Cons.IH [of s] Cons.prems by auto
    then show ?thesis using he True m nh by (auto split: option.splits)
  next
    case False
    have eh: "entry_ok s h" using inv by simp
    with m False have z: "on_handle s h = []" "h \<in> set (opened s)" by (simp_all add: entry_ok_def)
    let ?d = "s\<lparr>pending_usb_handles := AList.delete h (pending_usb_handles s)\<rparr>"
    have o: "on_handle ?d k = on_handle s k" for k by (rule on_handle_cong) simp_all
    obtain r where c: "close_interface h (interface_number e) ?d
        = Some (?d\<lparr>opened := removeAll h (opened ?d), released_interfaces := r\<rparr>)"
      using close_interface_ok [of h ?d] z o by auto
    let ?s = "?d\<lparr>opened := removeAll h (opened ?d), released_interfaces := r\<rparr>"
    have "usb_inv ?s"
    proof (rule closed_inv)
      show "distinct (map fst (pending_usb_handles ?d))" using inv by (simp add: distinct_delete)
      fix k assume k: "k \<noteq> h"
      have "entry_ok s k" using inv by simp
      with k show "entry_ok ?d k" by (simp add: entry_ok_def o delete_conv' split: option.splits)
    next
      show "flight_ok ?d" by (rule flight_ok_cong [of _ s]) (use inv in simp_all)
      show "owner_ok ?d" by (rule owner_ok_cong [of _ s]) (use inv in simp_all)
    qed (use z o in \<open>simp_all add: delete_conv'\<close>)
    moreover have "map_of (pending_usb_handles ?s) k = Some e'" if "(k, e') \<in> set es" for k e'
    proof -
      have "k \<noteq> h" using that nh by (auto simp: map_of_eq_None_iff image_iff)
      then show ?thesis using Cons.prems(3) [of k e'] that by (simp add: delete_conv')
    qed
    ultimately obtain s' where s': "drain_entries es ?s = Some s'" "usb_inv s'" "in_flight s' = in_flight ?s"
      "\<And>k. map_of (pending_usb_handles s') k =
         (case map_of es k of None \<Rightarrow> map_of (pending_usb_handles ?s) k
          | Some e \<Rightarrow> if closing e \<and> transfers e = 0 then None else Some e)"
      "set (opened s') = set (opened ?s) - {h. \<exists>e. map_of es h = Some e \<and> closing e \<and> transfers e = 0}"
      using Cons.IH [of ?s] Cons.prems(2) he by auto
    have "drain_entries (he # es) s = Some s'" using he False c s'(1) by simp
    moreover have "map_of (pending_usb_handles s') k =
         (case map_of (he # es) k of None \<Rightarrow> map_of (pending_usb_handles s) k
          | Some e \<Rightarrow> if closing e \<and> transfers e = 0 then None else Some e)" for k
      using s'(4) [of k] he False nh by (cases "k = h") (auto simp: delete_conv' split: option.splits)
    moreover have "set (opened s') = set (opened s) - {k. \<exists>e. map_of (he # es) k = Some e \<and> closing e \<and> transfers e = 0}"
      using s'(5) he False nh by auto
    ultimately show ?thesis using s'(2,3) by auto
  qed
qed

lemma drain_usb_closes_ok:
  assumes "usb_inv s"
  shows "\<exists>s'. drain_usb_closes s = Some s' \<and> usb_inv s' \<and> in_flight s' = in_flight s
    \<and> (\<forall>k. map_of (pending_usb_handles s') k =
         (case map_of (pending_usb_handles s) k of None \<Rightarrow> None
          | Some e \<Rightarrow> if closing e \<and> transfers e = 0 then None else Some e))
    \<and> set (opened s') = set (opened s) - {h. \<exists>e. map_of (pending_usb_handles s) h = Some e \<and> closing e \<and> transfers e = 0}"
proof -
  have "distinct (map fst (pending_usb_handles s))" using assms by (simp add: usb_inv_def)
  then show ?thesis
    using drain_entries_ok [OF assms, of "pending_usb_handles s"]
    by (simp add: drain_usb_closes_def cong: option.case_cong)
qed

lemma open_handle_ok:
  assumes "usb_inv s" "h \<notin> set (opened s)"
  shows "usb_inv (s\<lparr>opened := h # opened s\<rparr>)" (is "usb_inv ?s")
proof -
  note inv = assms(1) [unfolded usb_inv_def]
  have o: "on_handle ?s k = on_handle s k" for k by (rule on_handle_cong) simp_all
  show ?thesis
  proof (rule usb_invI)
    show "distinct (map fst (pending_usb_handles ?s))" using inv by simp
    fix k
    have "entry_ok s k" using inv by simp
    then show "entry_ok ?s k" by (auto simp: entry_ok_def o split: option.splits)
  next
    show "flight_ok ?s" using inv by (auto simp: flight_ok_def)
    show "owner_ok ?s" by (rule owner_ok_cong [of _ s]) (use inv in simp_all)
  qed
qed

lemma usb_run_ok:
  assumes "usb_inv s" "usb_allowed op s"
  shows "\<exists>s'. usb_run op s = Some s' \<and> usb_inv s'"
proof (cases op)
  case (Open_handle h)
  with assms show ?thesis by (simp add: open_handle_ok)
next
  case (Start obj h t room)
  with start_transfer_ok [OF assms(1)] assms(2) show ?thesis by fastforce
next
  case (Submit obj result)
  with submit_ok [OF assms(1)] assms(2) show ?thesis by fastforce
next
  case (Release obj)
  with release_transfer_ok [OF assms(1), of obj] show ?thesis by auto
next
  case (Complete t)
  with resume_ok [OF assms(1), of t] assms(2) show ?thesis by auto
next
  case (Close h n)
  with defer_usb_close_ok [OF assms(1), of h n] assms(2) show ?thesis by auto
next
  case Drain
  with drain_usb_closes_ok [OF assms(1)] show ?thesis by auto
qed

lemma usb_reachable_inv: "usb_reachable s \<Longrightarrow> usb_inv s"
proof (induction rule: usb_reachable.induct)
  case initial
  show ?case by (rule usb_inv_initial)
next
  case (next_state s s')
  then obtain op where "usb_allowed op s" "usb_run op s = Some s'" by (auto elim: usb_stepE)
  with usb_run_ok [OF next_state.IH, of op] show ?case by simp
qed

fun usb_runs :: "usb_op list \<Rightarrow> usb_state \<Rightarrow> usb_state option" where
  "usb_runs [] s = Some s"
| "usb_runs (op # ops) s =
     (if usb_allowed op s then case usb_run op s of None \<Rightarrow> None | Some s' \<Rightarrow> usb_runs ops s' else None)"

lemma usb_runs_reachable: "usb_reachable s \<Longrightarrow> usb_runs ops s = Some s' \<Longrightarrow> usb_reachable s'"
proof (induction ops arbitrary: s)
  case (Cons op ops)
  then obtain s1 where "usb_allowed op s" "usb_run op s = Some s1" "usb_runs ops s1 = Some s'"
    by (auto split: if_splits option.splits)
  with Cons.IH [of s1] Cons.prems(1) show ?case by (blast intro: usb_step.intros usb_reachable.next_state)
qed simp

text \<open>(C22) No misuse of libusb is reachable: whatever the interleaving of submissions,
  cancellations, completions, deferred and drained closes, the next operation never closes a handle
  twice or with a transfer in flight, never frees a transfer in flight or twice, never cancels or
  submits a dead one; afterwards every transfer in flight is allocated and its handle open, and every
  allocated transfer is in flight or owned by a live object, so that none leaks.\<close>

theorem usb_no_misuse:
  assumes "usb_reachable s" "usb_allowed op s"
  shows "\<exists>s'. usb_run op s = Some s'
    \<and> (\<forall>t \<in> set (in_flight s'). \<exists>x. allocated s' t = Some x \<and> dev_handle x \<in> set (opened s'))
    \<and> (\<forall>t x. allocated s' t = Some x \<longrightarrow> t \<in> set (in_flight s') \<or> (\<exists>obj. ut_transfer (usb_object s' obj) = t))"
proof -
  obtain s' where r: "usb_run op s = Some s'" and inv: "usb_inv s'"
    using usb_run_ok [OF usb_reachable_inv [OF assms(1)] assms(2)] by blast
  have "t \<in> set (in_flight s') \<or> (\<exists>obj. ut_transfer (usb_object s' obj) = t)" if "allocated s' t = Some x" for t x
    using owner_okD2 [of s' t x] that inv by (auto simp: usb_inv_def split: option.splits)
  with r inv show ?thesis unfolding usb_inv_def flight_ok_def by blast
qed

text \<open>One handle is opened, a transfer submitted and released while in flight, the close deferred
  and the transfer then completed: the drain closes the handle.\<close>

definition usb_example :: usb_state where
  "usb_example = the (usb_runs [Open_handle 9, Start 0 9 7 True, Submit 0 0, Release 0, Close 9 1, Complete 7] usb_initial)"

lemmas usb_run_simps = usb_initial_def start_transfer_def release_transfer_def submit_def resume_def
  defer_usb_close_def finish_usb_transfer_def libusb_submit_transfer_def libusb_cancel_transfer_def
  libusb_free_transfer_def SIZE_MAX_def

lemma usb_example_runs:
  "usb_runs [Open_handle 9, Start 0 9 7 True, Submit 0 0, Release 0, Close 9 1, Complete 7] usb_initial = Some usb_example"
  unfolding usb_example_def by (simp add: usb_run_simps Let_def)

theorem usb_no_misuse_witness:
  "\<exists>s'. usb_run Drain usb_example = Some s' \<and> opened usb_example = [9]"
proof -
  have "usb_reachable usb_example" by (rule usb_runs_reachable [OF initial usb_example_runs])
  moreover have "opened usb_example = [9]" unfolding usb_example_def by (simp add: usb_run_simps Let_def)
  ultimately show ?thesis using usb_no_misuse [of usb_example Drain] by auto
qed

lemma resume_all:
  assumes "usb_inv s" "distinct ts" "set ts = set (in_flight s)"
  shows "\<exists>s'. fold (\<lambda>t r. Option.bind r (resume t)) ts (Some s) = Some s' \<and> usb_inv s' \<and> in_flight s' = []
    \<and> opened s' = opened s
    \<and> (\<forall>h. close_deferred s' h
          \<longleftrightarrow> close_deferred s h)"
  using assms
proof (induction ts arbitrary: s)
  case Nil
  then show ?case by simp
next
  case (Cons t ts)
  then have "t \<in> set (in_flight s)" by auto
  from resume_ok [OF Cons.prems(1) this]
  obtain s1 where s1: "resume t s = Some s1" "usb_inv s1" "set (in_flight s1) = set (in_flight s) - {t}"
    "opened s1 = opened s" "\<And>h. close_deferred s1 h
          \<longleftrightarrow> close_deferred s h"
    by blast
  have "set ts = set (in_flight s1)" using Cons.prems s1(3) by auto
  with Cons.IH [OF s1(2)] Cons.prems(2) s1 show ?case by auto
qed

text \<open>(C23) Deferred closes are carried out: once libusb has delivered the outstanding
  completions, in any order, one drain closes exactly the handles whose close was deferred, leaves no
  deferred close and empties the table, so that the reaper task ends and the device can be reopened.\<close>

theorem usb_closes_complete:
  assumes "usb_reachable s" "distinct ts" "set ts = set (in_flight s)"
  shows "\<exists>s1 s2. fold (\<lambda>t r. Option.bind r (resume t)) ts (Some s) = Some s1 \<and> in_flight s1 = []
    \<and> drain_usb_closes s1 = Some s2 \<and> \<not> has_deferred_usb_closes s2 \<and> pending_usb_handles s2 = []
    \<and> set (opened s2) = set (opened s) - {h. close_deferred s h}"
proof -
  obtain s1 where s1: "fold (\<lambda>t r. Option.bind r (resume t)) ts (Some s) = Some s1" "usb_inv s1" "in_flight s1 = []"
    "opened s1 = opened s" "\<And>h. close_deferred s1 h
          \<longleftrightarrow> close_deferred s h"
    using resume_all [OF usb_reachable_inv [OF assms(1)] assms(2,3)] by blast
  have z: "closing e \<and> transfers e = 0" if "map_of (pending_usb_handles s1) h = Some e" for h e
  proof -
    have "on_handle s1 h = []" by (simp add: on_handle_def s1(3))
    moreover have "entry_ok s1 h" using s1(2) by (simp add: usb_inv_def)
    ultimately show ?thesis using that by (simp add: entry_ok_def)
  qed
  obtain s2 where s2: "drain_usb_closes s1 = Some s2"
    "\<And>k. map_of (pending_usb_handles s2) k = (case map_of (pending_usb_handles s1) k of None \<Rightarrow> None
          | Some e \<Rightarrow> if closing e \<and> transfers e = 0 then None else Some e)"
    "set (opened s2) = set (opened s1) - {h. \<exists>e. map_of (pending_usb_handles s1) h = Some e \<and> closing e \<and> transfers e = 0}"
    using drain_usb_closes_ok [OF s1(2)] by blast
  have "map_of (pending_usb_handles s2) k = None" for k
    using s2(2) [of k] z [of k] by (auto split: option.splits)
  then have p: "pending_usb_handles s2 = []"
    by (simp flip: map_of_eq_empty_iff add: fun_eq_iff)
  have "{h. \<exists>e. map_of (pending_usb_handles s1) h = Some e \<and> closing e \<and> transfers e = 0}
      = {h. close_deferred s h}"
  proof -
    have "(\<exists>e. map_of (pending_usb_handles s1) h = Some e \<and> closing e \<and> transfers e = 0) \<longleftrightarrow> close_deferred s1 h" for h
      using z [of h] by (auto simp: close_deferred_def)
    then show ?thesis using s1(5) by simp
  qed
  with p show ?thesis using s1(1,3,4) s2(1,3) by (intro exI [of _ s1] exI [of _ s2]) (simp add: has_deferred_usb_closes_def)
qed

theorem usb_closes_complete_witness:
  "\<exists>s1 s2. fold (\<lambda>t r. Option.bind r (resume t)) [] (Some usb_example) = Some s1
    \<and> drain_usb_closes s1 = Some s2 \<and> opened s2 = []"
proof -
  have "usb_reachable usb_example" by (rule usb_runs_reachable [OF initial usb_example_runs])
  moreover have "opened usb_example = [9]" "in_flight usb_example = []"
      "close_deferred usb_example 9"
    unfolding usb_example_def by (simp_all add: usb_run_simps close_deferred_def Let_def)
  ultimately show ?thesis using usb_closes_complete [of usb_example "[]"] by auto
qed

end
