(* ===== verification/Enrolled.thy ===== *)
theory Enrolled
  imports Storage
begin

text \<open>
  The templates of this program in the store (\<^verbatim>\<open>enrollment.c\<close>: \<^verbatim>\<open>fpc_native_enrollment_finish\<close>,
  \<^verbatim>\<open>fingerprint.cpp\<close>: \<^verbatim>\<open>validate\<close>, \<^verbatim>\<open>serialize_native_template\<close>,
  \<^verbatim>\<open>insert_or_update\<close>). \<open>retained_ok\<close> is the invariant of such a template: a finished enrollment
  establishes it, an adaptation keeps it, and it is what makes a template fit for the store. Then come the
  theorems about the operations of the store: they are atomic, durable and survive a restart.
\<close>

subsection \<open>Templates of this program\<close>

text \<open>A template that this program makes: a well-formed graph for 32 slots that orders them, an age for
  each, as many captures as it has slots in use, all of them stored captures.\<close>

definition retained_ok :: "fpc_loaded_template \<Rightarrow> bool" where
  "retained_ok t \<longleftrightarrow>
     template_inv t \<and> rg_capacity (lt_graph t) = 32 \<and> rg_score_count (lt_graph t) = table_size 32
     \<and> rg_age_count (lt_graph t) = 32 \<and> rg_ages (lt_graph t) \<noteq> None \<and> rg_used (lt_graph t) \<noteq> 0
     \<and> lc_capacity (lt_collection t) = 32 \<and> list_all stored_ok (lc_captures (lt_collection t))
     \<and> distinct (arr (rg_order (lt_graph t))) \<and> list_all (\<lambda>s. unat s < 32) (arr (rg_order (lt_graph t)))
     \<and> rg_protected_count (lt_graph t) \<le> 32 \<and> rg_protected_limit (lt_graph t) \<le> 32"

lemma stored_captures:
  assumes "list_all stored_ok vs" "vs \<noteq> []" "length vs \<le> 32"
  shows "collection_storable vs 32" "length (collection_bytes vs 32) \<le> 180000"
proof -
  have b: "list_all (\<lambda>v. length (view_bytes v) \<le> 5500) vs"
    using assms(1) stored_bytes by (auto simp: list_all_iff)
  have l: "length (frames (capture_blocks 0 vs)) \<le> length vs * 5512"
    using length_frames_blocks [OF b] by simp
  also have "\<dots> \<le> 32 * 5512" using assms(3) by (intro mult_right_mono) simp_all
  finally show s: "length (collection_bytes vs 32) \<le> 180000" by (simp add: length_collection_bytes)
  have "storable v" if "v \<in> set vs" for v
    using that assms(1) stored_bytes [of v] by (auto simp: list_all_iff storable_def stored_ok_def)
  then show "collection_storable vs 32"
    using assms s by (simp add: collection_storable_def list_all_iff SIZE_MAX_def)
qed

lemma retained_okD:
  assumes "retained_ok t"
  shows "graph_wf (lt_graph t)" "rg_capacity (lt_graph t) = 32" "rg_score_count (lt_graph t) = table_size 32"
    "rg_age_count (lt_graph t) = 32" "rg_ages (lt_graph t) \<noteq> None" "rg_used (lt_graph t) \<noteq> 0"
    "lc_capacity (lt_collection t) = 32" "list_all stored_ok (lc_captures (lt_collection t))"
    "lc_captures (lt_collection t) \<noteq> []" "length (lc_captures (lt_collection t)) \<le> 32"
    "length (lc_captures (lt_collection t)) = unat (rg_used (lt_graph t))"
proof -
  note t = assms [unfolded retained_ok_def template_inv_def]
  show "graph_wf (lt_graph t)" "rg_capacity (lt_graph t) = 32" "rg_score_count (lt_graph t) = table_size 32"
    "rg_age_count (lt_graph t) = 32" "rg_ages (lt_graph t) \<noteq> None" "rg_used (lt_graph t) \<noteq> 0"
    "lc_capacity (lt_collection t) = 32" "list_all stored_ok (lc_captures (lt_collection t))"
    "length (lc_captures (lt_collection t)) = unat (rg_used (lt_graph t))"
    using t by blast+
  then show "lc_captures (lt_collection t) \<noteq> []" by (auto simp: unat_eq_0)
  have "unat (rg_used (lt_graph t)) \<le> unat (rg_capacity (lt_graph t))"
    using t by (auto simp: graph_wf_def word_le_nat_alt)
  then show "length (lc_captures (lt_collection t)) \<le> 32" using t by simp
qed

definition template_file :: "fpc_loaded_template \<Rightarrow> u8 list" where
  "template_file t = template_bytes (lt_graph t) (lc_captures (lt_collection t)) 32 (lt_metadata t)"

text \<open>What the store holds of a fingerprint is the file of such a template.\<close>

definition own_template :: "u8 list \<Rightarrow> bool" where
  "own_template native \<longleftrightarrow> (\<exists>t. retained_ok t \<and> native = template_file t)"

definition own_records :: "Records \<Rightarrow> bool" where
  "own_records db \<longleftrightarrow> (\<forall>user name p. find_record db user name = Some p \<longrightarrow> own_template (fp_native p))"

lemma retained_storable:
  assumes "retained_ok t"
  shows "template_storable (lt_graph t) (lc_captures (lt_collection t)) 32 32"
    "length (template_bytes (lt_graph t) (lc_captures (lt_collection t)) 32 (lt_metadata t)) \<le> 200000"
proof -
  note t = retained_okD [OF assms]
  note c = stored_captures [OF t(8,9,10)]
  have g: "length (graph_bytes (lt_graph t) 0) \<le> 5000"
    using length_graph_bytes [OF t(1), of 0] t(2) by (simp add: table_size_def)
  obtain ages where a: "rg_ages (lt_graph t) = Some ages" "length ages = 32"
    using t(1,4,5) by (auto simp: graph_wf_def)
  have l: "length (template_bytes (lt_graph t) (lc_captures (lt_collection t)) 32 m) \<le> 200000" for m
    using g c(2) a half.length_concat [of ages] by (simp add: template_bytes_def Let_def frames_Cons)
  then show "length (template_bytes (lt_graph t) (lc_captures (lt_collection t)) 32 (lt_metadata t)) \<le> 200000" .
  show "template_storable (lt_graph t) (lc_captures (lt_collection t)) 32 32"
    using t c(1) l [of 0] by (simp add: template_storable_def INT32_MAX_def)
qed

lemma check_order_ok:
  assumes "length seen = 32" "distinct (map (\<lambda>i. unat (order ! i)) is)"
    "\<forall>i \<in> set is. i < length order \<and> unat (order ! i) < 32 \<and> \<not> seen ! unat (order ! i)"
  shows "check_order order seen is = Some (Inr ())"
  using assms
proof (induction "is" arbitrary: seen)
  case (Cons i "is")
  then have "check_order order (seen[unat (order ! i) := True]) is = Some (Inr ())"
    by (intro Cons.IH) (auto simp: nth_list_update)
  with Cons.prems show ?case by (auto simp: rd_def not_le)
qed simp

lemma retained_order:
  assumes "retained_ok t"
  shows "check_order (arr (rg_order (lt_graph t))) (replicate 32 False) [0..<32] = Some (Inr ())"
proof -
  let ?o = "arr (rg_order (lt_graph t))"
  have o: "length ?o = 32" "distinct ?o" "list_all (\<lambda>s. unat s < 32) ?o"
    using assms retained_okD(1,2) [OF assms] by (auto simp: retained_ok_def graph_wf_def)
  have "map (\<lambda>i. unat (?o ! i)) [0..<length ?o] = map unat ?o"
    by (rule nth_equalityI) simp_all
  then have "map (\<lambda>i. unat (?o ! i)) [0..<32] = map unat ?o" by (simp only: o(1))
  moreover have "distinct (map unat ?o)" using o(2) by (auto simp: distinct_map intro!: inj_onI word_unat_eq_iff [THEN iffD2])
  ultimately have "distinct (map (\<lambda>i. unat (?o ! i)) [0..<32])" by (simp only:)
  then show ?thesis using o by (intro check_order_ok) (auto simp: list_all_length)
qed

lemma loaded_captures: "list_all stored_ok vs \<Longrightarrow> map loaded_view vs = vs"
  by (auto simp: list_all_iff stored_ok_def intro: map_idI)

lemma retained_load:
  assumes "retained_ok t" "\<And>n. al n"
  shows "fpc_template_load_default al (template_file t) 32
    = Some (Inr t)"
  using template_bytes_load [OF retained_storable(1) [OF assms(1)], of al "lt_metadata t"] assms(2)
    loaded_captures [OF retained_okD(8) [OF assms(1)]] retained_okD(7) [OF assms(1)]
  by (cases t, cases "lt_collection t") (simp add: template_file_def)

lemma stored_not_foreign: "stored_ok v \<Longrightarrow> \<not> foreign_capture v"
  by (auto simp: stored_ok_def view_rejected_def foreign_capture_def word_less_nat_alt)

lemma retained_valid:
  assumes "retained_ok t" "\<And>n. al n"
  shows "validate al (template_file t) = Some (Inr ())"
proof -
  have "\<not> list_ex foreign_capture (lc_captures (lt_collection t))"
    using retained_okD(8) [OF assms(1)] stored_not_foreign by (auto simp: list_all_iff list_ex_iff)
  then show ?thesis
    using retained_load [OF assms] retained_order [OF assms(1)] retained_storable(2) [OF assms(1)]
      retained_okD(2,7,10) [OF assms(1)] assms(1)
    by (simp add: validate_def attempt_def retained_ok_def not_less template_file_def)
qed

lemma retained_serialize:
  assumes "retained_ok t"
  shows "serialize_native_template t
    = Some (Inr (template_file t))"
proof -
  let ?b = "template_bytes (lt_graph t) (lc_captures (lt_collection t)) 32 (lt_metadata t)"
  note w = template_writes [where metadata = "lt_metadata t", OF retained_storable(1) [OF assms]]
  show ?thesis
    using w(1) w(2) [where buf = "replicate (length ?b) 0"] retained_okD(7) [OF assms]
    by (simp add: serialize_native_template_def template_file_def)
qed

subsection \<open>Enrollment makes such a template\<close>

lemma order_of_perm:
  assumes "mset ns = mset [0..<32]"
  shows "distinct (map of_nat ns :: u16 list)" "list_all (\<lambda>s. unat s < 32) (map of_nat ns :: u16 list)"
proof -
  have s: "set ns = {0..<32}" using mset_eq_setD [OF assms] by simp
  have d: "distinct ns" using assms by (metis distinct_upt mset_eq_imp_distinct_iff)
  have u: "unat (of_nat k :: u16) = k" if "k < 32" for k using that by (simp add: unat_of_nat take_bit_nat_eq_self)
  have "inj_on (of_nat :: nat \<Rightarrow> u16) (set ns)"
  proof (rule inj_onI)
    fix x y assume "x \<in> set ns" "y \<in> set ns" "(of_nat x :: u16) = of_nat y"
    with u [of x] u [of y] s show "x = y" by (metis atLeastLessThan_iff)
  qed
  with d show "distinct (map of_nat ns :: u16 list)" by (simp add: distinct_map)
  show "list_all (\<lambda>s. unat s < 32) (map of_nat ns :: u16 list)" using s u by (simp add: list_all_iff)
qed

lemma session_order_perm:
  assumes "n \<le> 32"
  shows "mset (sort_key f [0..<n] @ [n..<32]) = mset [0..<32]"
proof -
  have "mset (sort_key f [0..<n] @ [n..<32]) = mset ([0..<n] @ [n..<32])" by simp
  also have "[0..<n] @ [n..<32] = [0..<32]" using assms by (metis le0 le_add_diff_inverse upt_add_eq_append)
  finally show ?thesis .
qed

lemma session_template_retained:
  assumes "template_storable (session_graph scores (length vs)) vs 32 32" "list_all stored_ok vs" "length vs \<le> 13"
  shows "retained_ok \<lparr>lt_graph = session_graph scores (length vs),
    lt_collection = \<lparr>lc_captures = vs, lc_capacity = 32\<rparr>, lt_metadata = 0\<rparr>"
proof -
  note o = order_of_perm [OF session_order_perm [of "length vs" "capture_cost 32 scores (length vs)"]]
  obtain ages where "graph_wf (session_graph scores (length vs))" "rg_used (session_graph scores (length vs)) \<noteq> 0"
    "unat (rg_used (session_graph scores (length vs))) = length vs"
    using assms(1) by (rule template_storableE)
  then show ?thesis
    using o assms by (simp add: retained_ok_def template_inv_def session_graph_def created_graph_def session_order_def)
qed

lemma finished_retained:
  assumes "session_live s" "\<And>n. al n" "fpc_native_enrollment_finish al s False = Some (Inr t)"
  shows "retained_ok t"
proof -
  have f: "\<not> se_failed s" "pg_complete (qs_progress (se_quality s)) \<noteq> 0"
    using assms(3) by (auto simp: fpc_native_enrollment_finish_def split: if_splits)
  obtain scores where t: "t = \<lparr>lt_graph = session_graph scores (se_count s),
        lt_collection = \<lparr>lc_captures = take (se_count s) (se_captures s), lc_capacity = 32\<rparr>, lt_metadata = 0\<rparr>"
    "template_storable (session_graph scores (se_count s)) (take (se_count s) (se_captures s)) 32 32"
    using finish_spec [where al = al, OF assms(1) f assms(2)] assms(3) by auto
  have "list_all stored_ok (take (se_count s) (se_captures s))" "length (take (se_count s) (se_captures s)) = se_count s"
    "se_count s \<le> 13"
    using assms(1) by (simp_all add: session_live_def session_ok_def session_arrays_def)
  then show ?thesis
    using session_template_retained [of scores "take (se_count s) (se_captures s)"] t by simp
qed

subsection \<open>An adaptation keeps it such a template\<close>

lemma retained_ages:
  assumes "retained_ok t"
  shows "fpc_retained_graph_increment_ages (lt_graph t) = (e, g) \<Longrightarrow> retained_ok (t\<lparr>lt_graph := g\<rparr>)"
    and "retained_ok (t\<lparr>lt_graph := snd (fpc_retained_graph_reset_age (lt_graph t) i)\<rparr>)"
proof -
  have t: "template_inv t" using assms by (simp add: retained_ok_def)
  show "retained_ok (t\<lparr>lt_graph := g\<rparr>)" if g: "fpc_retained_graph_increment_ages (lt_graph t) = (e, g)"
    using ages_inv(1) [OF t g] g assms
    by (auto simp: retained_ok_def fpc_retained_graph_increment_ages_def Let_def split: if_splits)
  show "retained_ok (t\<lparr>lt_graph := snd (fpc_retained_graph_reset_age (lt_graph t) i)\<rparr>)"
    using ages_inv(2) [OF t, of i] assms by (auto simp: retained_ok_def fpc_retained_graph_reset_age_def)
qed

lemma stored_update: "list_all P xs \<Longrightarrow> P x \<Longrightarrow> list_all P (xs[i := x])"
  by (auto simp: list_all_iff dest!: set_update_subset_insert [THEN subsetD])

lemma retained_retains:
  assumes "retained_ok t" "stored_ok incoming" "protection \<le> 32" "x \<le> unat (rg_used (lt_graph t))" "x < 32"
  shows "retained_ok (retained t scores protection incoming x)"
proof -
  let ?u = "unat (rg_used (lt_graph t))"
  note t = retained_okD [OF assms(1)]
  have inv: "template_inv t" using assms(1) by (simp add: retained_ok_def)
  have cap: "x < unat (rg_capacity (lt_graph t))" using t(2) assms(5) by simp
  note i = write_row_length_inv [OF inv assms(4) cap, of scores protection incoming]
  have "?u \<noteq> 0" using t(6) by (simp add: unat_eq_0)
  then have "length (lc_captures (lt_collection (retained t scores protection incoming x))) \<noteq> 0"
    using t(9) by (simp add: retained_def Let_def)
  then have u: "rg_used (lt_graph (retained t scores protection incoming x)) \<noteq> 0"
    using i by (auto simp: template_inv_def)
  have s: "list_all stored_ok (lc_captures (lt_collection (retained t scores protection incoming x)))"
    using t(8) assms(2) by (simp add: retained_def Let_def stored_update)
  show ?thesis
    using assms(1,3) i u s by (simp add: retained_ok_def) (simp add: retained_def Let_def)
qed

lemma update_retained:
  assumes "retained_ok t" "stored_ok incoming" "up_protection policy \<le> 32"
  shows "\<exists>t'. ur_template (fpc_update_template_after_match al aliased (Some t) incoming q28 q32 q16 spatial policy state)
      = Some t' \<and> retained_ok t'"
proof -
  obtain e g where inc: "fpc_retained_graph_increment_ages (lt_graph t) = (e, g)"
    by (cases "fpc_retained_graph_increment_ages (lt_graph t)") auto
  define t1 where "t1 = t\<lparr>lt_graph := snd (fpc_retained_graph_reset_age g (us_selected_capture state))\<rparr>"
  have g: "retained_ok (t\<lparr>lt_graph := g\<rparr>)" using assms(1) inc by (rule retained_ages(1))
  then have t1: "retained_ok t1"
    using retained_ages(2) [of "t\<lparr>lt_graph := g\<rparr>" "us_selected_capture state"] by (simp add: t1_def)
  obtain st t2 inc' sel where ret: "fpc_loaded_template_retain_capture al aliased t1 spatial
      (up_protection policy) incoming = (st, t2, inc', sel)"
    by (cases "fpc_loaded_template_retain_capture al aliased t1 spatial (up_protection policy) incoming") auto
  have inv: "template_inv t1" using t1 by (simp add: retained_ok_def)
  have t2: "retained_ok t2"
  proof -
    consider "t2 = t1" | "t2 = reprotected t1 (up_protection policy)"
      | "nat sel \<le> unat (rg_used (lt_graph t1))" "nat sel < unat (rg_capacity (lt_graph t1))"
        "t2 = retained t1 (take (unat (rg_used (lt_graph t1))) (arr spatial) @ replicate (80 - unat (rg_used (lt_graph t1))) 0)
           (up_protection policy) incoming (nat sel)"
      using retain_capture_cases [OF inv ret] by blast
    then show ?thesis
    proof cases
      case 1 then show ?thesis using t1 by simp
    next
      case 2
      then show ?thesis using t1 assms(3) reprotected_inv [OF inv] by (simp add: retained_ok_def reprotected_def)
    next
      case 3
      then show ?thesis using retained_retains [OF t1 assms(2,3)] retained_okD(2) [OF t1] by simp
    qed
  qed
  note t3 = retained_ages(2) [OF t2]
  show ?thesis
    using assms(1) g t1 t2 t3 ret
    by (auto simp: fpc_update_template_after_match_def inc Let_def t1_def [symmetric])
qed

subsection \<open>The operations of the store\<close>

text \<open>(C6) Restarting loses nothing: when a save succeeds, then opening the file it leaves, with
  the same key and for the same reader, succeeds and brings back exactly the records that were saved
  (a user without records is forgotten), and this for every store that is consistent, every nonce and
  every authenticated encryption.\<close>

theorem storage_restart_roundtrip:
  assumes "db_ok al (fs_fingerprints st)" "aead seal unseal" "nonce_ok answers"
    and "save seal answers st old = Some (True, file')"
    and "fs_hardware_id fresh = fs_hardware_id st"
  shows "init unseal al file' (fs_filename st) (fs_key st) fresh
      = Some (Inr (), fresh\<lparr>fs_filename := fs_filename st, fs_key := fs_key st,
                            fs_fingerprints := nonempty_users (fs_fingerprints st)\<rparr>)
    \<and> find_record (nonempty_users (fs_fingerprints st)) = find_record (fs_fingerprints st)"
proof -
  obtain nonce where "database_file seal nonce st \<noteq> None" using save_cases [OF assms(4)] by auto
  then have "length (fs_key st) = 32"
    by (auto simp: database_file_def plain_database_def split: option.splits if_splits)
  moreover have "load unseal al file' (fresh\<lparr>fs_filename := fs_filename st, fs_key := fs_key st\<rparr>)
    = Some (Inr (fresh\<lparr>fs_filename := fs_filename st, fs_key := fs_key st,
        fs_fingerprints := nonempty_users (fs_fingerprints st)\<rparr>))"
    by (rule save_then_load [OF assms(1-4)]) (simp_all add: assms(5))
  ultimately show ?thesis using find_nonempty [OF db_okD(1) [OF assms(1)]] by (simp add: init_def)
qed

lemma insert_atomic:
  assumes "db_ok al (fs_fingerprints st)" "aead seal unseal" "nonce_ok answers"
    and "insert_or_update seal answers al print st old = Some (Inr (ok, st', file'))"
  shows "if ok
    then find_record (fs_fingerprints st') = (find_record (fs_fingerprints st))
           (fp_user print := (find_record (fs_fingerprints st) (fp_user print))
             (fp_name print \<mapsto> print\<lparr>fp_registration :=
                next_registration (fs_fingerprints st) (fp_user print) (fp_name print)\<rparr>))
      \<and> db_ok al (fs_fingerprints st')
      \<and> load unseal al file' st = Some (Inr (st'\<lparr>fs_fingerprints := nonempty_users (fs_fingerprints st')\<rparr>))
    else st' = st \<and> file' = old"
proof (cases ok)
  case True
  let ?db' = "put (fp_user print) (put (fp_name print) (print\<lparr>fp_registration :=
      next_registration (fs_fingerprints st) (fp_user print) (fp_name print)\<rparr>)
      (user_map (fs_fingerprints st) (fp_user print))) (fs_fingerprints st)"
  have c: "st' = st\<lparr>fs_fingerprints := ?db'\<rparr>" "db_ok al ?db'" "save seal answers st' old = Some (True, file')"
    "find_record ?db' = (find_record (fs_fingerprints st))
           (fp_user print := (find_record (fs_fingerprints st) (fp_user print))
             (fp_name print \<mapsto> print\<lparr>fp_registration :=
                next_registration (fs_fingerprints st) (fp_user print) (fp_name print)\<rparr>))"
    using insert_or_update_cases [OF assms(1,4), unfolded Let_def] True by auto
  have "load unseal al file' st = Some (Inr (st\<lparr>fs_fingerprints := nonempty_users (fs_fingerprints st')\<rparr>))"
    by (rule save_then_load [OF _ assms(2,3) c(3)]) (simp_all add: c(1,2))
  with c True show ?thesis by simp
next
  case False
  then show ?thesis using insert_or_update_cases [OF assms(1,4)] by (simp add: Let_def)
qed

text \<open>(C7) Storing a fingerprint is atomic and durable: the finger name and the template are
  valid; when the call reports success, exactly the record of that user and finger changed in memory,
  with its old registration or one above all others, the store is consistent and the file holds it;
  when it reports failure, neither the records nor the file changed, whatever the random generator
  and the file system answered.\<close>

theorem storage_insert_atomic:
  assumes "db_ok al (fs_fingerprints st)" "aead seal unseal" "nonce_ok answers"
    and "insert_or_update seal answers al print st old = Some (Inr (ok, st', file'))"
  shows "if ok
    then find_record (fs_fingerprints st') = (find_record (fs_fingerprints st))
           (fp_user print := (find_record (fs_fingerprints st) (fp_user print))
             (fp_name print \<mapsto> print\<lparr>fp_registration :=
                next_registration (fs_fingerprints st) (fp_user print) (fp_name print)\<rparr>))
      \<and> db_ok al (fs_fingerprints st')
      \<and> load unseal al file' st = Some (Inr (st'\<lparr>fs_fingerprints := nonempty_users (fs_fingerprints st')\<rparr>))
    else st' = st \<and> file' = old"
  by (rule insert_atomic [OF assms])

lemma commit_atomic:
  assumes "db_ok al db'" "aead seal unseal" "nonce_ok answers" "committed seal answers db' st old = Some (ok, st', file')"
  shows "if ok then st' = st\<lparr>fs_fingerprints := db'\<rparr>
      \<and> load unseal al file' st = Some (Inr (st'\<lparr>fs_fingerprints := nonempty_users db'\<rparr>))
    else st' = st \<and> file' = old"
proof (cases ok)
  case True
  with committed_cases [OF assms(4)] have c: "st' = st\<lparr>fs_fingerprints := db'\<rparr>" "save seal answers st' old = Some (True, file')"
    by auto
  have "load unseal al file' st = Some (Inr (st\<lparr>fs_fingerprints := nonempty_users (fs_fingerprints st')\<rparr>))"
    by (rule save_then_load [OF _ assms(2,3) c(2)]) (simp_all add: c(1) assms(1))
  with c True show ?thesis by simp
next
  case False
  with committed_cases [OF assms(4)] show ?thesis by simp
qed

text \<open>(C8) Deleting is atomic and durable: on success exactly the named record, or all records of
  the user, are gone from memory and from the file, and the store stays consistent; otherwise neither
  the records nor the file changed.\<close>

theorem storage_delete_atomic:
  assumes "db_ok al (fs_fingerprints st)" "aead seal unseal" "nonce_ok answers"
    and "(case which of None \<Rightarrow> delete_all seal answers user st old
          | Some name \<Rightarrow> delete_fingerprint seal answers user name st old) = Some (ok, st', file')"
  shows "if ok
    then find_record (fs_fingerprints st') = (\<lambda>u n.
           if u = user \<and> (case which of None \<Rightarrow> True | Some name \<Rightarrow> n = name) then None
           else find_record (fs_fingerprints st) u n)
      \<and> db_ok al (fs_fingerprints st')
      \<and> load unseal al file' st = Some (Inr (st'\<lparr>fs_fingerprints := nonempty_users (fs_fingerprints st')\<rparr>))
    else st' = st \<and> file' = old"
proof (cases which)
  case None
  let ?db' = "AList.delete user (fs_fingerprints st)"
  have c: "committed seal answers ?db' st old = Some (ok, st', file')"
    using assms(4) None by (simp add: delete_all_def)
  have ok': "db_ok al ?db'" by (rule db_ok_delete_user [OF assms(1)])
  have "find_record ?db' = (\<lambda>u n. if u = user \<and> True then None else find_record (fs_fingerprints st) u n)"
    by (simp add: fun_eq_iff)
  with commit_atomic [OF ok' assms(2,3) c] ok' None show ?thesis by (cases ok) simp_all
next
  case (Some name)
  let ?db' = "put user (AList.delete name (user_map (fs_fingerprints st) user)) (fs_fingerprints st)"
  show ?thesis
  proof (cases "check st user name")
    case False
    with assms(4) Some show ?thesis by (simp add: delete_fingerprint_def)
  next
    case True
    then have c: "committed seal answers ?db' st old = Some (ok, st', file')"
      using assms(4) Some by (simp add: delete_fingerprint_def user_records_map)
    have ok': "db_ok al ?db'" by (rule db_ok_delete_name [OF assms(1)])
    have "find_record ?db' = (\<lambda>u n. if u = user \<and> n = name then None else find_record (fs_fingerprints st) u n)"
      by (auto simp: fun_eq_iff map_of_user_map delete_conv)
    with commit_atomic [OF ok' assms(2,3) c] ok' Some show ?thesis by (cases ok) simp_all
  qed
qed

lemma own_insert:
  assumes "db_ok al (fs_fingerprints st)" "own_records (fs_fingerprints st)" "own_template (fp_native print)"
    "insert_or_update seal answers al print st old = Some (Inr (ok, st', file'))"
  shows "db_ok al (fs_fingerprints st') \<and> own_records (fs_fingerprints st')"
  using insert_or_update_cases [OF assms(1,4), unfolded Let_def] assms(1-3)
  by (cases ok) (auto simp: own_records_def split: if_splits)


subsection \<open>A store with a record\<close>

definition plain_seal :: "u8 list \<Rightarrow> u8 list \<Rightarrow> u8 list \<Rightarrow> u8 list \<Rightarrow> u8 list \<times> u8 list" where
  "plain_seal associated nonce key plain = (plain, replicate 16 (fold (+) (associated @ nonce @ key @ plain) 0))"

definition plain_unseal :: "u8 list \<Rightarrow> u8 list \<Rightarrow> u8 list \<Rightarrow> u8 list \<Rightarrow> u8 list \<Rightarrow> u8 list option" where
  "plain_unseal associated nonce key cipher tag =
     (if tag = replicate 16 (fold (+) (associated @ nonce @ key @ cipher) 0) then Some cipher else None)"

lemma plain_aead: "aead plain_seal plain_unseal"
  by (simp add: aead_def plain_seal_def plain_unseal_def)

definition good_answers :: "nat \<Rightarrow> save_answers" where
  "good_answers n = \<lparr>sa_nonce = Some (replicate 12 9), sa_directory = True, sa_temporary = True, sa_mode = True,
     sa_writes = [Interrupted, Wrote 30, Wrote n], sa_sync = True, sa_closed = True, sa_renamed = True\<rparr>"

lemma good_nonce: "nonce_ok (good_answers n)"
  by (simp add: nonce_ok_def good_answers_def)

lemma good_save:
  assumes "plain_database st = Some plain" "length plain = n"
  shows "save plain_seal (good_answers (n + 6)) st old
    = Some (True, Some (magic @ replicate 12 9 @ plain @ snd (plain_seal magic (replicate 12 9) (fs_key st) plain)))"
proof -
  have "length magic = 8" by (simp add: magic_def ascii_def)
  then show ?thesis using assms by (simp add: save_def good_answers_def plain_seal_def)
qed

definition sample_print :: Fingerprint where
  "sample_print = \<lparr>fp_user = ascii ''ada'', fp_name = ascii ''left-thumb'', fp_native = [], fp_registration = 0\<rparr>"

definition sample_store :: FingerprintStorage where
  "sample_store = \<lparr>fs_filename = ascii ''db'', fs_key = replicate 32 7, fs_fingerprints = [], fs_dead_pixels = [],
     fs_hardware_id = 3\<rparr>"

definition stored_store :: "u8 list \<Rightarrow> FingerprintStorage" where
  "stored_store native = sample_store\<lparr>fs_fingerprints :=
     [(fp_user sample_print, [(fp_name sample_print, sample_print\<lparr>fp_native := native, fp_registration := 1\<rparr>)])]\<rparr>"

lemma sample_names: "valid_name (fp_name sample_print)" "string_ok (fp_user sample_print)" "string_ok (fp_name sample_print)"
  by (simp_all add: sample_print_def valid_name_def finger_names_def string_ok_def ascii_def)

lemma stored_plain:
  assumes "length native \<le> 200000"
  shows "\<exists>plain. plain_database (stored_store native) = Some plain"
  using assms sample_names(2,3)
  by (simp add: plain_database_def stored_store_def sample_store_def record_count_def all_records_def append_record_eq
      append_records_eq maximum_file_def record_bytes_def string_bytes_def sample_print_def ascii_def)

lemma sample_insert:
  assumes "own_template native" "\<And>n. al n"
  shows "\<exists>n file'. insert_or_update plain_seal (good_answers n) al (sample_print\<lparr>fp_native := native\<rparr>) sample_store None
    = Some (Inr (True, stored_store native, file'))"
proof -
  from assms(1) obtain t where t: "retained_ok t" "native = template_file t" by (auto simp: own_template_def)
  have v: "validate al native = Some (Inr ())" unfolding t(2) by (rule retained_valid [OF t(1) assms(2)])
  obtain plain where "plain_database (stored_store native) = Some plain"
    using stored_plain [OF validate_length [OF v]] by blast
  from good_save [OF this refl] obtain file' where
    "save plain_seal (good_answers (length plain + 6)) (stored_store native) None = Some (True, file')" by blast
  then have "insert_or_update plain_seal (good_answers (length plain + 6)) al (sample_print\<lparr>fp_native := native\<rparr>) sample_store None
    = Some (Inr (True, stored_store native, file'))"
    using v sample_names(1)
    by (simp add: insert_or_update_def attempt_def Let_def check_def committed_def stored_store_def sample_store_def
        last_registration_def all_records_def user_records_def)
  then show ?thesis by blast
qed


lemma sample_own: "\<exists>t. fpc_native_enrollment_finish (\<lambda>_. True) sample_session False = Some (Inr t) \<and> retained_ok t"
proof -
  have "\<not> se_failed sample_session" "pg_complete (qs_progress (se_quality sample_session)) \<noteq> 0"
    by (simp_all add: sample_session_def fpc_native_enrollment_create_def)
  from finish_spec [OF sample_session_live this, of "\<lambda>_. True"] obtain t where
    "fpc_native_enrollment_finish (\<lambda>_. True) sample_session False = Some (Inr t)" by auto
  with finished_retained [OF sample_session_live, of "\<lambda>_. True"] show ?thesis by blast
qed

lemma sample_own_empty: "db_ok al (fs_fingerprints sample_store)" "own_records (fs_fingerprints sample_store)"
  by (simp_all add: sample_store_def own_records_def find_record_def)


lemma sample_record: "\<exists>native. own_template native"
  using sample_own by (auto simp: own_template_def)

lemma sample_stored:
  assumes "own_template native"
  shows "db_ok (\<lambda>_. True) (fs_fingerprints (stored_store native))" "own_records (fs_fingerprints (stored_store native))"
proof -
  obtain n file' where "insert_or_update plain_seal (good_answers n) (\<lambda>_. True) (sample_print\<lparr>fp_native := native\<rparr>) sample_store None
    = Some (Inr (True, stored_store native, file'))" using sample_insert [OF assms, of "\<lambda>_. True"] by auto
  from own_insert [OF sample_own_empty _ this] assms
  show "db_ok (\<lambda>_. True) (fs_fingerprints (stored_store native))" "own_records (fs_fingerprints (stored_store native))"
    by simp_all
qed

theorem storage_insert_atomic_witness:
  "\<exists>native n file'. insert_or_update plain_seal (good_answers n) (\<lambda>_. True) (sample_print\<lparr>fp_native := native\<rparr>) sample_store None
      = Some (Inr (True, stored_store native, file'))
    \<and> load plain_unseal (\<lambda>_. True) file' sample_store = Some (Inr (stored_store native))"
proof -
  obtain native where native: "own_template native" using sample_record by blast
  then obtain n file' where run: "insert_or_update plain_seal (good_answers n) (\<lambda>_. True) (sample_print\<lparr>fp_native := native\<rparr>)
      sample_store None = Some (Inr (True, stored_store native, file'))" using sample_insert [of native "\<lambda>_. True"] by auto
  moreover have "(stored_store native)\<lparr>fs_fingerprints := nonempty_users (fs_fingerprints (stored_store native))\<rparr>
      = stored_store native" by (simp add: stored_store_def nonempty_users_def)
  ultimately show ?thesis
    using storage_insert_atomic [OF sample_own_empty(1) plain_aead good_nonce run] by auto
qed

theorem storage_restart_roundtrip_witness:
  "\<exists>native n file'. save plain_seal (good_answers n) (stored_store native) None = Some (True, file')
    \<and> init plain_unseal (\<lambda>_. True) file' (fs_filename sample_store) (fs_key sample_store) (reset sample_store)
        = Some (Inr (), stored_store native\<lparr>fs_dead_pixels := []\<rparr>)"
proof -
  obtain native where native: "own_template native" using sample_record by blast
  then obtain t where t: "retained_ok t" "native = template_file t" by (auto simp: own_template_def)
  have "length native \<le> 200000" unfolding t(2) using validate_length [OF retained_valid [OF t(1), of "\<lambda>_. True"]] by simp
  then obtain plain where "plain_database (stored_store native) = Some plain" using stored_plain by blast
  from good_save [OF this refl] obtain file' where
    run: "save plain_seal (good_answers (length plain + 6)) (stored_store native) None = Some (True, file')" by blast
  have f: "fs_filename (stored_store native) = fs_filename sample_store" "fs_key (stored_store native) = fs_key sample_store"
    "fs_hardware_id (reset sample_store) = fs_hardware_id (stored_store native)"
    by (simp_all add: stored_store_def sample_store_def reset_def)
  have "(reset sample_store)\<lparr>fs_filename := fs_filename sample_store, fs_key := fs_key sample_store,
        fs_fingerprints := nonempty_users (fs_fingerprints (stored_store native))\<rparr>
      = stored_store native\<lparr>fs_dead_pixels := []\<rparr>"
    by (simp add: stored_store_def sample_store_def reset_def nonempty_users_def)
  then show ?thesis
    using storage_restart_roundtrip [OF sample_stored(1) [OF native] plain_aead good_nonce run f(3)] run
    unfolding f by auto
qed

theorem storage_delete_atomic_witness:
  "\<exists>native n st' file'. delete_fingerprint plain_seal (good_answers n) (fp_user sample_print) (fp_name sample_print)
      (stored_store native) None = Some (True, st', file')
    \<and> find_record (fs_fingerprints st') (fp_user sample_print) (fp_name sample_print) = None"
proof -
  obtain native where native: "own_template native" using sample_record by blast
  let ?db = "[(fp_user sample_print, [])] :: Records"
  let ?st = "stored_store native\<lparr>fs_fingerprints := ?db\<rparr>"
  have "\<exists>plain. plain_database ?st = Some plain"
    by (simp add: plain_database_def stored_store_def sample_store_def record_count_def all_records_def
        append_records_eq maximum_file_def ascii_def)
  then obtain plain where "plain_database ?st = Some plain" by blast
  from good_save [OF this refl] obtain file' where
    save: "save plain_seal (good_answers (length plain + 6)) ?st None = Some (True, file')" by blast
  have "put (fp_user sample_print) (AList.delete (fp_name sample_print) (user_records (stored_store native) (fp_user sample_print)))
      (fs_fingerprints (stored_store native)) = ?db" "check (stored_store native) (fp_user sample_print) (fp_name sample_print)"
    by (simp_all add: stored_store_def user_records_def check_def)
  then have run: "delete_fingerprint plain_seal (good_answers (length plain + 6)) (fp_user sample_print) (fp_name sample_print)
      (stored_store native) None = Some (True, ?st, file')"
    using save by (simp add: delete_fingerprint_def committed_def)
  then have "(case Some (fp_name sample_print) of
      None \<Rightarrow> delete_all plain_seal (good_answers (length plain + 6)) (fp_user sample_print) (stored_store native) None
    | Some name \<Rightarrow> delete_fingerprint plain_seal (good_answers (length plain + 6)) (fp_user sample_print) name (stored_store native) None)
    = Some (True, ?st, file')" by simp
  from storage_delete_atomic [OF sample_stored(1) [OF native] plain_aead good_nonce this] run show ?thesis
    by (intro exI [of _ native] exI [of _ "length plain + 6"] exI [of _ ?st] exI [of _ file']) simp
qed

end
