(* ===== verification/Verification.thy ===== *)
theory Verification
  imports Enrolled
begin

text \<open>
  Verification of a capture against the stored fingerprints (\<^verbatim>\<open>fingerprint.cpp\<close>:
  \<^verbatim>\<open>FingerprintStorage::verify\<close>): the templates of a user are loaded, the capture is
  identified, and the template that matched is adapted and saved. The lemmas compose the session, the
  template codec, the matcher and the template update: a finished enrollment can always be stored, and an
  adapted template can always be loaded again.
\<close>

subsection \<open>The operation\<close>

fun load_templates :: "(nat \<Rightarrow> bool) \<Rightarrow> Fingerprint list \<Rightarrow> (exn + fpc_loaded_template list) option" where
  "load_templates al [] = Some (Inr [])"
| "load_templates al (record # rest) =
     do { r \<leftarrow> fpc_template_load_default al (fp_native record) 32;
          case r of
            Inl _ \<Rightarrow> Some (Inl ''native stored template failed'')
          | Inr t \<Rightarrow> attempt (load_templates al rest) (\<lambda>ts. Some (Inr (t # ts))) }"

definition identification_policy :: fpc_identification_policy where
  "identification_policy =
     \<lparr>ip_threshold = 18, ip_reported_score_limit = 1000, ip_good_score_threshold = 5,
      ip_good_query_quality_threshold = 20\<rparr>"

definition update_policy :: fpc_template_update_policy where
  "update_policy =
     \<lparr>up_minimum_score = 25, up_protection = 8, up_minimum_quality28 = 25, up_minimum_quality32 = 60,
      up_minimum_quality16 = 32\<rparr>"

definition update_state :: "fpc_identification_result \<Rightarrow> fpc_template_update_state" where
  "update_state result =
     \<lparr>us_code = 102, us_matched = 1, us_update_allowed = 1, us_age_update_allowed = 1,
      us_reported_score = ir_reported_score result,
      us_selected_capture = sint (word_of_int (ir_selected_capture result) :: 8 word),
      us_changed = 0, us_retained_slot = - 1\<rparr>"

definition set_native :: "Fingerprint \<Rightarrow> u8 list \<Rightarrow> FingerprintStorage \<Rightarrow> FingerprintStorage" where
  "set_native record native st =
     st\<lparr>fs_fingerprints := put (fp_user record)
          (put (fp_name record) (record\<lparr>fp_native := native\<rparr>) (user_records st (fp_user record)))
          (fs_fingerprints st)\<rparr>"

text \<open>
  The adaptation of the record that matched. The matcher has marked the membership of the query in
  place (\<open>probe\<close> carries it). \<open>heap\<close> is what the candidate array of the matcher is allocated with.
\<close>

definition adapt ::
    "(u8 list \<Rightarrow> u8 list \<Rightarrow> u8 list \<Rightarrow> u8 list \<Rightarrow> u8 list \<times> u8 list) \<Rightarrow> save_answers \<Rightarrow> (nat \<Rightarrow> bool)
      \<Rightarrow> fpc_candidate list \<Rightarrow> fpc_prepared_capture \<Rightarrow> fpc_capture_payload_view \<Rightarrow> fpc_identification_result
      \<Rightarrow> Fingerprint \<Rightarrow> fpc_loaded_template \<Rightarrow> FingerprintStorage \<Rightarrow> u8 list option
      \<Rightarrow> (exn + bool \<times> FingerprintStorage \<times> u8 list option) option" where
  "adapt seal answers al heap query probe result record t st old =
     do { (m, membership) \<leftarrow> fpc_match_profile300_collection al heap (lt_collection t) probe (membership_bytes probe);
          case m of
            Inl _ \<Rightarrow> Some (Inl ''native update match failed'')
          | Inr match \<Rightarrow>
              let r = fpc_update_template_after_match al (\<lambda>_. False) (Some t) (update_membership membership probe)
                        (pc_confidence query) (pc_coverage query) (pc_quality query)
                        (Some (take (cm_count match) (cm_spatial_scores match))) update_policy (update_state result)
              in if ur_status r \<noteq> 0 then Some (Inl ''native template update failed'')
                 else if us_changed (ur_state r) = 0 then Some (Inr (True, st, old))
                 else case ur_template r of
                        None \<Rightarrow> None
                      | Some t' \<Rightarrow>
                          attempt (serialize_native_template t') (\<lambda>native.
                            do { (ok, new) \<leftarrow> save seal answers (set_native record native st) old;
                                 Some (Inr (True, if ok then set_native record native st else st, new)) }) }"

definition verify ::
    "(u8 list \<Rightarrow> u8 list \<Rightarrow> u8 list \<Rightarrow> u8 list \<Rightarrow> u8 list \<times> u8 list) \<Rightarrow> save_answers \<Rightarrow> (nat \<Rightarrow> bool)
      \<Rightarrow> fpc_candidate list \<Rightarrow> fpc_candidate list \<Rightarrow> u8 list \<Rightarrow> u8 list \<Rightarrow> fpc_prepared_capture
      \<Rightarrow> FingerprintStorage \<Rightarrow> u8 list option \<Rightarrow> (exn + bool \<times> FingerprintStorage \<times> u8 list option) option" where
  "verify seal answers al heap1 heap2 user name query st old =
     do { probe \<leftarrow> fpc_capture_from_prepared al query False;
          case probe of
            Inl _ \<Rightarrow> Some (Inl ''native query allocation failed'')
          | Inr probe \<Rightarrow>
              let records = filter (\<lambda>record. is_any name \<or> name = fp_name record) (in_order st user) in
              attempt (load_templates al records) (\<lambda>owned.
                do { (r, membership) \<leftarrow> fpc_identify_profile300 al heap1 (map lt_collection owned) probe
                        (pc_confidence query) (membership_bytes probe) identification_policy;
                     case r of
                       Inl _ \<Rightarrow> Some (Inl ''native identification failed'')
                     | Inr result \<Rightarrow>
                         if ir_matched result = 0 then Some (Inr (False, st, old))
                         else if ir_selected_template result < 0 \<or> int (length owned) \<le> ir_selected_template result
                         then Some (Inl ''out of range'')
                         else let index = nat (ir_selected_template result) in
                           adapt seal answers al heap2 query (update_membership membership probe) result
                             (records ! index) (owned ! index) st old }) }"


subsection \<open>Matching keeps the length of the membership\<close>

lemma match_captures_length:
  assumes "list_all view_ready vs" "view_ready query"
    "match_captures al query vs i previous pairs membership r = Some (out, membership')"
  shows "length membership' = length membership"
  using assms(1,3)
proof (induction vs arbitrary: i previous pairs membership r)
  case (Cons v vs)
  from Cons.prems(1) have ready: "view_ready v" by simp
  obtain m where m: "fpc_match_profile300_captures al v query membership pairs empty_result 0 = Some m"
    "length (mo_target m) = length membership"
    using match_captures_returns [OF ready assms(2)] by blast
  show ?case
  proof (cases "mo_status m = 0")
    case False
    then show ?thesis using Cons.prems(2) m by auto
  next
    case True
    then show ?thesis using Cons.prems m Cons.IH by (auto simp: Let_def)
  qed
qed simp

lemma match_collection_length:
  assumes "list_all view_ready (lc_captures c)" "view_ready query"
    "fpc_match_profile300_collection al heap c query membership = Some (out, membership')"
  shows "length membership' = length membership"
  using assms(3) match_captures_length [OF assms(1,2)]
  by (auto simp: fpc_match_profile300_collection_def Let_def split: if_splits Option.bind_splits)

lemma identify_loop_frame:
  assumes "\<And>c membership out membership'. c \<in> set cs \<Longrightarrow> match c membership = Some (out, membership') \<Longrightarrow>
      length membership' = length membership"
    "identify_loop match policy cs i membership r0 = Some (out, membership')"
    "ir_matched r0 = 0"
  shows "length membership' = length membership
    \<and> (\<forall>r. out = Inr r \<longrightarrow> ir_matched r = 0
          \<or> int i \<le> ir_selected_template r \<and> ir_selected_template r < int (i + length cs))"
  using assms
proof (induction cs arbitrary: i membership r0)
  case (Cons c cs)
  show ?case
  proof (cases "match c membership")
    case (Some a)
    then obtain m membership1 where m: "match c membership = Some (m, membership1)" by (cases a) auto
    have l: "length membership1 = length membership" by (rule Cons.prems(1) [OF _ m]) simp
    show ?thesis
    proof (cases m)
      case (Inl e)
      then show ?thesis using m l Cons.prems(2) by auto
    next
      case (Inr x)
      let ?r1 = "identify_step policy i x r0"
      have r1: "ir_matched ?r1 = 0 \<or> ir_matched ?r1 = 1 \<and> ir_selected_template ?r1 = int i"
        using Cons.prems(3) by (simp add: identify_step_def Let_def)
      show ?thesis
      proof (cases "ir_matched ?r1 = 1")
        case True
        then show ?thesis using m l Inr r1 Cons.prems(2) by (auto simp: Let_def)
      next
        case False
        then have "identify_loop match policy cs (i + 1) membership1 ?r1 = Some (out, membership')" "ir_matched ?r1 = 0"
          using m Inr r1 Cons.prems(2) by (auto simp: Let_def)
        from Cons.IH [OF _ this] Cons.prems(1) l show ?thesis by fastforce
      qed
    qed
  qed (use Cons.prems in simp)
qed auto

lemma identify_frame:
  assumes "list_all (\<lambda>c. list_all view_ready (lc_captures c)) cs" "view_ready query"
    "fpc_identify_profile300 al heap cs query quality membership policy = Some (out, membership')"
  shows "length membership' = length membership
    \<and> (\<forall>r. out = Inr r \<longrightarrow> ir_matched r = 0
          \<or> 0 \<le> ir_selected_template r \<and> ir_selected_template r < int (length cs))"
proof (cases "100 < length cs \<or> ip_reported_score_limit policy < 0")
  case False
  then obtain out1 where l: "identify_loop (\<lambda>c mem. fpc_match_profile300_collection al heap c query mem)
        policy cs 0 membership identify_start = Some (out1, membership')"
      "out = map_sum id (report_identification policy quality) out1"
    using assms(3) by (auto simp: fpc_identify_profile300_def split: Option.bind_splits)
  have "ir_matched identify_start = 0" by (simp add: identify_start_def)
  moreover have "length m' = length m"
    if "c \<in> set cs" "fpc_match_profile300_collection al heap c query m = Some (o1, m')" for c m o1 m'
    using that assms(1,2) by (intro match_collection_length [OF _ assms(2) that(2)]) (simp add: list_all_iff)
  ultimately have "length membership' = length membership \<and> (\<forall>r. out1 = Inr r \<longrightarrow> ir_matched r = 0
          \<or> int 0 \<le> ir_selected_template r \<and> ir_selected_template r < int (0 + length cs))"
    by (intro identify_loop_frame [OF _ l(1)]) blast+
  then show ?thesis using l(2) by (cases out1) (auto simp: report_identification_def)
qed (use assms(3) in \<open>auto simp: fpc_identify_profile300_def\<close>)

subsection \<open>A verification keeps the store\<close>

lemma probe_stored:
  assumes "prepared_ok p" "fpc_capture_from_prepared al p e = Some (Inr v)"
  shows "stored_ok v"
proof -
  have v: "v = loaded_view (trimmed_view p e)" using from_prepared_cases(1) [OF assms(1), of al e] assms(2) by auto
  have "vw_table_width v = 0" using trimmed_view_fields(6) [OF assms(1)] by (simp add: v loaded_view_def)
  with v show ?thesis
    using from_prepared_fields [OF assms(1), of e] loaded_view_ok [OF trimmed_view_ok [OF assms(1)], of e] assms(1)
    by (simp add: stored_ok_def loaded_view_idem prepared_ok_def)
qed

lemma load_own:
  assumes "list_all (\<lambda>p. own_template (fp_native p)) records" "\<And>n. al n"
  shows "\<exists>ts. load_templates al records = Some (Inr ts) \<and> length ts = length records \<and> list_all retained_ok ts"
  using assms(1)
proof (induction records)
  case (Cons p records)
  then obtain t where t: "retained_ok t" "fp_native p = template_file t" by (auto simp: own_template_def)
  from Cons obtain ts where "load_templates al records = Some (Inr ts)" "length ts = length records" "list_all retained_ok ts"
    by auto
  moreover have "fpc_template_load_default al (fp_native p) 32 = Some (Inr t)"
    unfolding t(2) by (rule retained_load [OF t(1) assms(2)])
  ultimately show ?case using t(1) by (simp add: attempt_def)
qed simp

lemma in_order_find:
  assumes "db_ok al (fs_fingerprints st)" "p \<in> set (in_order st user)"
  shows "find_record (fs_fingerprints st) user (fp_name p) = Some p \<and> fp_user p = user"
proof -
  let ?m = "user_map (fs_fingerprints st) user"
  have "ordered ?m" using db_okD(2) [OF assms(1)] by (rule ordered_user_map)
  then have d: "distinct (map fst ?m)" by (rule ordered_distinct)
  obtain n where "(n, p) \<in> set ?m" using assms(2) by (auto simp: in_order_def user_records_map)
  then have f: "find_record (fs_fingerprints st) user n = Some p"
    using map_of_is_SomeI [OF d] by (simp add: map_of_user_map [symmetric])
  from db_okD(3) [OF assms(1)] f have "fp_name p = n \<and> fp_user p = user" by (auto simp: record_ok_def)
  with f show ?thesis by simp
qed

lemma own_listed:
  assumes "db_ok al (fs_fingerprints st)" "own_records (fs_fingerprints st)"
  shows "list_all (\<lambda>p. own_template (fp_native p)) (filter P (in_order st user))"
proof -
  have "own_template (fp_native p)" if "p \<in> set (in_order st user)" for p
    using in_order_find [OF assms(1) that] assms(2) unfolding own_records_def by blast
  then show ?thesis by (simp add: list_all_iff)
qed

text \<open>The records of the store after the template of one of them has been replaced.\<close>

lemma set_native_ok:
  assumes "db_ok al (fs_fingerprints st)" "own_records (fs_fingerprints st)" "retained_ok t" "\<And>n. al n"
    "p \<in> set (in_order st user)"
  defines "db' \<equiv> fs_fingerprints (set_native p (template_file t) st)"
  shows "db_ok al db'" "own_records db'"
    "find_record db' = (find_record (fs_fingerprints st))
       (user := (find_record (fs_fingerprints st) user)(fp_name p \<mapsto> p\<lparr>fp_native := template_file t\<rparr>))"
proof -
  let ?db = "fs_fingerprints st" and ?p = "p\<lparr>fp_native := template_file t\<rparr>"
  note f = in_order_find [OF assms(1,5)]
  have db': "db' = put user (put (fp_name p) ?p (user_map ?db user)) ?db"
    using f by (simp add: db'_def set_native_def user_records_map)
  show find: "find_record db' = (find_record ?db)(user := (find_record ?db user)(fp_name p \<mapsto> ?p))"
    by (auto simp: db' fun_eq_iff map_of_user_map)
  have "own_template (fp_native ?p)" using assms(3) by (auto simp: own_template_def)
  then show "own_records db'"
    using assms(2) by (auto simp: own_records_def find split: if_splits)
  have r: "record_ok al user (fp_name p) ?p"
    using db_okD(3) [OF assms(1), of user "fp_name p" p] f retained_valid [OF assms(3,4)] by (simp add: record_ok_def)
  have u: "u' = user \<and> n' = fp_name p"
    if "find_record ?db u' n' = Some q" "fp_registration q = fp_registration ?p" for u' n' q
    using db_okD(4) [OF assms(1) that(1), of user "fp_name p" p] f that(2) by simp
  show "db_ok al db'" unfolding db' by (intro db_ok_put [OF assms(1)]) (use r u in blast)+
qed


lemma protection: "up_protection update_policy \<le> 32"
  by (simp add: update_policy_def)

text \<open>What a verification may do: nothing, or replace the template of one record that it compared with
  by another template of this program and leave the file of the changed store.\<close>

definition adapted ::
    "(nat \<Rightarrow> bool) \<Rightarrow> (u8 list \<Rightarrow> u8 list \<Rightarrow> u8 list \<Rightarrow> u8 list \<Rightarrow> u8 list \<Rightarrow> u8 list option) \<Rightarrow> u8 list \<Rightarrow> Fingerprint list
      \<Rightarrow> FingerprintStorage \<Rightarrow> FingerprintStorage \<Rightarrow> u8 list option \<Rightarrow> bool" where
  "adapted al unseal user records st st' file' \<longleftrightarrow>
     (\<exists>p t. p \<in> set records \<and> retained_ok t
        \<and> find_record (fs_fingerprints st') = (find_record (fs_fingerprints st))
            (user := (find_record (fs_fingerprints st) user)(fp_name p \<mapsto> p\<lparr>fp_native := template_file t\<rparr>))
        \<and> load unseal al file' st = Some (Inr (st'\<lparr>fs_fingerprints := nonempty_users (fs_fingerprints st')\<rparr>)))"

lemma adapt_spec:
  assumes "db_ok al (fs_fingerprints st)" "own_records (fs_fingerprints st)" "aead seal unseal" "nonce_ok answers"
    "\<And>n. al n" "retained_ok t" "stored_ok probe" "p \<in> set (in_order st user)" "p \<in> set records"
    "adapt seal answers al heap query probe result p t st old = Some (Inr (matched, st', file'))"
  shows "matched \<and> db_ok al (fs_fingerprints st') \<and> own_records (fs_fingerprints st')
    \<and> (st' = st \<and> file' = old \<or> adapted al unseal user records st st' file')"
proof -
  obtain m membership where m: "fpc_match_profile300_collection al heap (lt_collection t) probe (membership_bytes probe)
      = Some (m, membership)"
    using assms(10) by (auto simp: adapt_def split: Option.bind_splits)
  have ready: "list_all view_ready (lc_captures (lt_collection t))" "view_ready probe"
    using retained_okD(8) [OF assms(6)] assms(7) by (auto simp: list_all_iff stored_ok_def)
  have inc: "stored_ok (update_membership membership probe)"
    by (rule update_membership_stored [OF assms(7) match_collection_length [OF ready m]])
  show ?thesis
  proof (cases m)
    case (Inl e)
    then show ?thesis using assms(10) m by (simp add: adapt_def)
  next
    case (Inr match)
    define r where "r = fpc_update_template_after_match al (\<lambda>_. False) (Some t) (update_membership membership probe)
        (pc_confidence query) (pc_coverage query) (pc_quality query)
        (Some (take (cm_count match) (cm_spatial_scores match))) update_policy (update_state result)"
    note run = assms(10) [unfolded adapt_def m Inr, simplified, folded r_def, unfolded Let_def]
    have status: "ur_status r = 0" using run by (simp split: if_splits)
    show ?thesis
    proof (cases "us_changed (ur_state r) = 0")
      case True
      with run status show ?thesis using assms(1,2) by simp
    next
      case False
      with run status obtain t' where t': "ur_template r = Some t'" by (auto split: option.splits)
      have ok: "retained_ok t'"
        using update_retained [OF assms(6) inc protection] t' unfolding r_def by (metis option.inject)
      let ?st = "set_native p (template_file t') st"
      note db = set_native_ok [OF assms(1,2) ok assms(5,8)]
      obtain saved new where s: "save seal answers ?st old = Some (saved, new)"
          "matched" "st' = (if saved then ?st else st)" "file' = new"
        using run status False t' retained_serialize [OF ok] by (auto simp: attempt_def split: Option.bind_splits)
      show ?thesis
      proof (cases saved)
        case False
        with s save_cases [OF s(1)] assms(1,2) show ?thesis by simp
      next
        case True
        have "load unseal al file' st = Some (Inr (st\<lparr>fs_fingerprints := nonempty_users (fs_fingerprints ?st)\<rparr>))"
          using save_then_load [OF db(1) assms(3,4), of old new st] s True by (simp add: set_native_def)
        then have "load unseal al file' st = Some (Inr (st'\<lparr>fs_fingerprints := nonempty_users (fs_fingerprints st')\<rparr>))"
          using s True by (simp add: set_native_def)
        with assms(9) ok db s True show ?thesis unfolding adapted_def by auto
      qed
    qed
  qed
qed


lemma identification_total:
  assumes "list_all (\<lambda>c. list_all view_ready (lc_captures c)) cs" "view_ready query"
  shows "fpc_identify_profile300 al heap cs query quality membership policy \<noteq> None"
proof -
  have "identify_loop (\<lambda>c mem. fpc_match_profile300_collection al heap c query mem) policy cs 0
      membership identify_start \<noteq> None"
    by (rule identify_loop_total) (use assms match_collection_total in \<open>auto simp: list_all_iff\<close>)
  then show ?thesis by (auto simp: fpc_identify_profile300_def)
qed

lemma adapt_total:
  assumes "\<And>n. al n" "retained_ok t" "stored_ok probe" "\<And>db. save seal answers (st\<lparr>fs_fingerprints := db\<rparr>) old \<noteq> None"
  shows "\<exists>r. adapt seal answers al heap query probe result p t st old = Some r
    \<and> r \<in> {Inl ''native identification failed'', Inl ''native update match failed'',
           Inl ''native template update failed''} \<union> range Inr"
proof -
  have ready: "list_all view_ready (lc_captures (lt_collection t))" "view_ready probe"
    using retained_okD(8) [OF assms(2)] assms(3) by (auto simp: list_all_iff stored_ok_def)
  obtain m membership where m: "fpc_match_profile300_collection al heap (lt_collection t) probe (membership_bytes probe)
      = Some (m, membership)"
    using match_collection_total [OF ready] by fastforce
  have inc: "stored_ok (update_membership membership probe)"
    by (rule update_membership_stored [OF assms(3) match_collection_length [OF ready m]])
  show ?thesis
  proof (cases m)
    case (Inl e)
    then show ?thesis using m by (simp add: adapt_def)
  next
    case (Inr match)
    define r where "r = fpc_update_template_after_match al (\<lambda>_. False) (Some t) (update_membership membership probe)
        (pc_confidence query) (pc_coverage query) (pc_quality query)
        (Some (take (cm_count match) (cm_spatial_scores match))) update_policy (update_state result)"
    obtain t' where t': "ur_template r = Some t'" and ok: "retained_ok t'"
      using update_retained [OF assms(2) inc protection] unfolding r_def by blast
    obtain saved new where "save seal answers (set_native p (template_file t') st) old = Some (saved, new)"
      using assms(4) unfolding set_native_def by (metis not_None_eq surj_pair)
    then show ?thesis
      unfolding adapt_def m Inr
      using t' retained_serialize [OF ok] by (simp add: r_def [symmetric] attempt_def Let_def)
  qed
qed

lemma verify_keeps:
  assumes "db_ok al (fs_fingerprints st)" "own_records (fs_fingerprints st)" "aead seal unseal" "nonce_ok answers"
    and "\<And>n. al n" "prepared_ok query"
    and "verify seal answers al heap1 heap2 user name query st old = Some (Inr (matched, st', file'))"
  shows "db_ok al (fs_fingerprints st') \<and> own_records (fs_fingerprints st')
    \<and> (st' = st \<and> file' = old
       \<or> matched \<and> adapted al unseal user (filter (\<lambda>p. is_any name \<or> name = fp_name p) (in_order st user)) st st' file')"
proof -
  let ?records = "filter (\<lambda>p. is_any name \<or> name = fp_name p) (in_order st user)"
  obtain probe where p: "fpc_capture_from_prepared al query False = Some (Inr probe)"
    using assms(7) by (auto simp: verify_def split: Option.bind_splits sum.splits)
  have probe: "stored_ok probe" by (rule probe_stored [OF assms(6) p])
  have "list_all (\<lambda>p. own_template (fp_native p)) ?records"
    by (rule own_listed [OF assms(1,2)])
  from load_own [where al = al, OF this assms(5)] obtain ts where
    ts: "load_templates al ?records = Some (Inr ts)" "length ts = length ?records" "list_all retained_ok ts" by blast
  have ready: "list_all (\<lambda>c. list_all view_ready (lc_captures c)) (map lt_collection ts)" "view_ready probe"
    using ts(3) retained_okD(8) probe by (auto simp: list_all_iff stored_ok_def)
  obtain out membership where i: "fpc_identify_profile300 al heap1 (map lt_collection ts) probe (pc_confidence query)
      (membership_bytes probe) identification_policy = Some (out, membership)"
    using assms(7) p ts(1) by (auto simp: verify_def attempt_def split: Option.bind_splits)
  note frame = identify_frame [OF ready i]
  obtain result where r: "out = Inr result"
    using assms(7) p ts(1) i by (cases out) (auto simp: verify_def attempt_def)
  show ?thesis
  proof (cases "ir_matched result = 0")
    case True
    then show ?thesis using assms(1,2,7) p ts(1) i r by (simp add: verify_def attempt_def)
  next
    case False
    define k where "k = nat (ir_selected_template result)"
    have k: "k < length ts" "\<not> (ir_selected_template result < 0 \<or> int (length ts) \<le> ir_selected_template result)"
      using frame False r by (auto simp: k_def)
    have run: "adapt seal answers al heap2 query (update_membership membership probe) result (?records ! k) (ts ! k) st old
        = Some (Inr (matched, st', file'))"
      using assms(7) p ts(1) i r False k(2) by (simp add: verify_def attempt_def Let_def k_def)
    have rec: "?records ! k \<in> set ?records" using k(1) ts(2) by (intro nth_mem) (simp only:)
    then have rec': "?records ! k \<in> set (in_order st user)" by simp
    have t: "retained_ok (ts ! k)" using ts(3) k(1) by (simp add: list_all_length)
    have inc: "stored_ok (update_membership membership probe)"
      using update_membership_stored [OF probe] frame by blast
    show ?thesis using adapt_spec [OF assms(1-5) t inc rec' rec run] by blast
  qed
qed


lemma verify_total:
  assumes "db_ok al (fs_fingerprints st)" "own_records (fs_fingerprints st)"
    and "\<And>n. al n" "prepared_ok query" "\<And>db. save seal answers (st\<lparr>fs_fingerprints := db\<rparr>) old \<noteq> None"
  shows "\<exists>r. verify seal answers al heap1 heap2 user name query st old = Some r
    \<and> r \<in> {Inl ''native identification failed'', Inl ''native update match failed'',
           Inl ''native template update failed''} \<union> range Inr"
proof -
  let ?records = "filter (\<lambda>p. is_any name \<or> name = fp_name p) (in_order st user)"
  obtain probe where p: "fpc_capture_from_prepared al query False = Some (Inr probe)"
    using from_prepared_cases(2) [where al = al, OF assms(4,3)] by blast
  have probe: "stored_ok probe" by (rule probe_stored [OF assms(4) p])
  have "list_all (\<lambda>p. own_template (fp_native p)) ?records"
    by (rule own_listed [OF assms(1,2)])
  from load_own [where al = al, OF this assms(3)] obtain ts where
    ts: "load_templates al ?records = Some (Inr ts)" "length ts = length ?records" "list_all retained_ok ts" by blast
  have ready: "list_all (\<lambda>c. list_all view_ready (lc_captures c)) (map lt_collection ts)" "view_ready probe"
    using ts(3) retained_okD(8) probe by (auto simp: list_all_iff stored_ok_def)
  obtain out membership where i: "fpc_identify_profile300 al heap1 (map lt_collection ts) probe (pc_confidence query)
      (membership_bytes probe) identification_policy = Some (out, membership)"
    using identification_total [OF ready] by fastforce
  note frame = identify_frame [OF ready i]
  show ?thesis
  proof (cases out)
    case (Inl e)
    then show ?thesis using p ts(1) i by (simp add: verify_def attempt_def)
  next
    case (Inr result)
    show ?thesis
    proof (cases "ir_matched result = 0")
      case True
      then show ?thesis using p ts(1) i Inr by (simp add: verify_def attempt_def)
    next
      case False
      define k where "k = nat (ir_selected_template result)"
      have k: "k < length ts" "\<not> (ir_selected_template result < 0 \<or> int (length ts) \<le> ir_selected_template result)"
        using frame False Inr by (auto simp: k_def)
      have run: "verify seal answers al heap1 heap2 user name query st old
          = adapt seal answers al heap2 query (update_membership membership probe) result (?records ! k) (ts ! k) st old"
        using p ts(1) i Inr False k(2) by (simp add: verify_def attempt_def Let_def k_def)
      have t: "retained_ok (ts ! k)" using ts(3) k(1) by (simp add: list_all_length)
      have inc: "stored_ok (update_membership membership probe)"
        using update_membership_stored [OF probe] frame by blast
      show ?thesis unfolding run by (rule adapt_total [OF assms(3) t inc assms(5)])
    qed
  qed
qed


lemma sample_no_match:
  "verify plain_seal answers (\<lambda>_. True) heap1 heap2 user (ascii ''right-thumb'') sample_prepared
     (stored_store native) old = Some (Inr (False, stored_store native, old))"
proof -
  obtain v where v: "fpc_capture_from_prepared (\<lambda>_. True) sample_prepared False = Some (Inr v)"
    using from_prepared_cases(2) [OF sample_prepared_ok, of "\<lambda>_. True" False] by auto
  have "filter (\<lambda>p. is_any (ascii ''right-thumb'') \<or> ascii ''right-thumb'' = fp_name p) (in_order (stored_store native) user) = []"
    by (auto simp: in_order_def user_records_def stored_store_def is_any_def sample_print_def ascii_def)
  moreover obtain r m where "fpc_identify_profile300 (\<lambda>_. True) heap1 [] v (pc_confidence sample_prepared) (membership_bytes v)
      identification_policy = Some (Inr r, m)" "ir_matched r = 0"
    by (simp add: fpc_identify_profile300_def identification_policy_def report_identification_def identify_start_def)
  ultimately show ?thesis by (simp only: verify_def v Let_def) (simp add: attempt_def)
qed



end
