(* ===== verification/Machine.thy ===== *)
theory Machine
  imports Prelude
begin

text \<open>
  Reactive tasks in general: runs of a machine that meets allowed operations one after the other and
  puts out effects, invariants over what was put out so far, and observers that follow the effects.
\<close>

text \<open>The operations a machine \<open>exec\<close> met from a state and its first effects on, with all that it put out.\<close>

inductive machine_run ::
    "('op \<Rightarrow> 'state \<Rightarrow> bool) \<Rightarrow> ('op \<Rightarrow> 'state \<Rightarrow> ('state \<times> 'out list) option) \<Rightarrow> 'state \<times> 'out list \<Rightarrow> 'out list \<Rightarrow> 'state \<Rightarrow> bool"
  for allowed exec s0 where
  begun: "machine_run allowed exec s0 (snd s0) (fst s0)"
| step: "machine_run allowed exec s0 tr s \<Longrightarrow> allowed op s \<Longrightarrow> exec op s = Some (s', out)
    \<Longrightarrow> machine_run allowed exec s0 (tr @ out) s'"

text \<open>Several operations in a row.\<close>

fun exec_all ::
    "('op \<Rightarrow> 'state \<Rightarrow> ('state \<times> 'out list) option) \<Rightarrow> 'op list \<Rightarrow> 'state \<Rightarrow> ('state \<times> 'out list) option" where
  "exec_all exec [] s = Some (s, [])"
| "exec_all exec (op # ops) s =
     do { (s, out) \<leftarrow> exec op s; (s, out') \<leftarrow> exec_all exec ops s; Some (s, out @ out') }"

text \<open>A machine that meets only what is allowed.\<close>

definition guarded :: "('op \<Rightarrow> 'state \<Rightarrow> bool) \<Rightarrow> ('op \<Rightarrow> 'state \<Rightarrow> ('state \<times> 'out list) option) \<Rightarrow> 'op \<Rightarrow> 'state \<Rightarrow> ('state \<times> 'out list) option" where
  "guarded allowed exec op s = (if allowed op s then exec op s else None)"

lemma guarded_Some: "guarded allowed exec op s = Some r \<longleftrightarrow> allowed op s \<and> exec op s = Some r"
  by (simp add: guarded_def)

lemma guarded_run:
  assumes "machine_run allowed exec s0 tr s" "exec_all (guarded allowed exec) ops s = Some (s', out)"
  shows "machine_run allowed exec s0 (tr @ out) s'"
  using assms
proof (induction ops arbitrary: tr s out)
  case (Cons op ops)
  then obtain s1 out1 out2 where "allowed op s" "exec op s = Some (s1, out1)" "out = out1 @ out2"
    "exec_all (guarded allowed exec) ops s1 = Some (s', out2)"
    by (auto simp: guarded_Some split: Option.bind_splits)
  then show ?case using Cons.IH [OF machine_run.step [OF Cons.prems(1)], of op s1 out1 out2] by simp
qed simp

text \<open>An observer accepts an effect in a phase, which gives the next phase, or refuses it.\<close>

fun observe :: "('out \<Rightarrow> 'phase \<Rightarrow> 'phase option) \<Rightarrow> 'out list \<Rightarrow> 'phase \<Rightarrow> 'phase option" where
  "observe follow [] p = Some p"
| "observe follow (x # out) p = do { p \<leftarrow> follow x p; observe follow out p }"

lemma observe_append: "observe follow (xs @ ys) p = do { p \<leftarrow> observe follow xs p; observe follow ys p }"
  by (induction xs arbitrary: p) (auto split: Option.bind_splits)

text \<open>The interface of a machine with its invariant: every allowed operation returns and keeps it.\<close>

locale reactive =
  fixes allowed :: "'op \<Rightarrow> 'state \<Rightarrow> bool"
    and exec :: "'op \<Rightarrow> 'state \<Rightarrow> ('state \<times> 'out list) option"
    and inv :: "'out list \<Rightarrow> 'state \<Rightarrow> bool"
  assumes preserved: "inv tr s \<Longrightarrow> allowed op s \<Longrightarrow> \<exists>s' out. exec op s = Some (s', out) \<and> inv (tr @ out) s'"
begin

lemma invariant:
  assumes "machine_run allowed exec s0 tr s" "inv (snd s0) (fst s0)"
  shows "inv tr s"
  using assms
proof (induction rule: machine_run.induct)
  case (step tr s op s' out)
  then show ?case using preserved [of tr s op] by auto
qed

lemma progress:
  assumes "machine_run allowed exec s0 tr s" "inv (snd s0) (fst s0)" "allowed op s"
  obtains s' out where "exec op s = Some (s', out)" "inv (tr @ out) s'" "machine_run allowed exec s0 (tr @ out) s'"
  using preserved [OF invariant [OF assms(1,2)] assms(3)] machine_run.step [OF assms(1,3)] that by blast

end

end
