(* ===== verification/Prepared.thy ===== *)
theory Prepared
  imports Session
begin

text \<open>
  The preparation of a frame is total and hands over well-formed captures: the feature budget, the
  extraction and \<^verbatim>\<open>fpc_profile300_prepare\<close> (\<^verbatim>\<open>fpc_recovered.c\<close>, \<^verbatim>\<open>profile300.c\<close>) return on every input, and \<open>capture_ok\<close> is
  what the enrollment session and the verification assume of a capture.
\<close>

subsection \<open>The budget\<close>

lemma choose_level_total:
  assumes "q \<le> length points"
  shows "\<exists>r. choose_level al level points q w h = Some r \<and> (\<forall>ps. r = Inr ps \<longrightarrow> length ps = q)"
proof -
  obtain status ranks where s: "fpc_sort_feature_scores
      (map (\<lambda>i. \<lparr>rs_index = int i, rs_score = kp_score (points ! i)\<rparr>) [0..<length points]) = Some (status, ranks)"
    using sort_scores_spec by blast
  obtain r where r: "fpc_select_spatial_features al (map (level_location level points) ranks) q 0 0 (int w - 1) (int h - 1)
      = Some r" "\<forall>is. r = Inr is \<longrightarrow> length is = q"
    using select_spatial_spec [of al "map (level_location level points) ranks" q 0 0 "int w - 1" "int h - 1"]
    by (fastforce split: if_splits)
  show ?thesis using s r by (auto simp: choose_level_def split: sum.splits)
qed

lemma budget_one_level:
  assumes "fl_count level = length points" "0 \<le> budget"
  shows "\<exists>r. fpc_limit_feature_budget al points [level] w h budget capacity = Some r
    \<and> (\<forall>kept counts. r = Inr (kept, counts) \<longrightarrow> length kept \<le> nat budget)"
proof -
  define q where "q = (if int (length points) > budget then nat budget else length points)"
  have q: "q \<le> length points" "q \<le> nat budget" using assms(2) by (auto simp: q_def)
  have quota: "level_quotas (length points) [level] budget = [q, 0]"
    using assms by (simp add: level_quotas_def q_def)
  obtain r where r: "choose_level al level points q w h = Some r" "\<forall>ps. r = Inr ps \<longrightarrow> length ps = q"
    using choose_level_total [OF q(1)] by blast
  have "budget_levels al (zip [level] (level_quotas (length points) [level] budget)) points w h
    = Some (case r of Inl e \<Rightarrow> Inl e | Inr ps \<Rightarrow> Inr (ps, [q]))"
    using r(1) q(1) by (cases r) (auto simp: quota assms(1) Let_def min_def)
  then show ?thesis using r(2) q(2)
    by (auto simp: fpc_limit_feature_budget_def Let_def split: sum.splits)
qed

subsection \<open>Extraction\<close>

definition features_ok :: "fpc_feature list \<Rightarrow> bool" where
  "features_ok fs \<longleftrightarrow> length fs = 300 \<and> list_all (\<lambda>f. length (ft_descriptor f) = 16) fs"

lemma project_length: "fpc_project_descriptor patch weights 16 = Inr d \<Longrightarrow> length d = 16"
  by (auto simp: fpc_project_descriptor_def Let_def split: if_splits)

lemma describe_point_length: "describe_point field padded weights p = Inr f \<Longrightarrow> length (ft_descriptor f) = 16"
  by (auto simp: describe_point_def Let_def split: sum.splits prod.splits if_splits dest: project_length)

lemma describe_points_ok:
  assumes "\<And>p f. describe p = Inr f \<Longrightarrow> length (ft_descriptor f) = 16" "features_ok out"
  shows "features_ok (snd (describe_points describe ps i out))"
  using assms(2)
proof (induction ps arbitrary: i out)
  case (Cons p ps)
  show ?case
  proof (cases "describe p")
    case (Inr f)
    have "features_ok (out[i := f])"
      using Cons.prems assms(1) [OF Inr] set_update_subset_insert [of out i f]
      by (auto simp: features_ok_def list_all_iff)
    then show ?thesis using Cons.IH Inr by simp
  qed (simp add: Cons.prems)
qed simp

lemma extract_ok:
  assumes "features_ok out" "n \<le> 300"
  shows "\<exists>status fs n'. fpc_extract_profile300_prepared al img stride msk mask_stride weights out n = Some (status, fs, n')
    \<and> features_ok fs \<and> n' \<le> 300"
proof (cases "detect_profile300 al img stride msk mask_stride")
  case (Inl e)
  then show ?thesis using assms by (auto simp: fpc_extract_profile300_prepared_def)
next
  case (Inr points)
  let ?level = "\<lparr>fl_count = length points, fl_scale_x_q14 = 16384, fl_scale_y_q14 = 16384,
                 fl_offset_x_q4 = 8, fl_offset_y_q4 = 8\<rparr>"
  obtain r where r: "fpc_limit_feature_budget al points [?level] 112 88 300 2048 = Some r"
    "\<And>kept counts. r = Inr (kept, counts) \<Longrightarrow> length kept \<le> 300"
    using budget_one_level [of ?level points 300 al 112 88 2048] by auto
  have d: "features_ok fs" if "describe_points (describe_point field padded weights) kept 0 out = (status, fs)"
    for field padded kept status fs
    using describe_points_ok [of "describe_point field padded weights" out kept 0] describe_point_length assms(1) that
    by (metis snd_conv)
  show ?thesis
    using assms Inr r d unfolding fpc_extract_profile300_prepared_def
    by (auto split: sum.splits prod.splits if_splits)
qed

subsection \<open>Preparation\<close>

definition capture_ok :: "fpc_prepared_capture \<Rightarrow> bool" where
  "capture_ok c \<longleftrightarrow> prepared_ok c \<and> length (pc_pixels c) = 9856 \<and> length (pc_mask c) = 9856
     \<and> length (pc_packed_mask c) = 352 \<and> length (pc_prepared_mask c) = 352 \<and> 0 \<le> pc_confidence c \<and> pc_confidence c \<le> 255"

lemma length_pack_bits: "length (fold pack_bit xs packed) = length packed"
  by (induction xs arbitrary: packed) (auto simp: pack_bit_def split: prod.splits)

lemma sum_bytes_bound: "sum_list (map (\<lambda>i. unat (f i :: u8)) xs) \<le> 255 * length xs"
proof (induction xs)
  case (Cons x xs)
  have "unat (f x) < 2 ^ 8" using unsigned_less [of "f x"] by simp
  with Cons show ?case by simp
qed simp

lemma length_filter_nth: "length (filter P rs) = length (filter (\<lambda>i. P (rs ! i)) [0..<length rs])"
proof -
  have "filter P rs = map ((!) rs) (filter (P \<circ> (!) rs) [0..<length rs])"
    by (simp only: filter_map [symmetric] map_nth)
  then show ?thesis by (simp only: length_map comp_def)
qed

lemma valid_cells:
  assumes "length rs = n" "msk = map (\<lambda>r. if P r then 255 else 0 :: u8) rs"
  shows "length (filter (\<lambda>i. msk ! i \<noteq> 0) [0..<n]) = length (filter P rs)"
proof -
  have "filter (\<lambda>i. msk ! i \<noteq> 0) [0..<n] = filter (\<lambda>i. P (rs ! i)) [0..<n]"
    using assms by (intro filter_cong) auto
  then show ?thesis using length_filter_nth [of P rs] assms(1) by simp
qed

lemma capture_mask_shape:
  assumes "capture_mask u packed = (valid, msk, packed')"
  shows "length msk = 9856 \<and> length packed' = length packed
    \<and> length (filter (\<lambda>i. msk ! i \<noteq> 0) [0..<9856]) = valid"
proof -
  have l: "length (raster 0 88 0 112) = 9856" by (simp add: length_raster)
  obtain P where e: "valid = length (filter P (raster 0 88 0 112))"
    "msk = map (\<lambda>r. if P r then 255 else 0) (raster 0 88 0 112)" "packed' = fold pack_bit (filter P (raster 0 88 0 112)) packed"
    using assms unfolding capture_mask_def Let_def case_prod_unfold by auto
  from valid_cells [OF l e(2)] show ?thesis
    unfolding e(1,3) using l e(2) by (simp only: length_pack_bits length_map)
qed

lemma length_normalize: "length img = 9856 \<Longrightarrow> length (normalize img flags percentile) = 9856"
  by (simp add: normalize_def Let_def split: prod.splits option.splits)

lemma enhanced_length: "length (snd (enhanced_image tables flags working)) = 9856"
proof -
  have "length (enhance t img) = 9856" for t img
    unfolding enhance_def Let_def by (simp only: length_map length_raster) simp
  then show ?thesis by (simp add: enhanced_image_def length_normalize split: prod.splits)
qed

lemma confidence_bound:
  assumes "length (filter (\<lambda>i. msk ! i \<noteq> 0) xs) = valid"
  shows "sum_list (map (\<lambda>i. unat (confidence ! i :: u8)) (filter (\<lambda>i. msk ! i \<noteq> 0) xs)) div (valid + 1) \<le> 255"
proof -
  have "sum_list (map (\<lambda>i. unat (confidence ! i)) (filter (\<lambda>i. msk ! i \<noteq> 0) xs)) \<le> 255 * (valid + 1)"
    using sum_bytes_bound [of "\<lambda>i. confidence ! i" "filter (\<lambda>i. msk ! i \<noteq> 0) xs"] assms by simp
  then have "sum_list (map (\<lambda>i. unat (confidence ! i)) (filter (\<lambda>i. msk ! i \<noteq> 0) xs)) div (valid + 1)
      \<le> 255 * (valid + 1) div (valid + 1)" by (rule div_le_mono)
  also have "\<dots> = 255" by (rule nonzero_mult_div_cancel_right) simp
  finally show ?thesis .
qed

lemma blank_features: "features_ok (replicate 300 blank_feature)"
  by (simp add: features_ok_def blank_feature_def list_all_iff)

lemma describe_capture_ok:
  assumes "masked_capture reason img flags = (valid, c)" "length img = 9856"
  shows "\<exists>status c'. describe_capture al tables valid confidence c = Some (status, c') \<and> capture_ok c'"
proof -
  obtain msk packed where m: "capture_mask (map (\<lambda>i. if usable flags i then 255 else 0) [0..<9856]) (replicate 352 0)
      = (valid, msk, packed)"
    "pc_mask c = msk" "pc_packed_mask c = packed" "length (pc_prepared_mask c) = 352" "length (pc_pixels c) = 9856"
    "pc_features c = replicate 300 blank_feature" "pc_feature_count c = 0"
    using assms by (auto simp: masked_capture_def Let_def length_pack_bits split: prod.splits)
  note shape = capture_mask_shape [OF m(1)]
  obtain status fs n where x: "fpc_extract_profile300_prepared al (pc_pixels c) 112 msk 112 (pt_descriptor_weights tables)
      (replicate 300 blank_feature) 0 = Some (status, fs, n)" "features_ok fs" "n \<le> 300"
    using extract_ok [OF blank_features, of 0 al "pc_pixels c" 112 msk 112 "pt_descriptor_weights tables"] by auto
  have conf: "sum_list (map (\<lambda>i. unat (confidence ! i)) (filter (\<lambda>i. msk ! i \<noteq> 0) [0..<9856])) div (valid + 1) \<le> 255"
    by (rule confidence_bound) (use shape in blast)
  define c' where "c' = snd (the (describe_capture al tables valid confidence c))"
  have run: "describe_capture al tables valid confidence c = Some (status, c')"
    and c': "pc_features c' = fs" "pc_feature_count c' = n" "pc_mask c' = msk" "pc_packed_mask c' = packed"
      "pc_pixels c' = pc_pixels c" "pc_prepared_mask c' = pc_prepared_mask c"
      "pc_confidence c' = int (sum_list (map (\<lambda>i. unat (confidence ! i)) (filter (\<lambda>i. msk ! i \<noteq> 0) [0..<9856])) div (valid + 1))"
    using x(1) m by (simp_all add: c'_def describe_capture_def Let_def)
  have "capture_ok c'"
    unfolding capture_ok_def prepared_ok_def c'
    using shape x(2,3) conf m(4,5) by (simp add: features_ok_def)
  with run show ?thesis by blast
qed

lemma prepare_spec:
  "\<exists>status c. fpc_profile300_prepare al tables pixels dead out = Some (status, c)
    \<and> (if status = 0 then capture_ok c else capture_ok c \<or> c = out)"
proof -
  obtain s1 flags where c1: "fpc_classify_raw_pixels pixels 112 88 112 dead (replicate 9856 0) 112 = (s1, flags)" by fastforce
  obtain s2 working rest where c2: "fpc_process_raw_pixel_defects al (map (\<lambda>p. f_of_int (uint p)) pixels) (Some flags)
      112 88 dead 0 560 True = (s2, working, rest)" by (metis prod_cases3)
  obtain reason img where c3: "enhanced_image tables flags working = (reason, img)" by fastforce
  obtain valid c where c4: "masked_capture reason img flags = (valid, c)" by fastforce
  have img: "length img = 9856" using enhanced_length [of tables flags working] c3 by simp
  have ok: "capture_ok c"
  proof -
    obtain msk packed where m: "capture_mask (map (\<lambda>i. if usable flags i then 255 else 0) [0..<9856]) (replicate 352 0)
        = (valid, msk, packed)"
      "pc_mask c = msk" "pc_packed_mask c = packed" "length (pc_prepared_mask c) = 352" "length (pc_pixels c) = 9856"
      "pc_features c = replicate 300 blank_feature" "pc_feature_count c = 0" "pc_confidence c = 0"
      using c4 img by (auto simp: masked_capture_def Let_def length_pack_bits split: prod.splits)
    then show ?thesis using capture_mask_shape [OF m(1)] blank_features
      by (simp add: capture_ok_def prepared_ok_def features_ok_def)
  qed
  have d: "\<exists>status c'. describe_capture al tables valid confidence c = Some (status, c') \<and> capture_ok c'" for confidence
    by (rule describe_capture_ok [OF c4 img])
  show ?thesis
    using ok d by (cases "fpc_hessian_orientation al (pc_pixels c) 112 88 112 1 0")
      (simp_all add: fpc_profile300_prepare_def c1 c2 c3 c4 split: prod.splits, metis)
qed

text \<open>(C17) The preparation of a frame always returns, whatever the pixels, the defects, the tables and the
  allocator: the sort, the selection and the extraction of features end, and none of their checked accesses fails. A frame of another
  size or with too many defects is refused. A capture that is handed over with status 0 is what the
  session and the store assume: at most 300 features with descriptors of sixteen bytes, masks and
  pixels of the frame, a mean confidence that fits a byte; after a failure the capture is such a
  capture, too, or untouched.\<close>

theorem preparation_sound:
  "\<exists>status c. fpc_profile300_prepare al tables pixels dead out = Some (status, c)
     \<and> (if length pixels = 9856 \<and> length dead \<le> 560
          then (if status = 0 then capture_ok c else capture_ok c \<or> c = out) else status = - 1 \<and> c = out)"
proof (cases "length pixels = 9856 \<and> length dead \<le> 560")
  case False
  then show ?thesis by (auto simp: fpc_profile300_prepare_def)
next
  case True
  from prepare_spec [of al tables pixels dead out] show ?thesis unfolding if_P [OF True] .
qed

end
