(* ===== verification/Scan.thy ===== *)
theory Scan
  imports Machine Prepared Verification Protocol
begin

text \<open>
  One enroll or verify operation (\<^verbatim>\<open>fpc9201.cpp\<close>: \<^verbatim>\<open>WorkerEnrollVerify\<close>). The task is a coroutine:
  \<open>sn_at\<close> is what it awaits, and each operation is what its continuation does when that arrives. \<open>None\<close> is
  undefined behaviour or an exception that leaves the task.
\<close>

subsection \<open>The task\<close>

datatype scan_at = Starting | Waiting | Signalling bool | Stopping | Returned

record Scan =
  sn_at :: scan_at
  sn_print :: Fingerprint
  sn_enrollment :: "fpc_native_enrollment option"
  sn_generation :: u64
  sn_verify :: bool
  sn_stage :: int
  sn_store :: FingerprintStorage
  sn_file :: "u8 list option"
  sn_current :: u64
  sn_active :: bool
  sn_present :: bool
  sn_needed :: bool

text \<open>The store and the generation \<open>sn_current\<close> are shared with the other tasks.\<close>

datatype scan_output =
    Finger_state bool bool
  | Sensor_start
  | Scan_status string bool
  | Sensor_stop

datatype image_event =
    Finger_down u64
  | Finger_image u64 "u8 list list"
  | Enroll_verify_stop
  | Transport_failed
  | Other_event

record scan_env =
  cv_alloc :: "nat \<Rightarrow> bool"
  cv_tables :: profile_tables
  cv_seal :: "u8 list \<Rightarrow> u8 list \<Rightarrow> u8 list \<Rightarrow> u8 list \<Rightarrow> u8 list \<times> u8 list"

text \<open>What one image meets in the world: the answers of the file system and the contents of new memory.\<close>

record scan_world =
  cw_answers :: save_answers
  cw_heap1 :: "fpc_candidate list"
  cw_heap2 :: "fpc_candidate list"

text \<open>\<^verbatim>\<open>DeviceState::set\<close>: clients hear of changes only.\<close>

definition set_state :: "bool \<Rightarrow> bool \<Rightarrow> Scan \<Rightarrow> Scan \<times> scan_output list" where
  "set_state present needed s =
     (if present = sn_present s \<and> needed = sn_needed s then (s, [])
      else (s\<lparr>sn_present := present, sn_needed := needed\<rparr>, [Finger_state present needed]))"

definition scan_start ::
    "bool \<Rightarrow> u8 list \<Rightarrow> u8 list \<Rightarrow> bool \<Rightarrow> FingerprintStorage \<Rightarrow> u8 list option \<Rightarrow> u64 \<Rightarrow> Scan \<times> scan_output list" where
  "scan_start verifying user name room store old current =
     (let (s, out) = set_state False True
        \<lparr>sn_at = Starting,
         sn_print = \<lparr>fp_user = user, fp_name = name, fp_native = [], fp_registration = 0\<rparr>,
         sn_enrollment = (if verifying \<or> \<not> room then None else Some fpc_native_enrollment_create),
         sn_generation = current + 1, sn_verify = verifying, sn_stage = 0, sn_store = store, sn_file = old,
         sn_current = current + 1, sn_active = True, sn_present = False, sn_needed = False\<rparr>
      in (s, out @ [Sensor_start]))"

definition unknown_error :: "Scan \<Rightarrow> string" where
  "unknown_error s = (if sn_verify s then ''verify-unknown-error'' else ''enroll-unknown-error'')"

text \<open>The buffers of an image, put together below the limit of two frames.\<close>

fun gather_payload :: "u8 list \<Rightarrow> u8 list list \<Rightarrow> u8 list option" where
  "gather_payload payload [] = Some payload"
| "gather_payload payload (bytes # rest) =
     (if 12 + 2 * 9856 - of_nat (length payload) < (of_nat (length bytes) :: u64) then None
      else gather_payload (payload @ bytes) rest)"

text \<open>An exception inside of the \<^verbatim>\<open>try\<close> ends the operation with an error.\<close>

definition caught ::
    "(exn + 'a) option \<Rightarrow> Scan \<Rightarrow> ('a \<Rightarrow> (Scan \<times> string \<times> bool) option) \<Rightarrow> (Scan \<times> string \<times> bool) option" where
  "caught r s f =
     (case r of
        None \<Rightarrow> None
      | Some (Inl e) \<Rightarrow> Some (s, unknown_error s, True)
      | Some (Inr a) \<Rightarrow> f a)"

definition enroll_capture ::
    "scan_env \<Rightarrow> scan_world \<Rightarrow> fpc_prepared_capture \<Rightarrow> Scan \<Rightarrow> (Scan \<times> string \<times> bool) option" where
  "enroll_capture env w prepared s =
     (case sn_enrollment s of
        None \<Rightarrow> Some (s, ''enroll-unknown-error'', True)
      | Some session \<Rightarrow>
          do { (status, session, report) \<leftarrow> fpc_native_enrollment_add (cv_alloc env) session prepared zero_report;
               let s = s\<lparr>sn_enrollment := Some session\<rparr> in
               if status = 112 then Some (s, ''enroll-failed'', True)
               else if status \<noteq> 0 then Some (s, ''enroll-unknown-error'', True)
               else if er_rejection_flags report \<noteq> 0 then Some (s, ''enroll-remove-and-retry'', False)
               else let s = s\<lparr>sn_stage := int (er_accepted report)\<rparr> in
               if pg_complete (er_progress report) = 0 then Some (s, ''enroll-stage-passed'', False)
               else do { completed \<leftarrow> fpc_native_enrollment_finish (cv_alloc env) session False;
                 case completed of
                   Inl _ \<Rightarrow> Some (s, ''enroll-unknown-error'', True)
                 | Inr t \<Rightarrow>
                     caught (serialize_native_template t) s (\<lambda>native.
                       let s = s\<lparr>sn_print := (sn_print s)\<lparr>fp_native := native\<rparr>\<rparr> in
                       caught (insert_or_update (cv_seal env) (cw_answers w) (cv_alloc env) (sn_print s) (sn_store s) (sn_file s))
                         s (\<lambda>(ok, store, new).
                           Some (s\<lparr>sn_store := store, sn_file := new\<rparr>,
                                 if ok then ''enroll-completed'' else ''enroll-failed'', True))) } })"

definition zero_prepared :: fpc_prepared_capture where
  "zero_prepared =
     \<lparr>pc_pixels = replicate 9856 0, pc_mask = replicate 9856 0, pc_packed_mask = replicate 352 0,
      pc_prepared_mask = replicate 352 0, pc_filter_reason = 0, pc_quality = 0, pc_confidence = 0, pc_coverage = 0,
      pc_is_finger = False, pc_features = replicate 300 blank_feature, pc_feature_count = 0\<rparr>"

definition process_capture ::
    "scan_env \<Rightarrow> scan_world \<Rightarrow> u8 list \<Rightarrow> Scan \<Rightarrow> (Scan \<times> string \<times> bool) option" where
  "process_capture env w payload s =
     do { frame1 \<leftarrow> rd_bytes payload 12 9856;
          frame2 \<leftarrow> rd_bytes payload (if length payload = 12 + 2 * 9856 then 12 + 9856 else 12) 9856;
          case fpc_profile300_rank_frames (cv_alloc env) [frame1, frame2] of
            Inl _ \<Rightarrow> Some (s, unknown_error s, True)
          | Inr order \<Rightarrow>
              do { (status, prepared) \<leftarrow> fpc_profile300_prepare (cv_alloc env) (cv_tables env)
                       ([frame1, frame2] ! (order ! 0)) (fs_dead_pixels (sn_store s)) zero_prepared;
                   if status \<noteq> 0 then Some (s, unknown_error s, True)
                   else if sn_verify s then
                     caught (verify (cv_seal env) (cw_answers w) (cv_alloc env) (cw_heap1 w) (cw_heap2 w)
                               (fp_user (sn_print s)) (fp_name (sn_print s)) prepared (sn_store s) (sn_file s))
                       s (\<lambda>(match, store, new).
                         Some (s\<lparr>sn_store := store, sn_file := new\<rparr>,
                               if match then ''verify-match'' else ''verify-retry-scan'', match))
                   else enroll_capture env w prepared s } }"

text \<open>\<^verbatim>\<open>send_signal\<close>; the continuation depends on whether the status is final.\<close>

definition send_signal :: "string \<Rightarrow> bool \<Rightarrow> Scan \<Rightarrow> Scan \<times> scan_output list" where
  "send_signal status terminal s = (s\<lparr>sn_at := Signalling terminal\<rparr>, [Scan_status status terminal])"

definition then_do :: "Scan \<times> scan_output list \<Rightarrow> (Scan \<Rightarrow> Scan \<times> scan_output list) \<Rightarrow> Scan \<times> scan_output list" where
  "then_do r f = (case r of (s, out) \<Rightarrow> case f s of (s', out') \<Rightarrow> (s', out @ out'))"

definition parse_image ::
    "scan_env \<Rightarrow> scan_world \<Rightarrow> image_event \<Rightarrow> Scan \<Rightarrow> (Scan \<times> scan_output list) option" where
  "parse_image env w event s =
     (case event of
        Finger_down generation \<Rightarrow>
          Some (if generation \<noteq> sn_generation s then (s, []) else set_state True True s)
      | Finger_image generation buffers \<Rightarrow>
          if generation \<noteq> sn_generation s then Some (s, [])
          else case set_state False True s of (s, out) \<Rightarrow>
            (case gather_payload [] buffers of
               None \<Rightarrow> Some (then_do (s, out) (send_signal (unknown_error s) True))
             | Some payload \<Rightarrow>
                 if length payload \<noteq> 12 + 9856 \<and> length payload \<noteq> 12 + 2 * 9856
                 then Some (then_do (s, out) (send_signal (unknown_error s) True))
                 else (case capture_header payload of
                     Some (Inr metadata) \<Rightarrow>
                       do { (s, status, terminal) \<leftarrow> process_capture env w payload s;
                            Some (then_do (s, out) (send_signal status terminal)) }
                   | _ \<Rightarrow> None))
      | Enroll_verify_stop \<Rightarrow>
          Some (then_do (set_state False False (s\<lparr>sn_current := sn_current s + 1\<rparr>))
                  (\<lambda>s. (s\<lparr>sn_at := Stopping\<rparr>, [Sensor_stop])))
      | Transport_failed \<Rightarrow> Some (send_signal (unknown_error s) True s)
      | Other_event \<Rightarrow> Some (s, []))"

definition next_capture :: "Scan \<Rightarrow> Scan \<times> scan_output list" where
  "next_capture s =
     (s\<lparr>sn_current := sn_current s + 1, sn_generation := sn_current s + 1, sn_at := Starting\<rparr>, [Sensor_start])"

definition stop_scan :: "Scan \<Rightarrow> Scan \<times> scan_output list" where
  "stop_scan s =
     then_do (set_state False False (s\<lparr>sn_current := sn_current s + 1\<rparr>))
       (\<lambda>s. (s\<lparr>sn_at := Stopping\<rparr>, [Sensor_stop]))"

text \<open>\<^verbatim>\<open>async_finalize\<close>, when the task returns and when it is cancelled.\<close>

definition finalize_scan :: "Scan \<Rightarrow> Scan \<times> scan_output list" where
  "finalize_scan s =
     set_state False False
       (s\<lparr>sn_at := Returned, sn_print := (sn_print s)\<lparr>fp_name := []\<rparr>, sn_enrollment := None,
          sn_current := sn_current s + (if sn_generation s = sn_current s then 1 else 0), sn_active := False\<rparr>)"

subsection \<open>Runs\<close>

text \<open>What was awaited is done; an event arrives; the task is cancelled; other tasks change what they share.\<close>

datatype scan_op =
    Done
  | Received scan_world image_event
  | Cancelled
  | Shared FingerprintStorage "u8 list option" u64

fun scan_exec :: "scan_env \<Rightarrow> scan_op \<Rightarrow> Scan \<Rightarrow> (Scan \<times> scan_output list) option" where
  "scan_exec env Done s =
     Some (case sn_at s of
             Starting \<Rightarrow> (s\<lparr>sn_at := Waiting\<rparr>, [])
           | Signalling terminal \<Rightarrow> if terminal then stop_scan s else next_capture s
           | Stopping \<Rightarrow> finalize_scan s
           | _ \<Rightarrow> (s, []))"
| "scan_exec env (Received w event) s = parse_image env w event s"
| "scan_exec env Cancelled s = Some (finalize_scan s)"
| "scan_exec env (Shared store new current) s =
     Some (s\<lparr>sn_store := store, sn_file := new, sn_current := current\<rparr>, [])"

text \<open>Other tasks leave a consistent store of templates of this program.\<close>

definition store_ok :: "scan_env \<Rightarrow> FingerprintStorage \<Rightarrow> bool" where
  "store_ok env store \<longleftrightarrow> db_ok (cv_alloc env) (fs_fingerprints store) \<and> own_records (fs_fingerprints store)"

text \<open>The file system answers every write until the save ends, and a nonce has its length.\<close>

definition world_ok :: "scan_env \<Rightarrow> Scan \<Rightarrow> scan_world \<Rightarrow> bool" where
  "world_ok env s w \<longleftrightarrow>
     nonce_ok (cw_answers w) \<and> (\<forall>db. save (cv_seal env) (cw_answers w) (sn_store s\<lparr>fs_fingerprints := db\<rparr>) (sn_file s) \<noteq> None)"

fun scan_allowed :: "scan_env \<Rightarrow> scan_op \<Rightarrow> Scan \<Rightarrow> bool" where
  "scan_allowed env Done s = (sn_at s \<noteq> Waiting \<and> sn_at s \<noteq> Returned)"
| "scan_allowed env (Received w event) s = (sn_at s = Waiting \<and> world_ok env s w)"
| "scan_allowed env Cancelled s = (sn_at s \<noteq> Returned)"
| "scan_allowed env (Shared store new current) s = store_ok env store"

abbreviation scan_run :: "scan_env \<Rightarrow> Scan \<times> scan_output list \<Rightarrow> scan_output list \<Rightarrow> Scan \<Rightarrow> bool" where
  "scan_run env \<equiv> machine_run (scan_allowed env) (scan_exec env)"

subsection \<open>What an addition to the session leaves\<close>

lemma accept_flags:
  "accept_capture al s p report = Some (status, s', r) \<Longrightarrow> er_rejection_flags r = er_rejection_flags report"
  by (auto simp: accept_capture_def finish_addition_def exit_fail_def exit_result_def Let_def
      split: Option.bind_splits sum.splits prod.splits if_splits)

lemma add_cases:
  assumes "session_live e" "prepared_ok c"
  obtains status e' r where "fpc_native_enrollment_add al e c report = Some (status, e', r)" "session_live e'"
    "status = 0 \<Longrightarrow> er_rejection_flags r \<noteq> 0 \<Longrightarrow> se_count e' = se_count e"
    "status = 0 \<Longrightarrow> er_rejection_flags r = 0 \<Longrightarrow> \<not> se_failed e' \<and> se_count e' = Suc (se_count e)
       \<and> er_accepted r = se_count e' \<and> er_progress r = qs_progress (se_quality e')"
proof -
  obtain status e' r where a: "fpc_native_enrollment_add al e c report = Some (status, e', r)"
    "addition_outcome e status e' r"
    using add_spec [OF assms, of al report] by blast
  have live: "session_live e'" using a(2) by (simp add: addition_outcome_def)
  show ?thesis
  proof (cases "se_failed e \<or> 13 \<le> se_count e")
    case True
    then have "status \<noteq> 0" using a(1) by (auto simp: fpc_native_enrollment_add_def split: if_splits)
    with that [OF a(1) live] show ?thesis by simp
  next
    case False
    obtain st q flags where g: "fpc_enrollment_quality_profile300 (pc_confidence c) (pc_coverage c) (pc_quality c)
        (int (se_count e)) (latest_area e) (em_normalized_motion (se_metrics e)) (em_relative_area_change (se_metrics e))
        (se_quality e) 0 = (st, q, flags)" by (metis prod_cases3)
    note po = assms(1) [unfolded session_live_def, THEN conjunct2]
    show ?thesis
    proof (cases "st \<noteq> 0 \<or> flags \<noteq> 0")
      case True
      with a(1) False g have "status = st" "e' = e\<lparr>se_quality := q\<rparr>" "er_rejection_flags r = flags"
        by (auto simp: fpc_native_enrollment_add_def Let_def exit_result_def)
      with True that [OF a(1) live] show ?thesis by auto
    next
      case ok: False
      let ?s1 = "e\<lparr>se_quality := q\<rparr>" and ?r1 = "zero_report\<lparr>er_rejection_flags := flags\<rparr>"
      have run: "accept_capture al ?s1 c ?r1 = Some (status, e', r)"
        using a(1) False g ok by (simp add: fpc_native_enrollment_add_def Let_def)
      have "session_live ?s1"
        using assms(1) quality_step [OF g] po False
        by (simp add: session_live_def session_ok_def session_arrays_def session_counts_def)
      from accept_capture_spec [OF this, where al = al and p = c and report = ?r1] run False assms(2)
      have e: "addition_end ?s1 status e' r" by auto
      have "er_rejection_flags r = 0" using accept_flags [OF run] ok by simp
      with e that [OF a(1) live] show ?thesis by (auto simp: addition_end_def)
    qed
  qed
qed

lemma finish_captures:
  assumes "session_live e" "\<And>n. al n" "\<not> se_failed e" "pg_complete (qs_progress (se_quality e)) \<noteq> 0"
  obtains t where "fpc_native_enrollment_finish al e False = Some (Inr t)" "retained_ok t"
    "length (lc_captures (lt_collection t)) = se_count e" "7 \<le> se_count e"
proof -
  obtain scores where f: "fpc_native_enrollment_finish al e False
      = Some (Inr \<lparr>lt_graph = session_graph scores (se_count e),
                  lt_collection = \<lparr>lc_captures = take (se_count e) (se_captures e), lc_capacity = 32\<rparr>, lt_metadata = 0\<rparr>)"
    using finish_spec [of e al, OF assms(1,3,4,2)] by (elim exE conjE)
  have "se_count e \<le> 13" "length (se_captures e) = 13"
    using assms(1) by (simp_all add: session_live_def session_ok_def session_arrays_def)
  moreover have "7 \<le> se_count e" using assms(1,3,4) by (simp add: session_live_def progress_ok_def)
  ultimately show ?thesis
    by (intro that [OF f finished_retained [of e al, OF assms(1,2) f]]) simp_all
qed

subsection \<open>The store\<close>

lemma insert_total:
  assumes "db_ok al (fs_fingerprints st)" "own_records (fs_fingerprints st)" "retained_ok t" "\<And>n. al n"
    "\<And>db. save seal answers (st\<lparr>fs_fingerprints := db\<rparr>) old \<noteq> None"
  shows "insert_or_update seal answers al (print\<lparr>fp_native := template_file t\<rparr>) st old \<noteq> None"
proof
  let ?print = "print\<lparr>fp_native := template_file t\<rparr>"
  assume n: "insert_or_update seal answers al ?print st old = None"
  have "validate al (template_file t) = Some (Inr ())" by (rule retained_valid [OF assms(3,4)])
  with n have "\<exists>db. committed seal answers db st old = None"
    using check_find [of st]
    by (auto simp: insert_or_update_def attempt_def Let_def check_def user_records_def find_record_def split: if_splits option.splits)
  then obtain db where "committed seal answers db st old = None" ..
  then have "save seal answers (st\<lparr>fs_fingerprints := db\<rparr>) old = None" by (rule committed_None)
  then show False using assms(5) by blast
qed

subsection \<open>One image\<close>

definition scan_live :: "scan_env \<Rightarrow> Scan \<Rightarrow> bool" where
  "scan_live env s \<longleftrightarrow>
     store_ok env (sn_store s) \<and> (case sn_enrollment s of None \<Rightarrow> True | Some e \<Rightarrow> session_live e)"

definition scan_count :: "Scan \<Rightarrow> nat" where
  "scan_count s = (case sn_enrollment s of None \<Rightarrow> 0 | Some e \<Rightarrow> se_count e)"

text \<open>The fields that the work on an image leaves alone.\<close>

definition same_scan :: "Scan \<Rightarrow> Scan \<Rightarrow> bool" where
  "same_scan s s' \<longleftrightarrow>
     sn_at s' = sn_at s \<and> sn_generation s' = sn_generation s \<and> sn_verify s' = sn_verify s
     \<and> sn_current s' = sn_current s \<and> sn_active s' = sn_active s \<and> fp_user (sn_print s') = fp_user (sn_print s)
     \<and> fp_name (sn_print s') = fp_name (sn_print s)"

text \<open>A template of \<open>n\<close> captures was stored; a capture matched the store.\<close>

definition enrolled :: "scan_env \<Rightarrow> scan_world \<Rightarrow> Scan \<Rightarrow> Scan \<Rightarrow> nat \<Rightarrow> bool" where
  "enrolled env w s s' n \<longleftrightarrow>
     (\<exists>t. retained_ok t \<and> length (lc_captures (lt_collection t)) = n \<and> 7 \<le> n
        \<and> insert_or_update (cv_seal env) (cw_answers w) (cv_alloc env) ((sn_print s)\<lparr>fp_native := template_file t\<rparr>)
            (sn_store s) (sn_file s) = Some (Inr (True, sn_store s', sn_file s')))"

definition verified :: "scan_env \<Rightarrow> scan_world \<Rightarrow> Scan \<Rightarrow> Scan \<Rightarrow> bool" where
  "verified env w s s' \<longleftrightarrow>
     (\<exists>c. prepared_ok c
        \<and> verify (cv_seal env) (cw_answers w) (cv_alloc env) (cw_heap1 w) (cw_heap2 w) (fp_user (sn_print s))
            (fp_name (sn_print s)) c (sn_store s) (sn_file s) = Some (Inr (True, sn_store s', sn_file s')))"

definition other_statuses :: "bool \<Rightarrow> (string \<times> bool) list" where
  "other_statuses verifying =
     (if verifying then [(''verify-retry-scan'', False), (''verify-unknown-error'', True)]
      else [(''enroll-stage-passed'', False), (''enroll-remove-and-retry'', False), (''enroll-failed'', True),
            (''enroll-unknown-error'', True)])"

definition capture_result :: "scan_env \<Rightarrow> scan_world \<Rightarrow> Scan \<Rightarrow> Scan \<Rightarrow> string \<Rightarrow> bool \<Rightarrow> bool" where
  "capture_result env w s s' status terminal \<longleftrightarrow>
     same_scan s s' \<and> scan_live env s'
     \<and> (if status = ''enroll-completed'' then \<not> sn_verify s \<and> terminal \<and> enrolled env w s s' (Suc (scan_count s))
        else if status = ''verify-match'' then sn_verify s \<and> terminal \<and> verified env w s s'
        else sn_store s' = sn_store s \<and> sn_file s' = sn_file s
          \<and> (status, terminal) \<in> set (other_statuses (sn_verify s))
          \<and> (if terminal then True
             else scan_count s' = scan_count s + (if status = ''enroll-stage-passed'' then 1 else 0)))"

lemma unknown_result:
  assumes "same_scan s s'" "scan_live env s'" "sn_store s' = sn_store s" "sn_file s' = sn_file s"
  shows "capture_result env w s s' (unknown_error s') True"
proof -
  have "sn_verify s' = sn_verify s" using assms(1) by (simp add: same_scan_def)
  then show ?thesis
    using assms by (cases "sn_verify s") (simp_all add: capture_result_def unknown_error_def other_statuses_def)
qed

lemma caught_value: "caught (Some (Inr a)) s f = f a"
  by (simp add: caught_def)

lemma same_scan_refl [simp]: "same_scan s s"
  by (simp add: same_scan_def)

lemma resultI: "r = Some (s', status, terminal) \<Longrightarrow> P s' status terminal
    \<Longrightarrow> \<exists>s' status terminal. r = Some (s', status, terminal) \<and> P s' status terminal"
  by blast

lemma enroll_capture_spec:
  assumes "scan_live env s" "prepared_ok c" "\<And>n. cv_alloc env n" "world_ok env s w" "\<not> sn_verify s"
  shows "\<exists>s' status terminal. enroll_capture env w c s = Some (s', status, terminal)
    \<and> capture_result env w s s' status terminal"
proof (cases "sn_enrollment s")
  case None
  then show ?thesis using assms(1,5) by (auto simp: enroll_capture_def capture_result_def other_statuses_def)
next
  case (Some e)
  let ?al = "cv_alloc env" and ?st = "sn_store s"
  have live: "session_live e" and st: "db_ok ?al (fs_fingerprints ?st)" "own_records (fs_fingerprints ?st)"
    using assms(1) Some by (simp_all add: scan_live_def store_ok_def)
  obtain status e' r where a: "fpc_native_enrollment_add ?al e c zero_report = Some (status, e', r)" "session_live e'"
    and same: "status = 0 \<Longrightarrow> er_rejection_flags r \<noteq> 0 \<Longrightarrow> se_count e' = se_count e"
    and accepted: "status = 0 \<Longrightarrow> er_rejection_flags r = 0 \<Longrightarrow> \<not> se_failed e' \<and> se_count e' = Suc (se_count e)
       \<and> er_accepted r = se_count e' \<and> er_progress r = qs_progress (se_quality e')"
    using add_cases [OF live assms(2), where al = ?al and report = zero_report] by metis
  have cnt: "scan_count s = se_count e" using Some by (simp add: scan_count_def)
  define s1 where "s1 = s\<lparr>sn_enrollment := Some e'\<rparr>"
  define s2 where "s2 = s1\<lparr>sn_stage := int (er_accepted r)\<rparr>"
  have f: "same_scan s s1" "scan_live env s1" "same_scan s s2" "scan_live env s2" "scan_count s1 = se_count e'"
      "scan_count s2 = se_count e'" "sn_store s1 = ?st" "sn_file s1 = sn_file s" "sn_store s2 = ?st" "sn_file s2 = sn_file s"
      "sn_verify s1 = False" "sn_verify s2 = False" "sn_print s2 = sn_print s"
    using assms(1,5) a(2) by (simp_all add: s1_def s2_def same_scan_def scan_live_def scan_count_def)
  note d = enroll_capture_def Some a(1) Let_def s1_def [symmetric] s2_def [symmetric]
  consider (error) "status \<noteq> 0" | (rejected) "status = 0" "er_rejection_flags r \<noteq> 0"
    | (passed) "status = 0" "er_rejection_flags r = 0" "pg_complete (er_progress r) = 0"
    | (complete) "status = 0" "er_rejection_flags r = 0" "pg_complete (er_progress r) \<noteq> 0" by blast
  then show ?thesis
  proof cases
    case error
    then have "enroll_capture env w c s = Some (s1, if status = 112 then ''enroll-failed'' else ''enroll-unknown-error'', True)"
      by (simp add: d)
    then show ?thesis by (rule resultI) (use f assms(5) in \<open>simp add: capture_result_def other_statuses_def\<close>)
  next
    case rejected
    then have r: "enroll_capture env w c s = Some (s1, ''enroll-remove-and-retry'', False)" by (simp add: d)
    have n: "scan_count s1 = scan_count s" using f(5) cnt same [OF rejected] by simp
    show ?thesis by (rule resultI [OF r]) (use n f assms(5) in \<open>simp add: capture_result_def other_statuses_def\<close>)
  next
    case passed
    then have r: "enroll_capture env w c s = Some (s2, ''enroll-stage-passed'', False)" by (simp add: d)
    have n: "scan_count s2 = scan_count s + 1" using f(6) cnt accepted [OF passed(1,2)] by simp
    show ?thesis by (rule resultI [OF r]) (use n f assms(5) in \<open>simp add: capture_result_def other_statuses_def\<close>)
  next
    case complete
    note acc = accepted [OF complete(1,2)]
    obtain t where t: "fpc_native_enrollment_finish ?al e' False = Some (Inr t)" "retained_ok t"
      "length (lc_captures (lt_collection t)) = se_count e'" "7 \<le> se_count e'"
      using finish_captures [of e' ?al, OF a(2) assms(3)] acc complete(3) by metis
    define s3 where "s3 = s2\<lparr>sn_print := (sn_print s)\<lparr>fp_native := template_file t\<rparr>\<rparr>"
    have f3: "same_scan s s3" "scan_live env s3" "sn_store s3 = ?st" "sn_file s3 = sn_file s" "sn_verify s3 = False"
      "sn_print s3 = (sn_print s)\<lparr>fp_native := template_file t\<rparr>"
      using f by (simp_all add: s3_def same_scan_def scan_live_def)
    obtain x where x: "insert_or_update (cv_seal env) (cw_answers w) ?al (sn_print s3) ?st (sn_file s) = Some x"
      using insert_total [OF st t(2) assms(3)] assms(4) unfolding f3(6) world_ok_def by (metis not_None_eq)
    have run: "enroll_capture env w c s = caught (Some x) s3 (\<lambda>(ok, store, new).
        Some (s3\<lparr>sn_store := store, sn_file := new\<rparr>, if ok then ''enroll-completed'' else ''enroll-failed'', True))"
      using complete t(1) retained_serialize [OF t(2)] x f by (simp add: d caught_value s3_def)
    show ?thesis
    proof (cases x)
      case (Inl err)
      then have "enroll_capture env w c s = Some (s3, unknown_error s3, True)" using run by (simp add: caught_def)
      then show ?thesis by (rule resultI) (rule unknown_result [OF f3(1-4)])
    next
      case (Inr y)
      obtain ok store new where y: "y = (ok, store, new)" by (cases y)
      let ?s4 = "s3\<lparr>sn_store := store, sn_file := new\<rparr>"
      have i: "insert_or_update (cv_seal env) (cw_answers w) ?al ((sn_print s)\<lparr>fp_native := template_file t\<rparr>) ?st (sn_file s)
          = Some (Inr (ok, store, new))" using x Inr y f3(6) by simp
      have own: "own_template (fp_native ((sn_print s)\<lparr>fp_native := template_file t\<rparr>))"
        using t(2) by (auto simp: own_template_def)
      have r: "enroll_capture env w c s = Some (?s4, if ok then ''enroll-completed'' else ''enroll-failed'', True)"
        using run Inr y by (simp add: caught_def)
      have g: "same_scan s ?s4" "scan_live env ?s4"
        using f3 own_insert [OF st own i] by (simp_all add: same_scan_def scan_live_def store_ok_def)
      show ?thesis
      proof (cases ok)
        case True
        then have "enrolled env w s ?s4 (Suc (scan_count s))"
          using i t(2-4) acc cnt unfolding enrolled_def by auto
        with True g assms(5) show ?thesis by (intro resultI [OF r]) (simp add: capture_result_def)
      next
        case False
        then have "store = ?st" "new = sn_file s" using insert_or_update_cases [OF st(1) i] by (simp_all add: Let_def)
        with False g assms(5) show ?thesis by (intro resultI [OF r]) (simp add: capture_result_def other_statuses_def)
      qed
    qed
  qed
qed

lemma verify_capture_spec:
  assumes "scan_live env s" "prepared_ok c" "\<And>n. cv_alloc env n" "aead (cv_seal env) unseal" "world_ok env s w" "sn_verify s"
  shows "\<exists>s' status terminal. caught (verify (cv_seal env) (cw_answers w) (cv_alloc env) (cw_heap1 w) (cw_heap2 w)
        (fp_user (sn_print s)) (fp_name (sn_print s)) c (sn_store s) (sn_file s)) s
        (\<lambda>(match, store, new). Some (s\<lparr>sn_store := store, sn_file := new\<rparr>,
            if match then ''verify-match'' else ''verify-retry-scan'', match)) = Some (s', status, terminal)
    \<and> capture_result env w s s' status terminal"
proof -
  have st: "db_ok (cv_alloc env) (fs_fingerprints (sn_store s))" "own_records (fs_fingerprints (sn_store s))"
    and w: "nonce_ok (cw_answers w)" "\<And>db. save (cv_seal env) (cw_answers w) (sn_store s\<lparr>fs_fingerprints := db\<rparr>) (sn_file s) \<noteq> None"
    using assms(1,5) by (simp_all add: scan_live_def store_ok_def world_ok_def)
  obtain x where x: "verify (cv_seal env) (cw_answers w) (cv_alloc env) (cw_heap1 w) (cw_heap2 w)
        (fp_user (sn_print s)) (fp_name (sn_print s)) c (sn_store s) (sn_file s) = Some x"
    using verify_total [OF st assms(3,2) w(2)] by blast
  show ?thesis
  proof (cases x)
    case (Inl e)
    show ?thesis unfolding x Inl
      by (rule resultI [where s' = s and status = "unknown_error s" and terminal = True])
        (use assms(1) in \<open>simp_all add: caught_def unknown_result\<close>)
  next
    case (Inr y)
    obtain match store new where y: "y = (match, store, new)" by (cases y)
    let ?s = "s\<lparr>sn_store := store, sn_file := new\<rparr>"
    note v = x [unfolded Inr y]
    note k = verify_keeps [OF st assms(4) w(1) assms(3,2) v]
    have g: "same_scan s ?s" "scan_live env ?s"
      using k assms(1) by (simp_all add: same_scan_def scan_live_def store_ok_def)
    show ?thesis
    proof (cases match)
      case True
      then have "verified env w s ?s" using v assms(2) unfolding verified_def by auto
      with True g assms(6) show ?thesis unfolding v
        by (intro resultI [where s' = ?s and status = "''verify-match''" and terminal = True])
          (simp_all add: caught_value capture_result_def)
    next
      case False
      with k have "store = sn_store s" "new = sn_file s" by simp_all
      with False g assms(6) show ?thesis unfolding v
        by (intro resultI [where s' = ?s and status = "''verify-retry-scan''" and terminal = False])
          (simp_all add: caught_value capture_result_def other_statuses_def scan_count_def)
    qed
  qed
qed

lemma process_capture_spec:
  assumes "scan_live env s" "\<And>n. cv_alloc env n" "aead (cv_seal env) unseal" "world_ok env s w"
    "length payload = 12 + 9856 \<or> length payload = 12 + 2 * 9856"
  shows "\<exists>s' status terminal. process_capture env w payload s = Some (s', status, terminal)
    \<and> capture_result env w s s' status terminal"
proof -
  have unknown: "capture_result env w s s (unknown_error s) True"
    by (rule unknown_result) (simp_all add: assms(1))
  define at2 where "at2 = (if length payload = 12 + 2 * 9856 then 12 + 9856 else 12 :: nat)"
  obtain f1 f2 where f: "rd_bytes payload 12 9856 = Some f1" "rd_bytes payload at2 9856 = Some f2"
    using assms(5) by (auto simp: at2_def rd_bytes_in)
  note run = process_capture_def [of env w payload s, folded at2_def, unfolded f Option.bind.simps]
  show ?thesis
  proof (cases "fpc_profile300_rank_frames (cv_alloc env) [f1, f2]")
    case (Inl e)
    then have r: "process_capture env w payload s = Some (s, unknown_error s, True)" by (simp add: run)
    show ?thesis by (rule resultI [OF r]) (rule unknown)
  next
    case (Inr order)
    obtain status c where p: "fpc_profile300_prepare (cv_alloc env) (cv_tables env) ([f1, f2] ! (order ! 0))
        (fs_dead_pixels (sn_store s)) zero_prepared = Some (status, c)" "status = 0 \<Longrightarrow> prepared_ok c"
      using prepare_spec by (metis capture_ok_def)
    show ?thesis
    proof (cases "status = 0")
      case False
      then have r: "process_capture env w payload s = Some (s, unknown_error s, True)"
        using Inr p(1) by (simp add: run)
      show ?thesis by (rule resultI [OF r]) (rule unknown)
    next
      case True
      note c = p(2) [OF True]
      show ?thesis
      proof (cases "sn_verify s")
        case v: True
        show ?thesis using verify_capture_spec [OF assms(1) c assms(2-4) v] Inr p(1) True v
          by (simp add: run)
      next
        case v: False
        show ?thesis using enroll_capture_spec [OF assms(1) c assms(2,4) v] Inr p(1) True v
          by (simp add: run)
      qed
    qed
  qed
qed

lemma capture_header_ok:
  assumes "length payload = 12 + 9856 \<or> length payload = 12 + 2 * 9856"
  shows "\<exists>h. capture_header payload = Some (Inr h)"
proof -
  have "be32 payload 0 \<noteq> None" "be32 payload 4 \<noteq> None" "be32 payload 8 \<noteq> None"
    by (rule be32_total, use assms in force)+
  then show ?thesis using assms by (auto simp: capture_header_def)
qed

subsection \<open>The steps of the protocol\<close>

text \<open>What a step may put out: statuses of the kind of the operation, one start per capture, and after a
  final status nothing but the end of the capture.\<close>

datatype scan_phase = Scanning | Reported bool | Ended

fun follow :: "bool \<Rightarrow> scan_output \<Rightarrow> scan_phase \<Rightarrow> scan_phase option" where
  "follow verifying (Finger_state present needed) p = Some p"
| "follow verifying (Scan_status status terminal) p =
     (if p = Scanning \<and> (status, terminal) \<in> set ((if verifying then ''verify-match'' else ''enroll-completed'', True)
            # other_statuses verifying)
      then Some (Reported terminal) else None)"
| "follow verifying Sensor_start p = (if p = Reported False then Some Scanning else None)"
| "follow verifying Sensor_stop p = (if p = Scanning \<or> p = Reported True then Some Ended else None)"

fun phase_at :: "scan_at \<Rightarrow> scan_phase" where
  "phase_at Starting = Scanning"
| "phase_at Waiting = Scanning"
| "phase_at (Signalling terminal) = Reported terminal"
| "phase_at Stopping = Ended"
| "phase_at Returned = Ended"

text \<open>The number of captures that were reported as accepted.\<close>

definition passed :: "scan_output list \<Rightarrow> nat" where
  "passed out = length (filter (\<lambda>x. x = Scan_status ''enroll-stage-passed'' False) out)"

lemma passed_simps [simp]: "passed [] = 0" "passed (x # xs) = (if x = Scan_status ''enroll-stage-passed'' False then 1 else 0) + passed xs"
  "passed (xs @ ys) = passed xs + passed ys"
  by (simp_all add: passed_def)

lemma set_state_frame:
  assumes "set_state present needed s = (s', out)"
  shows "s' = s\<lparr>sn_present := present, sn_needed := needed\<rparr> \<and> (out = [] \<or> out = [Finger_state present needed])"
  using assms by (cases s) (auto simp: set_state_def split: if_splits)

text \<open>One event: nothing but a change of the finger state, a status, or the end.\<close>

definition quiet :: "scan_output list \<Rightarrow> bool" where
  "quiet out \<longleftrightarrow> (\<forall>x \<in> set out. \<exists>present needed. x = Finger_state present needed)"

datatype image_effect = Ignored | Told string bool | Ended_by_client

definition effect_outputs :: "image_effect \<Rightarrow> scan_output list" where
  "effect_outputs e = (case e of Ignored \<Rightarrow> [] | Told status terminal \<Rightarrow> [Scan_status status terminal]
     | Ended_by_client \<Rightarrow> [Sensor_stop])"

definition image_step :: "scan_env \<Rightarrow> scan_world \<Rightarrow> Scan \<Rightarrow> Scan \<Rightarrow> image_effect \<Rightarrow> bool" where
  "image_step env w s s' e \<longleftrightarrow>
     (case e of
        Ignored \<Rightarrow> (\<exists>p n. s' = s\<lparr>sn_present := p, sn_needed := n\<rparr>)
      | Told status terminal \<Rightarrow> (\<exists>s1. capture_result env w s s1 status terminal \<and> s' = s1\<lparr>sn_at := Signalling terminal\<rparr>)
      | Ended_by_client \<Rightarrow> (\<exists>p n. s' = s\<lparr>sn_current := sn_current s + 1, sn_present := p, sn_needed := n, sn_at := Stopping\<rparr>))"

lemma image_step_ignored:
  "image_step env w s s Ignored" "image_step env w s (s\<lparr>sn_present := p, sn_needed := n\<rparr>) Ignored"
proof -
  have "s = s\<lparr>sn_present := sn_present s, sn_needed := sn_needed s\<rparr>" by simp
  then show "image_step env w s s Ignored" unfolding image_step_def image_effect.case by (intro exI)
qed (auto simp: image_step_def)

lemma capture_result_state:
  "capture_result env w (s\<lparr>sn_present := p, sn_needed := n\<rparr>) s' status terminal = capture_result env w s s' status terminal"
  by (simp add: capture_result_def same_scan_def enrolled_def verified_def scan_count_def)

lemma scan_live_state [simp]:
  "scan_live env (s\<lparr>sn_present := p, sn_needed := n\<rparr>) = scan_live env s"
  "world_ok env (s\<lparr>sn_present := p, sn_needed := n\<rparr>) w = world_ok env s w"
  "unknown_error (s\<lparr>sn_present := p, sn_needed := n\<rparr>) = unknown_error s"
  by (simp_all add: scan_live_def world_ok_def unknown_error_def)

lemma parse_image_spec:
  assumes "scan_live env s" "\<And>n. cv_alloc env n" "aead (cv_seal env) unseal" "world_ok env s w"
  shows "\<exists>s' pre e. parse_image env w event s = Some (s', pre @ effect_outputs e) \<and> quiet pre \<and> image_step env w s s' e"
proof -
  have unknown: "capture_result env w s s1 (unknown_error s) True" if "s1 = s\<lparr>sn_present := p, sn_needed := n\<rparr>" for s1 p n
    using unknown_result [of s s1 env w] assms(1) that by (simp add: same_scan_def)
  show ?thesis
  proof (cases event)
    case (Finger_down g)
    obtain s1 out where ss: "set_state True True s = (s1, out)" by fastforce
    have "parse_image env w event s = Some ((if g \<noteq> sn_generation s then s else s1),
        (if g \<noteq> sn_generation s then [] else out) @ effect_outputs Ignored)"
      by (simp add: parse_image_def Finger_down effect_outputs_def ss)
    moreover have "quiet (if g \<noteq> sn_generation s then [] else out)" using set_state_frame [OF ss] by (auto simp: quiet_def)
    moreover have "image_step env w s (if g \<noteq> sn_generation s then s else s1) Ignored"
      using set_state_frame [OF ss] image_step_ignored by auto
    ultimately show ?thesis by blast
  next
    case (Finger_image g buffers)
    show ?thesis
    proof (cases "g = sn_generation s")
      case False
      then have "parse_image env w event s = Some (s, [] @ effect_outputs Ignored)"
        by (simp add: parse_image_def Finger_image effect_outputs_def)
      then show ?thesis using image_step_ignored(1) by (intro exI conjI) (auto simp: quiet_def)
    next
      case True
      obtain s1 out where ss: "set_state False True s = (s1, out)" by fastforce
      note s1 = set_state_frame [OF ss]
      have q: "quiet out" using s1 by (auto simp: quiet_def)
      have tell: "\<exists>s' pre e. r = Some (s', pre @ effect_outputs e) \<and> quiet pre \<and> image_step env w s s' e"
        if "r = Some (s2\<lparr>sn_at := Signalling terminal\<rparr>, out @ [Scan_status status terminal])"
          "capture_result env w s s2 status terminal" for r s2 status terminal
        using that q by (intro exI [of _ "s2\<lparr>sn_at := Signalling terminal\<rparr>"] exI [of _ out] exI [of _ "Told status terminal"])
          (auto simp: effect_outputs_def image_step_def)
      consider (bad) "gather_payload [] buffers = None"
        | (size) payload where "gather_payload [] buffers = Some payload" "length payload \<noteq> 12 + 9856" "length payload \<noteq> 12 + 2 * 9856"
        | (ok) payload where "gather_payload [] buffers = Some payload" "length payload = 12 + 9856 \<or> length payload = 12 + 2 * 9856"
        by (cases "gather_payload [] buffers") blast+
      then show ?thesis
      proof cases
        case bad
        then have r: "parse_image env w event s = Some (s1\<lparr>sn_at := Signalling True\<rparr>, out @ [Scan_status (unknown_error s) True])"
          using True s1 by (simp add: parse_image_def Finger_image ss then_do_def send_signal_def)
        show ?thesis by (rule tell [OF r]) (use unknown s1 in blast)
      next
        case size
        then have r: "parse_image env w event s = Some (s1\<lparr>sn_at := Signalling True\<rparr>, out @ [Scan_status (unknown_error s) True])"
          using True s1 by (simp add: parse_image_def Finger_image ss then_do_def send_signal_def)
        show ?thesis by (rule tell [OF r]) (use unknown s1 in blast)
      next
        case ok
        have l1: "scan_live env s1" "world_ok env s1 w" using s1 assms(1,4) by auto
        obtain h where h: "capture_header payload = Some (Inr h)" using capture_header_ok [OF ok(2)] by blast
        obtain s2 status terminal where p: "process_capture env w payload s1 = Some (s2, status, terminal)"
          "capture_result env w s1 s2 status terminal"
          using process_capture_spec [OF l1(1) assms(2,3) l1(2) ok(2)] by blast
        have r: "parse_image env w event s = Some (s2\<lparr>sn_at := Signalling terminal\<rparr>, out @ [Scan_status status terminal])"
          using True ok h p(1) by (auto simp: parse_image_def Finger_image ss then_do_def send_signal_def)
        show ?thesis by (rule tell [OF r]) (use p(2) s1 capture_result_state in metis)
      qed
    qed
  next
    case Enroll_verify_stop
    obtain s1 out where ss: "set_state False False (s\<lparr>sn_current := sn_current s + 1\<rparr>) = (s1, out)" by fastforce
    note s1 = set_state_frame [OF ss]
    have "parse_image env w event s = Some (s1\<lparr>sn_at := Stopping\<rparr>, out @ effect_outputs Ended_by_client)"
      by (simp add: parse_image_def Enroll_verify_stop then_do_def ss effect_outputs_def)
    moreover have "quiet out" using s1 by (auto simp: quiet_def)
    moreover have "image_step env w s (s1\<lparr>sn_at := Stopping\<rparr>) Ended_by_client"
      using s1 by (auto simp: image_step_def)
    ultimately show ?thesis by blast
  next
    case Transport_failed
    have "s = s\<lparr>sn_present := sn_present s, sn_needed := sn_needed s\<rparr>" by simp
    then have "capture_result env w s s (unknown_error s) True" by (rule unknown)
    then have "image_step env w s (s\<lparr>sn_at := Signalling True\<rparr>) (Told (unknown_error s) True)"
      by (auto simp: image_step_def)
    moreover have "parse_image env w event s = Some (s\<lparr>sn_at := Signalling True\<rparr>, [] @ effect_outputs (Told (unknown_error s) True))"
      by (simp add: parse_image_def Transport_failed send_signal_def effect_outputs_def)
    ultimately show ?thesis by (intro exI conjI) (auto simp: quiet_def)
  next
    case Other_event
    have "parse_image env w event s = Some (s, [] @ effect_outputs Ignored)"
      by (simp add: parse_image_def Other_event effect_outputs_def)
    then show ?thesis using image_step_ignored(1) by (intro exI conjI) (auto simp: quiet_def)
  qed
qed

end
