(* ===== verification/Operation.thy ===== *)
theory Operation
  imports Scan
begin

text \<open>
  Runs of an enroll or verify operation (\<^verbatim>\<open>fpc9201.cpp\<close>: \<^verbatim>\<open>WorkerEnrollVerify\<close>): their invariant, that they are
  defined, that they follow the protocol of statuses and captures, and what they do to the store.
\<close>

subsection \<open>The invariant of a run\<close>

definition run_inv :: "scan_env \<Rightarrow> bool \<Rightarrow> u8 list \<Rightarrow> u8 list \<Rightarrow> scan_output list \<Rightarrow> Scan \<Rightarrow> bool" where
  "run_inv env verifying user name tr s \<longleftrightarrow>
     scan_live env s \<and> sn_verify s = verifying
     \<and> (sn_at s \<noteq> Returned \<longrightarrow> fp_user (sn_print s) = user \<and> fp_name (sn_print s) = name)
     \<and> (\<exists>p. observe (follow verifying) tr (Reported False) = Some p \<and> (sn_at s = Returned \<or> p = phase_at (sn_at s)))
     \<and> (\<not> verifying \<and> sn_at s \<in> {Starting, Waiting, Signalling False} \<longrightarrow> passed tr = scan_count s)"

lemma quiet_follow: "quiet out \<Longrightarrow> observe (follow v) out p = Some p"
  by (induction out) (auto simp: quiet_def)

lemma quiet_passed: "quiet out \<Longrightarrow> passed out = 0"
  by (induction out) (auto simp: quiet_def)

lemma set_state_spec:
  obtains out where "set_state p n s = (s\<lparr>sn_present := p, sn_needed := n\<rparr>, out)" "quiet out"
  using set_state_frame [of p n s] by (cases "set_state p n s") (auto simp: quiet_def)

lemma told_phase:
  assumes "capture_result env w s s1 status terminal"
  shows "follow (sn_verify s) (Scan_status status terminal) Scanning = Some (Reported terminal)"
proof -
  have "(status, terminal) \<in> set ((if sn_verify s then ''verify-match'' else ''enroll-completed'', True) # other_statuses (sn_verify s))"
  proof (cases "status = ''enroll-completed'' \<or> status = ''verify-match''")
    case True
    then show ?thesis using assms unfolding capture_result_def by (elim disjE) simp_all
  next
    case False
    then have "(status, terminal) \<in> set (other_statuses (sn_verify s))"
      using assms unfolding capture_result_def by simp
    then show ?thesis by simp
  qed
  then show ?thesis by (simp only: follow.simps) simp
qed

lemma run_invI:
  assumes "scan_live env s" "sn_verify s = v" "sn_at s \<noteq> Returned \<Longrightarrow> fp_user (sn_print s) = user \<and> fp_name (sn_print s) = name"
    "observe (follow v) tr (Reported False) = Some p" "sn_at s = Returned \<or> p = phase_at (sn_at s)"
    "\<not> v \<Longrightarrow> sn_at s \<in> {Starting, Waiting, Signalling False} \<Longrightarrow> passed tr = scan_count s"
  shows "run_inv env v user name tr s"
  using assms unfolding run_inv_def by blast

lemma run_invD:
  assumes "run_inv env v user name tr s" "sn_at s \<noteq> Returned"
  shows "scan_live env s" "sn_verify s = v" "fp_user (sn_print s) = user" "fp_name (sn_print s) = name"
    "observe (follow v) tr (Reported False) = Some (phase_at (sn_at s))"
    "\<not> v \<Longrightarrow> sn_at s \<in> {Starting, Waiting, Signalling False} \<Longrightarrow> passed tr = scan_count s"
  using assms unfolding run_inv_def by blast+

lemma image_inv:
  assumes "run_inv env v user name tr s" "sn_at s = Waiting" "image_step env w s s' e" "quiet pre"
  shows "run_inv env v user name (tr @ pre @ effect_outputs e) s'"
proof -
  have at: "sn_at s \<noteq> Returned" using assms(2) by simp
  note i = run_invD(1-5) [OF assms(1) at]
  have n: "passed tr = scan_count s" if "\<not> v" using run_invD(6) [OF assms(1) at that] assms(2) by simp
  have f: "observe (follow v) (tr @ pre) (Reported False) = Some Scanning"
    using i(5) assms(2,4) by (simp add: observe_append quiet_follow)
  show ?thesis
  proof (cases e)
    case Ignored
    then obtain p q where s': "s' = s\<lparr>sn_present := p, sn_needed := q\<rparr>" using assms(3) by (auto simp: image_step_def)
    show ?thesis
      by (rule run_invI [where p = Scanning])
        (use i n f assms(2,4) in \<open>simp_all add: Ignored s' effect_outputs_def quiet_passed scan_count_def\<close>)
  next
    case (Told status terminal)
    then obtain s1 where s1: "capture_result env w s s1 status terminal" "s' = s1\<lparr>sn_at := Signalling terminal\<rparr>"
      using assms(3) by (auto simp: image_step_def)
    have g: "same_scan s s1" "scan_live env s1" using s1(1) by (simp_all add: capture_result_def)
    have c: "scan_count s1 = scan_count s + (if status = ''enroll-stage-passed'' then 1 else 0)" if "\<not> terminal"
      using s1(1) that by (simp add: capture_result_def split: if_splits)
    have f1: "observe (follow v) (tr @ pre @ effect_outputs e) (Reported False) = Some (Reported terminal)"
      using f told_phase [OF s1(1)] i(2) observe_append [of "follow v" "tr @ pre" "effect_outputs e"]
      by (simp add: Told effect_outputs_def del: follow.simps)
    show ?thesis
    proof (rule run_invI [OF _ _ _ f1])
      show "scan_live env s'" using g(2) by (simp add: s1(2) scan_live_def)
      show "sn_verify s' = v" "fp_user (sn_print s') = user \<and> fp_name (sn_print s') = name"
        using g(1) i by (simp_all add: s1(2) same_scan_def)
      show "sn_at s' = Returned \<or> Reported terminal = phase_at (sn_at s')" by (simp add: s1(2))
      assume "\<not> v" "sn_at s' \<in> {Starting, Waiting, Signalling False}"
      then have t: "\<not> terminal" by (simp add: s1(2))
      then show "passed (tr @ pre @ effect_outputs e) = scan_count s'"
        using n [OF \<open>\<not> v\<close>] c [OF t] quiet_passed [OF assms(4)]
        by (simp add: Told effect_outputs_def s1(2) scan_count_def)
    qed
  next
    case Ended_by_client
    then obtain p q where s': "s' = s\<lparr>sn_current := sn_current s + 1, sn_present := p, sn_needed := q, sn_at := Stopping\<rparr>"
      using assms(3) by (auto simp: image_step_def)
    have f1: "observe (follow v) (tr @ pre @ effect_outputs e) (Reported False) = Some Ended"
      using f observe_append [of "follow v" "tr @ pre" "effect_outputs e"] by (simp add: Ended_by_client effect_outputs_def)
    show ?thesis
      by (rule run_invI [OF _ _ _ f1]) (use i in \<open>simp_all add: s' scan_live_def\<close>)
  qed
qed

lemma finalize_inv:
  assumes "run_inv env v user name tr s" "finalize_scan s = (s', out)"
  shows "run_inv env v user name (tr @ out) s'"
proof -
  have s': "scan_live env s'" "sn_verify s' = v" "sn_at s' = Returned" "quiet out"
    using assms set_state_frame [OF assms(2) [unfolded finalize_scan_def]]
    by (auto simp: run_inv_def scan_live_def quiet_def)
  obtain p where "observe (follow v) tr (Reported False) = Some p" using assms(1) by (auto simp: run_inv_def)
  then have f: "observe (follow v) (tr @ out) (Reported False) = Some p" by (simp add: observe_append quiet_follow s'(4))
  show ?thesis by (rule run_invI [OF s'(1,2) _ f]) (simp_all add: s'(3))
qed

lemma done_inv:
  assumes "run_inv env v user name tr s" "sn_at s \<noteq> Waiting" "sn_at s \<noteq> Returned" "scan_exec env Done s = Some (s', out)"
  shows "run_inv env v user name (tr @ out) s'"
proof -
  note i = run_invD [OF assms(1,3)]
  show ?thesis
  proof (cases "sn_at s")
    case Starting
    then have e: "s' = s\<lparr>sn_at := Waiting\<rparr>" "out = []" using assms(4) by simp_all
    show ?thesis unfolding e
      by (rule run_invI [where p = Scanning]) (use i Starting in \<open>simp_all add: scan_live_def scan_count_def\<close>)
  next
    case (Signalling terminal)
    show ?thesis
    proof (cases terminal)
      case True
      obtain s1 out1 where ss: "set_state False False (s\<lparr>sn_current := sn_current s + 1\<rparr>) = (s1, out1)" by fastforce
      note s1 = set_state_frame [OF ss]
      have e: "s' = s1\<lparr>sn_at := Stopping\<rparr>" "out = out1 @ [Sensor_stop]"
        using assms(4) Signalling True by (simp_all add: stop_scan_def then_do_def ss)
      have "quiet out1" using s1 by (auto simp: quiet_def)
      then have f: "observe (follow v) (tr @ out) (Reported False) = Some Ended"
        using i(5) Signalling True by (simp add: e observe_append quiet_follow)
      show ?thesis by (rule run_invI [OF _ _ _ f]) (use i s1 in \<open>simp_all add: e scan_live_def\<close>)
    next
      case False
      then have e: "s' = s\<lparr>sn_current := sn_current s + 1, sn_generation := sn_current s + 1, sn_at := Starting\<rparr>" "out = [Sensor_start]"
        using assms(4) Signalling by (simp_all add: next_capture_def)
      have f: "observe (follow v) (tr @ out) (Reported False) = Some Scanning"
        using i(5) Signalling False by (simp add: e observe_append)
      show ?thesis by (rule run_invI [OF _ _ _ f]) (use i Signalling False in \<open>simp_all add: e scan_live_def scan_count_def\<close>)
    qed
  next
    case Stopping
    then have "finalize_scan s = (s', out)" using assms(4) by simp
    then show ?thesis by (rule finalize_inv [OF assms(1)])
  qed (use assms(2,3) in simp_all)
qed

lemma shared_inv:
  assumes "run_inv env v user name tr s" "store_ok env store"
  shows "run_inv env v user name tr (s\<lparr>sn_store := store, sn_file := new, sn_current := current\<rparr>)"
  using assms by (simp add: run_inv_def scan_live_def scan_count_def)

lemma start_inv:
  assumes "store_ok env store"
  shows "run_inv env v user name (snd (scan_start v user name room store old current))
    (fst (scan_start v user name room store old current))"
  using assms create_live
  by (simp add: run_inv_def scan_start_def set_state_def scan_live_def scan_count_def fpc_native_enrollment_create_def)

lemma exec_inv:
  assumes "run_inv env v user name tr s" "scan_allowed env op s" "\<And>n. cv_alloc env n" "aead (cv_seal env) unseal"
  shows "\<exists>s' out. scan_exec env op s = Some (s', out) \<and> run_inv env v user name (tr @ out) s'"
proof (cases op)
  case Done
  then have a: "sn_at s \<noteq> Waiting" "sn_at s \<noteq> Returned" using assms(2) by simp_all
  obtain s' out where e: "scan_exec env Done s = Some (s', out)" by fastforce
  with done_inv [OF assms(1) a e] Done show ?thesis by blast
next
  case (Received w event)
  then have a: "sn_at s = Waiting" "world_ok env s w" using assms(2) by simp_all
  have live: "scan_live env s" using assms(1) by (simp add: run_inv_def)
  obtain s' pre e where p: "parse_image env w event s = Some (s', pre @ effect_outputs e)" "quiet pre" "image_step env w s s' e"
    using parse_image_spec [OF live assms(3,4) a(2)] by blast
  with image_inv [OF assms(1) a(1) p(3,2)] Received show ?thesis by (intro exI conjI) simp_all
next
  case Cancelled
  obtain s' out where "finalize_scan s = (s', out)" by fastforce
  with finalize_inv [OF assms(1) this] Cancelled show ?thesis by simp
next
  case (Shared store new current)
  with shared_inv [OF assms(1)] assms(2) show ?thesis by simp
qed

lemma scan_reactive:
  assumes "\<And>n. cv_alloc env n" "aead (cv_seal env) unseal"
  shows "reactive (scan_allowed env) (scan_exec env) (run_inv env v user name)"
  by unfold_locales (rule exec_inv [OF _ _ assms])

lemma run_run_inv:
  assumes "scan_run env (scan_start v user name room store old current) tr s" "store_ok env store"
    "\<And>n. cv_alloc env n" "aead (cv_seal env) unseal"
  shows "run_inv env v user name tr s"
  by (rule reactive.invariant [OF scan_reactive [OF assms(3,4)] assms(1) start_inv [OF assms(2)]])

subsection \<open>Properties of an operation\<close>

lemma stored_record:
  assumes "enrolled env w s s' n" "scan_live env s" "\<And>n. cv_alloc env n" "aead (cv_seal env) unseal" "world_ok env s w"
  shows "\<exists>t p. retained_ok t \<and> length (lc_captures (lt_collection t)) = n \<and> 7 \<le> n
    \<and> find_record (fs_fingerprints (sn_store s')) = (find_record (fs_fingerprints (sn_store s)))
        (fp_user (sn_print s) := (find_record (fs_fingerprints (sn_store s)) (fp_user (sn_print s)))(fp_name (sn_print s) \<mapsto> p))
    \<and> fpc_template_load_default (cv_alloc env) (fp_native p) 32 = Some (Inr t)
    \<and> load unseal (cv_alloc env) (sn_file s') (sn_store s)
        = Some (Inr ((sn_store s')\<lparr>fs_fingerprints := nonempty_users (fs_fingerprints (sn_store s'))\<rparr>))"
proof -
  obtain t where t: "retained_ok t" "length (lc_captures (lt_collection t)) = n" "7 \<le> n"
    and i: "insert_or_update (cv_seal env) (cw_answers w) (cv_alloc env) ((sn_print s)\<lparr>fp_native := template_file t\<rparr>)
            (sn_store s) (sn_file s) = Some (Inr (True, sn_store s', sn_file s'))"
    using assms(1) unfolding enrolled_def by blast
  have st: "db_ok (cv_alloc env) (fs_fingerprints (sn_store s))" and w: "nonce_ok (cw_answers w)"
    using assms(2,5) by (simp_all add: scan_live_def store_ok_def world_ok_def)
  define p where "p = (sn_print s)\<lparr>fp_native := template_file t, fp_registration :=
      next_registration (fs_fingerprints (sn_store s)) (fp_user (sn_print s)) (fp_name (sn_print s))\<rparr>"
  have native: "fp_native p = template_file t" by (simp add: p_def)
  from insert_atomic [OF st assms(4) w i]
  have a: "find_record (fs_fingerprints (sn_store s')) = (find_record (fs_fingerprints (sn_store s)))
        (fp_user (sn_print s) := (find_record (fs_fingerprints (sn_store s)) (fp_user (sn_print s)))(fp_name (sn_print s) \<mapsto> p))
    \<and> load unseal (cv_alloc env) (sn_file s') (sn_store s)
        = Some (Inr ((sn_store s')\<lparr>fs_fingerprints := nonempty_users (fs_fingerprints (sn_store s'))\<rparr>))"
    by (simp add: p_def)
  have l: "fpc_template_load_default (cv_alloc env) (fp_native p) 32 = Some (Inr t)"
    unfolding native by (rule retained_load [OF t(1) assms(3)])
  show ?thesis by (intro exI [of _ t] exI [of _ p]) (use a t l in blast)
qed

lemma image_effects:
  assumes "image_step env w s s' e" "quiet pre" "sn_verify s = v"
  shows "Scan_status ''enroll-completed'' True \<in> set (pre @ effect_outputs e) \<longrightarrow> \<not> v \<and> enrolled env w s s' (Suc (scan_count s))"
    "Scan_status ''verify-match'' True \<in> set (pre @ effect_outputs e) \<longrightarrow> v \<and> verified env w s s'"
    "Scan_status ''enroll-completed'' True \<notin> set (pre @ effect_outputs e) \<Longrightarrow> Scan_status ''verify-match'' True \<notin> set (pre @ effect_outputs e)
      \<Longrightarrow> sn_store s' = sn_store s \<and> sn_file s' = sn_file s"
proof -
  have q: "Scan_status status terminal \<notin> set pre" for status terminal using assms(2) by (auto simp: quiet_def)
  have en: "enrolled env w s (s1\<lparr>sn_at := a\<rparr>) n = enrolled env w s s1 n" "verified env w s (s1\<lparr>sn_at := a\<rparr>) = verified env w s s1" for s1 a n
    by (simp_all add: enrolled_def verified_def)
  show "Scan_status ''enroll-completed'' True \<in> set (pre @ effect_outputs e) \<longrightarrow> \<not> v \<and> enrolled env w s s' (Suc (scan_count s))"
    using assms(1,3) q en by (cases e) (auto simp: effect_outputs_def image_step_def capture_result_def)
  show "Scan_status ''verify-match'' True \<in> set (pre @ effect_outputs e) \<longrightarrow> v \<and> verified env w s s'"
    using assms(1,3) q en by (cases e) (auto simp: effect_outputs_def image_step_def capture_result_def)
  assume n: "Scan_status ''enroll-completed'' True \<notin> set (pre @ effect_outputs e)" "Scan_status ''verify-match'' True \<notin> set (pre @ effect_outputs e)"
  show "sn_store s' = sn_store s \<and> sn_file s' = sn_file s"
  proof (cases e)
    case (Told status terminal)
    then obtain s1 where "capture_result env w s s1 status terminal" "s' = s1\<lparr>sn_at := Signalling terminal\<rparr>"
      using assms(1) by (auto simp: image_step_def)
    moreover from this(1) n Told have "status \<noteq> ''enroll-completed''" "status \<noteq> ''verify-match''"
      by (auto simp: effect_outputs_def capture_result_def)
    ultimately show ?thesis by (simp add: capture_result_def)
  qed (use assms(1) in \<open>auto simp: image_step_def\<close>)
qed

text \<open>(C5) An operation is defined on every run. Started on a consistent store of templates of this program,
  whatever events arrive, whatever the buffers hold, however the frames come out and whatever the other
  tasks do to the shared store in between, every step returns: no read leaves its buffer, no exception
  leaves the task, and the store stays consistent with templates of this program only.\<close>

theorem scan_total:
  assumes "scan_run env (scan_start v user name room store old current) tr s" "store_ok env store"
    and "\<And>n. cv_alloc env n" "aead (cv_seal env) unseal" "scan_allowed env op s"
  shows "\<exists>s' out. scan_exec env op s = Some (s', out) \<and> store_ok env (sn_store s')"
  using exec_inv [OF run_run_inv [OF assms(1-4)] assms(5,3,4)] by (auto simp: run_inv_def scan_live_def)

text \<open>(C4) An operation follows its protocol: the statuses it sends are those of its kind, each capture is
  started once and reported at most once, the next one is started only after a status that is not
  final, and after the final status, or after the client's stop, only the sensor is stopped. A cancelled
  operation breaks off such a sequence.\<close>

theorem scan_protocol:
  assumes "scan_run env (scan_start v user name room store old current) tr s" "store_ok env store"
    and "\<And>n. cv_alloc env n" "aead (cv_seal env) unseal"
  shows "\<exists>p. observe (follow v) tr (Reported False) = Some p \<and> (sn_at s = Returned \<or> p = phase_at (sn_at s))"
  using run_run_inv [OF assms] unfolding run_inv_def by blast

text \<open>(C3) What an operation does to the store. The status that an enrollment is completed is sent only by an
  enrollment, after at least six captures were reported as passed, and then the record of that user and
  finger, and no other, holds a template that loads again and has one capture more than were
  reported, and the file holds the new store. The status that a verification matched comes with at most the adaptation
  of one record it was compared with. With every other outcome, errors and failed saves included,
  neither the store nor the file changed.\<close>

theorem scan_stores_what_it_reports:
  assumes "scan_run env (scan_start v user name room store old current) tr s" "store_ok env store"
    and "\<And>n. cv_alloc env n" "aead (cv_seal env) unseal" "sn_at s = Waiting" "world_ok env s w"
    and "parse_image env w event s = Some (s', out)"
  shows "if Scan_status ''enroll-completed'' True \<in> set out
    then \<not> v \<and> 6 \<le> passed tr
      \<and> (\<exists>t p. length (lc_captures (lt_collection t)) = Suc (passed tr)
           \<and> fpc_template_load_default (cv_alloc env) (fp_native p) 32 = Some (Inr t)
           \<and> find_record (fs_fingerprints (sn_store s')) = (find_record (fs_fingerprints (sn_store s)))
               (user := (find_record (fs_fingerprints (sn_store s)) user)(name \<mapsto> p)))
      \<and> load unseal (cv_alloc env) (sn_file s') (sn_store s)
          = Some (Inr ((sn_store s')\<lparr>fs_fingerprints := nonempty_users (fs_fingerprints (sn_store s'))\<rparr>))
    else if Scan_status ''verify-match'' True \<in> set out
    then v \<and> (sn_store s' = sn_store s \<and> sn_file s' = sn_file s
           \<or> adapted (cv_alloc env) unseal user (filter (\<lambda>p. is_any name \<or> name = fp_name p) (in_order (sn_store s) user))
               (sn_store s) (sn_store s') (sn_file s'))
    else sn_store s' = sn_store s \<and> sn_file s' = sn_file s"
proof -
  have inv: "run_inv env v user name tr s" by (rule run_run_inv [OF assms(1-4)])
  have at: "sn_at s \<noteq> Returned" using assms(5) by simp
  note i = run_invD [OF inv at]
  obtain pre e where p: "out = pre @ effect_outputs e" "quiet pre" "image_step env w s s' e"
    using parse_image_spec [OF i(1) assms(3,4,6), of event] assms(7) by auto
  note x = image_effects [OF p(3,2) i(2), folded p(1)]
  show ?thesis
  proof (cases "Scan_status ''enroll-completed'' True \<in> set out")
    case True
    then have e: "\<not> v" "enrolled env w s s' (Suc (scan_count s))" using x(1) by blast+
    have n: "passed tr = scan_count s" using i(6) [OF e(1)] assms(5) by simp
    obtain t p where t: "length (lc_captures (lt_collection t)) = Suc (passed tr)" "7 \<le> Suc (passed tr)"
      "find_record (fs_fingerprints (sn_store s')) = (find_record (fs_fingerprints (sn_store s)))
        (user := (find_record (fs_fingerprints (sn_store s)) user)(name \<mapsto> p))"
      "fpc_template_load_default (cv_alloc env) (fp_native p) 32 = Some (Inr t)"
      "load unseal (cv_alloc env) (sn_file s') (sn_store s)
        = Some (Inr ((sn_store s')\<lparr>fs_fingerprints := nonempty_users (fs_fingerprints (sn_store s'))\<rparr>))"
      using stored_record [OF e(2) i(1) assms(3,4,6)] unfolding i(3,4) n by blast
    then show ?thesis using True e(1) by (simp only: if_True) auto
  next
    case no: False
    show ?thesis
    proof (cases "Scan_status ''verify-match'' True \<in> set out")
      case True
      then have v: "v" "verified env w s s'" using x(2) by blast+
      then obtain c where c: "prepared_ok c" "verify (cv_seal env) (cw_answers w) (cv_alloc env) (cw_heap1 w) (cw_heap2 w) user name
          c (sn_store s) (sn_file s) = Some (Inr (True, sn_store s', sn_file s'))"
        unfolding verified_def i(3,4) by blast
      have st: "db_ok (cv_alloc env) (fs_fingerprints (sn_store s))" "own_records (fs_fingerprints (sn_store s))"
        and w: "nonce_ok (cw_answers w)" using i(1) assms(6) by (simp_all add: scan_live_def store_ok_def world_ok_def)
      show ?thesis using verify_keeps [OF st assms(4) w assms(3) c] no True v(1) by simp
    next
      case False
      then show ?thesis using no x(3) by simp
    qed
  qed
qed

subsection \<open>A concrete operation\<close>

definition sample_scan_env :: scan_env where
  "sample_scan_env = \<lparr>cv_alloc = (\<lambda>_. True),
     cv_tables = \<lparr>pt_descriptor_weights = [], pt_quality_projection = [], pt_correction_projection = [], pt_enhancement = []\<rparr>,
     cv_seal = plain_seal\<rparr>"

definition sample_world :: scan_world where
  "sample_world = \<lparr>cw_answers = (good_answers 5)\<lparr>sa_writes := [Refused]\<rparr>, cw_heap1 = [], cw_heap2 = []\<rparr>"

definition sample_scan :: "Scan \<times> scan_output list" where
  "sample_scan = scan_start False (ascii ''ada'') (ascii ''left-thumb'') True sample_store None 4"

definition waiting_scan :: Scan where
  "waiting_scan = (fst sample_scan)\<lparr>sn_at := Waiting\<rparr>"

lemma sample_scan_facts:
  "store_ok sample_scan_env sample_store" "\<And>n. cv_alloc sample_scan_env n"
  "aead (cv_seal sample_scan_env) plain_unseal" "sn_at waiting_scan = Waiting"
  "world_ok sample_scan_env waiting_scan sample_world"
proof -
  show "store_ok sample_scan_env sample_store" by (simp add: store_ok_def sample_store_def own_records_def db_ok_empty find_record_def)
  show "\<And>n. cv_alloc sample_scan_env n" by (simp add: sample_scan_env_def)
  show "aead (cv_seal sample_scan_env) plain_unseal" by (simp add: sample_scan_env_def plain_aead)
  show "sn_at waiting_scan = Waiting" by (simp add: waiting_scan_def)
  have "save plain_seal (good_answers 5\<lparr>sa_writes := [Refused]\<rparr>) st old \<noteq> None" for st old
    by (cases "plain_database st") (simp_all add: save_def good_answers_def case_prod_unfold)
  moreover have "nonce_ok (good_answers 5\<lparr>sa_writes := [Refused]\<rparr>)" by (simp add: nonce_ok_def good_answers_def)
  ultimately show "world_ok sample_scan_env waiting_scan sample_world"
    by (simp add: world_ok_def sample_scan_env_def sample_world_def del: not_None_eq)
qed

lemma sample_scan_run: "scan_run sample_scan_env sample_scan [Finger_state False True, Sensor_start] waiting_scan"
proof -
  have s: "snd sample_scan = [Finger_state False True, Sensor_start]" "sn_at (fst sample_scan) = Starting"
    by (simp_all add: sample_scan_def scan_start_def set_state_def)
  have "scan_run sample_scan_env sample_scan (snd sample_scan @ []) waiting_scan"
    by (rule machine_run.step [OF machine_run.begun, where op = Done]) (simp_all add: s waiting_scan_def)
  then show ?thesis by (simp add: s)
qed

lemma sample_parse:
  "parse_image sample_scan_env sample_world Transport_failed waiting_scan
     = Some (waiting_scan\<lparr>sn_at := Signalling True\<rparr>, [Scan_status ''enroll-unknown-error'' True])"
  by (simp add: parse_image_def send_signal_def unknown_error_def waiting_scan_def sample_scan_def scan_start_def set_state_def)

theorem scan_total_witness:
  "\<exists>s' out. scan_exec sample_scan_env (Received sample_world (Finger_image 5 [[1], [2, 3]])) waiting_scan = Some (s', out)
     \<and> store_ok sample_scan_env (sn_store s')"
  by (rule scan_total [OF sample_scan_run [unfolded sample_scan_def] sample_scan_facts(1-3)])
    (simp add: sample_scan_facts)

theorem scan_protocol_witness:
  "\<exists>p. observe (follow False) [Finger_state False True, Sensor_start] (Reported False) = Some p
     \<and> (sn_at waiting_scan = Returned \<or> p = phase_at (sn_at waiting_scan))"
  by (rule scan_protocol [OF sample_scan_run [unfolded sample_scan_def] sample_scan_facts(1-3)])

theorem scan_stores_what_it_reports_witness:
  "sn_store (waiting_scan\<lparr>sn_at := Signalling True\<rparr>) = sn_store waiting_scan
     \<and> sn_file (waiting_scan\<lparr>sn_at := Signalling True\<rparr>) = sn_file waiting_scan"
  using scan_stores_what_it_reports [OF sample_scan_run [unfolded sample_scan_def] sample_scan_facts(1-5) sample_parse] by simp

end
