(* ===== verification/Control.thy ===== *)
theory Control
  imports Machine Scan
begin

text \<open>
  The session with the reader (\<^verbatim>\<open>fpc9201.cpp\<close>: \<^verbatim>\<open>WorkerControl\<close>). The task is a coroutine: \<open>cn_at\<close> is what it
  awaits and where it goes on. \<open>None\<close> is undefined behaviour, such as a transfer without an open handle, or an
  exception that leaves the task.
\<close>

subsection \<open>The task\<close>

datatype control_point =
    At_state | At_parse_state | At_spawn | At_parse_tls_key | At_event | At_delay_image | At_image | At_arm
  | At_end_enrollment | At_end_session | At_reopen | At_yield_recovery | At_resume_recovery

datatype control_at =
    Transferring control_point
  | Sleeping control_point
  | Putting control_point
  | Handling
  | Ended_control

text \<open>\<^verbatim>\<open>error::Error\<close> by its category; the others are raised.\<close>

datatype reader_error = Cancelled_error | Transfer_error int | Usb_error int | Other_error int

record endpoint_descriptor =
  ep_address :: u8
  ep_max_packet :: u16

record interface_descriptor =
  id_length :: u8
  id_number :: u8
  id_endpoints :: "endpoint_descriptor list"

definition no_interface :: interface_descriptor where
  "no_interface = \<lparr>id_length = 0, id_number = 0, id_endpoints = []\<rparr>"

definition no_endpoint :: endpoint_descriptor where
  "no_endpoint = \<lparr>ep_address = 0, ep_max_packet = 0\<rparr>"

record Control =
  cn_at :: control_at
  cn_handle :: "nat option"
  cn_interface :: interface_descriptor
  cn_endpoint :: endpoint_descriptor
  cn_tls_key :: "u8 list"
  cn_pipe :: "u8 list option"
  cn_tasks :: bool
  cn_ready :: bool
  cn_capturing :: bool
  cn_first_touch :: bool
  cn_stale :: bool
  cn_generation :: u64
  cn_arm_token :: u32
  cn_identity :: u16
  cn_format :: u16
  cn_firmware :: "u8 list"
  cn_last_arm :: int
  cn_last_image :: int
  cn_device :: bool
  cn_power :: bool
  cn_suspended :: bool
  cn_attempt :: nat
  cn_error :: reader_error
  cn_started :: int
  cn_store :: FingerprintStorage
  cn_current :: u64
  cn_operating :: bool
  cn_sleeping :: bool
  cn_reader_ready :: bool
  cn_attached :: bool

text \<open>The last fields but one are the storage that the tasks share. \<open>cn_tasks\<close> says whether the tasks of the session run
  (watchdog, TLS, input, output); \<open>cn_pipe\<close> is the key of their pipe. Times are in nanoseconds.\<close>

datatype control_output =
    Opened nat
  | Claimed nat u8 bool
  | Control_transfer nat u8 u8 u16 u16 "u8 list"
  | To_operation image_event
  | Paused nat
  | Recovery nat nat
  | Session_started
  | Reader_ready bool
  | Closing nat "u8 option"
  | Device_cancelled
  | Detached

text \<open>What the task meets: the clock, the answers of libusb and the file of the database.\<close>

record control_env =
  ke_alloc :: "nat \<Rightarrow> bool"
  ke_unseal :: "u8 list \<Rightarrow> u8 list \<Rightarrow> u8 list \<Rightarrow> u8 list \<Rightarrow> u8 list \<Rightarrow> u8 list option"
  ke_sha :: "u8 list \<Rightarrow> u8 list"
  ke_hmac :: "u8 list \<Rightarrow> u8 list \<Rightarrow> u8 list"
  ke_cbc :: "u8 list \<Rightarrow> u8 list \<Rightarrow> u8 list option"
  ke_path :: "u8 list"

record control_world =
  kw_clock :: "nat \<Rightarrow> int"
  kw_config :: "interface_descriptor list list option"
  kw_claim :: int
  kw_open :: "nat option"
  kw_deferred :: bool
  kw_file :: "u8 list option"

text \<open>The events of the session's queue.\<close>

datatype control_event =
    Reader FPCEvent
  | TLS_ready
  | Start_sensor
  | Stop_sensor
  | Session_failed reader_error
  | Suspend
  | Resume
  | Unrelated

type_synonym control_result = "(Control \<times> control_output list) option"

definition also_out :: "control_output list \<Rightarrow> control_result \<Rightarrow> control_result" where
  "also_out out r = map_option (\<lambda>(s, out'). (s, out @ out')) r"

subsection \<open>Endings and recovery\<close>

definition find_endpoint :: "interface_descriptor list list option \<Rightarrow> (interface_descriptor \<times> endpoint_descriptor) option" where
  "find_endpoint config =
     (case config of
        None \<Rightarrow> None
      | Some interfaces \<Rightarrow>
          List.find (\<lambda>(iface, endp). ep_address endp = 0x82)
            (concat (map (\<lambda>settings. concat (map (\<lambda>iface. map (Pair iface) (id_endpoints iface)) settings)) interfaces)))"

definition cleanup_device :: "bool \<Rightarrow> Control \<Rightarrow> Control \<times> control_output list" where
  "cleanup_device remove_device s =
     (s\<lparr>cn_reader_ready := False, cn_device := cn_device s \<and> \<not> remove_device, cn_tasks := False, cn_tls_key := [],
        cn_handle := None, cn_interface := no_interface, cn_endpoint := no_endpoint, cn_pipe := None,
        cn_ready := False, cn_capturing := False, cn_current := cn_current s + 1\<rparr>,
      (if remove_device \<and> cn_device s then [Device_cancelled] else [])
      @ (case cn_handle s of
           None \<Rightarrow> []
         | Some h \<Rightarrow> [Closing h (if id_length (cn_interface s) \<noteq> 0 then Some (id_number (cn_interface s)) else None)]))"

text \<open>\<^verbatim>\<open>async_finalize\<close>, when the task returns, raises an error or is cancelled.\<close>

definition finalize_control :: "Control \<Rightarrow> control_result" where
  "finalize_control s =
     (case cleanup_device True (s\<lparr>cn_power := False\<rparr>) of
        (s, out) \<Rightarrow> Some (s\<lparr>cn_at := Ended_control, cn_attached := False\<rparr>, out @ [Detached]))"

definition recovery_delay :: "Control \<Rightarrow> nat" where
  "recovery_delay s = [500, 1000, 2000, 5000, 10000, 30000] ! min (cn_attempt s) 5"

definition schedule_recovery :: "Control \<Rightarrow> control_result" where
  "schedule_recovery s =
     (if 6 \<le> cn_attempt s then finalize_control s
      else Some (s\<lparr>cn_attempt := cn_attempt s + 1, cn_at := Sleeping At_reopen\<rparr>, [Recovery (cn_attempt s + 1) (recovery_delay s)]))"

definition get_event :: "Control \<Rightarrow> control_result" where
  "get_event s = Some (s\<lparr>cn_at := Handling\<rparr>, [])"

definition begin_recovery :: "Control \<Rightarrow> control_result" where
  "begin_recovery s =
     (case cleanup_device False s of
        (s, out) \<Rightarrow>
          let s = s\<lparr>cn_suspended := cn_sleeping s\<rparr> in
          also_out out (if cn_suspended s then get_event s else schedule_recovery s))"

definition notify_operation_failed :: "reader_error \<Rightarrow> control_world \<Rightarrow> Control \<Rightarrow> control_result" where
  "notify_operation_failed e w s =
     (let s = s\<lparr>cn_ready := False, cn_reader_ready := False, cn_error := e\<rparr> in
      if \<not> cn_device s \<or> \<not> cn_operating s then begin_recovery s
      else Some (s\<lparr>cn_started := kw_clock w 0, cn_at := Putting At_yield_recovery\<rparr>, [To_operation Transport_failed]))"

definition yield_recovery :: "Control \<Rightarrow> control_result" where
  "yield_recovery s = Some (s\<lparr>cn_at := Sleeping At_resume_recovery\<rparr>, [Paused 5])"

definition resume_recovery :: "control_world \<Rightarrow> Control \<Rightarrow> control_result" where
  "resume_recovery w s =
     (if cn_operating s \<and> kw_clock w 0 - cn_started s < 5000000000
      then Some (s\<lparr>cn_at := Sleeping At_resume_recovery\<rparr>, [Paused 50])
      else begin_recovery s)"

definition control_error :: "reader_error \<Rightarrow> control_world \<Rightarrow> Control \<Rightarrow> control_result" where
  "control_error e w s =
     (case e of
        Transfer_error n \<Rightarrow> notify_operation_failed e w s
      | Usb_error n \<Rightarrow> notify_operation_failed e w s
      | _ \<Rightarrow> finalize_control s)"

subsection \<open>Starting a session\<close>

text \<open>A control transfer: type, request, value, length and the data that go out; then the task goes on \<open>after\<close> it.
  libusb must not be given a null handle.\<close>

definition transfer :: "u8 \<Rightarrow> u8 \<Rightarrow> u16 \<Rightarrow> u16 \<Rightarrow> u8 list \<Rightarrow> control_point \<Rightarrow> Control \<Rightarrow> control_result" where
  "transfer type request val len data after s =
     (case cn_handle s of
        None \<Rightarrow> None
      | Some h \<Rightarrow> Some (s\<lparr>cn_at := Transferring after\<rparr>, [Control_transfer h type request val len data]))"

definition indicate_s_state :: "Control \<Rightarrow> control_result" where
  "indicate_s_state s = transfer 0x40 8 0x10 0 [] At_state s"

definition get_state :: "Control \<Rightarrow> control_result" where
  "get_state s = transfer 0xC0 80 0 72 [] At_parse_state s"

definition init_session :: "control_world \<Rightarrow> Control \<Rightarrow> control_result" where
  "init_session w s =
     (case cn_handle s of
        None \<Rightarrow> None
      | Some h \<Rightarrow>
          (case find_endpoint (kw_config w) of
             None \<Rightarrow> control_error (Usb_error (- 5)) w s
           | Some (iface, endp) \<Rightarrow>
               let s = s\<lparr>cn_interface := iface, cn_endpoint := endp\<rparr> in
               also_out [Claimed h (id_number iface) (0 \<le> kw_claim w)]
                 (if kw_claim w < 0 then control_error (Usb_error (kw_claim w)) w s else indicate_s_state s)))"

definition reopen :: "control_world \<Rightarrow> Control \<Rightarrow> control_result" where
  "reopen w s =
     (if kw_deferred w then Some (s\<lparr>cn_at := Sleeping At_reopen\<rparr>, [Paused 5])
      else case kw_open w of
             None \<Rightarrow> schedule_recovery s
           | Some h \<Rightarrow> also_out [Opened h]
               (init_session w (s\<lparr>cn_handle := Some h, cn_interface := no_interface, cn_endpoint := no_endpoint\<rparr>)))"

definition parse_state :: "control_world \<Rightarrow> u8 list \<Rightarrow> Control \<Rightarrow> control_result" where
  "parse_state w data s =
     (if length data \<noteq> 72 then control_error (Usb_error (- 1)) w s
      else if data ! 0 \<noteq> 21 \<or> data ! 1 \<noteq> 26 \<or> data ! 2 \<noteq> 2 then finalize_control s
      else transfer 0x40 1 1 4 [0x10, 0x2f, 0x11, 0x17] At_spawn s)"

definition spawn :: "Control \<Rightarrow> control_result" where
  "spawn s = also_out [Session_started] (get_event (s\<lparr>cn_tasks := True, cn_pipe := Some []\<rparr>))"

text \<open>\<^verbatim>\<open>BIOPipe::psk_server_cb\<close>: the key for the handshake, empty when it refuses.\<close>

definition psk_server_cb :: "u8 list \<Rightarrow> nat \<Rightarrow> u8 list" where
  "psk_server_cb key max_psk_len = (if length key \<noteq> 32 \<or> max_psk_len < length key then [] else key)"

definition parse_tls_key :: "control_env \<Rightarrow> control_world \<Rightarrow> u8 list \<Rightarrow> Control \<Rightarrow> control_result" where
  "parse_tls_key env w data s =
     (if length data < 28 then control_error (Usb_error (- 1)) w s
      else do { r \<leftarrow> unwrap_tls_key (ke_sha env) (ke_hmac env) (ke_cbc env) data;
        case r of
          None \<Rightarrow> control_error (Usb_error (- 1)) w s
        | Some key \<Rightarrow>
            (case cn_pipe s of
               None \<Rightarrow> None
             | Some _ \<Rightarrow> transfer 0x40 5 1 0 [] At_event (s\<lparr>cn_tls_key := key, cn_pipe := Some key\<rparr>)) })"

subsection \<open>Captures\<close>

definition get_image :: "control_world \<Rightarrow> Control \<Rightarrow> control_result" where
  "get_image w s =
     (if \<not> cn_capturing s \<or> cn_generation s \<noteq> cn_current s then get_event s
      else transfer 0x40 9 0 0 [] At_event (s\<lparr>cn_last_image := kw_clock w 2\<rparr>))"

definition delay_get_image :: "control_world \<Rightarrow> Control \<Rightarrow> control_result" where
  "delay_get_image w s =
     (if \<not> cn_capturing s \<or> cn_generation s \<noteq> cn_current s then get_event s
      else if 200000000 \<le> kw_clock w 1 - cn_last_image s then get_image w s
      else Some (s\<lparr>cn_at := Sleeping At_image\<rparr>, [Paused 200]))"

definition submit_arm :: "control_world \<Rightarrow> Control \<Rightarrow> control_result" where
  "submit_arm w s =
     (if \<not> cn_capturing s \<or> cn_generation s \<noteq> cn_current s then get_event s
      else transfer 0x40 2 2 4 (store_le32 (cn_arm_token s)) At_event (s\<lparr>cn_last_arm := kw_clock w 1\<rparr>))"

definition start_sensor :: "control_world \<Rightarrow> Control \<Rightarrow> control_result" where
  "start_sensor w s =
     (let s = s\<lparr>cn_capturing := True, cn_generation := cn_current s, cn_arm_token := cn_arm_token s + 1\<rparr> in
      if kw_clock w 0 - cn_last_arm s < 100000000 then Some (s\<lparr>cn_at := Sleeping At_arm\<rparr>, [Paused 100])
      else submit_arm w s)"

definition stop_sensor :: "Control \<Rightarrow> control_result" where
  "stop_sensor s = transfer 0x40 3 1 0 [] At_end_enrollment (s\<lparr>cn_capturing := False\<rparr>)"

definition end_enrollment :: "Control \<Rightarrow> control_result" where
  "end_enrollment s = transfer 0x40 19 0 0 [] At_end_session s"

definition end_session :: "Control \<Rightarrow> control_result" where
  "end_session s = transfer 0x40 18 0 0 [] At_event s"

text \<open>\<^verbatim>\<open>duration_cast\<close> to milliseconds truncates.\<close>

definition milliseconds :: "int \<Rightarrow> int" where
  "milliseconds d = (if 0 \<le> d then d div 1000000 else - (- d div 1000000))"

definition finger_down :: "control_world \<Rightarrow> Control \<Rightarrow> control_result" where
  "finger_down w s =
     (if cn_ready s \<and> cn_capturing s \<and> cn_generation s = cn_current s
      then let since_arm = milliseconds (kw_clock w 0 - cn_last_arm s);
               s = s\<lparr>cn_stale := cn_first_touch s \<and> since_arm < 1000, cn_first_touch := False\<rparr> in
           if cn_stale s then delay_get_image w s
           else Some (s\<lparr>cn_at := Putting At_delay_image\<rparr>, [To_operation (Finger_down (cn_generation s))])
      else get_event s)"

definition image_arrived :: "control_world \<Rightarrow> u8 list list \<Rightarrow> Control \<Rightarrow> control_result" where
  "image_arrived w buffers s =
     (if \<not> cn_capturing s \<or> cn_generation s \<noteq> cn_current s then get_event s
      else if cn_stale s then start_sensor w (s\<lparr>cn_stale := False\<rparr>)
      else Some (s\<lparr>cn_capturing := False, cn_at := Putting At_event\<rparr>, [To_operation (Finger_image (cn_generation s) buffers)]))"

subsection \<open>Events\<close>

definition init_result :: "control_world \<Rightarrow> FPCEvent \<Rightarrow> Control \<Rightarrow> control_result" where
  "init_result w event s =
     (case event_bytes event of
        Inl _ \<Rightarrow> None
      | Inr bytes \<Rightarrow>
          do { r \<leftarrow> parse_init_result bytes (ev_unknown event);
            case r of
              Inl Init_io \<Rightarrow> control_error (Usb_error (- 1)) w s
            | Inl Init_not_supported \<Rightarrow>
                do { identity \<leftarrow> be16 bytes 0; hw \<leftarrow> be16 bytes 2;
                     control_error (Usb_error (- 12)) w
                       (s\<lparr>cn_identity := identity, cn_store := (cn_store s)\<lparr>fs_hardware_id := hw\<rparr>\<rparr>) }
            | Inr info \<Rightarrow>
                transfer 0xC0 11 0 1000 [] At_parse_tls_key
                  (s\<lparr>cn_identity := reader_identity info, cn_store := (cn_store s)\<lparr>fs_hardware_id := hardware_id info\<rparr>,
                     cn_firmware := firmware info, cn_format := optional_format info\<rparr>) })"

definition dead_pixel_report :: "control_world \<Rightarrow> FPCEvent \<Rightarrow> Control \<Rightarrow> control_result" where
  "dead_pixel_report w event s =
     (case event_bytes event of
        Inl _ \<Rightarrow> None
      | Inr bytes \<Rightarrow>
          do { r \<leftarrow> parse_dead_pixels bytes;
            case r of
              Inl _ \<Rightarrow> control_error (Usb_error (- 1)) w s
            | Inr defects \<Rightarrow> get_event (s\<lparr>cn_store := (cn_store s)\<lparr>fs_dead_pixels := defects\<rparr>\<rparr>) })"

definition reader_event :: "control_world \<Rightarrow> FPCEvent \<Rightarrow> Control \<Rightarrow> control_result" where
  "reader_event w event s =
     (if ev_code event = 2 then init_result w event s
      else if ev_code event = 3 then
        (if ev_unknown event \<noteq> 0 then control_error (Usb_error (- 1)) w s else get_event s)
      else if ev_code event = 4 then dead_pixel_report w event s
      else if ev_code event = 5 then control_error (Usb_error (- 1)) w s
      else if ev_code event = 6 then finger_down w s
      else if ev_code event = 8 then image_arrived w (ev_buffers event) s
      else if ev_code event \<in> {1, 7, 9, 0x0a, 0x20} then get_event s
      else control_error (Usb_error (- 1)) w s)"

definition tls_ready :: "control_env \<Rightarrow> control_world \<Rightarrow> Control \<Rightarrow> control_result" where
  "tls_ready env w s =
     do { (r, store) \<leftarrow> init (ke_unseal env) (ke_alloc env) (kw_file w) (ke_path env) (cn_tls_key s) (cn_store s);
       case r of
         Inl _ \<Rightarrow> None
       | Inr _ \<Rightarrow>
           also_out [Reader_ready (\<not> cn_device s)]
             (transfer 0x40 10 0 0 [] At_event
               (s\<lparr>cn_store := store, cn_ready := True, cn_reader_ready := True, cn_attempt := 0, cn_first_touch := True,
                  cn_stale := False, cn_device := True\<rparr>)) }"

fun handle_event :: "control_env \<Rightarrow> control_world \<Rightarrow> control_event \<Rightarrow> Control \<Rightarrow> control_result" where
  "handle_event env w (Reader event) s = reader_event w event s"
| "handle_event env w TLS_ready s = tls_ready env w s"
| "handle_event env w Start_sensor s =
     (if \<not> cn_ready s \<or> cn_handle s = None \<or> cn_sleeping s then get_event s else start_sensor w s)"
| "handle_event env w Stop_sensor s =
     (let s = s\<lparr>cn_capturing := False\<rparr> in if \<not> cn_ready s \<or> cn_handle s = None then get_event s else stop_sensor s)"
| "handle_event env w (Session_failed e) s = notify_operation_failed e w s"
| "handle_event env w Suspend s =
     notify_operation_failed (Usb_error (- 10)) w (s\<lparr>cn_suspended := True, cn_capturing := False\<rparr>)"
| "handle_event env w Resume s =
     (if \<not> cn_suspended s then get_event s else reopen w (s\<lparr>cn_suspended := False, cn_attempt := 0\<rparr>))"
| "handle_event env w Unrelated s = get_event s"

text \<open>\<^verbatim>\<open>WorkerControl::operator()\<close>, with or without a handle.\<close>

definition control_start :: "control_world \<Rightarrow> nat option \<Rightarrow> Control \<Rightarrow> control_result" where
  "control_start w handle s =
     (let s = s\<lparr>cn_handle := handle, cn_ready := False, cn_attached := True, cn_power := True\<rparr> in
      case handle of
        None \<Rightarrow> schedule_recovery s
      | Some h \<Rightarrow> also_out [Opened h] (init_session w s))"

text \<open>Where the task goes on; \<open>data\<close> is what a transfer brought.\<close>

fun control_resume :: "control_env \<Rightarrow> control_world \<Rightarrow> control_point \<Rightarrow> u8 list \<Rightarrow> Control \<Rightarrow> control_result" where
  "control_resume env w At_state data s = get_state s"
| "control_resume env w At_parse_state data s = parse_state w data s"
| "control_resume env w At_spawn data s = spawn s"
| "control_resume env w At_parse_tls_key data s = parse_tls_key env w data s"
| "control_resume env w At_event data s = get_event s"
| "control_resume env w At_delay_image data s = delay_get_image w s"
| "control_resume env w At_image data s = get_image w s"
| "control_resume env w At_arm data s = submit_arm w s"
| "control_resume env w At_end_enrollment data s = end_enrollment s"
| "control_resume env w At_end_session data s = end_session s"
| "control_resume env w At_reopen data s = reopen w s"
| "control_resume env w At_yield_recovery data s = yield_recovery s"
| "control_resume env w At_resume_recovery data s = resume_recovery w s"

subsection \<open>Runs\<close>

text \<open>A transfer, a pause or a put is done; an event is taken from the queue; what was awaited fails; other tasks change
  what they share. Every effect is recorded with the generation of captures at its time.\<close>

datatype control_op =
    Transferred control_world "u8 list"
  | Elapsed control_world
  | Put_done control_world
  | Taken control_world control_event
  | Failed control_world reader_error
  | Others u64 bool bool FingerprintStorage

definition tagged :: "control_result \<Rightarrow> (Control \<times> (u64 \<times> control_output) list) option" where
  "tagged r = map_option (\<lambda>(s, out). (s, map (Pair (cn_current s)) out)) r"

fun control_exec :: "control_env \<Rightarrow> control_op \<Rightarrow> Control \<Rightarrow> (Control \<times> (u64 \<times> control_output) list) option" where
  "control_exec env (Transferred w data) s =
     tagged (case cn_at s of Transferring p \<Rightarrow> control_resume env w p data s | _ \<Rightarrow> None)"
| "control_exec env (Elapsed w) s = tagged (case cn_at s of Sleeping p \<Rightarrow> control_resume env w p [] s | _ \<Rightarrow> None)"
| "control_exec env (Put_done w) s = tagged (case cn_at s of Putting p \<Rightarrow> control_resume env w p [] s | _ \<Rightarrow> None)"
| "control_exec env (Taken w event) s = tagged (handle_event env w event s)"
| "control_exec env (Failed w e) s = tagged (control_error e w s)"
| "control_exec env (Others current operating sleeping store) s =
     tagged (Some (s\<lparr>cn_current := current, cn_operating := operating, cn_sleeping := sleeping, cn_store := store\<rparr>, []))"

text \<open>The tasks of the session put reader events, and a cleanup empties the queue, so there are such events only while they
  run. Their buffers hold at most the body of a frame; a longer report than \<^verbatim>\<open>event_bytes\<close> takes is an exception. A
  handshake ends only with the key of the callback, and the database file is absent or can be read.\<close>

fun event_allowed :: "control_env \<Rightarrow> control_world \<Rightarrow> control_event \<Rightarrow> Control \<Rightarrow> bool" where
  "event_allowed env w (Reader event) s =
     (cn_tasks s \<and> (if ev_code event \<in> {2, 4} then \<not> isl (event_bytes event) else True))"
| "event_allowed env w TLS_ready s =
     (cn_tasks s \<and> (case cn_pipe s of None \<Rightarrow> False | Some key \<Rightarrow> psk_server_cb key 256 \<noteq> [])
      \<and> (case load (ke_unseal env) (ke_alloc env) (kw_file w) ((cn_store s)\<lparr>fs_filename := ke_path env, fs_key := cn_tls_key s\<rparr>) of
           Some (Inl _) \<Rightarrow> False
         | _ \<Rightarrow> True))"
| "event_allowed env w _ s = True"

fun control_allowed :: "control_env \<Rightarrow> control_op \<Rightarrow> Control \<Rightarrow> bool" where
  "control_allowed env (Transferred w data) s = (case cn_at s of Transferring p \<Rightarrow> True | _ \<Rightarrow> False)"
| "control_allowed env (Elapsed w) s = (case cn_at s of Sleeping p \<Rightarrow> True | _ \<Rightarrow> False)"
| "control_allowed env (Put_done w) s = (case cn_at s of Putting p \<Rightarrow> True | _ \<Rightarrow> False)"
| "control_allowed env (Taken w event) s = (cn_at s = Handling \<and> event_allowed env w event s)"
| "control_allowed env (Failed w e) s = (cn_at s \<noteq> Ended_control)"
| "control_allowed env (Others current operating sleeping store) s = (cn_current s \<le> current)"

definition control_initial :: "FingerprintStorage \<Rightarrow> Control" where
  "control_initial store =
     \<lparr>cn_at = Handling, cn_handle = None, cn_interface = no_interface, cn_endpoint = no_endpoint, cn_tls_key = [],
      cn_pipe = None, cn_tasks = False, cn_ready = False, cn_capturing = False, cn_first_touch = False,
      cn_stale = False, cn_generation = 0, cn_arm_token = 0x17112f10, cn_identity = 0, cn_format = 0,
      cn_firmware = [], cn_last_arm = 0, cn_last_image = 0, cn_device = False, cn_power = False, cn_suspended = False,
      cn_attempt = 0, cn_error = Other_error 0, cn_started = 0, cn_store = store, cn_current = 0,
      cn_operating = False, cn_sleeping = False, cn_reader_ready = False, cn_attached = False\<rparr>"

definition control_begin :: "control_world \<Rightarrow> nat option \<Rightarrow> FingerprintStorage \<Rightarrow> (Control \<times> (u64 \<times> control_output) list) option" where
  "control_begin w handle store = tagged (control_start w handle (control_initial store))"

subsection \<open>What the effects have to obey\<close>

text \<open>The link to the reader: opened, then its interface is claimed, then transfers, then it is closed before another is
  opened, and it is closed when the task ends.\<close>

datatype link = Unlinked | Linked nat | In_session nat

fun link_follow :: "u64 \<times> control_output \<Rightarrow> link \<Rightarrow> link option" where
  "link_follow (g, Opened h) l = (if l = Unlinked then Some (Linked h) else None)"
| "link_follow (g, Claimed h n ok) l = (if l = Linked h then Some (if ok then In_session h else l) else None)"
| "link_follow (g, Control_transfer h type request val len data) l = (if l = In_session h then Some l else None)"
| "link_follow (g, Closing h n) l = (if l = Linked h \<or> l = In_session h then Some Unlinked else None)"
| "link_follow (g, Detached) l = (if l = Unlinked then Some l else None)"
| "link_follow (g, x) l = Some l"

text \<open>The cycle of a capture: armed in a generation; fetched, announced and delivered in that generation; delivered once.\<close>

fun capture_follow :: "u64 \<times> control_output \<Rightarrow> u64 option \<Rightarrow> u64 option option" where
  "capture_follow (g, Control_transfer h type request val len data) c =
     (if request = 2 then Some (Some g) else if request = 9 \<and> c \<noteq> Some g then None else Some c)"
| "capture_follow (g, To_operation event) c =
     (case event of
        Finger_down g' \<Rightarrow> if g' = g \<and> c = Some g then Some c else None
      | Finger_image g' buffers \<Rightarrow> if g' = g \<and> c = Some g then Some None else None
      | _ \<Rightarrow> Some c)"
| "capture_follow (g, Closing h n) c = Some None"
| "capture_follow (g, x) c = Some c"

end
