(* ===== verification/ReaderSession.thy ===== *)
theory ReaderSession
  imports Control
begin

text \<open>
  Properties of the session with the reader (\<^verbatim>\<open>fpc9201.cpp\<close>: \<^verbatim>\<open>WorkerControl\<close>) on every run: every step returns, the
  link to the reader is opened and closed in turn, captures follow their cycle, and recovery gives up.
\<close>

subsection \<open>The invariant\<close>

text \<open>What the place where the task waits says of the session.\<close>

datatype stage = Setup | Running | Attending | Parted | Failing | Nowhere

fun stage_of :: "control_at \<Rightarrow> stage" where
  "stage_of (Transferring p) =
     (if p \<in> {At_state, At_parse_state, At_spawn} then Setup
      else if p \<in> {At_parse_tls_key, At_event, At_end_enrollment, At_end_session} then Running else Nowhere)"
| "stage_of (Sleeping p) =
     (if p = At_reopen then Parted else if p \<in> {At_arm, At_image} then Running
      else if p = At_resume_recovery then Failing else Nowhere)"
| "stage_of (Putting p) =
     (if p \<in> {At_event, At_delay_image} then Running else if p = At_yield_recovery then Failing else Nowhere)"
| "stage_of Handling = Attending"
| "stage_of Ended_control = Parted"

definition stage_ok :: "Control \<Rightarrow> link \<Rightarrow> bool" where
  "stage_ok s l \<longleftrightarrow>
     (case stage_of (cn_at s) of
        Setup \<Rightarrow> (\<exists>h. l = In_session h) \<and> \<not> cn_tasks s
      | Running \<Rightarrow> (\<exists>h. l = In_session h) \<and> cn_tasks s
      | Attending \<Rightarrow> l = Unlinked \<and> \<not> cn_tasks s \<or> (\<exists>h. l = In_session h) \<and> cn_tasks s \<and> \<not> cn_suspended s
      | Parted \<Rightarrow> l = Unlinked \<and> \<not> cn_tasks s
      | Failing \<Rightarrow> True
      | Nowhere \<Rightarrow> False)"

definition link_ok :: "Control \<Rightarrow> link \<Rightarrow> bool" where
  "link_ok s l \<longleftrightarrow> (case cn_handle s of None \<Rightarrow> l = Unlinked | Some h \<Rightarrow> l = Linked h \<or> l = In_session h)"

text \<open>The capture that is under way was armed in its generation, unless it is about to be armed.\<close>

definition capture_ok_at :: "Control \<Rightarrow> u64 option \<Rightarrow> bool" where
  "capture_ok_at s c \<longleftrightarrow>
     (if cn_capturing s \<and> stage_of (cn_at s) \<noteq> Failing
      then cn_tasks s \<and> cn_ready s \<and> cn_generation s \<le> cn_current s
        \<and> (if cn_generation s = cn_current s \<and> cn_at s \<noteq> Sleeping At_arm then c = Some (cn_generation s) else True)
      else True)"

definition control_ok :: "link \<Rightarrow> u64 option \<Rightarrow> Control \<Rightarrow> bool" where
  "control_ok l c s \<longleftrightarrow>
     stage_ok s l \<and> link_ok s l \<and> capture_ok_at s c
     \<and> cn_tls_key s = (case cn_pipe s of None \<Rightarrow> [] | Some key \<Rightarrow> key) \<and> cn_tasks s = (cn_pipe s \<noteq> None)
     \<and> (if cn_suspended s then stage_of (cn_at s) = Failing \<or> cn_at s = Handling \<or> cn_at s = Ended_control else True)
     \<and> cn_attempt s \<le> 6"

definition control_inv :: "control_env \<Rightarrow> (u64 \<times> control_output) list \<Rightarrow> Control \<Rightarrow> bool" where
  "control_inv env tr s \<longleftrightarrow>
     (\<exists>l c. observe link_follow tr Unlinked = Some l \<and> observe capture_follow tr None = Some c \<and> control_ok l c s)"

text \<open>A result whose effects the observers accept and whose state is in order.\<close>

definition obeys :: "link \<Rightarrow> u64 option \<Rightarrow> control_result \<Rightarrow> bool" where
  "obeys l c r \<longleftrightarrow>
     (case r of
        None \<Rightarrow> False
      | Some (s, out) \<Rightarrow>
          (case (observe link_follow (map (Pair (cn_current s)) out) l, observe capture_follow (map (Pair (cn_current s)) out) c) of
             (Some l', Some c') \<Rightarrow> control_ok l' c' s
           | _ \<Rightarrow> False))"

lemma obeys_inv:
  assumes "observe link_follow tr Unlinked = Some l" "observe capture_follow tr None = Some c" "obeys l c r"
  shows "\<exists>s out. tagged r = Some (s, out) \<and> control_inv env (tr @ out) s"
  using assms by (fastforce simp: obeys_def tagged_def control_inv_def observe_append split: option.splits prod.splits)

lemma obeys_Some [simp]:
  "obeys l c (Some (s, [])) = control_ok l c s"
  by (simp add: obeys_def)

lemma obeys_also:
  assumes "\<And>g. observe link_follow (map (Pair g) out) l = Some l1" "\<And>g. observe capture_follow (map (Pair g) out) c = Some c1"
    "obeys l1 c1 r"
  shows "obeys l c (also_out out r)"
  using assms by (auto simp: obeys_def also_out_def observe_append split: option.splits prod.splits)

lemmas control_ok_defs = control_ok_def stage_ok_def link_ok_def capture_ok_at_def

subsection \<open>Endings\<close>

lemma cleanup_link:
  assumes "link_ok s l" "cleanup_device remove s = (s', out)"
  shows "observe link_follow (map (Pair g) out) l = Some Unlinked"
    "observe capture_follow (map (Pair g) out) c = Some (if cn_handle s = None then c else None)"
  using assms by (auto simp: cleanup_device_def link_ok_def split: option.splits)

lemma cleanup_state:
  assumes "cleanup_device remove s = (s', out)"
  shows "cn_handle s' = None" "\<not> cn_tasks s'" "\<not> cn_ready s'" "\<not> cn_capturing s'" "cn_tls_key s' = []" "cn_pipe s' = None"
    "cn_attempt s' = cn_attempt s" "cn_sleeping s' = cn_sleeping s"
  using assms by (auto simp: cleanup_device_def)

lemma finalize_obeys:
  assumes "link_ok s l" "cn_attempt s \<le> 6"
  shows "obeys l c (finalize_control s)"
proof -
  obtain s' out where e: "cleanup_device True (s\<lparr>cn_power := False\<rparr>) = (s', out)" by fastforce
  have l: "link_ok (s\<lparr>cn_power := False\<rparr>) l" using assms(1) by (simp add: link_ok_def)
  have "obeys Unlinked c' (Some (s'\<lparr>cn_at := Ended_control, cn_attached := False\<rparr>, [Detached]))" for c'
    using cleanup_state [OF e] assms(2) by (simp add: obeys_def control_ok_defs)
  then have "obeys l c (also_out out (Some (s'\<lparr>cn_at := Ended_control, cn_attached := False\<rparr>, [Detached])))"
    by (rule obeys_also [OF cleanup_link [OF l e]])
  then show ?thesis by (simp add: finalize_control_def e also_out_def)
qed

lemma schedule_obeys:
  assumes "cn_handle s = None" "cn_attempt s \<le> 6" "\<not> cn_tasks s" "\<not> cn_capturing s" "\<not> cn_suspended s" "cn_tls_key s = []" "cn_pipe s = None"
  shows "obeys Unlinked c (schedule_recovery s)"
proof (cases "6 \<le> cn_attempt s")
  case True
  then show ?thesis using finalize_obeys [of s Unlinked c] assms by (simp add: schedule_recovery_def link_ok_def)
next
  case False
  then show ?thesis using assms by (simp add: schedule_recovery_def obeys_def control_ok_defs)
qed

lemma begin_recovery_obeys:
  assumes "link_ok s l" "cn_attempt s \<le> 6"
  shows "obeys l c (begin_recovery s)"
proof -
  obtain s' out where e: "cleanup_device False s = (s', out)" by fastforce
  let ?s = "s'\<lparr>cn_suspended := cn_sleeping s'\<rparr>"
  have "obeys Unlinked c' (if cn_suspended ?s then get_event ?s else schedule_recovery ?s)" for c'
  proof (cases "cn_suspended ?s")
    case True
    then show ?thesis using assms(2) by (simp add: get_event_def control_ok_defs cleanup_state [OF e])
  next
    case False
    then show ?thesis using schedule_obeys [of ?s c'] assms(2) by (simp add: cleanup_state [OF e])
  qed
  then have "obeys l c (also_out out (if cn_suspended ?s then get_event ?s else schedule_recovery ?s))"
    by (rule obeys_also [OF cleanup_link [OF assms(1) e]])
  then show ?thesis by (simp add: begin_recovery_def e Let_def)
qed

lemma notify_obeys:
  assumes "link_ok s l" "cn_attempt s \<le> 6" "cn_tls_key s = (case cn_pipe s of None \<Rightarrow> [] | Some key \<Rightarrow> key)"
    "cn_tasks s = (cn_pipe s \<noteq> None)"
  shows "obeys l c (notify_operation_failed e w s)"
proof -
  let ?s = "s\<lparr>cn_ready := False, cn_reader_ready := False, cn_error := e\<rparr>"
  have "link_ok ?s l" using assms(1) by (simp add: link_ok_def)
  then have "obeys l c (begin_recovery ?s)" using assms(2) by (intro begin_recovery_obeys) simp_all
  moreover have "obeys l c (Some (?s\<lparr>cn_started := kw_clock w 0, cn_at := Putting At_yield_recovery\<rparr>, [To_operation Transport_failed]))"
    using assms by (simp add: obeys_def control_ok_defs)
  ultimately show ?thesis by (simp add: notify_operation_failed_def Let_def del: obeys_Some)
qed

lemma error_obeys:
  assumes "link_ok s l" "cn_attempt s \<le> 6" "cn_tls_key s = (case cn_pipe s of None \<Rightarrow> [] | Some key \<Rightarrow> key)"
    "cn_tasks s = (cn_pipe s \<noteq> None)"
  shows "obeys l c (control_error e w s)"
  using notify_obeys [OF assms] finalize_obeys [OF assms(1,2)] by (cases e) (simp_all add: control_error_def)

subsection \<open>Starting a session\<close>

text \<open>A state without captures whose keys are in order.\<close>

definition idle_ok :: "Control \<Rightarrow> bool" where
  "idle_ok s \<longleftrightarrow> cn_attempt s \<le> 6 \<and> \<not> cn_capturing s \<and> \<not> cn_suspended s \<and> \<not> cn_tasks s \<and> cn_tls_key s = [] \<and> cn_pipe s = None"

lemma setup_transfer_obeys:
  assumes "idle_ok s" "cn_handle s = Some h" "stage_of (Transferring p) = Setup" "request \<noteq> 2" "request \<noteq> 9"
  shows "obeys (In_session h) c (transfer type request val len data p s)"
  using assms by (simp add: transfer_def obeys_def idle_ok_def control_ok_defs)

lemma idle_error_obeys:
  assumes "idle_ok s" "link_ok s l"
  shows "obeys l c (control_error e w s)"
  by (rule error_obeys) (use assms in \<open>simp_all add: idle_ok_def\<close>)

lemma init_session_obeys:
  assumes "idle_ok s" "cn_handle s = Some h"
  shows "obeys (Linked h) c (init_session w s)"
proof (cases "find_endpoint (kw_config w)")
  case None
  then show ?thesis using idle_error_obeys [OF assms(1), of "Linked h" c] assms(2)
    by (simp add: init_session_def link_ok_def)
next
  case (Some found)
  obtain iface endp where f: "found = (iface, endp)" by (cases found)
  let ?s = "s\<lparr>cn_interface := iface, cn_endpoint := endp\<rparr>"
  have s: "idle_ok ?s" "cn_handle ?s = Some h" using assms by (simp_all add: idle_ok_def)
  have "obeys (if 0 \<le> kw_claim w then In_session h else Linked h) c
      (if kw_claim w < 0 then control_error (Usb_error (kw_claim w)) w ?s else indicate_s_state ?s)"
    using idle_error_obeys [OF s(1), of "Linked h" c] setup_transfer_obeys [OF s] s(2)
    by (auto simp: indicate_s_state_def link_ok_def)
  then have "obeys (Linked h) c (also_out [Claimed h (id_number iface) (0 \<le> kw_claim w)]
      (if kw_claim w < 0 then control_error (Usb_error (kw_claim w)) w ?s else indicate_s_state ?s))"
    by (rule obeys_also [rotated 2]) simp_all
  then show ?thesis using assms(2) Some f by (simp add: init_session_def Let_def)
qed

lemma reopen_obeys:
  assumes "idle_ok s" "cn_handle s = None"
  shows "obeys Unlinked c (reopen w s)"
proof (cases "kw_deferred w \<or> kw_open w = None")
  case True
  have "obeys Unlinked c (schedule_recovery s)" using assms by (intro schedule_obeys) (simp_all add: idle_ok_def)
  moreover have "obeys Unlinked c (Some (s\<lparr>cn_at := Sleeping At_reopen\<rparr>, [Paused 5]))"
    using assms by (simp add: obeys_def idle_ok_def control_ok_defs)
  ultimately show ?thesis using True by (auto simp: reopen_def)
next
  case False
  then obtain h where h: "kw_open w = Some h" by auto
  have "obeys (Linked h) c (init_session w (s\<lparr>cn_handle := Some h, cn_interface := no_interface, cn_endpoint := no_endpoint\<rparr>))"
    using assms by (intro init_session_obeys) (simp_all add: idle_ok_def)
  then have "obeys Unlinked c (also_out [Opened h]
      (init_session w (s\<lparr>cn_handle := Some h, cn_interface := no_interface, cn_endpoint := no_endpoint\<rparr>)))"
    by (rule obeys_also [rotated 2]) simp_all
  then show ?thesis using False h by (simp add: reopen_def)
qed

lemma parse_state_obeys:
  assumes "idle_ok s" "cn_handle s = Some h"
  shows "obeys (In_session h) c (parse_state w data s)"
  using idle_error_obeys [OF assms(1), of "In_session h" c] finalize_obeys [of s "In_session h" c]
    setup_transfer_obeys [OF assms] assms
  by (simp add: parse_state_def link_ok_def idle_ok_def)

lemma spawn_obeys:
  assumes "idle_ok s" "cn_handle s = Some h"
  shows "obeys (In_session h) c (spawn s)"
proof -
  have "obeys (In_session h) c (get_event (s\<lparr>cn_tasks := True, cn_pipe := Some []\<rparr>))"
    using assms by (simp add: get_event_def idle_ok_def control_ok_defs)
  then show ?thesis unfolding spawn_def by (rule obeys_also [rotated 2]) simp_all
qed

subsection \<open>In a session\<close>

definition session_ok_at :: "nat \<Rightarrow> Control \<Rightarrow> bool" where
  "session_ok_at h s \<longleftrightarrow>
     cn_handle s = Some h \<and> cn_tasks s \<and> \<not> cn_suspended s \<and> cn_attempt s \<le> 6 \<and> cn_pipe s = Some (cn_tls_key s)"

text \<open>A capture under way is of a generation that is not past; \<open>armed\<close> says that it was armed when its generation is the current one.\<close>

definition capturing_ok :: "Control \<Rightarrow> bool" where
  "capturing_ok s \<longleftrightarrow> (if cn_capturing s then cn_ready s \<and> cn_generation s \<le> cn_current s else True)"

definition armed :: "Control \<Rightarrow> u64 option \<Rightarrow> bool" where
  "armed s c \<longleftrightarrow>
     capturing_ok s \<and> (if cn_capturing s \<and> cn_generation s = cn_current s then c = Some (cn_generation s) else True)"

lemma transfer_obeys:
  assumes "session_ok_at h s" "stage_of (Transferring p) = Running" "armed s c'"
    "capture_follow (cn_current s, Control_transfer h type request val len data) c = Some c'"
  shows "obeys (In_session h) c (transfer type request val len data p s)"
  using assms by (simp add: transfer_def obeys_def session_ok_at_def armed_def capturing_ok_def control_ok_defs del: capture_follow.simps)

lemma event_obeys:
  assumes "session_ok_at h s" "armed s c"
  shows "obeys (In_session h) c (get_event s)"
  using assms by (simp add: get_event_def session_ok_at_def armed_def capturing_ok_def control_ok_defs)

lemma session_error_obeys:
  assumes "session_ok_at h s"
  shows "obeys (In_session h) c (control_error e w s)"
  by (rule error_obeys) (use assms in \<open>simp_all add: session_ok_at_def link_ok_def\<close>)

lemma get_image_obeys:
  assumes "session_ok_at h s" "armed s c"
  shows "obeys (In_session h) c (get_image w s)"
proof (cases "cn_capturing s \<and> cn_generation s = cn_current s")
  case True
  have "obeys (In_session h) c (transfer 0x40 9 0 0 [] At_event (s\<lparr>cn_last_image := kw_clock w 2\<rparr>))"
    by (rule transfer_obeys [where c' = c])
      (use assms True in \<open>simp_all add: session_ok_at_def armed_def capturing_ok_def\<close>)
  with True show ?thesis by (simp add: get_image_def)
next
  case False
  then show ?thesis using event_obeys [OF assms] by (simp add: get_image_def)
qed

lemma delay_obeys:
  assumes "session_ok_at h s" "armed s c"
  shows "obeys (In_session h) c (delay_get_image w s)"
proof -
  have "obeys (In_session h) c (Some (s\<lparr>cn_at := Sleeping At_image\<rparr>, [Paused 200]))"
    using assms by (simp add: obeys_def session_ok_at_def armed_def capturing_ok_def control_ok_defs)
  then show ?thesis using event_obeys [OF assms] get_image_obeys [OF assms] by (simp add: delay_get_image_def)
qed

lemma arm_obeys:
  assumes "session_ok_at h s" "capturing_ok s"
  shows "obeys (In_session h) c (submit_arm w s)"
proof (cases "cn_capturing s \<and> cn_generation s = cn_current s")
  case True
  have "obeys (In_session h) c (transfer 0x40 2 2 4 (store_le32 (cn_arm_token s)) At_event (s\<lparr>cn_last_arm := kw_clock w 1\<rparr>))"
    by (rule transfer_obeys [where c' = "Some (cn_current s)"])
      (use assms True in \<open>simp_all add: session_ok_at_def armed_def capturing_ok_def\<close>)
  with True show ?thesis by (simp add: submit_arm_def)
next
  case False
  then have "armed s c" using assms(2) by (auto simp: armed_def)
  with False show ?thesis using event_obeys [OF assms(1)] by (simp add: submit_arm_def)
qed

lemma start_obeys:
  assumes "session_ok_at h s" "cn_ready s"
  shows "obeys (In_session h) c (start_sensor w s)"
proof -
  let ?s = "s\<lparr>cn_capturing := True, cn_generation := cn_current s, cn_arm_token := cn_arm_token s + 1\<rparr>"
  have s: "session_ok_at h ?s" "capturing_ok ?s" using assms by (simp_all add: session_ok_at_def capturing_ok_def)
  have "obeys (In_session h) c (Some (?s\<lparr>cn_at := Sleeping At_arm\<rparr>, [Paused 100]))"
    using assms by (simp add: obeys_def session_ok_at_def control_ok_defs)
  then show ?thesis using arm_obeys [OF s] by (simp add: start_sensor_def Let_def)
qed

lemma down_obeys:
  assumes "session_ok_at h s" "armed s c"
  shows "obeys (In_session h) c (finger_down w s)"
proof (cases "cn_ready s \<and> cn_capturing s \<and> cn_generation s = cn_current s")
  case True
  define stale where "stale \<longleftrightarrow> cn_first_touch s \<and> milliseconds (kw_clock w 0 - cn_last_arm s) < 1000"
  define s1 where "s1 = s\<lparr>cn_stale := stale, cn_first_touch := False\<rparr>"
  have run: "finger_down w s = (if stale then delay_get_image w s1
      else Some (s1\<lparr>cn_at := Putting At_delay_image\<rparr>, [To_operation (Finger_down (cn_generation s))]))"
    using True by (simp add: finger_down_def Let_def s1_def stale_def)
  have s1: "session_ok_at h s1" "armed s1 c" using assms by (simp_all add: s1_def session_ok_at_def armed_def capturing_ok_def)
  have "obeys (In_session h) c (Some (s1\<lparr>cn_at := Putting At_delay_image\<rparr>, [To_operation (Finger_down (cn_generation s))]))"
    using assms True by (simp add: s1_def obeys_def session_ok_at_def armed_def capturing_ok_def control_ok_defs)
  then show ?thesis using delay_obeys [OF s1] by (simp add: run del: obeys_Some)
next
  case False
  show ?thesis unfolding finger_down_def if_not_P [OF False] by (rule event_obeys [OF assms])
qed

lemma image_obeys:
  assumes "session_ok_at h s" "armed s c"
  shows "obeys (In_session h) c (image_arrived w buffers s)"
proof (cases "cn_capturing s \<and> cn_generation s = cn_current s")
  case True
  have "obeys (In_session h) c (Some (s\<lparr>cn_capturing := False, cn_at := Putting At_event\<rparr>,
      [To_operation (Finger_image (cn_generation s) buffers)]))"
    using assms True by (simp add: obeys_def session_ok_at_def armed_def control_ok_defs)
  moreover have "obeys (In_session h) c (start_sensor w (s\<lparr>cn_stale := False\<rparr>))"
    by (rule start_obeys) (use assms True in \<open>simp_all add: session_ok_at_def armed_def capturing_ok_def\<close>)
  ultimately show ?thesis using True by (simp add: image_arrived_def)
next
  case False
  then show ?thesis using event_obeys [OF assms] by (simp add: image_arrived_def)
qed

lemma init_result_obeys:
  assumes "session_ok_at h s" "armed s c" "\<not> isl (event_bytes event)"
  shows "obeys (In_session h) c (init_result w event s)"
proof -
  obtain bytes where b: "event_bytes event = Inr bytes" using assms(3) by (cases "event_bytes event") auto
  obtain r where r: "parse_init_result bytes (ev_unknown event) = Some r"
    using parse_init_result_total by blast
  have err: "obeys (In_session h) c (control_error e w (s\<lparr>cn_identity := i, cn_store := st\<rparr>))"
    "obeys (In_session h) c (control_error e w s)" for e i st
    using assms(1) by (intro session_error_obeys; simp add: session_ok_at_def)+
  have read: "\<exists>a. be16 bytes 0 = Some a" "\<exists>b. be16 bytes 2 = Some b" if "r = Inl Init_not_supported"
    using r that by (auto simp: parse_init_result_def be16_def rd_def rd_bytes_def split: if_splits Option.bind_splits)
  have "obeys (In_session h) c (transfer 0xC0 11 0 1000 [] At_parse_tls_key
      (s\<lparr>cn_identity := i, cn_store := st, cn_firmware := f, cn_format := m\<rparr>))" for i st f m
    by (rule transfer_obeys [where c' = c])
      (use assms(1,2) in \<open>simp_all add: session_ok_at_def armed_def capturing_ok_def\<close>)
  then show ?thesis using err read
    by (cases r; cases "projl r") (auto simp: init_result_def b r split: sum.splits init_error.splits)
qed

lemma dead_pixels_obeys:
  assumes "session_ok_at h s" "armed s c" "\<not> isl (event_bytes event)"
  shows "obeys (In_session h) c (dead_pixel_report w event s)"
proof -
  obtain bytes where b: "event_bytes event = Inr bytes" using assms(3) by (cases "event_bytes event") auto
  obtain r where r: "parse_dead_pixels bytes = Some r" by (cases bytes rule: parse_dead_pixels_cases) auto
  have "obeys (In_session h) c (get_event (s\<lparr>cn_store := st\<rparr>))" for st
    by (rule event_obeys) (use assms in \<open>simp_all add: session_ok_at_def armed_def capturing_ok_def\<close>)
  then show ?thesis using session_error_obeys [OF assms(1)] b r by (cases r) (simp_all add: dead_pixel_report_def)
qed

lemma reader_event_obeys:
  assumes "session_ok_at h s" "armed s c" "if ev_code event \<in> {2, 4} then \<not> isl (event_bytes event) else True"
  shows "obeys (In_session h) c (reader_event w event s)"
  using init_result_obeys [OF assms(1,2)] dead_pixels_obeys [OF assms(1,2)] down_obeys [OF assms(1,2)]
    image_obeys [OF assms(1,2)] event_obeys [OF assms(1,2)] session_error_obeys [OF assms(1)] assms(3)
  unfolding reader_event_def by (simp split del: if_split) (simp split: if_splits)

lemma parse_key_obeys:
  assumes "session_ok_at h s" "armed s c"
  shows "obeys (In_session h) c (parse_tls_key env w data s)"
proof -
  obtain r where r: "unwrap_tls_key (ke_sha env) (ke_hmac env) (ke_cbc env) data = Some r"
    using unwrap_total by blast
  have "obeys (In_session h) c (transfer 0x40 5 1 0 [] At_event (s\<lparr>cn_tls_key := key, cn_pipe := Some key\<rparr>))" for key
    by (rule transfer_obeys [where c' = c])
      (use assms in \<open>simp_all add: session_ok_at_def armed_def capturing_ok_def\<close>)
  then show ?thesis using session_error_obeys [OF assms(1)] assms(1) r
    by (simp add: parse_tls_key_def session_ok_at_def split: option.split)
qed

lemma ready_obeys:
  assumes "session_ok_at h s" "armed s c" "event_allowed env w TLS_ready s"
  shows "obeys (In_session h) c (tls_ready env w s)"
proof -
  let ?st = "(cn_store s)\<lparr>fs_filename := ke_path env, fs_key := cn_tls_key s\<rparr>"
  have key: "length (cn_tls_key s) = 32"
    using assms(1,3) by (auto simp: session_ok_at_def psk_server_cb_def split: if_splits)
  obtain st where "load (ke_unseal env) (ke_alloc env) (kw_file w) ?st = Some (Inr st)"
    using assms(3) load_total [of "ke_unseal env" "ke_alloc env" "kw_file w" ?st] by (auto split: sum.splits)
  then have i: "init (ke_unseal env) (ke_alloc env) (kw_file w) (ke_path env) (cn_tls_key s) (cn_store s) = Some (Inr (), st)"
    using key by (simp add: init_def Let_def)
  have "obeys (In_session h) c (transfer 0x40 10 0 0 [] At_event (s\<lparr>cn_store := st, cn_ready := True,
      cn_reader_ready := True, cn_attempt := 0, cn_first_touch := True, cn_stale := False, cn_device := True\<rparr>))"
    by (rule transfer_obeys [where c' = c])
      (use assms(1,2) in \<open>simp_all add: session_ok_at_def armed_def capturing_ok_def\<close>)
  then have "obeys (In_session h) c (also_out [Reader_ready (\<not> cn_device s)] (transfer 0x40 10 0 0 [] At_event (s\<lparr>cn_store := st, cn_ready := True,
      cn_reader_ready := True, cn_attempt := 0, cn_first_touch := True, cn_stale := False, cn_device := True\<rparr>)))"
    by (rule obeys_also [rotated 2]) simp_all
  then show ?thesis by (simp add: tls_ready_def i)
qed

subsection \<open>Every step\<close>

lemma control_ok_base:
  assumes "control_ok l c s"
  shows "link_ok s l" "cn_attempt s \<le> 6" "cn_tls_key s = (case cn_pipe s of None \<Rightarrow> [] | Some key \<Rightarrow> key)"
    "cn_tasks s = (cn_pipe s \<noteq> None)"
  using assms by (simp_all add: control_ok_def)

lemma setup_state:
  assumes "control_ok l c s" "stage_of (cn_at s) = Setup"
  obtains h where "l = In_session h" "cn_handle s = Some h" "idle_ok s"
  using assms by (auto simp: control_ok_defs idle_ok_def split: option.splits if_splits)

lemma running_state:
  assumes "control_ok l c s" "stage_of (cn_at s) = Running"
  obtains h where "l = In_session h" "session_ok_at h s" "capturing_ok s" "cn_at s \<noteq> Sleeping At_arm \<Longrightarrow> armed s c"
  using assms by (auto simp: control_ok_defs session_ok_at_def capturing_ok_def armed_def split: option.splits if_splits)

lemma attending_state:
  assumes "control_ok l c s" "cn_at s = Handling"
  obtains (away) "l = Unlinked" "cn_handle s = None" "idle_ok (s\<lparr>cn_suspended := False\<rparr>)"
  | (present) h where "l = In_session h" "session_ok_at h s" "armed s c"
  using assms by (auto simp: control_ok_defs session_ok_at_def capturing_ok_def armed_def idle_ok_def split: option.splits if_splits)

lemma parted_state:
  assumes "control_ok l c s" "cn_at s = Sleeping At_reopen"
  shows "l = Unlinked" "cn_handle s = None" "idle_ok s"
  using assms by (auto simp: control_ok_defs idle_ok_def split: option.splits if_splits)

lemma away_event_obeys:
  assumes "cn_handle s = None" "idle_ok (s\<lparr>cn_suspended := False\<rparr>)"
  shows "obeys Unlinked c (get_event s)"
  using assms by (simp add: get_event_def idle_ok_def control_ok_defs)

lemma away_handle_obeys:
  assumes "cn_handle s = None" "idle_ok (s\<lparr>cn_suspended := False\<rparr>)" "event_allowed env w event s"
  shows "obeys Unlinked c (handle_event env w event s)"
proof -
  have stay: "obeys Unlinked c (get_event s)" by (rule away_event_obeys [OF assms(1,2)])
  have tasks: "\<not> cn_tasks s" using assms(2) by (simp add: idle_ok_def)
  have fail: "obeys Unlinked c (notify_operation_failed e w s')"
    if "cn_handle s' = None" "idle_ok (s'\<lparr>cn_suspended := False\<rparr>)" for e s'
    by (rule notify_obeys) (use that in \<open>simp_all add: idle_ok_def link_ok_def\<close>)
  show ?thesis
  proof (cases event)
    case Stop_sensor
    have "obeys Unlinked c (get_event (s\<lparr>cn_capturing := False\<rparr>))"
      using assms(1,2) by (intro away_event_obeys) (simp_all add: idle_ok_def)
    then show ?thesis using assms(1) Stop_sensor by (simp add: Let_def)
  next
    case Suspend
    have "obeys Unlinked c (notify_operation_failed (Usb_error (- 10)) w (s\<lparr>cn_suspended := True, cn_capturing := False\<rparr>))"
      using assms(1,2) by (intro fail) (simp_all add: idle_ok_def)
    then show ?thesis by (simp add: Suspend)
  next
    case Resume
    have "obeys Unlinked c (reopen w (s\<lparr>cn_suspended := False, cn_attempt := 0\<rparr>))"
      using assms(1,2) by (intro reopen_obeys) (simp_all add: idle_ok_def)
    then show ?thesis using stay by (simp add: Resume)
  qed (use assms stay tasks fail in simp_all)
qed

lemma present_handle_obeys:
  assumes "session_ok_at h s" "armed s c" "event_allowed env w event s"
  shows "obeys (In_session h) c (handle_event env w event s)"
proof -
  have fail: "obeys (In_session h) c (notify_operation_failed e w s')" if "session_ok_at h s'" for e s'
    by (rule notify_obeys) (use that in \<open>simp_all add: session_ok_at_def link_ok_def\<close>)
  note stay = event_obeys [OF assms(1,2)]
  show ?thesis
  proof (cases event)
    case (Reader e)
    have "obeys (In_session h) c (reader_event w e s)"
      by (rule reader_event_obeys [OF assms(1,2)]) (use assms(3) Reader in simp)
    then show ?thesis by (simp add: Reader)
  next
    case TLS_ready
    then show ?thesis using ready_obeys [OF assms(1,2)] assms(3) by simp
  next
    case Start_sensor
    then show ?thesis using stay start_obeys [OF assms(1)] by simp
  next
    case Stop_sensor
    let ?s = "s\<lparr>cn_capturing := False\<rparr>"
    have s: "session_ok_at h ?s" "armed ?s c" using assms(1) by (simp_all add: session_ok_at_def armed_def capturing_ok_def)
    have "obeys (In_session h) c (stop_sensor ?s)"
      unfolding stop_sensor_def by (rule transfer_obeys [where c' = c]) (use s in \<open>simp_all add: session_ok_at_def armed_def capturing_ok_def\<close>)
    then show ?thesis using event_obeys [OF s] by (simp add: Stop_sensor Let_def)
  next
    case Suspend
    have "obeys (In_session h) c (notify_operation_failed (Usb_error (- 10)) w (s\<lparr>cn_suspended := True, cn_capturing := False\<rparr>))"
      by (rule notify_obeys) (use assms(1) in \<open>simp_all add: session_ok_at_def link_ok_def\<close>)
    then show ?thesis by (simp add: Suspend)
  next
    case Resume
    then show ?thesis using stay assms(1) by (simp add: session_ok_at_def)
  qed (use stay fail [OF assms(1)] in simp_all)
qed

lemma resume_obeys:
  assumes "control_ok l c s" "cn_at s \<in> {Transferring p, Sleeping p, Putting p}"
  shows "obeys l c (control_resume env w p data s)"
proof -
  consider (starting) "stage_of (cn_at s) = Setup" | (running) "stage_of (cn_at s) = Running"
    | (parted) "cn_at s = Sleeping At_reopen" | (failing) "stage_of (cn_at s) = Failing"
    using assms by (cases "cn_at s") (auto simp: control_ok_def stage_ok_def split: if_splits)
  then show ?thesis
  proof cases
    case starting
    with assms(1) obtain h where h: "l = In_session h" "cn_handle s = Some h" "idle_ok s" by (blast elim: setup_state)
    have "p \<in> {At_state, At_parse_state, At_spawn}" using assms(2) starting by (auto split: if_splits)
    then show ?thesis
      using h setup_transfer_obeys [OF h(3,2)] parse_state_obeys [OF h(3,2)] spawn_obeys [OF h(3,2)] by (auto simp: get_state_def)
  next
    case running
    with assms obtain h where h: "l = In_session h" "session_ok_at h s" "capturing_ok s" "cn_at s \<noteq> Sleeping At_arm \<Longrightarrow> armed s c"
      by (blast elim: running_state)
    show ?thesis
    proof (cases "cn_at s = Sleeping At_arm")
      case True
      then show ?thesis using assms(2) h(1) arm_obeys [OF h(2,3)] by auto
    next
      case False
      note a = h(4) [OF False]
      have "p \<in> {At_parse_tls_key, At_event, At_end_enrollment, At_end_session, At_image, At_delay_image}"
        using assms(2) running False by (auto split: if_splits)
      moreover have "obeys (In_session h) c (transfer type request 0 0 [] q s)"
        if "request \<noteq> 2" "request \<noteq> 9" "stage_of (Transferring q) = Running" for type request q
        by (rule transfer_obeys [where c' = c]) (use h(2) a that in simp_all)
      ultimately show ?thesis
        using h(1) a event_obeys [OF h(2) a] parse_key_obeys [OF h(2) a] get_image_obeys [OF h(2) a] delay_obeys [OF h(2) a]
        by (auto simp: end_enrollment_def end_session_def)
    qed
  next
    case parted
    note i = parted_state [OF assms(1) parted]
    have "p = At_reopen" using assms(2) parted by auto
    then show ?thesis using reopen_obeys [OF i(3,2)] i(1) by simp
  next
    case failing
    note b = control_ok_base [OF assms(1)]
    have "p = At_yield_recovery \<or> p = At_resume_recovery" using assms(2) failing by (auto split: if_splits)
    moreover have "obeys l c (Some (s\<lparr>cn_at := Sleeping At_resume_recovery\<rparr>, [Paused n]))" for n
      using b by (simp add: obeys_def control_ok_defs)
    ultimately show ?thesis using begin_recovery_obeys [OF b(1,2)]
      by (auto simp: yield_recovery_def resume_recovery_def simp del: obeys_Some)
  qed
qed

lemma others_obeys:
  assumes "control_ok l c s" "cn_current s \<le> current"
  shows "control_ok l c (s\<lparr>cn_current := current, cn_operating := operating, cn_sleeping := sleeping, cn_store := store\<rparr>)"
  using assms by (auto simp: control_ok_defs split: stage.splits option.splits if_splits)

lemma exec_obeys:
  assumes "control_ok l c s" "control_allowed env op s"
  obtains r where "obeys l c r" "control_exec env op s = tagged r"
proof -
  have res: "obeys l c (control_resume env w p data s)" if "cn_at s \<in> {Transferring p, Sleeping p, Putting p}" for w p data
    by (rule resume_obeys [OF assms(1) that])
  have "\<exists>r. obeys l c r \<and> control_exec env op s = tagged r"
  proof (cases op)
    case (Transferred w data)
    with assms obtain p where p: "cn_at s = Transferring p" by (auto split: control_at.splits)
    with res [of p w data] Transferred show ?thesis by auto
  next
    case (Elapsed w)
    with assms obtain p where p: "cn_at s = Sleeping p" by (auto split: control_at.splits)
    with res [of p w "[]"] Elapsed show ?thesis by auto
  next
    case (Put_done w)
    with assms obtain p where p: "cn_at s = Putting p" by (auto split: control_at.splits)
    with res [of p w "[]"] Put_done show ?thesis by auto
  next
    case (Taken w event)
    then have a: "cn_at s = Handling" "event_allowed env w event s" using assms(2) by simp_all
    have "obeys l c (handle_event env w event s)"
      using assms(1) a(1)
    proof (cases rule: attending_state)
      case away
      then show ?thesis using away_handle_obeys a(2) by blast
    next
      case (present h)
      then show ?thesis using present_handle_obeys a(2) by blast
    qed
    then show ?thesis using Taken by auto
  next
    case (Failed w e)
    then show ?thesis using error_obeys [OF control_ok_base [OF assms(1)]] by auto
  next
    case (Others current operating sleeping store)
    let ?s = "s\<lparr>cn_current := current, cn_operating := operating, cn_sleeping := sleeping, cn_store := store\<rparr>"
    have "obeys l c (Some (?s, []))" using others_obeys [OF assms(1)] assms(2) Others by simp
    then show ?thesis using Others by (intro exI [of _ "Some (?s, [])"]) simp
  qed
  with that show ?thesis by blast
qed

interpretation ctl: reactive "control_allowed env" "control_exec env" "control_inv env" for env
proof
  fix tr s op
  assume "control_inv env tr s" "control_allowed env op s"
  then obtain l c r where "observe link_follow tr Unlinked = Some l" "observe capture_follow tr None = Some c" "obeys l c r"
    "control_exec env op s = tagged r"
    unfolding control_inv_def by (blast elim: exec_obeys)
  then show "\<exists>s' out. control_exec env op s = Some (s', out) \<and> control_inv env (tr @ out) s'"
    using obeys_inv by metis
qed

lemma begin_inv: "\<exists>s out. control_begin w handle store = Some (s, out) \<and> control_inv env out s"
proof -
  let ?s = "(control_initial store)\<lparr>cn_handle := handle, cn_ready := False, cn_attached := True, cn_power := True\<rparr>"
  have i: "idle_ok ?s" by (simp add: idle_ok_def control_initial_def)
  have "obeys Unlinked None (control_start w handle (control_initial store))"
  proof (cases handle)
    case None
    then show ?thesis using schedule_obeys [of ?s None] i by (simp add: control_start_def idle_ok_def)
  next
    case (Some h)
    have "obeys Unlinked None (also_out [Opened h] (init_session w ?s))"
      by (rule obeys_also [OF _ _ init_session_obeys [OF i, of h]]) (simp_all add: Some)
    then show ?thesis by (simp add: control_start_def Some)
  qed
  then show ?thesis using obeys_inv [of "[]" Unlinked None] by (simp add: control_begin_def)
qed

lemma run_control_inv:
  assumes "control_begin w handle store = Some s0" "machine_run (control_allowed env) (control_exec env) s0 tr s"
  shows "control_inv env tr s"
proof (rule ctl.invariant [OF assms(2)])
  show "control_inv env (snd s0) (fst s0)" using begin_inv [of w handle store env] assms(1) by auto
qed

subsection \<open>Properties of the session\<close>

text \<open>The handle that an observer of the link knows of.\<close>

fun linked_handle :: "link \<Rightarrow> nat option" where
  "linked_handle Unlinked = None"
| "linked_handle (Linked h) = Some h"
| "linked_handle (In_session h) = Some h"


text \<open>(C20) Captures follow their cycle. On every run an image is fetched from the reader, and a touch or an image is handed
  to the operation, only with the current generation and after the sensor was armed in this generation and
  this session; one arming hands over at most one image; and a capture that is under way in the current generation when an
  event is taken was armed in it. Images of an operation that ended, and whatever
  the reader sends unasked, reach no operation.\<close>

theorem captures_follow_cycle:
  assumes "control_begin w handle store = Some s0" "machine_run (control_allowed env) (control_exec env) s0 tr s"
  shows "\<exists>c. observe capture_follow tr None = Some c
    \<and> (if cn_at s = Handling \<and> cn_capturing s \<and> cn_generation s = cn_current s then c = Some (cn_generation s) else True)"
proof -
  obtain l c where "observe capture_follow tr None = Some c" "control_ok l c s"
    using run_control_inv [OF assms] by (auto simp: control_inv_def)
  then show ?thesis by (auto simp: control_ok_def capture_ok_at_def)
qed

lemma failed_reopen:
  assumes "cn_at s = Sleeping At_reopen" "\<not> kw_deferred w" "kw_open w = None"
  shows "control_exec env (Elapsed w) s = tagged (schedule_recovery s)"
  using assms by (simp add: reopen_def)

lemma give_up:
  assumes "cn_at s = Sleeping At_reopen" "cn_handle s = None" "cn_attempt s \<le> 6"
    "list_all (\<lambda>w. \<not> kw_deferred w \<and> kw_open w = None) ws" "length ws = 7 - cn_attempt s"
  shows "\<exists>s' out. exec_all (control_exec env) (map Elapsed ws) s = Some (s', out) \<and> cn_at s' = Ended_control
    \<and> \<not> cn_attached s' \<and> cn_handle s' = None
    \<and> map snd out = map (\<lambda>n. Recovery (n + 1) ([500, 1000, 2000, 5000, 10000, 30000] ! n)) [cn_attempt s..<6]
        @ (if cn_device s then [Device_cancelled] else []) @ [Detached]"
  using assms
proof (induction ws arbitrary: s)
  case Nil
  then show ?case by simp
next
  case (Cons w ws)
  have w: "\<not> kw_deferred w" "kw_open w = None" using Cons.prems(4) by simp_all
  note step = failed_reopen [OF Cons.prems(1) w, of env]
  show ?case
  proof (cases "cn_attempt s = 6")
    case True
    then have "ws = []" using Cons.prems(5) by simp
    then show ?thesis using True Cons.prems(2)
      by (simp add: step schedule_recovery_def finalize_control_def cleanup_device_def tagged_def del: control_exec.simps)
  next
    case False
    then have a: "cn_attempt s < 6" using Cons.prems(3) by simp
    let ?s = "s\<lparr>cn_attempt := cn_attempt s + 1, cn_at := Sleeping At_reopen\<rparr>"
    have e: "control_exec env (Elapsed w) s = Some (?s, [(cn_current s, Recovery (cn_attempt s + 1) (recovery_delay s))])"
      using a by (simp add: step schedule_recovery_def tagged_def del: control_exec.simps)
    have len: "length ws = 7 - cn_attempt ?s" using Cons.prems(5) a by simp
    obtain s' out where r: "exec_all (control_exec env) (map Elapsed ws) ?s = Some (s', out)" "cn_at s' = Ended_control"
      "\<not> cn_attached s'" "cn_handle s' = None"
      "map snd out = map (\<lambda>n. Recovery (n + 1) ([500, 1000, 2000, 5000, 10000, 30000] ! n)) [cn_attempt s + 1..<6]
        @ (if cn_device s then [Device_cancelled] else []) @ [Detached]"
      using Cons.IH [OF _ _ _ _ len] Cons.prems(2,4) a by auto
    have d: "recovery_delay s = [500, 1000, 2000, 5000, 10000, 30000] ! cn_attempt s" using a by (simp add: recovery_delay_def min_def)
    show ?thesis using r a
      by (intro exI [of _ s'] exI [of _ "(cn_current s, Recovery (cn_attempt s + 1) (recovery_delay s)) # out"])
        (simp add: e d upt_conv_Cons del: control_exec.simps)
  qed
qed

text \<open>(C21) Recovery is tried six times, with growing delays, and then given up: from every state in which
  the task waits to open the reader again, if the reader cannot be opened, the remaining attempts are made, each after
  its delay of the table, and then the task ends, with the device's task cancelled and the reader free to be attached again.
  It never waits for a seventh attempt.\<close>

theorem recovery_gives_up:
  assumes "control_begin w handle store = Some s0" "machine_run (control_allowed env) (control_exec env) s0 tr s"
    and "cn_at s = Sleeping At_reopen" "list_all (\<lambda>w. \<not> kw_deferred w \<and> kw_open w = None) ws" "length ws = 7 - cn_attempt s"
  shows "cn_attempt s \<le> 6 \<and> (\<exists>s' out. exec_all (control_exec env) (map Elapsed ws) s = Some (s', out)
    \<and> cn_at s' = Ended_control \<and> \<not> cn_attached s' \<and> cn_handle s' = None
    \<and> map snd out = map (\<lambda>n. Recovery (n + 1) ([500, 1000, 2000, 5000, 10000, 30000] ! n)) [cn_attempt s..<6]
        @ (if cn_device s then [Device_cancelled] else []) @ [Detached])"
proof -
  obtain l c where c: "control_ok l c s" using run_control_inv [OF assms(1,2)] by (auto simp: control_inv_def)
  have a: "cn_attempt s \<le> 6" by (rule control_ok_base(2) [OF c])
  show ?thesis using a give_up [OF assms(3) parted_state(2) [OF c assms(3)] a assms(4,5)] by blast
qed

subsection \<open>Exceptions\<close>

text \<open>The limits of what a run assumes: a report longer than \<^verbatim>\<open>event_bytes\<close> takes, which the framer lets through, and a
  database that cannot be read leave the task as exceptions instead of starting its recovery.\<close>

lemma oversized_report_escapes:
  assumes "0 < cap" "cap \<le> 65536" "frame_event cap report = Some event" "we_code report \<in> {2, 4}" "20000 < length (we_body report)"
  shows "handle_event env w (Reader event) s = None"
  using event_body_roundtrip [OF assms(1,2), of report] assms(3-5)
  by (auto simp: reader_event_def init_result_def dead_pixel_report_def)

lemma unreadable_database_escapes:
  assumes "length (cn_tls_key s) = 32"
    "load (ke_unseal env) (ke_alloc env) (kw_file w) ((cn_store s)\<lparr>fs_filename := ke_path env, fs_key := cn_tls_key s\<rparr>) = Some (Inl e)"
  shows "handle_event env w TLS_ready s = None"
  using assms by (simp add: tls_ready_def init_def Let_def)

subsection \<open>A concrete session\<close>

text \<open>A reader is set up, sends its identity and key, becomes ready, is armed, touched, and delivers an image.\<close>

definition sample_control_env :: control_env where
  "sample_control_env = \<lparr>ke_alloc = (\<lambda>_. True), ke_unseal = (\<lambda>_ _ _ _ _. None), ke_sha = id, ke_hmac = (\<lambda>_ _. replicate 32 0),
     ke_cbc = (\<lambda>_ _. Some (replicate 32 7)), ke_path = []\<rparr>"

definition session_world :: "int \<Rightarrow> control_world" where
  "session_world t = \<lparr>kw_clock = (\<lambda>_. t),
     kw_config = Some [[\<lparr>id_length = 9, id_number = 1, id_endpoints = [\<lparr>ep_address = 0x82, ep_max_packet = 64\<rparr>]\<rparr>]],
     kw_claim = 0, kw_open = None, kw_deferred = False, kw_file = None\<rparr>"

definition sample_control_store :: FingerprintStorage where
  "sample_control_store = \<lparr>fs_filename = [], fs_key = [], fs_fingerprints = [], fs_dead_pixels = [], fs_hardware_id = 0\<rparr>"

definition linked_sample :: Control where
  "linked_sample = fst (the (control_begin (session_world 0) (Some 3) sample_control_store))"

lemma sample_begin:
  "control_begin (session_world 0) (Some 3) sample_control_store
    = Some (linked_sample, [(0, Opened 3), (0, Claimed 3 1 True), (0, Control_transfer 3 0x40 8 0x10 0 [])])"
  by (simp add: linked_sample_def control_begin_def control_start_def init_session_def find_endpoint_def session_world_def
      control_initial_def indicate_s_state_def transfer_def also_out_def tagged_def)

definition key_packet :: "u8 list" where
  "key_packet = concat (map store_le32 [0x0dec0ded, 28, 32, 76, 13, 89, 32]) @ replicate 48 0 @ c_bytes ''FPC TLS Keys'' @ replicate 32 0"

lemma key_unwraps: "unwrap_tls_key (ke_sha sample_control_env) (ke_hmac sample_control_env) (ke_cbc sample_control_env) key_packet = Some (Some (replicate 32 7))"
proof -
  have l: "length key_packet = 121" by (simp add: key_packet_def c_bytes_def)
  have w: "le32 key_packet 0 = Some 0x0dec0ded" "le32 key_packet 4 = Some 28" "le32 key_packet 8 = Some 32"
    "le32 key_packet 12 = Some 76" "le32 key_packet 16 = Some 13" "le32 key_packet 20 = Some 89" "le32 key_packet 24 = Some 32"
    by (simp_all add: key_packet_def le32_def rd_def store_le32_eq c_bytes_def)
  have b: "rd_bytes key_packet 76 13 = Some (c_bytes ''FPC TLS Keys'')" "rd_bytes key_packet 28 32 = Some (replicate 32 0)"
    "rd_bytes key_packet 89 32 = Some (replicate 32 0)" "rd_bytes key_packet 28 48 = Some (replicate 48 0)"
    by (simp_all add: key_packet_def rd_bytes_def store_le32_eq c_bytes_def)
  show ?thesis
    by (simp add: unwrap_tls_key_def l w b inside_def verify_tls_key_def sample_control_env_def c_bytes_def)
qed

definition init_event :: FPCEvent where
  "init_event = \<lparr>ev_code = 2, ev_unknown = 0, ev_buffers = [[0, 9, 1, 0x11, 0, 112, 0, 88, 0, 0, 0, 0, 0, 0, 0, 0, 0, 0, 0, 0, 0, 0, 0, 0]]\<rparr>"

lemma init_event_parsed:
  "event_bytes init_event = Inr [0, 9, 1, 0x11, 0, 112, 0, 88, 0, 0, 0, 0, 0, 0, 0, 0, 0, 0, 0, 0, 0, 0, 0, 0]"
  "parse_init_result [0, 9, 1, 0x11, 0, 112, 0, 88, 0, 0, 0, 0, 0, 0, 0, 0, 0, 0, 0, 0, 0, 0, 0, 0] 0
    = Some (Inr \<lparr>reader_identity = 9, hardware_id = 0x111, firmware = [0, 0, 0, 0, 0, 0, 0, 0, 0, 0, 0, 0, 0, 0, 0, 0], optional_format = 0\<rparr>)"
  by (simp_all add: init_event_def event_bytes_def parse_init_result_def be16_def rd_def rd_bytes_def)

definition sample_touch :: FPCEvent where "sample_touch = \<lparr>ev_code = 6, ev_unknown = 0, ev_buffers = []\<rparr>"
definition sample_picture :: FPCEvent where "sample_picture = \<lparr>ev_code = 8, ev_unknown = 0, ev_buffers = [[1, 2, 3]]\<rparr>"

definition capture_ops :: "control_op list" where
  "capture_ops = [Taken (session_world 2000000000) Start_sensor, Transferred (session_world 2000000000) [],
     Taken (session_world 4000000000) (Reader sample_touch), Put_done (session_world 4000000000), Transferred (session_world 4000000000) [],
     Taken (session_world 4000000000) (Reader sample_picture)]"

lemmas control_steps = transfer_def also_out_def tagged_def get_event_def get_state_def parse_state_def spawn_def
  reader_event_def init_result_def parse_tls_key_def tls_ready_def start_sensor_def submit_arm_def
  finger_down_def delay_get_image_def get_image_def image_arrived_def milliseconds_def

lemma linked_sample_eq:
  "linked_sample = (control_initial sample_control_store)\<lparr>cn_handle := Some 3, cn_attached := True, cn_power := True,
     cn_interface := \<lparr>id_length = 9, id_number = 1, id_endpoints = [\<lparr>ep_address = 0x82, ep_max_packet = 64\<rparr>]\<rparr>,
     cn_endpoint := \<lparr>ep_address = 0x82, ep_max_packet = 64\<rparr>, cn_at := Transferring At_state\<rparr>"
  by (simp add: linked_sample_def control_begin_def control_start_def init_session_def find_endpoint_def session_world_def
      control_initial_def indicate_s_state_def transfer_def also_out_def tagged_def)

definition key_sample :: Control where
  "key_sample = linked_sample\<lparr>cn_tasks := True, cn_pipe := Some (replicate 32 7), cn_tls_key := replicate 32 7, cn_identity := 9,
     cn_store := sample_control_store\<lparr>fs_hardware_id := 0x111\<rparr>, cn_firmware := [0, 0, 0, 0, 0, 0, 0, 0, 0, 0, 0, 0, 0, 0, 0, 0], cn_at := Handling\<rparr>"

lemma key_steps:
  "exec_all (guarded (control_allowed sample_control_env) (control_exec sample_control_env))
     [Transferred (session_world 0) [], Transferred (session_world 0) (21 # 26 # 2 # replicate 69 0), Transferred (session_world 0) [],
      Taken (session_world 0) (Reader init_event), Transferred (session_world 0) key_packet, Transferred (session_world 0) []] linked_sample
   = Some (key_sample, [(0, Control_transfer 3 0xC0 80 0 72 []), (0, Control_transfer 3 0x40 1 1 4 [0x10, 0x2f, 0x11, 0x17]),
      (0, Session_started), (0, Control_transfer 3 0xC0 11 0 1000 []), (0, Control_transfer 3 0x40 5 1 0 [])])"
proof -
  have "length key_packet = 121" by (simp add: key_packet_def c_bytes_def)
  moreover have "ev_code init_event = 2" "ev_unknown init_event = 0" by (simp_all add: init_event_def)
  ultimately show ?thesis
    by (simp add: guarded_def control_steps key_sample_def linked_sample_eq control_initial_def init_event_parsed key_unwraps)
qed


definition ready_state :: Control where
  "ready_state = key_sample\<lparr>cn_store := (cn_store key_sample)\<lparr>fs_key := replicate 32 7\<rparr>, cn_ready := True,
     cn_reader_ready := True, cn_first_touch := True, cn_device := True\<rparr>"

lemma ready_steps:
  "exec_all (guarded (control_allowed sample_control_env) (control_exec sample_control_env)) [Taken (session_world 0) TLS_ready, Transferred (session_world 0) []] key_sample
   = Some (ready_state, [(0, Reader_ready True), (0, Control_transfer 3 0x40 10 0 0 [])])"
  by (simp add: guarded_def control_steps key_sample_def linked_sample_eq control_initial_def psk_server_cb_def load_def init_def
      ready_state_def sample_control_env_def session_world_def sample_control_store_def)

lemma capture_steps:
  "exec_all (guarded (control_allowed sample_control_env) (control_exec sample_control_env)) capture_ops ready_state
   = Some (ready_state\<lparr>cn_at := Putting At_event, cn_first_touch := False, cn_arm_token := 0x17112f11,
        cn_last_arm := 2000000000, cn_last_image := 4000000000\<rparr>,
      [(0, Control_transfer 3 0x40 2 2 4 [0x11, 0x2f, 0x11, 0x17]), (0, To_operation (Finger_down 0)),
       (0, Control_transfer 3 0x40 9 0 0 []), (0, To_operation (Finger_image 0 [[1, 2, 3]]))])"
  by (simp add: capture_ops_def guarded_def control_steps ready_state_def key_sample_def linked_sample_eq control_initial_def
      sample_touch_def sample_picture_def session_world_def store_le32_eq)


definition delivered_state :: Control where
  "delivered_state = ready_state\<lparr>cn_at := Putting At_event, cn_first_touch := False, cn_arm_token := 0x17112f11,
     cn_last_arm := 2000000000, cn_last_image := 4000000000\<rparr>"

definition session_trace :: "(u64 \<times> control_output) list" where
  "session_trace =
     [(0, Opened 3), (0, Claimed 3 1 True), (0, Control_transfer 3 0x40 8 0x10 0 []),
      (0, Control_transfer 3 0xC0 80 0 72 []), (0, Control_transfer 3 0x40 1 1 4 [0x10, 0x2f, 0x11, 0x17]),
      (0, Session_started), (0, Control_transfer 3 0xC0 11 0 1000 []), (0, Control_transfer 3 0x40 5 1 0 []),
      (0, Reader_ready True), (0, Control_transfer 3 0x40 10 0 0 []),
      (0, Control_transfer 3 0x40 2 2 4 [0x11, 0x2f, 0x11, 0x17]), (0, To_operation (Finger_down 0)),
      (0, Control_transfer 3 0x40 9 0 0 []), (0, To_operation (Finger_image 0 [[1, 2, 3]]))]"

lemma session_run:
  "machine_run (control_allowed sample_control_env) (control_exec sample_control_env)
     (linked_sample, [(0, Opened 3), (0, Claimed 3 1 True), (0, Control_transfer 3 0x40 8 0x10 0 [])]) session_trace delivered_state"
proof -
  let ?out = "[(0, Opened 3), (0, Claimed 3 1 True), (0, Control_transfer 3 0x40 8 0x10 0 [])]"
  have "machine_run (control_allowed sample_control_env) (control_exec sample_control_env) (linked_sample, ?out) ?out linked_sample"
    using machine_run.begun [of _ _ "(linked_sample, ?out)"] by simp
  from guarded_run [OF guarded_run [OF guarded_run [OF this key_steps] ready_steps] capture_steps]
  show ?thesis by (simp add: session_trace_def delivered_state_def)
qed


theorem captures_follow_cycle_witness:
  "\<exists>c. observe capture_follow session_trace None = Some c
    \<and> (if cn_at delivered_state = Handling \<and> cn_capturing delivered_state \<and> cn_generation delivered_state = cn_current delivered_state
       then c = Some (cn_generation delivered_state) else True)"
  by (rule captures_follow_cycle [OF sample_begin session_run])

definition unplugged_sample :: Control where
  "unplugged_sample = fst (the (control_begin (session_world 0) None sample_control_store))"

lemma sample_unplugged:
  "control_begin (session_world 0) None sample_control_store = Some (unplugged_sample, [(0, Recovery 1 500)])"
  "cn_at unplugged_sample = Sleeping At_reopen" "cn_attempt unplugged_sample = 1" "\<not> cn_device unplugged_sample"
  by (simp_all add: unplugged_sample_def control_begin_def control_start_def control_initial_def schedule_recovery_def
      recovery_delay_def tagged_def)

theorem recovery_gives_up_witness:
  "\<exists>s' out. exec_all (control_exec sample_control_env) (map Elapsed (replicate 6 (session_world 0))) unplugged_sample
        = Some (s', out) \<and> cn_at s' = Ended_control
    \<and> map snd out = [Recovery 2 1000, Recovery 3 2000, Recovery 4 5000, Recovery 5 10000, Recovery 6 30000, Detached]"
proof -
  have ws: "list_all (\<lambda>w. \<not> kw_deferred w \<and> kw_open w = None) (replicate 6 (session_world 0))"
    "length (replicate 6 (session_world 0)) = 7 - cn_attempt unplugged_sample"
    by (simp_all add: list_all_iff session_world_def sample_unplugged(3))
  have n: "[cn_attempt unplugged_sample..<6] = [1, 2, 3, 4, 5]" by (simp add: sample_unplugged(3) upt_rec)
  from recovery_gives_up [OF sample_unplugged(1) machine_run.begun [of "control_allowed sample_control_env" _ "(unplugged_sample, _)",
        unfolded fst_conv snd_conv] sample_unplugged(2) ws]
  show ?thesis by (elim conjE exE) (intro exI conjI, assumption+, simp add: n sample_unplugged(4))
qed

end
