(* ===== verification/Device.thy ===== *)
theory Device
  imports Enrolled
begin

text \<open>
  The D-Bus device (\<^verbatim>\<open>fpc9201.cpp\<close>: \<^verbatim>\<open>WorkerDevice\<close>, \<^verbatim>\<open>WorkerPolkitGate\<close>,
  \<^verbatim>\<open>WorkerListen::filter_signal\<close>, \<^verbatim>\<open>WorkerPower::power_changed\<close>): claims, the lookup of
  a sender's uid, the authorization of gated calls by the polkit on a task of its own, and the methods that list
  and delete fingerprints and start and stop enrolling and verifying. The methods return the new state and what
  the rest of the system sees; \<open>None\<close> is undefined behaviour. \<open>device_run\<close> are the runs of the device under any
  interleaving of calls, signals, lookups and checks.
\<close>

subsection \<open>Messages\<close>

datatype dbus_arg = Dbus_string "u8 list" | Dbus_boolean bool | Dbus_struct "dbus_arg list" | Dbus_other

record dbus_message =
  dm_signal :: bool
  dm_sender :: "u8 list option"
  dm_serial :: u32
  dm_interface :: "u8 list"
  dm_path :: "u8 list"
  dm_member :: "u8 list"
  dm_args :: "dbus_arg list"
  dm_username :: "u8 list option"

text \<open>\<^verbatim>\<open>std::to_string\<close> of a serial, and the key of the gate of a call.\<close>

fun decimal :: "nat \<Rightarrow> u8 list" where
  "decimal n = (if n < 10 then [48 + of_nat n] else decimal (n div 10) @ [48 + of_nat (n mod 10)])"

declare decimal.simps [simp del]

definition gate_key :: "u8 list \<Rightarrow> u32 \<Rightarrow> u8 list" where
  "gate_key sender serial = sender @ ascii '':'' @ decimal (unat serial)"

subsection \<open>Signals\<close>

fun find_from :: "u8 list \<Rightarrow> u8 list \<Rightarrow> nat option" where
  "find_from pattern [] = (if pattern = [] then Some 0 else None)"
| "find_from pattern (c # cs) =
     (if take (length pattern) (c # cs) = pattern then Some 0 else map_option Suc (find_from pattern cs))"

text \<open>The value of a key of a match rule; 39 is the quote.\<close>

definition rule_field :: "u8 list \<Rightarrow> string \<Rightarrow> u8 list" where
  "rule_field rule key =
     (let prefix = ascii key @ ascii ''='' @ [39]
      in case find_from prefix rule of
           None \<Rightarrow> []
         | Some begin \<Rightarrow> takeWhile (\<lambda>c. c \<noteq> 39) (drop (begin + length prefix) rule))"

text \<open>Whether \<^verbatim>\<open>WorkerListen::filter_signal\<close> puts a message into the queue of its owner.\<close>

definition filter_signal :: "u8 list \<Rightarrow> dbus_message \<Rightarrow> bool" where
  "filter_signal rule msg =
     (let interface = rule_field rule ''interface''; member = rule_field rule ''member'';
          path = rule_field rule ''path''; arg0 = rule_field rule ''arg0''
      in dm_signal msg
         \<and> \<not> (interface \<noteq> [] \<and> dm_interface msg \<noteq> interface
               \<or> member \<noteq> [] \<and> dm_member msg \<noteq> member \<or> path \<noteq> [] \<and> dm_path msg \<noteq> path)
         \<and> (arg0 = [] \<or> (case dm_args msg of Dbus_string value # _ \<Rightarrow> arg0 = value | _ \<Rightarrow> False)))"

definition rule_item :: "string \<Rightarrow> u8 list \<Rightarrow> u8 list" where
  "rule_item key value = ascii key @ ascii ''='' @ [39] @ value @ [39]"

definition power_rule :: "u8 list" where
  "power_rule = rule_item ''type'' (ascii ''signal'') @ ascii '','' @ rule_item ''sender'' (ascii ''org.freedesktop.login1'')
     @ ascii '','' @ rule_item ''path'' (ascii ''/org/freedesktop/login1'')
     @ ascii '','' @ rule_item ''interface'' (ascii ''org.freedesktop.login1.Manager'')
     @ ascii '','' @ rule_item ''member'' (ascii ''PrepareForSleep'')"

definition owner_rule :: "u8 list \<Rightarrow> u8 list" where
  "owner_rule sender = rule_item ''type'' (ascii ''signal'') @ ascii '', '' @ rule_item ''interface'' (ascii ''org.freedesktop.DBus'')
     @ ascii '', '' @ rule_item ''member'' (ascii ''NameOwnerChanged'') @ ascii '', '' @ rule_item ''arg0'' sender"

subsection \<open>The device\<close>

datatype AuthState = Pending | Authorized | Finished

record AuthGate =
  ag_task :: nat
  ag_sender :: "u8 list"
  ag_state :: AuthState

text \<open>A live \<^verbatim>\<open>WorkerPolkitGate\<close>: its call and whether the check has been sent.\<close>

record WorkerPolkitGate =
  wp_message :: dbus_message
  wp_sent :: bool

record WorkerEnrollVerify =
  wv_user :: "u8 list"
  wv_name :: "u8 list"
  wv_verify :: bool

text \<open>\<open>wd_tasks\<close> are the checks of the polkit that are under way, by number; \<open>wd_parked\<close> is the
  call whose sender is being looked up, when the dispatch waits for the answer of the bus;
  \<open>wd_listening\<close> the rule of the listener for the owner of the device.\<close>

record WorkerDevice =
  wd_claimed :: bool
  wd_claimed_sender :: "u8 list"
  wd_claimed_user :: "u8 list"
  wd_task :: "WorkerEnrollVerify option"
  wd_listening :: "u8 list option"
  wd_gates :: "(u8 list \<times> AuthGate) list"
  wd_tasks :: "(nat \<times> WorkerPolkitGate) list"
  wd_next :: nat
  wd_queue :: "dbus_message list"
  wd_parked :: "dbus_message option"
  wd_storage :: FingerprintStorage
  wd_file :: "u8 list option"
  wd_reader_ready :: bool
  wd_sleeping :: bool
  wd_generation :: u64

datatype reply = Method_return "u8 list list" | Error_return string

datatype handler = List_fingers | Delete_fingers | Delete_fingers2 | Delete_finger | Claim | Release
  | Start | Stop | Owner_changed

text \<open>What the rest of the system sees of the device.\<close>

datatype device_output =
    Reply dbus_message reply
  | Lookup dbus_message
  | Entitled dbus_message u32 "u8 list"
  | Check "u8 list" u32
  | Cancel_check "u8 list" u32
  | Verdict "u8 list" u32 bool
  | Acts handler dbus_message "u8 list"
  | Claimed "u8 list" "u8 list"
  | Unclaimed dbus_message
  | Task_cancelled
  | Stop_sensor
  | Stop_image
  | Selected "u8 list"
  | Power bool

text \<open>What is not in the sources: the hash of a name and the dispatch of \<^verbatim>\<open>jinx\<close>, the passwd database,
  the authenticated encryption of the store, and whether a running task ends when the last reference to it is dropped.\<close>

record device_env =
  de_hash :: "u8 list \<Rightarrow> nat"
  de_dispatch :: "dbus_message \<Rightarrow> handler option"
  de_passwd :: "u32 \<Rightarrow> u8 list option"
  de_seal :: "u8 list \<Rightarrow> u8 list \<Rightarrow> u8 list \<Rightarrow> u8 list \<Rightarrow> u8 list \<times> u8 list"
  de_owned :: bool

subsection \<open>The methods\<close>

definition list_enrolled_fingers :: "dbus_message \<Rightarrow> WorkerDevice \<Rightarrow> (WorkerDevice \<times> device_output list) option" where
  "list_enrolled_fingers msg s =
     do { user \<leftarrow> dm_username msg;
          Some (s, [Acts List_fingers msg user,
            Reply msg (if get_enrolled_count (wd_storage s) user = 0 then Error_return ''NoEnrolledPrints''
                       else Method_return (map fp_name (in_order (wd_storage s) user)))]) }"

definition deleted :: "dbus_message \<Rightarrow> string \<Rightarrow> bool \<times> FingerprintStorage \<times> u8 list option \<Rightarrow> WorkerDevice
    \<Rightarrow> device_output list \<Rightarrow> (WorkerDevice \<times> device_output list) option" where
  "deleted msg failure r s out =
     (case r of (ok, storage, file) \<Rightarrow>
        Some (s\<lparr>wd_storage := storage, wd_file := file\<rparr>,
              out @ [Reply msg (if ok then Method_return [] else Error_return failure)]))"

definition delete_enrolled_fingers ::
    "device_env \<Rightarrow> save_answers \<Rightarrow> dbus_message \<Rightarrow> WorkerDevice \<Rightarrow> (WorkerDevice \<times> device_output list) option" where
  "delete_enrolled_fingers env answers msg s =
     do { user \<leftarrow> dm_username msg;
          r \<leftarrow> delete_all (de_seal env) answers user (wd_storage s) (wd_file s);
          deleted msg ''Internal'' r s [Acts Delete_fingers msg user] }"

definition delete_enrolled_fingers2 ::
    "device_env \<Rightarrow> save_answers \<Rightarrow> dbus_message \<Rightarrow> WorkerDevice \<Rightarrow> (WorkerDevice \<times> device_output list) option" where
  "delete_enrolled_fingers2 env answers msg s =
     do { r \<leftarrow> delete_all (de_seal env) answers (wd_claimed_user s) (wd_storage s) (wd_file s);
          deleted msg ''Internal'' r s [Acts Delete_fingers2 msg (wd_claimed_user s)] }"

definition delete_enrolled_finger ::
    "device_env \<Rightarrow> save_answers \<Rightarrow> dbus_message \<Rightarrow> WorkerDevice \<Rightarrow> (WorkerDevice \<times> device_output list) option" where
  "delete_enrolled_finger env answers msg s =
     (case dm_args msg of
        Dbus_string name # _ \<Rightarrow>
          do { r \<leftarrow> delete_fingerprint (de_seal env) answers (wd_claimed_user s) name (wd_storage s) (wd_file s);
               deleted msg ''InvalidFingername'' r s [Acts Delete_finger msg (wd_claimed_user s)] }
      | _ \<Rightarrow> Some (s, [Reply msg (Error_return ''InvalidArgs'')]))"

text \<open>Dropping the gates of a sender: the gates that remain and the numbers of the checks to cancel.\<close>

fun drop_gates :: "u8 list \<Rightarrow> (u8 list \<times> AuthGate) list \<Rightarrow> (u8 list \<times> AuthGate) list \<times> nat list" where
  "drop_gates sender [] = ([], [])"
| "drop_gates sender ((key, entry) # rest) =
     (case drop_gates sender rest of (gates, tasks) \<Rightarrow>
        if ag_sender entry \<noteq> sender then ((key, entry) # gates, tasks)
        else if ag_state entry = Authorized then ((key, entry\<lparr>ag_state := Finished\<rparr>) # gates, tasks)
        else (gates, ag_task entry # tasks))"

text \<open>A cancelled check that has been sent withdraws the prompt (\<^verbatim>\<open>WorkerPolkitGate::async_finalize\<close>).\<close>

definition cancel_tasks :: "nat list \<Rightarrow> (nat \<times> WorkerPolkitGate) list \<Rightarrow> (nat \<times> WorkerPolkitGate) list \<times> device_output list" where
  "cancel_tasks ids tasks =
     (filter (\<lambda>(i, t). i \<notin> set ids) tasks,
      concat (map (\<lambda>(i, t). case dm_sender (wp_message t) of
                               Some sender \<Rightarrow> if i \<in> set ids \<and> wp_sent t then [Cancel_check sender (dm_serial (wp_message t))] else []
                             | None \<Rightarrow> []) tasks))"

definition drop_auth_gates :: "u8 list \<Rightarrow> WorkerDevice \<Rightarrow> WorkerDevice \<times> device_output list" where
  "drop_auth_gates sender s =
     (let (gates, ids) = drop_gates sender (wd_gates s); (tasks, out) = cancel_tasks ids (wd_tasks s)
      in (s\<lparr>wd_gates := gates, wd_tasks := tasks\<rparr>, out))"

definition unclaim :: "WorkerDevice \<Rightarrow> WorkerDevice" where
  "unclaim s = s\<lparr>wd_claimed := False, wd_claimed_sender := [], wd_claimed_user := []\<rparr>"

definition cancel_enroll_verify :: "WorkerDevice \<Rightarrow> WorkerDevice \<times> device_output list" where
  "cancel_enroll_verify s = (if wd_task s = None then (s, []) else (s\<lparr>wd_task := None\<rparr>, [Task_cancelled]))"

definition name_owner_changed :: "dbus_message \<Rightarrow> WorkerDevice \<Rightarrow> WorkerDevice \<times> device_output list" where
  "name_owner_changed msg s =
     (case dm_args msg of
        Dbus_string name # Dbus_string old_owner # Dbus_string new_owner # _ \<Rightarrow>
          if new_owner = [] then
            (let (s, out1) = cancel_enroll_verify s; (s, out2) = drop_auth_gates old_owner s
             in (unclaim s, out1 @ out2 @ [Unclaimed msg, Stop_sensor]))
          else (s, [])
      | _ \<Rightarrow> (s, []))"

definition claim :: "dbus_message \<Rightarrow> WorkerDevice \<Rightarrow> (WorkerDevice \<times> device_output list) option" where
  "claim msg s =
     (if wd_claimed s then Some (s, [Reply msg (Error_return ''AlreadyInUse'')])
      else do { user \<leftarrow> dm_username msg;
                sender \<leftarrow> dm_sender msg;
                Some (s\<lparr>wd_listening := Some (owner_rule sender), wd_claimed := True, wd_claimed_sender := sender,
                        wd_claimed_user := user\<rparr>,
                      [Acts Claim msg user, Claimed sender user, Reply msg (Method_return [])]) })"

definition release :: "dbus_message \<Rightarrow> WorkerDevice \<Rightarrow> (WorkerDevice \<times> device_output list) option" where
  "release msg s =
     do { sender \<leftarrow> dm_sender msg;
          let (s, out1) = cancel_enroll_verify (s\<lparr>wd_listening := None\<rparr>); (s, out2) = drop_auth_gates sender s
          in Some (unclaim s, out1 @ out2 @ [Unclaimed msg, Reply msg (Method_return [])]) }"

definition enroll_verify_start :: "dbus_message \<Rightarrow> WorkerDevice \<Rightarrow> WorkerDevice \<times> device_output list" where
  "enroll_verify_start msg s =
     (let is_verify = dm_member msg = ascii ''VerifyStart'' in
      if \<not> wd_reader_ready s \<or> wd_sleeping s then (s, [Reply msg (Error_return ''Internal'')])
      else if wd_task s \<noteq> None then (s, [Reply msg (Error_return ''AlreadyInUse'')])
      else case dm_args msg of
        Dbus_string finger_name # _ \<Rightarrow>
          if is_verify \<and> \<not> is_any finger_name \<and> \<not> check (wd_storage s) (wd_claimed_user s) finger_name
          then (s, [Reply msg (Error_return ''NoEnrolledPrints'')])
          else (s\<lparr>wd_task := Some \<lparr>wv_user = wd_claimed_user s, wv_name = finger_name, wv_verify = is_verify\<rparr>\<rparr>,
                [Acts Start msg (wd_claimed_user s), Reply msg (Method_return [])]
                @ (if is_verify then [Selected finger_name] else []))
      | _ \<Rightarrow> (s, [Reply msg (Error_return ''InvalidArgs'')]))"

definition enroll_verify_stop :: "dbus_message \<Rightarrow> WorkerDevice \<Rightarrow> WorkerDevice \<times> device_output list" where
  "enroll_verify_stop msg s =
     (if wd_task s = None then (s, [Reply msg (Error_return ''NoActionInProgress'')])
      else (s\<lparr>wd_task := None\<rparr>, [Reply msg (Method_return []), Stop_image]))"

text \<open>\<^verbatim>\<open>AsyncDBusObject::handle_message\<close>.\<close>

definition base_handle ::
    "device_env \<Rightarrow> save_answers \<Rightarrow> dbus_message \<Rightarrow> WorkerDevice \<Rightarrow> (WorkerDevice \<times> device_output list) option" where
  "base_handle env answers msg s =
     (case de_dispatch env msg of
        None \<Rightarrow> Some (s, [])
      | Some List_fingers \<Rightarrow> list_enrolled_fingers msg s
      | Some Delete_fingers \<Rightarrow> delete_enrolled_fingers env answers msg s
      | Some Delete_fingers2 \<Rightarrow> delete_enrolled_fingers2 env answers msg s
      | Some Delete_finger \<Rightarrow> delete_enrolled_finger env answers msg s
      | Some Claim \<Rightarrow> claim msg s
      | Some Release \<Rightarrow> release msg s
      | Some Start \<Rightarrow> Some (enroll_verify_start msg s)
      | Some Stop \<Rightarrow> Some (enroll_verify_stop msg s)
      | Some Owner_changed \<Rightarrow> Some (name_owner_changed msg s))"

subsection \<open>The checks in front of the methods\<close>

text \<open>The call is parked until the bus answers who its sender is.\<close>

definition get_uid :: "dbus_message \<Rightarrow> WorkerDevice \<Rightarrow> (WorkerDevice \<times> device_output list) option" where
  "get_uid msg s =
     (case dm_sender msg of None \<Rightarrow> None | Some _ \<Rightarrow> Some (s\<lparr>wd_parked := Some msg\<rparr>, [Lookup msg]))"

datatype uid_reply = Uid_error | Uid_malformed | Uid u32

definition check_uid ::
    "device_env \<Rightarrow> save_answers \<Rightarrow> uid_reply \<Rightarrow> dbus_message \<Rightarrow> WorkerDevice \<Rightarrow> (WorkerDevice \<times> device_output list) option" where
  "check_uid env answers unix_user msg s =
     (case unix_user of
        Uid uid \<Rightarrow>
          (case dm_args msg of
             Dbus_string username # _ \<Rightarrow>
               (case de_passwd env uid of
                  None \<Rightarrow> Some (s, [Reply msg (Error_return ''Internal'')])
                | Some pw_name \<Rightarrow>
                    let username = (if username = [] then pw_name else username)
                    in if pw_name \<noteq> username \<and> uid \<noteq> 0
                       then Some (s, [Reply msg (Error_return ''PermissionDenied'')])
                       else do { (s, out) \<leftarrow> base_handle env answers (msg\<lparr>dm_username := Some username\<rparr>) s;
                                 Some (s, Entitled msg uid username # out) })
           | _ \<Rightarrow> Some (s, [Reply msg (Error_return ''InvalidArgs'')]))
      | _ \<Rightarrow> Some (s, [Reply msg (Error_return ''Internal'')]))"

definition check_sender ::
    "device_env \<Rightarrow> save_answers \<Rightarrow> dbus_message \<Rightarrow> WorkerDevice \<Rightarrow> (WorkerDevice \<times> device_output list) option" where
  "check_sender env answers msg s =
     (if \<not> wd_claimed s then Some (s, [Reply msg (Error_return ''ClaimDevice'')])
      else case dm_sender msg of
        None \<Rightarrow> None
      | Some sender \<Rightarrow>
          if wd_claimed_sender s \<noteq> sender then Some (s, [Reply msg (Error_return ''PermissionDenied'')])
          else base_handle env answers msg s)"

definition check_polkit ::
    "device_env \<Rightarrow> save_answers \<Rightarrow> dbus_message \<Rightarrow> WorkerDevice \<Rightarrow> (WorkerDevice \<times> device_output list) option" where
  "check_polkit env answers msg s =
     (case dm_sender msg of
        None \<Rightarrow> Some (s, [Reply msg (Error_return ''PermissionDenied'')])
      | Some sender \<Rightarrow>
          let key = gate_key sender (dm_serial msg) in
          case map_of (wd_gates s) key of
            Some entry \<Rightarrow>
              let s = s\<lparr>wd_gates := AList.delete key (wd_gates s),
                        wd_tasks := if de_owned env then AList.delete (ag_task entry) (wd_tasks s) else wd_tasks s\<rparr>
              in if ag_state entry \<noteq> Authorized then Some (s, [])
                 else if de_hash env (dm_member msg) = de_hash env (ascii ''DeleteEnrolledFingers'') then get_uid msg s
                 else check_sender env answers msg s
          | None \<Rightarrow>
              if wd_claimed s \<and> wd_claimed_sender s \<noteq> sender
              then Some (s, [Reply msg (Error_return ''AlreadyInUse'')])
              else let gates = filter (\<lambda>(k, entry). ag_state entry \<noteq> Finished) (wd_gates s);
                       task = wd_next s
                   in Some (s\<lparr>wd_tasks := wd_tasks s @ [(task, \<lparr>wp_message = msg, wp_sent = False\<rparr>)],
                              wd_next := task + 1,
                              wd_gates := (key, \<lparr>ag_task = task, ag_sender = sender, ag_state = Pending\<rparr>) # gates\<rparr>, []))"

definition handle_message ::
    "device_env \<Rightarrow> save_answers \<Rightarrow> dbus_message \<Rightarrow> WorkerDevice \<Rightarrow> (WorkerDevice \<times> device_output list) option" where
  "handle_message env answers msg s =
     (let method_key = de_hash env (dm_member msg);
          is = (\<lambda>names. method_key \<in> set (map (\<lambda>name. de_hash env (ascii name)) names))
      in if is [''ListEnrolledFingers'', ''Claim''] then get_uid msg s
         else if is [''EnrollStart'', ''DeleteEnrolledFinger'', ''DeleteEnrolledFingers'', ''DeleteEnrolledFingers2'']
         then check_polkit env answers msg s
         else if is [''EnrollStop'', ''VerifyStop'', ''VerifyStart'', ''Release''] then check_sender env answers msg s
         else base_handle env answers msg s)"

subsection \<open>The check of the polkit\<close>

text \<open>A gate was resolved (the callback that \<^verbatim>\<open>check_polkit\<close> gives to the check).\<close>

definition on_resolved :: "u8 list \<Rightarrow> bool \<Rightarrow> WorkerDevice \<Rightarrow> WorkerDevice" where
  "on_resolved done_key authorized s =
     (case map_of (wd_gates s) done_key of
        None \<Rightarrow> s
      | Some entry \<Rightarrow> s\<lparr>wd_gates := AList.update done_key
            (entry\<lparr>ag_state := if authorized then Authorized else Finished\<rparr>) (wd_gates s)\<rparr>)"

definition deny :: "nat \<Rightarrow> dbus_message \<Rightarrow> u8 list \<Rightarrow> WorkerDevice \<Rightarrow> WorkerDevice \<times> device_output list" where
  "deny task msg sender s =
     (on_resolved (gate_key sender (dm_serial msg)) False (s\<lparr>wd_tasks := AList.delete task (wd_tasks s)\<rparr>),
      [Verdict sender (dm_serial msg) False, Reply msg (Error_return ''PermissionDenied'')])"

definition send_check :: "bool \<Rightarrow> nat \<Rightarrow> WorkerDevice \<Rightarrow> WorkerDevice \<times> device_output list" where
  "send_check call task s =
     (case map_of (wd_tasks s) task of
        None \<Rightarrow> (s, [])
      | Some t \<Rightarrow>
          (case dm_sender (wp_message t) of
             None \<Rightarrow> deny task (wp_message t) [] s
           | Some sender \<Rightarrow>
               if \<not> call then deny task (wp_message t) sender s
               else (s\<lparr>wd_tasks := AList.update task (t\<lparr>wp_sent := True\<rparr>) (wd_tasks s)\<rparr>,
                     [Check sender (dm_serial (wp_message t))])))"

text \<open>The reply is positive when it is a method return whose first argument is a struct that starts with
  the boolean true.\<close>

datatype polkit_reply = Polkit_error | Polkit_return "dbus_arg list"

definition positive :: "polkit_reply \<Rightarrow> bool" where
  "positive r = (case r of Polkit_return (Dbus_struct (Dbus_boolean v # _) # _) \<Rightarrow> v | _ \<Rightarrow> False)"

definition check_done :: "polkit_reply \<Rightarrow> nat \<Rightarrow> WorkerDevice \<Rightarrow> WorkerDevice \<times> device_output list" where
  "check_done r task s =
     (case map_of (wd_tasks s) task of
        None \<Rightarrow> (s, [])
      | Some t \<Rightarrow>
          let msg = wp_message t; sender = (case dm_sender msg of None \<Rightarrow> [] | Some sender \<Rightarrow> sender)
          in if \<not> positive r then deny task msg sender s
             else (let s = on_resolved (gate_key sender (dm_serial msg)) True (s\<lparr>wd_tasks := AList.delete task (wd_tasks s)\<rparr>)
                   in (s\<lparr>wd_queue := wd_queue s @ [msg]\<rparr>, [Verdict sender (dm_serial msg) True])))"


text \<open>\<^verbatim>\<open>WorkerPower::power_changed\<close>.\<close>

definition power_changed :: "dbus_message \<Rightarrow> WorkerDevice \<Rightarrow> WorkerDevice \<times> device_output list" where
  "power_changed msg s =
     (case dm_args msg of
        Dbus_boolean sleeping # _ \<Rightarrow>
          (s\<lparr>wd_sleeping := sleeping, wd_generation := wd_generation s + (if sleeping then 1 else 0)\<rparr>, [Power sleeping])
      | _ \<Rightarrow> (s, []))"

subsection \<open>Runs\<close>

text \<open>A call of a client or a signal arrives; the dispatch takes the next message; the bus answers the
  lookup of a sender; a check is sent or answered; the tasks that enroll and verify change the
  store; the reader comes and goes.\<close>

datatype device_op =
    Call dbus_message
  | Signal dbus_message
  | Power_signal dbus_message
  | Dispatch save_answers
  | Uid_reply uid_reply save_answers
  | Send_check bool nat
  | Check_done polkit_reply nat
  | Store FingerprintStorage "u8 list option"
  | Reader bool

fun device_exec :: "device_env \<Rightarrow> device_op \<Rightarrow> WorkerDevice \<Rightarrow> (WorkerDevice \<times> device_output list) option" where
  "device_exec env (Call msg) s = Some (s\<lparr>wd_queue := wd_queue s @ [msg]\<rparr>, [])"
| "device_exec env (Signal msg) s =
     (case wd_listening s of
        None \<Rightarrow> Some (s, [])
      | Some rule \<Rightarrow> Some (if filter_signal rule msg then s\<lparr>wd_queue := wd_queue s @ [msg]\<rparr> else s, []))"
| "device_exec env (Power_signal msg) s = Some (if filter_signal power_rule msg then power_changed msg s else (s, []))"
| "device_exec env (Dispatch answers) s =
     (case wd_queue s of
        [] \<Rightarrow> Some (s, [])
      | msg # queue \<Rightarrow> handle_message env answers msg (s\<lparr>wd_queue := queue\<rparr>))"
| "device_exec env (Uid_reply unix_user answers) s =
     (case wd_parked s of
        None \<Rightarrow> Some (s, [])
      | Some msg \<Rightarrow> check_uid env answers unix_user msg (s\<lparr>wd_parked := None\<rparr>))"
| "device_exec env (Send_check call task) s = Some (send_check call task s)"
| "device_exec env (Check_done r task) s = Some (check_done r task s)"
| "device_exec env (Store storage file) s = Some (s\<lparr>wd_storage := storage, wd_file := file\<rparr>, [])"
| "device_exec env (Reader ready) s = Some (s\<lparr>wd_reader_ready := ready\<rparr>, [])"

text \<open>The bus stamps every message with its sender, and no user name is attached to it yet; the dispatch is serial, so no message is taken while a
  lookup is under way; a check is answered after it was sent.\<close>

fun device_allowed :: "device_op \<Rightarrow> WorkerDevice \<Rightarrow> bool" where
  "device_allowed (Call msg) s = (\<not> dm_signal msg \<and> dm_sender msg \<noteq> None \<and> dm_username msg = None)"
| "device_allowed (Signal msg) s = (dm_signal msg \<and> dm_sender msg \<noteq> None \<and> dm_username msg = None)"
| "device_allowed (Power_signal msg) s = dm_signal msg"
| "device_allowed (Dispatch answers) s = (wd_parked s = None \<and> wd_queue s \<noteq> [])"
| "device_allowed (Uid_reply unix_user answers) s = (wd_parked s \<noteq> None)"
| "device_allowed (Send_check call task) s = (case map_of (wd_tasks s) task of None \<Rightarrow> False | Some t \<Rightarrow> \<not> wp_sent t)"
| "device_allowed (Check_done r task) s = (case map_of (wd_tasks s) task of None \<Rightarrow> False | Some t \<Rightarrow> wp_sent t)"
| "device_allowed (Store storage file) s = True"
| "device_allowed (Reader ready) s = True"

definition device_initial :: "FingerprintStorage \<Rightarrow> u8 list option \<Rightarrow> WorkerDevice" where
  "device_initial storage file =
     \<lparr>wd_claimed = False, wd_claimed_sender = [], wd_claimed_user = [], wd_task = None, wd_listening = None,
      wd_gates = [], wd_tasks = [], wd_next = 0, wd_queue = [], wd_parked = None, wd_storage = storage,
      wd_file = file, wd_reader_ready = False, wd_sleeping = False, wd_generation = 0\<rparr>"

inductive device_run :: "device_env \<Rightarrow> WorkerDevice \<Rightarrow> device_output list \<Rightarrow> WorkerDevice \<Rightarrow> bool" for env s0 where
  start: "device_run env s0 [] s0"
| step: "device_run env s0 tr s \<Longrightarrow> device_allowed op s \<Longrightarrow> device_exec env op s = Some (s', out)
    \<Longrightarrow> device_run env s0 (tr @ out) s'"

subsection \<open>What the environment promises\<close>

fun members :: "handler \<Rightarrow> u8 list list" where
  "members List_fingers = [ascii ''ListEnrolledFingers'']"
| "members Delete_fingers = [ascii ''DeleteEnrolledFingers'']"
| "members Delete_fingers2 = [ascii ''DeleteEnrolledFingers2'']"
| "members Delete_finger = [ascii ''DeleteEnrolledFinger'']"
| "members Claim = [ascii ''Claim'']"
| "members Release = [ascii ''Release'']"
| "members Start = [ascii ''VerifyStart'', ascii ''EnrollStart'']"
| "members Stop = [ascii ''VerifyStop'', ascii ''EnrollStop'']"
| "members Owner_changed = [ascii ''NameOwnerChanged'']"

definition method_names :: "u8 list list" where
  "method_names = map ascii [''ListEnrolledFingers'', ''Claim'', ''EnrollStart'', ''DeleteEnrolledFinger'',
     ''DeleteEnrolledFingers'', ''DeleteEnrolledFingers2'', ''EnrollStop'', ''VerifyStop'', ''VerifyStart'', ''Release'']"

text \<open>A registered method is called for messages with its name only; the cases of the \<^verbatim>\<open>switch\<close> over
  the hashes are distinct, or it would not compile.\<close>

definition env_ok :: "device_env \<Rightarrow> bool" where
  "env_ok env \<longleftrightarrow>
     (\<forall>msg h. de_dispatch env msg = Some h \<longrightarrow> dm_member msg \<in> set (members h))
     \<and> (\<forall>msg user. de_dispatch env (msg\<lparr>dm_username := user\<rparr>) = de_dispatch env msg)
     \<and> distinct (map (de_hash env) method_names)"

end
