(* ===== verification/Authorization.thy ===== *)
theory Authorization
  imports Device
begin

text \<open>
  Every run of a gated call of the D-Bus device uses up an authorization of that very call: the key of a gate
  tells the sender and the serial, and each step of the device spends at most the authorizations that are open.
\<close>

subsection \<open>Keys\<close>

lemma decimal_digits: "58 \<notin> set (decimal n)"
proof (induction n rule: decimal.induct)
  case (1 n)
  have digit: "(48 + of_nat d :: u8) \<noteq> 58" if "d < 10" for d
  proof
    assume "(48 + of_nat d :: u8) = 58"
    then have "unat (48 + of_nat d :: u8) = 58" by simp
    with that show False by (simp add: unat_word_ariths unat_of_nat take_bit_nat_eq_self)
  qed
  show ?case
  proof (cases "n < 10")
    case True
    with digit [of n] show ?thesis by (subst decimal.simps) auto
  next
    case False
    with digit [of "n mod 10"] 1 show ?thesis by (subst decimal.simps) auto
  qed
qed

lemma digit_inj:
  assumes "(48 + of_nat a :: u8) = 48 + of_nat b" "a < 10" "b < 10"
  shows "a = b"
proof -
  from assms(1) have "unat (48 + of_nat a :: u8) = unat (48 + of_nat b :: u8)" by simp
  with assms(2,3) show ?thesis by (simp add: unat_word_ariths unat_of_nat take_bit_nat_eq_self)
qed

lemma decimal_inj: "decimal a = decimal b \<Longrightarrow> a = b"
proof (induction a arbitrary: b rule: decimal.induct)
  case (1 a)
  have ne: "decimal n \<noteq> []" for n by (subst decimal.simps) simp
  show ?case
  proof (cases "a < 10")
    case True
    then have a: "decimal a = [48 + of_nat a]" by (subst decimal.simps) simp
    have "b < 10"
    proof (rule ccontr)
      assume "\<not> b < 10"
      then have "decimal b = decimal (b div 10) @ [48 + of_nat (b mod 10)]" by (subst decimal.simps) simp
      with 1(2) ne [of "b div 10"] show False unfolding a by simp
    qed
    then have "decimal b = [48 + of_nat b]" by (subst decimal.simps) simp
    with 1(2) have "(48 + of_nat a :: u8) = 48 + of_nat b" unfolding a by simp
    then show ?thesis by (rule digit_inj [OF _ True \<open>b < 10\<close>])
  next
    case False
    then have a: "decimal a = decimal (a div 10) @ [48 + of_nat (a mod 10)]" by (subst decimal.simps) simp
    have "\<not> b < 10"
    proof
      assume "b < 10"
      then have "decimal b = [48 + of_nat b]" by (subst decimal.simps) simp
      with 1(2) ne [of "a div 10"] show False unfolding a by simp
    qed
    then have b: "decimal b = decimal (b div 10) @ [48 + of_nat (b mod 10)]" by (subst decimal.simps) simp
    have d: "decimal (a div 10) = decimal (b div 10)" and m: "(48 + of_nat (a mod 10) :: u8) = 48 + of_nat (b mod 10)"
      using 1(2) unfolding a b by simp_all
    have "a div 10 = b div 10" by (rule 1(1) [OF False d])
    moreover have "a mod 10 = b mod 10" by (rule digit_inj [OF m]) simp_all
    ultimately show ?thesis by (metis div_mult_mod_eq)
  qed
qed

lemma split_last_colon:
  assumes "a @ 58 # x = b @ 58 # y" "(58 :: u8) \<notin> set x" "58 \<notin> set y"
  shows "a = b \<and> x = y"
proof -
  have t: "takeWhile (\<lambda>c. c \<noteq> 58) (rev (p @ 58 # q)) = rev q" if "(58 :: u8) \<notin> set q" for p q
  proof -
    have "rev (p @ 58 # q) = rev q @ 58 # rev p" by simp
    then show ?thesis by (simp only:) (subst takeWhile_append2; use that in auto)
  qed
  from t [OF assms(2), of a] t [OF assms(3), of b] assms(1) have "x = y" by simp
  with assms(1) show ?thesis by simp
qed

text \<open>A key tells the sender and the serial.\<close>

lemma gate_key_eq: "gate_key a n = gate_key b m \<longleftrightarrow> a = b \<and> n = m"
proof
  assume "gate_key a n = gate_key b m"
  then have "a @ 58 # decimal (unat n) = b @ 58 # decimal (unat m)" by (simp add: gate_key_def ascii_def)
  then have "a = b \<and> decimal (unat n) = decimal (unat m)" using split_last_colon decimal_digits by blast
  then show "a = b \<and> n = m" using decimal_inj word_unat_eq_iff by blast
qed simp

subsection \<open>Authorizations\<close>

definition gated :: "dbus_message \<Rightarrow> bool" where
  "gated msg \<longleftrightarrow> dm_member msg \<in> set (map ascii [''EnrollStart'', ''DeleteEnrolledFinger'',
     ''DeleteEnrolledFingers'', ''DeleteEnrolledFingers2''])"

definition from_call :: "u8 list \<Rightarrow> u32 \<Rightarrow> dbus_message \<Rightarrow> bool" where
  "from_call sender serial msg \<longleftrightarrow> gated msg \<and> dm_sender msg = Some sender \<and> dm_serial msg = serial"

fun ran :: "u8 list \<Rightarrow> u32 \<Rightarrow> device_output \<Rightarrow> bool" where
  "ran sender serial (Acts h msg user) = from_call sender serial msg"
| "ran sender serial _ = False"

definition granted :: "u8 list \<Rightarrow> u32 \<Rightarrow> device_output \<Rightarrow> bool" where
  "granted sender serial out \<longleftrightarrow> out = Verdict sender serial True"

definition occurrences :: "(device_output \<Rightarrow> bool) \<Rightarrow> device_output list \<Rightarrow> nat" where
  "occurrences P tr = length (filter P tr)"

definition authorized :: "u8 list \<Rightarrow> (u8 list \<times> AuthGate) list \<Rightarrow> nat" where
  "authorized key gates = length (filter (\<lambda>(k, e). k = key \<and> ag_state e = Authorized) gates)"

definition parked :: "u8 list \<Rightarrow> u32 \<Rightarrow> WorkerDevice \<Rightarrow> nat" where
  "parked sender serial s = (case wd_parked s of None \<Rightarrow> 0 | Some msg \<Rightarrow> if from_call sender serial msg then 1 else 0)"

text \<open>The authorizations of a call that have been given and not been used.\<close>

definition open_grants :: "u8 list \<Rightarrow> u32 \<Rightarrow> WorkerDevice \<Rightarrow> nat" where
  "open_grants sender serial s = parked sender serial s + authorized (gate_key sender serial) (wd_gates s)"

lemma occurrences_simps [simp]:
  "occurrences P [] = 0" "occurrences P (x # xs) = (if P x then 1 else 0) + occurrences P xs"
  "occurrences P (xs @ ys) = occurrences P xs + occurrences P ys"
  by (simp_all add: occurrences_def)

lemma granted_simps [simp]:
  "granted a n (Verdict b m v) \<longleftrightarrow> a = b \<and> n = m \<and> v" "\<not> granted a n (Acts h msg u)" "\<not> granted a n (Reply msg r)"
  "\<not> granted a n (Lookup msg)" "\<not> granted a n (Entitled msg uid u)" "\<not> granted a n (Check b m)"
  "\<not> granted a n (Cancel_check b m)" "\<not> granted a n (Claimed b u)" "\<not> granted a n (Unclaimed msg)"
  "\<not> granted a n Task_cancelled" "\<not> granted a n Stop_sensor" "\<not> granted a n Stop_image"
  "\<not> granted a n (Selected u)" "\<not> granted a n (Power v)"
  by (auto simp: granted_def)

lemma authorized_simps [simp]:
  "authorized k [] = 0"
  "authorized k ((k', e) # gs) = (if k' = k \<and> ag_state e = Authorized then 1 else 0) + authorized k gs"
  by (simp_all add: authorized_def)

lemma authorized_delete [simp]: "authorized k (AList.delete k' gs) = (if k = k' then 0 else authorized k gs)"
  by (induction gs) auto

lemma authorized_found: "map_of gs k = Some e \<Longrightarrow> ag_state e = Authorized \<Longrightarrow> 1 \<le> authorized k gs"
  by (induction gs) (auto split: if_splits)

lemma authorized_filter: "authorized k (filter P gs) \<le> authorized k gs"
  by (induction gs) auto

lemma authorized_update:
  "authorized k (AList.update k' e gs) \<le> authorized k gs + (if k = k' \<and> ag_state e = Authorized then 1 else 0)"
  by (induction gs) auto

lemma authorized_drop: "authorized k (fst (drop_gates sender gs)) \<le> authorized k gs"
  by (induction sender gs rule: drop_gates.induct) (auto split: prod.splits)

lemma cancel_output: "set (snd (cancel_tasks ids tasks)) \<subseteq> {Cancel_check a n | a n. True}"
  by (auto simp: cancel_tasks_def split: option.splits if_splits)

lemma drop_auth_gates_frame:
  assumes "drop_auth_gates sender s = (s', out)"
  shows "(\<exists>gates tasks. s' = s\<lparr>wd_gates := gates, wd_tasks := tasks\<rparr>)
    \<and> authorized k (wd_gates s') \<le> authorized k (wd_gates s) \<and> set out \<subseteq> {Cancel_check a n | a n. True}"
proof -
  obtain gates ids where d: "drop_gates sender (wd_gates s) = (gates, ids)" by (cases "drop_gates sender (wd_gates s)")
  obtain tasks out' where c: "cancel_tasks ids (wd_tasks s) = (tasks, out')" by (cases "cancel_tasks ids (wd_tasks s)")
  have "s' = s\<lparr>wd_gates := gates, wd_tasks := tasks\<rparr>" "out = out'" using assms d c by (simp_all add: drop_auth_gates_def)
  then show ?thesis using authorized_drop [of k sender "wd_gates s"] cancel_output [of ids "wd_tasks s"] d c by auto
qed

lemma cancels_neutral:
  assumes "set out \<subseteq> {Cancel_check a n | a n. True}"
  shows "occurrences (ran b m) out = 0" "occurrences (granted b m) out = 0"
proof -
  have "\<not> ran b m x \<and> \<not> granted b m x" if "x \<in> set out" for x using that assms by auto
  then show "occurrences (ran b m) out = 0" "occurrences (granted b m) out = 0"
    by (simp_all add: occurrences_def filter_empty_conv)
qed

subsection \<open>Every run of a gated call uses up one authorization\<close>

text \<open>The handler of a message leaves the parked call and adds no authorization, and it acts for its
  message only.\<close>

definition spends :: "dbus_message \<Rightarrow> WorkerDevice \<Rightarrow> WorkerDevice \<times> device_output list \<Rightarrow> bool" where
  "spends msg s r \<longleftrightarrow>
     (case r of (s', out) \<Rightarrow>
        wd_parked s' = wd_parked s \<and> (\<forall>k. authorized k (wd_gates s') \<le> authorized k (wd_gates s))
        \<and> (\<forall>a n. occurrences (ran a n) out \<le> (if from_call a n msg then 1 else 0) \<and> occurrences (granted a n) out = 0))"

lemma spends_plain:
  assumes "wd_parked s' = wd_parked s" "wd_gates s' = wd_gates s"
    "\<And>a n. occurrences (ran a n) out \<le> (if from_call a n msg then 1 else 0)"
    "\<And>a n. occurrences (granted a n) out = 0"
  shows "spends msg s (s', out)"
  using assms by (simp add: spends_def)

lemma spends_same [simp]:
  "spends msg s (s, [])" "spends msg s (s, [Reply m r])"
  by (simp_all add: spends_def)

lemma deleted_spends:
  "deleted msg failure r s [Acts h msg user] = Some (s', out) \<Longrightarrow> spends msg s (s', out)"
  by (auto simp: deleted_def split: prod.splits intro!: spends_plain)

lemma cancel_enroll_verify_frame:
  "cancel_enroll_verify s = (s', out) \<Longrightarrow> wd_parked s' = wd_parked s \<and> wd_gates s' = wd_gates s
     \<and> wd_claimed s' = wd_claimed s \<and> wd_claimed_sender s' = wd_claimed_sender s \<and> wd_claimed_user s' = wd_claimed_user s
     \<and> wd_tasks s' = wd_tasks s \<and> wd_queue s' = wd_queue s \<and> wd_storage s' = wd_storage s
     \<and> set out \<subseteq> {Task_cancelled}"
  by (auto simp: cancel_enroll_verify_def split: if_splits)

lemma tasks_neutral:
  assumes "set out \<subseteq> {Task_cancelled}"
  shows "occurrences (ran b m) out = 0" "occurrences (granted b m) out = 0"
proof -
  have "\<not> ran b m x \<and> \<not> granted b m x" if "x \<in> set out" for x using that assms by auto
  then show "occurrences (ran b m) out = 0" "occurrences (granted b m) out = 0"
    by (simp_all add: occurrences_def filter_empty_conv)
qed

lemma dropped_spends:
  assumes "cancel_enroll_verify s0 = (s1, out1)" "drop_auth_gates sender s1 = (s2, out2)"
    "wd_parked s0 = wd_parked s" "wd_gates s0 = wd_gates s"
    "\<And>a n. occurrences (ran a n) out3 = 0" "\<And>a n. occurrences (granted a n) out3 = 0"
  shows "spends msg s (unclaim s2, out1 @ out2 @ out3)"
proof -
  note c = cancel_enroll_verify_frame [OF assms(1)]
  note d = drop_auth_gates_frame [OF assms(2)]
  have "set out2 \<subseteq> {Cancel_check a n | a n. True}" using d by blast
  note o2 = cancels_neutral [OF this]
  have "set out1 \<subseteq> {Task_cancelled}" using c by blast
  note o1 = tasks_neutral [OF this]
  obtain gates tasks where "s2 = s1\<lparr>wd_gates := gates, wd_tasks := tasks\<rparr>" using d by blast
  then have "wd_parked s2 = wd_parked s" using c assms(3) by simp
  moreover have "authorized k (wd_gates s2) \<le> authorized k (wd_gates s)" for k
    using d [of k] c assms(4) by simp
  ultimately show ?thesis using o1 o2 assms(5,6) by (simp add: spends_def unclaim_def)
qed

lemma base_spends:
  assumes "base_handle env answers msg s = Some (s', out)"
  shows "spends msg s (s', out)"
proof (cases "de_dispatch env msg")
  case None
  with assms show ?thesis by (auto simp: base_handle_def intro!: spends_plain)
next
  case (Some h)
  note run = assms [unfolded base_handle_def Some, simplified]
  show ?thesis
  proof (cases h)
    case List_fingers
    with run show ?thesis by (auto simp: list_enrolled_fingers_def split: Option.bind_splits intro!: spends_plain)
  next
    case Delete_fingers
    with run show ?thesis by (auto simp: delete_enrolled_fingers_def split: Option.bind_splits intro: deleted_spends)
  next
    case Delete_fingers2
    with run show ?thesis by (auto simp: delete_enrolled_fingers2_def split: Option.bind_splits intro: deleted_spends)
  next
    case Delete_finger
    with run show ?thesis
      by (auto simp: delete_enrolled_finger_def split: Option.bind_splits list.splits dbus_arg.splits
          intro: deleted_spends)
  next
    case Claim
    with run show ?thesis by (auto simp: claim_def split: Option.bind_splits if_splits intro!: spends_plain)
  next
    case Release
    with run obtain sender s1 out1 s2 out2 where r: "dm_sender msg = Some sender"
      "cancel_enroll_verify (s\<lparr>wd_listening := None\<rparr>) = (s1, out1)" "drop_auth_gates sender s1 = (s2, out2)"
      "s' = unclaim s2" "out = out1 @ out2 @ [Unclaimed msg, Reply msg (Method_return [])]"
      by (auto simp: release_def split: Option.bind_splits prod.splits)
    show ?thesis unfolding r(4,5) by (rule dropped_spends [OF r(2,3)]) simp_all
  next
    case Start
    with run show ?thesis
      by (auto simp: enroll_verify_start_def Let_def split: list.splits dbus_arg.splits if_splits intro!: spends_plain)
  next
    case Stop
    with run show ?thesis by (auto simp: enroll_verify_stop_def split: if_splits intro!: spends_plain)
  next
    case Owner_changed
    then have run': "name_owner_changed msg s = (s', out)" using run by simp
    show ?thesis
    proof (cases "\<exists>name old rest. dm_args msg = Dbus_string name # Dbus_string old # Dbus_string [] # rest")
      case True
      then obtain name old rest where "dm_args msg = Dbus_string name # Dbus_string old # Dbus_string [] # rest" by blast
      with run' obtain s1 out1 s2 out2 where r:
        "cancel_enroll_verify s = (s1, out1)" "drop_auth_gates old s1 = (s2, out2)"
        "s' = unclaim s2" "out = out1 @ out2 @ [Unclaimed msg, Stop_sensor]"
        by (auto simp: name_owner_changed_def split: prod.splits)
      show ?thesis unfolding r(3,4) by (rule dropped_spends [OF r(1,2)]) simp_all
    next
      case False
      with run' have "s' = s \<and> out = []"
        by (auto simp: name_owner_changed_def split: list.splits dbus_arg.splits if_splits)
      then show ?thesis by (auto intro!: spends_plain)
    qed
  qed
qed

lemma check_sender_spends:
  "check_sender env answers msg s = Some (s', out) \<Longrightarrow> spends msg s (s', out)"
  by (auto simp: check_sender_def split: if_splits option.splits intro: base_spends)

lemma check_uid_spends:
  assumes "check_uid env answers unix_user msg s = Some (s', out)"
  shows "spends msg s (s', out)"
proof -
  have f: "from_call a n (msg\<lparr>dm_username := u\<rparr>) = from_call a n msg" for a n u
    by (simp add: from_call_def gated_def)
  have "spends msg s (s', Entitled m uid u # o1)" if "base_handle env answers (msg\<lparr>dm_username := v\<rparr>) s = Some (s', o1)" for m uid u o1 v
    using base_spends [OF that] by (simp add: spends_def f)
  then show ?thesis
    using assms by (auto simp: check_uid_def Let_def split: uid_reply.splits list.splits dbus_arg.splits option.splits
        if_splits Option.bind_splits)
qed

lemma distinct_group:
  "distinct (map g (xs @ ys @ zs)) \<Longrightarrow> n \<in> set ys \<Longrightarrow> g n \<notin> set (map g xs) \<and> g n \<in> set (map g ys) \<and> g n \<notin> set (map g zs)"
  by auto

lemma hash_groups:
  assumes "env_ok env"
  shows "distinct (map (\<lambda>name. de_hash env (ascii name)) ([''ListEnrolledFingers'', ''Claim'']
    @ [''EnrollStart'', ''DeleteEnrolledFinger'', ''DeleteEnrolledFingers'', ''DeleteEnrolledFingers2'']
    @ [''EnrollStop'', ''VerifyStop'', ''VerifyStart'', ''Release'']))"
  using assms unfolding env_ok_def method_names_def map_map comp_def append.simps by blast

text \<open>A gated call is always routed to the polkit.\<close>

lemma gated_route:
  assumes "env_ok env" "gated msg"
  shows "handle_message env answers msg s = check_polkit env answers msg s"
proof -
  obtain name where n: "dm_member msg = ascii name"
    "name \<in> set [''EnrollStart'', ''DeleteEnrolledFinger'', ''DeleteEnrolledFingers'', ''DeleteEnrolledFingers2'']"
    using assms(2) unfolding gated_def set_map by blast
  from distinct_group [OF hash_groups [OF assms(1)] n(2)] n(1) show ?thesis
    unfolding handle_message_def Let_def by (simp only: if_True if_False)
qed

lemma ungated:
  assumes "\<not> gated msg"
  shows "\<not> from_call a n msg"
  using assms by (simp add: from_call_def)

lemma polkit_budget:
  assumes "check_polkit env answers msg s = Some (s', out)" "wd_parked s = None"
  shows "occurrences (ran a n) out + open_grants a n s' \<le> occurrences (granted a n) out + open_grants a n s"
proof (cases "dm_sender msg")
  case None
  then show ?thesis using assms by (auto simp: check_polkit_def)
next
  case (Some sender)
  let ?key = "gate_key sender (dm_serial msg)"
  show ?thesis
  proof (cases "map_of (wd_gates s) ?key")
    case None
    then show ?thesis using assms Some authorized_filter [of "gate_key a n" _ "wd_gates s"]
      by (auto simp: check_polkit_def Let_def open_grants_def parked_def split: if_splits)
  next
    case e: (Some e)
    define s1 where "s1 = s\<lparr>wd_gates := AList.delete ?key (wd_gates s),
        wd_tasks := if de_owned env then AList.delete (ag_task e) (wd_tasks s) else wd_tasks s\<rparr>"
    have p1: "wd_parked s1 = None" "authorized k (wd_gates s1) = (if k = ?key then 0 else authorized k (wd_gates s))" for k
      using assms(2) by (simp_all add: s1_def)
    have fc: "from_call a n msg \<Longrightarrow> gate_key a n = ?key" using Some by (simp add: from_call_def)
    note run = assms(1) [unfolded check_polkit_def Some option.case Let_def e, folded s1_def]
    show ?thesis
    proof (cases "ag_state e = Authorized")
      case False
      with run p1 assms(2) show ?thesis by (auto simp: open_grants_def parked_def)
    next
      case True
      have one: "1 \<le> authorized ?key (wd_gates s)" by (rule authorized_found [OF e True])
      show ?thesis
      proof (cases "de_hash env (dm_member msg) = de_hash env (ascii ''DeleteEnrolledFingers'')")
        case uid: True
        with run True Some have "s' = s1\<lparr>wd_parked := Some msg\<rparr>" "out = [Lookup msg]" by (simp_all add: get_uid_def)
        then show ?thesis using p1 one fc assms(2) by (auto simp: open_grants_def parked_def)
      next
        case False
        with run True have "check_sender env answers msg s1 = Some (s', out)" by simp
        then have "spends msg s1 (s', out)" by (rule check_sender_spends)
        then have sp: "wd_parked s' = None" "authorized (gate_key a n) (wd_gates s') \<le> authorized (gate_key a n) (wd_gates s1)"
          "occurrences (ran a n) out \<le> (if from_call a n msg then 1 else 0)"
          by (auto simp: spends_def p1(1))
        show ?thesis
        proof (cases "from_call a n msg")
          case True
          then have "gate_key a n = ?key" by (rule fc)
          with sp p1(2) [of ?key] one True show ?thesis by (simp add: open_grants_def parked_def assms(2))
        next
          case False
          with sp p1(2) [of "gate_key a n"] show ?thesis by (auto simp: open_grants_def parked_def assms(2) split: if_splits)
        qed
      qed
    qed
  qed
qed

lemma spends_budget:
  assumes "spends msg s (s', out)" "wd_parked s = None"
  shows "occurrences (ran a n) out + open_grants a n s'
    \<le> occurrences (granted a n) out + open_grants a n s + (if from_call a n msg then 1 else 0)"
proof -
  have "wd_parked s' = None" "authorized (gate_key a n) (wd_gates s') \<le> authorized (gate_key a n) (wd_gates s)"
    "occurrences (ran a n) out \<le> (if from_call a n msg then 1 else 0)"
    using assms by (simp_all add: spends_def)
  then show ?thesis by (simp add: open_grants_def parked_def assms(2))
qed

lemma handle_budget:
  assumes "env_ok env" "handle_message env answers msg s = Some (s', out)" "wd_parked s = None"
  shows "occurrences (ran a n) out + open_grants a n s' \<le> occurrences (granted a n) out + open_grants a n s"
proof (cases "gated msg")
  case True
  then show ?thesis using polkit_budget [OF _ assms(3)] assms(1,2) gated_route by simp
next
  case False
  note no = ungated [OF False, of a n]
  consider "get_uid msg s = Some (s', out)" | "check_polkit env answers msg s = Some (s', out)"
    | "check_sender env answers msg s = Some (s', out)" | "base_handle env answers msg s = Some (s', out)"
    using assms(2) unfolding handle_message_def Let_def by (metis (no_types, lifting))
  then show ?thesis
  proof cases
    case 1
    then show ?thesis using no assms(3) by (auto simp: get_uid_def open_grants_def parked_def split: option.splits)
  next
    case 2
    then show ?thesis by (rule polkit_budget [OF _ assms(3)])
  next
    case 3
    from spends_budget [OF check_sender_spends [OF this] assms(3), of a n] no show ?thesis by simp
  next
    case 4
    from spends_budget [OF base_spends [OF this] assms(3), of a n] no show ?thesis by simp
  qed
qed

lemma on_resolved_open:
  "open_grants a n (on_resolved (gate_key b m) v s)
     \<le> open_grants a n s + (if a = b \<and> n = m \<and> v then 1 else 0)"
proof (cases "map_of (wd_gates s) (gate_key b m)")
  case None
  then show ?thesis by (simp add: on_resolved_def)
next
  case (Some e)
  define e' where "e' = e\<lparr>ag_state := if v then Authorized else Finished\<rparr>"
  have "ag_state e' = Authorized \<longleftrightarrow> v" by (simp add: e'_def)
  moreover have "on_resolved (gate_key b m) v s = s\<lparr>wd_gates := AList.update (gate_key b m) e' (wd_gates s)\<rparr>"
    by (simp add: on_resolved_def Some e'_def)
  ultimately show ?thesis
    using authorized_update [of "gate_key a n" "gate_key b m" e' "wd_gates s"]
    by (simp add: open_grants_def parked_def gate_key_eq)
qed

lemma deny_budget:
  assumes "deny task msg sender s = (s', out)"
  shows "occurrences (ran a n) out + open_grants a n s' \<le> occurrences (granted a n) out + open_grants a n s"
  using assms on_resolved_open [of a n sender "dm_serial msg" False "s\<lparr>wd_tasks := AList.delete task (wd_tasks s)\<rparr>"]
  by (auto simp: deny_def open_grants_def parked_def)

lemma step_budget:
  assumes "env_ok env" "device_allowed op s" "device_exec env op s = Some (s', out)"
  shows "occurrences (ran a n) out + open_grants a n s' \<le> occurrences (granted a n) out + open_grants a n s"
proof (cases op)
  case (Dispatch answers)
  then obtain msg queue where q: "wd_queue s = msg # queue" "wd_parked s = None" using assms(2) by (cases "wd_queue s") auto
  with Dispatch assms(3) have "handle_message env answers msg (s\<lparr>wd_queue := queue\<rparr>) = Some (s', out)" by simp
  from handle_budget [OF assms(1) this] q(2) show ?thesis by (simp add: open_grants_def parked_def)
next
  case (Uid_reply unix_user answers)
  then obtain msg where p: "wd_parked s = Some msg" using assms(2) by auto
  with Uid_reply assms(3) have "check_uid env answers unix_user msg (s\<lparr>wd_parked := None\<rparr>) = Some (s', out)" by simp
  from spends_budget [OF check_uid_spends [OF this], of a n] p show ?thesis by (simp add: open_grants_def parked_def)
next
  case (Send_check call task)
  with assms(2,3) show ?thesis
    by (auto simp: send_check_def open_grants_def parked_def split: option.splits if_splits
        dest: deny_budget [where a = a and n = n])
next
  case (Check_done r task)
  then obtain t where t: "map_of (wd_tasks s) task = Some t" using assms(2) by (auto split: option.splits)
  define sender where "sender = (case dm_sender (wp_message t) of None \<Rightarrow> [] | Some sender \<Rightarrow> sender)"
  let ?s = "s\<lparr>wd_tasks := AList.delete task (wd_tasks s)\<rparr>" and ?m = "dm_serial (wp_message t)"
  show ?thesis
  proof (cases "positive r")
    case True
    then have s': "s' = (let s1 = on_resolved (gate_key sender ?m) True ?s in s1\<lparr>wd_queue := wd_queue s1 @ [wp_message t]\<rparr>)"
      "out = [Verdict sender ?m True]"
      using Check_done assms(3) t by (simp_all add: check_done_def Let_def sender_def)
    have "open_grants a n s' = open_grants a n (on_resolved (gate_key sender ?m) True ?s)" "open_grants a n ?s = open_grants a n s"
      by (simp_all add: s' Let_def open_grants_def parked_def)
    then show ?thesis using on_resolved_open [of a n sender ?m True ?s] by (auto simp: s'(2))
  next
    case False
    then have "deny task (wp_message t) sender s = (s', out)"
      using Check_done assms(3) t by (simp add: check_done_def Let_def sender_def)
    then show ?thesis by (rule deny_budget)
  qed
qed (use assms(2,3) in \<open>auto simp: open_grants_def parked_def power_changed_def
    split: option.splits if_splits list.splits dbus_arg.splits\<close>)

end
