(* ===== verification/Access.thy ===== *)
theory Access
  imports Authorization
begin

text \<open>
  Access control of the D-Bus device: gated calls need an authorization each, the methods act only for users their
  sender is entitled to and only for the holder of the device, no step is undefined; and what the listener for
  signals does not check.
\<close>

text \<open>(C11) Enrolling and deleting need the polkit, once per call: in every run of the device, whatever
  clients send, however the checks and lookups are answered and interleaved, a call of a gated method
  (EnrollStart, DeleteEnrolledFinger, DeleteEnrolledFingers, DeleteEnrolledFingers2) has acted at most as
  often as the polkit has authorized that very call, identified by its sender and its serial.\<close>

theorem gated_calls_authorized:
  assumes "env_ok env" "device_run env (device_initial storage file) tr s"
  shows "occurrences (ran sender serial) tr \<le> occurrences (granted sender serial) tr"
proof -
  have "occurrences (ran sender serial) tr + open_grants sender serial s \<le> occurrences (granted sender serial) tr"
    using assms(2)
  proof induction
    case start
    then show ?case by (simp add: open_grants_def parked_def device_initial_def)
  next
    case (step tr s op s' out)
    then show ?case using step_budget [OF assms(1) step.hyps(2,3), of sender serial] by simp
  qed
  then show ?thesis by simp
qed

subsection \<open>Methods act for their user\<close>

text \<open>Who holds the device after a trace, and as which user.\<close>

fun claim_event :: "device_output \<Rightarrow> (u8 list \<times> u8 list) option \<Rightarrow> (u8 list \<times> u8 list) option" where
  "claim_event (Claimed sender user) h = Some (sender, user)"
| "claim_event (Unclaimed msg) h = None"
| "claim_event _ h = h"

definition holder :: "device_output list \<Rightarrow> (u8 list \<times> u8 list) option" where
  "holder tr = fold claim_event tr None"

text \<open>The bus has told that the sender runs as the user, or as root.\<close>

definition entitled :: "device_env \<Rightarrow> device_output list \<Rightarrow> u8 list \<Rightarrow> u8 list \<Rightarrow> bool" where
  "entitled env tr sender user \<longleftrightarrow>
     (\<exists>msg uid. Entitled msg uid user \<in> set tr \<and> dm_sender msg = Some sender \<and> (de_passwd env uid = Some user \<or> uid = 0))"

definition for_claimed :: "handler \<Rightarrow> bool" where
  "for_claimed h \<longleftrightarrow> h \<in> {Delete_fingers2, Delete_finger, Start}"

fun proper :: "device_env \<Rightarrow> device_output list \<Rightarrow> device_output \<Rightarrow> bool" where
  "proper env tr (Acts h msg user) \<longleftrightarrow>
     (\<exists>sender. dm_sender msg = Some sender \<and> entitled env tr sender user
        \<and> (for_claimed h \<longrightarrow> holder tr = Some (sender, user)))"
| "proper env tr (Claimed sender user) \<longleftrightarrow> holder tr = None \<and> entitled env tr sender user"
| "proper env tr (Unclaimed msg) \<longleftrightarrow>
     dm_member msg = ascii ''NameOwnerChanged'' \<or> (\<exists>sender user. dm_sender msg = Some sender \<and> holder tr = Some (sender, user))"
| "proper env tr _ \<longleftrightarrow> True"

fun proper_after :: "device_env \<Rightarrow> device_output list \<Rightarrow> device_output list \<Rightarrow> bool" where
  "proper_after env tr [] \<longleftrightarrow> True"
| "proper_after env tr (out # outs) \<longleftrightarrow> proper env tr out \<and> proper_after env (tr @ [out]) outs"

lemma proper_after_append [simp]:
  "proper_after env tr (xs @ ys) \<longleftrightarrow> proper_after env tr xs \<and> proper_after env (tr @ xs) ys"
  by (induction xs arbitrary: tr) auto

lemma proper_after_split: "proper_after env tr (xs @ out # ys) \<Longrightarrow> proper env (tr @ xs) out"
  by simp

lemma holder_append [simp]: "holder (tr @ [out]) = claim_event out (holder tr)"
  by (simp add: holder_def)

lemma entitled_append: "entitled env tr a u \<Longrightarrow> entitled env (tr @ out) a u"
  by (auto simp: entitled_def)

text \<open>Outputs that say nothing about claims.\<close>

definition silent :: "device_output \<Rightarrow> bool" where
  "silent out \<longleftrightarrow> (case out of Acts h msg user \<Rightarrow> False | Claimed a u \<Rightarrow> False | Unclaimed msg \<Rightarrow> False | _ \<Rightarrow> True)"

lemma silent_proper: "list_all silent outs \<Longrightarrow> proper_after env tr outs \<and> holder (tr @ outs) = holder tr"
proof (induction outs arbitrary: tr)
  case (Cons out outs)
  then have "proper env tr out" "claim_event out (holder tr) = holder tr"
    by (cases out; simp add: silent_def)+
  with Cons.IH [of "tr @ [out]"] Cons.prems show ?case by simp
qed simp

definition known :: "device_env \<Rightarrow> device_output list \<Rightarrow> WorkerDevice \<Rightarrow> bool" where
  "known env tr s \<longleftrightarrow>
     holder tr = (if wd_claimed s then Some (wd_claimed_sender s, wd_claimed_user s) else None)
     \<and> (wd_claimed s \<longrightarrow> entitled env tr (wd_claimed_sender s) (wd_claimed_user s))"

definition keeps :: "device_env \<Rightarrow> device_output list \<Rightarrow> WorkerDevice \<Rightarrow> device_output list \<Rightarrow> bool" where
  "keeps env tr s out \<longleftrightarrow> proper_after env tr out \<and> known env (tr @ out) s"

lemma keeps_silent:
  assumes "known env tr s" "list_all silent out" "wd_claimed s' = wd_claimed s"
    "wd_claimed_sender s' = wd_claimed_sender s" "wd_claimed_user s' = wd_claimed_user s"
  shows "keeps env tr s' out"
  using assms silent_proper [OF assms(2), of env tr] entitled_append
  by (auto simp: keeps_def known_def)

lemma silent_simps [simp]:
  "silent (Reply msg r)" "silent (Lookup msg)" "silent (Entitled msg uid u)" "silent (Check a n)"
  "silent (Cancel_check a n)" "silent (Verdict a n v)" "silent Task_cancelled" "silent Stop_sensor"
  "silent Stop_image" "silent (Selected u)" "silent (Power v)"
  by (simp_all add: silent_def)

lemma keeps_acts:
  assumes "known env tr s" "proper env tr (Acts h msg user)" "list_all silent out" "wd_claimed s' = wd_claimed s"
    "wd_claimed_sender s' = wd_claimed_sender s" "wd_claimed_user s' = wd_claimed_user s"
  shows "keeps env tr s' (Acts h msg user # out)"
  using assms silent_proper [OF assms(3), of env "tr @ [Acts h msg user]"] entitled_append
  by (auto simp: keeps_def known_def)

lemma keeps_unclaim:
  assumes "known env tr s" "proper env tr (Unclaimed msg)" "list_all silent out1" "list_all silent out2"
  shows "keeps env tr (unclaim s') (out1 @ Unclaimed msg # out2)"
proof -
  note a = silent_proper [OF assms(3), of env tr]
  note b = silent_proper [OF assms(4), of env "(tr @ out1) @ [Unclaimed msg]"]
  have "holder ((tr @ out1) @ [Unclaimed msg]) = None" by (simp only: holder_append claim_event.simps)
  moreover have "proper env (tr @ out1) (Unclaimed msg)" using assms(2) a by simp
  ultimately show ?thesis using a b by (simp add: keeps_def known_def unclaim_def)
qed

lemma dropped_silent:
  assumes "cancel_enroll_verify s0 = (s1, out1)" "drop_auth_gates sender s1 = (s2, out2)"
  shows "list_all silent (out1 @ out2)"
proof -
  have "set out1 \<subseteq> {Task_cancelled}" using cancel_enroll_verify_frame [OF assms(1)] by blast
  moreover have "set out2 \<subseteq> {Cancel_check a n | a n. True}" using drop_auth_gates_frame [OF assms(2)] by blast
  ultimately show ?thesis by (auto simp: list_all_iff)
qed

lemma deleted_keeps:
  assumes "known env tr s" "proper env tr (Acts h msg user)"
    "deleted msg failure r s [Acts h msg user] = Some (s', out)"
  shows "keeps env tr s' out"
proof -
  obtain m where "out = Acts h msg user # [Reply msg m]" "wd_claimed s' = wd_claimed s"
    "wd_claimed_sender s' = wd_claimed_sender s" "wd_claimed_user s' = wd_claimed_user s"
    using assms(3) by (auto simp: deleted_def split: prod.splits)
  then show ?thesis using keeps_acts [OF assms(1,2), of "[Reply msg m]" s'] by simp
qed

text \<open>A handler that is entered with its checks passed.\<close>

definition admitted :: "device_env \<Rightarrow> device_output list \<Rightarrow> handler \<Rightarrow> dbus_message \<Rightarrow> WorkerDevice \<Rightarrow> bool" where
  "admitted env tr h msg s \<longleftrightarrow>
     h = Owner_changed
     \<or> (\<exists>sender. dm_sender msg = Some sender
         \<and> (if h \<in> {List_fingers, Delete_fingers, Claim} then \<exists>user. dm_username msg = Some user \<and> entitled env tr sender user
            else wd_claimed s \<and> wd_claimed_sender s = sender))"

lemma base_keeps:
  assumes "env_ok env" "known env tr s" "base_handle env answers msg s = Some (s', out)"
    "\<And>h. de_dispatch env msg = Some h \<Longrightarrow> admitted env tr h msg s"
  shows "keeps env tr s' out"
proof (cases "de_dispatch env msg")
  case None
  with assms show ?thesis by (auto simp: base_handle_def intro: keeps_silent)
next
  case (Some h)
  note run = assms(3) [unfolded base_handle_def Some, simplified]
  note adm = assms(4) [OF Some]
  have hold: "wd_claimed s \<Longrightarrow> holder tr = Some (wd_claimed_sender s, wd_claimed_user s)"
      "wd_claimed s \<Longrightarrow> entitled env tr (wd_claimed_sender s) (wd_claimed_user s)"
    using assms(2) by (simp_all add: known_def)
  have member: "dm_member msg \<in> set (members h)" using assms(1) Some by (simp add: env_ok_def)
  note quiet = keeps_silent [OF assms(2)]
  show ?thesis
  proof (cases h)
    case List_fingers
    with adm obtain sender user where u: "dm_username msg = Some user" "proper env tr (Acts List_fingers msg user)"
      by (auto simp: admitted_def for_claimed_def)
    with run List_fingers show ?thesis
      using keeps_acts [OF assms(2) u(2), of "[Reply msg r]" s for r] by (auto simp: list_enrolled_fingers_def)
  next
    case Delete_fingers
    with adm obtain sender user where u: "dm_username msg = Some user" "proper env tr (Acts Delete_fingers msg user)"
      by (auto simp: admitted_def for_claimed_def)
    with run Delete_fingers show ?thesis
      by (auto simp: delete_enrolled_fingers_def split: Option.bind_splits intro: deleted_keeps [OF assms(2) u(2)])
  next
    case Delete_fingers2
    with adm hold have p: "proper env tr (Acts Delete_fingers2 msg (wd_claimed_user s))" by (auto simp: admitted_def)
    from run Delete_fingers2 show ?thesis
      by (auto simp: delete_enrolled_fingers2_def split: Option.bind_splits intro: deleted_keeps [OF assms(2) p])
  next
    case Delete_finger
    with adm hold have p: "proper env tr (Acts Delete_finger msg (wd_claimed_user s))" by (auto simp: admitted_def)
    from run Delete_finger show ?thesis
      by (auto simp: delete_enrolled_finger_def split: Option.bind_splits list.splits dbus_arg.splits
          intro: deleted_keeps [OF assms(2) p] quiet)
  next
    case Claim
    show ?thesis
    proof (cases "wd_claimed s")
      case True
      with run Claim show ?thesis by (auto simp: claim_def intro: quiet)
    next
      case False
      with adm Claim obtain sender user where u: "dm_username msg = Some user" "dm_sender msg = Some sender"
        "entitled env tr sender user" by (auto simp: admitted_def)
      have "holder tr = None" using assms(2) False by (simp add: known_def)
      moreover have "holder (tr @ [Acts Claim msg user, Claimed sender user, Reply msg (Method_return [])]) = Some (sender, user)"
        by (simp add: holder_def)
      ultimately show ?thesis using run Claim False u
        entitled_append [OF u(3)] by (auto simp: claim_def keeps_def known_def for_claimed_def)
    qed
  next
    case Release
    with run obtain sender s1 out1 s2 out2 where r: "dm_sender msg = Some sender"
      "cancel_enroll_verify (s\<lparr>wd_listening := None\<rparr>) = (s1, out1)" "drop_auth_gates sender s1 = (s2, out2)"
      "s' = unclaim s2" "out = (out1 @ out2) @ Unclaimed msg # [Reply msg (Method_return [])]"
      by (auto simp: release_def split: Option.bind_splits prod.splits)
    have "proper env tr (Unclaimed msg)" using adm Release hold by (auto simp: admitted_def)
    then show ?thesis unfolding r(4,5) by (rule keeps_unclaim [OF assms(2) _ dropped_silent [OF r(2,3)]]) simp
  next
    case Start
    with adm hold have p: "proper env tr (Acts Start msg (wd_claimed_user s))" by (auto simp: admitted_def)
    from run Start show ?thesis
      by (auto simp: enroll_verify_start_def Let_def split: list.splits dbus_arg.splits if_splits
          intro: quiet intro!: keeps_acts [OF assms(2) p])
  next
    case Stop
    with run show ?thesis by (auto simp: enroll_verify_stop_def split: if_splits intro: quiet)
  next
    case Owner_changed
    then have run': "name_owner_changed msg s = (s', out)" using run by simp
    show ?thesis
    proof (cases "\<exists>name old rest. dm_args msg = Dbus_string name # Dbus_string old # Dbus_string [] # rest")
      case True
      then obtain name old rest where "dm_args msg = Dbus_string name # Dbus_string old # Dbus_string [] # rest" by blast
      with run' obtain s1 out1 s2 out2 where r:
        "cancel_enroll_verify s = (s1, out1)" "drop_auth_gates old s1 = (s2, out2)"
        "s' = unclaim s2" "out = (out1 @ out2) @ Unclaimed msg # [Stop_sensor]"
        by (auto simp: name_owner_changed_def split: prod.splits)
      have "proper env tr (Unclaimed msg)" using member Owner_changed by simp
      then show ?thesis unfolding r(3,4) by (rule keeps_unclaim [OF assms(2) _ dropped_silent [OF r(1,2)]]) simp
    next
      case False
      with run' have "s' = s \<and> out = []"
        by (auto simp: name_owner_changed_def split: list.splits dbus_arg.splits if_splits)
      then show ?thesis by (auto intro: quiet)
    qed
  qed
qed

lemma ascii_eq [simp]: "ascii a = ascii b \<longleftrightarrow> a = b"
proof -
  have "inj (\<lambda>c :: char. of_nat (of_char c) :: u8)"
  proof (rule injI)
    fix c d :: char assume "(of_nat (of_char c) :: u8) = of_nat (of_char d)"
    then have "unat (of_nat (of_char c) :: u8) = unat (of_nat (of_char d) :: u8)" by simp
    moreover have "(of_char c :: nat) < 256" "(of_char d :: nat) < 256" by (rule nat_of_char_less_256)+
    ultimately show "c = d" by (simp add: unat_of_nat take_bit_nat_eq_self)
  qed
  then show ?thesis by (simp add: ascii_def inj_map_eq_map)
qed

lemma member_names:
  assumes "env_ok env" "de_dispatch env msg = Some h" "h \<noteq> Owner_changed"
  shows "dm_member msg \<in> set method_names"
proof -
  have m: "dm_member msg \<in> set (members h)" using assms(1,2) by (simp add: env_ok_def)
  with assms(3) show ?thesis by (cases h) (auto simp: method_names_def)
qed

lemma hash_name:
  assumes "env_ok env" "de_dispatch env msg = Some h" "h \<noteq> Owner_changed" "name \<in> set method_names"
    "de_hash env (dm_member msg) = de_hash env name"
  shows "name \<in> set (members h)"
proof -
  have m: "dm_member msg \<in> set (members h)" using assms(1,2) by (simp add: env_ok_def)
  have "dm_member msg \<in> set method_names" by (rule member_names [OF assms(1-3)])
  moreover have "inj_on (de_hash env) (set method_names)" using assms(1) by (simp add: env_ok_def distinct_map)
  ultimately have "dm_member msg = name" using assms(4,5) by (auto simp: inj_on_def)
  with m show ?thesis by simp
qed

definition lookup_name :: "device_env \<Rightarrow> dbus_message \<Rightarrow> bool" where
  "lookup_name env msg \<longleftrightarrow> (\<exists>name \<in> {''ListEnrolledFingers'', ''Claim'', ''DeleteEnrolledFingers''}.
     de_hash env (dm_member msg) = de_hash env (ascii name))"

lemma lookup_handlers:
  assumes "env_ok env" "de_dispatch env msg = Some h" "lookup_name env msg"
  shows "h \<in> {List_fingers, Delete_fingers, Claim, Owner_changed}"
proof (rule ccontr)
  assume n: "\<not> ?thesis"
  then have "h \<noteq> Owner_changed" by simp
  from assms(3) obtain name where name: "name \<in> {''ListEnrolledFingers'', ''Claim'', ''DeleteEnrolledFingers''}"
    "de_hash env (dm_member msg) = de_hash env (ascii name)" by (auto simp: lookup_name_def)
  then have "ascii name \<in> set (members h)"
    by (intro hash_name [OF assms(1,2) \<open>h \<noteq> Owner_changed\<close> _ name(2)]) (auto simp: method_names_def)
  with n name(1) show False by (cases h) auto
qed

lemma sender_handlers:
  assumes "env_ok env" "de_dispatch env msg = Some h" "name \<in> {''EnrollStart'', ''DeleteEnrolledFinger'',
      ''DeleteEnrolledFingers2'', ''EnrollStop'', ''VerifyStop'', ''VerifyStart'', ''Release''}"
    "de_hash env (dm_member msg) = de_hash env (ascii name)"
  shows "h \<notin> {List_fingers, Delete_fingers, Claim}"
proof
  assume h: "h \<in> {List_fingers, Delete_fingers, Claim}"
  then have "h \<noteq> Owner_changed" by auto
  have "ascii name \<in> set method_names" using assms(3) by (auto simp: method_names_def)
  from hash_name [OF assms(1,2) \<open>h \<noteq> Owner_changed\<close> this assms(4)] h assms(3) show False by auto
qed

lemma other_handlers:
  assumes "env_ok env" "de_dispatch env msg = Some h"
    "\<And>name. ascii name \<in> set method_names \<Longrightarrow> de_hash env (dm_member msg) \<noteq> de_hash env (ascii name)"
  shows "h = Owner_changed"
proof (rule ccontr)
  assume n: "h \<noteq> Owner_changed"
  from member_names [OF assms(1,2) n] obtain name where "dm_member msg = ascii name" "ascii name \<in> set method_names"
    unfolding method_names_def set_map by blast
  with assms(3) show False by metis
qed

text \<open>The messages the device keeps carry their sender, and a parked call was routed to the lookup.\<close>

definition stamped :: "dbus_message \<Rightarrow> bool" where
  "stamped msg \<longleftrightarrow> dm_sender msg \<noteq> None"

definition kept_ok :: "device_env \<Rightarrow> WorkerDevice \<Rightarrow> bool" where
  "kept_ok env s \<longleftrightarrow> list_all stamped (wd_queue s) \<and> list_all (\<lambda>(i, t). stamped (wp_message t)) (wd_tasks s)
     \<and> (case wd_parked s of None \<Rightarrow> True | Some msg \<Rightarrow> stamped msg \<and> lookup_name env msg)"

lemma check_sender_keeps:
  assumes "env_ok env" "known env tr s" "check_sender env answers msg s = Some (s', out)"
    "name \<in> {''EnrollStart'', ''DeleteEnrolledFinger'', ''DeleteEnrolledFingers2'', ''EnrollStop'', ''VerifyStop'',
      ''VerifyStart'', ''Release''}"
    "de_hash env (dm_member msg) = de_hash env (ascii name)"
  shows "keeps env tr s' out"
proof -
  have "keeps env tr s' out" if "base_handle env answers msg s = Some (s', out)" "wd_claimed s"
    "dm_sender msg = Some (wd_claimed_sender s)"
    by (rule base_keeps [OF assms(1,2) that(1)])
      (use that sender_handlers [OF assms(1) _ assms(4,5)] in \<open>auto simp: admitted_def\<close>)
  then show ?thesis
    using assms(3) by (auto simp: check_sender_def split: if_splits option.splits intro: keeps_silent [OF assms(2)])
qed

lemma check_uid_keeps:
  assumes "env_ok env" "known env tr s" "check_uid env answers unix_user msg s = Some (s', out)"
    "stamped msg" "lookup_name env msg"
  shows "keeps env tr s' out"
proof -
  obtain sender where sender: "dm_sender msg = Some sender" using assms(4) by (auto simp: stamped_def)
  have step: "keeps env tr s' (Entitled msg uid u # o1)"
    if b: "base_handle env answers (msg\<lparr>dm_username := Some u\<rparr>) s = Some (s', o1)"
      and p: "de_passwd env uid = Some u \<or> uid = 0" for uid u o1
  proof -
    let ?tr = "tr @ [Entitled msg uid u]"
    have known: "known env ?tr s"
      using assms(2) entitled_append by (auto simp: known_def)
    have ent: "entitled env ?tr sender u" using p sender by (auto simp: entitled_def)
    have "admitted env ?tr h (msg\<lparr>dm_username := Some u\<rparr>) s" if "de_dispatch env (msg\<lparr>dm_username := Some u\<rparr>) = Some h" for h
    proof -
      have "de_dispatch env msg = Some h" using that assms(1) by (simp add: env_ok_def)
      from lookup_handlers [OF assms(1) this assms(5)] ent sender show ?thesis by (auto simp: admitted_def)
    qed
    from base_keeps [OF assms(1) known b this] show ?thesis by (simp add: keeps_def)
  qed
  show ?thesis
  proof (cases "\<exists>uid username rest pw. unix_user = Uid uid \<and> dm_args msg = Dbus_string username # rest \<and> de_passwd env uid = Some pw
      \<and> (pw = (if username = [] then pw else username) \<or> uid = 0)")
    case True
    then obtain uid username rest pw where c: "unix_user = Uid uid" "dm_args msg = Dbus_string username # rest"
      "de_passwd env uid = Some pw" "pw = (if username = [] then pw else username) \<or> uid = 0" by blast
    define u where "u = (if username = [] then pw else username)"
    obtain o1 where o: "base_handle env answers (msg\<lparr>dm_username := Some u\<rparr>) s = Some (s', o1)" "out = Entitled msg uid u # o1"
      using assms(3) c(4) unfolding check_uid_def c(1,2) uid_reply.case list.case dbus_arg.case c(3) option.case
      by (auto simp: Let_def u_def [symmetric] split: Option.bind_splits if_splits)
    have "de_passwd env uid = Some u \<or> uid = 0" using c(3,4) by (auto simp: u_def)
    from step [OF o(1) this] o(2) show ?thesis by simp
  next
    case False
    then have "s' = s \<and> list_all silent out"
      using assms(3) by (auto simp: check_uid_def Let_def split: uid_reply.splits list.splits dbus_arg.splits option.splits if_splits)
    then show ?thesis by (auto intro: keeps_silent [OF assms(2)])
  qed
qed

lemma drop_auth_gates_kept:
  assumes "drop_auth_gates sender s = (s', out)"
  shows "wd_queue s' = wd_queue s \<and> wd_parked s' = wd_parked s \<and> set (wd_tasks s') \<subseteq> set (wd_tasks s)"
  using assms by (auto simp: drop_auth_gates_def cancel_tasks_def split: prod.splits)

lemma base_kept:
  assumes "base_handle env answers msg s = Some (s', out)"
  shows "wd_queue s' = wd_queue s \<and> wd_parked s' = wd_parked s \<and> set (wd_tasks s') \<subseteq> set (wd_tasks s)"
proof (cases "de_dispatch env msg")
  case None
  with assms show ?thesis by (auto simp: base_handle_def)
next
  case (Some h)
  note run = assms [unfolded base_handle_def Some, simplified]
  have del: "wd_queue s' = wd_queue s \<and> wd_parked s' = wd_parked s \<and> set (wd_tasks s') \<subseteq> set (wd_tasks s)"
    if "deleted msg failure r s o1 = Some (s', out)" for failure r o1
    using that by (auto simp: deleted_def split: prod.splits)
  show ?thesis
  proof (cases h)
    case List_fingers
    with run show ?thesis by (auto simp: list_enrolled_fingers_def split: Option.bind_splits)
  next
    case Delete_fingers
    with run show ?thesis by (auto simp: delete_enrolled_fingers_def split: Option.bind_splits dest: del)
  next
    case Delete_fingers2
    with run show ?thesis by (auto simp: delete_enrolled_fingers2_def split: Option.bind_splits dest: del)
  next
    case Delete_finger
    with run show ?thesis
      by (auto simp: delete_enrolled_finger_def split: Option.bind_splits list.splits dbus_arg.splits dest: del)
  next
    case Claim
    with run show ?thesis by (auto simp: claim_def split: Option.bind_splits if_splits)
  next
    case Release
    with run obtain sender s1 out1 s2 out2 where r: "cancel_enroll_verify (s\<lparr>wd_listening := None\<rparr>) = (s1, out1)"
      "drop_auth_gates sender s1 = (s2, out2)" "s' = unclaim s2"
      by (auto simp: release_def split: Option.bind_splits prod.splits)
    then show ?thesis using cancel_enroll_verify_frame [OF r(1)] drop_auth_gates_kept [OF r(2)] by (simp add: unclaim_def)
  next
    case Start
    with run show ?thesis by (auto simp: enroll_verify_start_def Let_def split: list.splits dbus_arg.splits if_splits)
  next
    case Stop
    with run show ?thesis by (auto simp: enroll_verify_stop_def split: if_splits)
  next
    case Owner_changed
    then have run': "name_owner_changed msg s = (s', out)" using run by simp
    show ?thesis
    proof (cases "\<exists>name old rest. dm_args msg = Dbus_string name # Dbus_string old # Dbus_string [] # rest")
      case True
      then obtain name old rest where "dm_args msg = Dbus_string name # Dbus_string old # Dbus_string [] # rest" by blast
      with run' obtain s1 out1 s2 out2 where r: "cancel_enroll_verify s = (s1, out1)" "drop_auth_gates old s1 = (s2, out2)"
        "s' = unclaim s2" by (auto simp: name_owner_changed_def split: prod.splits)
      then show ?thesis using cancel_enroll_verify_frame [OF r(1)] drop_auth_gates_kept [OF r(2)] by (simp add: unclaim_def)
    next
      case False
      with run' show ?thesis by (auto simp: name_owner_changed_def split: list.splits dbus_arg.splits if_splits)
    qed
  qed
qed

lemma kept_same:
  "kept_ok env s \<Longrightarrow> wd_queue s' = wd_queue s \<and> wd_parked s' = wd_parked s \<and> set (wd_tasks s') \<subseteq> set (wd_tasks s)
    \<Longrightarrow> kept_ok env s'"
  by (auto simp: kept_ok_def list_all_iff)

lemma check_sender_kept:
  "check_sender env answers msg s = Some (s', out) \<Longrightarrow> kept_ok env s \<Longrightarrow> kept_ok env s'"
  using kept_same base_kept by (auto simp: check_sender_def split: if_splits option.splits) (metis+)?

lemma check_uid_kept:
  assumes "check_uid env answers unix_user msg s = Some (s', out)" "kept_ok env s"
  shows "kept_ok env s'"
proof -
  have "s' = s \<or> (\<exists>m o1. base_handle env answers m s = Some (s', o1))"
    using assms(1) by (auto simp: check_uid_def Let_def split: uid_reply.splits list.splits dbus_arg.splits option.splits
        if_splits Option.bind_splits)
  then show ?thesis using assms(2) kept_same base_kept by metis
qed

text \<open>A message goes one of four ways.\<close>

lemma handle_routes:
  assumes "handle_message env answers msg s = Some (s', out)"
  obtains "get_uid msg s = Some (s', out)" "lookup_name env msg"
  | name where "check_polkit env answers msg s = Some (s', out)"
      "name \<in> {''EnrollStart'', ''DeleteEnrolledFinger'', ''DeleteEnrolledFingers'', ''DeleteEnrolledFingers2''}"
      "de_hash env (dm_member msg) = de_hash env (ascii name)"
  | name where "check_sender env answers msg s = Some (s', out)"
      "name \<in> {''EnrollStop'', ''VerifyStop'', ''VerifyStart'', ''Release''}"
      "de_hash env (dm_member msg) = de_hash env (ascii name)"
  | "base_handle env answers msg s = Some (s', out)"
      "\<And>name. ascii name \<in> set method_names \<Longrightarrow> de_hash env (dm_member msg) \<noteq> de_hash env (ascii name)"
proof -
  let ?is = "\<lambda>names. de_hash env (dm_member msg) \<in> set (map (\<lambda>name. de_hash env (ascii name)) names)"
  let ?a = "[''ListEnrolledFingers'', ''Claim'']"
  let ?b = "[''EnrollStart'', ''DeleteEnrolledFinger'', ''DeleteEnrolledFingers'', ''DeleteEnrolledFingers2'']"
  let ?c = "[''EnrollStop'', ''VerifyStop'', ''VerifyStart'', ''Release'']"
  note run = assms [unfolded handle_message_def Let_def]
  have all: "method_names = map ascii (?a @ ?b @ ?c)" by (simp add: method_names_def)
  consider (a) "?is ?a" | (b) "\<not> ?is ?a" "?is ?b" | (c) "\<not> ?is ?a" "\<not> ?is ?b" "?is ?c" | (d) "\<not> ?is ?a" "\<not> ?is ?b" "\<not> ?is ?c"
    by blast
  then show thesis
  proof cases
    case a
    then have "lookup_name env msg" by (auto simp: lookup_name_def)
    with a run that(1) show thesis by (simp only: if_True)
  next
    case b
    then obtain name where "name \<in> set ?b" "de_hash env (dm_member msg) = de_hash env (ascii name)"
      unfolding set_map by blast
    with b run that(2) show thesis by (simp only: if_True if_False set_simps)
  next
    case c
    then obtain name where "name \<in> set ?c" "de_hash env (dm_member msg) = de_hash env (ascii name)"
      unfolding set_map by blast
    with c run that(3) show thesis by (simp only: if_True if_False set_simps)
  next
    case d
    then have base: "base_handle env answers msg s = Some (s', out)" using run by (simp only: if_False)
    have "de_hash env (dm_member msg) \<noteq> de_hash env (ascii name)" if "ascii name \<in> set method_names" for name
    proof -
      have "name \<in> set (?a @ ?b @ ?c)" using that unfolding all set_map by auto
      then show ?thesis using d unfolding set_append set_map by blast
    qed
    then show thesis by (rule that(4) [OF base])
  qed
qed

lemma polkit_keeps:
  assumes "env_ok env" "known env tr s" "kept_ok env s" "check_polkit env answers msg s = Some (s', out)" "stamped msg"
    "name \<in> {''EnrollStart'', ''DeleteEnrolledFinger'', ''DeleteEnrolledFingers'', ''DeleteEnrolledFingers2''}"
    "de_hash env (dm_member msg) = de_hash env (ascii name)"
  shows "keeps env tr s' out \<and> kept_ok env s'"
proof -
  obtain sender where sender: "dm_sender msg = Some sender" using assms(5) by (auto simp: stamped_def)
  let ?key = "gate_key sender (dm_serial msg)"
  show ?thesis
  proof (cases "map_of (wd_gates s) ?key")
    case None
    then show ?thesis
      using assms(3-5) sender
      by (auto simp: check_polkit_def Let_def kept_ok_def stamped_def split: if_splits intro: keeps_silent [OF assms(2)])
  next
    case e: (Some e)
    define s1 where "s1 = s\<lparr>wd_gates := AList.delete ?key (wd_gates s),
        wd_tasks := if de_owned env then AList.delete (ag_task e) (wd_tasks s) else wd_tasks s\<rparr>"
    have s1: "known env tr s1" using assms(2) by (simp add: known_def s1_def)
    have "set (wd_tasks s1) \<subseteq> set (wd_tasks s)" using delete_subset by (auto simp: s1_def)
    then have k1: "kept_ok env s1" by (intro kept_same [OF assms(3)]) (simp add: s1_def)
    note run = assms(4) [unfolded check_polkit_def sender option.case Let_def e, folded s1_def]
    show ?thesis
    proof (cases "ag_state e = Authorized")
      case False
      with run have "s' = s1" "out = []" by simp_all
      with s1 k1 show ?thesis by (auto intro: keeps_silent [OF s1])
    next
      case True
      show ?thesis
      proof (cases "de_hash env (dm_member msg) = de_hash env (ascii ''DeleteEnrolledFingers'')")
        case uid: True
        with run True sender have "s' = s1\<lparr>wd_parked := Some msg\<rparr>" "out = [Lookup msg]" by (simp_all add: get_uid_def)
        moreover have "lookup_name env msg" using uid by (auto simp: lookup_name_def)
        ultimately show ?thesis using k1 assms(5) by (auto simp: kept_ok_def intro: keeps_silent [OF s1])
      next
        case False
        with run True have c: "check_sender env answers msg s1 = Some (s', out)" by simp
        have "name \<noteq> ''DeleteEnrolledFingers''" using False assms(7) by auto
        with assms(6) have "keeps env tr s' out" by (intro check_sender_keeps [OF assms(1) s1 c _ assms(7)]) auto
        with check_sender_kept [OF c k1] show ?thesis by simp
      qed
    qed
  qed
qed

lemma handle_keeps:
  assumes "env_ok env" "known env tr s" "kept_ok env s" "handle_message env answers msg s = Some (s', out)" "stamped msg"
    "wd_parked s = None"
  shows "keeps env tr s' out \<and> kept_ok env s'"
  using assms(4)
proof (cases rule: handle_routes)
  case 1
  with assms(3,5) show ?thesis
    by (auto simp: get_uid_def kept_ok_def split: option.splits intro: keeps_silent [OF assms(2)])
next
  case (2 name)
  then show ?thesis by (rule polkit_keeps [OF assms(1-3) _ assms(5)])
next
  case (3 name)
  then have "keeps env tr s' out" by (intro check_sender_keeps [OF assms(1,2) 3(1) _ 3(3)]) auto
  with check_sender_kept [OF 3(1) assms(3)] show ?thesis by simp
next
  case 4
  have "keeps env tr s' out"
    by (rule base_keeps [OF assms(1,2) 4(1)]) (use other_handlers [OF assms(1) _ 4(2)] in \<open>simp add: admitted_def\<close>)
  with kept_same [OF assms(3) base_kept [OF 4(1)]] show ?thesis by simp
qed

lemma update_subset: "set (AList.update k v xs) \<subseteq> insert (k, v) (set xs)"
  by (induction xs) auto

lemma resolve_kept:
  assumes "kept_ok env s"
  shows "kept_ok env (on_resolved key v (s\<lparr>wd_tasks := AList.delete task (wd_tasks s)\<rparr>))"
    "wd_claimed (on_resolved key v s1) = wd_claimed s1" "wd_claimed_sender (on_resolved key v s1) = wd_claimed_sender s1"
    "wd_claimed_user (on_resolved key v s1) = wd_claimed_user s1" "wd_queue (on_resolved key v s1) = wd_queue s1"
proof -
  have "set (AList.delete task (wd_tasks s)) \<subseteq> set (wd_tasks s)" by (auto simp: AList.delete_eq)
  then show "kept_ok env (on_resolved key v (s\<lparr>wd_tasks := AList.delete task (wd_tasks s)\<rparr>))"
    by (intro kept_same [OF assms]) (auto simp: on_resolved_def split: option.split)
qed (auto simp: on_resolved_def split: option.split)

lemma deny_keeps:
  assumes "known env tr s" "kept_ok env s" "deny task msg sender s = (s', out)"
  shows "keeps env tr s' out \<and> kept_ok env s'"
  using assms(3) resolve_kept(1) [OF assms(2)]
  by (auto simp: deny_def resolve_kept(2-4) [OF assms(2)] intro: keeps_silent [OF assms(1)])

lemma step_keeps:
  assumes "env_ok env" "known env tr s" "kept_ok env s" "device_allowed op s" "device_exec env op s = Some (s', out)"
  shows "keeps env tr s' out \<and> kept_ok env s'"
proof -
  note quiet = keeps_silent [OF assms(2)]
  show ?thesis
  proof (cases op)
    case (Call msg)
    with assms show ?thesis by (auto simp: kept_ok_def stamped_def intro: quiet)
  next
    case (Signal msg)
    with assms show ?thesis by (auto simp: kept_ok_def stamped_def split: option.splits if_splits intro: quiet)
  next
    case (Power_signal msg)
    with assms show ?thesis
      by (auto simp: power_changed_def kept_ok_def split: option.splits if_splits list.splits dbus_arg.splits intro: quiet)
  next
    case (Dispatch answers)
    then obtain msg queue where q: "wd_queue s = msg # queue" "wd_parked s = None" using assms(4) by (cases "wd_queue s") auto
    have h: "handle_message env answers msg (s\<lparr>wd_queue := queue\<rparr>) = Some (s', out)" using Dispatch assms(5) q by simp
    have "known env tr (s\<lparr>wd_queue := queue\<rparr>)" using assms(2) by (simp add: known_def)
    moreover have "kept_ok env (s\<lparr>wd_queue := queue\<rparr>)" "stamped msg" using assms(3) q by (simp_all add: kept_ok_def)
    ultimately show ?thesis using handle_keeps [OF assms(1) _ _ h] q by simp
  next
    case (Uid_reply unix_user answers)
    then obtain msg where p: "wd_parked s = Some msg" using assms(4) by auto
    have c: "check_uid env answers unix_user msg (s\<lparr>wd_parked := None\<rparr>) = Some (s', out)" using Uid_reply assms(5) p by simp
    have k: "known env tr (s\<lparr>wd_parked := None\<rparr>)" "kept_ok env (s\<lparr>wd_parked := None\<rparr>)" "stamped msg" "lookup_name env msg"
      using assms(2,3) p by (simp_all add: kept_ok_def known_def)
    show ?thesis using check_uid_keeps [OF assms(1) k(1) c k(3,4)] check_uid_kept [OF c k(2)] by simp
  next
    case (Send_check call task)
    then obtain t where t: "map_of (wd_tasks s) task = Some t" using assms(4) by (auto split: option.splits)
    have "(task, t) \<in> set (wd_tasks s)" by (rule map_of_SomeD [OF t])
    then have st: "stamped (wp_message t)" using assms(3) by (auto simp: kept_ok_def list_all_iff)
    have "list_all (\<lambda>(i, t). stamped (wp_message t)) (AList.update task (t\<lparr>wp_sent := True\<rparr>) (wd_tasks s))"
      using assms(3) st by (auto simp: kept_ok_def list_all_iff dest!: update_subset [THEN subsetD])
    then show ?thesis
      using assms(3,5) Send_check t
      by (auto simp: send_check_def kept_ok_def split: option.splits if_splits
          intro: quiet dest: deny_keeps [OF assms(2,3)])
  next
    case (Check_done r task)
    then obtain t where t: "map_of (wd_tasks s) task = Some t" using assms(4) by (auto split: option.splits)
    have "(task, t) \<in> set (wd_tasks s)" by (rule map_of_SomeD [OF t])
    then have st: "stamped (wp_message t)" using assms(3) by (auto simp: kept_ok_def list_all_iff)
    show ?thesis
    proof (cases "positive r")
      case False
      then show ?thesis using assms(5) Check_done t deny_keeps [OF assms(2,3)] by (simp add: check_done_def Let_def)
    next
      case True
      obtain key a n where "s' = (on_resolved key True (s\<lparr>wd_tasks := AList.delete task (wd_tasks s)\<rparr>))
          \<lparr>wd_queue := wd_queue s @ [wp_message t]\<rparr>" "out = [Verdict a n True]"
        using assms(5) Check_done t True by (auto simp: check_done_def Let_def resolve_kept(5) [OF assms(3)])
      then show ?thesis
        using resolve_kept(1) [OF assms(3), of key True task] st assms(3)
        by (auto simp: kept_ok_def resolve_kept(2-5) [OF assms(3)] intro: quiet)
    qed
  qed (use assms in \<open>auto simp: kept_ok_def intro: quiet\<close>)
qed

lemma run_keeps:
  assumes "env_ok env" "device_run env (device_initial storage file) tr s"
  shows "proper_after env [] tr \<and> known env tr s \<and> kept_ok env s"
  using assms(2)
proof induction
  case start
  then show ?case by (simp add: known_def kept_ok_def device_initial_def holder_def)
next
  case (step tr s op s' out)
  then show ?case using step_keeps [OF assms(1) _ _ step.hyps(2,3), of tr] by (simp add: keeps_def)
qed

text \<open>(C12) The methods act for the right user. In every run of the device, whatever clients send and
  however lookups, checks and messages interleave: a method that reads, changes or enrolls fingerprints
  acts for a user that its sender is entitled to (the bus has named the sender's uid, and it is the
  uid of that user, or root); enrolling, verifying and deleting the claimed user's fingerprints happens
  only for the sender that holds the device, and for the user it holds it as; the device is claimed only
  while nobody holds it and for such a user; and a claim ends only by its holder, or by a message that
  reports an owner change.\<close>

theorem calls_entitled:
  assumes "env_ok env" "device_run env (device_initial storage file) (tr @ out # later) s"
  shows "case out of
      Acts h msg user \<Rightarrow> \<exists>sender. dm_sender msg = Some sender \<and> entitled env tr sender user
        \<and> (for_claimed h \<longrightarrow> holder tr = Some (sender, user))
    | Claimed sender user \<Rightarrow> holder tr = None \<and> entitled env tr sender user
    | Unclaimed msg \<Rightarrow> dm_member msg = ascii ''NameOwnerChanged''
        \<or> (\<exists>sender user. dm_sender msg = Some sender \<and> holder tr = Some (sender, user))
    | _ \<Rightarrow> True"
proof -
  have "proper env tr out" using run_keeps [OF assms] by simp
  then show ?thesis by (cases out) simp_all
qed

subsection \<open>The device never uses what is not there\<close>

fun op_answers :: "device_op \<Rightarrow> save_answers option" where
  "op_answers (Dispatch answers) = Some answers"
| "op_answers (Uid_reply unix_user answers) = Some answers"
| "op_answers _ = None"

lemma deleted_total [simp]: "deleted msg failure r s out \<noteq> None"
  by (cases r) (simp add: deleted_def)

lemma base_total:
  assumes "\<And>db. save (de_seal env) answers (wd_storage s\<lparr>fs_fingerprints := db\<rparr>) (wd_file s) \<noteq> None"
    "\<And>h. de_dispatch env msg = Some h \<Longrightarrow> admitted env tr h msg s"
  shows "base_handle env answers msg s \<noteq> None"
proof (cases "de_dispatch env msg")
  case None
  then show ?thesis by (simp add: base_handle_def)
next
  case (Some h)
  have d: "delete_all (de_seal env) answers user (wd_storage s) (wd_file s) = None \<Longrightarrow> False" for user
    using assms(1) committed_None unfolding delete_all_def by blast
  have f: "delete_fingerprint (de_seal env) answers user name (wd_storage s) (wd_file s) = None \<Longrightarrow> False" for user name
    using assms(1) committed_None unfolding delete_fingerprint_def by (metis option.distinct(1))
  have del: "r \<bind> (\<lambda>r. deleted msg failure r s out) = None \<Longrightarrow> r = None" for r failure out
    using deleted_total by (cases r) auto
  note adm = assms(2) [OF Some]
  show ?thesis
  proof
    assume none: "base_handle env answers msg s = None"
    note run = none [unfolded base_handle_def Some, simplified]
    show False
    proof (cases h)
      case List_fingers
      with run adm show False by (auto simp: list_enrolled_fingers_def admitted_def)
    next
      case Delete_fingers
      with run adm show False by (auto simp: delete_enrolled_fingers_def admitted_def dest!: del d)
    next
      case Delete_fingers2
      with run show False by (auto simp: delete_enrolled_fingers2_def dest!: del d)
    next
      case Delete_finger
      with run show False
        by (auto simp: delete_enrolled_finger_def dest!: del f split: list.splits dbus_arg.splits)
    next
      case Claim
      with run adm show False by (auto simp: claim_def admitted_def split: if_splits)
    next
      case Release
      with run adm show False by (auto simp: release_def admitted_def Let_def split: prod.splits)
    qed (use run in simp_all)
  qed
qed

lemma handle_total:
  assumes "env_ok env" "\<And>db. save (de_seal env) answers (wd_storage s\<lparr>fs_fingerprints := db\<rparr>) (wd_file s) \<noteq> None" "stamped msg"
  shows "handle_message env answers msg s \<noteq> None"
proof -
  obtain sender where sender: "dm_sender msg = Some sender" using assms(3) by (auto simp: stamped_def)
  have uid: "get_uid msg s1 \<noteq> None" for s1 using sender by (simp add: get_uid_def)
  have snd: "check_sender env answers msg s1 \<noteq> None"
    if "name \<in> {''EnrollStart'', ''DeleteEnrolledFinger'', ''DeleteEnrolledFingers2'', ''EnrollStop'', ''VerifyStop'', ''VerifyStart'', ''Release''}"
      "de_hash env (dm_member msg) = de_hash env (ascii name)" "wd_storage s1 = wd_storage s" "wd_file s1 = wd_file s" for name s1
  proof -
    have "base_handle env answers msg s1 \<noteq> None" if "wd_claimed s1" "wd_claimed_sender s1 = sender"
      by (rule base_total [where tr = "[]"])
        (use assms(2) that sender sender_handlers [OF assms(1) _ \<open>name \<in> _\<close> \<open>de_hash env (dm_member msg) = _\<close>]
          \<open>wd_storage s1 = _\<close> \<open>wd_file s1 = _\<close> in \<open>auto simp: admitted_def simp del: not_None_eq\<close>)
    then show ?thesis using sender by (simp add: check_sender_def del: not_None_eq)
  qed
  have pk: "check_polkit env answers msg s \<noteq> None"
    if n: "name \<in> {''EnrollStart'', ''DeleteEnrolledFinger'', ''DeleteEnrolledFingers'', ''DeleteEnrolledFingers2''}"
      "de_hash env (dm_member msg) = de_hash env (ascii name)" for name
  proof (cases "map_of (wd_gates s) (gate_key sender (dm_serial msg))")
    case None
    then show ?thesis by (simp add: check_polkit_def sender Let_def)
  next
    case (Some e)
    have "check_sender env answers msg s1 \<noteq> None"
      if "wd_storage s1 = wd_storage s" "wd_file s1 = wd_file s"
        "de_hash env (dm_member msg) \<noteq> de_hash env (ascii ''DeleteEnrolledFingers'')" for s1
      by (rule snd [OF _ n(2) that(1,2)]) (use that(3) n in auto)
    then show ?thesis using uid by (simp add: check_polkit_def sender Some Let_def del: not_None_eq)
  qed
  show ?thesis
  proof
    assume none: "handle_message env answers msg s = None"
    let ?is = "\<lambda>names. de_hash env (dm_member msg) \<in> set (map (\<lambda>name. de_hash env (ascii name)) names)"
    let ?a = "[''ListEnrolledFingers'', ''Claim'']"
    let ?b = "[''EnrollStart'', ''DeleteEnrolledFinger'', ''DeleteEnrolledFingers'', ''DeleteEnrolledFingers2'']"
    let ?c = "[''EnrollStop'', ''VerifyStop'', ''VerifyStart'', ''Release'']"
    note run = none [unfolded handle_message_def Let_def]
    have all: "method_names = map ascii (?a @ ?b @ ?c)" by (simp add: method_names_def)
    have "\<not> ?is ?a" using run uid by (metis (no_types, lifting))
    moreover have "\<not> ?is ?b"
    proof
      assume b: "?is ?b"
      then obtain name where "name \<in> set ?b" "de_hash env (dm_member msg) = de_hash env (ascii name)" unfolding set_map by blast
      have "check_polkit env answers msg s \<noteq> None" by (rule pk [OF _ \<open>de_hash env (dm_member msg) = _\<close>]) (use \<open>name \<in> _\<close> in simp)
      then show False using run \<open>\<not> ?is ?a\<close> b by (simp only: if_True if_False)
    qed
    moreover have "\<not> ?is ?c"
    proof
      assume c: "?is ?c"
      then obtain name where n: "name \<in> set ?c" "de_hash env (dm_member msg) = de_hash env (ascii name)" unfolding set_map by blast
      have "check_sender env answers msg s \<noteq> None" by (rule snd [OF _ n(2)]) (use n(1) in auto)
      then show False using run \<open>\<not> ?is ?a\<close> \<open>\<not> ?is ?b\<close> c by (simp only: if_True if_False)
    qed
    ultimately have "base_handle env answers msg s = None" using run by (simp only: if_False)
    moreover have "admitted env [] h msg s" if "de_dispatch env msg = Some h" for h
    proof -
      have "de_hash env (dm_member msg) \<noteq> de_hash env (ascii name)" if "ascii name \<in> set method_names" for name
      proof -
        have "name \<in> set (?a @ ?b @ ?c)" using that unfolding all set_map by auto
        then show ?thesis using \<open>\<not> ?is ?a\<close> \<open>\<not> ?is ?b\<close> \<open>\<not> ?is ?c\<close> unfolding set_append set_map by blast
      qed
      with other_handlers [OF assms(1) that] show ?thesis by (simp add: admitted_def)
    qed
    ultimately show False using base_total [OF assms(2)] by blast
  qed
qed

lemma check_uid_total:
  assumes "env_ok env" "\<And>db. save (de_seal env) answers (wd_storage s\<lparr>fs_fingerprints := db\<rparr>) (wd_file s) \<noteq> None"
    "stamped msg" "lookup_name env msg"
  shows "check_uid env answers unix_user msg s \<noteq> None"
proof -
  obtain sender where sender: "dm_sender msg = Some sender" using assms(3) by (auto simp: stamped_def)
  have "base_handle env answers (msg\<lparr>dm_username := Some u\<rparr>) s \<noteq> None" for u
  proof (rule base_total [OF assms(2)])
    fix h assume "de_dispatch env (msg\<lparr>dm_username := Some u\<rparr>) = Some h"
    then have "de_dispatch env msg = Some h" using assms(1) by (simp add: env_ok_def)
    from lookup_handlers [OF assms(1) this assms(4)] sender
    show "admitted env [Entitled msg 0 u] h (msg\<lparr>dm_username := Some u\<rparr>) s" by (auto simp: admitted_def entitled_def)
  qed
  moreover have "\<exists>u. base_handle env answers (msg\<lparr>dm_username := Some u\<rparr>) s = None"
    if "check_uid env answers unix_user msg s = None"
    using that by (auto simp: check_uid_def Let_def split: uid_reply.splits list.splits dbus_arg.splits option.splits
        if_splits Option.bind_splits)
  ultimately show ?thesis by blast
qed


subsection \<open>Runs of a concrete device\<close>

fun device_runs :: "device_env \<Rightarrow> device_op list \<Rightarrow> device_output list \<Rightarrow> WorkerDevice \<Rightarrow> (device_output list \<times> WorkerDevice) option" where
  "device_runs env [] tr s = Some (tr, s)"
| "device_runs env (op # ops) tr s =
     (if \<not> device_allowed op s then None
      else do { (s', out) \<leftarrow> device_exec env op s; device_runs env ops (tr @ out) s' })"

lemma device_runs_run:
  "device_run env s0 tr s \<Longrightarrow> device_runs env ops tr s = Some (tr', s') \<Longrightarrow> device_run env s0 tr' s'"
proof (induction ops arbitrary: tr s)
  case (Cons op ops)
  then obtain s1 out where r: "device_allowed op s" "device_exec env op s = Some (s1, out)"
      "device_runs env ops (tr @ out) s1 = Some (tr', s')"
    by (auto split: if_splits Option.bind_splits)
  show ?case by (rule Cons.IH [OF device_run.step [OF Cons.prems(1) r(1,2)] r(3)])
qed simp

definition sample_dispatch :: "dbus_message \<Rightarrow> handler option" where
  "sample_dispatch msg =
     find (\<lambda>h. dm_member msg \<in> set (members h))
       [List_fingers, Delete_fingers, Delete_fingers2, Delete_finger, Claim, Release, Start, Stop, Owner_changed]"

definition sample_env :: device_env where
  "sample_env = \<lparr>de_hash = (\<lambda>name. length (takeWhile (\<lambda>n. n \<noteq> name) method_names)), de_dispatch = sample_dispatch,
     de_passwd = (\<lambda>uid. if uid = 1000 then Some (ascii ''ada'') else None), de_seal = plain_seal, de_owned = True\<rparr>"

lemma sample_env_ok: "env_ok sample_env"
proof -
  have "distinct (map (de_hash sample_env) method_names)"
    by (simp add: sample_env_def method_names_def)
  then show ?thesis
    by (auto simp: env_ok_def sample_env_def sample_dispatch_def find_Some_iff dest: nth_mem)
qed

definition sample_call :: "string \<Rightarrow> u32 \<Rightarrow> string \<Rightarrow> u8 list \<Rightarrow> dbus_message" where
  "sample_call sender serial member arg =
     \<lparr>dm_signal = False, dm_sender = Some (ascii sender), dm_serial = serial,
      dm_interface = ascii ''net.reactivated.Fprint.Device'', dm_path = [], dm_member = ascii member,
      dm_args = [Dbus_string arg], dm_username = None\<rparr>"

definition sample_ops :: "device_op list" where
  "sample_ops =
     [Reader True, Call (sample_call '':1.5'' 1 ''Claim'' []), Dispatch (good_answers 1), Uid_reply (Uid 1000) (good_answers 1),
      Call (sample_call '':1.5'' 2 ''EnrollStart'' (ascii ''left-thumb'')), Dispatch (good_answers 1),
      Send_check True 0, Check_done (Polkit_return [Dbus_struct [Dbus_boolean True, Dbus_boolean False]]) 0,
      Dispatch (good_answers 1)]"

lemma sample_hash:
  "de_hash sample_env (ascii ''Claim'') = 1" "de_hash sample_env (ascii ''EnrollStart'') = 2"
  "de_hash sample_env (ascii ''DeleteEnrolledFingers'') = 4" "de_hash sample_env (ascii ''ListEnrolledFingers'') = 0"
  "de_hash sample_env (ascii ''DeleteEnrolledFinger'') = 3" "de_hash sample_env (ascii ''DeleteEnrolledFingers2'') = 5"
  "de_hash sample_env (ascii ''EnrollStop'') = 6" "de_hash sample_env (ascii ''VerifyStop'') = 7"
  "de_hash sample_env (ascii ''VerifyStart'') = 8" "de_hash sample_env (ascii ''Release'') = 9"
  "de_hash sample_env (ascii ''NameOwnerChanged'') = 10"
  by (simp_all add: sample_env_def method_names_def)

lemma sample_fields: "de_dispatch sample_env = sample_dispatch" "de_seal sample_env = plain_seal" "de_owned sample_env"
  "de_passwd sample_env uid = (if uid = 1000 then Some (ascii ''ada'') else None)"
  by (simp_all add: sample_env_def)

lemmas device_defs = device_initial_def sample_call_def handle_message_def sample_hash sample_fields get_uid_def check_uid_def
  check_polkit_def check_sender_def base_handle_def claim_def enroll_verify_start_def send_check_def check_done_def deny_def
  on_resolved_def positive_def Let_def gate_key_eq

lemma sample_run:
  "\<exists>m s. device_runs sample_env sample_ops [] (device_initial sample_store None) =
     Some ([Lookup (sample_call '':1.5'' 1 ''Claim'' []), Entitled (sample_call '':1.5'' 1 ''Claim'' []) 1000 (ascii ''ada''),
            Acts Claim m (ascii ''ada''), Claimed (ascii '':1.5'') (ascii ''ada''), Reply m (Method_return []),
            Check (ascii '':1.5'') 2, Verdict (ascii '':1.5'') 2 True]
           @ Acts Start (sample_call '':1.5'' 2 ''EnrollStart'' (ascii ''left-thumb'')) (ascii ''ada'')
           # [Reply (sample_call '':1.5'' 2 ''EnrollStart'' (ascii ''left-thumb'')) (Method_return [])], s)"
  by (simp add: sample_ops_def device_defs sample_dispatch_def)


theorem gated_calls_authorized_witness:
  "\<exists>tr s. device_run sample_env (device_initial sample_store None) tr s
    \<and> occurrences (ran (ascii '':1.5'') 2) tr = 1 \<and> occurrences (ran (ascii '':1.5'') 2) tr \<le> occurrences (granted (ascii '':1.5'') 2) tr"
proof -
  obtain m s where r: "device_runs sample_env sample_ops [] (device_initial sample_store None) =
     Some ([Lookup (sample_call '':1.5'' 1 ''Claim'' []), Entitled (sample_call '':1.5'' 1 ''Claim'' []) 1000 (ascii ''ada''),
            Acts Claim m (ascii ''ada''), Claimed (ascii '':1.5'') (ascii ''ada''), Reply m (Method_return []),
            Check (ascii '':1.5'') 2, Verdict (ascii '':1.5'') 2 True]
           @ Acts Start (sample_call '':1.5'' 2 ''EnrollStart'' (ascii ''left-thumb'')) (ascii ''ada'')
           # [Reply (sample_call '':1.5'' 2 ''EnrollStart'' (ascii ''left-thumb'')) (Method_return [])], s)" (is "_ = Some (?tr, s)")
    using sample_run by blast
  have run: "device_run sample_env (device_initial sample_store None) ?tr s"
    by (rule device_runs_run [OF device_run.start r])
  note le = gated_calls_authorized [OF sample_env_ok run, of "ascii '':1.5''" 2]
  have "occurrences (granted (ascii '':1.5'') 2) ?tr = 1" by simp
  moreover have "from_call (ascii '':1.5'') 2 (sample_call '':1.5'' 2 ''EnrollStart'' (ascii ''left-thumb''))"
    by (simp add: from_call_def gated_def sample_call_def)
  then have "1 \<le> occurrences (ran (ascii '':1.5'') 2) ?tr" by simp
  ultimately have "occurrences (ran (ascii '':1.5'') 2) ?tr = 1" using le by linarith
  with run le show ?thesis by blast
qed

theorem calls_entitled_witness:
  "\<exists>tr. holder tr = Some (ascii '':1.5'', ascii ''ada'') \<and> entitled sample_env tr (ascii '':1.5'') (ascii ''ada'')"
proof -
  obtain m s where r: "device_runs sample_env sample_ops [] (device_initial sample_store None) =
     Some ([Lookup (sample_call '':1.5'' 1 ''Claim'' []), Entitled (sample_call '':1.5'' 1 ''Claim'' []) 1000 (ascii ''ada''),
            Acts Claim m (ascii ''ada''), Claimed (ascii '':1.5'') (ascii ''ada''), Reply m (Method_return []),
            Check (ascii '':1.5'') 2, Verdict (ascii '':1.5'') 2 True]
           @ Acts Start (sample_call '':1.5'' 2 ''EnrollStart'' (ascii ''left-thumb'')) (ascii ''ada'')
           # [Reply (sample_call '':1.5'' 2 ''EnrollStart'' (ascii ''left-thumb'')) (Method_return [])], s)"
    using sample_run by blast
  from calls_entitled [OF sample_env_ok device_runs_run [OF device_run.start r]]
  show ?thesis by (auto simp: for_claimed_def sample_call_def)
qed


subsection \<open>What the listener does not check\<close>

text \<open>The rule of the listener for the power signal names its sender, but the filter never looks at who
  sent a signal.\<close>

lemma listener_ignores_sender:
  "rule_field power_rule ''sender'' = ascii ''org.freedesktop.login1''
   \<and> filter_signal rule (msg\<lparr>dm_sender := sender\<rparr>) = filter_signal rule msg"
  by (simp add: filter_signal_def rule_field_def power_rule_def rule_item_def ascii_def Let_def)

definition forged_signal :: dbus_message where
  "forged_signal =
     \<lparr>dm_signal = True, dm_sender = Some (ascii '':1.99''), dm_serial = 7, dm_interface = ascii ''org.freedesktop.DBus'',
      dm_path = [], dm_member = ascii ''NameOwnerChanged'',
      dm_args = [Dbus_string (ascii '':1.5''), Dbus_string (ascii '':1.5''), Dbus_string []], dm_username = None\<rparr>"

lemma forged_accepted: "filter_signal (owner_rule (ascii '':1.5'')) forged_signal"
  by (simp add: filter_signal_def rule_field_def owner_rule_def rule_item_def ascii_def Let_def forged_signal_def)

text \<open>So any client can end the claim of another one with a signal of its own.\<close>

theorem forged_owner_change:
  "\<exists>tr s. device_run sample_env (device_initial sample_store None) (tr @ [Unclaimed forged_signal, Stop_sensor]) s
    \<and> holder tr = Some (ascii '':1.5'', ascii ''ada'') \<and> dm_sender forged_signal = Some (ascii '':1.99'')"
proof -
  let ?ops = "[Call (sample_call '':1.5'' 1 ''Claim'' []), Dispatch (good_answers 1), Uid_reply (Uid 1000) (good_answers 1),
      Signal forged_signal, Dispatch (good_answers 1)]"
  have "\<exists>m s. device_runs sample_env ?ops [] (device_initial sample_store None) =
     Some ([Lookup (sample_call '':1.5'' 1 ''Claim'' []), Entitled (sample_call '':1.5'' 1 ''Claim'' []) 1000 (ascii ''ada''),
            Acts Claim m (ascii ''ada''), Claimed (ascii '':1.5'') (ascii ''ada''), Reply m (Method_return [])]
           @ [Unclaimed forged_signal, Stop_sensor], s)"
    using forged_accepted
    by (simp add: device_defs sample_dispatch_def) (simp add: forged_signal_def sample_hash sample_dispatch_def
        name_owner_changed_def cancel_enroll_verify_def drop_auth_gates_def cancel_tasks_def unclaim_def)
  then obtain m s where "device_runs sample_env ?ops [] (device_initial sample_store None) =
     Some ([Lookup (sample_call '':1.5'' 1 ''Claim'' []), Entitled (sample_call '':1.5'' 1 ''Claim'' []) 1000 (ascii ''ada''),
            Acts Claim m (ascii ''ada''), Claimed (ascii '':1.5'') (ascii ''ada''), Reply m (Method_return [])]
           @ [Unclaimed forged_signal, Stop_sensor], s)" by blast
  from device_runs_run [OF device_run.start this] show ?thesis
    by (intro exI conjI) (assumption, simp_all add: holder_def forged_signal_def)
qed

text \<open>A gate that was tombstoned because its caller released the device is pruned by the gated call of another
  client; the re-queued call then starts a fresh check instead of being dropped.\<close>

theorem tombstone_pruned:
  "\<exists>tr s task. device_run sample_env (device_initial sample_store None) tr s
    \<and> occurrences (granted (ascii '':1.5'') 2) tr = 1 \<and> wd_queue s = []
    \<and> (task, \<lparr>wp_message = sample_call '':1.5'' 2 ''EnrollStart'' [], wp_sent = False\<rparr>) \<in> set (wd_tasks s)"
proof -
  let ?call = "sample_call '':1.5'' 2 ''EnrollStart'' []"
  let ?ops = "[Call (sample_call '':1.5'' 1 ''Claim'' []), Dispatch (good_answers 1), Uid_reply (Uid 1000) (good_answers 1),
      Call ?call, Dispatch (good_answers 1), Send_check True 0,
      Call (sample_call '':1.5'' 3 ''Release'' []), Call (sample_call '':1.7'' 1 ''EnrollStart'' []),
      Check_done (Polkit_return [Dbus_struct [Dbus_boolean True]]) 0,
      Dispatch (good_answers 1), Dispatch (good_answers 1), Dispatch (good_answers 1)]"
  have "\<exists>tr s. device_runs sample_env ?ops [] (device_initial sample_store None) = Some (tr, s)
    \<and> occurrences (granted (ascii '':1.5'') 2) tr = 1 \<and> wd_queue s = []
    \<and> (2, \<lparr>wp_message = ?call, wp_sent = False\<rparr>) \<in> set (wd_tasks s)"
    by (simp add: device_defs sample_dispatch_def release_def cancel_enroll_verify_def drop_auth_gates_def
        cancel_tasks_def unclaim_def)
  then show ?thesis using device_runs_run [OF device_run.start] by blast
qed

end
