(* ===== verification/Spec2Isabelle.thy ===== *)
theory Spec2Isabelle
  imports TemplateUpdate GroupPayload Session Storage Protocol UsbTransfer Verification Operation ReaderSession Access
begin

text \<open>
  Formal model of the driver of the FPC 10a5:9201 fingerprint reader: the recovered native matcher
  (\<^verbatim>\<open>src/src/drv_fpc/native\<close>, C) and the daemon around it (\<^verbatim>\<open>src/src/drv_fpc\<close>, C++).

  The program. The reader speaks over USB. \<^verbatim>\<open>usb_transfer.hpp\<close> owns the transfers;
  \<^verbatim>\<open>protocol.hpp\<close> cuts the received bytes into events, some of them through a TLS tunnel whose
  key the reader wraps (\<^verbatim>\<open>tls_key.hpp\<close>). \<^verbatim>\<open>WorkerControl\<close> of \<^verbatim>\<open>fpc9201.cpp\<close> runs the session with the
  reader and hands images to \<^verbatim>\<open>WorkerEnrollVerify\<close>, which prepares them (\<^verbatim>\<open>profile300.c\<close>), adds them
  to an enrollment (\<^verbatim>\<open>enrollment.c\<close>) or verifies them against the store (\<^verbatim>\<open>fingerprint.cpp\<close>); both rest on
  the matcher and the template codec of \<^verbatim>\<open>fpc_recovered.c\<close>. \<^verbatim>\<open>WorkerDevice\<close> serves the D-Bus clients, with
  the polkit in front of the methods that change the store.

  Conventions. A C function is a definition of its name: machine integers are words of their width or
  \<^typ>\<open>int\<close> where the code cannot overflow, arrays are lists, structs are records, an error code is \<open>Inl\<close> or
  a status, an exception is \<open>Inl\<close> of its message. The outer \<^typ>\<open>'a option\<close> of a result is \<open>None\<close> when the code would
  read or write outside an object, dereference a null pointer, overflow a signed integer or run out of fuel, so that a theorem
  that a call returns \<open>Some\<close> is a theorem of memory safety and termination. \<open>al n\<close> says whether an allocation of \<open>n\<close> bytes
  succeeds; \<open>heap\<close> is what uninitialized memory holds. Single-precision floats are the type \<open>f32\<close> of Float32, with
  IEEE rounding; literal constants are given by their bits.

  The matcher.
  \<^item> Prelude: word and buffer helpers (\<^verbatim>\<open>store_le32\<close>, \<^verbatim>\<open>le32\<close>, \<open>rd\<close> for a checked read), rasters and filled rows.
  \<^item> Framing, PairPayload, GroupPayload, CapturePayload, RetainedGraph, TemplateCodec: the CRC-framed
    template file and its parts, with round trips, exact acceptance, and loads of arbitrary bytes that stay
    in bounds. PairScores and TemplateUpdate: the triangular score table, the choice of the capture to
    replace, and the update of a template after a match.
  \<^item> Float32, Filters, Masks, Defects, Detect, Orientation, Sampling, Ranking, Extract: image filters,
    masks, raw pixel defects, the Harris and Hessian detectors, orientation field, descriptor patches, the
    quicksort with its partition loop and the spatial selection, and the extraction of features.
  \<^item> Transforms, TransformTables, CosineTransform, Enhance, Prepare: the cosine transform, normalization,
    projection correction, the capture mask and \<^verbatim>\<open>fpc_profile300_prepare\<close>. Prepared: the preparation
    always returns and hands over what the session and the store assume.
  \<^item> Descriptor, Geometry, Matching, CaptureGroups, Metrics, Progress, Session: candidate pairs, the
    geometric verification, matching of captures and identification, regrouping, metrics and progress,
    and the enrollment session as a refinement of an abstract machine.

  The daemon.
  \<^item> OrderedMap, Storage, Enrolled, Verification: \<^verbatim>\<open>std::map\<close> as a sorted association list (locale \<open>dictionary\<close>
    with its interpretation), the encrypted database file, insertion, deletion, loading, rollback,
    and \<^verbatim>\<open>FingerprintStorage::verify\<close>. A store whose templates come from this program keeps that property.
  \<^item> Protocol, UsbTransfer: the framer and its clients, the parsers of reader reports, the key
    unwrapping, and the ownership of USB transfers as a step relation over a libusb that rejects misuse.
  \<^item> Scan, Operation: one enroll or verify operation (\<^verbatim>\<open>WorkerEnrollVerify\<close>), from the frames of an image to the
    stored record, and its properties on every run.
  \<^item> Control, ReaderSession: the session with the reader (\<^verbatim>\<open>WorkerControl\<close>): its start, its events, the cycle of a
    capture, failures and recovery, with observers of the link and of the captures (Machine: runs of such tasks, the locale
    \<open>reactive\<close> of a machine with its invariant).
  \<^item> Device, Authorization, Access: the D-Bus device, its claim and its authorization gates,
    under every interleaving of calls, signals and answers.

  Bounds and fuel. \<open>search_loop\<close> of the geometric verification runs at most 10000 iterations, the limit of the code;
  the quicksort has the number of records as its depth; \<open>draw_features\<close> has nine steps per wanted feature;
  \<open>seed_groups\<close> and \<open>grow_group\<close> have the number of captures. In each case a theorem shows that the fuel suffices.
  Loops over lists are structural; \<open>dispatch_frames\<close> shrinks its buffer.

  Parameters and what is assumed of them. The authenticated cipher (\<open>aead\<close>: what was sealed is unsealed), SHA-256, HMAC
  and AES-CBC; the answers of the file system to a save; the capacity of a buffer (positive); libusb (the guards of \<open>libusb_close\<close> and the others are
  its documented preconditions); for the device, the hash of names (no collision among the cases of a \<^verbatim>\<open>switch\<close>, or it would
  not compile), the dispatch of the D-Bus library and the passwd database. \<open>sa_nonce = None\<close> also stands for a failed
  encryption. \<^verbatim>\<open>std::sort\<close> in \<^verbatim>\<open>foreach\<close> is a stable sort here: registrations are distinct, so no order is lost.

  Not modelled. Functions that only free or wipe memory; null data pointers and the failing \<^verbatim>\<open>calloc\<close> of a
  session; the generated coefficient tables, which are arguments (the literal tables of the cosine transform are
  in TransformTables); the introspection data and properties of the D-Bus object; the BIO pipe and
  the TLS handshake (\<^verbatim>\<open>fpcbio\<close>) and the task runtime, which are OpenSSL and a library outside the repository;
  \<^verbatim>\<open>manager.cpp\<close> and \<^verbatim>\<open>main.cpp\<close> (option parsing, registration with the bus, hot-plug callbacks); \<^verbatim>\<open>cvext.cpp\<close>, which
  calls OpenCV and is not linked by the driver; \<^verbatim>\<open>docs/fpc.c\<close>, a protocol probe; tests and tools.
\<close>

end
